(* ===== verification/Prelude.thy ===== *)
theory Prelude
  imports "HOL-Library.Word" "HOL-Library.Multiset" "HOL-Library.AList"
    "HOL-Library.Product_Lexorder" "HOL-Library.List_Lexorder" "HOL-Library.Char_ord"
begin

unbundle bit_operations_syntax

text \<open>
  What the components share: the machine types, the result type of fallible Rust code
  and its \<open>?\<close> operator, loops that stop at the first error, decimal printing and
  parsing, UTF-8 strings, little-endian integers, slices, hash maps and hash sets, and
  the interface of an invariant kept by the steps of a machine.

  A Rust \<open>Result<T, E>\<close> is \<open>'e + 'a\<close> with \<open>Inl\<close> the error.  A string is the list of
  its UTF-8 bytes.  A \<open>HashMap\<close> is an association list with distinct keys and a
  \<open>HashSet\<close> a list without repetition; the iteration order of either is not specified
  by the standard library, so an operation that iterates takes the order as a parameter
  that permutes the entries.
\<close>

section \<open>Types\<close>

type_synonym u8 = "8 word"
type_synonym u32 = "32 word"
type_synonym u64 = "64 word"
type_synonym bytes = "u8 list"

named_theorems result_simps \<open>what a successful or failing result means\<close>
named_theorems codec_simps \<open>lengths and round trips of encodings\<close>
named_theorems order_simps \<open>facts about the iteration orders of hash containers\<close>

section \<open>Results\<close>

fun and_then :: "'e + 'a \<Rightarrow> ('a \<Rightarrow> 'e + 'b) \<Rightarrow> 'e + 'b" where
  "and_then (Inl e) f = Inl e"
| "and_then (Inr a) f = f a"

definition ensure :: "bool \<Rightarrow> 'e \<Rightarrow> 'e + unit" where
  "ensure b e = (if b then Inr () else Inl e)"

fun for_each :: "('a \<Rightarrow> 'e + unit) \<Rightarrow> 'a list \<Rightarrow> 'e + unit" where
  "for_each f [] = Inr ()"
| "for_each f (x # xs) = and_then (f x) (\<lambda>_. for_each f xs)"

definition map_err :: "('e \<Rightarrow> 'd) \<Rightarrow> 'e + 'a \<Rightarrow> 'd + 'a" where
  "map_err f r = (case r of Inl e \<Rightarrow> Inl (f e) | Inr a \<Rightarrow> Inr a)"

lemma map_err_simps [simp]: "map_err f (Inl e) = Inl (f e)" "map_err f (Inr a) = Inr a"
  by (simp_all add: map_err_def)

definition is_ok :: "'e + 'a \<Rightarrow> bool" where
  "is_ok r = (case r of Inl _ \<Rightarrow> False | Inr _ \<Rightarrow> True)"

lemma and_then_Inr_iff [result_simps]:
  "and_then r f = Inr b \<longleftrightarrow> (\<exists>a. r = Inr a \<and> f a = Inr b)"
  by (cases r) auto

lemma and_then_Inl_iff [result_simps]:
  "and_then r f = Inl e \<longleftrightarrow> r = Inl e \<or> (\<exists>a. r = Inr a \<and> f a = Inl e)"
  by (cases r) auto

lemma ensure_Inr_iff [result_simps]: "ensure b e = Inr u \<longleftrightarrow> b"
  by (simp add: ensure_def)

lemma ensure_Inl_iff [result_simps]: "ensure b e = Inl d \<longleftrightarrow> \<not> b \<and> d = e"
  by (auto simp add: ensure_def)

lemma for_each_Inr_iff [result_simps]:
  "for_each f xs = Inr u \<longleftrightarrow> (\<forall>x\<in>set xs. f x = Inr ())"
  by (induction xs) (auto simp add: and_then_Inr_iff)

lemma map_err_Inr_iff [result_simps]: "map_err f r = Inr a \<longleftrightarrow> r = Inr a"
  by (cases r) (auto simp add: map_err_def)

lemma map_err_Inl_iff [result_simps]: "map_err f r = Inl d \<longleftrightarrow> (\<exists>e. r = Inl e \<and> d = f e)"
  by (cases r) (auto simp add: map_err_def)

lemma is_ok_iff [result_simps]: "is_ok r \<longleftrightarrow> (\<exists>a. r = Inr a)"
  by (cases r) (auto simp add: is_ok_def)

lemma unit_result_cases: "(r :: 'e + unit) = Inr () \<or> (\<exists>e. r = Inl e)"
  by (cases r) auto

section \<open>Decimal numbers\<close>

definition digit_char :: "nat \<Rightarrow> char" where
  "digit_char d = char_of (48 + d)"

function show_nat :: "nat \<Rightarrow> string" where
  "show_nat n =
     (if n < 10 then [digit_char n] else show_nat (n div 10) @ [digit_char (n mod 10)])"
  by pat_completeness auto
termination
  by (relation "measure id") auto

declare show_nat.simps [simp del]

definition is_digit :: "char \<Rightarrow> bool" where
  "is_digit c \<longleftrightarrow> 48 \<le> (of_char c :: nat) \<and> (of_char c :: nat) \<le> 57"

definition digit_val :: "char \<Rightarrow> nat" where
  "digit_val c = of_char c - 48"

definition digits_val :: "string \<Rightarrow> nat" where
  "digits_val s = fold (\<lambda>c a. 10 * a + digit_val c) s 0"

lemma digit_char_val: "d < 10 \<Longrightarrow> digit_val (digit_char d) = d \<and> is_digit (digit_char d)"
  by (simp add: digit_char_def digit_val_def is_digit_def)

lemma digits_val_append: "digits_val (s @ [c]) = 10 * digits_val s + digit_val c"
  by (simp add: digits_val_def)

lemma show_nat_digits: "show_nat n \<noteq> [] \<and> list_all is_digit (show_nat n)"
proof (induction n rule: show_nat.induct)
  case (1 n)
  then show ?case
    by (auto simp add: show_nat.simps [of n] digit_char_val)
qed

lemma digits_val_show_nat: "digits_val (show_nat n) = n"
proof (induction n rule: show_nat.induct)
  case (1 n)
  then show ?case
    by (simp add: show_nat.simps [of n] digits_val_append digit_char_val)
      (simp add: digits_val_def digit_char_val)
qed

section \<open>Strings\<close>

text \<open>The code points of a UTF-8 byte sequence (exact on the well-formed sequences a
  Rust \<open>str\<close> holds).\<close>

definition cont_bits :: "char \<Rightarrow> nat" where
  "cont_bits c = of_char c mod 64"

function utf8_chars :: "string \<Rightarrow> nat list" where
  "utf8_chars [] = []"
| "utf8_chars (c # s) =
     (let b = of_char c :: nat in
      if b < 128 then b # utf8_chars s
      else if b < 224 then
        (b mod 32 * 64 + fold (\<lambda>c a. a * 64 + cont_bits c) (take 1 s) 0)
          # utf8_chars (drop 1 s)
      else if b < 240 then
        (b mod 16 * 4096 + fold (\<lambda>c a. a * 64 + cont_bits c) (take 2 s) 0)
          # utf8_chars (drop 2 s)
      else
        (b mod 8 * 262144 + fold (\<lambda>c a. a * 64 + cont_bits c) (take 3 s) 0)
          # utf8_chars (drop 3 s))"
  by pat_completeness auto
termination
  by (relation "measure length") auto

text \<open>\<open>char::is_control\<close>: the code points of category Cc.\<close>

definition is_control :: "nat \<Rightarrow> bool" where
  "is_control c \<longleftrightarrow> c < 32 \<or> (127 \<le> c \<and> c < 160)"

definition is_ascii_alnum :: "nat \<Rightarrow> bool" where
  "is_ascii_alnum c \<longleftrightarrow> (48 \<le> c \<and> c \<le> 57) \<or> (65 \<le> c \<and> c \<le> 90) \<or> (97 \<le> c \<and> c \<le> 122)"

text \<open>\<open>char::is_alphanumeric\<close>: exact on ASCII; the Unicode tables beyond ASCII are the
  parameter \<open>uni\<close>.\<close>

definition is_alphanumeric :: "(nat \<Rightarrow> bool) \<Rightarrow> nat \<Rightarrow> bool" where
  "is_alphanumeric uni c \<longleftrightarrow> (if c < 128 then is_ascii_alnum c else uni c)"

definition is_ascii_hexdigit :: "nat \<Rightarrow> bool" where
  "is_ascii_hexdigit c \<longleftrightarrow>
     (48 \<le> c \<and> c \<le> 57) \<or> (65 \<le> c \<and> c \<le> 70) \<or> (97 \<le> c \<and> c \<le> 102)"

fun has_prefix :: "'a list \<Rightarrow> 'a list \<Rightarrow> bool" where
  "has_prefix [] s = True"
| "has_prefix (p # ps) [] = False"
| "has_prefix (p # ps) (x # s) = (p = x \<and> has_prefix ps s)"

fun contains_sub :: "'a list \<Rightarrow> 'a list \<Rightarrow> bool" where
  "contains_sub p [] = (p = [])"
| "contains_sub p (x # s) = (has_prefix p (x # s) \<or> contains_sub p s)"

lemma has_prefix_iff: "has_prefix p s \<longleftrightarrow> (\<exists>t. s = p @ t)"
  by (induction p s rule: has_prefix.induct) auto

lemma contains_sub_iff: "contains_sub p s \<longleftrightarrow> (\<exists>a b. s = a @ p @ b)"
proof (induction s)
  case Nil
  then show ?case by simp
next
  case (Cons x s)
  show ?case
  proof
    assume "contains_sub p (x # s)"
    then consider "has_prefix p (x # s)" | "contains_sub p s" by auto
    then show "\<exists>a b. x # s = a @ p @ b"
    proof cases
      case 1
      then obtain t where "x # s = p @ t" unfolding has_prefix_iff by blast
      then have "x # s = [] @ p @ t" by simp
      then show ?thesis by blast
    next
      case 2
      then obtain a b where "s = a @ p @ b" using Cons.IH by blast
      then have "x # s = (x # a) @ p @ b" by simp
      then show ?thesis by blast
    qed
  next
    assume "\<exists>a b. x # s = a @ p @ b"
    then obtain a b where ab: "x # s = a @ p @ b" by blast
    show "contains_sub p (x # s)"
    proof (cases a)
      case Nil
      with ab have "has_prefix p (x # s)" by (simp add: has_prefix_iff)
      then show ?thesis by (simp del: has_prefix.simps)
    next
      case (Cons y a')
      with ab have "s = a' @ p @ b" by simp
      with Cons.IH have "contains_sub p s" by blast
      then show ?thesis by simp
    qed
  qed
qed

text \<open>\<open>str::split\<close> on one ASCII character.\<close>

fun split_on :: "'a \<Rightarrow> 'a list \<Rightarrow> 'a list list" where
  "split_on d [] = [[]]"
| "split_on d (x # s) =
     (if x = d then [] # split_on d s
      else (case split_on d s of [] \<Rightarrow> [[x]] | w # ws \<Rightarrow> (x # w) # ws))"

lemma split_on_nonempty: "split_on d s \<noteq> []"
  by (induction s) (auto split: list.splits)

lemma split_on_no_sep: "d \<notin> set s \<Longrightarrow> split_on d s = [s]"
  by (induction s) auto

lemma split_on_append: "d \<notin> set s \<Longrightarrow> split_on d (s @ d # t) = s # split_on d t"
  by (induction s) auto

lemma split_on_first: "split_on d q = v # vs \<Longrightarrow> \<exists>b. q = v @ b"
proof (induction q arbitrary: v vs)
  case Nil
  then show ?case by simp
next
  case (Cons y q)
  then show ?case
    by (cases "y = d"; cases "split_on d q") (auto simp add: split_on_nonempty)
qed

text \<open>Every piece of a split string is a substring of it.\<close>

lemma split_on_piece: "w \<in> set (split_on d q) \<Longrightarrow> \<exists>a b. q = a @ w @ b"
proof (induction q arbitrary: w)
  case Nil
  then show ?case by simp
next
  case (Cons x q)
  obtain v vs where v: "split_on d q = v # vs"
    using split_on_nonempty [of d q] by (cases "split_on d q") auto
  from split_on_first [OF v] obtain b where b: "q = v @ b" ..
  show ?case
  proof (cases "w \<in> set (split_on d q)")
    case True
    then obtain a c where "x # q = (x # a) @ w @ c" using Cons.IH by fastforce
    then show ?thesis by blast
  next
    case False
    with Cons.prems v have "w = [] \<or> w = x # v" by (auto split: if_splits)
    then show ?thesis using b by (auto intro: exI [of _ "[]"])
  qed
qed

lemma find_SomeD: "find P xs = Some x \<Longrightarrow> x \<in> set xs \<and> P x"
  by (induction xs) (auto split: if_splits)

lemma find_NoneD: "find P xs = None \<Longrightarrow> x \<in> set xs \<Longrightarrow> \<not> P x"
  by (auto simp add: find_None_iff)

lemma set_map_filter_option: "c \<in> set (List.map_filter f xs) \<longleftrightarrow> (\<exists>x\<in>set xs. f x = Some c)"
  by (induction xs) (auto simp add: map_filter_simps split: option.splits)

section \<open>Slices\<close>

text \<open>\<open>xs[a..b]\<close>: \<open>None\<close> is the panic of a range that does not fit.\<close>

definition subslice :: "'a list \<Rightarrow> nat \<Rightarrow> nat \<Rightarrow> 'a list option" where
  "subslice xs a b = (if a \<le> b \<and> b \<le> length xs then Some (take (b - a) (drop a xs)) else None)"

lemma subslice_ok: "a \<le> b \<Longrightarrow> b \<le> length xs \<Longrightarrow> subslice xs a b = Some (take (b - a) (drop a xs))"
  by (simp add: subslice_def)

lemma subslice_Some_length: "subslice xs a b = Some ys \<Longrightarrow> length ys = b - a"
  by (auto simp add: subslice_def split: if_splits)

lemma subslice_then_rest:
  "a \<le> b \<Longrightarrow> b \<le> length xs \<Longrightarrow> take (b - a) (drop a xs) @ drop b xs = drop a xs"
  by (metis append_take_drop_id drop_drop le_add_diff_inverse2)

lemma subslice_middle: "subslice (xs @ ys @ zs) (length xs) (length xs + length ys) = Some ys"
  by (simp add: subslice_def)

end
