(* ===== verification/Containers.thy ===== *)
theory Containers
  imports Prelude
begin

text \<open>
  The standard library's \<open>HashMap\<close> and \<open>HashSet\<close> as the components use them, the
  dictionary interface the components' lemmas are proved over, and the iteration order
  as a parameter.  A map is an association list with distinct keys; collecting pairs
  keeps the last value of a repeated key, as \<open>FromIterator\<close> does.
\<close>

section \<open>Iteration order\<close>

text \<open>An iteration visits every entry exactly once, in an order the caller cannot rely on.\<close>

definition iter_order :: "('a list \<Rightarrow> 'a list) \<Rightarrow> bool" where
  "iter_order it \<longleftrightarrow> (\<forall>xs. mset (it xs) = mset xs)"

lemma iter_order_mset [order_simps]: "iter_order it \<Longrightarrow> mset (it xs) = mset xs"
  by (simp add: iter_order_def)

lemma iter_order_set [order_simps]: "iter_order it \<Longrightarrow> set (it xs) = set xs"
  by (metis iter_order_def mset_eq_setD)

lemma iter_order_length [order_simps]: "iter_order it \<Longrightarrow> length (it xs) = length xs"
  by (metis iter_order_def mset_eq_length)

lemma iter_order_distinct [order_simps]: "iter_order it \<Longrightarrow> distinct (it xs) = distinct xs"
  by (metis iter_order_def mset_eq_imp_distinct_iff)

lemma iter_order_map_mset:
  "iter_order it \<Longrightarrow> mset (map f (it xs)) = mset (map f xs)"
  by (simp add: iter_order_mset)

lemma iter_order_id: "iter_order (\<lambda>xs. xs)"
  by (simp add: iter_order_def)

lemma iter_order_rev: "iter_order rev"
  by (simp add: iter_order_def)

section \<open>The dictionary interface\<close>

locale dictionary =
  fixes get :: "'m \<Rightarrow> 'k \<Rightarrow> 'v option"
    and put :: "'k \<Rightarrow> 'v \<Rightarrow> 'm \<Rightarrow> 'm"
    and del :: "'k \<Rightarrow> 'm \<Rightarrow> 'm"
    and empty :: "'m"
    and wf :: "'m \<Rightarrow> bool"
  assumes wf_empty: "wf empty"
    and wf_put: "wf m \<Longrightarrow> wf (put k v m)"
    and wf_del: "wf m \<Longrightarrow> wf (del k m)"
    and get_empty: "get empty k = None"
    and get_put: "wf m \<Longrightarrow> get (put k v m) j = (if j = k then Some v else get m j)"
    and get_del: "wf m \<Longrightarrow> get (del k m) j = (if j = k then None else get m j)"
begin

fun put_all :: "('k \<times> 'v) list \<Rightarrow> 'm \<Rightarrow> 'm" where
  "put_all [] m = m"
| "put_all ((k, v) # xs) m = put_all xs (put k v m)"

lemma wf_put_all: "wf m \<Longrightarrow> wf (put_all xs m)"
  by (induction xs m rule: put_all.induct) (auto intro: wf_put)

lemma get_put_all:
  "wf m \<Longrightarrow> get (put_all xs m) k = (case map_of (rev xs) k of None \<Rightarrow> get m k | Some v \<Rightarrow> Some v)"
proof (induction xs m rule: put_all.induct)
  case (1 m)
  then show ?case by simp
next
  case (2 j v xs m)
  then show ?case
    by (auto simp add: get_put wf_put map_add_def split: option.splits)
qed

lemma get_put_same: "wf m \<Longrightarrow> get (put k v m) k = Some v"
  by (simp add: get_put)

lemma put_put_get: "wf m \<Longrightarrow> get (put k v (put k w m)) j = get (put k v m) j"
  by (simp add: get_put wf_put)

lemma del_absent: "wf m \<Longrightarrow> get m k = None \<Longrightarrow> get (del k m) j = get m j"
  by (simp add: get_del)

end

section \<open>Hash maps\<close>

type_synonym ('k, 'v) hmap = "('k \<times> 'v) list"

definition hm_get :: "('k, 'v) hmap \<Rightarrow> 'k \<Rightarrow> 'v option" where
  "hm_get m k = map_of m k"

definition hm_put :: "'k \<Rightarrow> 'v \<Rightarrow> ('k, 'v) hmap \<Rightarrow> ('k, 'v) hmap" where
  "hm_put k v m = AList.update k v m"

definition hm_del :: "'k \<Rightarrow> ('k, 'v) hmap \<Rightarrow> ('k, 'v) hmap" where
  "hm_del k m = AList.delete k m"

definition hm_wf :: "('k, 'v) hmap \<Rightarrow> bool" where
  "hm_wf m \<longleftrightarrow> distinct (map fst m)"

fun hm_extend :: "('k \<times> 'v) list \<Rightarrow> ('k, 'v) hmap \<Rightarrow> ('k, 'v) hmap" where
  "hm_extend [] m = m"
| "hm_extend ((k, v) # xs) m = hm_extend xs (hm_put k v m)"

definition hm_collect :: "('k \<times> 'v) list \<Rightarrow> ('k, 'v) hmap" where
  "hm_collect xs = hm_extend xs []"

text \<open>\<open>get_mut\<close>: change the value in place when the key is present.\<close>

definition hm_modify :: "'k \<Rightarrow> ('v \<Rightarrow> 'v) \<Rightarrow> ('k, 'v) hmap \<Rightarrow> ('k, 'v) hmap" where
  "hm_modify k f m = map (\<lambda>(j, v). (j, if j = k then f v else v)) m"

text \<open>\<open>entry(k).or_insert_with(d)\<close>: the value is inserted when the key is absent.\<close>

definition hm_or_insert :: "'k \<Rightarrow> 'v \<Rightarrow> ('k, 'v) hmap \<Rightarrow> ('k, 'v) hmap" where
  "hm_or_insert k d m = (case hm_get m k of None \<Rightarrow> hm_put k d m | Some _ \<Rightarrow> m)"

definition hm_has :: "('k, 'v) hmap \<Rightarrow> 'k \<Rightarrow> bool" where
  "hm_has m k \<longleftrightarrow> hm_get m k \<noteq> None"

interpretation hm: dictionary hm_get hm_put hm_del "[]" hm_wf
proof
  fix m :: "('a, 'b) hmap" and k :: 'a and v :: 'b and j
  show "hm_wf ([] :: ('a, 'b) hmap)" by (simp add: hm_wf_def)
  show "hm_wf (hm_put k v m)" if "hm_wf m"
    using that by (simp add: hm_wf_def hm_put_def distinct_update)
  show "hm_wf (hm_del k m)" if "hm_wf m"
    using that by (simp add: hm_wf_def hm_del_def distinct_delete)
  show "hm_get ([] :: ('a, 'b) hmap) k = None" by (simp add: hm_get_def)
  show "hm_get (hm_put k v m) j = (if j = k then Some v else hm_get m j)"
    by (simp add: hm_get_def hm_put_def update_conv')
  show "hm_get (hm_del k m) j = (if j = k then None else hm_get m j)"
    by (simp add: hm_get_def hm_del_def delete_conv')
qed

lemma hm_extend_put_all: "hm_extend xs m = hm.put_all xs m"
  by (induction xs m rule: hm_extend.induct) auto

lemma hm_wf_extend: "hm_wf m \<Longrightarrow> hm_wf (hm_extend xs m)"
  unfolding hm_extend_put_all by (rule hm.wf_put_all)

lemma hm_wf_collect [simp]: "hm_wf (hm_collect xs)"
  by (simp add: hm_collect_def hm_wf_extend hm.wf_empty)

lemma hm_get_collect: "hm_get (hm_collect xs) k = map_of (rev xs) k"
  by (simp add: hm_collect_def hm_extend_put_all hm.get_put_all hm.wf_empty hm.get_empty
      split: option.splits)

lemma hm_get_collect_keyed:
  "hm_get (hm_collect (map (\<lambda>f. (key f, f)) fs)) k = Some f \<Longrightarrow> f \<in> set fs \<and> key f = k"
  by (auto simp add: hm_get_collect dest!: map_of_SomeD)

lemma hm_get_collect_None:
  "hm_get (hm_collect (map (\<lambda>f. (key f, f)) fs)) k = None \<longleftrightarrow> k \<notin> key ` set fs"
  by (auto simp add: hm_get_collect map_of_eq_None_iff image_image)

lemma hm_get_collect_distinct:
  assumes "distinct (map key fs)" and "f \<in> set fs"
  shows "hm_get (hm_collect (map (\<lambda>f. (key f, f)) fs)) (key f) = Some f"
proof -
  have "distinct (map fst (rev (map (\<lambda>f. (key f, f)) fs)))"
    using assms(1) by (simp add: rev_map [symmetric] comp_def)
  moreover have "(key f, f) \<in> set (rev (map (\<lambda>f. (key f, f)) fs))"
    using assms(2) by auto
  ultimately show ?thesis by (simp add: hm_get_collect)
qed

lemma hm_mem_iff: "hm_wf m \<Longrightarrow> (k, v) \<in> set m \<longleftrightarrow> hm_get m k = Some v"
  by (simp add: hm_wf_def hm_get_def)

lemma hm_has_iff: "hm_has m k \<longleftrightarrow> k \<in> fst ` set m"
  by (simp add: hm_has_def hm_get_def map_of_eq_None_iff) 

lemma hm_get_modify: "hm_get (hm_modify k f m) j =
    (if j = k then map_option f (hm_get m j) else hm_get m j)"
  by (induction m) (auto simp add: hm_get_def hm_modify_def)

lemma hm_modify_keys [simp]: "map fst (hm_modify k f m) = map fst m"
  by (induction m) (auto simp add: hm_modify_def)

lemma hm_wf_modify [simp]: "hm_wf (hm_modify k f m) = hm_wf m"
  by (simp add: hm_wf_def)

lemma list_all_put:
  "list_all (\<lambda>(k, p). P k p) m \<Longrightarrow> P k v \<Longrightarrow> list_all (\<lambda>(k, p). P k p) (hm_put k v m)"
  by (induction m) (auto simp add: hm_put_def)

lemma list_all_modify:
  "list_all (\<lambda>(k, p). P k p) m \<Longrightarrow> (\<And>p. P k p \<Longrightarrow> P k (f p)) \<Longrightarrow>
   list_all (\<lambda>(k, p). P k p) (hm_modify k f m)"
  by (induction m) (auto simp add: hm_modify_def)

lemma list_all_modify_at:
  assumes "hm_wf m" and "hm_get m k = Some v" and "list_all (\<lambda>(k, p). P k p) m" and "P k (f v)"
  shows "list_all (\<lambda>(k, p). P k p) (hm_modify k f m)"
  using assms hm_mem_iff [OF assms(1)]
  by (fastforce simp add: list_all_iff hm_modify_def)

lemma hm_put_nonempty [simp]: "hm_put k v m \<noteq> []"
  by (cases m) (auto simp add: hm_put_def)

lemma hm_modify_nil [simp]: "hm_modify k f m = [] \<longleftrightarrow> m = []"
  by (simp add: hm_modify_def)

lemma hm_get_or_insert: "hm_wf m \<Longrightarrow> hm_get (hm_or_insert k d m) j =
    (if j = k \<and> hm_get m k = None then Some d else hm_get m j)"
  by (auto simp add: hm_or_insert_def hm.get_put split: option.splits)

lemma hm_wf_or_insert: "hm_wf m \<Longrightarrow> hm_wf (hm_or_insert k d m)"
  by (auto simp add: hm_or_insert_def hm.wf_put split: option.splits)

lemma hm_wf_filter: "hm_wf m \<Longrightarrow> hm_wf (filter P m)"
  by (auto simp add: hm_wf_def distinct_map_filter)

lemma hm_get_filter: "hm_wf m \<Longrightarrow> hm_get (filter P m) k = Some v \<Longrightarrow> hm_get m k = Some v"
  using hm_mem_iff [OF hm_wf_filter, of m k v P] hm_mem_iff [of m k v] by simp

section \<open>Hash sets\<close>

type_synonym 'a hset = "'a list"

definition hs_add :: "'a \<Rightarrow> 'a hset \<Rightarrow> 'a hset" where
  "hs_add x s = List.insert x s"

definition hs_del :: "'a \<Rightarrow> 'a hset \<Rightarrow> 'a hset" where
  "hs_del x s = removeAll x s"

fun hs_extend :: "'a list \<Rightarrow> 'a hset \<Rightarrow> 'a hset" where
  "hs_extend [] s = s"
| "hs_extend (x # xs) s = hs_extend xs (hs_add x s)"

lemma set_hs_add [simp]: "set (hs_add x s) = insert x (set s)"
  by (simp add: hs_add_def)

lemma set_hs_del [simp]: "set (hs_del x s) = set s - {x}"
  by (simp add: hs_del_def)

lemma distinct_hs_add [simp]: "distinct s \<Longrightarrow> distinct (hs_add x s)"
  by (simp add: hs_add_def)

lemma distinct_hs_del [simp]: "distinct s \<Longrightarrow> distinct (hs_del x s)"
  by (simp add: hs_del_def distinct_removeAll)

lemma set_hs_extend [simp]: "set (hs_extend xs s) = set xs \<union> set s"
  by (induction xs s rule: hs_extend.induct) auto

lemma distinct_hs_extend [simp]: "distinct s \<Longrightarrow> distinct (hs_extend xs s)"
  by (induction xs s rule: hs_extend.induct) auto

lemma length_hs_del: "distinct s \<Longrightarrow> x \<in> set s \<Longrightarrow> Suc (length (hs_del x s)) = length s"
  unfolding hs_del_def
  by (metis One_nat_def Suc_pred distinct_remove1_removeAll length_pos_if_in_set length_remove1)

lemma length_hs_del_ge: "distinct s \<Longrightarrow> length s \<le> Suc (length (hs_del x s))"
  by (cases "x \<in> set s") (simp_all add: length_hs_del, simp add: hs_del_def)

lemma hs_extend_nil_iff: "hs_extend xs s = [] \<longleftrightarrow> xs = [] \<and> s = []"
  by (metis Un_empty set_empty set_hs_extend)

end
