(* ===== verification/Machines.thy ===== *)
theory Machines
  imports Main
begin

text \<open>
  The contract shared by the components that are state machines: a start state, an input
  step and an invariant that the start state has and every step keeps.  From it: every
  run keeps the invariant, runs compose, and what holds of every step holds along a run.
\<close>

locale machine =
  fixes step :: "'i \<Rightarrow> 's \<Rightarrow> 's"
    and inv :: "'s \<Rightarrow> bool"
  assumes inv_step: "inv s \<Longrightarrow> inv (step i s)"
begin

fun run :: "'i list \<Rightarrow> 's \<Rightarrow> 's" where
  "run [] s = s"
| "run (i # is) s = run is (step i s)"

lemma run_append: "run (is @ js) s = run js (run is s)"
  by (induction "is" arbitrary: s) auto

lemma run_eq_fold: "run is s = fold step is s"
  by (induction "is" arbitrary: s) auto

lemma inv_run: "inv s \<Longrightarrow> inv (run is s)"
  by (induction "is" arbitrary: s) (auto intro: inv_step)

lemma inv_fold: "inv s \<Longrightarrow> inv (fold step is s)"
  using inv_run by (simp add: run_eq_fold)

end

text \<open>A machine that implements another one: an abstraction maps its steps to steps of the
  abstract machine, so it maps every run to the abstract run of the same inputs.\<close>

locale simulation = machine step inv
  for step :: "'i \<Rightarrow> 's \<Rightarrow> 's" and inv :: "'s \<Rightarrow> bool" +
  fixes abs_step :: "'i \<Rightarrow> 'a \<Rightarrow> 'a"
    and abs :: "'s \<Rightarrow> 'a"
  assumes abs_step: "inv s \<Longrightarrow> abs (step i s) = abs_step i (abs s)"
begin

lemma abs_fold: "inv s \<Longrightarrow> abs (fold step is s) = fold abs_step is (abs s)"
  by (induction "is" arbitrary: s) (simp_all add: abs_step inv_step)

end

end
