(* ===== verification/Codec.thy ===== *)
theory Codec
  imports Prelude
begin

text \<open>
  Fixed-width integers as bytes: the \<open>to_le_bytes\<close>, \<open>from_le_bytes\<close>,
  \<open>to_be_bytes\<close> and \<open>from_be_bytes\<close> of the standard library, and the readers that
  take a fixed number of bytes off a stream and fail when the stream is short.
\<close>

lemma unat_u8_less: "unat (b :: u8) < 256"
  by (rule order_less_le_trans [OF unsigned_less]) simp

lemma unat_u32_less: "unat (b :: u32) < 4294967296"
  by (rule order_less_le_trans [OF unsigned_less]) simp

lemma unat_u64_less: "unat (b :: u64) < 18446744073709551616"
  by (rule order_less_le_trans [OF unsigned_less]) simp

fun le_bytes :: "nat \<Rightarrow> nat \<Rightarrow> bytes" where
  "le_bytes 0 v = []"
| "le_bytes (Suc n) v = word_of_nat (v mod 256) # le_bytes n (v div 256)"

fun le_val :: "bytes \<Rightarrow> nat" where
  "le_val [] = 0"
| "le_val (b # bs) = unat b + 256 * le_val bs"

lemma length_le_bytes [simp, codec_simps]: "length (le_bytes n v) = n"
  by (induction n arbitrary: v) auto

lemma le_val_le_bytes [codec_simps]: "le_val (le_bytes n v) = v mod 256 ^ n"
proof (induction n arbitrary: v)
  case 0
  then show ?case by simp
next
  case (Suc n)
  have "unat (word_of_nat (v mod 256) :: u8) = v mod 256"
    by (simp add: unat_of_nat)
  then show ?case
    by (simp add: Suc mod_mult2_eq)
qed

lemma le_val_bound: "le_val bs < 256 ^ length bs"
proof (induction bs)
  case Nil
  then show ?case by simp
next
  case (Cons b bs)
  have "unat b < 256"
    by (rule unat_u8_less)
  with Cons show ?case by simp
qed

lemma le_bytes_le_val: "le_bytes (length bs) (le_val bs) = bs"
proof (induction bs)
  case Nil
  then show ?case by simp
next
  case (Cons b bs)
  have b: "unat b < 256"
    by (rule unat_u8_less)
  then have "(unat b + 256 * le_val bs) mod 256 = unat b"
    and "(unat b + 256 * le_val bs) div 256 = le_val bs"
    by simp_all
  with Cons show ?case by simp
qed

definition u32_le :: "u32 \<Rightarrow> bytes" where
  "u32_le w = le_bytes 4 (unat w)"

definition u64_le :: "u64 \<Rightarrow> bytes" where
  "u64_le w = le_bytes 8 (unat w)"

definition u32_of_le :: "bytes \<Rightarrow> u32" where
  "u32_of_le bs = word_of_nat (le_val bs)"

definition u64_of_le :: "bytes \<Rightarrow> u64" where
  "u64_of_le bs = word_of_nat (le_val bs)"

definition u32_be :: "u32 \<Rightarrow> bytes" where
  "u32_be w = rev (u32_le w)"

definition u32_of_be :: "bytes \<Rightarrow> u32" where
  "u32_of_be bs = u32_of_le (rev bs)"

lemma length_u32_le [simp]: "length (u32_le w) = 4"
  by (simp add: u32_le_def)

lemma length_u64_le [simp]: "length (u64_le w) = 8"
  by (simp add: u64_le_def)

lemma length_u32_be [simp]: "length (u32_be w) = 4"
  by (simp add: u32_be_def)

lemma u32_of_le_le [simp, codec_simps]: "u32_of_le (u32_le w) = w"
proof -
  have "unat w < 256 ^ 4"
    using unat_u32_less [of w] by simp
  then show ?thesis
    by (simp add: u32_of_le_def u32_le_def le_val_le_bytes)
qed

lemma u64_of_le_le [simp, codec_simps]: "u64_of_le (u64_le w) = w"
proof -
  have "unat w < 256 ^ 8"
    using unat_u64_less [of w] by simp
  then show ?thesis
    by (simp add: u64_of_le_def u64_le_def le_val_le_bytes)
qed

lemma u32_of_be_be [simp, codec_simps]: "u32_of_be (u32_be w) = w"
  by (simp add: u32_of_be_def u32_be_def)

lemma unat_of_nat_u32: "n < 2 ^ 32 \<Longrightarrow> unat (word_of_nat n :: u32) = n"
  by (simp add: unat_of_nat)

lemma unat_of_nat_u64: "n < 2 ^ 64 \<Longrightarrow> unat (word_of_nat n :: u64) = n"
  by (simp add: unat_of_nat)

section \<open>Reading from a stream\<close>

text \<open>\<open>read_exact\<close>: the next \<open>n\<close> bytes and the rest, or nothing when fewer are left.\<close>

definition read_exact :: "nat \<Rightarrow> bytes \<Rightarrow> (bytes \<times> bytes) option" where
  "read_exact n bs = (if n \<le> length bs then Some (take n bs, drop n bs) else None)"

lemma read_exact_append [codec_simps]: "length xs = n \<Longrightarrow> read_exact n (xs @ ys) = Some (xs, ys)"
  by (simp add: read_exact_def)

lemma read_exact_Some: "read_exact n bs = Some (x, r) \<Longrightarrow> bs = x @ r \<and> length x = n"
  by (auto simp add: read_exact_def split: if_splits)

end
