(* ===== verification/Chunker.thy ===== *)
theory Chunker
  imports Prelude
begin

text \<open>
  \<open>landro-chunker/src/chunker.rs\<close>, \<open>hash.rs\<close> and \<open>errors.rs\<close>: the chunker's configuration and
  its validation, the gear table, the search for a chunk boundary with the rolling hash,
  and the two chunking loops.  BLAKE3 and the hex crate are not under \<open>src/\<close>: the hash
  is the parameter \<open>blake3\<close> and hex coding the parameters \<open>hex_encode\<close> and \<open>hex_decode\<close>.
  Offsets and sizes are \<open>nat\<close>: they are bounded by the length of a slice in memory.
\<close>

unbundle bit_operations_syntax

section \<open>Hashes (hash.rs)\<close>

text \<open>A content hash holds 32 bytes (\<open>blake3::Hash\<close>).\<close>

type_synonym content_hash = bytes

datatype from_hex_error = InvalidHex | InvalidStringLength

definition from_hex :: "(string \<Rightarrow> bytes option) \<Rightarrow> string \<Rightarrow> from_hex_error + content_hash" where
  "from_hex hex_decode hex =
     (case hex_decode hex of
        None \<Rightarrow> Inl InvalidHex
      | Some bs \<Rightarrow> if length bs \<noteq> 32 then Inl InvalidStringLength else Inr bs)"

section \<open>Configuration\<close>

datatype chunker_error =
    IoError
  | InvalidConfig string
  | ChunkSizeOutOfBounds nat
  | UnexpectedEof

record chunker_config =
  min_size :: nat
  avg_size :: nat
  max_size :: nat
  mask_bits :: nat

definition default_config :: chunker_config where
  "default_config =
     \<lparr>min_size = 256 * 1024, avg_size = 1024 * 1024, max_size = 4 * 1024 * 1024, mask_bits = 20\<rparr>"

definition validate_config :: "chunker_config \<Rightarrow> chunker_error + unit" where
  "validate_config c =
     (if min_size c \<ge> avg_size c then Inl (InvalidConfig ''min_size must be less than avg_size'')
      else if avg_size c \<ge> max_size c then Inl (InvalidConfig ''avg_size must be less than max_size'')
      else if min_size c < 256 then
        Inl (InvalidConfig (''min_size '' @ show_nat (min_size c) @ '' is below minimum '' @ show_nat 256))
      else if max_size c > 16 * 1024 * 1024 then
        Inl (InvalidConfig (''max_size '' @ show_nat (max_size c) @ '' exceeds maximum ''
                            @ show_nat (16 * 1024 * 1024)))
      else if mask_bits c = 0 \<or> mask_bits c > 32 then
        Inl (InvalidConfig ''mask_bits must be between 1 and 32'')
      else Inr ())"

section \<open>The chunker and its gear table\<close>

record chunk =
  chunk_bytes_of :: bytes
  chunk_hash :: content_hash
  chunk_offset :: nat

record chunker =
  config :: chunker_config
  mask :: u64
  gear_table :: "u64 list"

definition xorshift :: "u64 \<Rightarrow> u64" where
  "xorshift s0 =
     (let s1 = s0 XOR push_bit 13 s0;
          s2 = s1 XOR drop_bit 7 s1
      in s2 XOR push_bit 17 s2)"

fun gear_entries :: "nat \<Rightarrow> nat \<Rightarrow> u64 \<Rightarrow> u64 list" where
  "gear_entries 0 i state = []"
| "gear_entries (Suc n) i state =
     (let state' = xorshift state
      in (state' + word_of_nat i * 0x517cc1b727220a95) # gear_entries n (Suc i) state')"

definition generate_gear_table :: "u64 list" where
  "generate_gear_table = gear_entries 256 0 0x45aabbccddeeff00"

definition new_chunker :: "chunker_config \<Rightarrow> chunker_error + chunker" where
  "new_chunker c =
     and_then (validate_config c) (\<lambda>_.
       Inr \<lparr>config = c, mask = push_bit (mask_bits c) 1 - 1, gear_table = generate_gear_table\<rparr>)"

section \<open>Boundary search\<close>

definition window_size :: nat where
  "window_size = 48"

definition gear :: "chunker \<Rightarrow> u8 \<Rightarrow> u64" where
  "gear ch b = gear_table ch ! unat b"

text \<open>The hash of the first window.\<close>

definition init_hash :: "chunker \<Rightarrow> bytes \<Rightarrow> nat \<Rightarrow> u64" where
  "init_hash ch data start =
     fold (\<lambda>i h. word_rotl 1 h + gear ch (data ! (start + i))) [0..<window_size] 0"

text \<open>One step of the rolling hash: the oldest byte out, the new byte in.\<close>

definition roll :: "chunker \<Rightarrow> u8 \<Rightarrow> u8 \<Rightarrow> u64 \<Rightarrow> u64" where
  "roll ch old_byte new_byte h =
     word_rotl 1 (h - word_rotl window_size (gear ch old_byte)) + gear ch new_byte"

function scan_boundary :: "chunker \<Rightarrow> bytes \<Rightarrow> nat \<Rightarrow> nat \<Rightarrow> u64 \<Rightarrow> nat" where
  "scan_boundary ch data pos limit h =
     (if pos < limit then
        (let h' = roll ch (data ! (pos - window_size)) (data ! pos) h
         in if h' AND mask ch = 0 then pos + 1
            else scan_boundary ch data (pos + 1) limit h')
      else limit)"
  by pat_completeness auto
termination
  by (relation "measure (\<lambda>(ch, data, pos, limit, h). limit - pos)") auto

declare scan_boundary.simps [simp del]

definition find_chunk_boundary :: "chunker \<Rightarrow> bytes \<Rightarrow> nat \<Rightarrow> nat \<Rightarrow> nat" where
  "find_chunk_boundary ch data start_pos max_pos =
     (if start_pos \<ge> length data \<or> start_pos \<ge> max_pos then min max_pos (length data)
      else if start_pos + window_size > length data \<or> start_pos + window_size > max_pos then
        min max_pos (length data)
      else scan_boundary ch data (start_pos + window_size) (min max_pos (length data))
             (init_hash ch data start_pos))"

section \<open>The chunking loops\<close>

definition make_chunk :: "(bytes \<Rightarrow> bytes) \<Rightarrow> bytes \<Rightarrow> nat \<Rightarrow> chunk" where
  "make_chunk blake3 data off =
     \<lparr>chunk_bytes_of = data, chunk_hash = blake3 data, chunk_offset = off\<rparr>"

definition next_cut :: "chunker \<Rightarrow> bytes \<Rightarrow> nat \<Rightarrow> nat" where
  "next_cut ch data start =
     (let remaining = length data - start;
          chunk_end = start + min (min_size (config ch)) remaining
      in if chunk_end < length data \<and> remaining > min_size (config ch)
         then find_chunk_boundary ch data chunk_end
                (min (start + max_size (config ch)) (length data))
         else chunk_end)"

text \<open>\<open>chunk_bytes\<close>: \<open>None\<close> stands for a loop that never ends or a slice that panics.\<close>

partial_function (option) chunk_from ::
    "(bytes \<Rightarrow> bytes) \<Rightarrow> chunker \<Rightarrow> bytes \<Rightarrow> nat \<Rightarrow> chunk list option" where
  "chunk_from blake3 ch data start =
     (if start < length data then
        Option.bind (subslice data start (next_cut ch data start)) (\<lambda>d.
        Option.bind (chunk_from blake3 ch data (next_cut ch data start)) (\<lambda>rest.
          Some (make_chunk blake3 d start # rest)))
      else Some [])"

definition chunk_bytes :: "(bytes \<Rightarrow> bytes) \<Rightarrow> chunker \<Rightarrow> bytes \<Rightarrow> chunk list option" where
  "chunk_bytes blake3 ch data = chunk_from blake3 ch data 0"

text \<open>\<open>chunk_stream\<close> reads to the end first.  A reader is the list of the results of its
  \<open>read\<close> calls: an error, or at most 64 KiB of bytes, where no bytes is the end of the
  stream (and so is the end of the list).\<close>

fun read_stream :: "(chunker_error + bytes) list \<Rightarrow> bytes \<Rightarrow> chunker_error + bytes" where
  "read_stream [] buffer = Inr buffer"
| "read_stream (Inl e # rs) buffer = Inl e"
| "read_stream (Inr bs # rs) buffer =
     (if bs = [] then Inr buffer else read_stream rs (buffer @ bs))"

partial_function (option) chunk_stream_from ::
    "(bytes \<Rightarrow> bytes) \<Rightarrow> chunker \<Rightarrow> bytes \<Rightarrow> nat \<Rightarrow> chunk list option" where
  "chunk_stream_from blake3 ch buffer start =
     (if start < length buffer then
        (let chunk_end = min (next_cut ch buffer start) (length buffer) in
         Option.bind (subslice buffer start chunk_end) (\<lambda>d.
         Option.bind (chunk_stream_from blake3 ch buffer chunk_end) (\<lambda>rest.
           Some (make_chunk blake3 d start # rest))))
      else Some [])"

definition chunk_stream ::
    "(bytes \<Rightarrow> bytes) \<Rightarrow> chunker \<Rightarrow> (chunker_error + bytes) list \<Rightarrow> (chunker_error + chunk list) option" where
  "chunk_stream blake3 ch reads =
     (case read_stream reads [] of
        Inl e \<Rightarrow> Some (Inl e)
      | Inr buffer \<Rightarrow>
          if buffer = [] then Some (Inr [])
          else map_option Inr (chunk_stream_from blake3 ch buffer 0))"

section \<open>Bounds of the boundary search\<close>

definition valid_chunker :: "chunker \<Rightarrow> bool" where
  "valid_chunker ch \<longleftrightarrow> validate_config (config ch) = Inr () \<and> length (gear_table ch) = 256"

lemma validate_config_ok:
  "validate_config c = Inr u \<longleftrightarrow>
     256 \<le> min_size c \<and> min_size c < avg_size c \<and> avg_size c < max_size c \<and>
     max_size c \<le> 16 * 1024 * 1024 \<and> 1 \<le> mask_bits c \<and> mask_bits c \<le> 32"
  by (auto simp add: validate_config_def)

lemma length_gear_entries [simp]: "length (gear_entries n i s) = n"
  by (induction n arbitrary: i s) (auto simp add: Let_def)

lemma new_chunker_valid: "new_chunker c = Inr ch \<Longrightarrow> valid_chunker ch \<and> config ch = c"
  by (auto simp add: new_chunker_def valid_chunker_def generate_gear_table_def result_simps)

lemma valid_chunker_bounds:
  "valid_chunker ch \<Longrightarrow> 0 < min_size (config ch) \<and> min_size (config ch) < max_size (config ch)"
  by (auto simp add: valid_chunker_def validate_config_ok)

lemma scan_boundary_bounds:
  "pos \<le> limit \<Longrightarrow> pos \<le> scan_boundary ch data pos limit h \<and> scan_boundary ch data pos limit h \<le> limit"
proof (induction ch data pos limit h rule: scan_boundary.induct)
  case (1 ch data pos limit h)
  show ?case
  proof (cases "pos < limit")
    case True
    with 1 show ?thesis
      by (auto simp add: scan_boundary.simps [of ch data pos limit h] Let_def)
  next
    case False
    then have "scan_boundary ch data pos limit h = limit"
      by (subst scan_boundary.simps) simp
    with 1 show ?thesis by simp
  qed
qed

lemma find_chunk_boundary_bounds:
  assumes "start \<le> max_pos" and "start \<le> length data"
  shows "start \<le> find_chunk_boundary ch data start max_pos
    \<and> find_chunk_boundary ch data start max_pos \<le> min max_pos (length data)"
  using assms scan_boundary_bounds [of "start + window_size" "min max_pos (length data)" ch data
      "init_hash ch data start"]
  by (auto simp add: find_chunk_boundary_def)

lemma next_cut_cases:
  assumes "valid_chunker ch" and "start < length data"
  obtains (rest) "next_cut ch data start = length data"
      "length data - start \<le> min_size (config ch)"
    | (cut) "start + min_size (config ch) \<le> next_cut ch data start"
      "next_cut ch data start \<le> min (start + max_size (config ch)) (length data)"
proof (cases "length data - start \<le> min_size (config ch)")
  case True
  with assms(2) have "next_cut ch data start = length data"
    by (simp add: next_cut_def)
  from this True show ?thesis by (rule that(1))
next
  case False
  let ?e = "start + min_size (config ch)"
  let ?m = "min (start + max_size (config ch)) (length data)"
  have cut: "next_cut ch data start = find_chunk_boundary ch data ?e ?m"
  proof -
    have "?e < length data" and "\<not> length data - start \<le> min_size (config ch)"
      using False by simp_all
    then show ?thesis by (simp add: next_cut_def Let_def min_absorb1)
  qed
  have "?e \<le> ?m" "?e \<le> length data"
    using False valid_chunker_bounds [OF assms(1)] by simp_all
  then have "?e \<le> next_cut ch data start \<and> next_cut ch data start \<le> min ?m (length data)"
    unfolding cut by (rule find_chunk_boundary_bounds)
  then show ?thesis by (intro that(2)) simp_all
qed

lemma next_cut_bounds:
  assumes "valid_chunker ch" and "start < length data"
  shows "start < next_cut ch data start" and "next_cut ch data start \<le> length data"
    and "next_cut ch data start - start \<le> max_size (config ch)"
    and "next_cut ch data start < length data \<Longrightarrow>
      min_size (config ch) \<le> next_cut ch data start - start"
proof -
  let ?e = "next_cut ch data start"
  note v = valid_chunker_bounds [OF assms(1)]
  show "start < ?e"
    by (rule next_cut_cases [OF assms]) (use v assms(2) in linarith)+
  show "?e \<le> length data"
    by (rule next_cut_cases [OF assms]) simp_all
  show "?e - start \<le> max_size (config ch)"
    by (rule next_cut_cases [OF assms]) (use v in auto)
  show "?e < length data \<Longrightarrow> min_size (config ch) \<le> ?e - start"
    by (rule next_cut_cases [OF assms]) simp_all
qed

section \<open>The loops end and cut the data\<close>

text \<open>What a list of chunks that starts at \<open>off\<close> must look like.\<close>

fun chunks_at :: "(bytes \<Rightarrow> bytes) \<Rightarrow> nat \<Rightarrow> chunk list \<Rightarrow> bool" where
  "chunks_at blake3 off [] = True"
| "chunks_at blake3 off (c # cs) =
     (chunk_offset c = off \<and> chunk_bytes_of c \<noteq> [] \<and> chunk_hash c = blake3 (chunk_bytes_of c)
      \<and> chunks_at blake3 (off + length (chunk_bytes_of c)) cs)"

definition sized_chunks :: "chunker_config \<Rightarrow> chunk list \<Rightarrow> bool" where
  "sized_chunks c cs \<longleftrightarrow>
     (\<forall>k\<in>set cs. length (chunk_bytes_of k) \<le> max_size c) \<and>
     (\<forall>k\<in>set (butlast cs). min_size c \<le> length (chunk_bytes_of k))"

definition cuts :: "(bytes \<Rightarrow> bytes) \<Rightarrow> chunker \<Rightarrow> bytes \<Rightarrow> nat \<Rightarrow> chunk list \<Rightarrow> bool" where
  "cuts blake3 ch data start cs \<longleftrightarrow>
     concat (map chunk_bytes_of cs) = drop start data \<and> chunks_at blake3 start cs \<and>
     sized_chunks (config ch) cs"

lemma sized_chunks_Cons:
  "sized_chunks c (k # ks) \<longleftrightarrow> length (chunk_bytes_of k) \<le> max_size c \<and>
     (ks \<noteq> [] \<longrightarrow> min_size c \<le> length (chunk_bytes_of k)) \<and> sized_chunks c ks"
  by (auto simp add: sized_chunks_def)

lemma cuts_Cons:
  assumes "valid_chunker ch" and "start < length data"
    and "cuts blake3 ch data (next_cut ch data start) rest"
  shows "cuts blake3 ch data start
    (make_chunk blake3 (take (next_cut ch data start - start) (drop start data)) start # rest)"
proof -
  let ?e = "next_cut ch data start"
  note nb = next_cut_bounds [OF assms(1,2)]
  have len: "length (take (?e - start) (drop start data)) = ?e - start"
    using nb by simp
  have rest: "rest \<noteq> [] \<Longrightarrow> ?e < length data"
    using assms(3) nb(2) by (cases rest; cases "?e = length data") (auto simp add: cuts_def)
  show ?thesis
    using assms(3) nb len rest subslice_then_rest [of start ?e data]
    by (auto simp add: cuts_def make_chunk_def sized_chunks_Cons simp del: length_take)
qed

lemma chunk_from_cuts:
  assumes "valid_chunker ch"
  shows "\<exists>cs. chunk_from blake3 ch data start = Some cs \<and>
    (start \<le> length data \<longrightarrow> cuts blake3 ch data start cs)"
proof (induction "length data - start" arbitrary: start rule: less_induct)
  case less
  show ?case
  proof (cases "start < length data")
    case False
    then have "chunk_from blake3 ch data start = Some []"
      by (simp add: chunk_from.simps)
    with False show ?thesis by (simp add: cuts_def sized_chunks_def)
  next
    case True
    let ?e = "next_cut ch data start"
    note nb = next_cut_bounds [OF assms True]
    from less [of ?e] nb True obtain rest where
      rest: "chunk_from blake3 ch data ?e = Some rest" "cuts blake3 ch data ?e rest"
      by (metis diff_less_mono2)
    have "chunk_from blake3 ch data start =
        Some (make_chunk blake3 (take (?e - start) (drop start data)) start # rest)"
      using True rest(1) nb
      by (subst chunk_from.simps) (simp add: subslice_ok)
    with cuts_Cons [OF assms True rest(2)] show ?thesis by blast
  qed
qed

lemma chunk_stream_from_eq:
  assumes "valid_chunker ch"
  shows "chunk_stream_from blake3 ch data start = chunk_from blake3 ch data start"
proof (induction "length data - start" arbitrary: start rule: less_induct)
  case less
  show ?case
  proof (cases "start < length data")
    case False
    then show ?thesis by (simp add: chunk_from.simps chunk_stream_from.simps)
  next
    case True
    let ?e = "next_cut ch data start"
    note nb = next_cut_bounds [OF assms True]
    then have "chunk_stream_from blake3 ch data ?e = chunk_from blake3 ch data ?e"
      using less [of ?e] True by (simp add: diff_less_mono2)
    with nb show ?thesis
      by (simp add: chunk_from.simps [of _ _ _ start] chunk_stream_from.simps [of _ _ _ start]
          min_absorb1 Let_def)
  qed
qed

section \<open>The boundary is the first hit of the rolling hash\<close>

text \<open>The hash the search holds when it has consumed the bytes up to \<open>pos\<close>.\<close>

definition rolled :: "chunker \<Rightarrow> bytes \<Rightarrow> nat \<Rightarrow> nat \<Rightarrow> u64" where
  "rolled ch data start pos =
     fold (\<lambda>p h. roll ch (data ! (p - window_size)) (data ! p) h)
       [start + window_size..<Suc pos] (init_hash ch data start)"

definition hit :: "chunker \<Rightarrow> bytes \<Rightarrow> nat \<Rightarrow> nat \<Rightarrow> bool" where
  "hit ch data start pos \<longleftrightarrow> rolled ch data start pos AND mask ch = 0"

lemma rolled_step:
  "start + window_size \<le> pos \<Longrightarrow> rolled ch data start pos =
     roll ch (data ! (pos - window_size)) (data ! pos)
       (if pos = start + window_size then init_hash ch data start
        else rolled ch data start (pos - 1))"
  by (cases pos) (auto simp add: rolled_def)

lemma scan_boundary_first_hit:
  assumes "start + window_size \<le> pos" and "pos \<le> limit"
    and "h = (if pos = start + window_size then init_hash ch data start
              else rolled ch data start (pos - 1))"
  shows "(scan_boundary ch data pos limit h = limit \<and>
            (\<forall>p\<in>{pos..<limit}. p + 1 < limit \<longrightarrow> \<not> hit ch data start p)) \<or>
         (\<exists>p\<in>{pos..<limit}. scan_boundary ch data pos limit h = p + 1 \<and> hit ch data start p \<and>
            (\<forall>q\<in>{pos..<p}. \<not> hit ch data start q))"
  using assms
proof (induction ch data pos limit h rule: scan_boundary.induct)
  case (1 ch data pos limit h)
  let ?h' = "roll ch (data ! (pos - window_size)) (data ! pos) h"
  show ?case
  proof (cases "pos < limit")
    case False
    then have "scan_boundary ch data pos limit h = limit"
      by (subst scan_boundary.simps) simp
    with False show ?thesis by simp
  next
    case True
    have r: "?h' = rolled ch data start pos"
      using 1 by (simp add: rolled_step [of start pos])
    show ?thesis
    proof (cases "?h' AND mask ch = 0")
      case hit: True
      then have "scan_boundary ch data pos limit h = pos + 1"
        using True by (subst scan_boundary.simps) (simp add: Let_def)
      with hit True r show ?thesis
        by (intro disjI2 bexI [of _ pos]) (auto simp add: hit_def)
    next
      case miss: False
      then have sb: "scan_boundary ch data pos limit h = scan_boundary ch data (pos + 1) limit ?h'"
        using True by (subst scan_boundary.simps) (simp add: Let_def)
      have nh: "\<not> hit ch data start pos" using miss r by (simp add: hit_def)
      have at: "{pos..<m} = insert pos {pos + 1..<m}" if "pos < m" for m
        using that by auto
      from "1.IH" [OF True refl miss] 1(2) True r
      have "(scan_boundary ch data (pos + 1) limit ?h' = limit \<and>
            (\<forall>p\<in>{pos + 1..<limit}. p + 1 < limit \<longrightarrow> \<not> hit ch data start p)) \<or>
         (\<exists>p\<in>{pos + 1..<limit}. scan_boundary ch data (pos + 1) limit ?h' = p + 1 \<and>
            hit ch data start p \<and> (\<forall>q\<in>{pos + 1..<p}. \<not> hit ch data start q))"
        by simp
      then show ?thesis
      proof (elim disjE bexE conjE)
        assume "scan_boundary ch data (pos + 1) limit ?h' = limit"
          "\<forall>p\<in>{pos + 1..<limit}. p + 1 < limit \<longrightarrow> \<not> hit ch data start p"
        then show ?thesis using nh True at [of limit] sb by auto
      next
        fix p assume "p \<in> {pos + 1..<limit}" "scan_boundary ch data (pos + 1) limit ?h' = p + 1"
          "hit ch data start p" "\<forall>q\<in>{pos + 1..<p}. \<not> hit ch data start q"
        then show ?thesis using nh at [of p] sb by (intro disjI2 bexI [of _ p]) auto
      qed
    qed
  qed
qed

lemma read_stream_data:
  "[] \<notin> set bss \<Longrightarrow> read_stream (map Inr bss) acc = Inr (acc @ concat bss)"
  by (induction bss arbitrary: acc) auto

lemma chunks_at_set: "chunks_at blake3 off ks \<Longrightarrow> k \<in> set ks \<Longrightarrow>
    chunk_bytes_of k \<noteq> [] \<and> chunk_hash k = blake3 (chunk_bytes_of k)"
  by (induction ks arbitrary: off) auto

lemma new_chunker_limits:
  "new_chunker c = Inr ch \<Longrightarrow> 256 \<le> min_size c \<and> max_size c \<le> 16 * 1024 * 1024"
  by (auto simp add: new_chunker_def validate_config_def and_then_Inr_iff split: if_splits)

lemma cut_file:
  assumes "new_chunker c = Inr ch"
  shows "\<exists>ks. chunk_bytes blake3 ch data = Some ks \<and> concat (map chunk_bytes_of ks) = data \<and>
    chunks_at blake3 0 ks \<and> sized_chunks c ks"
proof -
  from new_chunker_valid [OF assms] have "valid_chunker ch" "config ch = c" by auto
  with chunk_from_cuts [of ch blake3 data 0] show ?thesis by (auto simp add: chunk_bytes_def cuts_def)
qed

lemma chunk_length_le:
  "k \<in> set ks \<Longrightarrow> length (chunk_bytes_of k) \<le> length (concat (map chunk_bytes_of ks))"
  by (induction ks) auto

section \<open>Properties\<close>

text \<open>C4: A chunker that \<open>Chunker::new\<close> accepted cuts every input, and the loop ends: the
  chunks' data concatenate to the input, their offsets follow one another from 0, every
  chunk is non-empty and carries the BLAKE3 hash of its data, no chunk is longer than
  \<open>max_size\<close> and only the last one can be shorter than \<open>min_size\<close>.\<close>

theorem chunk_bytes_lossless:
  assumes "new_chunker c = Inr ch"
  shows "\<exists>cs. chunk_bytes blake3 ch data = Some cs \<and> concat (map chunk_bytes_of cs) = data \<and>
    chunks_at blake3 0 cs \<and> sized_chunks c cs"
proof -
  from new_chunker_valid [OF assms] have "valid_chunker ch" "config ch = c" by auto
  with chunk_from_cuts [of ch blake3 data 0] show ?thesis
    by (auto simp add: chunk_bytes_def cuts_def)
qed

theorem chunk_bytes_lossless_witness:
  "\<exists>ch cs. new_chunker default_config = Inr ch \<and> chunk_bytes (\<lambda>_. replicate 32 0) ch [1, 2, 3] = Some cs \<and>
    concat (map chunk_bytes_of cs) = [1, 2, 3] \<and> sized_chunks default_config cs"
proof -
  obtain ch where ch: "new_chunker default_config = Inr ch"
    by (simp add: new_chunker_def validate_config_def default_config_def)
  from chunk_bytes_lossless [OF ch, of "\<lambda>_. replicate 32 0" "[1, 2, 3]"] ch show ?thesis by blast
qed

text \<open>C40: Chunking a stream gives the chunks of the bytes it delivers, however its reads are
  split: \<open>chunk_stream\<close> and \<open>chunk_bytes\<close>, two separate loops of the code, agree.\<close>

theorem chunk_stream_eq_chunk_bytes:
  assumes "new_chunker c = Inr ch" and "[] \<notin> set bss"
  shows "chunk_stream blake3 ch (map Inr bss) = map_option Inr (chunk_bytes blake3 ch (concat bss))"
proof -
  from new_chunker_valid [OF assms(1)] have "valid_chunker ch" ..
  with read_stream_data [OF assms(2), of "[]"] show ?thesis
    by (simp add: chunk_stream_def chunk_bytes_def chunk_stream_from_eq chunk_from.simps [of _ _ "concat bss"])
qed

theorem chunk_stream_eq_chunk_bytes_witness:
  "\<exists>ch. new_chunker default_config = Inr ch \<and>
    chunk_stream (\<lambda>_. replicate 32 0) ch (map Inr [[1], [2, 3]]) =
    map_option Inr (chunk_bytes (\<lambda>_. replicate 32 0) ch (concat [[1], [2, 3]]))"
proof -
  obtain ch where ch: "new_chunker default_config = Inr ch"
    by (simp add: new_chunker_def validate_config_def default_config_def)
  have "[] \<notin> set [[1], [2, 3 :: u8]]" by simp
  from chunk_stream_eq_chunk_bytes [OF ch this] ch show ?thesis by blast
qed

text \<open>The boundary search is content-defined: from a start with a full window before the
  limit it returns one past the first position where the rolling hash masks to zero, and
  the limit only when there is no such position before the limit's last byte.\<close>

theorem find_chunk_boundary_first_hit:
  assumes "start + window_size \<le> min max_pos (length data)"
  shows "let limit = min max_pos (length data); r = find_chunk_boundary ch data start max_pos in
    (r = limit \<and> (\<forall>p\<in>{start + window_size..<limit}. p + 1 < limit \<longrightarrow> \<not> hit ch data start p)) \<or>
    (\<exists>p\<in>{start + window_size..<limit}. r = p + 1 \<and> hit ch data start p \<and>
      (\<forall>q\<in>{start + window_size..<p}. \<not> hit ch data start q))"
proof -
  have "find_chunk_boundary ch data start max_pos = scan_boundary ch data (start + window_size)
      (min max_pos (length data)) (init_hash ch data start)"
    using assms by (auto simp add: find_chunk_boundary_def window_size_def)
  then show ?thesis
    using scan_boundary_first_hit [of start "start + window_size" "min max_pos (length data)"] assms
    by (simp add: Let_def)
qed

theorem find_chunk_boundary_first_hit_witness:
  "let data = replicate 50 (0 :: u8); ch = \<lparr>config = default_config, mask = 1, gear_table = []\<rparr>;
       limit = min 60 (length data); r = find_chunk_boundary ch data 0 60 in
    (r = limit \<and> (\<forall>p\<in>{0 + window_size..<limit}. p + 1 < limit \<longrightarrow> \<not> hit ch data 0 p)) \<or>
    (\<exists>p\<in>{0 + window_size..<limit}. r = p + 1 \<and> hit ch data 0 p \<and>
      (\<forall>q\<in>{0 + window_size..<p}. \<not> hit ch data 0 q))"
  using find_chunk_boundary_first_hit [of 0 60 "replicate 50 (0 :: u8)"]
  by (simp add: window_size_def Let_def)

end
