(* ===== verification/Proto.thy ===== *)
theory Proto
  imports Prelude
begin

text \<open>
  \<open>landro-proto\<close>: the protocol messages (\<open>generated/landro.proto.rs\<close>) and the version
  negotiation of \<open>lib.rs\<close>.  A timestamp is its seconds and nanoseconds.
\<close>

section \<open>Messages\<close>

type_synonym timestamp = "int \<times> int"

record hello =
  h_version :: string
  h_device_id :: bytes
  h_device_name :: string
  h_capabilities :: "string list"
  h_timestamp :: "timestamp option"

record folder_summary =
  fs_folder_id :: string
  fs_folder_path :: string
  fs_manifest_hash :: bytes
  fs_total_size :: u64
  fs_file_count :: u64
  fs_last_modified :: "timestamp option"

record want =
  w_folder_id :: string
  w_chunk_hashes :: "bytes list"
  w_priority :: u64

record ack =
  a_request_id :: string
  a_success :: bool
  a_message :: string

record file_entry =
  fe_path :: string
  fe_size :: u64
  fe_mode :: u32
  fe_modified :: "timestamp option"
  fe_chunk_hashes :: "bytes list"
  fe_content_hash :: bytes

record proto_manifest =
  pm_folder_id :: string
  pm_files :: "file_entry list"
  pm_generated_at :: "timestamp option"
  pm_manifest_hash :: bytes

record chunk_data =
  cd_hash :: bytes
  cd_data :: bytes
  cd_compressed :: bool
  cd_uncompressed_size :: u32

datatype error_type =
    UnknownError
  | ProtocolVersionMismatch
  | AuthenticationFailed
  | FolderNotFound
  | PermissionDenied
  | StorageFull
  | InvalidRequest

fun error_code :: "error_type \<Rightarrow> int" where
  "error_code UnknownError = 0"
| "error_code ProtocolVersionMismatch = 1"
| "error_code AuthenticationFailed = 2"
| "error_code FolderNotFound = 3"
| "error_code PermissionDenied = 4"
| "error_code StorageFull = 5"
| "error_code InvalidRequest = 6"

section \<open>Versions\<close>

definition PROTOCOL_VERSION :: string where
  "PROTOCOL_VERSION = ''0.1.0''"

definition PROTOCOL_VERSION_MAJOR :: u32 where
  "PROTOCOL_VERSION_MAJOR = 0"

definition PROTOCOL_VERSION_MINOR :: u32 where
  "PROTOCOL_VERSION_MINOR = 1"

definition PROTOCOL_VERSION_PATCH :: u32 where
  "PROTOCOL_VERSION_PATCH = 0"

text \<open>\<open>str::parse::<u32>\<close>: an optional \<open>+\<close>, at least one digit, and no overflow.\<close>

definition parse_u32 :: "string \<Rightarrow> u32 option" where
  "parse_u32 s =
     (let d = (case s of [] \<Rightarrow> [] | c # r \<Rightarrow> if c = CHR ''+'' then r else s)
      in if d \<noteq> [] \<and> list_all is_digit d \<and> digits_val d < 2 ^ 32
         then Some (word_of_nat (digits_val d)) else None)"

definition parse_version :: "string \<Rightarrow> (u32 \<times> u32 \<times> u32) option" where
  "parse_version version =
     (case split_on (CHR ''.'') version of
        [a, b, c] \<Rightarrow>
          Option.bind (parse_u32 a) (\<lambda>major.
          Option.bind (parse_u32 b) (\<lambda>minor.
          Option.bind (parse_u32 c) (\<lambda>patch.
            Some (major, minor, patch))))
      | _ \<Rightarrow> None)"

definition is_compatible :: "string \<Rightarrow> bool" where
  "is_compatible peer_version =
     (case parse_version peer_version of
        Some (peer_major, _, _) \<Rightarrow> peer_major = PROTOCOL_VERSION_MAJOR
      | None \<Rightarrow> False)"

text \<open>The \<open>{}.{}.{}\<close> of the messages below.\<close>

definition show_version :: "u32 \<times> u32 \<times> u32 \<Rightarrow> string" where
  "show_version v =
     (case v of (a, b, c) \<Rightarrow>
        show_nat (unat a) @ CHR ''.'' # show_nat (unat b) @ CHR ''.'' # show_nat (unat c))"

definition compatibility_error :: "string \<Rightarrow> string" where
  "compatibility_error peer_version =
     (case parse_version peer_version of
        Some v \<Rightarrow>
          ''Protocol version incompatible: peer '' @ show_version v @ '', we support ''
          @ show_version (PROTOCOL_VERSION_MAJOR, PROTOCOL_VERSION_MINOR, PROTOCOL_VERSION_PATCH)
          @ '' (major version must match)''
      | None \<Rightarrow>
          ''Invalid protocol version format '' @ [CHR 39] @ peer_version @ [CHR 39]
          @ '', expected format like '' @ [CHR 39] @ PROTOCOL_VERSION @ [CHR 39])"

section \<open>Round trip\<close>

lemma parse_u32_show: "parse_u32 (show_nat (unat w)) = Some w"
proof -
  let ?s = "show_nat (unat w)"
  have d: "?s \<noteq> []" "list_all is_digit ?s" using show_nat_digits by auto
  have "hd ?s \<noteq> CHR ''+''"
    using d by (cases ?s) (auto simp add: is_digit_def)
  then have "(case ?s of [] \<Rightarrow> [] | c # r \<Rightarrow> if c = CHR ''+'' then r else ?s) = ?s"
    by (cases ?s) auto
  moreover have "unat w < 2 ^ 32"
    by (rule order_less_le_trans [OF unsigned_less]) simp
  ultimately show ?thesis
    using d by (simp add: parse_u32_def Let_def digits_val_show_nat)
qed

lemma no_dot_show: "CHR ''.'' \<notin> set (show_nat n)"
proof
  assume "CHR ''.'' \<in> set (show_nat n)"
  moreover have "list_all is_digit (show_nat n)" using show_nat_digits by blast
  ultimately have "is_digit (CHR ''.'')" by (simp add: list_all_iff)
  then show False by (simp add: is_digit_def)
qed

text \<open>The parser reads back every version the code prints: a printed triple parses to
  itself, so it is compatible exactly when its major number is the protocol's own.\<close>

theorem version_round_trip:
  "parse_version (show_version (a, b, c)) = Some (a, b, c) \<and>
   (is_compatible (show_version (a, b, c)) \<longleftrightarrow> a = PROTOCOL_VERSION_MAJOR)"
proof -
  have "split_on (CHR ''.'') (show_version (a, b, c)) =
      [show_nat (unat a), show_nat (unat b), show_nat (unat c)]"
    by (simp add: show_version_def split_on_append split_on_no_sep no_dot_show)
  then have "parse_version (show_version (a, b, c)) = Some (a, b, c)"
    by (simp add: parse_version_def parse_u32_show)
  then show ?thesis by (simp add: is_compatible_def)
qed

end
