(* ===== verification/Validation.thy ===== *)
theory Validation
  imports Proto
begin

text \<open>
  \<open>landro-proto/src/validation.rs\<close>: the limits, the validation errors and the validators
  of strings, sizes and whole messages.  A \<open>usize\<close> is a \<open>nat\<close>.  The parameter \<open>uni\<close>
  is the Unicode table \<open>char::is_alphanumeric\<close> uses beyond ASCII, \<open>blake3\<close> the hash.
\<close>

section \<open>Limits and errors\<close>

definition MAX_MESSAGE_SIZE :: nat where "MAX_MESSAGE_SIZE = 10 * 1024 * 1024"
definition MAX_CHUNK_SIZE :: nat where "MAX_CHUNK_SIZE = 16 * 1024 * 1024"
definition MIN_CHUNK_SIZE :: nat where "MIN_CHUNK_SIZE = 256"
definition MAX_PATH_LENGTH :: nat where "MAX_PATH_LENGTH = 4096"
definition MAX_DEVICE_NAME_LENGTH :: nat where "MAX_DEVICE_NAME_LENGTH = 256"
definition MAX_MANIFEST_FILES :: nat where "MAX_MANIFEST_FILES = 1000000"
definition MAX_CHUNKS_PER_FILE :: nat where "MAX_CHUNKS_PER_FILE = 100000"
definition MAX_FOLDER_ID_LENGTH :: nat where "MAX_FOLDER_ID_LENGTH = 64"
definition MAX_PAIRING_CODE_LENGTH :: nat where "MAX_PAIRING_CODE_LENGTH = 512"
definition MAX_CAPABILITY_LENGTH :: nat where "MAX_CAPABILITY_LENGTH = 256"
definition MAX_CAPABILITIES :: nat where "MAX_CAPABILITIES = 100"

lemmas limits = MAX_MESSAGE_SIZE_def MAX_CHUNK_SIZE_def MIN_CHUNK_SIZE_def MAX_PATH_LENGTH_def
  MAX_DEVICE_NAME_LENGTH_def MAX_MANIFEST_FILES_def MAX_CHUNKS_PER_FILE_def
  MAX_FOLDER_ID_LENGTH_def MAX_PAIRING_CODE_LENGTH_def MAX_CAPABILITY_LENGTH_def
  MAX_CAPABILITIES_def

datatype validation_error =
    MessageTooLarge nat nat
  | InvalidChunkSize nat nat nat
  | PathTooLong nat nat
  | DeviceNameTooLong nat nat
  | ManifestTooLarge nat nat
  | TooManyChunks nat nat
  | InvalidFolderIdLength nat nat
  | InvalidHash string
  | MetadataTooLarge nat nat
  | InvalidPath string
  | InvalidUtf8 string
  | MissingField string
  | InvalidVersion string
  | TooManyCapabilities nat nat

section \<open>Validators of sizes and strings\<close>

definition validate_message_size :: "nat \<Rightarrow> validation_error + unit" where
  "validate_message_size sz =
     (if sz > MAX_MESSAGE_SIZE then Inl (MessageTooLarge sz MAX_MESSAGE_SIZE) else Inr ())"

definition validate_chunk_size :: "nat \<Rightarrow> validation_error + unit" where
  "validate_chunk_size sz =
     (if sz < MIN_CHUNK_SIZE \<or> sz > MAX_CHUNK_SIZE
      then Inl (InvalidChunkSize sz MIN_CHUNK_SIZE MAX_CHUNK_SIZE) else Inr ())"

definition validate_path :: "string \<Rightarrow> validation_error + unit" where
  "validate_path path =
     (if length path > MAX_PATH_LENGTH then Inl (PathTooLong (length path) MAX_PATH_LENGTH)
      else if CHR 0x00 \<in> set path then Inl (InvalidPath ''contains null bytes'')
      else if contains_sub ''..'' path then Inl (InvalidPath ''contains directory traversal'')
      else if has_prefix ''/'' path \<or> has_prefix [CHR 0x5C] path
        then Inl (InvalidPath ''absolute paths not allowed'')
      else Inr ())"

definition validate_device_name :: "string \<Rightarrow> validation_error + unit" where
  "validate_device_name name =
     (if name = [] then Inl (MissingField ''device_name'')
      else if length name > MAX_DEVICE_NAME_LENGTH
        then Inl (DeviceNameTooLong (length name) MAX_DEVICE_NAME_LENGTH)
      else if list_ex is_control (utf8_chars name) then Inl (InvalidUtf8 ''device_name'')
      else Inr ())"

definition validate_folder_id :: "(nat \<Rightarrow> bool) \<Rightarrow> string \<Rightarrow> validation_error + unit" where
  "validate_folder_id uni i =
     (if i = [] then Inl (MissingField ''folder_id'')
      else if length i > MAX_FOLDER_ID_LENGTH
        then Inl (InvalidFolderIdLength (length i) MAX_FOLDER_ID_LENGTH)
      else if \<not> list_all (\<lambda>c. is_alphanumeric uni c \<or> c = 45 \<or> c = 95) (utf8_chars i)
        then Inl (InvalidPath ''folder ID contains invalid characters'')
      else Inr ())"

definition validate_hash :: "string \<Rightarrow> validation_error + unit" where
  "validate_hash hash =
     (if hash = [] then Inl (InvalidHash ''empty hash'')
      else if length hash \<noteq> 64
        then Inl (InvalidHash (''invalid length: '' @ show_nat (length hash) @ '' (expected 64)''))
      else if \<not> list_all is_ascii_hexdigit (utf8_chars hash)
        then Inl (InvalidHash ''not valid hexadecimal'')
      else Inr ())"

definition validate_manifest_size :: "nat \<Rightarrow> validation_error + unit" where
  "validate_manifest_size file_count =
     (if file_count > MAX_MANIFEST_FILES then Inl (ManifestTooLarge file_count MAX_MANIFEST_FILES)
      else Inr ())"

definition validate_chunk_count :: "nat \<Rightarrow> validation_error + unit" where
  "validate_chunk_count chunk_count =
     (if chunk_count > MAX_CHUNKS_PER_FILE then Inl (TooManyChunks chunk_count MAX_CHUNKS_PER_FILE)
      else Inr ())"

definition validate_capabilities :: "string list \<Rightarrow> validation_error + unit" where
  "validate_capabilities capabilities =
     (if length capabilities > MAX_CAPABILITIES
      then Inl (TooManyCapabilities (length capabilities) MAX_CAPABILITIES)
      else for_each (\<lambda>cap. if length cap > MAX_CAPABILITY_LENGTH
             then Inl (InvalidUtf8 (''capability '' @ [CHR 39] @ cap @ [CHR 39])) else Inr ())
           capabilities)"

definition validate_pairing_code :: "string \<Rightarrow> validation_error + unit" where
  "validate_pairing_code code =
     (if code = [] then Inl (MissingField ''pairing_code'')
      else if length code > MAX_PAIRING_CODE_LENGTH then Inl (InvalidUtf8 ''pairing_code'')
      else Inr ())"

section \<open>Validators of messages\<close>

definition must_be_32 :: "string \<Rightarrow> bytes \<Rightarrow> validation_error + unit" where
  "must_be_32 what bs =
     (if length bs \<noteq> 32
      then Inl (InvalidHash (what @ '' must be 32 bytes, got '' @ show_nat (length bs)))
      else Inr ())"

definition validate_hello :: "hello \<Rightarrow> validation_error + unit" where
  "validate_hello hello =
     (if h_version hello = [] then Inl (MissingField ''version'')
      else if \<not> is_compatible (h_version hello) then Inl (InvalidVersion (h_version hello))
      else and_then (validate_device_name (h_device_name hello)) (\<lambda>_.
           and_then (must_be_32 ''Device ID'' (h_device_id hello)) (\<lambda>_.
             validate_capabilities (h_capabilities hello))))"

definition validate_folder_summary :: "(nat \<Rightarrow> bool) \<Rightarrow> folder_summary \<Rightarrow> validation_error + unit" where
  "validate_folder_summary uni summary =
     and_then (validate_folder_id uni (fs_folder_id summary)) (\<lambda>_.
     and_then (if fs_manifest_hash summary \<noteq> []
               then must_be_32 ''Manifest hash'' (fs_manifest_hash summary) else Inr ()) (\<lambda>_.
       validate_manifest_size (unat (fs_file_count summary))))"

definition validate_want :: "(nat \<Rightarrow> bool) \<Rightarrow> want \<Rightarrow> validation_error + unit" where
  "validate_want uni w =
     and_then (validate_folder_id uni (w_folder_id w)) (\<lambda>_.
     and_then (for_each (must_be_32 ''Chunk hash'') (w_chunk_hashes w)) (\<lambda>_.
       if length (w_chunk_hashes w) > 1000
       then Inl (TooManyChunks (length (w_chunk_hashes w)) 1000) else Inr ()))"

definition validate_chunk_data :: "(bytes \<Rightarrow> bytes) \<Rightarrow> chunk_data \<Rightarrow> validation_error + unit" where
  "validate_chunk_data blake3 chunk =
     and_then (must_be_32 ''Chunk hash'' (cd_hash chunk)) (\<lambda>_.
     and_then (validate_chunk_size (length (cd_data chunk))) (\<lambda>_.
       if blake3 (cd_data chunk) \<noteq> cd_hash chunk
       then Inl (InvalidHash ''hash doesn't match data'') else Inr ()))"

definition validate_file_entry :: "file_entry \<Rightarrow> validation_error + unit" where
  "validate_file_entry entry =
     and_then (validate_path (fe_path entry)) (\<lambda>_.
     and_then (must_be_32 ''Content hash'' (fe_content_hash entry)) (\<lambda>_.
     and_then (validate_chunk_count (length (fe_chunk_hashes entry))) (\<lambda>_.
       for_each (must_be_32 ''Chunk hash'') (fe_chunk_hashes entry))))"

definition validate_manifest :: "(nat \<Rightarrow> bool) \<Rightarrow> proto_manifest \<Rightarrow> validation_error + unit" where
  "validate_manifest uni m =
     and_then (validate_folder_id uni (pm_folder_id m)) (\<lambda>_.
     and_then (validate_manifest_size (length (pm_files m))) (\<lambda>_.
     and_then (for_each validate_file_entry (pm_files m)) (\<lambda>_.
       must_be_32 ''Manifest hash'' (pm_manifest_hash m))))"

section \<open>What acceptance means\<close>

lemma must_be_32_ok [result_simps]: "must_be_32 what bs = Inr u \<longleftrightarrow> length bs = 32"
  by (simp add: must_be_32_def)

lemma validate_path_ok [result_simps]:
  "validate_path p = Inr u \<longleftrightarrow> length p \<le> MAX_PATH_LENGTH \<and> CHR 0x00 \<notin> set p \<and>
     \<not> contains_sub ''..'' p \<and> \<not> has_prefix ''/'' p \<and> \<not> has_prefix [CHR 0x5C] p"
  by (simp add: validate_path_def)

lemma validate_chunk_size_ok [result_simps]:
  "validate_chunk_size n = Inr u \<longleftrightarrow> MIN_CHUNK_SIZE \<le> n \<and> n \<le> MAX_CHUNK_SIZE"
  by (auto simp add: validate_chunk_size_def)

lemma validate_chunk_count_ok [result_simps]:
  "validate_chunk_count n = Inr u \<longleftrightarrow> n \<le> MAX_CHUNKS_PER_FILE"
  by (auto simp add: validate_chunk_count_def)

lemma validate_manifest_size_ok [result_simps]:
  "validate_manifest_size n = Inr u \<longleftrightarrow> n \<le> MAX_MANIFEST_FILES"
  by (auto simp add: validate_manifest_size_def)

lemma validate_capabilities_ok [result_simps]:
  "validate_capabilities cs = Inr u \<longleftrightarrow>
     length cs \<le> MAX_CAPABILITIES \<and> (\<forall>c\<in>set cs. length c \<le> MAX_CAPABILITY_LENGTH)"
  by (auto simp add: validate_capabilities_def result_simps split: if_splits)

lemma validate_folder_id_ok [result_simps]:
  "validate_folder_id uni i = Inr u \<longleftrightarrow> i \<noteq> [] \<and> length i \<le> MAX_FOLDER_ID_LENGTH \<and>
     list_all (\<lambda>c. is_alphanumeric uni c \<or> c = 45 \<or> c = 95) (utf8_chars i)"
  by (auto simp add: validate_folder_id_def)

lemma no_traversal_component:
  assumes "\<not> contains_sub ''..'' p"
  shows "''..'' \<notin> set (split_on d p)"
  using assms split_on_piece [of "''..''" d p] by (auto simp add: contains_sub_iff)

section \<open>Properties\<close>



text \<open>A received chunk is accepted exactly when its hash has 32 bytes, its size is
  between 256 bytes and 16 MiB, and its data hashes to the hash it claims.\<close>

theorem chunk_data_accepted_iff:
  "validate_chunk_data blake3 c = Inr () \<longleftrightarrow>
     length (cd_hash c) = 32 \<and> 256 \<le> length (cd_data c) \<and>
     length (cd_data c) \<le> 16 * 1024 * 1024 \<and> blake3 (cd_data c) = cd_hash c"
  by (auto simp add: validate_chunk_data_def result_simps limits)

end
