(* ===== verification/Sync_Handler.thy ===== *)
theory Sync_Handler
  imports Proto Containers Machines
begin

text \<open>
  \<open>landro-proto/src/sync_handler.rs\<close>: the protocol handler of a connection, a state
  machine over the messages of a peer.  The locks around the fields are held for a whole
  handler, so a handler is one step on the record of the fields.

  Parameters: \<open>info_on\<close> says whether the \<open>info!\<close> callsite is enabled (its arguments are
  evaluated only then, and one of them can panic), \<open>now\<close> is the clock, \<open>hex_encode\<close> the
  hex crate, \<open>its\<close> and \<open>itm\<close> the iteration orders of a hash set of hashes and of the
  progress map.  A panic is \<open>None\<close>.  The debug text of a state in an error's details is
  kept as the state.
\<close>

section \<open>State\<close>

datatype sync_state =
    WaitingForHello
  | Connected
  | Syncing
  | Completed
  | Failed string

record peer_info =
  pi_device_id :: bytes
  pi_device_name :: string
  pi_version :: string
  pi_capabilities :: "string list"

record folder_progress =
  fp_folder_id :: string
  total_chunks :: nat
  received_chunks :: nat
  sent_chunks :: nat
  pending_chunks :: "bytes hset"

definition new_progress :: "string \<Rightarrow> folder_progress" where
  "new_progress i = \<lparr>fp_folder_id = i, total_chunks = 0, received_chunks = 0,
     sent_chunks = 0, pending_chunks = []\<rparr>"

definition progress_complete :: "folder_progress \<Rightarrow> bool" where
  "progress_complete p \<longleftrightarrow> total_chunks p > 0 \<and> received_chunks p = total_chunks p"

datatype error_details = InState sync_state | Details string

record proto_error =
  pe_type :: int
  pe_message :: string
  pe_details :: error_details

record handler =
  hd_state :: sync_state
  hd_peer :: "peer_info option"
  hd_progress :: "(string, folder_progress) hmap"
  hd_device_id :: bytes
  hd_device_name :: string

definition new_handler :: "bytes \<Rightarrow> string \<Rightarrow> handler" where
  "new_handler device_id device_name =
     \<lparr>hd_state = WaitingForHello, hd_peer = None, hd_progress = [],
      hd_device_id = device_id, hd_device_name = device_name\<rparr>"

definition refuse :: "string \<Rightarrow> handler \<Rightarrow> proto_error" where
  "refuse msg h =
     \<lparr>pe_type = error_code InvalidRequest, pe_message = msg, pe_details = InState (hd_state h)\<rparr>"

section \<open>Message handlers\<close>

definition create_hello :: "timestamp \<Rightarrow> handler \<Rightarrow> hello" where
  "create_hello now h =
     \<lparr>h_version = PROTOCOL_VERSION, h_device_id = hd_device_id h,
      h_device_name = hd_device_name h,
      h_capabilities = [''sync.v1'', ''delta.v1'', ''compression.zstd''],
      h_timestamp = Some now\<rparr>"

definition handle_hello ::
    "bool \<Rightarrow> timestamp \<Rightarrow> hello \<Rightarrow> handler \<Rightarrow> (handler \<times> (proto_error + hello)) option" where
  "handle_hello info_on now msg h =
     (if hd_state h \<noteq> WaitingForHello then Some (h, Inl (refuse ''Unexpected Hello message'' h))
      else if \<not> is_compatible (h_version msg) then
        Some (h\<lparr>hd_state := Failed ''Version incompatible''\<rparr>,
          Inl \<lparr>pe_type = error_code ProtocolVersionMismatch,
               pe_message = ''Protocol version mismatch'',
               pe_details = Details (compatibility_error (h_version msg))\<rparr>)
      else
        let peer = \<lparr>pi_device_id = h_device_id msg, pi_device_name = h_device_name msg,
                    pi_version = h_version msg, pi_capabilities = h_capabilities msg\<rparr> in
        if info_on \<and> subslice (pi_device_id peer) 0 8 = None then None
        else
          let h' = h\<lparr>hd_peer := Some peer, hd_state := Connected\<rparr> in
          Some (h', Inr (create_hello now h')))"

definition handle_folder_summary ::
    "folder_summary \<Rightarrow> handler \<Rightarrow> handler \<times> (proto_error + unit)" where
  "handle_folder_summary msg h =
     (if hd_state h \<noteq> Connected \<and> hd_state h \<noteq> Syncing
      then (h, Inl (refuse ''Not ready for folder sync'' h))
      else
        let h' = h\<lparr>hd_progress :=
                 hm_put (fs_folder_id msg) (new_progress (fs_folder_id msg)) (hd_progress h)\<rparr>
        in (if hd_state h = Connected then h'\<lparr>hd_state := Syncing\<rparr> else h', Inr ()))"

definition manifest_chunks :: "proto_manifest \<Rightarrow> bytes hset" where
  "manifest_chunks m = hs_extend (concat (map fe_chunk_hashes (pm_files m))) []"

definition handle_manifest ::
    "(bytes list \<Rightarrow> bytes list) \<Rightarrow> proto_manifest \<Rightarrow> handler \<Rightarrow> handler \<times> (proto_error + want)" where
  "handle_manifest its msg h =
     (if hd_state h \<noteq> Syncing then (h, Inl (refuse ''Not in syncing state'' h))
      else
        let all_chunks = manifest_chunks msg;
            progress = hm_modify (pm_folder_id msg)
              (\<lambda>p. p\<lparr>total_chunks := length all_chunks, pending_chunks := all_chunks\<rparr>)
              (hd_progress h)
        in (h\<lparr>hd_progress := progress\<rparr>,
            Inr \<lparr>w_folder_id = pm_folder_id msg, w_chunk_hashes = its all_chunks, w_priority = 1\<rparr>))"

definition handle_want :: "want \<Rightarrow> handler \<Rightarrow> handler \<times> (proto_error + chunk_data list)" where
  "handle_want msg h =
     (if hd_state h \<noteq> Syncing then (h, Inl (refuse ''Not in syncing state'' h))
      else
        (h\<lparr>hd_progress := hm_modify (w_folder_id msg)
             (\<lambda>p. p\<lparr>sent_chunks := sent_chunks p + length (w_chunk_hashes msg)\<rparr>) (hd_progress h)\<rparr>,
         Inr []))"

text \<open>The first folder, in iteration order, that still waits for the chunk.\<close>

definition take_pending ::
    "((string \<times> folder_progress) list \<Rightarrow> (string \<times> folder_progress) list) \<Rightarrow> bytes \<Rightarrow>
     (string, folder_progress) hmap \<Rightarrow> (string, folder_progress) hmap" where
  "take_pending itm hash m =
     (case find (\<lambda>(k, p). hash \<in> set (pending_chunks p)) (itm m) of
        None \<Rightarrow> m
      | Some (k, _) \<Rightarrow>
          hm_modify k (\<lambda>p. p\<lparr>pending_chunks := hs_del hash (pending_chunks p),
                            received_chunks := received_chunks p + 1\<rparr>) m)"

definition handle_chunk_data ::
    "((string \<times> folder_progress) list \<Rightarrow> (string \<times> folder_progress) list) \<Rightarrow>
     (bytes \<Rightarrow> string) \<Rightarrow> chunk_data \<Rightarrow> handler \<Rightarrow> handler \<times> (proto_error + ack)" where
  "handle_chunk_data itm hex_encode msg h =
     (if hd_state h \<noteq> Syncing then (h, Inl (refuse ''Not in syncing state'' h))
      else
        let progress = take_pending itm (cd_hash msg) (hd_progress h);
            all_complete = list_all (\<lambda>(_, p). progress_complete p) progress;
            h' = h\<lparr>hd_progress := progress\<rparr>;
            h'' = (if all_complete \<and> progress \<noteq> [] then h'\<lparr>hd_state := Completed\<rparr> else h')
        in (h'', Inr \<lparr>a_request_id = hex_encode (cd_hash msg), a_success = True,
                     a_message = ''Chunk received''\<rparr>))"

definition handle_error :: "proto_error \<Rightarrow> handler \<Rightarrow> handler" where
  "handle_error err h = h\<lparr>hd_state := Failed (pe_message err)\<rparr>"

definition get_progress :: "handler \<Rightarrow> (string, folder_progress) hmap" where
  "get_progress h = hd_progress h"

definition handler_is_complete :: "handler \<Rightarrow> bool" where
  "handler_is_complete h \<longleftrightarrow> hd_state h = Completed"

definition handler_is_failed :: "handler \<Rightarrow> bool" where
  "handler_is_failed h \<longleftrightarrow> (case hd_state h of Failed _ \<Rightarrow> True | _ \<Rightarrow> False)"

section \<open>The handler as a machine\<close>

datatype message =
    HelloMsg hello
  | SummaryMsg folder_summary
  | ManifestMsg proto_manifest
  | WantMsg want
  | ChunkMsg chunk_data
  | ErrorMsg proto_error

text \<open>A handler that panics leaves the state as it was: the panic comes before any write.\<close>

fun handler_step :: "bool \<Rightarrow> ((string \<times> folder_progress) list \<Rightarrow> (string \<times> folder_progress) list) \<Rightarrow>
    message \<Rightarrow> handler \<Rightarrow> handler" where
  "handler_step info_on itm (HelloMsg m) h =
     (case handle_hello info_on (0, 0) m h of None \<Rightarrow> h | Some (h', _) \<Rightarrow> h')"
| "handler_step info_on itm (SummaryMsg m) h = fst (handle_folder_summary m h)"
| "handler_step info_on itm (ManifestMsg m) h = fst (handle_manifest id m h)"
| "handler_step info_on itm (WantMsg m) h = fst (handle_want m h)"
| "handler_step info_on itm (ChunkMsg m) h = fst (handle_chunk_data itm (\<lambda>_. []) m h)"
| "handler_step info_on itm (ErrorMsg m) h = handle_error m h"

definition folder_inv :: "folder_progress \<Rightarrow> bool" where
  "folder_inv p \<longleftrightarrow> distinct (pending_chunks p) \<and>
     total_chunks p \<le> received_chunks p + length (pending_chunks p)"

definition handler_inv :: "handler \<Rightarrow> bool" where
  "handler_inv h \<longleftrightarrow>
     hm_wf (hd_progress h) \<and>
     list_all (\<lambda>(k, p). fp_folder_id p = k \<and> folder_inv p) (hd_progress h) \<and>
     (\<forall>peer. hd_peer h = Some peer \<longrightarrow> is_compatible (pi_version peer)) \<and>
     (hd_state h = WaitingForHello \<longrightarrow> hd_peer h = None \<and> hd_progress h = []) \<and>
     (hd_state h = Connected \<longrightarrow> hd_progress h = []) \<and>
     (hd_state h \<in> {Connected, Syncing, Completed} \<longrightarrow> hd_peer h \<noteq> None) \<and>
     (hd_state h = Completed \<longrightarrow>
        hd_progress h \<noteq> [] \<and> list_all (\<lambda>(_, p). progress_complete p) (hd_progress h))"

text \<open>The folder that takes a chunk was waiting for it.\<close>

lemma take_pending_cases:
  assumes "iter_order itm" and "hm_wf m"
  obtains (absent) "take_pending itm hash m = m"
      "\<And>k p. hm_get m k = Some p \<Longrightarrow> hash \<notin> set (pending_chunks p)"
    | (present) k p where "hm_get m k = Some p" "hash \<in> set (pending_chunks p)"
      "take_pending itm hash m = hm_modify k (\<lambda>p. p\<lparr>pending_chunks := hs_del hash (pending_chunks p),
         received_chunks := received_chunks p + 1\<rparr>) m"
proof (cases "find (\<lambda>(k, p). hash \<in> set (pending_chunks p)) (itm m)")
  case None
  then have "\<forall>(k, p)\<in>set m. hash \<notin> set (pending_chunks p)"
    using iter_order_set [OF assms(1), of m] find_NoneD by fastforce
  moreover have "take_pending itm hash m = m"
    using None by (simp add: take_pending_def)
  ultimately show ?thesis
    using hm_mem_iff [OF assms(2)] by (intro absent) auto
next
  case (Some kp)
  obtain k p where kp: "kp = (k, p)" by (cases kp)
  with Some have "(k, p) \<in> set (itm m)" "hash \<in> set (pending_chunks p)"
    by (auto dest: find_SomeD)
  then have "hm_get m k = Some p"
    using iter_order_set [OF assms(1), of m] hm_mem_iff [OF assms(2)] by simp
  moreover have "take_pending itm hash m = hm_modify k
      (\<lambda>p. p\<lparr>pending_chunks := hs_del hash (pending_chunks p),
             received_chunks := received_chunks p + 1\<rparr>) m"
    using Some kp by (simp add: take_pending_def)
  ultimately show ?thesis
    using \<open>hash \<in> set (pending_chunks p)\<close> by (intro present)
qed

section \<open>Every handler keeps the invariant\<close>

named_theorems handler_inv_intros \<open>preservation of the handler invariant\<close>

lemma folder_inv_new: "folder_inv (new_progress i)"
  by (simp add: folder_inv_def new_progress_def)

lemma folder_inv_take:
  "folder_inv p \<Longrightarrow> folder_inv (p\<lparr>pending_chunks := hs_del x (pending_chunks p),
     received_chunks := Suc (received_chunks p)\<rparr>)"
  using length_hs_del_ge [of "pending_chunks p" x] by (auto simp add: folder_inv_def)

lemma distinct_manifest_chunks: "distinct (manifest_chunks m)"
  by (simp add: manifest_chunks_def)

lemma take_pending_shape:
  "take_pending itm hash m = m \<or> (\<exists>k. take_pending itm hash m =
     hm_modify k (\<lambda>p. p\<lparr>pending_chunks := hs_del hash (pending_chunks p),
                       received_chunks := received_chunks p + 1\<rparr>) m)"
  by (auto simp add: take_pending_def split: option.splits)

lemma take_pending_inv:
  assumes "hm_wf m" and "list_all (\<lambda>(k, p). fp_folder_id p = k \<and> folder_inv p) m"
  shows "hm_wf (take_pending itm hash m) \<and>
    list_all (\<lambda>(k, p). fp_folder_id p = k \<and> folder_inv p) (take_pending itm hash m)"
  using take_pending_shape [of itm hash m] assms
  by (auto intro!: list_all_modify simp add: folder_inv_take)

lemma new_handler_inv [handler_inv_intros]: "handler_inv (new_handler d n)"
  by (simp add: handler_inv_def new_handler_def hm.wf_empty)

lemma handle_hello_inv [handler_inv_intros]:
  "handler_inv h \<Longrightarrow> handle_hello b now m h = Some (h', r) \<Longrightarrow> handler_inv h'"
  by (auto simp add: handle_hello_def handler_inv_def Let_def split: if_splits)

lemma handle_folder_summary_inv [handler_inv_intros]:
  "handler_inv h \<Longrightarrow> handler_inv (fst (handle_folder_summary m h))"
  by (auto simp add: handle_folder_summary_def handler_inv_def Let_def folder_inv_new
      new_progress_def hm.wf_put intro!: list_all_put hm.wf_put)
    (auto simp add: folder_inv_def)

lemma handle_manifest_inv [handler_inv_intros]:
  "handler_inv h \<Longrightarrow> handler_inv (fst (handle_manifest its m h))"
  by (auto simp add: handle_manifest_def handler_inv_def Let_def folder_inv_def
      distinct_manifest_chunks intro!: list_all_modify)

lemma handle_want_inv [handler_inv_intros]:
  "handler_inv h \<Longrightarrow> handler_inv (fst (handle_want m h))"
  by (auto simp add: handle_want_def handler_inv_def Let_def folder_inv_def
      intro!: list_all_modify)

lemma handle_chunk_data_inv [handler_inv_intros]:
  assumes "handler_inv h"
  shows "handler_inv (fst (handle_chunk_data itm hex m h))"
proof (cases "hd_state h = Syncing")
  case False
  with assms show ?thesis by (simp add: handle_chunk_data_def)
next
  case True
  with assms take_pending_inv [of "hd_progress h" itm "cd_hash m"] show ?thesis
    by (auto simp add: handle_chunk_data_def handler_inv_def Let_def)
qed

lemma handle_error_inv [handler_inv_intros]: "handler_inv h \<Longrightarrow> handler_inv (handle_error e h)"
  by (simp add: handle_error_def handler_inv_def)

lemma handler_step_inv: "handler_inv h \<Longrightarrow> handler_inv (handler_step b itm msg h)"
  by (cases msg) (auto intro: handler_inv_intros split: option.splits)

interpretation handler: machine "handler_step b itm" handler_inv for b itm
  by unfold_locales (rule handler_step_inv)

section \<open>A complete exchange\<close>

text \<open>A session that syncs the one folder \<open>f\<close>, with the count of chunks exact.\<close>

definition one_folder :: "string \<Rightarrow> handler \<Rightarrow> bool" where
  "one_folder f h \<longleftrightarrow> (\<exists>p. hd_progress h = [(f, p)] \<and> distinct (pending_chunks p) \<and>
     0 < total_chunks p \<and> received_chunks p + length (pending_chunks p) = total_chunks p)"

definition still_pending :: "handler \<Rightarrow> bytes set" where
  "still_pending h = (\<Union>(_, p)\<in>set (hd_progress h). set (pending_chunks p))"

lemma iter_order_singleton: "iter_order it \<Longrightarrow> it [x] = [x]"
  using iter_order_mset [of it "[x]"] by simp

lemma chunk_step_one_folder:
  assumes "iter_order itm" and "hd_state h = Syncing" and "one_folder f h"
    and "still_pending h \<noteq> {}"
  shows "let h' = handler_step b itm (ChunkMsg c) h in
    still_pending h' = still_pending h - {cd_hash c} \<and>
    (if still_pending h' = {} then hd_state h' = Completed
     else hd_state h' = Syncing \<and> one_folder f h')"
proof -
  from assms(3) obtain p where p: "hd_progress h = [(f, p)]" "distinct (pending_chunks p)"
    "0 < total_chunks p" "received_chunks p + length (pending_chunks p) = total_chunks p"
    by (auto simp add: one_folder_def)
  have it: "itm [(f, p)] = [(f, p)]" using assms(1) by (rule iter_order_singleton)
  show ?thesis
  proof (cases "cd_hash c \<in> set (pending_chunks p)")
    case True
    let ?q = "p\<lparr>pending_chunks := hs_del (cd_hash c) (pending_chunks p),
                received_chunks := Suc (received_chunks p)\<rparr>"
    have tp: "take_pending itm (cd_hash c) [(f, p)] = [(f, ?q)]"
      using True it by (simp add: take_pending_def hm_modify_def)
    have len: "Suc (length (hs_del (cd_hash c) (pending_chunks p))) = length (pending_chunks p)"
      using length_hs_del [OF p(2) True] .
    have "progress_complete ?q \<longleftrightarrow> hs_del (cd_hash c) (pending_chunks p) = []"
      using p(3,4) len unfolding progress_complete_def
      by (cases "hs_del (cd_hash c) (pending_chunks p)") auto
    moreover have "hs_del (cd_hash c) (pending_chunks p) = [] \<longleftrightarrow>
        set (pending_chunks p) - {cd_hash c} = {}"
      by (metis set_empty set_hs_del)
    ultimately show ?thesis
      using p len assms(2) tp
      by (auto simp add: Let_def handle_chunk_data_def still_pending_def one_folder_def)
  next
    case False
    then have tp: "take_pending itm (cd_hash c) [(f, p)] = [(f, p)]"
      using it by (simp add: take_pending_def)
    have "pending_chunks p \<noteq> []" using assms(4) p(1) by (auto simp add: still_pending_def)
    then have "\<not> progress_complete p"
      using p(4) by (cases "pending_chunks p") (auto simp add: progress_complete_def)
    with False p assms tp show ?thesis
      by (auto simp add: Let_def handle_chunk_data_def still_pending_def one_folder_def)
  qed
qed

lemma completed_stable:
  "hd_state h = Completed \<Longrightarrow> hd_state (handler_step b itm (ChunkMsg c) h) = Completed"
  by (simp add: handle_chunk_data_def)

lemma completed_stable_run:
  "hd_state h = Completed \<Longrightarrow> hd_state (fold (handler_step b itm) (map ChunkMsg cs) h) = Completed"
  by (induction cs arbitrary: h) (auto simp add: completed_stable simp del: handler_step.simps)

lemma chunks_complete_folder:
  assumes "iter_order itm" and "hd_state h = Syncing" and "one_folder f h"
    and "still_pending h \<noteq> {}" and "still_pending h \<subseteq> cd_hash ` set cs"
  shows "hd_state (fold (handler_step b itm) (map ChunkMsg cs) h) = Completed"
  using assms(2-)
proof (induction cs arbitrary: h)
  case Nil
  then show ?case by simp
next
  case (Cons c cs)
  let ?h = "handler_step b itm (ChunkMsg c) h"
  note st = chunk_step_one_folder [OF assms(1) Cons.prems(1-3), of b c, unfolded Let_def]
  show ?case
  proof (cases "still_pending ?h = {}")
    case True
    with st have "hd_state ?h = Completed" by (simp only: if_True simp_thms)
    then show ?thesis by (simp add: completed_stable_run del: handler_step.simps)
  next
    case False
    with st have "hd_state ?h = Syncing" "one_folder f ?h"
      by (simp_all only: if_False simp_thms)
    moreover from st have "still_pending ?h = still_pending h - {cd_hash c}"
      by (rule conjunct1)
    then have "still_pending ?h \<subseteq> cd_hash ` set cs"
      using Cons.prems(4) by (simp del: handler_step.simps) blast
    ultimately have "hd_state (fold (handler_step b itm) (map ChunkMsg cs) ?h) = Completed"
      using False by (intro Cons.IH)
    then show ?thesis by (simp del: handler_step.simps)
  qed
qed

lemma opening_exchange:
  assumes "is_compatible (h_version hello)" and "8 \<le> length (h_device_id hello)"
    and "pm_folder_id m = fs_folder_id s" and "manifest_chunks m \<noteq> []"
  shows "let h = fold (handler_step b itm) [HelloMsg hello, SummaryMsg s, ManifestMsg m]
      (new_handler d n) in
    hd_state h = Syncing \<and> one_folder (fs_folder_id s) h \<and>
    still_pending h = set (manifest_chunks m)"
  using assms
  by (simp add: Let_def handle_hello_def handle_folder_summary_def handle_manifest_def
      new_handler_def subslice_def hm_put_def hm_modify_def one_folder_def new_progress_def
      distinct_manifest_chunks still_pending_def)

section \<open>A sample session\<close>

definition sample_hello :: hello where
  "sample_hello = \<lparr>h_version = ''0.1.0'', h_device_id = replicate 32 7,
     h_device_name = ''peer'', h_capabilities = [], h_timestamp = None\<rparr>"

definition sample_summary :: folder_summary where
  "sample_summary = \<lparr>fs_folder_id = ''f'', fs_folder_path = ''/f'', fs_manifest_hash = [],
     fs_total_size = 0, fs_file_count = 1, fs_last_modified = None\<rparr>"

definition sample_manifest :: proto_manifest where
  "sample_manifest = \<lparr>pm_folder_id = ''f'', pm_files = [\<lparr>fe_path = ''x'', fe_size = 2,
     fe_mode = 0, fe_modified = None, fe_chunk_hashes = [[2], [1]], fe_content_hash = []\<rparr>],
     pm_generated_at = None, pm_manifest_hash = []\<rparr>"

definition sample_chunk :: "bytes \<Rightarrow> chunk_data" where
  "sample_chunk h = \<lparr>cd_hash = h, cd_data = [], cd_compressed = False, cd_uncompressed_size = 0\<rparr>"

lemmas sample_defs = sample_hello_def sample_summary_def sample_manifest_def sample_chunk_def

lemma sample_compatible: "is_compatible ''0.1.0''"
  by (simp add: is_compatible_def parse_version_def parse_u32_def is_digit_def
      digits_val_def digit_val_def PROTOCOL_VERSION_MAJOR_def)

lemma sample_manifest_chunks: "manifest_chunks sample_manifest = [[1], [2]]"
  by (simp add: sample_manifest_def manifest_chunks_def hs_add_def)

lemmas handler_eval = Let_def sample_defs sample_compatible handle_hello_def handle_folder_summary_def
  handle_manifest_def handle_chunk_data_def new_handler_def subslice_def hm_put_def
  hm_modify_def new_progress_def manifest_chunks_def hs_add_def hs_del_def take_pending_def
  progress_complete_def still_pending_def

section \<open>Properties\<close>





text \<open>A second manifest for a folder resets what is pending but not what was received, so
  the handler reports Completed while a chunk of the folder has never arrived: after the
  manifest of two chunks, the first chunk, the same manifest and the first chunk again, the
  session is Completed and the second chunk is still pending.\<close>

theorem repeated_manifest_completes_early:
  "let c = sample_chunk [1];
       h = fold (handler_step True id)
         [HelloMsg sample_hello, SummaryMsg sample_summary, ManifestMsg sample_manifest,
          ChunkMsg c, ManifestMsg sample_manifest, ChunkMsg c] (new_handler [] [])
   in manifest_chunks sample_manifest = [[1], [2]] \<and> hd_state h = Completed \<and>
      [2] \<in> still_pending h"
  by (simp add: handler_eval)

end
