(* ===== verification/Manifest.thy ===== *)
theory Manifest
  imports Containers Codec
begin

text \<open>
  Folder manifests (\<open>landro-index/src/manifest.rs\<close>): the entries, the Merkle root over
  the entries sorted by path, its verification, and the difference of two manifests.

  BLAKE3 and the \<open>hex\<close> crate are parameters: \<open>blake3\<close> hashes the concatenation of the
  bytes its hasher was updated with, \<open>hex_decode\<close> fails with \<open>None\<close>.  A \<open>DateTime\<close> is the
  number of nanoseconds since the epoch.
\<close>

type_synonym date_time = int

definition timestamp :: "date_time \<Rightarrow> int" where
  "timestamp t = t div 1000000000"

definition str_bytes :: "string \<Rightarrow> bytes" where
  "str_bytes s = map (\<lambda>c. word_of_nat (of_char c)) s"

lemma length_str_bytes [simp]: "length (str_bytes s) = length s"
  by (simp add: str_bytes_def)

section \<open>Entries and manifests\<close>

record manifest_entry =
  path :: string
  file_size :: u64
  modified_at :: date_time
  content_hash :: string
  chunk_hashes :: "string list"
  mode :: "u32 option"

record manifest =
  folder_id :: string
  version :: u64
  files :: "manifest_entry list"
  created_at :: date_time
  manifest_hash :: "string option"

definition new_manifest :: "date_time \<Rightarrow> string \<Rightarrow> u64 \<Rightarrow> manifest" where
  "new_manifest now folder ver =
     \<lparr>folder_id = folder, version = ver, files = [], created_at = now, manifest_hash = None\<rparr>"

definition add_file :: "manifest_entry \<Rightarrow> manifest \<Rightarrow> manifest" where
  "add_file entry m = m\<lparr>files := files m @ [entry]\<rparr>"

definition total_size :: "manifest \<Rightarrow> u64" where
  "total_size m = sum_list (map file_size (files m))"

definition file_count :: "manifest \<Rightarrow> nat" where
  "file_count m = length (files m)"

section \<open>The Merkle root\<close>

definition decode_or_zero :: "(string \<Rightarrow> bytes option) \<Rightarrow> string \<Rightarrow> bytes" where
  "decode_or_zero hex_decode h = (case hex_decode h of Some bs \<Rightarrow> bs | None \<Rightarrow> replicate 32 0)"

definition entry_bytes :: "(string \<Rightarrow> bytes option) \<Rightarrow> manifest_entry \<Rightarrow> bytes" where
  "entry_bytes hex_decode e =
     str_bytes (path e) @ u64_le (file_size e) @
     decode_or_zero hex_decode (content_hash e) @
     (case mode e of Some md \<Rightarrow> u32_le md | None \<Rightarrow> replicate 4 0) @
     u64_le (word_of_int (timestamp (modified_at e))) @
     concat (map (decode_or_zero hex_decode) (chunk_hashes e))"

definition hash_file_entry ::
  "(bytes \<Rightarrow> bytes) \<Rightarrow> (string \<Rightarrow> bytes option) \<Rightarrow> manifest_entry \<Rightarrow> bytes" where
  "hash_file_entry blake3 hex_decode e = blake3 (entry_bytes hex_decode e)"

fun hash_pairs :: "(bytes \<Rightarrow> bytes) \<Rightarrow> bytes list \<Rightarrow> bytes list" where
  "hash_pairs blake3 [] = []"
| "hash_pairs blake3 [h] = [blake3 (h @ h)]"
| "hash_pairs blake3 (h # k # hs) = blake3 (h @ k) # hash_pairs blake3 hs"

lemma length_hash_pairs [simp]: "length (hash_pairs blake3 hs) = (length hs + 1) div 2"
  by (induction blake3 hs rule: hash_pairs.induct) auto

function merkle_root :: "(bytes \<Rightarrow> bytes) \<Rightarrow> bytes list \<Rightarrow> bytes" where
  "merkle_root blake3 hs =
     (if 1 < length hs then merkle_root blake3 (hash_pairs blake3 hs) else hs ! 0)"
  by pat_completeness auto
termination
  by (relation "measure (\<lambda>(_, hs). length hs)") auto

declare merkle_root.simps [simp del]

definition calculate_hash ::
  "(bytes \<Rightarrow> bytes) \<Rightarrow> (string \<Rightarrow> bytes option) \<Rightarrow> manifest \<Rightarrow> bytes" where
  "calculate_hash blake3 hex_decode m =
     (let sorted_files = sort_key path (files m) in
      if sorted_files = [] then blake3 []
      else merkle_root blake3 (map (hash_file_entry blake3 hex_decode) sorted_files))"

definition finalize ::
  "(bytes \<Rightarrow> bytes) \<Rightarrow> (string \<Rightarrow> bytes option) \<Rightarrow> (bytes \<Rightarrow> string) \<Rightarrow> manifest \<Rightarrow> manifest" where
  "finalize blake3 hex_decode to_hex m =
     m\<lparr>manifest_hash := Some (to_hex (calculate_hash blake3 hex_decode m))\<rparr>"

definition verify ::
  "(bytes \<Rightarrow> bytes) \<Rightarrow> (string \<Rightarrow> bytes option) \<Rightarrow> (bytes \<Rightarrow> string) \<Rightarrow> manifest \<Rightarrow> bool" where
  "verify blake3 hex_decode to_hex m =
     (case manifest_hash m of
        Some stored_hash \<Rightarrow> to_hex (calculate_hash blake3 hex_decode m) = stored_hash
      | None \<Rightarrow> False)"

section \<open>Differences\<close>

record manifest_diff =
  added :: "manifest_entry list"
  modified :: "manifest_entry list"
  deleted :: "manifest_entry list"

definition path_map :: "manifest \<Rightarrow> (string, manifest_entry) hmap" where
  "path_map m = hm_collect (map (\<lambda>f. (path f, f)) (files m))"

text \<open>\<open>it\<close> is the order in which the two maps are visited.\<close>

definition diff ::
  "((string \<times> manifest_entry) list \<Rightarrow> (string \<times> manifest_entry) list) \<Rightarrow>
   manifest \<Rightarrow> manifest \<Rightarrow> manifest_diff" where
  "diff it self other =
     (let self_map = path_map self; other_map = path_map other in
      \<lparr>added = [f. (p, f) \<leftarrow> it other_map, hm_get self_map p = None],
       modified = [f. (p, f) \<leftarrow> it other_map,
         case hm_get self_map p of
           None \<Rightarrow> False | Some self_file \<Rightarrow> content_hash self_file \<noteq> content_hash f],
       deleted = [f. (p, f) \<leftarrow> it self_map, \<not> hm_has other_map p]\<rparr>)"

definition has_changes :: "manifest_diff \<Rightarrow> bool" where
  "has_changes d \<longleftrightarrow> added d \<noteq> [] \<or> modified d \<noteq> [] \<or> deleted d \<noteq> []"

definition change_count :: "manifest_diff \<Rightarrow> nat" where
  "change_count d = length (added d) + length (modified d) + length (deleted d)"

section \<open>The root depends on the set of entries\<close>

lemma sort_key_unique:
  assumes "mset xs = mset ys" and "distinct (map f xs)"
  shows "sort_key f xs = sort_key f ys"
  by (rule sort_key_inj_key_eq) (use assms in \<open>simp_all add: distinct_map\<close>)

section \<open>Odd levels\<close>

lemma hash_pairs_duplicate_last:
  "odd (length hs) \<Longrightarrow> hash_pairs b (hs @ [last hs]) = hash_pairs b hs"
  by (induction b hs rule: hash_pairs.induct) (auto elim: oddE)

lemma merkle_duplicate_last:
  assumes "odd (length hs)" and "1 < length hs"
  shows "merkle_root b (hs @ [last hs]) = merkle_root b hs"
proof -
  have "merkle_root b (hs @ [last hs]) = merkle_root b (hash_pairs b (hs @ [last hs]))"
    using assms(2) by (subst merkle_root.simps) auto
  also have "\<dots> = merkle_root b (hash_pairs b hs)"
    by (simp only: hash_pairs_duplicate_last [OF assms(1)])
  also have "\<dots> = merkle_root b hs"
    using assms(2) by (subst (2) merkle_root.simps) simp
  finally show ?thesis .
qed

lemma sort_key_sorted_snoc:
  assumes "sorted (map f (xs @ [x]))"
  shows "sort_key f (xs @ [x]) = xs @ [x]"
  by (rule sort_key_id_if_sorted) (rule assms)

section \<open>What a difference says\<close>

text \<open>The content hashes of a manifest by path; of a repeated path the last entry counts.\<close>

definition contents :: "manifest \<Rightarrow> string \<Rightarrow> string option" where
  "contents m p = map_option content_hash (hm_get (path_map m) p)"

text \<open>What the receiver of a difference does: drop the deleted paths, then set the content
  of the added and modified ones.\<close>

definition apply_diff :: "manifest_diff \<Rightarrow> (string \<Rightarrow> string option) \<Rightarrow> string \<Rightarrow> string option" where
  "apply_diff d c =
     (c |` (- set (map path (deleted d)))) ++
     map_of (map (\<lambda>f. (path f, content_hash f)) (added d @ modified d))"

lemma path_map_wf [simp]: "hm_wf (path_map m)"
  by (simp add: path_map_def)

lemma path_map_key: "hm_get (path_map m) p = Some f \<Longrightarrow> path f = p"
  unfolding path_map_def by (drule hm_get_collect_keyed) simp

lemma path_map_mem: "(p, f) \<in> set (path_map m) \<longleftrightarrow> hm_get (path_map m) p = Some f"
  by (simp add: hm_mem_iff)

lemma in_added: "iter_order it \<Longrightarrow> f \<in> set (added (diff it m n)) \<longleftrightarrow>
    (\<exists>p. hm_get (path_map n) p = Some f \<and> hm_get (path_map m) p = None)"
  by (auto simp add: diff_def Let_def iter_order_set path_map_mem)

lemma in_modified: "iter_order it \<Longrightarrow> f \<in> set (modified (diff it m n)) \<longleftrightarrow>
    (\<exists>p g. hm_get (path_map n) p = Some f \<and> hm_get (path_map m) p = Some g \<and>
      content_hash g \<noteq> content_hash f)"
  by (fastforce simp add: diff_def Let_def iter_order_set path_map_mem split: option.splits)

lemma in_deleted: "iter_order it \<Longrightarrow> f \<in> set (deleted (diff it m n)) \<longleftrightarrow>
    (\<exists>p. hm_get (path_map m) p = Some f \<and> hm_get (path_map n) p = None)"
  by (auto simp add: diff_def Let_def iter_order_set path_map_mem hm_has_def)

text \<open>The entry of a changed path is the one under its own path.\<close>

lemma path_map_get_path: "hm_get (path_map m) p = Some f \<Longrightarrow> hm_get (path_map m) (path f) = Some f"
  using path_map_key by metis

lemma map_of_entries:
  "map_of (map (\<lambda>f. (path f, content_hash f)) fs) p =
     map_option content_hash (find (\<lambda>f. path f = p) fs)"
  by (induction fs) auto

lemma apply_diff_contents:
  assumes it: "iter_order it"
  shows "apply_diff (diff it m n) (contents m) p = contents n p"
proof (cases "find (\<lambda>f. path f = p) (added (diff it m n) @ modified (diff it m n))")
  case (Some f)
  then have "path f = p" and "f \<in> set (added (diff it m n)) \<union> set (modified (diff it m n))"
    using find_SomeD by fastforce+
  then have "hm_get (path_map n) p = Some f"
    using path_map_get_path in_added [OF it] in_modified [OF it] by auto
  then show ?thesis
    using Some by (simp add: apply_diff_def map_add_def contents_def map_of_entries del: map_append)
next
  case None
  then have no: "path f \<noteq> p" if "f \<in> set (added (diff it m n)) \<union> set (modified (diff it m n))" for f
    using find_NoneD [OF None, of f] that by auto
  have d: "p \<in> path ` set (deleted (diff it m n)) \<longleftrightarrow>
      hm_get (path_map m) p \<noteq> None \<and> hm_get (path_map n) p = None"
  proof
    assume "p \<in> path ` set (deleted (diff it m n))"
    then show "hm_get (path_map m) p \<noteq> None \<and> hm_get (path_map n) p = None"
      using path_map_key [of m] by (auto simp add: in_deleted [OF it])
  next
    assume a: "hm_get (path_map m) p \<noteq> None \<and> hm_get (path_map n) p = None"
    then obtain f where f: "hm_get (path_map m) p = Some f" by blast
    with a have "f \<in> set (deleted (diff it m n))" by (auto simp add: in_deleted [OF it])
    with path_map_key [OF f] show "p \<in> path ` set (deleted (diff it m n))" by blast
  qed
  have "map_option content_hash (hm_get (path_map m) p) =
      map_option content_hash (hm_get (path_map n) p)" if "hm_get (path_map n) p \<noteq> None"
  proof -
    from that obtain f where f: "hm_get (path_map n) p = Some f" by blast
    then have "path f = p" by (rule path_map_key)
    with f no [of f] show ?thesis
      by (cases "hm_get (path_map m) p") (auto simp add: in_added [OF it] in_modified [OF it])
  qed
  with d None show ?thesis
    by (cases "hm_get (path_map n) p"; cases "hm_get (path_map m) p")
      (auto simp add: apply_diff_def map_add_def contents_def map_of_entries restrict_map_def
        simp del: map_append)
qed

lemma diff_empty_iff:
  assumes it: "iter_order it"
  shows "\<not> has_changes (diff it m n) \<longleftrightarrow> contents m = contents n"
proof
  assume "\<not> has_changes (diff it m n)"
  then have "apply_diff (diff it m n) (contents m) = contents m"
    by (auto simp add: apply_diff_def has_changes_def)
  then show "contents m = contents n"
    using apply_diff_contents [OF it, of m n] by (simp add: fun_eq_iff)
next
  assume eq: "contents m = contents n"
  have c: "map_option content_hash (hm_get (path_map m) p) =
      map_option content_hash (hm_get (path_map n) p)" for p
    using fun_cong [OF eq, of p] by (simp add: contents_def)
  have k: "hm_get (path_map m) p = None \<longleftrightarrow> hm_get (path_map n) p = None" for p
    using c [of p] by (metis option.map_disc_iff)
  have "f \<notin> set (added (diff it m n))" for f
    by (metis in_added [OF it] k option.distinct(1))
  moreover have "f \<notin> set (deleted (diff it m n))" for f
    by (metis in_deleted [OF it] k option.distinct(1))
  moreover have "f \<notin> set (modified (diff it m n))" for f
  proof
    assume "f \<in> set (modified (diff it m n))"
    then obtain p g where "hm_get (path_map n) p = Some f" "hm_get (path_map m) p = Some g"
      "content_hash g \<noteq> content_hash f" by (auto simp add: in_modified [OF it])
    with c [of p] show False by simp
  qed
  ultimately show "\<not> has_changes (diff it m n)"
    unfolding has_changes_def by (metis list.set_intros(1) neq_Nil_conv)
qed

section \<open>What the root binds\<close>

text \<open>The byte strings that computing a root over \<open>hs\<close> feeds to BLAKE3.\<close>

fun pair_inputs :: "bytes list \<Rightarrow> bytes list" where
  "pair_inputs [] = []"
| "pair_inputs [h] = [h @ h]"
| "pair_inputs (h # k # hs) = (h @ k) # pair_inputs hs"

lemma hash_pairs_inputs: "hash_pairs b hs = map b (pair_inputs hs)"
  by (induction b hs rule: hash_pairs.induct) auto

function merkle_inputs :: "(bytes \<Rightarrow> bytes) \<Rightarrow> bytes list \<Rightarrow> bytes list" where
  "merkle_inputs b hs =
     (if 1 < length hs then pair_inputs hs @ merkle_inputs b (hash_pairs b hs) else [])"
  by pat_completeness auto
termination
  by (relation "measure (\<lambda>(_, hs). length hs)") auto

declare merkle_inputs.simps [simp del]

lemma pair_inputs_inj:
  assumes "pair_inputs hs = pair_inputs ks" and "length hs = length ks"
    and "\<forall>h\<in>set hs. length h = 32" and "\<forall>h\<in>set ks. length h = 32"
  shows "hs = ks"
  using assms
proof (induction hs arbitrary: ks rule: pair_inputs.induct)
  case 1
  then show ?case by simp
next
  case (2 h)
  then show ?case by (cases ks) auto
next
  case (3 h h' hs)
  then obtain k k' ks' where "ks = k # k' # ks'"
    by (cases ks rule: pair_inputs.cases) auto
  with 3 show ?case by auto
qed

lemma merkle_root_binds:
  assumes "inj_on b (set (merkle_inputs b hs) \<union> set (merkle_inputs b ks))"
    and "length hs = length ks" and "hs \<noteq> []" and "merkle_root b hs = merkle_root b ks"
    and "\<forall>h\<in>set hs. length h = 32" and "\<forall>h\<in>set ks. length h = 32" and "\<And>x. length (b x) = 32"
  shows "hs = ks"
  using assms
proof (induction b hs arbitrary: ks rule: merkle_root.induct)
  case (1 b hs)
  show ?case
  proof (cases "1 < length hs")
    case False
    then have "length hs = 1" and "length ks = 1"
      using "1.prems"(2,3) by (cases hs; simp)+
    with "1.prems"(4) show ?thesis
      by (auto simp add: merkle_root.simps length_Suc_conv)
  next
    case True
    note k = merkle_inputs.simps [of b hs] merkle_inputs.simps [of b ks]
    have "hash_pairs b hs = hash_pairs b ks"
    proof (rule "1.IH" [OF True])
      show "inj_on b (set (merkle_inputs b (hash_pairs b hs)) \<union>
          set (merkle_inputs b (hash_pairs b ks)))"
        by (rule inj_on_subset [OF "1.prems"(1)]) (use True "1.prems"(2) in \<open>auto simp add: k\<close>)
      show "hash_pairs b hs \<noteq> []" using "1.prems"(3) by (cases hs rule: pair_inputs.cases) auto
      show "merkle_root b (hash_pairs b hs) = merkle_root b (hash_pairs b ks)"
        using "1.prems"(2,4) True by (simp add: merkle_root.simps [of b hs] merkle_root.simps [of b ks])
      show "length (hash_pairs b hs) = length (hash_pairs b ks)" using "1.prems"(2) by simp
      show "\<forall>h\<in>set (hash_pairs b hs). length h = 32" "\<forall>h\<in>set (hash_pairs b ks). length h = 32"
        using "1.prems"(7) by (auto simp add: hash_pairs_inputs)
      show "length (b x) = 32" for x by (rule "1.prems"(7))
    qed
    then have "map b (pair_inputs hs) = map b (pair_inputs ks)"
      by (simp add: hash_pairs_inputs)
    moreover have "inj_on b (set (pair_inputs hs) \<union> set (pair_inputs ks))"
      by (rule inj_on_subset [OF "1.prems"(1)]) (use True "1.prems"(2) in \<open>auto simp add: k\<close>)
    ultimately have "pair_inputs hs = pair_inputs ks"
      by (rule map_inj_on)
    then show ?thesis by (rule pair_inputs_inj) (use "1.prems" in auto)
  qed
qed

section \<open>Properties\<close>

text \<open>The root does not depend on the order in which files were added: manifests with the
  same entries under distinct paths have the same hash.\<close>

theorem manifest_hash_order_independent:
  assumes "mset (files m) = mset (files n)" and "distinct (map path (files m))"
  shows "calculate_hash blake3 hex_decode m = calculate_hash blake3 hex_decode n"
  using sort_key_unique [OF assms] by (simp add: calculate_hash_def Let_def)

definition sample_entry :: "string \<Rightarrow> string \<Rightarrow> manifest_entry" where
  "sample_entry p h = \<lparr>path = p, file_size = 100, modified_at = 0, content_hash = h,
     chunk_hashes = [h], mode = Some 420\<rparr>"

definition sample_manifest :: "manifest_entry list \<Rightarrow> manifest" where
  "sample_manifest fs = \<lparr>folder_id = ''docs'', version = 1, files = fs, created_at = 0,
     manifest_hash = None\<rparr>"

definition sample_hash :: "bytes \<Rightarrow> bytes" where
  "sample_hash x = take 32 (x @ replicate 32 0)"

theorem manifest_hash_order_independent_witness:
  "calculate_hash sample_hash (\<lambda>_. None)
      (sample_manifest [sample_entry ''a'' ''1'', sample_entry ''b'' ''2'']) =
   calculate_hash sample_hash (\<lambda>_. None)
      (sample_manifest [sample_entry ''b'' ''2'', sample_entry ''a'' ''1''])"
  by (rule manifest_hash_order_independent)
    (simp_all add: sample_manifest_def sample_entry_def add_mset_commute)

text \<open>Tampering is visible up to BLAKE3 collisions: a finalized manifest whose files are
  replaced by as many others still verifies only if the entries' hashed bytes, in path
  order, are the same, provided BLAKE3 does not collide on the strings hashed and its hex
  form determines the hash.\<close>

theorem verify_binds_entries:
  assumes hashed: "H = set (map (entry_bytes hex_decode) (files m @ fs))
      \<union> set (merkle_inputs blake3 (map (hash_file_entry blake3 hex_decode) (sort_key path (files m))))
      \<union> set (merkle_inputs blake3 (map (hash_file_entry blake3 hex_decode) (sort_key path fs)))"
    and no_collision: "inj_on blake3 H" and len: "\<And>x. length (blake3 x) = 32"
    and hex: "inj to_hex" and count: "length fs = length (files m)"
    and ok: "verify blake3 hex_decode to_hex
      ((finalize blake3 hex_decode to_hex m)\<lparr>files := fs\<rparr>)"
  shows "map (entry_bytes hex_decode) (sort_key path fs) =
    map (entry_bytes hex_decode) (sort_key path (files m))"
proof (cases "files m = []")
  case True
  then show ?thesis using count by simp
next
  case False
  then have ne: "sort_key path (files m) \<noteq> []" "sort_key path fs \<noteq> []"
    using count by (metis length_0_conv length_sort)+
  let ?l = "\<lambda>es. map (hash_file_entry blake3 hex_decode) (sort_key path es)"
  from ok ne have root: "merkle_root blake3 (?l fs) = merkle_root blake3 (?l (files m))"
    by (auto simp add: verify_def finalize_def calculate_hash_def Let_def dest: injD [OF hex])
  have "?l fs = ?l (files m)"
  proof (rule merkle_root_binds [OF _ _ _ root])
    show "inj_on blake3 (set (merkle_inputs blake3 (?l fs)) \<union>
        set (merkle_inputs blake3 (?l (files m))))"
      by (rule inj_on_subset [OF no_collision]) (auto simp add: hashed)
  qed (use count ne len in \<open>auto simp add: hash_file_entry_def\<close>)
  moreover have "hash_file_entry blake3 hex_decode = (\<lambda>e. blake3 (entry_bytes hex_decode e))"
    by (rule ext) (simp add: hash_file_entry_def)
  ultimately have "map blake3 (map (entry_bytes hex_decode) (sort_key path fs)) =
      map blake3 (map (entry_bytes hex_decode) (sort_key path (files m)))"
    by (simp add: comp_def)
  then show ?thesis
    by (rule map_inj_on) (rule inj_on_subset [OF no_collision], auto simp add: hashed)
qed

definition sample_hex :: "bytes \<Rightarrow> string" where
  "sample_hex = map (\<lambda>b. char_of (unat b))"

lemma inj_sample_hex: "inj sample_hex"
  unfolding sample_hex_def
proof (rule inj_mapI, rule injI)
  fix a b :: u8
  assume "(char_of (unat a) :: char) = char_of (unat b)"
  then have "(of_char (char_of (unat a)) :: nat) = of_char (char_of (unat b))" by simp
  then have "unat a = unat b" using unat_u8_less [of a] unat_u8_less [of b] by simp
  then show "a = b" by (rule unsigned_word_eqI)
qed

lemma le_bytes_0: "le_bytes n 0 = replicate n 0"
  by (induction n) auto

lemma missing_mode_bytes:
  "entry_bytes hex_decode (e\<lparr>mode := None\<rparr>) = entry_bytes hex_decode (e\<lparr>mode := Some 0\<rparr>)"
  by (simp add: entry_bytes_def u32_le_def le_bytes_0)

theorem verify_binds_entries_witness:
  "let m = sample_manifest [(sample_entry ''a'' ''1'')\<lparr>mode := Some 0\<rparr>];
       fs = [(sample_entry ''a'' ''1'')\<lparr>mode := None\<rparr>] in
   map (entry_bytes (\<lambda>_. None)) (sort_key path fs) =
   map (entry_bytes (\<lambda>_. None)) (sort_key path (files m))"
proof -
  let ?e = "sample_entry ''a'' ''1''"
  let ?m = "sample_manifest [?e\<lparr>mode := Some 0\<rparr>]"
  have hash: "hash_file_entry sample_hash (\<lambda>_. None) (?e\<lparr>mode := None\<rparr>) =
      hash_file_entry sample_hash (\<lambda>_. None) (?e\<lparr>mode := Some 0\<rparr>)"
    by (simp only: hash_file_entry_def missing_mode_bytes)
  then have "verify sample_hash (\<lambda>_. None) sample_hex
      ((finalize sample_hash (\<lambda>_. None) sample_hex ?m)\<lparr>files := [?e\<lparr>mode := None\<rparr>]\<rparr>)"
    by (simp add: verify_def finalize_def calculate_hash_def merkle_root.simps sample_manifest_def)
  from verify_binds_entries [OF refl _ _ inj_sample_hex _ this] show ?thesis
    by (simp add: sample_manifest_def merkle_inputs.simps missing_mode_bytes sample_hash_def)
qed

text \<open>The entry count is not bound: appending a copy of the last entry to an odd number
  (at least three) of entries in path order leaves the root, so a finalized manifest still
  verifies with the repeated entry.\<close>

theorem duplicated_last_entry_same_root:
  assumes "sorted (map path (files m))" and "odd (length (files m))" and "1 < length (files m)"
  shows "calculate_hash blake3 hex_decode (m\<lparr>files := files m @ [last (files m)]\<rparr>) =
    calculate_hash blake3 hex_decode m"
proof -
  let ?l = "map (hash_file_entry blake3 hex_decode) (files m)"
  have "files m \<noteq> []" using assms(3) by auto
  then have "sorted (map path (files m @ [last (files m)]))"
    using assms(1) by (cases "files m" rule: rev_cases) (auto simp add: sorted_append)
  then have "sort_key path (files m @ [last (files m)]) = files m @ [last (files m)]"
    by (rule sort_key_sorted_snoc)
  moreover have "sort_key path (files m) = files m"
    using assms(1) by (rule sort_key_id_if_sorted)
  moreover have "merkle_root blake3 (?l @ [last ?l]) = merkle_root blake3 ?l"
    using assms(2,3) by (intro merkle_duplicate_last) simp_all
  ultimately show ?thesis
    using \<open>files m \<noteq> []\<close> by (simp add: calculate_hash_def Let_def last_map)
qed

theorem duplicated_last_entry_same_root_witness:
  "let fs = [sample_entry ''a'' ''1'', sample_entry ''b'' ''2'', sample_entry ''c'' ''3''] in
   calculate_hash sample_hash (\<lambda>_. None) ((sample_manifest fs)\<lparr>files := fs @ [last fs]\<rparr>) =
   calculate_hash sample_hash (\<lambda>_. None) (sample_manifest fs)"
  using duplicated_last_entry_same_root [of "sample_manifest
      [sample_entry ''a'' ''1'', sample_entry ''b'' ''2'', sample_entry ''c'' ''3'']"]
  by (simp add: sample_manifest_def sample_entry_def Let_def)

text \<open>A difference is exactly what takes one manifest to the other: dropping the deleted
  paths and setting the added and modified ones turns the content hashes of \<open>self\<close> into
  those of \<open>other\<close>, in whatever order the maps are visited, and there are no changes only
  between manifests with the same contents.\<close>

theorem diff_transforms:
  assumes "iter_order it"
  shows "apply_diff (diff it self other) (contents self) = contents other \<and>
    (has_changes (diff it self other) \<longleftrightarrow> contents self \<noteq> contents other)"
  using diff_empty_iff [OF assms, of self other]
  by (simp add: fun_eq_iff [of "apply_diff _ _"] apply_diff_contents [OF assms]) blast

theorem diff_transforms_witness:
  "apply_diff (diff rev (sample_manifest [sample_entry ''a'' ''1'', sample_entry ''b'' ''2''])
      (sample_manifest [sample_entry ''b'' ''3'', sample_entry ''c'' ''4'']))
    (contents (sample_manifest [sample_entry ''a'' ''1'', sample_entry ''b'' ''2''])) =
   contents (sample_manifest [sample_entry ''b'' ''3'', sample_entry ''c'' ''4''])"
  using diff_transforms [OF iter_order_rev] by blast

end
