(* ===== verification/Diff.thy ===== *)
theory Diff
  imports Manifest Machines
begin

text \<open>
  The difference the sync engine computes between two manifests
  (\<open>landro-sync/src/diff.rs\<close>): one change per path, the chunks each change needs, the
  statistics, the transfer order, the Merkle proof of large manifests, and the incremental
  tracker with its pending changes per peer.

  The chunk cache is the list of the hashes the receiver holds.  \<open>it\<close> is the order in
  which a path map is visited and \<open>it_sub\<close> that of the subtree map.  \<open>u64\<close> sums wrap, as
  they do in a release build.  \<open>compute_diff\<close> never returns an error, so its model returns
  the result itself.
\<close>

section \<open>Changes\<close>

datatype change_type = Added | Modified | Deleted | MetadataOnly

record file_change =
  change_path :: string
  change_type :: change_type
  source_entry :: "manifest_entry option"
  target_entry :: "manifest_entry option"
  required_chunks :: "string list"
  transfer_size :: u64

definition requires_transfer :: "file_change \<Rightarrow> bool" where
  "requires_transfer c \<longleftrightarrow> required_chunks c \<noteq> []"

definition priority :: "file_change \<Rightarrow> nat" where
  "priority c = (case change_type c of
      Modified \<Rightarrow> 100
    | Added \<Rightarrow> (if transfer_size c < 1000000 then 80 else 50)
    | MetadataOnly \<Rightarrow> 20
    | Deleted \<Rightarrow> 10)"

record diff_stats =
  files_added :: nat
  files_modified :: nat
  files_deleted :: nat
  files_metadata_only :: nat
  bytes_to_add :: u64
  bytes_to_modify :: u64
  bytes_to_delete :: u64
  total_chunks :: nat
  unique_chunks :: nat

definition default_stats :: diff_stats where
  "default_stats = \<lparr>files_added = 0, files_modified = 0, files_deleted = 0,
     files_metadata_only = 0, bytes_to_add = 0, bytes_to_modify = 0, bytes_to_delete = 0,
     total_chunks = 0, unique_chunks = 0\<rparr>"

record merkle_proof =
  root :: bytes
  subtree_hashes :: "bytes list"
  depth :: nat

record diff_result =
  changes :: "file_change list"
  total_transfer_size :: u64
  all_required :: "string hset"
  stats :: diff_stats
  proof_of :: "merkle_proof option"

definition result_has_changes :: "diff_result \<Rightarrow> bool" where
  "result_has_changes r \<longleftrightarrow> changes r \<noteq> []"

definition changes_by_type :: "change_type \<Rightarrow> diff_result \<Rightarrow> file_change list" where
  "changes_by_type t r = filter (\<lambda>c. change_type c = t) (changes r)"

definition priority_key :: "file_change \<Rightarrow> int \<times> u64" where
  "priority_key c = (- int (priority c), transfer_size c)"

definition prioritize_changes :: "diff_result \<Rightarrow> diff_result" where
  "prioritize_changes r = r\<lparr>changes := sort_key priority_key (changes r)\<rparr>"

section \<open>The diff computer\<close>

record diff_computer =
  chunk_cache :: "string list"
  enable_merkle_proofs :: bool
  max_merkle_depth :: nat

definition new_diff_computer :: "string list \<Rightarrow> diff_computer" where
  "new_diff_computer cache =
     \<lparr>chunk_cache = cache, enable_merkle_proofs = True, max_merkle_depth = 10\<rparr>"

definition find_required_chunks :: "diff_computer \<Rightarrow> manifest_entry \<Rightarrow> string list" where
  "find_required_chunks dc e = filter (\<lambda>h. h \<notin> set (chunk_cache dc)) (chunk_hashes e)"

definition compute_chunk_diff ::
  "diff_computer \<Rightarrow> manifest_entry \<Rightarrow> manifest_entry \<Rightarrow> string list" where
  "compute_chunk_diff dc source target =
     filter (\<lambda>h. h \<notin> set (chunk_hashes source) \<and> h \<notin> set (chunk_cache dc))
       (chunk_hashes target)"

definition calculate_transfer_size :: "string list \<Rightarrow> u64" where
  "calculate_transfer_size hs = word_of_nat (length hs) * (512 * 1024)"

function ceil_log2 :: "nat \<Rightarrow> nat" where
  "ceil_log2 n = (if n \<le> 1 then 0 else Suc (ceil_log2 ((n + 1) div 2)))"
  by pat_completeness auto
termination
  by (relation "measure id") auto

declare ceil_log2.simps [simp del]

definition calculate_tree_depth :: "diff_computer \<Rightarrow> nat \<Rightarrow> nat" where
  "calculate_tree_depth dc n = min (ceil_log2 n) (max_merkle_depth dc)"

definition subtree_key :: "manifest_entry \<Rightarrow> string" where
  "subtree_key f = hd (split_on CHR ''/'' (path f))"

fun group_subtrees ::
  "manifest_entry list \<Rightarrow> (string, manifest_entry list) hmap \<Rightarrow> (string, manifest_entry list) hmap"
where
  "group_subtrees [] m = m"
| "group_subtrees (f # fs) m =
     group_subtrees fs
       (hm_modify (subtree_key f) (\<lambda>v. v @ [f]) (hm_or_insert (subtree_key f) [] m))"

definition compute_subtree_hashes ::
  "(bytes \<Rightarrow> bytes) \<Rightarrow>
   ((string \<times> manifest_entry list) list \<Rightarrow> (string \<times> manifest_entry list) list) \<Rightarrow>
   manifest \<Rightarrow> bytes list" where
  "compute_subtree_hashes blake3 it_sub m =
     map (\<lambda>(_, fs). blake3 (concat (map (\<lambda>f.
         str_bytes (path f) @ u64_le (file_size f) @ str_bytes (content_hash f)) fs)))
       (it_sub (group_subtrees (files m) []))"

definition compute_merkle_proof ::
  "(bytes \<Rightarrow> bytes) \<Rightarrow> (string \<Rightarrow> bytes option) \<Rightarrow>
   ((string \<times> manifest_entry list) list \<Rightarrow> (string \<times> manifest_entry list) list) \<Rightarrow>
   diff_computer \<Rightarrow> manifest \<Rightarrow> manifest \<Rightarrow> merkle_proof option" where
  "compute_merkle_proof blake3 hex_decode it_sub dc source target =
     (if length (files source) < 100 \<and> length (files target) < 100 then None
      else
        let source_root = calculate_hash blake3 hex_decode source;
            target_root = calculate_hash blake3 hex_decode target in
        if source_root = target_root then None
        else Some \<lparr>root = target_root,
          subtree_hashes = compute_subtree_hashes blake3 it_sub target,
          depth = calculate_tree_depth dc (length (files target))\<rparr>)"

section \<open>The diff\<close>

text \<open>What the loops of \<open>compute_diff\<close> update.\<close>

record diff_acc =
  acc_changes :: "file_change list"
  acc_required :: "string hset"
  acc_stats :: diff_stats

definition visit_target ::
  "diff_computer \<Rightarrow> (string, manifest_entry) hmap \<Rightarrow> string \<times> manifest_entry \<Rightarrow> diff_acc \<Rightarrow> diff_acc"
where
  "visit_target dc source_map pe acc =
     (let (p, target) = pe; st = acc_stats acc in
      case hm_get source_map p of
        None \<Rightarrow>
          let required = find_required_chunks dc target;
              size = calculate_transfer_size required in
          \<lparr>acc_changes = acc_changes acc @ [\<lparr>change_path = p, change_type = Added,
             source_entry = None, target_entry = Some target, required_chunks = required,
             transfer_size = size\<rparr>],
           acc_required = hs_extend required (acc_required acc),
           acc_stats = st\<lparr>files_added := files_added st + 1,
             bytes_to_add := bytes_to_add st + file_size target\<rparr>\<rparr>
      | Some source \<Rightarrow>
          if content_hash source \<noteq> content_hash target then
            let required = compute_chunk_diff dc source target;
                size = calculate_transfer_size required in
            if required = [] \<and> file_size source = file_size target then
              acc\<lparr>acc_changes := acc_changes acc @ [\<lparr>change_path = p,
                    change_type = MetadataOnly, source_entry = Some source,
                    target_entry = Some target, required_chunks = [], transfer_size = 0\<rparr>],
                  acc_stats := st\<lparr>files_metadata_only := files_metadata_only st + 1\<rparr>\<rparr>
            else
              \<lparr>acc_changes = acc_changes acc @ [\<lparr>change_path = p, change_type = Modified,
                 source_entry = Some source, target_entry = Some target,
                 required_chunks = required, transfer_size = size\<rparr>],
               acc_required = hs_extend required (acc_required acc),
               acc_stats = st\<lparr>files_modified := files_modified st + 1,
                 bytes_to_modify := bytes_to_modify st + file_size target\<rparr>\<rparr>
          else acc)"

definition visit_source ::
  "(string, manifest_entry) hmap \<Rightarrow> string \<times> manifest_entry \<Rightarrow> diff_acc \<Rightarrow> diff_acc" where
  "visit_source target_map pe acc =
     (let (p, source) = pe; st = acc_stats acc in
      if hm_has target_map p then acc
      else acc\<lparr>acc_changes := acc_changes acc @ [\<lparr>change_path = p, change_type = Deleted,
              source_entry = Some source, target_entry = None, required_chunks = [],
              transfer_size = 0\<rparr>],
            acc_stats := st\<lparr>files_deleted := files_deleted st + 1,
              bytes_to_delete := bytes_to_delete st + file_size source\<rparr>\<rparr>)"

definition collect_changes ::
  "((string \<times> manifest_entry) list \<Rightarrow> (string \<times> manifest_entry) list) \<Rightarrow>
   diff_computer \<Rightarrow> manifest \<Rightarrow> manifest \<Rightarrow> diff_acc" where
  "collect_changes it dc source target =
     (let source_map = path_map source; target_map = path_map target in
      fold (visit_source target_map) (it source_map)
        (fold (visit_target dc source_map) (it target_map)
          \<lparr>acc_changes = [], acc_required = [], acc_stats = default_stats\<rparr>))"

definition compute_diff ::
  "(bytes \<Rightarrow> bytes) \<Rightarrow> (string \<Rightarrow> bytes option) \<Rightarrow>
   ((string \<times> manifest_entry) list \<Rightarrow> (string \<times> manifest_entry) list) \<Rightarrow>
   ((string \<times> manifest_entry list) list \<Rightarrow> (string \<times> manifest_entry list) list) \<Rightarrow>
   diff_computer \<Rightarrow> manifest \<Rightarrow> manifest \<Rightarrow> diff_result" where
  "compute_diff blake3 hex_decode it it_sub dc source target =
     (let acc = collect_changes it dc source target in
      prioritize_changes
        \<lparr>changes = acc_changes acc,
         total_transfer_size = sum_list (map transfer_size (acc_changes acc)),
         all_required = acc_required acc,
         stats = (acc_stats acc)\<lparr>unique_chunks := length (acc_required acc),
           total_chunks := sum_list (map (length \<circ> required_chunks) (acc_changes acc))\<rparr>,
         proof_of = (if enable_merkle_proofs dc
           then compute_merkle_proof blake3 hex_decode it_sub dc source target else None)\<rparr>)"

section \<open>One change per path\<close>

text \<open>The abstract specification: what the difference says of one path.\<close>

definition added_change :: "diff_computer \<Rightarrow> string \<Rightarrow> manifest_entry \<Rightarrow> file_change" where
  "added_change dc p t = \<lparr>change_path = p, change_type = Added, source_entry = None,
     target_entry = Some t, required_chunks = find_required_chunks dc t,
     transfer_size = calculate_transfer_size (find_required_chunks dc t)\<rparr>"

definition deleted_change :: "string \<Rightarrow> manifest_entry \<Rightarrow> file_change" where
  "deleted_change p s = \<lparr>change_path = p, change_type = Deleted, source_entry = Some s,
     target_entry = None, required_chunks = [], transfer_size = 0\<rparr>"

definition updated_change ::
  "diff_computer \<Rightarrow> string \<Rightarrow> manifest_entry \<Rightarrow> manifest_entry \<Rightarrow> file_change" where
  "updated_change dc p s t =
     (let required = compute_chunk_diff dc s t;
          meta = (required = [] \<and> file_size s = file_size t) in
      \<lparr>change_path = p, change_type = (if meta then MetadataOnly else Modified),
       source_entry = Some s, target_entry = Some t, required_chunks = required,
       transfer_size = (if meta then 0 else calculate_transfer_size required)\<rparr>)"

definition path_change ::
  "diff_computer \<Rightarrow> (string, manifest_entry) hmap \<Rightarrow> (string, manifest_entry) hmap \<Rightarrow>
   string \<Rightarrow> file_change option" where
  "path_change dc sm tm p =
     (case (hm_get sm p, hm_get tm p) of
        (None, None) \<Rightarrow> None
      | (None, Some t) \<Rightarrow> Some (added_change dc p t)
      | (Some s, None) \<Rightarrow> Some (deleted_change p s)
      | (Some s, Some t) \<Rightarrow>
          if content_hash s = content_hash t then None else Some (updated_change dc p s t))"

text \<open>The two loops split it: the paths of the target, then those of the source only.\<close>

definition target_change ::
  "diff_computer \<Rightarrow> (string, manifest_entry) hmap \<Rightarrow> string \<times> manifest_entry \<Rightarrow> file_change option"
where
  "target_change dc sm pe = (case hm_get sm (fst pe) of
      None \<Rightarrow> Some (added_change dc (fst pe) (snd pe))
    | Some s \<Rightarrow> if content_hash s = content_hash (snd pe) then None
                else Some (updated_change dc (fst pe) s (snd pe)))"

definition source_change ::
  "(string, manifest_entry) hmap \<Rightarrow> string \<times> manifest_entry \<Rightarrow> file_change option" where
  "source_change tm pe =
     (if hm_has tm (fst pe) then None else Some (deleted_change (fst pe) (snd pe)))"

lemma changes_visit_target:
  "acc_changes (visit_target dc sm pe acc) =
     acc_changes acc @ List.map_filter (target_change dc sm) [pe]"
  by (cases pe) (auto simp add: visit_target_def target_change_def added_change_def
      updated_change_def Let_def map_filter_simps split: option.splits)

lemma changes_visit_source:
  "acc_changes (visit_source tm pe acc) =
     acc_changes acc @ List.map_filter (source_change tm) [pe]"
  by (cases pe) (auto simp add: visit_source_def source_change_def deleted_change_def Let_def
      map_filter_simps)

lemma changes_fold_target:
  "acc_changes (fold (visit_target dc sm) pes acc) =
     acc_changes acc @ List.map_filter (target_change dc sm) pes"
  by (induction pes arbitrary: acc)
    (auto simp add: changes_visit_target map_filter_simps split: option.splits)

lemma changes_fold_source:
  "acc_changes (fold (visit_source tm) pes acc) =
     acc_changes acc @ List.map_filter (source_change tm) pes"
  by (induction pes arbitrary: acc)
    (auto simp add: changes_visit_source map_filter_simps split: option.splits)

lemma changes_collect:
  "acc_changes (collect_changes it dc s t) =
     List.map_filter (target_change dc (path_map s)) (it (path_map t)) @
     List.map_filter (source_change (path_map t)) (it (path_map s))"
  by (simp add: collect_changes_def Let_def changes_fold_target changes_fold_source)

lemma changes_collect_set:
  assumes it: "iter_order it"
  shows "c \<in> set (acc_changes (collect_changes it dc s t)) \<longleftrightarrow>
    (\<exists>p. path_change dc (path_map s) (path_map t) p = Some c)"
  unfolding changes_collect set_append Un_iff set_map_filter_option iter_order_set [OF it]
proof
  assume "(\<exists>x\<in>set (path_map t). target_change dc (path_map s) x = Some c) \<or>
      (\<exists>x\<in>set (path_map s). source_change (path_map t) x = Some c)"
  then show "\<exists>p. path_change dc (path_map s) (path_map t) p = Some c"
  proof (elim disjE bexE)
    fix x assume x: "x \<in> set (path_map t)" "target_change dc (path_map s) x = Some c"
    obtain p e where "x = (p, e)" by fastforce
    with x show ?thesis
      by (intro exI [of _ p])
        (auto simp add: path_change_def target_change_def path_map_mem split: option.splits if_splits)
  next
    fix x assume x: "x \<in> set (path_map s)" "source_change (path_map t) x = Some c"
    obtain p e where "x = (p, e)" by fastforce
    with x show ?thesis
      by (intro exI [of _ p])
        (auto simp add: path_change_def source_change_def path_map_mem hm_has_def
          split: option.splits if_splits)
  qed
next
  assume "\<exists>p. path_change dc (path_map s) (path_map t) p = Some c"
  then obtain p where p: "path_change dc (path_map s) (path_map t) p = Some c" ..
  show "(\<exists>x\<in>set (path_map t). target_change dc (path_map s) x = Some c) \<or>
      (\<exists>x\<in>set (path_map s). source_change (path_map t) x = Some c)"
  proof (cases "hm_get (path_map t) p")
    case (Some e)
    then have "(p, e) \<in> set (path_map t)" by (simp add: path_map_mem)
    moreover have "target_change dc (path_map s) (p, e) = Some c"
      using p Some by (auto simp add: path_change_def target_change_def split: option.splits if_splits)
    ultimately show ?thesis by blast
  next
    case None
    with p obtain e where e: "hm_get (path_map s) p = Some e" and "c = deleted_change p e"
      by (auto simp add: path_change_def split: option.splits)
    then have "(p, e) \<in> set (path_map s)" "source_change (path_map t) (p, e) = Some c"
      using None by (simp_all add: path_map_mem source_change_def hm_has_def)
    then show ?thesis by blast
  qed
qed

lemma path_of_target_change: "target_change dc sm pe = Some c \<Longrightarrow> change_path c = fst pe"
  by (auto simp add: target_change_def added_change_def updated_change_def Let_def
      split: option.splits if_splits)

lemma path_of_source_change: "source_change tm pe = Some c \<Longrightarrow> change_path c = fst pe"
  by (auto simp add: source_change_def deleted_change_def split: if_splits)

lemma distinct_map_filter_paths:
  assumes "\<And>pe c. f pe = Some c \<Longrightarrow> change_path c = fst pe" and "distinct (map fst pes)"
  shows "distinct (map change_path (List.map_filter f pes))"
  using assms(2)
proof (induction pes)
  case Nil
  then show ?case by (simp add: map_filter_simps)
next
  case (Cons pe pes)
  then show ?case
    by (cases "f pe") (fastforce simp add: map_filter_simps set_map_filter_option image_iff assms(1))+
qed

lemma distinct_paths_collect:
  assumes it: "iter_order it"
  shows "distinct (map change_path (acc_changes (collect_changes it dc s t)))"
proof -
  have d: "distinct (map fst (it (path_map m)))" for m
    using path_map_wf [of m]
    by (metis hm_wf_def iter_order_map_mset [OF it] mset_eq_imp_distinct_iff)
  have "change_path a \<noteq> change_path b"
    if "a \<in> set (List.map_filter (target_change dc (path_map s)) (it (path_map t)))"
      and "b \<in> set (List.map_filter (source_change (path_map t)) (it (path_map s)))" for a b
  proof
    assume eq: "change_path a = change_path b"
    from that(1) obtain p e where "(p, e) \<in> set (path_map t)" "p = change_path a"
      by (auto simp add: set_map_filter_option iter_order_set [OF it] path_of_target_change)
    then have "hm_has (path_map t) (change_path b)"
      using eq by (auto simp add: path_map_mem hm_has_def)
    moreover from that(2) obtain q f where "source_change (path_map t) (q, f) = Some b"
      by (auto simp add: set_map_filter_option)
    ultimately show False
      using path_of_source_change [of "path_map t" "(q, f)" b] by (simp add: source_change_def)
  qed
  then show ?thesis
    using distinct_map_filter_paths [OF path_of_target_change d]
      distinct_map_filter_paths [OF path_of_source_change d]
    by (auto simp add: changes_collect)
qed

section \<open>The accumulated statistics\<close>

definition count_type :: "change_type \<Rightarrow> file_change list \<Rightarrow> nat" where
  "count_type t cs = length (filter (\<lambda>c. change_type c = t) cs)"

definition acc_ok :: "diff_computer \<Rightarrow> diff_acc \<Rightarrow> bool" where
  "acc_ok dc acc \<longleftrightarrow>
     distinct (acc_required acc) \<and>
     set (acc_required acc) = (\<Union>c\<in>set (acc_changes acc). set (required_chunks c)) \<and>
     files_added (acc_stats acc) = count_type Added (acc_changes acc) \<and>
     files_modified (acc_stats acc) = count_type Modified (acc_changes acc) \<and>
     files_deleted (acc_stats acc) = count_type Deleted (acc_changes acc) \<and>
     files_metadata_only (acc_stats acc) = count_type MetadataOnly (acc_changes acc) \<and>
     (\<forall>c\<in>set (acc_changes acc). transfer_size c = calculate_transfer_size (required_chunks c) \<and>
        set (required_chunks c) \<inter> set (chunk_cache dc) = {})"

lemma no_chunks_no_size [simp]: "calculate_transfer_size [] = 0"
  by (simp add: calculate_transfer_size_def)

lemma required_not_cached [simp]:
  "set (find_required_chunks dc e) \<inter> set (chunk_cache dc) = {}"
  "set (compute_chunk_diff dc s e) \<inter> set (chunk_cache dc) = {}"
  by (auto simp add: find_required_chunks_def compute_chunk_diff_def)

lemma acc_ok_start: "acc_ok dc \<lparr>acc_changes = [], acc_required = [], acc_stats = default_stats\<rparr>"
  by (simp add: acc_ok_def default_stats_def count_type_def)

lemma acc_ok_visit_target:
  assumes "acc_ok dc acc"
  shows "acc_ok dc (visit_target dc sm pe acc)"
proof (cases "hm_get sm (fst pe)")
  case None
  with assms show ?thesis
    by (cases pe) (auto simp add: acc_ok_def visit_target_def count_type_def Let_def)
next
  case (Some s)
  with assms show ?thesis
    by (cases pe) (auto simp add: acc_ok_def visit_target_def count_type_def Let_def)
qed

lemma acc_ok_visit_source: "acc_ok dc acc \<Longrightarrow> acc_ok dc (visit_source tm pe acc)"
  by (cases pe) (auto simp add: acc_ok_def visit_source_def count_type_def Let_def)

interpretation target_walk: machine "visit_target dc sm" "acc_ok dc" for dc sm
  by unfold_locales (rule acc_ok_visit_target)

interpretation source_walk: machine "visit_source tm" "acc_ok dc" for tm dc
  by unfold_locales (rule acc_ok_visit_source)

lemma acc_ok_collect: "acc_ok dc (collect_changes it dc s t)"
  unfolding collect_changes_def Let_def
  by (intro source_walk.inv_fold target_walk.inv_fold acc_ok_start)

lemma count_type_sort [simp]: "count_type t (sort_key k cs) = count_type t cs"
  unfolding count_type_def by (metis mset_filter mset_sort size_mset)

lemma compute_diff_fields [simp]:
  "changes (compute_diff b h it is dc s t) =
     sort_key priority_key (acc_changes (collect_changes it dc s t))"
  "all_required (compute_diff b h it is dc s t) = acc_required (collect_changes it dc s t)"
  by (simp_all add: compute_diff_def Let_def prioritize_changes_def)

lemma sort_key_nil: "sort_key k xs = [] \<longleftrightarrow> xs = []"
  by (metis length_0_conv length_sort)

section \<open>The incremental tracker\<close>

record incremental_diff =
  last_versions :: "(string, u64) hmap"
  pending_changes :: "(string, file_change list) hmap"
  the_computer :: diff_computer

definition new_incremental :: "string list \<Rightarrow> incremental_diff" where
  "new_incremental cache = \<lparr>last_versions = [], pending_changes = [],
     the_computer = new_diff_computer cache\<rparr>"

definition compute_incremental ::
  "(bytes \<Rightarrow> bytes) \<Rightarrow> (string \<Rightarrow> bytes option) \<Rightarrow>
   ((string \<times> manifest_entry) list \<Rightarrow> (string \<times> manifest_entry) list) \<Rightarrow>
   ((string \<times> manifest_entry list) list \<Rightarrow> (string \<times> manifest_entry list) list) \<Rightarrow>
   string \<Rightarrow> manifest \<Rightarrow> manifest \<Rightarrow> incremental_diff \<Rightarrow> incremental_diff \<times> diff_result" where
  "compute_incremental blake3 hex_decode it it_sub peer_id current_manifest peer_manifest t =
     (let d = compute_diff blake3 hex_decode it it_sub (the_computer t)
                peer_manifest current_manifest;
          t1 = (if result_has_changes d
                then t\<lparr>pending_changes := hm_put peer_id (changes d) (pending_changes t)\<rparr>
                else t) in
      (t1\<lparr>last_versions := hm_put peer_id (version current_manifest) (last_versions t1)\<rparr>, d))"

definition acknowledge_pending :: "string list \<Rightarrow> file_change list \<Rightarrow> file_change list" where
  "acknowledge_pending hs pending =
     filter (\<lambda>c. required_chunks c \<noteq> [])
       (map (\<lambda>c. c\<lparr>required_chunks := filter (\<lambda>h. h \<notin> set hs) (required_chunks c)\<rparr>) pending)"

definition acknowledge_changes ::
  "string \<Rightarrow> string list \<Rightarrow> incremental_diff \<Rightarrow> incremental_diff" where
  "acknowledge_changes peer_id hs t =
     (case hm_get (pending_changes t) peer_id of
        None \<Rightarrow> t
      | Some pending \<Rightarrow>
          let left = acknowledge_pending hs pending in
          t\<lparr>pending_changes :=
              (if left = [] then hm_del peer_id (pending_changes t)
               else hm_modify peer_id (\<lambda>_. left) (pending_changes t))\<rparr>)"

definition get_pending :: "incremental_diff \<Rightarrow> string \<Rightarrow> file_change list option" where
  "get_pending t peer_id = hm_get (pending_changes t) peer_id"

definition reset_peer :: "string \<Rightarrow> incremental_diff \<Rightarrow> incremental_diff" where
  "reset_peer peer_id t =
     t\<lparr>last_versions := hm_del peer_id (last_versions t),
       pending_changes := hm_del peer_id (pending_changes t)\<rparr>"

definition tracker_ok :: "incremental_diff \<Rightarrow> bool" where
  "tracker_ok t \<longleftrightarrow> hm_wf (last_versions t) \<and> hm_wf (pending_changes t) \<and>
     list_all (\<lambda>(_, cs). cs \<noteq> []) (pending_changes t)"

text \<open>The operations as the inputs of one machine.\<close>

datatype tracker_op =
    Compute string manifest manifest
  | Acknowledge string "string list"
  | Reset string

fun tracker_step ::
  "(bytes \<Rightarrow> bytes) \<Rightarrow> (string \<Rightarrow> bytes option) \<Rightarrow>
   ((string \<times> manifest_entry) list \<Rightarrow> (string \<times> manifest_entry) list) \<Rightarrow>
   ((string \<times> manifest_entry list) list \<Rightarrow> (string \<times> manifest_entry list) list) \<Rightarrow>
   tracker_op \<Rightarrow> incremental_diff \<Rightarrow> incremental_diff" where
  "tracker_step b h it is (Compute p cur peer) t = fst (compute_incremental b h it is p cur peer t)"
| "tracker_step b h it is (Acknowledge p hs) t = acknowledge_changes p hs t"
| "tracker_step b h it is (Reset p) t = reset_peer p t"

lemma list_all_del: "list_all P m \<Longrightarrow> list_all P (hm_del k m)"
  by (auto simp add: list_all_iff hm_del_def AList.delete_eq)

lemma tracker_ok_step: "tracker_ok t \<Longrightarrow> tracker_ok (tracker_step b h it is op t)"
proof (cases op)
  case (Compute p cur peer)
  assume "tracker_ok t"
  with Compute show ?thesis
    by (auto simp add: tracker_ok_def compute_incremental_def Let_def hm.wf_put result_has_changes_def
        intro: list_all_put)
next
  case (Acknowledge p hs)
  assume "tracker_ok t"
  with Acknowledge show ?thesis
    by (auto simp add: tracker_ok_def acknowledge_changes_def Let_def hm.wf_del list_all_del
        intro: list_all_modify split: option.splits)
next
  case (Reset p)
  assume "tracker_ok t"
  with Reset show ?thesis
    by (auto simp add: tracker_ok_def reset_peer_def hm.wf_del list_all_del)
qed

interpretation tracker: machine "tracker_step b h it is" tracker_ok for b h it "is"
  by unfold_locales (rule tracker_ok_step)

section \<open>Sufficiency of the required chunks\<close>

lemma path_change_available:
  assumes "path_change dc sm tm p = Some c" and "target_entry c = Some e"
  shows "set (chunk_hashes e) \<subseteq> set (chunk_cache dc) \<union> set (required_chunks c) \<union>
    (case source_entry c of None \<Rightarrow> {} | Some s \<Rightarrow> set (chunk_hashes s))"
  using assms
  by (auto simp add: path_change_def added_change_def deleted_change_def updated_change_def
      find_required_chunks_def compute_chunk_diff_def Let_def filter_empty_conv
      split: option.splits if_splits)

lemma acknowledge_pending_all:
  "(\<Union>c\<in>set cs. set (required_chunks c)) \<subseteq> set hs \<Longrightarrow> acknowledge_pending hs cs = []"
  by (auto simp add: acknowledge_pending_def filter_empty_conv)

lemma get_pending_acknowledge:
  "tracker_ok t \<Longrightarrow> get_pending (acknowledge_changes p hs t) q =
     (if q = p then
        (case get_pending t p of None \<Rightarrow> None
         | Some cs \<Rightarrow> if acknowledge_pending hs cs = [] then None else Some (acknowledge_pending hs cs))
      else get_pending t q)"
  by (auto simp add: get_pending_def acknowledge_changes_def tracker_ok_def Let_def hm.get_del
      hm_get_modify split: option.splits)

lemma tracker_ok_new: "tracker_ok (new_incremental cache)"
  by (simp add: tracker_ok_def new_incremental_def hm.wf_empty)

lemma tracker_computer: "the_computer (tracker_step b h it is op t) = the_computer t"
  by (cases op) (auto simp add: compute_incremental_def acknowledge_changes_def reset_peer_def
      Let_def split: option.splits)

section \<open>Properties\<close>

text \<open>\<open>compute_diff\<close> reports exactly the changes between two manifests, one per path:
  \<open>Added\<close> for a path only in the target, \<open>Deleted\<close> for one only in the source,
  \<open>Modified\<close> or \<open>MetadataOnly\<close> where the content hashes differ, nothing else; whatever
  order its hash maps are visited in, the result is sorted by descending priority and
  ascending size.\<close>

theorem compute_diff_changes:
  assumes it: "iter_order it"
  shows "let cs = changes (compute_diff blake3 hex_decode it it_sub dc source target) in
    set cs = {c. \<exists>p. path_change dc (path_map source) (path_map target) p = Some c} \<and>
    distinct (map change_path cs) \<and> sorted (map priority_key cs)"
proof -
  have "distinct (map change_path (sort_key priority_key cs))"
    if "distinct (map change_path cs)" for cs
    using that by (metis mset_eq_imp_distinct_iff mset_map mset_sort)
  with distinct_paths_collect [OF it, of dc source target] show ?thesis
    by (auto simp add: Let_def changes_collect_set [OF it])
qed

definition sample_source :: manifest where
  "sample_source = sample_manifest [sample_entry ''a'' ''1'', sample_entry ''b'' ''2'']"

definition sample_target :: manifest where
  "sample_target = sample_manifest [sample_entry ''b'' ''3'', sample_entry ''c'' ''4'']"

theorem compute_diff_changes_witness:
  "let cs = changes (compute_diff sample_hash (\<lambda>_. None) rev rev (new_diff_computer [''3''])
      sample_source sample_target) in
    set cs = {c. \<exists>p. path_change (new_diff_computer [''3'']) (path_map sample_source)
      (path_map sample_target) p = Some c} \<and>
    distinct (map change_path cs) \<and> sorted (map priority_key cs)"
  by (rule compute_diff_changes [OF iter_order_rev])

text \<open>C5: Transferring the required chunks is enough and nothing the receiver holds is
  requested again: every chunk of a file to write is in the cache, in the file's old
  version or required; no required chunk is in the cache; and the statistics count the
  changes of each kind and the distinct chunks.\<close>

theorem compute_diff_chunks_suffice:
  assumes it: "iter_order it"
    and r: "r = compute_diff blake3 hex_decode it it_sub dc source target"
  shows "(\<forall>c\<in>set (changes r). \<forall>e. target_entry c = Some e \<longrightarrow>
      set (chunk_hashes e) \<subseteq> set (chunk_cache dc) \<union> set (all_required r) \<union>
        (case source_entry c of None \<Rightarrow> {} | Some s \<Rightarrow> set (chunk_hashes s))) \<and>
    set (all_required r) \<inter> set (chunk_cache dc) = {} \<and>
    files_added (stats r) = length (changes_by_type Added r) \<and>
    files_modified (stats r) = length (changes_by_type Modified r) \<and>
    files_deleted (stats r) = length (changes_by_type Deleted r) \<and>
    unique_chunks (stats r) = card (set (all_required r))"
proof -
  let ?acc = "collect_changes it dc source target"
  note ok = acc_ok_collect [of dc it source target, unfolded acc_ok_def]
  have "set (chunk_hashes e) \<subseteq> set (chunk_cache dc) \<union> set (all_required r) \<union>
        (case source_entry c of None \<Rightarrow> {} | Some s \<Rightarrow> set (chunk_hashes s))"
    if c: "c \<in> set (changes r)" and e: "target_entry c = Some e" for c e
  proof -
    have mem: "c \<in> set (acc_changes ?acc)" using c by (simp add: r)
    then obtain p where "path_change dc (path_map source) (path_map target) p = Some c"
      by (auto simp add: changes_collect_set [OF it])
    note sub = path_change_available [OF this e]
    have "set (required_chunks c) \<subseteq> set (all_required r)"
      using mem ok by (auto simp add: r)
    then show ?thesis using sub by blast
  qed
  moreover have "set (all_required r) \<inter> set (chunk_cache dc) = {}"
    using ok by (auto simp add: r)
  moreover have "stats r = (acc_stats ?acc)\<lparr>unique_chunks := length (acc_required ?acc),
      total_chunks := sum_list (map (length \<circ> required_chunks) (acc_changes ?acc))\<rparr>"
    by (simp add: r compute_diff_def Let_def prioritize_changes_def)
  moreover have "length (changes_by_type t r) = count_type t (acc_changes ?acc)" for t
    using count_type_sort [of t priority_key "acc_changes ?acc"]
    by (simp add: changes_by_type_def r count_type_def)
  moreover have "all_required r = acc_required ?acc" by (simp add: r)
  moreover from ok have "card (set (acc_required ?acc)) = length (acc_required ?acc)"
    by (intro distinct_card) simp
  then have "unique_chunks (stats r) = card (set (all_required r))"
    by (simp only: r compute_diff_fields compute_diff_def Let_def prioritize_changes_def) simp
  ultimately show ?thesis
    using ok by simp
qed

theorem compute_diff_chunks_suffice_witness:
  "let r = compute_diff sample_hash (\<lambda>_. None) rev rev (new_diff_computer [''3''])
      sample_source sample_target in
    set (all_required r) \<inter> set (chunk_cache (new_diff_computer [''3''])) = {} \<and>
    files_added (stats r) = length (changes_by_type Added r)"
  using compute_diff_chunks_suffice [OF iter_order_rev refl,
      of sample_hash "\<lambda>_. None" rev "new_diff_computer [''3'']" sample_source sample_target]
  unfolding Let_def by blast

text \<open>In every tracker the operations can reach, a diff with changes becomes the peer's
  pending list, acknowledging all its chunks clears the list, and no other peer's list
  changes.\<close>

theorem acknowledging_everything_clears:
  assumes t: "t = fold (tracker_step blake3 hex_decode it it_sub) ops (new_incremental cache)"
    and c: "compute_incremental blake3 hex_decode it it_sub p current peer t = (t', d)"
    and changes: "result_has_changes d" and all: "set (all_required d) \<subseteq> set hs"
  shows "get_pending t' p = Some (changes d) \<and>
    get_pending (acknowledge_changes p hs t') p = None \<and>
    (q \<noteq> p \<longrightarrow> get_pending (acknowledge_changes p hs t') q = get_pending t q)"
proof -
  have ok: "tracker_ok t"
    unfolding t by (intro tracker.inv_fold tracker_ok_new)
  have t': "t' = tracker_step blake3 hex_decode it it_sub (Compute p current peer) t"
    using c by simp
  have d: "d = compute_diff blake3 hex_decode it it_sub (the_computer t) peer current"
    using c by (auto simp add: compute_incremental_def Let_def)
  have ok': "tracker_ok t'" unfolding t' by (rule tracker_ok_step) (rule ok)
  have "get_pending t' q = (if q = p then Some (changes d) else get_pending t q)" for q
    using c changes ok by (auto simp add: compute_incremental_def Let_def get_pending_def
        tracker_ok_def hm.get_put)
  moreover have "acknowledge_pending hs (changes d) = []"
    using acc_ok_collect [of "the_computer t" it peer current] all
    by (intro acknowledge_pending_all) (auto simp add: d acc_ok_def)
  ultimately show ?thesis
    by (simp add: get_pending_acknowledge [OF ok'])
qed

theorem acknowledging_everything_clears_witness:
  "get_pending (acknowledge_changes ''peer'' [''4'', ''3'']
    (fst (compute_incremental sample_hash (\<lambda>_. None) id id ''peer'' sample_target sample_source
      (new_incremental [])))) ''peer'' = None"
proof -
  let ?t = "new_incremental []"
  let ?d = "compute_diff sample_hash (\<lambda>_. None) id id (the_computer ?t) sample_source sample_target"
  have "acc_required (collect_changes id (the_computer ?t) sample_source sample_target) = [''4'', ''3'']"
    and "acc_changes (collect_changes id (the_computer ?t) sample_source sample_target) \<noteq> []"
    by (simp_all add: collect_changes_def path_map_def hm_collect_def hm_put_def hm_get_def hm_has_def
        sample_source_def sample_target_def sample_manifest_def sample_entry_def visit_target_def
        visit_source_def new_incremental_def new_diff_computer_def find_required_chunks_def
        compute_chunk_diff_def hs_add_def Let_def)
  then have "set (all_required ?d) \<subseteq> set [''4'', ''3'']" and "result_has_changes ?d"
    by (auto simp add: result_has_changes_def sort_key_nil)
  with acknowledging_everything_clears [of ?t sample_hash "\<lambda>_. None" id id "[]" "[]" "''peer''"
      sample_target sample_source "fst (compute_incremental sample_hash (\<lambda>_. None) id id ''peer''
        sample_target sample_source ?t)" ?d "[''4'', ''3'']"]
  show ?thesis by (simp add: compute_incremental_def Let_def)
qed

text \<open>An acknowledgement forgets every change that moves no data, whatever was
  acknowledged: in every reachable tracker, acknowledging no chunk at all keeps exactly the
  changes that require a transfer, so pending deletions and metadata changes are lost.\<close>

theorem empty_acknowledgement_drops_deletions:
  assumes "t = fold (tracker_step blake3 hex_decode it it_sub) ops (new_incremental cache)"
    and "get_pending t p = Some cs"
  shows "get_pending (acknowledge_changes p [] t) p =
    (if filter requires_transfer cs = [] then None else Some (filter requires_transfer cs))"
proof -
  have "tracker_ok t" unfolding assms(1) by (intro tracker.inv_fold tracker_ok_new)
  moreover have "acknowledge_pending [] cs = filter requires_transfer cs"
    by (simp add: acknowledge_pending_def requires_transfer_def [abs_def])
  ultimately show ?thesis using assms(2) by (simp add: get_pending_acknowledge)
qed

theorem empty_acknowledgement_drops_deletions_witness:
  "\<exists>cs. get_pending (tracker_step sample_hash (\<lambda>_. None) id id
        (Compute ''peer'' (sample_manifest []) sample_source) (new_incremental [])) ''peer'' = Some cs \<and>
     cs \<noteq> [] \<and> get_pending (acknowledge_changes ''peer'' [] (tracker_step sample_hash (\<lambda>_. None) id id
        (Compute ''peer'' (sample_manifest []) sample_source) (new_incremental []))) ''peer'' = None"
proof -
  let ?op = "Compute ''peer'' (sample_manifest []) sample_source"
  let ?t = "fold (tracker_step sample_hash (\<lambda>_. None) id id) [?op] (new_incremental [])"
  have "acc_changes (collect_changes id (new_diff_computer []) sample_source (sample_manifest [])) =
      [deleted_change ''a'' (sample_entry ''a'' ''1''), deleted_change ''b'' (sample_entry ''b'' ''2'')]"
    by (simp add: collect_changes_def path_map_def hm_collect_def hm_put_def hm_get_def hm_has_def
        sample_source_def sample_manifest_def sample_entry_def visit_source_def deleted_change_def)
  then have "get_pending ?t ''peer'' = Some [deleted_change ''a'' (sample_entry ''a'' ''1''),
      deleted_change ''b'' (sample_entry ''b'' ''2'')]"
    by (simp add: compute_incremental_def Let_def get_pending_def new_incremental_def
        result_has_changes_def hm_put_def hm_get_def deleted_change_def priority_key_def priority_def)
  from empty_acknowledgement_drops_deletions [OF refl this] this show ?thesis
    by (simp add: requires_transfer_def deleted_change_def)
qed

end
