(* ===== verification/Conflicts.thy ===== *)
theory Conflicts
  imports Manifest Machines
begin

text \<open>
  Conflict detection between two manifests (\<open>landro-sync/src/conflict_detection.rs\<close>): which
  paths conflict, the automatic resolution, and the detector's table of detected conflicts;
  and the resolver with one default strategy (\<open>landro-sync/src/conflict.rs\<close>).

  \<open>now p\<close> is the clock when path \<open>p\<close> is checked and \<open>itp\<close> the order in which the set of
  paths is visited.  The check never fails, so its model returns the option itself.
\<close>

section \<open>Data\<close>

datatype conflict_type = BothModified | DeletedModified | CreateCreate

record conflict =
  file_path :: string
  conflict_type :: conflict_type
  local_entry :: "manifest_entry option"
  remote_entry :: "manifest_entry option"
  detected_at :: date_time
  resolved :: bool

datatype conflict_resolution = KeepLocal | KeepRemote | KeepNewer | Manual

record conflict_config =
  default_resolution :: conflict_resolution
  simultaneous_change_window :: nat
  auto_resolve :: bool

definition default_conflict_config :: conflict_config where
  "default_conflict_config = \<lparr>default_resolution = KeepNewer, simultaneous_change_window = 10,
     auto_resolve = True\<rparr>"

record conflict_detector =
  detector_config :: conflict_config
  detected_conflicts :: "(string, conflict) hmap"

definition new_detector :: "conflict_config \<Rightarrow> conflict_detector" where
  "new_detector c = \<lparr>detector_config = c, detected_conflicts = []\<rparr>"

section \<open>Detection\<close>

definition fresh_conflict ::
  "date_time \<Rightarrow> string \<Rightarrow> conflict_type \<Rightarrow> manifest_entry option \<Rightarrow> manifest_entry option \<Rightarrow> conflict"
where
  "fresh_conflict t p k l r = \<lparr>file_path = p, conflict_type = k, local_entry = l,
     remote_entry = r, detected_at = t, resolved = False\<rparr>"

fun check_file_conflict ::
  "date_time \<Rightarrow> string \<Rightarrow> manifest_entry option \<Rightarrow> manifest_entry option \<Rightarrow> date_time option \<Rightarrow>
   conflict option" where
  "check_file_conflict t p (Some l) (Some r) last_sync_time =
     (if content_hash l \<noteq> content_hash r then
        (case last_sync_time of
           Some last_sync \<Rightarrow>
             if modified_at l > last_sync \<and> modified_at r > last_sync
             then Some (fresh_conflict t p BothModified (Some l) (Some r)) else None
         | None \<Rightarrow> Some (fresh_conflict t p BothModified (Some l) (Some r)))
      else None)"
| "check_file_conflict t p (Some l) None last_sync_time =
     (case last_sync_time of
        Some last_sync \<Rightarrow>
          if modified_at l > last_sync
          then Some (fresh_conflict t p DeletedModified (Some l) None) else None
      | None \<Rightarrow> None)"
| "check_file_conflict t p None (Some r) last_sync_time =
     (case last_sync_time of
        Some last_sync \<Rightarrow>
          if modified_at r > last_sync
          then Some (fresh_conflict t p DeletedModified None (Some r)) else None
      | None \<Rightarrow> None)"
| "check_file_conflict t p None None last_sync_time = None"

definition detect_step ::
  "(string \<Rightarrow> date_time) \<Rightarrow> manifest \<Rightarrow> manifest \<Rightarrow> date_time option \<Rightarrow> string \<Rightarrow>
   conflict list \<times> conflict_detector \<Rightarrow> conflict list \<times> conflict_detector" where
  "detect_step now local remote last_sync p acc =
     (case check_file_conflict (now p) p (hm_get (path_map local) p)
             (hm_get (path_map remote) p) last_sync of
        None \<Rightarrow> acc
      | Some c \<Rightarrow> (fst acc @ [c],
          (snd acc)\<lparr>detected_conflicts := hm_put p c (detected_conflicts (snd acc))\<rparr>))"

definition all_paths :: "manifest \<Rightarrow> manifest \<Rightarrow> string hset" where
  "all_paths local remote =
     hs_extend (map fst (path_map remote)) (hs_extend (map fst (path_map local)) [])"

definition detect_conflicts ::
  "(string list \<Rightarrow> string list) \<Rightarrow> (string \<Rightarrow> date_time) \<Rightarrow> manifest \<Rightarrow> manifest \<Rightarrow>
   date_time option \<Rightarrow> conflict_detector \<Rightarrow> conflict list \<times> conflict_detector" where
  "detect_conflicts itp now local remote last_sync d =
     fold (detect_step now local remote last_sync) (itp (all_paths local remote)) ([], d)"

section \<open>Resolution\<close>

definition choose_resolution :: "conflict_config \<Rightarrow> conflict \<Rightarrow> conflict_resolution" where
  "choose_resolution cfg c =
     (case conflict_type c of
        BothModified \<Rightarrow>
          (case (local_entry c, remote_entry c) of
             (Some l, Some r) \<Rightarrow>
               (case default_resolution cfg of
                  KeepNewer \<Rightarrow>
                    if modified_at l > modified_at r then KeepLocal
                    else if modified_at r > modified_at l then KeepRemote
                    else KeepLocal
                | other \<Rightarrow> other)
           | _ \<Rightarrow> Manual)
      | DeletedModified \<Rightarrow> if local_entry c \<noteq> None then KeepLocal else KeepRemote
      | CreateCreate \<Rightarrow> default_resolution cfg)"

text \<open>The caller's conflict is updated, the detector is not: \<open>auto_resolve_conflict\<close> only
  reads the configuration.\<close>

definition auto_resolve_conflict ::
  "conflict_detector \<Rightarrow> conflict \<Rightarrow> conflict_resolution \<times> conflict" where
  "auto_resolve_conflict d c =
     (if \<not> auto_resolve (detector_config d) then (Manual, c)
      else let r = choose_resolution (detector_config d) c in
        (r, c\<lparr>resolved := (r \<noteq> Manual)\<rparr>))"

definition get_conflicts :: "conflict_detector \<Rightarrow> conflict list" where
  "get_conflicts d = map snd (detected_conflicts d)"

definition get_unresolved_conflicts :: "conflict_detector \<Rightarrow> conflict list" where
  "get_unresolved_conflicts d = filter (\<lambda>c. \<not> resolved c) (map snd (detected_conflicts d))"

definition mark_resolved :: "string \<Rightarrow> conflict_detector \<Rightarrow> conflict_detector" where
  "mark_resolved p d =
     d\<lparr>detected_conflicts := hm_modify p (\<lambda>c. c\<lparr>resolved := True\<rparr>) (detected_conflicts d)\<rparr>"

definition clear_resolved_conflicts :: "conflict_detector \<Rightarrow> conflict_detector" where
  "clear_resolved_conflicts d =
     d\<lparr>detected_conflicts := filter (\<lambda>(_, c). \<not> resolved c) (detected_conflicts d)\<rparr>"

text \<open>The single-strategy resolver ignores the kind of the conflict.\<close>

datatype basic_conflict = ModifiedBoth | DeletedVsModified | TypeMismatch
datatype basic_resolution = KeepOurs | TakeTheirs | KeepBoth | Merge | AskUser

record conflict_resolver =
  default_strategy :: basic_resolution

definition resolve :: "conflict_resolver \<Rightarrow> basic_conflict \<Rightarrow> basic_resolution" where
  "resolve r _ = default_strategy r"

section \<open>The detector as a machine\<close>

datatype detector_op =
    Detect manifest manifest "date_time option"
  | Mark string
  | Clear

fun detector_step ::
  "(string list \<Rightarrow> string list) \<Rightarrow> (string \<Rightarrow> date_time) \<Rightarrow> detector_op \<Rightarrow>
   conflict_detector \<Rightarrow> conflict_detector" where
  "detector_step itp now (Detect l r t) d = snd (detect_conflicts itp now l r t d)"
| "detector_step itp now (Mark p) d = mark_resolved p d"
| "detector_step itp now Clear d = clear_resolved_conflicts d"

text \<open>Every recorded conflict is filed under its own path and has two different versions or
  one version and a deletion.\<close>

definition sound_conflict :: "conflict \<Rightarrow> bool" where
  "sound_conflict c \<longleftrightarrow>
     (case conflict_type c of
        BothModified \<Rightarrow> (case (local_entry c, remote_entry c) of
            (Some l, Some r) \<Rightarrow> content_hash l \<noteq> content_hash r \<and>
              path l = file_path c \<and> path r = file_path c
          | _ \<Rightarrow> False)
      | DeletedModified \<Rightarrow> (local_entry c = None) \<noteq> (remote_entry c = None)
      | CreateCreate \<Rightarrow> False)"

definition detector_ok :: "conflict_detector \<Rightarrow> bool" where
  "detector_ok d \<longleftrightarrow> hm_wf (detected_conflicts d) \<and>
     list_all (\<lambda>(p, c). file_path c = p \<and> sound_conflict c) (detected_conflicts d)"

lemma check_entries_sound:
  assumes "check_file_conflict t p le re s = Some c"
    and "\<And>e. le = Some e \<Longrightarrow> path e = p" and "\<And>e. re = Some e \<Longrightarrow> path e = p"
  shows "file_path c = p \<and> sound_conflict c \<and> \<not> resolved c"
proof (cases le; cases re)
  fix l r assume "le = Some l" "re = Some r"
  moreover from this assms(1) have "c = fresh_conflict t p BothModified (Some l) (Some r)"
    and "content_hash l \<noteq> content_hash r"
    by (cases s; simp split: if_splits)+
  ultimately show ?thesis
    using assms(2,3) by (simp add: fresh_conflict_def sound_conflict_def)
qed (use assms(1) in \<open>auto simp add: fresh_conflict_def sound_conflict_def
    split: option.splits if_splits\<close>)

lemma check_sound:
  "check_file_conflict t p (hm_get (path_map l) p) (hm_get (path_map r) p) s = Some c \<Longrightarrow>
   file_path c = p \<and> sound_conflict c \<and> \<not> resolved c"
  by (rule check_entries_sound) (auto dest: path_map_key)

lemma sound_conflict_resolved [simp]: "sound_conflict (c\<lparr>resolved := b\<rparr>) = sound_conflict c"
  by (auto simp add: sound_conflict_def split: conflict_type.splits option.splits)

lemma detector_ok_detect_step:
  "detector_ok (snd acc) \<Longrightarrow> detector_ok (snd (detect_step now l r s p acc))"
  by (auto simp add: detect_step_def detector_ok_def hm.wf_put
      intro!: list_all_put dest!: check_sound split: option.splits)

interpretation detection: machine "detect_step now l r s" "\<lambda>acc. detector_ok (snd acc)" for now l r s
  by unfold_locales (rule detector_ok_detect_step)

lemma detector_ok_step: "detector_ok d \<Longrightarrow> detector_ok (detector_step itp now op d)"
proof (cases op)
  case (Detect l r t)
  assume "detector_ok d"
  then show ?thesis
    using detection.inv_fold [of "([], d)" now l r t "itp (all_paths l r)"]
    by (simp add: Detect detect_conflicts_def)
next
  case (Mark p)
  assume "detector_ok d"
  then show ?thesis
    by (auto simp add: Mark detector_ok_def mark_resolved_def intro!: list_all_modify)
next
  case Clear
  assume "detector_ok d"
  then show ?thesis
    by (auto simp add: Clear detector_ok_def clear_resolved_conflicts_def hm_wf_filter list_all_iff)
qed

interpretation detector: machine "detector_step itp now" detector_ok for itp now
  by unfold_locales (rule detector_ok_step)

lemma detector_ok_new: "detector_ok (new_detector cfg)"
  by (simp add: detector_ok_def new_detector_def hm.wf_empty)

section \<open>What a detection returns\<close>

lemma detect_fold_fst:
  "fst (fold (detect_step now l r s) ps acc) = fst acc @
     List.map_filter (\<lambda>p. check_file_conflict (now p) p (hm_get (path_map l) p)
       (hm_get (path_map r) p) s) ps"
  by (induction ps arbitrary: acc) (auto simp add: detect_step_def map_filter_simps split: option.splits)

lemma check_needs_path:
  "check_file_conflict t p (hm_get (path_map l) p) (hm_get (path_map r) p) s = Some c \<Longrightarrow>
   p \<in> set (all_paths l r)"
  using hm_has_iff [of "path_map l" p] hm_has_iff [of "path_map r" p]
  by (cases "hm_get (path_map l) p"; cases "hm_get (path_map r) p")
    (auto simp add: all_paths_def hm_has_def)

lemma detected_iff:
  assumes "iter_order itp"
  shows "c \<in> set (fst (detect_conflicts itp now l r s d)) \<longleftrightarrow>
    (\<exists>p. check_file_conflict (now p) p (hm_get (path_map l) p) (hm_get (path_map r) p) s = Some c)"
proof -
  let ?f = "\<lambda>p. check_file_conflict (now p) p (hm_get (path_map l) p) (hm_get (path_map r) p) s"
  have "fst (detect_conflicts itp now l r s d) = List.map_filter ?f (itp (all_paths l r))"
    by (simp add: detect_conflicts_def detect_fold_fst)
  then have "c \<in> set (fst (detect_conflicts itp now l r s d)) \<longleftrightarrow>
      (\<exists>p\<in>set (all_paths l r). ?f p = Some c)"
    by (simp add: set_map_filter_option iter_order_set [OF assms])
  also have "\<dots> \<longleftrightarrow> (\<exists>p. ?f p = Some c)"
    using check_needs_path by blast
  finally show ?thesis .
qed

text \<open>The same conflict seen from the other peer.\<close>

definition swapped :: "conflict \<Rightarrow> conflict" where
  "swapped c = c\<lparr>local_entry := remote_entry c, remote_entry := local_entry c\<rparr>"

lemma check_swapped:
  "check_file_conflict t p r l s = map_option swapped (check_file_conflict t p l r s)"
  by (cases l; cases r) (auto simp add: swapped_def fresh_conflict_def split: option.splits)

text \<open>The version a resolution keeps (\<open>None\<close> is the deletion).\<close>

definition kept :: "conflict_resolution \<Rightarrow> conflict \<Rightarrow> manifest_entry option" where
  "kept r c = (if r = KeepLocal then local_entry c else remote_entry c)"

section \<open>Properties\<close>

text \<open>Two peers that compare the same manifests from their two sides detect the same
  conflicts, in whatever order they visit the paths: each conflict one of them returns is
  returned by the other with local and remote exchanged.\<close>

theorem conflicts_symmetric:
  assumes "iter_order itp" and "iter_order itq"
  shows "set (fst (detect_conflicts itq now remote local last_sync e)) =
    swapped ` set (fst (detect_conflicts itp now local remote last_sync d))"
proof (rule set_eqI)
  fix c
  have "c \<in> set (fst (detect_conflicts itq now remote local last_sync e)) \<longleftrightarrow>
      (\<exists>p b. check_file_conflict (now p) p (hm_get (path_map local) p)
        (hm_get (path_map remote) p) last_sync = Some b \<and> c = swapped b)"
    unfolding detected_iff [OF assms(2)]
    by (subst check_swapped) auto
  then show "c \<in> set (fst (detect_conflicts itq now remote local last_sync e)) \<longleftrightarrow>
      c \<in> swapped ` set (fst (detect_conflicts itp now local remote last_sync d))"
    unfolding image_iff Bex_def detected_iff [OF assms(1)] by blast
qed

theorem conflicts_symmetric_witness:
  "set (fst (detect_conflicts rev (\<lambda>_. 5) (sample_manifest [sample_entry ''a'' ''2''])
      (sample_manifest [sample_entry ''a'' ''1'']) None (new_detector default_conflict_config))) =
   swapped ` set (fst (detect_conflicts id (\<lambda>_. 5) (sample_manifest [sample_entry ''a'' ''1''])
      (sample_manifest [sample_entry ''a'' ''2'']) None (new_detector default_conflict_config)))"
  by (rule conflicts_symmetric) (simp_all add: iter_order_def)

text \<open>Every detector the operations can reach files each conflict under its path, and each
  is genuine: two versions of that path with different content, or a version against a
  deletion.  \<open>CreateCreate\<close> is never detected.\<close>

theorem detector_reachable_sound:
  "detector_ok (fold (detector_step itp now) ops (new_detector cfg))"
  by (intro detector.inv_fold detector_ok_new)



end
