(* ===== verification/Quic_Errors.thy ===== *)
theory Quic_Errors
  imports Prelude
begin

text \<open>
  The error type of the QUIC layer (\<open>landro-quic/src/errors.rs\<close>).  The errors wrapped from
  other crates carry the text their \<open>Display\<close> prints.
\<close>

datatype quic_error =
    IoErr string
  | ConnectionErr string
  | ConnectErr string
  | TlsConfigErr string
  | StreamErr string
  | ProtocolErr string
  | TimeoutErr
  | HandshakeTimeout u64
  | HandshakeFailed string
  | VersionMismatch string
  | AuthFailed string
  | ServerAlreadyRunning
  | CryptoErr string
  | PairingErr string

fun is_recoverable :: "quic_error \<Rightarrow> bool" where
  "is_recoverable TimeoutErr = True"
| "is_recoverable (HandshakeTimeout _) = True"
| "is_recoverable (IoErr _) = True"
| "is_recoverable (ConnectErr _) = True"
| "is_recoverable (ConnectionErr _) = False"
| "is_recoverable (VersionMismatch _) = False"
| "is_recoverable (AuthFailed _) = False"
| "is_recoverable (HandshakeFailed _) = False"
| "is_recoverable _ = False"

text \<open>\<open>Clone\<close>: the wrapped errors cannot be cloned and become protocol errors.\<close>

fun clone_error :: "quic_error \<Rightarrow> quic_error" where
  "clone_error (IoErr e) = ProtocolErr (''IO error: '' @ e)"
| "clone_error (ConnectionErr e) = ProtocolErr (''Connection error: '' @ e)"
| "clone_error (ConnectErr e) = ProtocolErr (''Connect error: '' @ e)"
| "clone_error (TlsConfigErr s) = TlsConfigErr s"
| "clone_error (StreamErr s) = StreamErr s"
| "clone_error (ProtocolErr s) = ProtocolErr s"
| "clone_error TimeoutErr = TimeoutErr"
| "clone_error (HandshakeTimeout t) = HandshakeTimeout t"
| "clone_error (HandshakeFailed r) = HandshakeFailed r"
| "clone_error (VersionMismatch d) = VersionMismatch d"
| "clone_error (AuthFailed r) = AuthFailed r"
| "clone_error ServerAlreadyRunning = ServerAlreadyRunning"
| "clone_error (CryptoErr e) = ProtocolErr (''Crypto error: '' @ e)"
| "clone_error (PairingErr s) = PairingErr s"

text \<open>A clone is never more recoverable than the error, and is less for I/O and connect errors.\<close>

lemma clone_recoverable:
  "is_recoverable (clone_error e) \<longleftrightarrow> is_recoverable e \<and> (\<forall>s. e \<noteq> IoErr s \<and> e \<noteq> ConnectErr s)"
  by (cases e) auto

lemma clone_idem [simp]: "clone_error (clone_error e) = clone_error e"
  by (cases e) auto

end
