(* ===== verification/Circuit.thy ===== *)
theory Circuit
  imports Quic_Errors Containers Machines
begin

text \<open>
  Connection recovery (\<open>landro-quic/src/recovery.rs\<close>): the circuit breaker of a peer, the
  retry loops of the recovery client, which share the breakers, and the health table of
  the connections.

  An \<open>Instant\<close> and a \<open>Duration\<close> are nanoseconds.  The delays between attempts are computed
  in floating point with a random jitter and only sleep, so the loops take the instants of
  the attempts as the parameter \<open>clock\<close>, and the outcome of each attempt as \<open>attempt\<close>.
\<close>

section \<open>The circuit breaker\<close>

datatype circuit_state = Closed | Open | HalfOpen

record circuit_breaker =
  state :: circuit_state
  failure_count :: nat
  success_count :: nat
  last_failure :: "nat option"
  failure_threshold :: nat
  success_threshold :: nat
  timeout :: nat

definition new_breaker :: "nat \<Rightarrow> nat \<Rightarrow> nat \<Rightarrow> circuit_breaker" where
  "new_breaker ft st t = \<lparr>state = Closed, failure_count = 0, success_count = 0,
     last_failure = None, failure_threshold = ft, success_threshold = st, timeout = t\<rparr>"

definition allow_request :: "nat \<Rightarrow> circuit_breaker \<Rightarrow> bool \<times> circuit_breaker" where
  "allow_request now b =
     (case state b of
        Closed \<Rightarrow> (True, b)
      | Open \<Rightarrow>
          (case last_failure b of
             Some t \<Rightarrow>
               if now - t > timeout b
               then (True, b\<lparr>state := HalfOpen, success_count := 0\<rparr>)
               else (False, b)
           | None \<Rightarrow> (True, b))
      | HalfOpen \<Rightarrow> (True, b))"

definition close_breaker :: "circuit_breaker \<Rightarrow> circuit_breaker" where
  "close_breaker b = b\<lparr>state := Closed, failure_count := 0, success_count := 0,
     last_failure := None\<rparr>"

definition record_success :: "circuit_breaker \<Rightarrow> circuit_breaker" where
  "record_success b =
     (case state b of
        Closed \<Rightarrow> b\<lparr>failure_count := 0\<rparr>
      | HalfOpen \<Rightarrow>
          let b1 = b\<lparr>success_count := success_count b + 1\<rparr> in
          if success_count b1 \<ge> success_threshold b1 then close_breaker b1 else b1
      | Open \<Rightarrow> close_breaker b)"

definition record_failure :: "nat \<Rightarrow> circuit_breaker \<Rightarrow> circuit_breaker" where
  "record_failure now b0 =
     (let b = b0\<lparr>last_failure := Some now\<rparr> in
      case state b of
        Closed \<Rightarrow>
          let b1 = b\<lparr>failure_count := failure_count b + 1\<rparr> in
          if failure_count b1 \<ge> failure_threshold b1 then b1\<lparr>state := Open\<rparr> else b1
      | HalfOpen \<Rightarrow> b\<lparr>state := Open, success_count := 0\<rparr>
      | Open \<Rightarrow> b)"

section \<open>The breaker as a machine\<close>

datatype breaker_event = Allow nat | Success | Failure nat

fun breaker_step :: "breaker_event \<Rightarrow> circuit_breaker \<Rightarrow> circuit_breaker" where
  "breaker_step (Allow now) b = snd (allow_request now b)"
| "breaker_step Success b = record_success b"
| "breaker_step (Failure now) b = record_failure now b"

text \<open>The thresholds never change; a closed breaker has counted fewer failures than its
  threshold, a half-open one fewer successes than its threshold, and an open one knows when
  the last failure was.\<close>

definition breaker_ok :: "circuit_breaker \<Rightarrow> bool" where
  "breaker_ok b \<longleftrightarrow> 0 < failure_threshold b \<and> 0 < success_threshold b \<and>
     (case state b of
        Closed \<Rightarrow> failure_count b < failure_threshold b \<and> success_count b = 0
      | HalfOpen \<Rightarrow> success_count b < success_threshold b \<and> last_failure b \<noteq> None
      | Open \<Rightarrow> last_failure b \<noteq> None \<and> success_count b < success_threshold b)"

lemma breaker_ok_step: "breaker_ok b \<Longrightarrow> breaker_ok (breaker_step e b)"
  by (cases e; cases "state b")
    (auto simp add: breaker_ok_def allow_request_def record_success_def record_failure_def
      close_breaker_def Let_def)

interpretation breaker: machine breaker_step breaker_ok
  by unfold_locales (rule breaker_ok_step)

lemma breaker_ok_new: "0 < ft \<Longrightarrow> 0 < st \<Longrightarrow> breaker_ok (new_breaker ft st t)"
  by (simp add: breaker_ok_def new_breaker_def)

lemma breaker_config_step:
  "failure_threshold (breaker_step e b) = failure_threshold b \<and>
   success_threshold (breaker_step e b) = success_threshold b \<and> timeout (breaker_step e b) = timeout b"
  by (cases e; cases "state b")
    (auto simp add: allow_request_def record_success_def record_failure_def close_breaker_def
      Let_def split: option.splits)

lemma breaker_config_run:
  "failure_threshold (fold breaker_step es b) = failure_threshold b \<and>
   success_threshold (fold breaker_step es b) = success_threshold b \<and>
   timeout (fold breaker_step es b) = timeout b"
  by (induction es arbitrary: b) (auto simp add: breaker_config_step)

section \<open>The recovery client\<close>

record retry_policy =
  max_attempts :: nat

type_synonym breakers = "(string, circuit_breaker) hmap"

definition thirty_seconds :: nat where
  "thirty_seconds = 30 * 10 ^ 9"

text \<open>The gate of \<open>connect_with_recovery\<close>: the peer's breaker is created on first use.\<close>

definition check_breaker :: "nat \<Rightarrow> string \<Rightarrow> breakers \<Rightarrow> bool \<times> breakers" where
  "check_breaker now addr bs =
     (let bs1 = hm_or_insert addr (new_breaker 3 2 thirty_seconds) bs in
      case hm_get bs1 addr of
        None \<Rightarrow> (True, bs1)
      | Some b \<Rightarrow> (fst (allow_request now b), hm_modify addr (\<lambda>b. snd (allow_request now b)) bs1))"

text \<open>The attempts that are left, starting with attempt \<open>i\<close>; \<open>n\<close> of them.  Both
  \<open>connect_with_recovery\<close> and \<open>with_retry\<close> run this loop.\<close>

fun retry_loop ::
  "(nat \<Rightarrow> quic_error + 'c) \<Rightarrow> (nat \<Rightarrow> nat) \<Rightarrow> string \<Rightarrow> nat \<Rightarrow> nat \<Rightarrow> quic_error option \<Rightarrow>
   breakers \<Rightarrow> (quic_error option + 'c) \<times> breakers" where
  "retry_loop attempt clock addr 0 i last_error bs = (Inl last_error, bs)"
| "retry_loop attempt clock addr (Suc n) i last_error bs =
     (case attempt i of
        Inr c \<Rightarrow> (Inr c, hm_modify addr record_success bs)
      | Inl e \<Rightarrow>
          let bs1 = hm_modify addr (record_failure (clock i)) bs in
          if is_recoverable e
          then retry_loop attempt clock addr n (Suc i) (Some (clone_error e)) bs1
          else (Inl (Some (clone_error e)), bs1))"

definition all_failed :: "string \<Rightarrow> nat \<Rightarrow> quic_error" where
  "all_failed what n = ProtocolErr (''All '' @ show_nat n @ '' '' @ what @ '' attempts failed'')"

definition or_all_failed :: "quic_error \<Rightarrow> (quic_error option + 'c) \<times> breakers \<Rightarrow> (quic_error + 'c) \<times> breakers" where
  "or_all_failed d r = (map_err (\<lambda>le. case le of Some e \<Rightarrow> e | None \<Rightarrow> d) (fst r), snd r)"

definition with_retry ::
  "retry_policy \<Rightarrow> (nat \<Rightarrow> quic_error + 'c) \<Rightarrow> (nat \<Rightarrow> nat) \<Rightarrow> string \<Rightarrow> breakers \<Rightarrow>
   (quic_error + 'c) \<times> breakers" where
  "with_retry p operation clock addr bs =
     or_all_failed (all_failed ''operation'' (max_attempts p))
       (retry_loop operation clock addr (max_attempts p) 0 None bs)"

definition connect_with_recovery ::
  "retry_policy \<Rightarrow> (nat \<Rightarrow> quic_error + 'c) \<Rightarrow> nat \<Rightarrow> (nat \<Rightarrow> nat) \<Rightarrow> string \<Rightarrow> breakers \<Rightarrow>
   (quic_error + 'c) \<times> breakers" where
  "connect_with_recovery p connect_addr now clock addr bs =
     (let (ok, bs1) = check_breaker now addr bs in
      if \<not> ok then
        (Inl (ProtocolErr (''Circuit breaker open for peer '' @ addr @ '', rejecting request'')), bs1)
      else or_all_failed (all_failed ''connection'' (max_attempts p))
        (retry_loop connect_addr clock addr (max_attempts p) 0 None bs1))"

definition get_circuit_states :: "breakers \<Rightarrow> (string, circuit_state) hmap" where
  "get_circuit_states bs = map (\<lambda>(a, b). (a, state b)) bs"

definition reset_circuit_breaker :: "string \<Rightarrow> breakers \<Rightarrow> breakers" where
  "reset_circuit_breaker addr bs = hm_del addr bs"

section \<open>The health table\<close>

record 'c connection_health =
  connection :: 'c
  last_ping :: "nat option"
  ping_failures :: nat
  avg_rtt :: "nat option"

type_synonym 'c health_table = "(string, 'c connection_health) hmap"

definition monitor_connection :: "string \<Rightarrow> 'c \<Rightarrow> 'c health_table \<Rightarrow> 'c health_table" where
  "monitor_connection i c m =
     hm_put i \<lparr>connection = c, last_ping = None, ping_failures = 0, avg_rtt = None\<rparr> m"

definition unmonitor_connection :: "string \<Rightarrow> 'c health_table \<Rightarrow> 'c health_table" where
  "unmonitor_connection i m = hm_del i m"

text \<open>What a ping meets: a closed connection, a stream opened after \<open>rtt\<close> at \<open>now\<close>, or an
  error.\<close>

datatype ping_outcome = PingClosed | PingOk nat nat | PingErr quic_error

definition ping_connection ::
  "('c \<Rightarrow> ping_outcome) \<Rightarrow> string \<Rightarrow> 'c health_table \<Rightarrow> (quic_error + unit) \<times> 'c health_table" where
  "ping_connection ping i m =
     (case hm_get m i of
        None \<Rightarrow> (Inr (), m)
      | Some h \<Rightarrow>
          (case ping (connection h) of
             PingClosed \<Rightarrow> (Inr (), hm_del i m)
           | PingOk rtt now \<Rightarrow>
               (Inr (), hm_modify i (\<lambda>h. h\<lparr>last_ping := Some now, ping_failures := 0,
                  avg_rtt := Some (case avg_rtt h of
                     Some existing \<Rightarrow> (existing + rtt) div 2 | None \<Rightarrow> rtt)\<rparr>) m)
           | PingErr e \<Rightarrow>
               let m1 = hm_modify i (\<lambda>h. h\<lparr>ping_failures := ping_failures h + 1\<rparr>) m in
               (Inl e, if ping_failures h + 1 \<ge> 3 then hm_del i m1 else m1)))"

definition check_all_connections ::
  "(string list \<Rightarrow> string list) \<Rightarrow> ('c \<Rightarrow> ping_outcome) \<Rightarrow> 'c health_table \<Rightarrow> 'c health_table" where
  "check_all_connections itk ping m =
     fold (\<lambda>i m. snd (ping_connection ping i m)) (itk (map fst m)) m"

definition get_health_stats :: "'c health_table \<Rightarrow> (string, nat \<times> nat option) hmap" where
  "get_health_stats m = map (\<lambda>(i, h). (i, (ping_failures h, avg_rtt h))) m"

section \<open>Counting failures\<close>

definition failures :: "breaker_event list \<Rightarrow> nat" where
  "failures es = length (filter (\<lambda>e. case e of Failure _ \<Rightarrow> True | _ \<Rightarrow> False) es)"

lemma closed_step:
  assumes "state b = Closed" and "e \<noteq> Success" and "failure_count b + failures [e] < failure_threshold b"
  shows "state (breaker_step e b) = Closed \<and>
    failure_count (breaker_step e b) = failure_count b + failures [e]"
  using assms by (cases e) (auto simp add: allow_request_def record_failure_def failures_def Let_def)

lemma closed_run:
  "state b = Closed \<Longrightarrow> Success \<notin> set es \<Longrightarrow> failure_count b + failures es < failure_threshold b \<Longrightarrow>
   state (fold breaker_step es b) = Closed \<and>
   failure_count (fold breaker_step es b) = failure_count b + failures es"
proof (induction es arbitrary: b)
  case Nil
  then show ?case by (simp add: failures_def)
next
  case (Cons e es)
  have "failures (e # es) = failures [e] + failures es" by (simp add: failures_def)
  moreover have "e \<noteq> Success" using Cons.prems(2) by auto
  ultimately show ?case
    using Cons.prems closed_step [of b e] Cons.IH [of "breaker_step e b"]
    by (simp add: breaker_config_step)
qed

lemma half_open_successes:
  "state b = HalfOpen \<Longrightarrow> success_count b + n < success_threshold b \<Longrightarrow>
   state (fold breaker_step (replicate n Success) b) = HalfOpen \<and>
   success_count (fold breaker_step (replicate n Success) b) = success_count b + n"
  by (induction n arbitrary: b) (auto simp add: record_success_def Let_def)

section \<open>The retry loop\<close>

definition final :: "quic_error + 'c \<Rightarrow> bool" where
  "final r = (case r of Inl e \<Rightarrow> \<not> is_recoverable e | Inr _ \<Rightarrow> True)"

lemma retry_loop_result:
  "map_err (\<lambda>le. case le of Some e \<Rightarrow> e | None \<Rightarrow> d) (fst (retry_loop op clock addr n i le bs)) =
    (case find (\<lambda>j. final (op j)) [i..<i + n] of
       Some j \<Rightarrow> map_err clone_error (op j)
     | None \<Rightarrow> if n = 0 then map_err (\<lambda>le. case le of Some e \<Rightarrow> e | None \<Rightarrow> d) (Inl le)
               else map_err clone_error (op (i + n - 1)))"
proof (induction n arbitrary: i le bs)
  case 0
  then show ?case by (simp add: map_err_def)
next
  case (Suc n)
  have r: "[i..<i + Suc n] = i # [Suc i..<Suc i + n]"
    by (simp add: upt_conv_Cons del: upt_Suc)
  show ?case
  proof (cases "final (op i)")
    case True
    then show ?thesis
      unfolding r by (cases "op i") (auto simp add: final_def map_err_def Let_def)
  next
    case False
    then obtain e where e: "op i = Inl e" "is_recoverable e" by (cases "op i") (auto simp add: final_def)
    then have step: "retry_loop op clock addr (Suc n) i le bs =
        retry_loop op clock addr n (Suc i) (Some (clone_error e))
          (hm_modify addr (record_failure (clock i)) bs)"
      by (simp add: Let_def)
    show ?thesis
      unfolding r step Suc.IH using False e(1)
      by (auto simp del: upt_Suc split: option.splits)
  qed
qed

section \<open>The health table as a machine\<close>

definition health_ok :: "'c health_table \<Rightarrow> bool" where
  "health_ok m \<longleftrightarrow> hm_wf m \<and> list_all (\<lambda>(_, h). ping_failures h < 3) m"

datatype 'c health_op = Watch string 'c | Unwatch string | Check "'c \<Rightarrow> ping_outcome"

fun health_step :: "(string list \<Rightarrow> string list) \<Rightarrow> 'c health_op \<Rightarrow> 'c health_table \<Rightarrow> 'c health_table"
where
  "health_step itk (Watch i c) m = monitor_connection i c m"
| "health_step itk (Unwatch i) m = unmonitor_connection i m"
| "health_step itk (Check ping) m = check_all_connections itk ping m"

lemma hm_del_modify: "hm_del k (hm_modify k f m) = hm_del k m"
  by (induction m) (auto simp add: hm_del_def hm_modify_def AList.delete_eq)

lemma list_all_hm_del: "list_all P m \<Longrightarrow> list_all P (hm_del k m)"
  by (auto simp add: list_all_iff hm_del_def AList.delete_eq)

lemma health_ok_ping: "health_ok m \<Longrightarrow> health_ok (snd (ping_connection ping i m))"
proof (cases "hm_get m i")
  case (Some h)
  assume m: "health_ok m"
  show ?thesis
  proof (cases "ping (connection h)")
    case (PingErr e)
    have "list_all (\<lambda>(_, h). ping_failures h < 3)
        (hm_modify i (\<lambda>h. h\<lparr>ping_failures := ping_failures h + 1\<rparr>) m)"
      if "ping_failures h + 1 < 3"
      using m Some that by (intro list_all_modify_at [of m i h]) (auto simp add: health_ok_def)
    with PingErr Some m show ?thesis
      by (auto simp add: ping_connection_def health_ok_def Let_def hm_del_modify hm.wf_del list_all_hm_del)
  qed (use m Some in \<open>auto simp add: ping_connection_def health_ok_def hm.wf_del list_all_hm_del
      intro: list_all_modify\<close>)
qed (simp add: ping_connection_def)

interpretation pings: machine "\<lambda>i m. snd (ping_connection ping i m)" health_ok for ping
  by unfold_locales (rule health_ok_ping)

lemma health_ok_step: "health_ok m \<Longrightarrow> health_ok (health_step itk op m)"
proof (cases op)
  case (Check ping)
  then show "health_ok m \<Longrightarrow> ?thesis"
    by (simp add: check_all_connections_def pings.inv_fold)
qed (auto simp add: health_ok_def monitor_connection_def unmonitor_connection_def hm.wf_put
    hm.wf_del list_all_hm_del intro: list_all_put)

interpretation health: machine "health_step itk" health_ok for itk
  by unfold_locales (rule health_ok_step)

section \<open>Properties\<close>

text \<open>An open circuit breaker, however it got there, knows its last failure and lets a
  request through exactly when more than the timeout has passed since; a rejected request
  changes nothing and the first one let through makes it half-open.\<close>

theorem open_breaker_blocks:
  assumes "0 < ft" and "0 < st"
    and b: "b = fold breaker_step es (new_breaker ft st t)" and "state b = Open"
  shows "\<exists>f. last_failure b = Some f \<and>
    (\<forall>now. fst (allow_request now b) = (now - f > t)) \<and>
    (\<forall>now. snd (allow_request now b) =
       (if now - f > t then b\<lparr>state := HalfOpen, success_count := 0\<rparr> else b))"
proof -
  have "breaker_ok b" unfolding b
    by (intro breaker.inv_fold breaker_ok_new assms(1,2))
  then obtain f where "last_failure b = Some f"
    using assms(4) by (auto simp add: breaker_ok_def)
  moreover have "timeout b = t"
    using breaker_config_run [of es "new_breaker ft st t"] by (simp add: b new_breaker_def)
  ultimately show ?thesis using assms(4) by (simp add: allow_request_def)
qed

theorem open_breaker_blocks_witness:
  "\<exists>f. last_failure (fold breaker_step [Failure 5, Failure 7] (new_breaker 2 1 10)) = Some f \<and>
    (\<forall>now. fst (allow_request now (fold breaker_step [Failure 5, Failure 7] (new_breaker 2 1 10))) =
      (now - f > 10))"
  using open_breaker_blocks [of 2 1 _ "[Failure 5, Failure 7]" 10, OF _ _ refl]
  by (simp add: new_breaker_def record_failure_def Let_def)

text \<open>Without a success in between a new breaker stays closed, whatever requests come in,
  until exactly \<open>failure_threshold\<close> failures were recorded, and the last of them opens it.\<close>

theorem breaker_opens_at_threshold:
  assumes "Success \<notin> set es"
  shows "(failures es < ft \<longrightarrow> state (fold breaker_step es (new_breaker ft st t)) = Closed) \<and>
    (failures es + 1 = ft \<longrightarrow>
      state (breaker_step (Failure now) (fold breaker_step es (new_breaker ft st t))) = Open)"
proof -
  let ?b = "fold breaker_step es (new_breaker ft st t)"
  have closed: "state ?b = Closed \<and> failure_count ?b = failures es" if "failures es < ft"
    using closed_run [of "new_breaker ft st t" es] assms that by (simp add: new_breaker_def)
  moreover have "failure_threshold ?b = ft"
    using breaker_config_run [of es "new_breaker ft st t"] by (simp add: new_breaker_def)
  ultimately show ?thesis by (auto simp add: record_failure_def Let_def)
qed

theorem breaker_opens_at_threshold_witness:
  "state (breaker_step (Failure 9) (fold breaker_step [Failure 1, Allow 2, Failure 3] (new_breaker 3 2 10))) = Open"
  using breaker_opens_at_threshold [of "[Failure 1, Allow 2, Failure 3]" 3 2 10 9]
  by (simp add: failures_def)

text \<open>A half-open breaker closes at exactly its \<open>success_threshold\<close>-th consecutive success,
  forgetting the failures, and one failure opens it again.\<close>

theorem half_open_recovers:
  assumes "0 < ft" and "0 < st"
    and b: "b = fold breaker_step es (new_breaker ft st t)" and "state b = HalfOpen"
  shows "(\<forall>n. success_count b + n < st \<longrightarrow>
      state (fold breaker_step (replicate n Success) b) = HalfOpen) \<and>
    breaker_step Success (fold breaker_step (replicate (st - 1 - success_count b) Success) b) =
      (fold breaker_step (replicate (st - 1 - success_count b) Success) b)
        \<lparr>state := Closed, failure_count := 0, success_count := 0, last_failure := None\<rparr> \<and>
    state (breaker_step (Failure now) b) = Open"
proof -
  have "breaker_ok b" unfolding b
    by (intro breaker.inv_fold breaker_ok_new assms(1,2))
  then have lt: "success_count b < success_threshold b"
    using assms(4) by (simp add: breaker_ok_def)
  have st: "success_threshold b = st"
    using breaker_config_run [of es "new_breaker ft st t"] by (simp add: b new_breaker_def)
  let ?c = "fold breaker_step (replicate (st - 1 - success_count b) Success) b"
  have "state ?c = HalfOpen \<and> success_count ?c = st - 1 \<and> success_threshold ?c = st"
    using half_open_successes [OF assms(4), of "st - 1 - success_count b"] lt st
      breaker_config_run [of "replicate (st - 1 - success_count b) Success" b] by auto
  then have "breaker_step Success ?c = close_breaker ?c"
    using assms(2) by (simp add: record_success_def Let_def close_breaker_def)
  moreover have "state (breaker_step (Failure now) b) = Open"
    using assms(4) by (simp add: record_failure_def Let_def)
  ultimately show ?thesis
    using half_open_successes [OF assms(4)] st by (auto simp add: close_breaker_def)
qed

theorem half_open_recovers_witness:
  "state (fold breaker_step [Failure 1, Allow 20, Success] (new_breaker 1 2 5)) = HalfOpen \<and>
   state (breaker_step (Failure 30) (fold breaker_step [Failure 1, Allow 20, Success] (new_breaker 1 2 5))) = Open"
proof -
  have h: "state (fold breaker_step [Failure 1, Allow 20, Success] (new_breaker 1 2 5)) = HalfOpen"
    by (simp add: new_breaker_def record_failure_def allow_request_def record_success_def Let_def)
  with half_open_recovers [of 1 2 _ "[Failure 1, Allow 20, Success]" 5 30, OF _ _ refl h]
  show ?thesis by simp
qed

text \<open>The retry loop makes at most \<open>max_attempts\<close> attempts and returns what the first
  attempt that succeeds or fails for good returns, and otherwise the last error; errors are
  returned as their clones.\<close>

theorem with_retry_result:
  "fst (with_retry p operation clock addr bs) =
    (case find (\<lambda>i. final (operation i)) [0..<max_attempts p] of
       Some i \<Rightarrow> map_err clone_error (operation i)
     | None \<Rightarrow> if max_attempts p = 0 then Inl (all_failed ''operation'' 0)
               else map_err clone_error (operation (max_attempts p - 1)))"
  using retry_loop_result [of "all_failed ''operation'' (max_attempts p)" operation clock addr
      "max_attempts p" 0 None bs]
  by (auto simp add: with_retry_def or_all_failed_def split: option.splits)

text \<open>A success during the retries of one call closes a breaker that the same call opened,
  without the timeout or the half-open trial: the gate is only consulted before the first
  attempt.\<close>

theorem retry_bypasses_open_breaker:
  "let attempt = (\<lambda>i :: nat. if i < 3 then Inl TimeoutErr else Inr ''conn'');
       opened = snd (connect_with_recovery \<lparr>max_attempts = 3\<rparr> attempt 0 id ''peer'' []);
       (r, bs) = connect_with_recovery \<lparr>max_attempts = 5\<rparr> attempt 0 id ''peer'' [] in
   get_circuit_states opened = [(''peer'', Open)] \<and>
   r = Inr ''conn'' \<and> get_circuit_states bs = [(''peer'', Closed)]"
  by (simp add: connect_with_recovery_def check_breaker_def hm_or_insert_def hm_get_def hm_put_def
      hm_modify_def new_breaker_def allow_request_def or_all_failed_def numeral_eq_Suc
      record_failure_def record_success_def close_breaker_def get_circuit_states_def Let_def map_err_def)

text \<open>In every health table the operations can reach, a connection has fewer than three
  ping failures in a row (the third removes it) and is listed once.\<close>

theorem health_table_reachable:
  "health_ok (fold (health_step itk) ops [])"
  by (intro health.inv_fold) (simp add: health_ok_def hm.wf_empty)

end
