(* ===== verification/Framing.thy ===== *)
theory Framing
  imports Validation Codec Quic_Errors Containers Machines
begin

text \<open>
  The stream protocol (\<open>landro-quic/src/protocol.rs\<close>): one message per unidirectional
  stream, framed as a type byte, a big-endian length and the protobuf encoding; the typed
  senders and receivers with their validation, the multiplexed receiver, and the batch
  transfer of chunks with its cache.

  The stream is the list of its bytes.  The protobuf codec of \<open>prost\<close> is a parameter (a
  decoding error carries its text), and so is \<open>short\<close>, the text of the error of reading
  past the end of a stream.  The \<open>Display\<close> of a validation error follows its attributes in
  \<open>landro-proto/src/validation.rs\<close>.
\<close>

section \<open>Message types\<close>

datatype message_type =
    THello | TFolderSummary | TManifest | TWant | TChunkData | TAck | TError
  | TDiffRequest | TDiffResponse

fun type_code :: "message_type \<Rightarrow> u8" where
  "type_code THello = 0"
| "type_code TFolderSummary = 1"
| "type_code TManifest = 2"
| "type_code TWant = 3"
| "type_code TChunkData = 4"
| "type_code TAck = 5"
| "type_code TError = 6"
| "type_code TDiffRequest = 7"
| "type_code TDiffResponse = 8"

definition from_u8 :: "u8 \<Rightarrow> message_type option" where
  "from_u8 v =
     (if v = 0 then Some THello
      else if v = 1 then Some TFolderSummary
      else if v = 2 then Some TManifest
      else if v = 3 then Some TWant
      else if v = 4 then Some TChunkData
      else if v = 5 then Some TAck
      else if v = 6 then Some TError
      else if v = 7 then Some TDiffRequest
      else if v = 8 then Some TDiffResponse
      else None)"

fun show_type :: "message_type \<Rightarrow> string" where
  "show_type THello = ''Hello''"
| "show_type TFolderSummary = ''FolderSummary''"
| "show_type TManifest = ''Manifest''"
| "show_type TWant = ''Want''"
| "show_type TChunkData = ''ChunkData''"
| "show_type TAck = ''Ack''"
| "show_type TError = ''Error''"
| "show_type TDiffRequest = ''DiffRequest''"
| "show_type TDiffResponse = ''DiffResponse''"

lemma from_u8_type_code [simp, codec_simps]: "from_u8 (type_code t) = Some t"
  by (cases t) (simp_all add: from_u8_def)

section \<open>Texts of validation errors\<close>

fun show_validation :: "validation_error \<Rightarrow> string" where
  "show_validation (MessageTooLarge s m) =
     ''Message size '' @ show_nat s @ '' exceeds maximum '' @ show_nat m"
| "show_validation (InvalidChunkSize s l m) =
     ''Chunk size '' @ show_nat s @ '' is invalid (min: '' @ show_nat l @ '', max: '' @ show_nat m @ '')''"
| "show_validation (PathTooLong l m) =
     ''Path length '' @ show_nat l @ '' exceeds maximum '' @ show_nat m"
| "show_validation (DeviceNameTooLong l m) =
     ''Device name length '' @ show_nat l @ '' exceeds maximum '' @ show_nat m"
| "show_validation (ManifestTooLarge c m) =
     ''Manifest has '' @ show_nat c @ '' files, exceeds maximum '' @ show_nat m"
| "show_validation (TooManyChunks c m) =
     ''File has '' @ show_nat c @ '' chunks, exceeds maximum '' @ show_nat m"
| "show_validation (InvalidFolderIdLength l m) =
     ''Invalid folder ID length: '' @ show_nat l @ '' (max: '' @ show_nat m @ '')''"
| "show_validation (InvalidHash r) = ''Invalid hash format: '' @ r"
| "show_validation (MetadataTooLarge s m) =
     ''Metadata size '' @ show_nat s @ '' exceeds maximum '' @ show_nat m"
| "show_validation (InvalidPath r) = ''Invalid path: '' @ r"
| "show_validation (InvalidUtf8 f) = ''Invalid UTF-8 in '' @ f"
| "show_validation (MissingField f) = ''Missing required field: '' @ f"
| "show_validation (InvalidVersion v) = ''Invalid protocol version: '' @ v"
| "show_validation (TooManyCapabilities c m) =
     ''Too many capabilities: '' @ show_nat c @ '' (max: '' @ show_nat m @ '')''"

section \<open>Frames\<close>

record 'm codec =
  encode :: "'m \<Rightarrow> bytes"
  decode :: "bytes \<Rightarrow> string + 'm"

text \<open>What \<open>prost\<close> documents of a message: decoding its encoding gives it back.\<close>

definition codec_ok :: "'m codec \<Rightarrow> 'm \<Rightarrow> bool" where
  "codec_ok c m \<longleftrightarrow> decode c (encode c m) = Inr m"

definition send_message :: "'m codec \<Rightarrow> message_type \<Rightarrow> 'm \<Rightarrow> quic_error + bytes" where
  "send_message c t m =
     (let buf = encode c m in
      if length buf > MAX_MESSAGE_SIZE then
        Inl (ProtocolErr (''Message too large: '' @ show_nat (length buf) @ '' bytes (max: ''
          @ show_nat MAX_MESSAGE_SIZE @ '')''))
      else Inr ([type_code t] @ u32_be (word_of_nat (length buf)) @ buf))"

definition read_type :: "string \<Rightarrow> bytes \<Rightarrow> quic_error + (message_type \<times> bytes)" where
  "read_type short stream =
     (case read_exact 1 stream of
        None \<Rightarrow> Inl (StreamErr (''Failed to read message type: '' @ short))
      | Some (tb, rest) \<Rightarrow>
          (case from_u8 (hd tb) of
             None \<Rightarrow> Inl (ProtocolErr (''Unknown message type: '' @ show_nat (unat (hd tb))))
           | Some t \<Rightarrow> Inr (t, rest)))"

definition receive_typed_message :: "string \<Rightarrow> 'm codec \<Rightarrow> bytes \<Rightarrow> quic_error + 'm" where
  "receive_typed_message short c stream =
     (case read_exact 4 stream of
        None \<Rightarrow> Inl (StreamErr (''Failed to read message length: '' @ short))
      | Some (len_bytes, rest) \<Rightarrow>
          let len = unat (u32_of_be len_bytes) in
          and_then (map_err (\<lambda>e. ProtocolErr (''Invalid message size: '' @ show_validation e))
              (validate_message_size len)) (\<lambda>_.
            case read_exact len rest of
              None \<Rightarrow> Inl (StreamErr (''Failed to read message data: '' @ short))
            | Some (buf, _) \<Rightarrow>
                map_err (\<lambda>e. ProtocolErr (''Failed to decode message: '' @ e)) (decode c buf)))"

definition receive_message :: "string \<Rightarrow> 'm codec \<Rightarrow> message_type \<Rightarrow> bytes \<Rightarrow> quic_error + 'm" where
  "receive_message short c expected stream =
     and_then (read_type short stream) (\<lambda>(t, rest).
       if t \<noteq> expected then
         Inl (ProtocolErr (''Expected message type '' @ show_type expected @ '', got '' @ show_type t))
       else receive_typed_message short c rest)"

section \<open>The typed senders and receivers\<close>

record proto_error =
  pe_error_type :: int
  pe_message :: string
  pe_details :: string

record codecs =
  c_summary :: "folder_summary codec"
  c_manifest :: "proto_manifest codec"
  c_want :: "want codec"
  c_chunk :: "chunk_data codec"
  c_ack :: "ack codec"
  c_error :: "proto_error codec"

definition invalid :: "string \<Rightarrow> validation_error \<Rightarrow> quic_error" where
  "invalid what e = ProtocolErr (''Invalid '' @ what @ '': '' @ show_validation e)"

definition send_folder_summary ::
  "(nat \<Rightarrow> bool) \<Rightarrow> codecs \<Rightarrow> folder_summary \<Rightarrow> quic_error + bytes" where
  "send_folder_summary uni cs m =
     and_then (map_err (invalid ''folder summary'') (validate_folder_summary uni m)) (\<lambda>_.
       send_message (c_summary cs) TFolderSummary m)"

definition receive_folder_summary ::
  "(nat \<Rightarrow> bool) \<Rightarrow> string \<Rightarrow> codecs \<Rightarrow> bytes \<Rightarrow> quic_error + folder_summary" where
  "receive_folder_summary uni short cs stream =
     and_then (receive_message short (c_summary cs) TFolderSummary stream) (\<lambda>m.
     and_then (map_err (invalid ''received folder summary'') (validate_folder_summary uni m)) (\<lambda>_.
       Inr m))"

definition send_manifest :: "(nat \<Rightarrow> bool) \<Rightarrow> codecs \<Rightarrow> proto_manifest \<Rightarrow> quic_error + bytes" where
  "send_manifest uni cs m =
     and_then (map_err (invalid ''manifest'') (validate_manifest uni m)) (\<lambda>_.
       send_message (c_manifest cs) TManifest m)"

definition receive_manifest ::
  "(nat \<Rightarrow> bool) \<Rightarrow> string \<Rightarrow> codecs \<Rightarrow> bytes \<Rightarrow> quic_error + proto_manifest" where
  "receive_manifest uni short cs stream =
     and_then (receive_message short (c_manifest cs) TManifest stream) (\<lambda>m.
     and_then (map_err (invalid ''received manifest'') (validate_manifest uni m)) (\<lambda>_. Inr m))"

definition send_want :: "(nat \<Rightarrow> bool) \<Rightarrow> codecs \<Rightarrow> want \<Rightarrow> quic_error + bytes" where
  "send_want uni cs m =
     and_then (map_err (invalid ''want request'') (validate_want uni m)) (\<lambda>_.
       send_message (c_want cs) TWant m)"

definition receive_want :: "(nat \<Rightarrow> bool) \<Rightarrow> string \<Rightarrow> codecs \<Rightarrow> bytes \<Rightarrow> quic_error + want" where
  "receive_want uni short cs stream =
     and_then (receive_message short (c_want cs) TWant stream) (\<lambda>m.
     and_then (map_err (invalid ''received want request'') (validate_want uni m)) (\<lambda>_. Inr m))"

definition send_chunk_data ::
  "(bytes \<Rightarrow> bytes) \<Rightarrow> codecs \<Rightarrow> chunk_data \<Rightarrow> quic_error + bytes" where
  "send_chunk_data blake3 cs m =
     and_then (map_err (invalid ''chunk data'') (validate_chunk_data blake3 m)) (\<lambda>_.
       send_message (c_chunk cs) TChunkData m)"

definition receive_chunk_data ::
  "(bytes \<Rightarrow> bytes) \<Rightarrow> string \<Rightarrow> codecs \<Rightarrow> bytes \<Rightarrow> quic_error + chunk_data" where
  "receive_chunk_data blake3 short cs stream =
     and_then (receive_message short (c_chunk cs) TChunkData stream) (\<lambda>m.
     and_then (map_err (invalid ''received chunk data'') (validate_chunk_data blake3 m)) (\<lambda>_.
       Inr m))"

definition send_ack :: "codecs \<Rightarrow> ack \<Rightarrow> quic_error + bytes" where
  "send_ack cs m = send_message (c_ack cs) TAck m"

definition receive_ack :: "string \<Rightarrow> codecs \<Rightarrow> bytes \<Rightarrow> quic_error + ack" where
  "receive_ack short cs stream = receive_message short (c_ack cs) TAck stream"

definition send_error :: "codecs \<Rightarrow> proto_error \<Rightarrow> quic_error + bytes" where
  "send_error cs m = send_message (c_error cs) TError m"

definition receive_error :: "string \<Rightarrow> codecs \<Rightarrow> bytes \<Rightarrow> quic_error + proto_error" where
  "receive_error short cs stream = receive_message short (c_error cs) TError stream"

datatype protocol_message =
    MFolderSummary folder_summary
  | MManifest proto_manifest
  | MWant want
  | MChunkData chunk_data
  | MAck ack
  | MError proto_error

definition map_ok :: "('a \<Rightarrow> 'b) \<Rightarrow> 'e + 'a \<Rightarrow> 'e + 'b" where
  "map_ok f r = and_then r (\<lambda>a. Inr (f a))"

fun receive_payload :: "string \<Rightarrow> codecs \<Rightarrow> message_type \<Rightarrow> bytes \<Rightarrow> quic_error + protocol_message"
where
  "receive_payload short cs THello r =
     Inl (ProtocolErr ''Hello messages should be handled separately'')"
| "receive_payload short cs TFolderSummary r =
     map_ok MFolderSummary (receive_typed_message short (c_summary cs) r)"
| "receive_payload short cs TManifest r =
     map_ok MManifest (receive_typed_message short (c_manifest cs) r)"
| "receive_payload short cs TWant r = map_ok MWant (receive_typed_message short (c_want cs) r)"
| "receive_payload short cs TChunkData r =
     map_ok MChunkData (receive_typed_message short (c_chunk cs) r)"
| "receive_payload short cs TAck r = map_ok MAck (receive_typed_message short (c_ack cs) r)"
| "receive_payload short cs TError r = map_ok MError (receive_typed_message short (c_error cs) r)"
| "receive_payload short cs TDiffRequest r = Inl (ProtocolErr ''DiffRequest not yet implemented'')"
| "receive_payload short cs TDiffResponse r = Inl (ProtocolErr ''DiffResponse not yet implemented'')"

definition receive_any_message :: "string \<Rightarrow> codecs \<Rightarrow> bytes \<Rightarrow> quic_error + protocol_message" where
  "receive_any_message short cs stream =
     and_then (read_type short stream) (\<lambda>(t, rest). receive_payload short cs t rest)"

section \<open>The batch transfer\<close>

type_synonym chunk_cache = "(bytes, chunk_data) hmap"

text \<open>The receive loop over the streams of the peer; an error ends it.\<close>

fun receive_batch ::
  "(bytes \<Rightarrow> bytes) \<Rightarrow> string \<Rightarrow> codecs \<Rightarrow> bytes list \<Rightarrow> nat \<Rightarrow> bytes list \<Rightarrow>
   chunk_data list \<times> chunk_cache \<Rightarrow> chunk_data list \<times> chunk_cache" where
  "receive_batch blake3 short cs wanted 0 streams acc = acc"
| "receive_batch blake3 short cs wanted (Suc n) [] acc = acc"
| "receive_batch blake3 short cs wanted (Suc n) (s # streams) (received, cache) =
     (case receive_chunk_data blake3 short cs s of
        Inl e \<Rightarrow> (received, cache)
      | Inr chunk \<Rightarrow>
          let hash = blake3 (cd_data chunk) in
          if hash \<in> set wanted
          then receive_batch blake3 short cs wanted n streams
                 (received @ [chunk], hm_put hash chunk cache)
          else receive_batch blake3 short cs wanted n streams (received, cache))"

text \<open>What is sent is the want request; \<open>streams\<close> are the streams the peer opens after it.\<close>

definition transfer_chunks ::
  "(nat \<Rightarrow> bool) \<Rightarrow> (bytes \<Rightarrow> bytes) \<Rightarrow> string \<Rightarrow> codecs \<Rightarrow> bytes list \<Rightarrow> bytes list \<Rightarrow> chunk_cache \<Rightarrow>
   (quic_error + chunk_data list) \<times> bytes list \<times> chunk_cache" where
  "transfer_chunks uni blake3 short cs wanted streams cache =
     (case send_want uni cs \<lparr>w_folder_id = ''default'', w_chunk_hashes = wanted, w_priority = 1\<rparr> of
        Inl e \<Rightarrow> (Inl e, [], cache)
      | Inr frame \<Rightarrow>
          let (received, cache1) =
            receive_batch blake3 short cs wanted (length wanted) streams ([], cache) in
          (Inr received, [frame], cache1))"

definition get_cached_chunk :: "chunk_cache \<Rightarrow> bytes \<Rightarrow> chunk_data option" where
  "get_cached_chunk cache hash = hm_get cache hash"

definition clear_cache :: "chunk_cache \<Rightarrow> chunk_cache" where
  "clear_cache _ = []"

section \<open>What is framed is read back\<close>

lemma read_type_frame [codec_simps]: "read_type short ([type_code t] @ r) = Inr (t, r)"
  by (simp add: read_type_def read_exact_def)

lemma receive_typed_frame:
  assumes "codec_ok c m" and "length (encode c m) \<le> MAX_MESSAGE_SIZE"
  shows "receive_typed_message short c
    (u32_be (word_of_nat (length (encode c m))) @ encode c m @ rest) = Inr m"
proof -
  have "unat (word_of_nat (length (encode c m)) :: u32) = length (encode c m)"
    using assms(2) by (intro unat_of_nat_u32) (simp add: limits)
  then show ?thesis
    using assms by (simp add: receive_typed_message_def read_exact_append Let_def
        validate_message_size_def codec_ok_def)
qed

lemma send_message_Inr:
  "send_message c t m = Inr s \<longleftrightarrow> length (encode c m) \<le> MAX_MESSAGE_SIZE \<and>
     s = [type_code t] @ u32_be (word_of_nat (length (encode c m))) @ encode c m"
  by (auto simp add: send_message_def Let_def)

lemma receive_sent:
  assumes "codec_ok c m" and "send_message c t m = Inr s"
  shows "receive_message short c t (s @ rest) = Inr m"
  using assms receive_typed_frame [of c m short rest] read_type_frame [of short t]
  by (auto simp add: receive_message_def send_message_Inr)

lemma receive_other_type:
  assumes "send_message c t m = Inr s" and "t' \<noteq> t"
  shows "\<exists>e. receive_message short c' t' (s @ rest) = Inl (ProtocolErr e)"
  using assms read_type_frame [of short t] by (auto simp add: receive_message_def send_message_Inr)

section \<open>The cache\<close>

definition cache_ok :: "(bytes \<Rightarrow> bytes) \<Rightarrow> chunk_cache \<Rightarrow> bool" where
  "cache_ok blake3 cache \<longleftrightarrow> hm_wf cache \<and>
     list_all (\<lambda>(h, c). blake3 (cd_data c) = h \<and> cd_hash c = h) cache"

lemma received_chunk_valid:
  "receive_chunk_data blake3 short cs s = Inr c \<Longrightarrow> validate_chunk_data blake3 c = Inr ()"
  by (auto simp add: receive_chunk_data_def result_simps)

lemma valid_chunk_hash: "validate_chunk_data blake3 c = Inr () \<Longrightarrow> blake3 (cd_data c) = cd_hash c"
  by (auto simp add: validate_chunk_data_def result_simps split: if_splits)

lemma receive_batch_sound:
  assumes "receive_batch blake3 short cs wanted n streams (received, cache) = (received', cache')"
    and "cache_ok blake3 cache" and "\<forall>c\<in>set received. cd_hash c \<in> set wanted \<and> validate_chunk_data blake3 c = Inr ()"
  shows "cache_ok blake3 cache' \<and> length received' \<le> length received + n \<and>
    (\<forall>c\<in>set received'. cd_hash c \<in> set wanted \<and> validate_chunk_data blake3 c = Inr ())"
  using assms
proof (induction n arbitrary: streams received cache)
  case 0
  then show ?case by simp
next
  case (Suc n)
  show ?case
  proof (cases streams)
    case Nil
    with Suc.prems show ?thesis by auto
  next
    case (Cons s ss)
    show ?thesis
    proof (cases "receive_chunk_data blake3 short cs s")
      case (Inl e)
      with Suc.prems Cons show ?thesis by auto
    next
      case (Inr c)
      note v = received_chunk_valid [OF Inr]
      note h = valid_chunk_hash [OF v]
      show ?thesis
      proof (cases "cd_hash c \<in> set wanted")
        case False
        with Suc.prems Suc.IH [of ss received cache] Cons Inr h show ?thesis
          by (force simp add: Let_def)
      next
        case True
        have "cache_ok blake3 (hm_put (cd_hash c) c cache)"
          using Suc.prems(2) h by (auto simp add: cache_ok_def hm.wf_put intro: list_all_put)
        moreover have "receive_batch blake3 short cs wanted n ss
            (received @ [c], hm_put (cd_hash c) c cache) = (received', cache')"
          using Suc.prems(1) Cons Inr h True by (simp add: Let_def)
        ultimately show ?thesis
          using Suc.IH [of ss "received @ [c]" "hm_put (cd_hash c) c cache"] Suc.prems(3) True v
          by auto
      qed
    qed
  qed
qed

text \<open>A codec that is right for one message of each type.\<close>

definition one_message :: "'m \<Rightarrow> 'm codec" where
  "one_message m = \<lparr>encode = (\<lambda>_. [1, 2, 3]), decode = (\<lambda>_. Inr m)\<rparr>"

definition sample_want :: "string \<Rightarrow> want" where
  "sample_want f = \<lparr>w_folder_id = f, w_chunk_hashes = [replicate 32 0], w_priority = 1\<rparr>"

definition sample_chunk :: "nat \<Rightarrow> chunk_data" where
  "sample_chunk n = \<lparr>cd_hash = replicate 32 0, cd_data = replicate n 0, cd_compressed = False,
     cd_uncompressed_size = 0\<rparr>"

definition sample_codecs :: "string \<Rightarrow> codecs" where
  "sample_codecs f = \<lparr>
     c_summary = one_message \<lparr>fs_folder_id = ''f'', fs_folder_path = ''p'', fs_manifest_hash = [],
       fs_total_size = 0, fs_file_count = 0, fs_last_modified = None\<rparr>,
     c_manifest = one_message \<lparr>pm_folder_id = ''f'', pm_files = [], pm_generated_at = None,
       pm_manifest_hash = replicate 32 0\<rparr>,
     c_want = one_message (sample_want f), c_chunk = one_message (sample_chunk 300),
     c_ack = one_message \<lparr>a_request_id = ''r'', a_success = True, a_message = []\<rparr>,
     c_error = one_message \<lparr>pe_error_type = 0, pe_message = [], pe_details = []\<rparr>\<rparr>"

lemma u32_be_3: "u32_be 3 = [0, 0, 0, 3]"
  by code_simp

lemma sample_frame:
  "send_message (c_want (sample_codecs f)) TWant m = Inr [3, 0, 0, 0, 3, 1, 2, 3]"
  "send_message (c_chunk (sample_codecs f)) TChunkData c = Inr [4, 0, 0, 0, 3, 1, 2, 3]"
  by (simp_all add: send_message_def sample_codecs_def one_message_def limits u32_be_3 Let_def)

lemma sample_chunk_fields [simp]:
  "length (cd_data (sample_chunk n)) = n" "cd_hash (sample_chunk n) = replicate 32 0"
  by (simp_all add: sample_chunk_def)

lemma codec_ok_one_message: "codec_ok (one_message m) m"
  by (simp add: codec_ok_def one_message_def)

lemma sample_codecs_ok:
  "codec_ok (c_want (sample_codecs f)) (sample_want f)"
  "codec_ok (c_chunk (sample_codecs f)) (sample_chunk 300)"
  by (simp_all add: sample_codecs_def codec_ok_one_message)

section \<open>Properties\<close>

text \<open>What a peer sends, the other receives: given a codec that decodes its encodings, every
  message a typed sender puts on a stream is returned by the matching receiver, whatever
  follows on the stream, and a receiver of any other type rejects the frame.\<close>

theorem typed_round_trip:
  assumes "codec_ok (c_summary cs) fs" and "codec_ok (c_manifest cs) m" and "codec_ok (c_want cs) w"
    and "codec_ok (c_chunk cs) c" and "codec_ok (c_ack cs) a" and "codec_ok (c_error cs) e"
  shows "(send_folder_summary uni cs fs = Inr s \<longrightarrow>
      receive_folder_summary uni short cs (s @ rest) = Inr fs) \<and>
    (send_manifest uni cs m = Inr s \<longrightarrow> receive_manifest uni short cs (s @ rest) = Inr m) \<and>
    (send_want uni cs w = Inr s \<longrightarrow> receive_want uni short cs (s @ rest) = Inr w \<and>
      (\<exists>e. receive_manifest uni short cs (s @ rest) = Inl (ProtocolErr e))) \<and>
    (send_chunk_data blake3 cs c = Inr s \<longrightarrow> receive_chunk_data blake3 short cs (s @ rest) = Inr c) \<and>
    (send_ack cs a = Inr s \<longrightarrow> receive_ack short cs (s @ rest) = Inr a) \<and>
    (send_error cs e = Inr s \<longrightarrow> receive_error short cs (s @ rest) = Inr e)"
proof (intro conjI impI)
  assume "send_folder_summary uni cs fs = Inr s"
  then show "receive_folder_summary uni short cs (s @ rest) = Inr fs"
    using receive_sent [OF assms(1)]
    by (auto simp add: send_folder_summary_def receive_folder_summary_def result_simps)
next
  assume "send_manifest uni cs m = Inr s"
  then show "receive_manifest uni short cs (s @ rest) = Inr m"
    using receive_sent [OF assms(2)]
    by (auto simp add: send_manifest_def receive_manifest_def result_simps)
next
  assume w: "send_want uni cs w = Inr s"
  then show "receive_want uni short cs (s @ rest) = Inr w"
    using receive_sent [OF assms(3)] by (auto simp add: send_want_def receive_want_def result_simps)
  from w show "\<exists>e. receive_manifest uni short cs (s @ rest) = Inl (ProtocolErr e)"
    using receive_other_type [of "c_want cs" TWant w s TManifest short "c_manifest cs" rest]
    by (auto simp add: send_want_def receive_manifest_def result_simps)
next
  assume "send_chunk_data blake3 cs c = Inr s"
  then show "receive_chunk_data blake3 short cs (s @ rest) = Inr c"
    using receive_sent [OF assms(4)]
    by (auto simp add: send_chunk_data_def receive_chunk_data_def result_simps)
next
  assume "send_ack cs a = Inr s"
  then show "receive_ack short cs (s @ rest) = Inr a"
    using receive_sent [OF assms(5)] by (simp add: send_ack_def receive_ack_def)
next
  assume "send_error cs e = Inr s"
  then show "receive_error short cs (s @ rest) = Inr e"
    using receive_sent [OF assms(6)] by (simp add: send_error_def receive_error_def)
qed

theorem typed_round_trip_witness:
  "receive_want (\<lambda>_. False) ''eof'' (sample_codecs ''docs'') ([3, 0, 0, 0, 3, 1, 2, 3] @ [9]) =
     Inr (sample_want ''docs'')"
proof -
  have "send_want (\<lambda>_. False) (sample_codecs ''docs'') (sample_want ''docs'') = Inr [3, 0, 0, 0, 3, 1, 2, 3]"
    by (simp add: send_want_def sample_frame sample_want_def validate_want_def validate_folder_id_def
        is_alphanumeric_def is_ascii_alnum_def must_be_32_def limits)
  moreover obtain fs m a e where "codec_ok (c_summary (sample_codecs ''docs'')) fs"
    "codec_ok (c_manifest (sample_codecs ''docs'')) m" "codec_ok (c_ack (sample_codecs ''docs'')) a"
    "codec_ok (c_error (sample_codecs ''docs'')) e"
    by (auto simp add: codec_ok_def sample_codecs_def one_message_def)
  ultimately show ?thesis
    using typed_round_trip [of "sample_codecs ''docs''" fs m "sample_want ''docs''" "sample_chunk 300" a e]
      sample_codecs_ok by blast
qed

text \<open>The multiplexed receiver does not validate: the frame of any want request that fits,
  even one that every validated receiver rejects, comes out of \<open>receive_any_message\<close>.\<close>

theorem multiplexed_receive_skips_validation:
  assumes "codec_ok (c_want cs) w" and "send_message (c_want cs) TWant w = Inr s"
    and "validate_want uni w = Inl e"
  shows "receive_any_message short cs s = Inr (MWant w) \<and>
    receive_want uni short cs s = Inl (invalid ''received want request'' e)"
proof -
  from receive_sent [OF assms(1,2), of short "[]"]
  have "receive_message short (c_want cs) TWant s = Inr w" by simp
  moreover have "receive_any_message short cs s = Inr (MWant w)"
    using assms(1,2) receive_typed_frame [of "c_want cs" w short "[]"] read_type_frame [of short TWant]
    by (auto simp add: receive_any_message_def send_message_Inr map_ok_def)
  ultimately show ?thesis
    by (simp add: receive_want_def assms(3))
qed

theorem multiplexed_receive_skips_validation_witness:
  "receive_any_message ''eof'' (sample_codecs []) [3, 0, 0, 0, 3, 1, 2, 3] = Inr (MWant (sample_want [])) \<and>
   receive_want (\<lambda>_. False) ''eof'' (sample_codecs []) [3, 0, 0, 0, 3, 1, 2, 3] =
     Inl (invalid ''received want request'' (MissingField ''folder_id''))"
  by (rule multiplexed_receive_skips_validation)
    (simp_all only: sample_frame, simp_all add: sample_codecs_def codec_ok_one_message sample_want_def
      validate_want_def validate_folder_id_def)

text \<open>A batch transfer returns only chunks that were asked for, with data that hashes to
  their hash and a valid size, at most as many as were asked for, and the cache files every
  chunk under the hash of its data, whatever the peer sends.\<close>

theorem batch_transfer_sound:
  assumes "cache_ok blake3 cache"
    and "transfer_chunks uni blake3 short cs wanted streams cache = (Inr chunks, sent, cache')"
  shows "cache_ok blake3 cache' \<and> length chunks \<le> length wanted \<and>
    (\<forall>c\<in>set chunks. cd_hash c \<in> set wanted \<and> blake3 (cd_data c) = cd_hash c) \<and>
    (get_cached_chunk cache' h = Some d \<longrightarrow> blake3 (cd_data d) = h)"
proof -
  obtain cs' cache1 where b: "receive_batch blake3 short cs wanted (length wanted) streams ([], cache)
      = (cs', cache1)" by fastforce
  with assms(2) have "cs' = chunks" "cache1 = cache'"
    by (auto simp add: transfer_chunks_def Let_def split: sum.splits)
  with receive_batch_sound [OF b assms(1)]
  have s: "cache_ok blake3 cache'" "length chunks \<le> length wanted"
    "\<forall>c\<in>set chunks. cd_hash c \<in> set wanted \<and> validate_chunk_data blake3 c = Inr ()" by auto
  moreover have "blake3 (cd_data d) = h" if "get_cached_chunk cache' h = Some d"
    using s(1) that by (auto simp add: cache_ok_def get_cached_chunk_def hm_mem_iff [symmetric] list_all_iff)
  ultimately show ?thesis using valid_chunk_hash by blast
qed

theorem batch_transfer_sound_witness:
  "\<exists>chunks sent cache'. transfer_chunks (\<lambda>_. False) (\<lambda>_. replicate 32 0) ''eof'' (sample_codecs ''docs'')
      [replicate 32 0] [[4, 0, 0, 0, 3, 1, 2, 3]] [] = (Inr chunks, sent, cache') \<and>
    chunks \<noteq> [] \<and> length chunks \<le> 1"
proof -
  let ?b = "\<lambda>_ :: bytes. replicate 32 0 :: bytes"
  have "send_chunk_data ?b (sample_codecs ''docs'') (sample_chunk 300) = Inr [4, 0, 0, 0, 3, 1, 2, 3]"
    by (simp add: send_chunk_data_def sample_frame validate_chunk_data_def
        must_be_32_def validate_chunk_size_def limits)
  moreover have "codec_ok (c_chunk (sample_codecs ''docs'')) (sample_chunk 300)"
    by (simp add: sample_codecs_def codec_ok_one_message)
  ultimately have r: "receive_chunk_data ?b ''eof'' (sample_codecs ''docs'') [4, 0, 0, 0, 3, 1, 2, 3] =
      Inr (sample_chunk 300)"
    using receive_sent [of "c_chunk (sample_codecs ''docs'')" "sample_chunk 300" TChunkData _ "''eof''" "[]"]
    by (auto simp add: send_chunk_data_def receive_chunk_data_def result_simps)
  have "\<exists>sent cache'. transfer_chunks (\<lambda>_. False) ?b ''eof'' (sample_codecs ''docs'')
      [replicate 32 0] [[4, 0, 0, 0, 3, 1, 2, 3]] [] = (Inr [sample_chunk 300], sent, cache')"
    by (simp add: transfer_chunks_def send_want_def sample_frame r validate_want_def
        validate_folder_id_def is_alphanumeric_def is_ascii_alnum_def must_be_32_def limits Let_def)
  then obtain sent cache' where t: "transfer_chunks (\<lambda>_. False) ?b ''eof'' (sample_codecs ''docs'')
      [replicate 32 0] [[4, 0, 0, 0, 3, 1, 2, 3]] [] = (Inr [sample_chunk 300], sent, cache')" by blast
  have "cache_ok ?b []" by (simp add: cache_ok_def hm.wf_empty)
  from batch_transfer_sound [OF this t] t show ?thesis by auto
qed

text \<open>A chunk of more than 10 MiB passes \<open>validate_chunk_data\<close> (its limit is 16 MiB) but
  cannot be sent: whatever the codec, an encoding no shorter than the data exceeds the
  message limit.\<close>

theorem large_chunk_cannot_be_sent:
  assumes "length (encode (c_chunk cs) c) \<ge> length (cd_data c)"
    and "length (cd_hash c) = 32" and "blake3 (cd_data c) = cd_hash c"
    and "10 * 1024 * 1024 < length (cd_data c)" and "length (cd_data c) \<le> 16 * 1024 * 1024"
  shows "validate_chunk_data blake3 c = Inr () \<and>
    (\<exists>e. send_chunk_data blake3 cs c = Inl (ProtocolErr e))"
proof -
  have v: "validate_chunk_data blake3 c = Inr ()"
    using assms by (simp add: validate_chunk_data_def result_simps limits)
  then show ?thesis
    using assms(1,4) by (simp add: send_chunk_data_def send_message_def Let_def limits)
qed

theorem large_chunk_cannot_be_sent_witness:
  "let cs = (sample_codecs ''docs'')\<lparr>c_chunk := \<lparr>encode = cd_data, decode = (\<lambda>_. Inl [])\<rparr>\<rparr>;
       c = sample_chunk 12000000 in
   validate_chunk_data (\<lambda>_. replicate 32 0) c = Inr () \<and>
   (\<exists>e. send_chunk_data (\<lambda>_. replicate 32 0) cs c = Inl (ProtocolErr e))"
  unfolding Let_def
  by (rule large_chunk_cannot_be_sent) simp_all

end
