(* ===== verification/Packfile.thy ===== *)
theory Packfile
  imports Codec Containers Machines
begin

text \<open>
  Packfiles (\<open>landro-cas/src/packfile.rs\<close>): the writer, the reader and the memory-mapped
  reader of the pack format, and the manager with its pending chunks, current writer and
  readers.

  The pack directory is a map from file names to contents.  A file handle is a name, a
  position and whether it may be read: \<open>File::create\<close> opens write-only, and reading such a
  handle is an I/O error.  Writes succeed.  A panic of the memory-mapped reader (a slice out
  of range) is \<open>None\<close>.  Offsets are \<open>u64\<close> words and wrap as in a release build.  BLAKE3 is
  the parameter \<open>blake3\<close>, \<open>now\<close> the clock in seconds, \<open>it\<close> the order in which the reader
  map or the directory is visited.
\<close>

section \<open>Errors and files\<close>

datatype io_error = UnexpectedEof | NotReadable | NotFound

type_synonym content_hash = bytes

datatype cas_error =
    CasIo io_error
  | ObjectNotFound content_hash
  | HashMismatch content_hash content_hash
  | CorruptObject string
  | StoragePath string
  | AtomicWriteFailed string
  | InvalidObjectSize u64 u64
  | InconsistentState string
  | PermissionDenied string
  | QuotaExceeded string
  | ConcurrentModification string
  | InvalidOperation string
  | Internal string

type_synonym dir = "(string, bytes) hmap"

record file_handle =
  fh_name :: string
  fh_pos :: nat
  fh_readable :: bool

definition file_content :: "dir \<Rightarrow> string \<Rightarrow> bytes" where
  "file_content fs p = (case hm_get fs p of None \<Rightarrow> [] | Some c \<Rightarrow> c)"

text \<open>Writing over the bytes at a position, extending the file at its end.\<close>

definition overwrite :: "nat \<Rightarrow> bytes \<Rightarrow> bytes \<Rightarrow> bytes" where
  "overwrite p bs c = take p c @ bs @ drop (p + length bs) c"

definition create_file :: "string \<Rightarrow> dir \<Rightarrow> file_handle \<times> dir" where
  "create_file p fs = (\<lparr>fh_name = p, fh_pos = 0, fh_readable = False\<rparr>, hm_put p [] fs)"

definition write_all :: "bytes \<Rightarrow> file_handle \<times> dir \<Rightarrow> file_handle \<times> dir" where
  "write_all bs hf = (case hf of (h, fs) \<Rightarrow>
     (h\<lparr>fh_pos := fh_pos h + length bs\<rparr>,
      hm_put (fh_name h) (overwrite (fh_pos h) bs (file_content fs (fh_name h))) fs))"

definition seek_start :: "nat \<Rightarrow> file_handle \<times> dir \<Rightarrow> file_handle \<times> dir" where
  "seek_start p hf = ((fst hf)\<lparr>fh_pos := p\<rparr>, snd hf)"

definition read_some :: "nat \<Rightarrow> file_handle \<times> dir \<Rightarrow> cas_error + (bytes \<times> file_handle)" where
  "read_some n hf = (case hf of (h, fs) \<Rightarrow>
     if \<not> fh_readable h then Inl (CasIo NotReadable)
     else let bs = take n (drop (fh_pos h) (file_content fs (fh_name h))) in
       Inr (bs, h\<lparr>fh_pos := fh_pos h + length bs\<rparr>))"

section \<open>The format\<close>

definition PACKFILE_MAGIC :: bytes where
  "PACKFILE_MAGIC = map (\<lambda>c. word_of_nat (of_char c)) ''LANDRO_PACK_V1''"

definition PACKFILE_VERSION :: u32 where "PACKFILE_VERSION = 1"
definition PACKFILE_HEADER_SIZE :: u64 where "PACKFILE_HEADER_SIZE = 26"
definition PACKFILE_ENTRY_SIZE :: u64 where "PACKFILE_ENTRY_SIZE = 44"
definition PACKFILE_FOOTER_SIZE :: u64 where "PACKFILE_FOOTER_SIZE = 32"

record packfile_config =
  max_packfile_size :: u64
  pack_threshold :: u32
  min_chunks_per_pack :: nat

definition default_pack_config :: packfile_config where
  "default_pack_config = \<lparr>max_packfile_size = 256 * 1024 * 1024, pack_threshold = 64 * 1024,
     min_chunks_per_pack = 100\<rparr>"

record packfile_entry =
  pe_hash :: content_hash
  pe_offset :: u64
  pe_size :: u32

definition new_entry :: "content_hash \<Rightarrow> u64 \<Rightarrow> u32 \<Rightarrow> packfile_entry" where
  "new_entry hash offset sz = \<lparr>pe_hash = hash, pe_offset = offset, pe_size = sz\<rparr>"

lemma new_entry_fields [simp]: "new_entry (pe_hash e) (pe_offset e) (pe_size e) = e"
  by (cases e) (simp add: new_entry_def)

section \<open>The index\<close>

record packfile_index =
  pi_entries :: "(content_hash, packfile_entry) hmap"
  pi_data_size :: u64
  pi_version :: u32
  pi_created_at :: u64

definition new_index :: "u64 \<Rightarrow> packfile_index" where
  "new_index now = \<lparr>pi_entries = [], pi_data_size = 0, pi_version = PACKFILE_VERSION,
     pi_created_at = now\<rparr>"

definition add_entry :: "packfile_entry \<Rightarrow> packfile_index \<Rightarrow> packfile_index" where
  "add_entry e i = i\<lparr>pi_data_size := pi_data_size i + ucast (pe_size e),
     pi_entries := hm_put (pe_hash e) e (pi_entries i)\<rparr>"

definition is_full :: "u64 \<Rightarrow> packfile_index \<Rightarrow> bool" where
  "is_full max_size i \<longleftrightarrow> pi_data_size i \<ge> max_size"

definition has_min_entries :: "nat \<Rightarrow> packfile_index \<Rightarrow> bool" where
  "has_min_entries n i \<longleftrightarrow> length (pi_entries i) \<ge> n"

section \<open>The reader\<close>

record packfile_stats =
  total_packs :: nat
  total_objects :: nat
  total_packed_size :: u64

record packfile_reader =
  rd_path :: string
  rd_entries :: "(content_hash, packfile_entry) hmap"
  rd_stats :: packfile_stats

text \<open>\<open>read_exact\<close> at a position of the file.\<close>

definition read_at :: "nat \<Rightarrow> nat \<Rightarrow> bytes \<Rightarrow> cas_error + bytes" where
  "read_at p n c = (if p + n \<le> length c then Inr (take n (drop p c)) else Inl (CasIo UnexpectedEof))"

fun read_entries ::
  "nat \<Rightarrow> nat \<Rightarrow> bytes \<Rightarrow> (content_hash, packfile_entry) hmap \<times> u64 \<Rightarrow>
   cas_error + (((content_hash, packfile_entry) hmap \<times> u64) \<times> nat)" where
  "read_entries 0 p c acc = Inr (acc, p)"
| "read_entries (Suc n) p c (es, sz) =
     and_then (read_at p 32 c) (\<lambda>hash.
     and_then (read_at (p + 32) 8 c) (\<lambda>ob.
     and_then (read_at (p + 40) 4 c) (\<lambda>sb.
       let e = new_entry hash (u64_of_le ob) (u32_of_le sb) in
       read_entries n (p + 44) c (hm_put hash e es, sz + ucast (pe_size e)))))"

definition unsupported_version :: "u32 \<Rightarrow> cas_error" where
  "unsupported_version v = InconsistentState (''Unsupported packfile version: '' @ show_nat (unat v))"

definition open_reader :: "string \<Rightarrow> dir \<Rightarrow> cas_error + packfile_reader" where
  "open_reader path fs =
     (case hm_get fs path of
        None \<Rightarrow> Inl (CasIo NotFound)
      | Some c \<Rightarrow>
          and_then (read_at 0 14 c) (\<lambda>magic.
          if magic \<noteq> PACKFILE_MAGIC then Inl (InconsistentState ''Invalid packfile magic'') else
          and_then (read_at 14 4 c) (\<lambda>vb.
          if u32_of_le vb \<noteq> PACKFILE_VERSION then Inl (unsupported_version (u32_of_le vb)) else
          and_then (read_at 18 8 c) (\<lambda>cb.
            let entry_count = u64_of_le cb;
                file_size = word_of_nat (length c);
                entry_table_offset =
                  file_size - PACKFILE_FOOTER_SIZE - entry_count * PACKFILE_ENTRY_SIZE in
            and_then (read_entries (unat entry_count) (unat entry_table_offset) c ([], 0))
              (\<lambda>((es, sz), p).
            and_then (read_at p 32 c) (\<lambda>stored_hash.
              Inr \<lparr>rd_path = path, rd_entries = es,
                rd_stats = \<lparr>total_packs = 1, total_objects = length es,
                  total_packed_size = sz\<rparr>\<rparr>))))))"

definition read_chunk :: "(bytes \<Rightarrow> bytes) \<Rightarrow> dir \<Rightarrow> content_hash \<Rightarrow> packfile_reader \<Rightarrow> cas_error + bytes"
where
  "read_chunk blake3 fs hash r =
     (case hm_get (rd_entries r) hash of
        None \<Rightarrow> Inl (ObjectNotFound hash)
      | Some e \<Rightarrow>
          (case hm_get fs (rd_path r) of
             None \<Rightarrow> Inl (CasIo NotFound)
           | Some c \<Rightarrow>
               and_then (read_at (unat (pe_offset e)) (unat (pe_size e)) c) (\<lambda>buffer.
                 if blake3 buffer \<noteq> hash then Inl (HashMismatch hash (blake3 buffer))
                 else Inr buffer)))"

definition contains_chunk :: "content_hash \<Rightarrow> packfile_reader \<Rightarrow> bool" where
  "contains_chunk hash r \<longleftrightarrow> hm_has (rd_entries r) hash"

section \<open>The memory-mapped reader\<close>

record mmap_reader =
  mm_entries :: "(content_hash, packfile_entry) hmap"
  mm_stats :: packfile_stats
  mm_map :: bytes

definition word_slice :: "bytes \<Rightarrow> u64 \<Rightarrow> u64 \<Rightarrow> bytes option" where
  "word_slice c a b = subslice c (unat a) (unat b)"

fun mmap_entries ::
  "nat \<Rightarrow> u64 \<Rightarrow> bytes \<Rightarrow> (content_hash, packfile_entry) hmap \<times> u64 \<Rightarrow>
   (cas_error + ((content_hash, packfile_entry) hmap \<times> u64)) option" where
  "mmap_entries 0 offset c acc = Some (Inr acc)"
| "mmap_entries (Suc n) offset c (es, sz) =
     (if unat (offset + PACKFILE_ENTRY_SIZE) > length c
      then Some (Inl (InconsistentState ''Entry table extends beyond file''))
      else
        Option.bind (word_slice c offset (offset + 32)) (\<lambda>hash.
        Option.bind (word_slice c (offset + 32) (offset + 40)) (\<lambda>ob.
        Option.bind (word_slice c (offset + 40) (offset + 44)) (\<lambda>sb.
          let e = new_entry hash (u64_of_le ob) (u32_of_le sb) in
          mmap_entries n (offset + 44) c (hm_put hash e es, sz + ucast (pe_size e))))))"

definition open_mmap :: "string \<Rightarrow> dir \<Rightarrow> (cas_error + mmap_reader) option" where
  "open_mmap path fs =
     (case hm_get fs path of
        None \<Rightarrow> Some (Inl (StoragePath ''Failed to open packfile''))
      | Some c \<Rightarrow>
          if length c < unat PACKFILE_HEADER_SIZE
          then Some (Inl (InconsistentState ''Packfile too small''))
          else if take 14 c \<noteq> PACKFILE_MAGIC
          then Some (Inl (InconsistentState ''Invalid packfile magic''))
          else let v = u32_of_le (take 4 (drop 14 c)) in
          if v \<noteq> PACKFILE_VERSION then Some (Inl (unsupported_version v))
          else
            let entry_count = u64_of_le (take 8 (drop 18 c));
                file_size = word_of_nat (length c);
                entry_table_offset =
                  file_size - PACKFILE_FOOTER_SIZE - entry_count * PACKFILE_ENTRY_SIZE in
            map_option (\<lambda>r. and_then r (\<lambda>(es, sz).
                Inr \<lparr>mm_entries = es, mm_stats = \<lparr>total_packs = 1, total_objects = length es,
                  total_packed_size = sz\<rparr>, mm_map = c\<rparr>))
              (mmap_entries (unat entry_count) entry_table_offset c ([], 0)))"

definition get_chunk_slice :: "content_hash \<Rightarrow> mmap_reader \<Rightarrow> (cas_error + bytes) option" where
  "get_chunk_slice hash r =
     (case hm_get (mm_entries r) hash of
        None \<Rightarrow> Some (Inl (ObjectNotFound hash))
      | Some e \<Rightarrow>
          let start = pe_offset e; end_pos = start + ucast (pe_size e) in
          if unat end_pos > length (mm_map r)
          then Some (Inl (CorruptObject ''Chunk data extends beyond packfile''))
          else map_option Inr (word_slice (mm_map r) start end_pos))"

definition mmap_read_chunk ::
  "(bytes \<Rightarrow> bytes) \<Rightarrow> content_hash \<Rightarrow> mmap_reader \<Rightarrow> (cas_error + bytes) option" where
  "mmap_read_chunk blake3 hash r =
     map_option (\<lambda>s. and_then s (\<lambda>d.
       if blake3 d \<noteq> hash then Inl (HashMismatch hash (blake3 d)) else Inr d))
       (get_chunk_slice hash r)"

section \<open>The writer\<close>

record packfile_writer =
  w_file :: file_handle
  w_entries :: "packfile_entry list"
  w_data_offset :: u64
  w_path :: string

definition new_writer :: "string \<Rightarrow> dir \<Rightarrow> packfile_writer \<times> dir" where
  "new_writer path fs =
     (let (h, fs1) =
        write_all (u64_le 0) (write_all (u32_le PACKFILE_VERSION)
          (write_all PACKFILE_MAGIC (create_file path fs))) in
      (\<lparr>w_file = h, w_entries = [], w_data_offset = PACKFILE_HEADER_SIZE, w_path = path\<rparr>, fs1))"

definition writer_add_chunk ::
  "content_hash \<Rightarrow> bytes \<Rightarrow> packfile_writer \<times> dir \<Rightarrow> cas_error + (packfile_writer \<times> dir)" where
  "writer_add_chunk hash data wd = (case wd of (w, fs) \<Rightarrow>
     if length data > 2 ^ 32 - 1
     then Inl (InvalidObjectSize (2 ^ 32 - 1) (word_of_nat (length data)))
     else
       let (h, fs1) = write_all data (w_file w, fs);
           e = new_entry hash (w_data_offset w) (word_of_nat (length data)) in
       Inr (w\<lparr>w_file := h, w_entries := w_entries w @ [e],
              w_data_offset := w_data_offset w + word_of_nat (length data)\<rparr>, fs1))"

definition entry_bytes :: "packfile_entry \<Rightarrow> bytes" where
  "entry_bytes e = pe_hash e @ u64_le (pe_offset e) @ u32_le (pe_size e)"

definition write_entry :: "packfile_entry \<Rightarrow> file_handle \<times> dir \<Rightarrow> file_handle \<times> dir" where
  "write_entry e hf =
     write_all (u32_le (pe_size e)) (write_all (u64_le (pe_offset e)) (write_all (pe_hash e) hf))"

text \<open>The loop that hashes the file from the current position, 8192 bytes at a time.\<close>

function hash_loop :: "bytes \<Rightarrow> file_handle \<times> dir \<Rightarrow> cas_error + (bytes \<times> file_handle)" where
  "hash_loop acc hf =
     (case read_some 8192 hf of
        Inl e \<Rightarrow> Inl e
      | Inr (bs, h) \<Rightarrow> if bs = [] then Inr (acc, h) else hash_loop (acc @ bs) (h, snd hf))"
  by pat_completeness auto
termination
  by (relation "measure (\<lambda>(_, h, fs). length (file_content fs (fh_name h)) - fh_pos h)")
    (auto simp add: read_some_def Let_def split: prod.splits if_splits)

declare hash_loop.simps [simp del]

definition writer_finalize ::
  "(bytes \<Rightarrow> bytes) \<Rightarrow> packfile_writer \<times> dir \<Rightarrow> (cas_error + packfile_reader) \<times> dir" where
  "writer_finalize blake3 wd = (case wd of (w, fs) \<Rightarrow>
     let hf1 = fold write_entry (w_entries w) (w_file w, fs);
         hf2 = seek_start 0 hf1 in
     case hash_loop [] hf2 of
       Inl e \<Rightarrow> (Inl e, snd hf2)
     | Inr (all, h) \<Rightarrow>
         let hf3 = write_all (blake3 all) (h, snd hf2);
             hf4 = write_all (u64_le (word_of_nat (length (w_entries w)))) (seek_start 18 hf3) in
         (open_reader (w_path w) (snd hf4), snd hf4))"

definition writer_data_size :: "packfile_writer \<Rightarrow> u64" where
  "writer_data_size w = w_data_offset w - PACKFILE_HEADER_SIZE"

section \<open>The manager\<close>

record packfile_manager =
  pm_config :: packfile_config
  current_writer :: "packfile_writer option"
  pack_readers :: "(string, packfile_reader) hmap"
  pending_chunks :: "(content_hash \<times> bytes) list"
  pm_dir :: dir

text \<open>Extension \<open>pack\<close> and the stem of a file name.\<close>

definition pack_stem :: "string \<Rightarrow> string option" where
  "pack_stem p = (if 5 < length p \<and> drop (length p - 5) p = ''.pack''
     then Some (take (length p - 5) p) else None)"

definition load_existing_packs ::
  "((string \<times> bytes) list \<Rightarrow> (string \<times> bytes) list) \<Rightarrow> packfile_manager \<Rightarrow> packfile_manager" where
  "load_existing_packs it m =
     fold (\<lambda>(p, _) m. case pack_stem p of None \<Rightarrow> m
       | Some stem \<Rightarrow> (case open_reader p (pm_dir m) of
           Inl _ \<Rightarrow> m
         | Inr r \<Rightarrow> m\<lparr>pack_readers := hm_put stem r (pack_readers m)\<rparr>))
       (it (pm_dir m)) m"

definition new_manager ::
  "((string \<times> bytes) list \<Rightarrow> (string \<times> bytes) list) \<Rightarrow> packfile_config \<Rightarrow> dir \<Rightarrow> packfile_manager" where
  "new_manager it cfg fs =
     load_existing_packs it \<lparr>pm_config = cfg, current_writer = None, pack_readers = [],
       pending_chunks = [], pm_dir = fs\<rparr>"

definition should_pack :: "packfile_manager \<Rightarrow> u64 \<Rightarrow> bool" where
  "should_pack m sz \<longleftrightarrow> sz \<le> ucast (pack_threshold (pm_config m))"

definition hex_digit :: "nat \<Rightarrow> char" where
  "hex_digit d = char_of (if d < 10 then 48 + d else 87 + d)"

definition hex16 :: "nat \<Rightarrow> string" where
  "hex16 n = map (\<lambda>i. hex_digit (n div 16 ^ (15 - i) mod 16)) [0..<16]"

definition create_new_pack_writer :: "nat \<Rightarrow> packfile_manager \<Rightarrow> packfile_manager" where
  "create_new_pack_writer now m =
     (let (w, fs) = new_writer (''pack-'' @ hex16 now @ ''.pack'') (pm_dir m) in
      m\<lparr>current_writer := Some w, pm_dir := fs\<rparr>)"

definition get_or_create_current_writer :: "nat \<Rightarrow> packfile_manager \<Rightarrow> packfile_manager" where
  "get_or_create_current_writer now m =
     (if current_writer m = None then create_new_pack_writer now m else m)"

text \<open>\<open>writer.add_chunk(..).await?\<close> on the current writer.\<close>

definition current_add_chunk ::
  "content_hash \<Rightarrow> bytes \<Rightarrow> packfile_manager \<Rightarrow> (cas_error + unit) \<times> packfile_manager" where
  "current_add_chunk hash data m =
     (case current_writer m of
        None \<Rightarrow> (Inr (), m)
      | Some w \<Rightarrow>
          (case writer_add_chunk hash data (w, pm_dir m) of
             Inl e \<Rightarrow> (Inl e, m)
           | Inr (w1, fs) \<Rightarrow> (Inr (), m\<lparr>current_writer := Some w1, pm_dir := fs\<rparr>)))"

definition should_finalize_current_pack :: "packfile_manager \<Rightarrow> bool" where
  "should_finalize_current_pack m =
     (case current_writer m of
        None \<Rightarrow> False
      | Some w \<Rightarrow> writer_data_size w \<ge> max_packfile_size (pm_config m) \<or>
          length (w_entries w) \<ge> min_chunks_per_pack (pm_config m) * 10)"

definition should_flush_packfile :: "packfile_manager \<Rightarrow> bool" where
  "should_flush_packfile m \<longleftrightarrow> length (pending_chunks m) \<ge> min_chunks_per_pack (pm_config m)"

definition finalize_current_pack ::
  "(bytes \<Rightarrow> bytes) \<Rightarrow> packfile_manager \<Rightarrow> (cas_error + unit) \<times> packfile_manager" where
  "finalize_current_pack blake3 m =
     (case current_writer m of
        None \<Rightarrow> (Inr (), m)
      | Some w \<Rightarrow>
          let stem = (case pack_stem (w_path w) of Some s \<Rightarrow> s | None \<Rightarrow> w_path w);
              (res, fs) = writer_finalize blake3 (w, pm_dir m);
              m1 = m\<lparr>current_writer := None, pm_dir := fs\<rparr> in
          case res of
            Inl e \<Rightarrow> (Inl e, m1)
          | Inr r \<Rightarrow> (Inr (), m1\<lparr>pack_readers := hm_put stem r (pack_readers m1)\<rparr>))"

definition finalize_if_full ::
  "(bytes \<Rightarrow> bytes) \<Rightarrow> packfile_manager \<Rightarrow> (cas_error + unit) \<times> packfile_manager" where
  "finalize_if_full blake3 m =
     (if should_finalize_current_pack m then finalize_current_pack blake3 m else (Inr (), m))"

fun add_all ::
  "(content_hash \<times> bytes) list \<Rightarrow> packfile_manager \<Rightarrow> (cas_error + unit) \<times> packfile_manager" where
  "add_all [] m = (Inr (), m)"
| "add_all ((h, d) # xs) m =
     (case current_add_chunk h d m of
        (Inl e, m1) \<Rightarrow> (Inl e, m1)
      | (Inr _, m1) \<Rightarrow> add_all xs m1)"

definition flush_packfile ::
  "(bytes \<Rightarrow> bytes) \<Rightarrow> nat \<Rightarrow> packfile_manager \<Rightarrow> (cas_error + unit) \<times> packfile_manager" where
  "flush_packfile blake3 now m =
     (if pending_chunks m = [] then (Inr (), m)
      else case add_all (pending_chunks m)
                  (get_or_create_current_writer now (m\<lparr>pending_chunks := []\<rparr>)) of
        (Inl e, m1) \<Rightarrow> (Inl e, m1)
      | (Inr _, m1) \<Rightarrow> finalize_if_full blake3 m1)"

definition manager_add_chunk ::
  "(bytes \<Rightarrow> bytes) \<Rightarrow> nat \<Rightarrow> content_hash \<Rightarrow> bytes \<Rightarrow> packfile_manager \<Rightarrow>
   (cas_error + unit) \<times> packfile_manager" where
  "manager_add_chunk blake3 now hash data m =
     (let m1 = m\<lparr>pending_chunks := pending_chunks m @ [(hash, data)]\<rparr> in
      if should_flush_packfile m1 then flush_packfile blake3 now m1 else (Inr (), m1))"

definition store_packed ::
  "(bytes \<Rightarrow> bytes) \<Rightarrow> nat \<Rightarrow> content_hash \<Rightarrow> bytes \<Rightarrow> packfile_manager \<Rightarrow>
   (cas_error + unit) \<times> packfile_manager" where
  "store_packed blake3 now hash data m =
     (case current_add_chunk hash data (get_or_create_current_writer now m) of
        (Inl e, m1) \<Rightarrow> (Inl e, m1)
      | (Inr _, m1) \<Rightarrow> finalize_if_full blake3 m1)"

definition read_packed ::
  "(bytes \<Rightarrow> bytes) \<Rightarrow> ((string \<times> packfile_reader) list \<Rightarrow> (string \<times> packfile_reader) list) \<Rightarrow>
   content_hash \<Rightarrow> packfile_manager \<Rightarrow> cas_error + bytes option" where
  "read_packed blake3 it hash m =
     (case find (\<lambda>(h, _). h = hash) (pending_chunks m) of
        Some (_, d) \<Rightarrow> Inr (Some d)
      | None \<Rightarrow>
          (case find (\<lambda>(_, r). contains_chunk hash r) (it (pack_readers m)) of
             Some (_, r) \<Rightarrow> and_then (read_chunk blake3 (pm_dir m) hash r) (\<lambda>d. Inr (Some d))
           | None \<Rightarrow> Inr None))"

definition manager_finalize ::
  "(bytes \<Rightarrow> bytes) \<Rightarrow> nat \<Rightarrow> packfile_manager \<Rightarrow> (cas_error + unit) \<times> packfile_manager" where
  "manager_finalize blake3 now m =
     (case (if pending_chunks m \<noteq> [] then flush_packfile blake3 now m else (Inr (), m)) of
        (Inl e, m1) \<Rightarrow> (Inl e, m1)
      | (Inr _, m1) \<Rightarrow>
          if current_writer m1 \<noteq> None then finalize_current_pack blake3 m1 else (Inr (), m1))"

definition manager_stats :: "packfile_manager \<Rightarrow> packfile_stats" where
  "manager_stats m =
     (let base = fold (\<lambda>(_, r) s. s\<lparr>total_objects := total_objects s + total_objects (rd_stats r),
              total_packed_size := total_packed_size s + total_packed_size (rd_stats r)\<rparr>)
            (pack_readers m)
            \<lparr>total_packs = length (pack_readers m), total_objects = length (pending_chunks m),
             total_packed_size = 0\<rparr> in
      case current_writer m of
        None \<Rightarrow> base
      | Some w \<Rightarrow> base\<lparr>total_objects := total_objects base + length (w_entries w),
          total_packed_size := total_packed_size base + writer_data_size w,
          total_packs := total_packs base + (if 0 < length (w_entries w) then 1 else 0)\<rparr>)"

section \<open>Files\<close>

lemma file_content_put [simp]:
  "hm_wf fs \<Longrightarrow> file_content (hm_put p c fs) q = (if q = p then c else file_content fs q)"
  by (simp add: file_content_def hm.get_put)

lemma overwrite_end [simp]: "overwrite (length c) bs c = c @ bs"
  by (simp add: overwrite_def)

text \<open>A handle at the end of its file, and what writing there does.\<close>

definition at_end :: "file_handle \<times> dir \<Rightarrow> bytes \<Rightarrow> bool" where
  "at_end hf c \<longleftrightarrow> hm_wf (snd hf) \<and> hm_get (snd hf) (fh_name (fst hf)) = Some c \<and>
     fh_pos (fst hf) = length c"

lemma at_end_content: "at_end hf c \<Longrightarrow> file_content (snd hf) (fh_name (fst hf)) = c"
  by (simp add: at_end_def file_content_def)

lemma at_end_write: "at_end hf c \<Longrightarrow> at_end (write_all bs hf) (c @ bs)"
  by (cases hf) (auto simp add: at_end_def write_all_def hm.wf_put hm.get_put file_content_def)

lemma fst_write_all [simp]:
  "fh_name (fst (write_all bs hf)) = fh_name (fst hf)"
  "fh_readable (fst (write_all bs hf)) = fh_readable (fst hf)"
  by (cases hf, simp add: write_all_def)+

lemma at_end_write_entry: "at_end hf c \<Longrightarrow> at_end (write_entry e hf) (c @ entry_bytes e)"
  using at_end_write [OF at_end_write [OF at_end_write]]
  by (simp add: write_entry_def entry_bytes_def)

lemma fst_write_entry [simp]:
  "fh_name (fst (write_entry e hf)) = fh_name (fst hf)"
  "fh_readable (fst (write_entry e hf)) = fh_readable (fst hf)"
  by (simp_all add: write_entry_def)

lemma write_entries:
  "at_end hf c \<Longrightarrow> at_end (fold write_entry es hf) (c @ concat (map entry_bytes es)) \<and>
   fh_name (fst (fold write_entry es hf)) = fh_name (fst hf) \<and>
   fh_readable (fst (fold write_entry es hf)) = fh_readable (fst hf)"
proof (induction es arbitrary: hf c)
  case Nil
  then show ?case by simp
next
  case (Cons e es)
  from Cons.IH [OF at_end_write_entry [OF Cons.prems]] show ?case by simp
qed

lemma hash_loop_unreadable: "\<not> fh_readable (fst hf) \<Longrightarrow> hash_loop acc hf = Inl (CasIo NotReadable)"
  by (subst hash_loop.simps) (auto simp add: read_some_def split: prod.splits)

lemma hash_loop_all:
  "fh_readable (fst hf) \<Longrightarrow> file_content (snd hf) (fh_name (fst hf)) = c \<Longrightarrow> fh_pos (fst hf) \<le> length c \<Longrightarrow>
   hash_loop acc hf = Inr (acc @ drop (fh_pos (fst hf)) c, (fst hf)\<lparr>fh_pos := length c\<rparr>)"
proof (induction acc hf rule: hash_loop.induct)
  case (1 acc hf)
  obtain h fs where hf: "hf = (h, fs)" by fastforce
  let ?bs = "take 8192 (drop (fh_pos h) c)"
  have r: "read_some 8192 hf = Inr (?bs, h\<lparr>fh_pos := fh_pos h + length ?bs\<rparr>)"
    using 1 by (simp add: hf read_some_def Let_def)
  show ?case
  proof (cases "?bs = []")
    case True
    then have "fh_pos h = length c" using 1 hf by auto
    then show ?thesis using True r by (subst hash_loop.simps) (simp add: hf)
  next
    case False
    let ?h = "h\<lparr>fh_pos := fh_pos h + length ?bs\<rparr>"
    have "hash_loop (acc @ ?bs) (?h, fs) =
        Inr ((acc @ ?bs) @ drop (fh_pos h + length ?bs) c, ?h\<lparr>fh_pos := length c\<rparr>)"
      using "1.IH" [OF r refl False] 1(2-4) by (simp add: hf)
    moreover have "?bs @ drop (fh_pos h + length ?bs) c = drop (fh_pos h) c"
    proof -
      have "drop (length ?bs) (drop (fh_pos h) c) = drop 8192 (drop (fh_pos h) c)"
        by (cases "length (drop (fh_pos h) c) \<le> 8192") simp_all
      then show ?thesis by (metis add.commute append_take_drop_id drop_drop)
    qed
    ultimately show ?thesis using False r by (subst hash_loop.simps) (simp add: hf)
  qed
qed

section \<open>The writer\<close>

definition header :: "u64 \<Rightarrow> bytes" where
  "header n = PACKFILE_MAGIC @ u32_le PACKFILE_VERSION @ u64_le n"

lemma length_magic [simp]: "length PACKFILE_MAGIC = 14"
  by (simp add: PACKFILE_MAGIC_def)

lemma length_header [simp]: "length (header n) = 26"
  by (simp add: header_def)

fun layout :: "nat \<Rightarrow> (content_hash \<times> bytes) list \<Rightarrow> packfile_entry list" where
  "layout off [] = []"
| "layout off ((h, d) # xs) =
     new_entry h (word_of_nat off) (word_of_nat (length d)) # layout (off + length d) xs"

lemma new_entry_sel [simp]:
  "pe_hash (new_entry h p n) = h" "pe_offset (new_entry h p n) = p" "pe_size (new_entry h p n) = n"
  by (simp_all add: new_entry_def)

lemma layout_append: "layout off (xs @ ys) = layout off xs @ layout (off + length (concat (map snd xs))) ys"
  by (induction off xs rule: layout.induct) (auto simp add: add.assoc)

lemma length_layout [simp]: "length (layout off xs) = length xs"
  by (induction off xs rule: layout.induct) auto

lemma layout_hashes [simp]: "map pe_hash (layout off xs) = map fst xs"
  by (induction off xs rule: layout.induct) auto

fun writer_adds ::
  "(content_hash \<times> bytes) list \<Rightarrow> packfile_writer \<times> dir \<Rightarrow> cas_error + (packfile_writer \<times> dir)" where
  "writer_adds [] wd = Inr wd"
| "writer_adds ((h, d) # xs) wd = and_then (writer_add_chunk h d wd) (writer_adds xs)"

text \<open>What holds of a writer that has added \<open>xs\<close>.\<close>

definition writer_holds ::
  "bool \<Rightarrow> string \<Rightarrow> (content_hash \<times> bytes) list \<Rightarrow> packfile_writer \<times> dir \<Rightarrow> bool" where
  "writer_holds b path xs wd \<longleftrightarrow>
     at_end (w_file (fst wd), snd wd) (header 0 @ concat (map snd xs)) \<and>
     fh_name (w_file (fst wd)) = path \<and> fh_readable (w_file (fst wd)) = b \<and> w_path (fst wd) = path \<and>
     w_entries (fst wd) = layout 26 xs \<and>
     w_data_offset (fst wd) = word_of_nat (26 + length (concat (map snd xs))) \<and>
     (\<forall>(h, d)\<in>set xs. length d < 2 ^ 32)"

lemma writer_holds_new:
  assumes "hm_wf fs"
  shows "writer_holds False path [] (new_writer path fs)"
proof -
  let ?hf = "write_all (u64_le 0) (write_all (u32_le PACKFILE_VERSION)
    (write_all PACKFILE_MAGIC (create_file path fs)))"
  have "at_end (create_file path fs) []"
    using assms by (simp add: at_end_def create_file_def hm.wf_put hm.get_put)
  from at_end_write [OF at_end_write [OF at_end_write [OF this]]]
  have "at_end ?hf (header 0)" by (simp add: header_def)
  then show ?thesis
    by (cases ?hf) (simp add: new_writer_def writer_holds_def PACKFILE_HEADER_SIZE_def,
        metis create_file_def fst_conv fst_write_all file_handle.select_convs(1,3))
qed

lemma writer_holds_add:
  assumes "writer_holds b path xs wd" and "writer_add_chunk h d wd = Inr wd'"
  shows "writer_holds b path (xs @ [(h, d)]) wd'"
proof -
  obtain w fs where wd: "wd = (w, fs)" by fastforce
  obtain g fs' where g: "write_all d (w_file w, fs) = (g, fs')" by fastforce
  have "at_end (g, fs') ((header 0 @ concat (map snd xs)) @ d)"
    using at_end_write [of "(w_file w, fs)" "header 0 @ concat (map snd xs)" d] assms(1) g
    by (simp add: writer_holds_def wd)
  moreover have "fh_name g = fh_name (w_file w)" "fh_readable g = fh_readable (w_file w)"
    using g fst_write_all [of d "(w_file w, fs)"] by simp_all
  ultimately show ?thesis
    using assms g by (auto simp add: writer_holds_def writer_add_chunk_def wd Let_def layout_append
        split: if_splits)
qed

lemma writer_holds_adds:
  "writer_holds b path xs wd \<Longrightarrow> writer_adds ys wd = Inr wd' \<Longrightarrow> writer_holds b path (xs @ ys) wd'"
proof (induction ys wd arbitrary: xs rule: writer_adds.induct)
  case (1 wd)
  then show ?case by simp
next
  case (2 h d ys wd)
  then obtain w1 where w1: "writer_add_chunk h d wd = Inr w1" "writer_adds ys w1 = Inr wd'"
    by (auto simp add: result_simps)
  from "2.IH" [OF writer_holds_add [OF "2.prems"(1) w1(1)] w1(2)] show ?case by simp
qed

section \<open>Finalizing\<close>

definition image :: "u64 \<Rightarrow> (content_hash \<times> bytes) list \<Rightarrow> bytes \<Rightarrow> bytes" where
  "image n xs footer = header n @ concat (map snd xs) @ concat (map entry_bytes (layout 26 xs)) @ footer"

lemma finalize_unreadable:
  assumes "writer_holds False path xs wd"
  shows "fst (writer_finalize blake3 wd) = Inl (CasIo NotReadable) \<and>
    hm_get (snd (writer_finalize blake3 wd)) path = Some (image 0 xs [])"
proof -
  obtain w fs where wd: "wd = (w, fs)" by fastforce
  let ?hf = "fold write_entry (w_entries w) (w_file w, fs)"
  from write_entries [of "(w_file w, fs)" "header 0 @ concat (map snd xs)" "w_entries w"] assms
  have e: "at_end ?hf (image 0 xs [])" "fh_name (fst ?hf) = path" "\<not> fh_readable (fst ?hf)"
    by (simp_all add: writer_holds_def wd image_def)
  then have "hash_loop [] (seek_start 0 ?hf) = Inl (CasIo NotReadable)"
    by (intro hash_loop_unreadable) (simp add: seek_start_def)
  with e show ?thesis
    by (simp add: writer_finalize_def wd Let_def seek_start_def at_end_def)
qed

lemma finalize_readable:
  assumes "writer_holds True path xs wd"
  shows "\<exists>fs'. writer_finalize blake3 wd = (open_reader path fs', fs') \<and>
    hm_get fs' path = Some (image (word_of_nat (length xs)) xs (blake3 (image 0 xs [])))"
proof -
  obtain w fs where wd: "wd = (w, fs)" by fastforce
  let ?hf = "fold write_entry (w_entries w) (w_file w, fs)"
  let ?c = "image 0 xs []"
  from write_entries [of "(w_file w, fs)" "header 0 @ concat (map snd xs)" "w_entries w"] assms
  have e: "at_end ?hf ?c" "fh_name (fst ?hf) = path" "fh_readable (fst ?hf)"
    by (simp_all add: writer_holds_def wd image_def)
  have hl: "hash_loop [] (seek_start 0 ?hf) = Inr (?c, (fst ?hf)\<lparr>fh_pos := length ?c\<rparr>)"
    using hash_loop_all [of "seek_start 0 ?hf" ?c "[]"] e at_end_content [OF e(1)]
    by (simp add: seek_start_def)
  let ?h3 = "write_all (blake3 ?c) ((fst ?hf)\<lparr>fh_pos := length ?c\<rparr>, snd ?hf)"
  have a3: "at_end ?h3 (?c @ blake3 ?c)"
    by (rule at_end_write) (use e in \<open>simp add: at_end_def\<close>)
  have n3: "fh_name (fst ?h3) = path" using e by simp
  let ?h4 = "write_all (u64_le (word_of_nat (length (w_entries w)))) (seek_start 18 ?h3)"
  have "hm_get (snd ?h4) path = Some (overwrite 18 (u64_le (word_of_nat (length xs))) (?c @ blake3 ?c))"
    using a3 n3 assms at_end_content [OF a3]
    by (simp add: write_all_def seek_start_def at_end_def hm.get_put writer_holds_def wd)
  moreover have "overwrite 18 (u64_le k) (?c @ blake3 ?c) = image k xs (blake3 ?c)" for k
    by (simp add: overwrite_def image_def header_def)
  moreover have "writer_finalize blake3 wd = (open_reader path (snd ?h4), snd ?h4)"
    using hl assms by (simp add: writer_finalize_def wd Let_def seek_start_def writer_holds_def)
  ultimately show ?thesis by auto
qed

section \<open>Reading an image\<close>

lemma read_at_middle: "p = length a \<Longrightarrow> n = length b \<Longrightarrow> read_at p n (a @ b @ c) = Inr b"
  by (simp add: read_at_def)

lemma read_entries_table:
  "\<forall>e\<in>set es. length (pe_hash e) = 32 \<Longrightarrow>
   read_entries (length es) (length pre) (pre @ concat (map entry_bytes es) @ post) (m, sz) =
     Inr ((hm_extend (map (\<lambda>e. (pe_hash e, e)) es) m, sz + sum_list (map (\<lambda>e. ucast (pe_size e)) es)),
          length pre + 44 * length es)"
proof (induction es arbitrary: pre m sz)
  case Nil
  then show ?case by simp
next
  case (Cons e es)
  let ?post = "concat (map entry_bytes es) @ post"
  let ?c = "pre @ concat (map entry_bytes (e # es)) @ post"
  have h: "length (pe_hash e) = 32" using Cons.prems by simp
  have "read_at (length pre) 32 ?c = Inr (pe_hash e)"
    using read_at_middle [of _ pre 32 "pe_hash e" "u64_le (pe_offset e) @ u32_le (pe_size e) @ ?post"] h
    by (simp add: entry_bytes_def)
  moreover have "read_at (length pre + 32) 8 ?c = Inr (u64_le (pe_offset e))"
    using read_at_middle [of _ "pre @ pe_hash e" 8 "u64_le (pe_offset e)" "u32_le (pe_size e) @ ?post"] h
    by (simp add: entry_bytes_def)
  moreover have "read_at (length pre + 40) 4 ?c = Inr (u32_le (pe_size e))"
    using read_at_middle [of _ "pre @ pe_hash e @ u64_le (pe_offset e)" 4 "u32_le (pe_size e)" ?post] h
    by (simp add: entry_bytes_def)
  moreover have "read_entries (length es) (length pre + 44) ?c
      (hm_put (pe_hash e) e m, sz + ucast (pe_size e)) =
    Inr ((hm_extend (map (\<lambda>e. (pe_hash e, e)) es) (hm_put (pe_hash e) e m),
      sz + ucast (pe_size e) + sum_list (map (\<lambda>e. ucast (pe_size e)) es)),
      length pre + 44 + 44 * length es)"
  proof -
    have "length (entry_bytes e) = 44" and "?c = (pre @ entry_bytes e) @ ?post"
      using h by (simp_all add: entry_bytes_def)
    then show ?thesis
      using Cons.IH [of "pre @ entry_bytes e" "hm_put (pe_hash e) e m" "sz + ucast (pe_size e)"] Cons.prems
      by simp
  qed
  ultimately show ?case by (simp add: Let_def add.assoc)
qed

lemma open_image:
  assumes "hm_get fs path = Some (image (word_of_nat (length xs)) xs footer)"
    and "length footer = 32" and "\<forall>(h, d)\<in>set xs. length h = 32"
    and "length (image (word_of_nat (length xs)) xs footer) < 2 ^ 64"
  shows "\<exists>r. open_reader path fs = Inr r \<and> rd_path r = path \<and>
    rd_entries r = hm_collect (map (\<lambda>e. (pe_hash e, e)) (layout 26 xs))"
proof -
  let ?D = "concat (map snd xs)" and ?n = "length xs"
  let ?T = "concat (map entry_bytes (layout 26 xs))"
  let ?c = "image (word_of_nat ?n) xs footer"
  have hs: "\<forall>e\<in>set (layout 26 xs). length (pe_hash e) = 32"
  proof
    fix e assume "e \<in> set (layout 26 xs)"
    then have "pe_hash e \<in> set (map pe_hash (layout 26 xs))"
      unfolding set_map by (rule imageI)
    then show "length (pe_hash e) = 32" unfolding layout_hashes using assms(3) by auto
  qed
  have "length (concat (map entry_bytes es)) = 44 * length es"
    if "\<forall>e\<in>set es. length (pe_hash e) = 32" for es
    using that by (induction es) (auto simp add: entry_bytes_def)
  from this [OF hs] have T: "length ?T = 44 * ?n" by simp
  have len: "length ?c = 26 + length ?D + 44 * ?n + 32"
    using T assms(2) by (simp add: image_def)
  have n: "unat (word_of_nat ?n :: u64) = ?n"
    using assms(4) len by (intro unat_of_nat_u64) simp
  have off: "unat (word_of_nat (length ?c) - PACKFILE_FOOTER_SIZE -
      word_of_nat ?n * PACKFILE_ENTRY_SIZE :: u64) = length (header (word_of_nat ?n) @ ?D)"
  proof -
    have "(word_of_nat (length ?c) - PACKFILE_FOOTER_SIZE - word_of_nat ?n * PACKFILE_ENTRY_SIZE :: u64) =
        word_of_nat (26 + length ?D)"
      unfolding len PACKFILE_FOOTER_SIZE_def PACKFILE_ENTRY_SIZE_def by simp
    then show ?thesis
      using assms(4) len by (simp only: unat_of_nat_u64) (simp add: unat_of_nat)
  qed
  have "read_at 0 14 ?c = Inr PACKFILE_MAGIC"
    using read_at_middle [of 0 "[]" 14 PACKFILE_MAGIC] by (simp add: image_def header_def)
  moreover have "read_at 14 4 ?c = Inr (u32_le PACKFILE_VERSION)"
    using read_at_middle [of 14 PACKFILE_MAGIC 4 "u32_le PACKFILE_VERSION"]
    by (simp add: image_def header_def)
  moreover have "read_at 18 8 ?c = Inr (u64_le (word_of_nat ?n))"
    using read_at_middle [of 18 "PACKFILE_MAGIC @ u32_le PACKFILE_VERSION" 8 "u64_le (word_of_nat ?n)"]
    by (simp add: image_def header_def)
  moreover have "read_entries ?n (length (header (word_of_nat ?n) @ ?D)) ?c ([], 0) =
      Inr ((hm_collect (map (\<lambda>e. (pe_hash e, e)) (layout 26 xs)),
        sum_list (map (\<lambda>e. ucast (pe_size e)) (layout 26 xs))),
        length (header (word_of_nat ?n) @ ?D) + 44 * ?n)"
    using read_entries_table [OF hs, of "header (word_of_nat ?n) @ ?D" footer "[]" 0]
    by (simp add: image_def hm_collect_def)
  moreover have "read_at (length (header (word_of_nat ?n) @ ?D) + 44 * ?n) 32 ?c = Inr footer"
    using read_at_middle [of _ "header (word_of_nat ?n) @ ?D @ ?T" 32 footer "[]"] T assms(2)
    by (simp add: image_def add.assoc)
  ultimately show ?thesis
    using assms(1) n off by (simp add: open_reader_def Let_def)
qed

lemma read_image_chunk:
  assumes f: "hm_get fs path = Some (image k xs footer)"
    and r: "rd_path r = path" "rd_entries r = hm_collect (map (\<lambda>e. (pe_hash e, e)) (layout 26 xs))"
    and x: "(h, d) \<in> set xs" and "distinct (map fst xs)" and "blake3 d = h"
    and size: "length (image k xs footer) < 2 ^ 64" and "length d < 2 ^ 32"
  shows "read_chunk blake3 fs h r = Inr d"
proof -
  obtain ys zs where xs: "xs = ys @ (h, d) # zs" using x by (meson split_list)
  let ?o = "26 + length (concat (map snd ys))"
  let ?e = "new_entry h (word_of_nat ?o) (word_of_nat (length d))"
  have "?e \<in> set (layout 26 xs)" by (simp add: xs layout_append)
  moreover have "distinct (map pe_hash (layout 26 xs))" using assms(5) by simp
  ultimately have "hm_get (rd_entries r) h = Some ?e"
    using hm_get_collect_distinct [of pe_hash "layout 26 xs" ?e] r(2) by simp
  moreover have "unat (word_of_nat ?o :: u64) = ?o"
    using size by (intro unat_of_nat_u64) (simp add: image_def xs)
  moreover have "unat (word_of_nat (length d) :: u32) = length d"
    using assms(8) by (intro unat_of_nat_u32) simp
  moreover have "read_at ?o (length d) (image k xs footer) = Inr d"
    using read_at_middle [of ?o "header k @ concat (map snd ys)" "length d" d]
    by (simp add: image_def xs)
  ultimately show ?thesis
    using f r(1) assms(6) by (simp add: read_chunk_def)
qed

section \<open>The manager as a machine\<close>

datatype manager_op =
    AddChunk nat content_hash bytes
  | StorePacked nat content_hash bytes
  | Flush nat
  | Finalize nat

fun manager_step :: "(bytes \<Rightarrow> bytes) \<Rightarrow> manager_op \<Rightarrow> packfile_manager \<Rightarrow> packfile_manager" where
  "manager_step b (AddChunk now h d) m = snd (manager_add_chunk b now h d m)"
| "manager_step b (StorePacked now h d) m = snd (store_packed b now h d m)"
| "manager_step b (Flush now) m = snd (flush_packfile b now m)"
| "manager_step b (Finalize now) m = snd (manager_finalize b now m)"

text \<open>No pack of this manager has a reader, and its writer's handle is write-only.\<close>

definition no_readers :: "packfile_manager \<Rightarrow> bool" where
  "no_readers m \<longleftrightarrow> pack_readers m = [] \<and> hm_wf (pm_dir m) \<and>
     (case current_writer m of None \<Rightarrow> True
      | Some w \<Rightarrow> \<exists>xs. writer_holds False (w_path w) xs (w, pm_dir m))"

lemma w_path_holds: "writer_holds b p xs (w, fs) \<Longrightarrow> w_path w = p"
  by (simp add: writer_holds_def)

lemma no_readers_get_or_create: "no_readers m \<Longrightarrow> no_readers (get_or_create_current_writer now m)"
proof (cases "current_writer m")
  case None
  assume m: "no_readers m"
  obtain w fs where n: "new_writer (''pack-'' @ hex16 now @ ''.pack'') (pm_dir m) = (w, fs)" by fastforce
  from m have "hm_wf (pm_dir m)" by (simp add: no_readers_def)
  from writer_holds_new [OF this, of "''pack-'' @ hex16 now @ ''.pack''"] n
  have "writer_holds False (''pack-'' @ hex16 now @ ''.pack'') [] (w, fs)" by simp
  moreover from this have "hm_wf fs" by (simp add: writer_holds_def at_end_def)
  ultimately show ?thesis
    using m None n w_path_holds
    by (fastforce simp add: get_or_create_current_writer_def create_new_pack_writer_def no_readers_def)
qed (simp add: get_or_create_current_writer_def)

lemma no_readers_current_add: "no_readers m \<Longrightarrow> no_readers (snd (current_add_chunk h d m))"
proof (cases "current_writer m")
  case (Some w)
  assume m: "no_readers m"
  then obtain xs where xs: "writer_holds False (w_path w) xs (w, pm_dir m)"
    by (auto simp add: no_readers_def Some)
  show ?thesis
  proof (cases "writer_add_chunk h d (w, pm_dir m)")
    case (Inr wd)
    obtain w1 fs where wd: "wd = (w1, fs)" by fastforce
    from writer_holds_add [OF xs] Inr wd
    have w1: "writer_holds False (w_path w) (xs @ [(h, d)]) (w1, fs)" by simp
    then have "hm_wf fs" by (simp add: writer_holds_def at_end_def)
    with m w1 w_path_holds [OF w1] show ?thesis
      by (auto simp add: current_add_chunk_def Some Inr wd no_readers_def)
  qed (use m in \<open>simp add: current_add_chunk_def Some\<close>)
qed (simp add: current_add_chunk_def)

lemma no_readers_finalize_current: "no_readers m \<Longrightarrow> no_readers (snd (finalize_current_pack b m))"
proof (cases "current_writer m")
  case (Some w)
  assume m: "no_readers m"
  then obtain xs where xs: "writer_holds False (w_path w) xs (w, pm_dir m)"
    by (auto simp add: no_readers_def Some)
  have at: "at_end (fold write_entry (w_entries w) (w_file w, pm_dir m)) (image 0 xs [])"
    using write_entries [of "(w_file w, pm_dir m)" "header 0 @ concat (map snd xs)" "w_entries w"] xs
    by (simp add: writer_holds_def image_def)
  from finalize_unreadable [OF xs, of b]
  obtain fs where f: "writer_finalize b (w, pm_dir m) = (Inl (CasIo NotReadable), fs)"
    by (metis prod.collapse)
  have "hash_loop [] (seek_start 0 (fold write_entry (w_entries w) (w_file w, pm_dir m))) = Inl (CasIo NotReadable)"
    using write_entries [of "(w_file w, pm_dir m)" "header 0 @ concat (map snd xs)" "w_entries w"] xs
    by (intro hash_loop_unreadable) (simp add: writer_holds_def seek_start_def)
  with f at have "hm_wf fs"
    by (auto simp add: writer_finalize_def Let_def seek_start_def at_end_def)
  with m f show ?thesis
    by (simp add: finalize_current_pack_def Some no_readers_def Let_def)
qed (simp add: finalize_current_pack_def)

lemma no_readers_finalize_if_full: "no_readers m \<Longrightarrow> no_readers (snd (finalize_if_full b m))"
  by (simp add: finalize_if_full_def no_readers_finalize_current)

lemma no_readers_add_all: "no_readers m \<Longrightarrow> no_readers (snd (add_all xs m))"
proof (induction xs m rule: add_all.induct)
  case (2 h d xs m)
  then show ?case
    using no_readers_current_add [OF "2.prems", of h d]
    by (auto split: prod.splits sum.splits)
qed simp

lemma no_readers_pending [simp]: "no_readers (m\<lparr>pending_chunks := p\<rparr>) = no_readers m"
  by (cases "current_writer m") (simp_all add: no_readers_def)

lemma no_readers_flush:
  assumes "no_readers m"
  shows "no_readers (snd (flush_packfile b now m))"
proof -
  have "no_readers (snd (add_all (pending_chunks m)
      (get_or_create_current_writer now (m\<lparr>pending_chunks := []\<rparr>))))"
    by (intro no_readers_add_all no_readers_get_or_create) (simp add: assms)
  then show ?thesis
    using assms no_readers_finalize_if_full
    by (auto simp add: flush_packfile_def split: prod.splits sum.splits)
qed

lemma no_readers_step: "no_readers m \<Longrightarrow> no_readers (manager_step b op m)"
proof (cases op)
  case (StorePacked now h d)
  assume "no_readers m"
  then have "no_readers (snd (current_add_chunk h d (get_or_create_current_writer now m)))"
    by (intro no_readers_current_add no_readers_get_or_create)
  with StorePacked no_readers_finalize_if_full show ?thesis
    by (auto simp add: store_packed_def split: prod.splits sum.splits)
next
  case (Finalize now)
  assume m: "no_readers m"
  with no_readers_flush [of m b now] Finalize no_readers_finalize_current show ?thesis
    by (auto simp add: manager_finalize_def split: prod.splits sum.splits if_splits)
qed (simp_all add: manager_add_chunk_def Let_def no_readers_flush)

interpretation manager: machine "manager_step b" no_readers for b
  by unfold_locales (rule no_readers_step)

section \<open>Properties\<close>


text \<open>Sample chunks for the instances below, with a hash of 32 bytes that starts with the data.\<close>

definition pad_hash :: "bytes \<Rightarrow> bytes" where
  "pad_hash x = take 32 (x @ replicate 32 0)"

definition sample_chunks :: "(content_hash \<times> bytes) list" where
  "sample_chunks = [(pad_hash [1, 2], [1, 2]), (pad_hash [3], [3])]"

lemma sample_adds: "\<exists>w fs. writer_adds sample_chunks (new_writer ''p.pack'' []) = Inr (w, fs)"
proof -
  obtain w fs where n: "new_writer ''p.pack'' [] = (w, fs)" by fastforce
  then show ?thesis
    by (simp add: sample_chunks_def writer_add_chunk_def Let_def split: prod.splits)
qed


text \<open>As it is, finalizing always fails: \<open>File::create\<close> opens the pack write-only, so the
  loop that hashes it gets an I/O error, and the file left behind holds the data and the
  entry table under an entry count of 0 and without a footer.\<close>

theorem finalize_always_fails:
  assumes "hm_wf fs" and "writer_adds xs (new_writer path fs) = Inr wd"
  shows "fst (writer_finalize blake3 wd) = Inl (CasIo NotReadable) \<and>
    hm_get (snd (writer_finalize blake3 wd)) path = Some (image 0 xs [])"
proof -
  have "writer_holds False path ([] @ xs) wd"
    by (rule writer_holds_adds [OF writer_holds_new [OF assms(1)] assms(2)])
  then show ?thesis using finalize_unreadable by auto
qed

theorem finalize_always_fails_witness:
  "\<exists>wd. writer_adds sample_chunks (new_writer ''p.pack'' []) = Inr wd \<and>
     fst (writer_finalize pad_hash wd) = Inl (CasIo NotReadable)"
proof -
  obtain w fs1 where a: "writer_adds sample_chunks (new_writer ''p.pack'' []) = Inr (w, fs1)"
    using sample_adds by blast
  from finalize_always_fails [OF hm.wf_empty a, of pad_hash] a show ?thesis by blast
qed

text \<open>So a manager that started on an empty directory only ever reads back its pending
  chunks: whatever was added, stored, flushed or finalized, a chunk that has left the
  pending list is reported as absent.\<close>

theorem manager_reads_only_pending:
  assumes "iter_order it" and "iter_order dir_order"
  shows "read_packed blake3 it h (fold (manager_step blake3) ops (new_manager dir_order cfg [])) =
    Inr (map_option snd (find (\<lambda>(g, _). g = h)
      (pending_chunks (fold (manager_step blake3) ops (new_manager dir_order cfg [])))))"
proof -
  have "dir_order [] = []" using assms(2) by (metis iter_order_length length_0_conv list.size(3))
  then have "no_readers (new_manager dir_order cfg [])"
    by (simp add: no_readers_def new_manager_def load_existing_packs_def hm.wf_empty)
  then have "no_readers (fold (manager_step blake3) ops (new_manager dir_order cfg []))"
    by (rule manager.inv_fold)
  moreover have "it [] = []" using assms(1) by (metis iter_order_length length_0_conv list.size(3))
  ultimately show ?thesis
    by (auto simp add: read_packed_def no_readers_def split: option.splits)
qed

theorem manager_reads_only_pending_witness:
  "read_packed pad_hash rev [7] (fold (manager_step pad_hash)
     [AddChunk 1 [7] [7, 7], StorePacked 1 [8] [8]] (new_manager rev default_pack_config [])) = Inr (Some [7, 7]) \<and>
   read_packed pad_hash rev [8] (fold (manager_step pad_hash)
     [AddChunk 1 [7] [7, 7], StorePacked 1 [8] [8]] (new_manager rev default_pack_config [])) = Inr None"
proof -
  let ?m = "fold (manager_step pad_hash) [AddChunk 1 [7] [7, 7], StorePacked 1 [8] [8]]
    (new_manager rev default_pack_config [])"
  have p: "pending_chunks (snd (finalize_if_full b m)) = pending_chunks m" for b m
    by (auto simp add: finalize_if_full_def finalize_current_pack_def Let_def
        split: option.splits prod.splits sum.splits)
  have "pending_chunks (snd (store_packed b now h d m)) = pending_chunks m" for b now h d m
    using p by (auto simp add: store_packed_def current_add_chunk_def get_or_create_current_writer_def
        create_new_pack_writer_def split: option.splits prod.splits sum.splits)
  then have "pending_chunks ?m = [([7], [7, 7])]"
    by (simp add: manager_add_chunk_def should_flush_packfile_def new_manager_def
        load_existing_packs_def default_pack_config_def Let_def)
  then show ?thesis
    using manager_reads_only_pending [OF iter_order_rev iter_order_rev, of pad_hash _
        "[AddChunk 1 [7] [7, 7], StorePacked 1 [8] [8]]" default_pack_config]
    by simp
qed

text \<open>A short file crashes the memory-mapped reader: with one entry in its header and no room
  for the table the offset of the table wraps around, the bounds check passes and the slice
  panics, where the other reader returns an I/O error.\<close>

theorem short_pack_panics_mmap_reader:
  "let fs = [(''p.pack'', header 1 @ replicate 34 0)] in
   open_mmap ''p.pack'' fs = None \<and> open_reader ''p.pack'' fs = Inl (CasIo UnexpectedEof)"
proof -
  let ?c = "header 1 @ replicate 34 (0 :: u8)"
  have r: "read_at 0 14 ?c = Inr PACKFILE_MAGIC" "read_at 14 4 ?c = Inr (u32_le PACKFILE_VERSION)"
    "read_at 18 8 ?c = Inr (u64_le 1)"
    by (simp_all add: read_at_def header_def)
  have ra: "read_at 18446744073709551600 32 ?c = Inl (CasIo UnexpectedEof)"
    by (simp add: read_at_def)
  have "open_reader ''p.pack'' [(''p.pack'', ?c)] = Inl (CasIo UnexpectedEof)"
    using r ra by (simp add: open_reader_def hm_get_def Let_def PACKFILE_FOOTER_SIZE_def
        PACKFILE_ENTRY_SIZE_def)
  moreover have "open_mmap ''p.pack'' [(''p.pack'', ?c)] = None"
    by (simp add: open_mmap_def hm_get_def Let_def PACKFILE_HEADER_SIZE_def header_def
        PACKFILE_FOOTER_SIZE_def PACKFILE_ENTRY_SIZE_def word_slice_def subslice_def)
  ultimately show ?thesis by (simp add: Let_def)
qed

end
