(* ===== verification/Cas.thy ===== *)
theory Cas
  imports Packfile
begin

text \<open>
  The content store (\<open>landro-cas/src/storage.rs\<close>): objects as files under sharded paths,
  the atomic write and its recovery after a crash, the chunk cache, the deduplication
  index, the write batch and the packfile manager behind it.

  \<open>files\<close> maps the path of a file below \<open>objects\<close> (two shards and a name) to its content.
  The environment holds what is not under \<open>src/\<close>: BLAKE3 and its hex form, the compressors
  and the \<open>lru\<close> crate's cache, used through its operations.  I/O succeeds; a crash is a stop
  between the steps of an atomic write.  The loop that evicts cache entries may not end:
  its model is a partial function and \<open>None\<close> means that it (or, for a batch, one of the
  spawned writes) does not.  Runtime counters
  (metrics) and fsync, which change no content, are left out.
\<close>

section \<open>Environment, configuration and state\<close>

record cached_chunk =
  cc_data :: bytes
  cc_size :: u64
  cc_access_count :: nat

record 'c lru_ops =
  lru_new :: 'c
  lru_get :: "'c \<Rightarrow> content_hash \<Rightarrow> cached_chunk option"
  lru_touch :: "content_hash \<Rightarrow> (cached_chunk \<Rightarrow> cached_chunk) \<Rightarrow> 'c \<Rightarrow> 'c"
  lru_put :: "content_hash \<Rightarrow> cached_chunk \<Rightarrow> 'c \<Rightarrow> 'c"
  lru_pop :: "'c \<Rightarrow> (content_hash \<times> cached_chunk) option \<times> 'c"

datatype compression_type = NoCompression | Lz4 | Zstd int | Snappy

record 'c cas_env =
  e_blake3 :: "bytes \<Rightarrow> bytes"
  e_hex :: "bytes \<Rightarrow> string"
  e_lz4 :: "bytes \<Rightarrow> bytes"
  e_zstd :: "int \<Rightarrow> bytes \<Rightarrow> string + bytes"
  e_snappy :: "bytes \<Rightarrow> string + bytes"
  e_lru :: "'c lru_ops"
  e_readers :: "(string \<times> packfile_reader) list \<Rightarrow> (string \<times> packfile_reader) list"

record cas_config =
  compression :: compression_type
  enable_packfiles :: bool
  enable_recovery :: bool
  max_size_bytes :: u64

definition default_cas_config :: cas_config where
  "default_cas_config = \<lparr>compression = NoCompression, enable_packfiles = False, enable_recovery = True,
     max_size_bytes = 512 * 1024 * 1024\<rparr>"

record object_ref =
  or_hash :: content_hash
  or_size :: u64

type_synonym obj_path = "string \<times> string \<times> string"
type_synonym files = "(obj_path, bytes) hmap"

record 'c store =
  s_config :: cas_config
  s_files :: files
  s_packs :: "packfile_manager option"
  s_cache :: 'c
  s_cache_total :: u64
  s_pending :: "(content_hash \<times> bytes) list"
  s_pending_size :: nat
  s_last_flush :: nat
  s_dedup :: "(content_hash, object_ref) hmap"

definition MAX_OBJECT_SIZE :: nat where
  "MAX_OBJECT_SIZE = 100 * 1024 * 1024"

definition validate_object_size :: "nat \<Rightarrow> string + unit" where
  "validate_object_size n =
     (if n > MAX_OBJECT_SIZE
      then Inl (''Object size '' @ show_nat n @ '' exceeds maximum '' @ show_nat MAX_OBJECT_SIZE)
      else Inr ())"

definition validate_content_hash :: "string \<Rightarrow> string + unit" where
  "validate_content_hash h =
     (if length h \<noteq> 64
      then Inl (''Invalid hash format: Invalid length: '' @ show_nat (length h) @ '' (expected 64)'')
      else if \<not> list_all is_ascii_hexdigit (utf8_chars h)
      then Inl ''Invalid hash format: Not valid hexadecimal''
      else Inr ())"

definition object_size_ok :: "bytes \<Rightarrow> cas_error + unit" where
  "object_size_ok data =
     map_err (\<lambda>e. InvalidOperation (''Object validation failed: '' @ e)) (validate_object_size (length data))"

section \<open>Files\<close>

definition object_path :: "'c cas_env \<Rightarrow> content_hash \<Rightarrow> obj_path" where
  "object_path env h = (let hex = e_hex env h in (take 2 hex, take 2 (drop 2 hex), drop 4 hex))"

definition temp_of :: "obj_path \<Rightarrow> obj_path" where
  "temp_of p = (case p of (a, b, f) \<Rightarrow> (a, b, f @ ''.tmp''))"

text \<open>The directory contents an atomic write passes through: the temporary file created, each
  prefix of the data written, and the rename.\<close>

definition rename_file :: "obj_path \<Rightarrow> obj_path \<Rightarrow> files \<Rightarrow> files" where
  "rename_file p q fs = (case hm_get fs p of None \<Rightarrow> fs | Some c \<Rightarrow> hm_put q c (hm_del p fs))"

definition atomic_states :: "obj_path \<Rightarrow> bytes \<Rightarrow> files \<Rightarrow> files list" where
  "atomic_states final_path data fs =
     fs # map (\<lambda>k. hm_put (temp_of final_path) (take k data) fs) [0..<length data + 1]
     @ [rename_file (temp_of final_path) final_path (hm_put (temp_of final_path) data fs)]"

definition write_atomic :: "obj_path \<Rightarrow> bytes \<Rightarrow> files \<Rightarrow> files" where
  "write_atomic final_path data fs = last (atomic_states final_path data fs)"

section \<open>Recovery\<close>

definition is_temp :: "obj_path \<Rightarrow> bool" where
  "is_temp p = (case p of (_, _, f) \<Rightarrow> 4 < length f \<and> drop (length f - 4) f = ''.tmp'')"

definition final_of :: "obj_path \<Rightarrow> obj_path" where
  "final_of p = (case p of (a, b, f) \<Rightarrow> (a, b, take (length f - 4) f))"

record recovery_stats =
  recovered :: nat
  cleaned :: nat

definition recover_temp_file ::
  "'c cas_env \<Rightarrow> obj_path \<Rightarrow> files \<times> recovery_stats \<Rightarrow> files \<times> recovery_stats" where
  "recover_temp_file env p acc =
     (let (fs, st) = acc; final_path = final_of p in
      if hm_has fs final_path then (hm_del p fs, st\<lparr>cleaned := cleaned st + 1\<rparr>)
      else case hm_get fs p of
        None \<Rightarrow> (fs, st\<lparr>cleaned := cleaned st + 1\<rparr>)
      | Some data \<Rightarrow>
          if object_path env (e_blake3 env data) = final_path
          then (rename_file p final_path fs, st\<lparr>recovered := recovered st + 1\<rparr>)
          else (hm_del p fs, st\<lparr>cleaned := cleaned st + 1\<rparr>))"

text \<open>\<open>order\<close> is the order in which the directory walk meets the temporary files.\<close>

definition recover_files ::
  "'c cas_env \<Rightarrow> (obj_path list \<Rightarrow> obj_path list) \<Rightarrow> files \<Rightarrow> files \<times> recovery_stats" where
  "recover_files env order fs =
     fold (recover_temp_file env) (order (filter is_temp (map fst fs)))
       (fs, \<lparr>recovered = 0, cleaned = 0\<rparr>)"

definition recover :: "'c cas_env \<Rightarrow> (obj_path list \<Rightarrow> obj_path list) \<Rightarrow> 'c store \<Rightarrow> 'c store" where
  "recover env order s = s\<lparr>s_files := fst (recover_files env order (s_files s))\<rparr>"

definition new_store ::
  "'c cas_env \<Rightarrow> (obj_path list \<Rightarrow> obj_path list) \<Rightarrow> cas_config \<Rightarrow> packfile_manager option \<Rightarrow> nat \<Rightarrow>
   files \<Rightarrow> 'c store" where
  "new_store env order cfg packs now fs =
     (let s = \<lparr>s_config = cfg, s_files = fs,
        s_packs = (if enable_packfiles cfg then packs else None),
        s_cache = lru_new (e_lru env), s_cache_total = 0, s_pending = [], s_pending_size = 0,
        s_last_flush = now, s_dedup = []\<rparr> in
      if enable_recovery cfg then recover env order s else s)"

section \<open>Reading and writing\<close>

definition read_from_packs :: "'c cas_env \<Rightarrow> content_hash \<Rightarrow> 'c store \<Rightarrow> bytes option" where
  "read_from_packs env h s =
     (if enable_packfiles (s_config s) then
        (case s_packs s of
           None \<Rightarrow> None
         | Some m \<Rightarrow>
             (case read_packed (e_blake3 env) (e_readers env) h m of Inr (Some d) \<Rightarrow> Some d | _ \<Rightarrow> None))
      else None)"

definition exists_object :: "'c cas_env \<Rightarrow> content_hash \<Rightarrow> 'c store \<Rightarrow> bool" where
  "exists_object env h s \<longleftrightarrow>
     hm_has (s_files s) (object_path env h) \<or> read_from_packs env h s \<noteq> None"

definition write_individual ::
  "'c cas_env \<Rightarrow> bytes \<Rightarrow> content_hash \<Rightarrow> 'c store \<Rightarrow> (cas_error + object_ref) \<times> 'c store" where
  "write_individual env data h s =
     (Inr \<lparr>or_hash = h, or_size = word_of_nat (length data)\<rparr>,
      s\<lparr>s_files := write_atomic (object_path env h) data (s_files s)\<rparr>)"

definition write_object :: "'c cas_env \<Rightarrow> bytes \<Rightarrow> 'c store \<Rightarrow> (cas_error + object_ref) \<times> 'c store" where
  "write_object env data s =
     (case object_size_ok data of
        Inl e \<Rightarrow> (Inl e, s)
      | Inr _ \<Rightarrow>
          let h = e_blake3 env data in
          case hm_get (s_dedup s) h of
            Some r \<Rightarrow> (Inr r, s)
          | None \<Rightarrow>
              if exists_object env h s then
                let r = \<lparr>or_hash = h, or_size = word_of_nat (length data)\<rparr> in
                (Inr r, s\<lparr>s_dedup := hm_put h r (s_dedup s)\<rparr>)
              else write_individual env data h s)"

definition read_individual :: "'c cas_env \<Rightarrow> content_hash \<Rightarrow> 'c store \<Rightarrow> cas_error + bytes" where
  "read_individual env h s =
     (case hm_get (s_files s) (object_path env h) of
        None \<Rightarrow> Inl (ObjectNotFound h)
      | Some data \<Rightarrow>
          if length data = 0 then Inl (CorruptObject ''Object file is empty'')
          else if e_blake3 env data \<noteq> h then Inl (HashMismatch h (e_blake3 env data))
          else Inr data)"

text \<open>Evict until the new entry fits; with an empty cache that does not fit it loops forever.\<close>

partial_function (option) evict_loop ::
  "'c cas_env \<Rightarrow> u64 \<Rightarrow> u64 \<Rightarrow> 'c \<Rightarrow> u64 \<Rightarrow> ('c \<times> u64) option" where
  "evict_loop env max_size sz cache total_size =
     (if total_size + sz > max_size then
        (case lru_pop (e_lru env) cache of
           (Some (_, evicted), c) \<Rightarrow> evict_loop env max_size sz c (total_size - cc_size evicted)
         | (None, c) \<Rightarrow> evict_loop env max_size sz c total_size)
      else Some (cache, total_size))"

definition cache_insert :: "'c cas_env \<Rightarrow> content_hash \<Rightarrow> bytes \<Rightarrow> 'c store \<Rightarrow> 'c store option" where
  "cache_insert env h data s =
     (let cached = \<lparr>cc_data = data, cc_size = word_of_nat (length data), cc_access_count = 1\<rparr> in
      map_option (\<lambda>(c, t). s\<lparr>s_cache := lru_put (e_lru env) h cached c,
          s_cache_total := t + cc_size cached\<rparr>)
        (evict_loop env (max_size_bytes (s_config s)) (cc_size cached) (s_cache s) (s_cache_total s)))"

definition read_object ::
  "'c cas_env \<Rightarrow> content_hash \<Rightarrow> 'c store \<Rightarrow> ((cas_error + bytes) \<times> 'c store) option" where
  "read_object env h s =
     (case map_err (\<lambda>e. InvalidOperation (''Hash validation failed: '' @ e))
             (validate_content_hash (e_hex env h)) of
        Inl e \<Rightarrow> Some (Inl e, s)
      | Inr _ \<Rightarrow>
          (case lru_get (e_lru env) (s_cache s) h of
             Some cached \<Rightarrow>
               Some (Inr (cc_data cached),
                 s\<lparr>s_cache := lru_touch (e_lru env) h
                    (\<lambda>c. c\<lparr>cc_access_count := cc_access_count c + 1\<rparr>) (s_cache s)\<rparr>)
           | None \<Rightarrow>
               (case read_from_packs env h s of
                  Some d \<Rightarrow> Some (Inr d, s)
                | None \<Rightarrow>
                    (case read_individual env h s of
                       Inl e \<Rightarrow> Some (Inl e, s)
                     | Inr data \<Rightarrow> map_option (\<lambda>s1. (Inr data, s1)) (cache_insert env h data s)))))"

definition verify_object ::
  "'c cas_env \<Rightarrow> content_hash \<Rightarrow> 'c store \<Rightarrow> ((cas_error + bool) \<times> 'c store) option" where
  "verify_object env h s =
     map_option (\<lambda>(r, s1). (case r of
         Inr _ \<Rightarrow> Inr True
       | Inl (ObjectNotFound _) \<Rightarrow> Inr False
       | Inl (HashMismatch _ _) \<Rightarrow> Inr False
       | Inl e \<Rightarrow> Inl e, s1)) (read_object env h s)"

definition delete_object :: "'c cas_env \<Rightarrow> content_hash \<Rightarrow> 'c store \<Rightarrow> 'c store" where
  "delete_object env h s = s\<lparr>s_files := hm_del (object_path env h) (s_files s)\<rparr>"

definition clear_cache :: "'c cas_env \<Rightarrow> 'c store \<Rightarrow> 'c store" where
  "clear_cache env s = s\<lparr>s_cache := lru_new (e_lru env), s_cache_total := 0\<rparr>"

section \<open>The batch\<close>

definition compress_data :: "'c cas_env \<Rightarrow> cas_config \<Rightarrow> bytes \<Rightarrow> cas_error + (bytes \<times> bool)" where
  "compress_data env cfg data =
     (case compression cfg of
        NoCompression \<Rightarrow> Inr ([], False)
      | Lz4 \<Rightarrow> Inr (e_lz4 env data, True)
      | Zstd level \<Rightarrow> (case e_zstd env level data of
            Inr c \<Rightarrow> Inr (c, True) | Inl e \<Rightarrow> Inl (Internal (''Compression failed: '' @ e)))
      | Snappy \<Rightarrow> (case e_snappy env data of
            Inr c \<Rightarrow> Inr (c, True) | Inl e \<Rightarrow> Inl (Internal (''Compression failed: '' @ e))))"

definition write_individual_optimized ::
  "'c cas_env \<Rightarrow> bytes \<Rightarrow> content_hash \<Rightarrow> 'c store \<Rightarrow> ((cas_error + object_ref) \<times> 'c store) option" where
  "write_individual_optimized env data h s =
     (let r = \<lparr>or_hash = h, or_size = word_of_nat (length data)\<rparr> in
      if hm_has (s_files s) (object_path env h) then Some (Inr r, s)
      else case compress_data env (s_config s) data of
        Inl e \<Rightarrow> Some (Inl e, s)
      | Inr (compressed, was_compressed) \<Rightarrow>
          let to_write = (if was_compressed then compressed else data);
              s1 = s\<lparr>s_files := write_atomic (object_path env h) to_write (s_files s)\<rparr> in
          map_option (\<lambda>s2. (Inr r, s2\<lparr>s_dedup := hm_put h r (s_dedup s2)\<rparr>))
            (cache_insert env h data s1))"

text \<open>The spawned writes in the order they run; all of them run, the first error is returned.\<close>

fun write_all_pending ::
  "'c cas_env \<Rightarrow> (content_hash \<times> bytes) list \<Rightarrow> 'c store \<Rightarrow> ((cas_error + unit) \<times> 'c store) option" where
  "write_all_pending env [] s = Some (Inr (), s)"
| "write_all_pending env ((h, d) # xs) s =
     Option.bind (write_individual_optimized env d h s) (\<lambda>(r, s1).
     map_option (\<lambda>(r2, s2). (and_then r (\<lambda>_. r2), s2)) (write_all_pending env xs s1))"

definition flush_batch_internal ::
  "'c cas_env \<Rightarrow> nat \<Rightarrow> 'c store \<Rightarrow> ((cas_error + unit) \<times> 'c store) option" where
  "flush_batch_internal env now s =
     (if s_pending s = [] then Some (Inr (), s)
      else map_option (\<lambda>(r, s1). (r, if is_ok r then s1\<lparr>s_pending_size := 0, s_last_flush := now\<rparr> else s1))
        (write_all_pending env (s_pending s) (s\<lparr>s_pending := []\<rparr>)))"

definition flush_batch :: "'c cas_env \<Rightarrow> nat \<Rightarrow> 'c store \<Rightarrow> ((cas_error + unit) \<times> 'c store) option" where
  "flush_batch env now s = flush_batch_internal env now s"

definition should_flush :: "nat \<Rightarrow> 'c store \<Rightarrow> bool" where
  "should_flush now s \<longleftrightarrow> length (s_pending s) \<ge> 100 \<or> s_pending_size s \<ge> 10 * 1024 * 1024 \<or>
     now - s_last_flush s \<ge> 100000000"

fun add_to_batch ::
  "'c cas_env \<Rightarrow> (bytes \<times> content_hash option) list \<Rightarrow> object_ref list \<Rightarrow> 'c store \<Rightarrow>
   (cas_error + object_ref list) \<times> 'c store" where
  "add_to_batch env [] rs s = (Inr rs, s)"
| "add_to_batch env ((data, expected) # xs) rs s =
     (case object_size_ok data of
        Inl e \<Rightarrow> (Inl e, s)
      | Inr _ \<Rightarrow>
          let h = (case expected of Some h \<Rightarrow> h | None \<Rightarrow> e_blake3 env data) in
          case hm_get (s_dedup s) h of
            Some r \<Rightarrow> add_to_batch env xs (rs @ [r]) s
          | None \<Rightarrow>
              add_to_batch env xs (rs @ [\<lparr>or_hash = h, or_size = word_of_nat (length data)\<rparr>])
                (s\<lparr>s_pending := s_pending s @ [(h, data)],
                   s_pending_size := s_pending_size s + length data\<rparr>))"

definition write_batch ::
  "'c cas_env \<Rightarrow> nat \<Rightarrow> (bytes \<times> content_hash option) list \<Rightarrow> 'c store \<Rightarrow>
   ((cas_error + object_ref list) \<times> 'c store) option" where
  "write_batch env now chunks s =
     (case add_to_batch env chunks [] s of
        (Inl e, s1) \<Rightarrow> Some (Inl e, s1)
      | (Inr rs, s1) \<Rightarrow>
          if should_flush now s1
          then map_option (\<lambda>(r, s2). (and_then r (\<lambda>_. Inr rs), s2)) (flush_batch_internal env now s1)
          else Some (Inr rs, s1))"

section \<open>The interface of a chunk store\<close>

text \<open>What a client relies on: what is put can be got, whatever is put afterwards, and what is
  got has the hash it was asked for.\<close>

locale chunk_store =
  fixes put :: "bytes \<Rightarrow> 's \<Rightarrow> 's"
    and get :: "content_hash \<Rightarrow> 's \<Rightarrow> cas_error + bytes"
    and digest :: "bytes \<Rightarrow> content_hash"
    and good :: "bytes \<Rightarrow> bool"
    and ok :: "'s \<Rightarrow> bool"
  assumes ok_put: "ok s \<Longrightarrow> ok (put d s)"
    and get_sound: "get h s = Inr d \<Longrightarrow> digest d = h"
    and get_put_keeps: "ok s \<Longrightarrow> get h s = Inr d \<Longrightarrow> get h (put e s) = Inr d"
    and get_put: "ok s \<Longrightarrow> good d \<Longrightarrow> \<exists>x. get (digest d) (put d s) = Inr x"
begin

lemma ok_puts: "ok s \<Longrightarrow> ok (fold put ds s)"
  by (induction ds arbitrary: s) (auto intro: ok_put)

lemma get_puts_keeps: "ok s \<Longrightarrow> get h s = Inr d \<Longrightarrow> get h (fold put ds s) = Inr d"
  by (induction ds arbitrary: s) (auto intro: ok_put get_put_keeps)

lemma get_puts:
  "ok s \<Longrightarrow> d \<in> set ds \<Longrightarrow> good d \<Longrightarrow>
   \<exists>x. get (digest d) (fold put ds s) = Inr x \<and> digest x = digest d"
proof (induction ds arbitrary: s)
  case Nil
  then show ?case by simp
next
  case (Cons e ds)
  show ?case
  proof (cases "d \<in> set ds")
    case True
    with Cons show ?thesis using ok_put by simp
  next
    case False
    with Cons.prems have "d = e" by simp
    with get_put [OF Cons.prems(1,3)] obtain x where "get (digest d) (put e s) = Inr x" by blast
    then have "get (digest d) (fold put (e # ds) s) = Inr x"
      using get_puts_keeps [OF ok_put [OF Cons.prems(1)]] by simp
    with get_sound show ?thesis by blast
  qed
qed

end

section \<open>Well-formed stores\<close>

text \<open>What BLAKE3 and its hex form are relied on for: 32 bytes, 64 hexadecimal digits, and
  different digits for different hashes.\<close>

definition env_ok :: "'c cas_env \<Rightarrow> bool" where
  "env_ok env \<longleftrightarrow> (\<forall>x. length (e_blake3 env x) = 32) \<and>
     (\<forall>h. length h = 32 \<longrightarrow> length (e_hex env h) = 64 \<and> CHR ''.'' \<notin> set (e_hex env h)) \<and>
     (\<forall>g h. length g = 32 \<longrightarrow> length h = 32 \<longrightarrow> e_hex env g = e_hex env h \<longrightarrow> g = h)"

text \<open>Every file that is not temporary lies where its content's hash says.\<close>

definition files_ok :: "'c cas_env \<Rightarrow> files \<Rightarrow> bool" where
  "files_ok env fs \<longleftrightarrow> hm_wf fs \<and>
     (\<forall>p c. hm_get fs p = Some c \<longrightarrow> \<not> is_temp p \<longrightarrow> object_path env (e_blake3 env c) = p)"

definition store_ok :: "'c cas_env \<Rightarrow> 'c store \<Rightarrow> bool" where
  "store_ok env s \<longleftrightarrow> files_ok env (s_files s) \<and> hm_wf (s_dedup s) \<and>
     \<not> enable_packfiles (s_config s) \<and>
     (\<forall>h r. hm_get (s_dedup s) h = Some r \<longrightarrow>
        length h = 32 \<and> hm_has (s_files s) (object_path env h))"

lemma files_okD:
  "files_ok env fs \<Longrightarrow> hm_get fs p = Some c \<Longrightarrow> \<not> is_temp p \<Longrightarrow> object_path env (e_blake3 env c) = p"
  unfolding files_ok_def by blast

lemma object_path_inj:
  assumes "env_ok env" and "length g = 32" and "length h = 32"
    and "object_path env g = object_path env h"
  shows "g = h"
proof -
  have "e_hex env k = fst (object_path env k) @ fst (snd (object_path env k)) @ snd (snd (object_path env k))"
    for k
  proof -
    have "drop 4 (e_hex env k) = drop 2 (drop 2 (e_hex env k))" by simp
    then show ?thesis by (simp only: object_path_def Let_def fst_conv snd_conv append_take_drop_id)
  qed
  then have "e_hex env g = e_hex env h" using assms(4) by metis
  with assms(1-3) show ?thesis by (simp add: env_ok_def)
qed

lemma object_path_not_temp:
  assumes "env_ok env" and "length h = 32"
  shows "\<not> is_temp (object_path env h)"
proof
  assume "is_temp (object_path env h)"
  then have e: "drop (length (drop 4 (e_hex env h)) - 4) (drop 4 (e_hex env h)) = ''.tmp''"
    by (simp add: is_temp_def object_path_def Let_def)
  have "set (drop (length (drop 4 (e_hex env h)) - 4) (drop 4 (e_hex env h))) \<subseteq> set (e_hex env h)"
    by (meson order_trans set_drop_subset)
  then have "CHR ''.'' \<in> set (e_hex env h)" unfolding e by simp
  with assms show False by (simp add: env_ok_def)
qed

lemma is_temp_temp_of: "fst (snd p) = b \<Longrightarrow> snd (snd p) \<noteq> [] \<Longrightarrow> is_temp (temp_of p)"
  by (cases p) (simp add: is_temp_def temp_of_def)

lemma final_of_temp_of [simp]: "final_of (temp_of p) = p"
  by (cases p) (simp add: final_of_def temp_of_def)

lemma temp_of_object:
  assumes "env_ok env" and "length h = 32"
  shows "is_temp (temp_of (object_path env h))" and "temp_of (object_path env h) \<noteq> object_path env h"
proof -
  have "length (drop 4 (e_hex env h)) = 60" using assms by (simp add: env_ok_def)
  then have "drop 4 (e_hex env h) \<noteq> []" by (metis length_0_conv zero_neq_numeral)
  then show "is_temp (temp_of (object_path env h))"
    by (simp add: object_path_def Let_def is_temp_def temp_of_def)
  then show "temp_of (object_path env h) \<noteq> object_path env h"
    using object_path_not_temp [OF assms] by metis
qed

lemma write_atomic_get:
  assumes "hm_wf fs" and "temp_of p \<noteq> p"
  shows "hm_get (write_atomic p data fs) q =
    (if q = p then Some data else if q = temp_of p then None else hm_get fs q)"
  using assms
  by (simp add: write_atomic_def atomic_states_def rename_file_def hm.get_put hm.get_del hm.wf_put hm.wf_del)

lemma write_atomic_wf: "hm_wf fs \<Longrightarrow> hm_wf (write_atomic p data fs)"
  by (simp add: write_atomic_def atomic_states_def rename_file_def hm.wf_put hm.wf_del hm.get_put)

lemma files_ok_write:
  assumes "env_ok env" and "files_ok env fs"
  shows "files_ok env (write_atomic (object_path env (e_blake3 env data)) data fs)"
proof -
  have l: "length (e_blake3 env data) = 32" using assms(1) by (simp add: env_ok_def)
  show ?thesis
    using assms(2) write_atomic_wf
    by (auto simp add: files_ok_def write_atomic_get temp_of_object(2) [OF assms(1) l])
qed

section \<open>The store keeps what is written\<close>

lemma packs_off: "store_ok env s \<Longrightarrow> read_from_packs env h s = None"
  by (simp add: store_ok_def read_from_packs_def)

lemma write_object_cases:
  assumes "store_ok env s"
  obtains (same) "s_files (snd (write_object env data s)) = s_files s"
      "s_dedup (snd (write_object env data s)) = s_dedup s"
      "object_size_ok data = Inr () \<longrightarrow> (\<exists>r. hm_get (s_dedup s) (e_blake3 env data) = Some r)"
    | (found) r where "snd (write_object env data s) =
        s\<lparr>s_dedup := hm_put (e_blake3 env data) r (s_dedup s)\<rparr>"
      "hm_has (s_files s) (object_path env (e_blake3 env data))"
    | (written) "snd (write_object env data s) =
        s\<lparr>s_files := write_atomic (object_path env (e_blake3 env data)) data (s_files s)\<rparr>"
      "\<not> hm_has (s_files s) (object_path env (e_blake3 env data))"
proof (cases "object_size_ok data")
  case (Inl e)
  then show ?thesis by (intro same) (simp_all add: write_object_def)
next
  case (Inr u)
  show ?thesis
  proof (cases "hm_get (s_dedup s) (e_blake3 env data)")
    case (Some r)
    with Inr show ?thesis by (intro same) (simp_all add: write_object_def Let_def)
  next
    case None
    note n = packs_off [OF assms, of "e_blake3 env data"]
    show ?thesis
    proof (cases "hm_has (s_files s) (object_path env (e_blake3 env data))")
      case True
      with Inr None n show ?thesis
        by (intro found) (simp_all add: write_object_def Let_def exists_object_def)
    next
      case False
      with Inr None n show ?thesis
        by (intro written) (simp_all add: write_object_def Let_def exists_object_def write_individual_def)
    qed
  qed
qed

lemma write_object_config [simp]: "s_config (snd (write_object env data s)) = s_config s"
  by (auto simp add: write_object_def write_individual_def Let_def split: sum.splits option.splits)

lemma object_file_kept:
  assumes env: "env_ok env" and wf: "hm_wf fs" and g: "length g = 32" and h: "length h = 32"
    and has: "hm_get fs (object_path env g) = Some c" and ne: "object_path env g \<noteq> object_path env h"
  shows "hm_get (write_atomic (object_path env h) data fs) (object_path env g) = Some c"
proof -
  have "object_path env g \<noteq> temp_of (object_path env h)"
    using object_path_not_temp [OF env g] temp_of_object(1) [OF env h] by metis
  then show ?thesis
    using has ne by (simp add: write_atomic_get [OF wf temp_of_object(2) [OF env h]])
qed

lemma store_ok_write:
  assumes env: "env_ok env" and s: "store_ok env s"
  shows "store_ok env (snd (write_object env data s))"
proof -
  let ?h = "e_blake3 env data" and ?s = "snd (write_object env data s)"
  have l: "length ?h = 32" using env by (simp add: env_ok_def)
  have wf: "hm_wf (s_files s)" "hm_wf (s_dedup s)" using s by (simp_all add: store_ok_def files_ok_def)
  from s show ?thesis
  proof (cases rule: write_object_cases [of env s data])
    case same
    then show ?thesis using s by (simp add: store_ok_def)
  next
    case (found r)
    then show ?thesis using s l wf by (auto simp add: store_ok_def hm.get_put hm.wf_put)
  next
    case written
    have "hm_has (write_atomic (object_path env ?h) data (s_files s)) (object_path env g)"
      if "hm_get (s_dedup s) g = Some r" for g r
    proof -
      from that s have g: "length g = 32" and "hm_has (s_files s) (object_path env g)"
        by (auto simp add: store_ok_def)
      then obtain c where c: "hm_get (s_files s) (object_path env g) = Some c" by (auto simp add: hm_has_def)
      with written(2) have "object_path env g \<noteq> object_path env ?h" by (auto simp add: hm_has_def)
      from object_file_kept [OF env wf(1) g l c this] show ?thesis by (simp add: hm_has_def)
    qed
    with written(1) s files_ok_write [OF env, of "s_files s" data] show ?thesis
      by (auto simp add: store_ok_def)
  qed
qed

lemma read_individual_file:
  "read_individual env h s = Inr d \<longleftrightarrow>
     hm_get (s_files s) (object_path env h) = Some d \<and> d \<noteq> [] \<and> e_blake3 env d = h"
  by (auto simp add: read_individual_def split: option.splits)

lemma read_after_write_keeps:
  assumes env: "env_ok env" and s: "store_ok env s" and r: "read_individual env h s = Inr d"
  shows "read_individual env h (snd (write_object env data s)) = Inr d"
proof -
  have l: "length (e_blake3 env x) = 32" for x using env by (simp add: env_ok_def)
  have wf: "hm_wf (s_files s)" using s by (simp add: store_ok_def files_ok_def)
  from r have f: "hm_get (s_files s) (object_path env h) = Some d" and d: "d \<noteq> []" "e_blake3 env d = h"
    by (simp_all add: read_individual_file)
  from s show ?thesis
  proof (cases rule: write_object_cases [of env s data])
    case same
    then show ?thesis using f d by (simp add: read_individual_file)
  next
    case (found r)
    then show ?thesis using f d by (simp add: read_individual_file)
  next
    case written
    have "object_path env h \<noteq> object_path env (e_blake3 env data)"
      using written(2) f by (auto simp add: hm_has_def)
    with written(1) f d l [of d] show ?thesis
      by (simp add: read_individual_file object_file_kept [OF env wf _ l])
  qed
qed

text \<open>Data the store accepts and can tell from an empty object.\<close>

definition storable :: "'c cas_env \<Rightarrow> bytes \<Rightarrow> bool" where
  "storable env d \<longleftrightarrow> d \<noteq> [] \<and> length d \<le> MAX_OBJECT_SIZE \<and> e_blake3 env d \<noteq> e_blake3 env []"

lemma read_after_write:
  assumes env: "env_ok env" and s: "store_ok env s" and good: "storable env data"
  shows "\<exists>x. read_individual env (e_blake3 env data) (snd (write_object env data s)) = Inr x"
proof -
  let ?h = "e_blake3 env data"
  have l: "length (e_blake3 env x) = 32" for x using env by (simp add: env_ok_def)
  have wf: "hm_wf (s_files s)" using s by (simp add: store_ok_def files_ok_def)
  have size: "object_size_ok data = Inr ()"
    using good by (simp add: object_size_ok_def validate_object_size_def storable_def)
  have has: ?thesis
    if "hm_has (s_files s) (object_path env ?h)" "s_files (snd (write_object env data s)) = s_files s"
  proof -
    from that(1) obtain c where c: "hm_get (s_files s) (object_path env ?h) = Some c"
      by (auto simp add: hm_has_def)
    from s have "files_ok env (s_files s)" by (simp add: store_ok_def)
    from files_okD [OF this c object_path_not_temp [OF env l]]
    have "object_path env (e_blake3 env c) = object_path env ?h" .
    then have "e_blake3 env c = ?h" by (rule object_path_inj [OF env l l])
    moreover from this have "c \<noteq> []" using good by (auto simp add: storable_def)
    ultimately show ?thesis using c that(2) by (auto simp add: read_individual_file)
  qed
  from s show ?thesis
  proof (cases rule: write_object_cases [of env s data])
    case same
    with size s have "hm_has (s_files s) (object_path env ?h)" by (auto simp add: store_ok_def)
    with has same(1) show ?thesis by blast
  next
    case (found r)
    with has show ?thesis by simp
  next
    case written
    then show ?thesis
      using good write_atomic_get [OF wf temp_of_object(2) [OF env l]]
      by (auto simp add: read_individual_file storable_def)
  qed
qed

definition contents :: "'c store \<Rightarrow> bytes set" where
  "contents s = ran (hm_get (s_files s))"

lemma contents_write:
  assumes env: "env_ok env" and s: "store_ok env s"
  shows "contents (snd (write_object env d s)) \<subseteq> insert d (contents s)"
proof -
  have l: "length (e_blake3 env d) = 32" using env by (simp add: env_ok_def)
  have wf: "hm_wf (s_files s)" using s by (simp add: store_ok_def files_ok_def)
  from s show ?thesis
  proof (cases rule: write_object_cases [of env s d])
    case written
    then show ?thesis
      by (auto simp add: contents_def ran_def write_atomic_get [OF wf temp_of_object(2) [OF env l]]
          split: if_splits)
  qed (auto simp add: contents_def)
qed

lemma contents_writes:
  "env_ok env \<Longrightarrow> store_ok env s \<Longrightarrow>
   contents (fold (\<lambda>d s. snd (write_object env d s)) ds s) \<subseteq> set ds \<union> contents s"
proof (induction ds arbitrary: s)
  case Nil
  then show ?case by simp
next
  case (Cons d ds)
  let ?s = "snd (write_object env d s)"
  have "contents (fold (\<lambda>d s. snd (write_object env d s)) ds ?s) \<subseteq> set ds \<union> contents ?s"
    by (rule Cons.IH [OF Cons.prems(1) store_ok_write [OF Cons.prems]])
  with contents_write [OF Cons.prems, of d] show ?case by auto
qed

interpretation cas: chunk_store "\<lambda>d s. snd (write_object env d s)" "read_individual env"
    "e_blake3 env" "storable env" "\<lambda>s. env_ok env \<and> store_ok env s" for env
proof
  show "e_blake3 env d = h" if "read_individual env h s = Inr d" for h s d
    using that by (simp add: read_individual_file)
qed (use store_ok_write read_after_write_keeps read_after_write in blast)+

lemma stored_object:
  assumes "env_ok env" and "store_ok env s" and "d \<in> set ds" and "storable env d"
    and "inj_on (e_blake3 env) (set ds \<union> contents s)"
  shows "read_individual env (e_blake3 env d) (fold (\<lambda>d s. snd (write_object env d s)) ds s) = Inr d"
proof -
  let ?s = "fold (\<lambda>d s. snd (write_object env d s)) ds s"
  obtain x where x: "read_individual env (e_blake3 env d) ?s = Inr x" "e_blake3 env x = e_blake3 env d"
    using cas.get_puts assms(1-4) by blast
  then have "x \<in> contents ?s" by (auto simp add: read_individual_file contents_def intro: ranI)
  then have "x \<in> set ds \<union> contents s" using contents_writes [OF assms(1,2), of ds] by blast
  then have "x = d" using x(2) assms(3,5) by (auto simp add: inj_on_def)
  with x(1) show ?thesis by simp
qed

section \<open>Recovery after a crash\<close>

lemma hm_has_del: "hm_wf m \<Longrightarrow> hm_has (hm_del p m) q \<longleftrightarrow> q \<noteq> p \<and> hm_has m q"
  by (simp add: hm_has_def hm.get_del)

text \<open>What one recovery step keeps: objects in place, other temporary files untouched, and the
  temporary file itself gone.\<close>

definition recovery_step_ok :: "'c cas_env \<Rightarrow> obj_path \<Rightarrow> files \<Rightarrow> files \<Rightarrow> bool" where
  "recovery_step_ok env p fs fs' \<longleftrightarrow> files_ok env fs' \<and> hm_get fs' p = None \<and>
     (\<forall>q c. \<not> is_temp q \<longrightarrow> hm_get fs q = Some c \<longrightarrow> hm_get fs' q = Some c) \<and>
     (\<forall>q. is_temp q \<longrightarrow> q \<noteq> p \<longrightarrow> hm_get fs' q = hm_get fs q)"

lemma recover_temp_file_ok:
  assumes env: "env_ok env" and fs: "files_ok env fs" and p: "is_temp p"
  shows "recovery_step_ok env p fs (fst (recover_temp_file env p (fs, st)))"
proof -
  have wf: "hm_wf fs" using fs by (simp add: files_ok_def)
  have del: "recovery_step_ok env p fs (hm_del p fs)"
    using fs p wf by (auto simp add: recovery_step_ok_def files_ok_def hm.wf_del hm.get_del)
  show ?thesis
  proof (cases "hm_get fs p")
    case None
    have "recovery_step_ok env p fs fs"
      using None fs by (simp add: recovery_step_ok_def)
    with None del show ?thesis by (simp add: recover_temp_file_def Let_def)
  next
    case (Some data)
    show ?thesis
    proof (cases "hm_has fs (final_of p) \<or> object_path env (e_blake3 env data) \<noteq> final_of p")
      case True
      with Some del show ?thesis by (auto simp add: recover_temp_file_def Let_def)
    next
      case False
      have "length (e_blake3 env data) = 32" using env by (simp add: env_ok_def)
      from object_path_not_temp [OF env this] False have nt: "\<not> is_temp (final_of p)" by simp
      have "recovery_step_ok env p fs (hm_put (final_of p) data (hm_del p fs))"
        using fs p wf nt False
        by (auto simp add: recovery_step_ok_def files_ok_def hm.wf_del hm.wf_put hm.get_put hm.get_del
            hm_has_def)
      with False Some show ?thesis by (simp add: recover_temp_file_def Let_def rename_file_def)
    qed
  qed
qed

lemma recover_fold:
  assumes env: "env_ok env"
  shows "files_ok env fs \<Longrightarrow> \<forall>p\<in>set ps. is_temp p \<Longrightarrow>
    fst (fold (recover_temp_file env) ps (fs, st)) = fs' \<Longrightarrow>
    files_ok env fs' \<and> (\<forall>p\<in>set ps. hm_get fs' p = None) \<and>
    (\<forall>q c. \<not> is_temp q \<longrightarrow> hm_get fs q = Some c \<longrightarrow> hm_get fs' q = Some c) \<and>
    (\<forall>q. is_temp q \<longrightarrow> q \<notin> set ps \<longrightarrow> hm_get fs' q = hm_get fs q)"
proof (induction ps arbitrary: fs st)
  case Nil
  then show ?case by simp
next
  case (Cons p ps)
  obtain fs1 st1 where r: "recover_temp_file env p (fs, st) = (fs1, st1)" by fastforce
  have "is_temp p" using Cons.prems(2) by simp
  from recover_temp_file_ok [OF env Cons.prems(1) this, of st] r
  have step: "recovery_step_ok env p fs fs1" by simp
  then have "files_ok env fs1" by (simp add: recovery_step_ok_def)
  from Cons.IH [OF this, of st1] Cons.prems r
  have ih: "files_ok env fs'" "\<forall>p\<in>set ps. hm_get fs' p = None"
    "\<forall>q c. \<not> is_temp q \<longrightarrow> hm_get fs1 q = Some c \<longrightarrow> hm_get fs' q = Some c"
    "\<forall>q. is_temp q \<longrightarrow> q \<notin> set ps \<longrightarrow> hm_get fs' q = hm_get fs1 q" by simp_all
  have "hm_get fs' p = None"
    using ih(2,4) step \<open>is_temp p\<close> unfolding recovery_step_ok_def by metis
  with ih(2) have gone: "\<forall>q\<in>set (p # ps). hm_get fs' q = None" by simp
  have kept: "\<forall>q c. \<not> is_temp q \<longrightarrow> hm_get fs q = Some c \<longrightarrow> hm_get fs' q = Some c"
    using ih(3) step unfolding recovery_step_ok_def by blast
  have "\<forall>q. is_temp q \<longrightarrow> q \<notin> set (p # ps) \<longrightarrow> hm_get fs' q = hm_get fs q"
    using ih(4) step unfolding recovery_step_ok_def by (metis list.set_intros)
  with ih(1) gone kept show ?case by blast
qed

lemma recover_files_ok:
  assumes env: "env_ok env" and fs: "files_ok env fs" and o: "iter_order order"
  shows "files_ok env (fst (recover_files env order fs)) \<and>
    (\<forall>p. is_temp p \<longrightarrow> hm_get (fst (recover_files env order fs)) p = None) \<and>
    (\<forall>q c. \<not> is_temp q \<longrightarrow> hm_get fs q = Some c \<longrightarrow> hm_get (fst (recover_files env order fs)) q = Some c)"
proof -
  let ?ps = "order (filter is_temp (map fst fs))"
  have ps: "set ?ps = {p \<in> fst ` set fs. is_temp p}"
    using iter_order_set [OF o, of "filter is_temp (map fst fs)"] by auto
  then have t: "\<forall>p\<in>set ?ps. is_temp p" by auto
  from recover_fold [OF env fs t refl, of "\<lparr>recovered = 0, cleaned = 0\<rparr>"]
  have r: "files_ok env (fst (recover_files env order fs))"
    "\<forall>p\<in>set ?ps. hm_get (fst (recover_files env order fs)) p = None"
    "\<forall>q c. \<not> is_temp q \<longrightarrow> hm_get fs q = Some c \<longrightarrow> hm_get (fst (recover_files env order fs)) q = Some c"
    "\<forall>q. is_temp q \<longrightarrow> q \<notin> set ?ps \<longrightarrow> hm_get (fst (recover_files env order fs)) q = hm_get fs q"
    by (simp_all add: recover_files_def)
  have "hm_get (fst (recover_files env order fs)) p = None" if "is_temp p" for p
  proof (cases "p \<in> set ?ps")
    case False
    with that ps have "\<not> hm_has fs p" by (simp add: hm_has_iff)
    then have "hm_get fs p = None" unfolding hm_has_def by simp
    with r(4) that False show ?thesis by metis
  qed (use r(2) in blast)
  with r show ?thesis by blast
qed

lemma atomic_state_files_ok:
  assumes env: "env_ok env" and fs: "files_ok env fs" and h: "h = e_blake3 env data"
    and st: "fs' \<in> set (atomic_states (object_path env h) data fs)"
  shows "files_ok env fs' \<and>
    (\<forall>q c. \<not> is_temp q \<longrightarrow> q \<noteq> object_path env h \<longrightarrow> hm_get fs q = Some c \<longrightarrow> hm_get fs' q = Some c)"
proof -
  have l: "length h = 32" using env h by (simp add: env_ok_def)
  have wf: "hm_wf fs" using fs by (simp add: files_ok_def)
  note t = temp_of_object [OF env l]
  consider (start) "fs' = fs" | (temp) k where "fs' = hm_put (temp_of (object_path env h)) (take k data) fs"
    | (finished) "fs' = write_atomic (object_path env h) data fs"
  proof -
    show thesis
      using st that(1,3) that(2) [of "length data"] that(2)
      by (auto simp add: atomic_states_def write_atomic_def)
  qed
  then show ?thesis
  proof cases
    case start
    then show ?thesis using fs by simp
  next
    case (temp k)
    then show ?thesis using fs wf t by (auto simp add: files_ok_def hm.wf_put hm.get_put)
  next
    case finished
    then show ?thesis
      using files_ok_write [OF env fs, of data] write_atomic_get [OF wf t(2)] t(1) h by auto
  qed
qed

section \<open>A concrete environment\<close>

definition sample_digit :: "nat \<Rightarrow> char" where
  "sample_digit n = char_of (if n < 10 then 48 + n else 87 + n)"

fun sample_digits :: "bytes \<Rightarrow> string" where
  "sample_digits [] = []"
| "sample_digits (b # bs) = sample_digit (unat b div 16) # sample_digit (unat b mod 16) # sample_digits bs"

text \<open>A cache of capacity \<open>n\<close> as a list, the least recently used entry last.\<close>

definition list_lru :: "nat \<Rightarrow> (content_hash \<times> cached_chunk) list lru_ops" where
  "list_lru n = \<lparr>lru_new = [],
     lru_get = map_of,
     lru_touch = (\<lambda>h f c. case map_of c h of None \<Rightarrow> c
        | Some x \<Rightarrow> (h, f x) # filter (\<lambda>(g, _). g \<noteq> h) c),
     lru_put = (\<lambda>h x c. take n ((h, x) # filter (\<lambda>(g, _). g \<noteq> h) c)),
     lru_pop = (\<lambda>c. case rev c of [] \<Rightarrow> (None, c) | e # es \<Rightarrow> (Some e, rev es))\<rparr>"

definition sample_env :: "nat \<Rightarrow> (content_hash \<times> cached_chunk) list cas_env" where
  "sample_env n = \<lparr>e_blake3 = pad_hash, e_hex = sample_digits, e_lz4 = rev,
     e_zstd = (\<lambda>_. Inr), e_snappy = Inr, e_lru = list_lru n, e_readers = rev\<rparr>"

lemma sample_digits_length [simp]: "length (sample_digits bs) = 2 * length bs"
  by (induction bs) simp_all

lemma sample_digit_code: "n < 16 \<Longrightarrow> (of_char (sample_digit n) :: nat) = (if n < 10 then 48 + n else 87 + n)"
  by (simp add: sample_digit_def)

lemma sample_digit_inj: "a < 16 \<Longrightarrow> b < 16 \<Longrightarrow> sample_digit a = sample_digit b \<longleftrightarrow> a = b"
proof -
  assume "a < 16" "b < 16"
  note c = sample_digit_code [OF this(1)] sample_digit_code [OF this(2)]
  have "a = b" if "sample_digit a = sample_digit b"
  proof -
    have "(if a < 10 then 48 + a else 87 + a) = (if b < 10 then 48 + b else 87 + b)"
      using c unfolding that by (rule trans [OF sym])
    with \<open>a < 16\<close> \<open>b < 16\<close> show ?thesis by (simp split: if_splits)
  qed
  then show ?thesis by blast
qed

lemma nibble: "unat (b :: u8) div 16 < 16"
  using unsigned_less [of b, where 'a = nat] by (simp add: less_mult_imp_div_less)

lemma sample_digits_inj: "sample_digits as = sample_digits bs \<Longrightarrow> as = bs"
proof (induction as arbitrary: bs)
  case Nil
  then show ?case by (cases bs) simp_all
next
  case (Cons a as)
  then obtain b bs' where bs: "bs = b # bs'" by (cases bs) simp_all
  have "unat a div 16 < 16" "unat b div 16 < 16"
    by (rule nibble)+
  with Cons.prems have "unat a div 16 = unat b div 16" "unat a mod 16 = unat b mod 16"
    by (simp_all add: bs sample_digit_inj)
  then have "unat a = unat b" by (metis div_mult_mod_eq)
  then have "a = b" by (rule unsigned_word_eqI)
  with Cons show ?case by (simp add: bs)
qed

lemma sample_digits_dot: "CHR ''.'' \<notin> set (sample_digits bs)"
proof (induction bs)
  case (Cons b bs)
  have "CHR ''.'' \<noteq> sample_digit n" if "n < 16" for n
  proof
    assume "CHR ''.'' = sample_digit n"
    with sample_digit_code [OF that] have "(of_char (CHR ''.'') :: nat) = (if n < 10 then 48 + n else 87 + n)" by simp
    then show False by (simp split: if_splits)
  qed
  with Cons nibble [of b] show ?case by simp
qed simp

lemma sample_env_blake3 [simp]: "e_blake3 (sample_env n) = pad_hash"
  by (simp add: sample_env_def)

lemma pad_hash_length: "length (pad_hash x) = 32"
  by (simp add: pad_hash_def)

lemma sample_env_ok: "env_ok (sample_env n)"
  using sample_digits_inj
  by (auto simp add: env_ok_def sample_env_def sample_digits_dot pad_hash_def)

section \<open>Properties\<close>

text \<open>C2: What is written stays readable: after any sequence of writes to a well-formed store,
  every object written that the store accepts (not empty, at most 100 MB, not colliding with
  the empty object) reads back from its file as data of the same hash, whatever was written
  after it and whichever deduplication path its write took.\<close>

theorem store_keeps_what_is_written:
  assumes "env_ok env" and "store_ok env s" and "d \<in> set ds" and "storable env d"
  shows "\<exists>x. read_individual env (e_blake3 env d) (fold (\<lambda>d s. snd (write_object env d s)) ds s) = Inr x \<and>
    e_blake3 env x = e_blake3 env d"
  using cas.get_puts assms by blast

lemma new_store_empty:
  "order [] = [] \<Longrightarrow> new_store env order cfg packs now [] = \<lparr>s_config = cfg, s_files = [],
     s_packs = (if enable_packfiles cfg then packs else None),
     s_cache = lru_new (e_lru env), s_cache_total = 0, s_pending = [], s_pending_size = 0,
     s_last_flush = now, s_dedup = []\<rparr>"
  by (simp add: new_store_def recover_def recover_files_def Let_def)

lemma store_ok_new:
  "env_ok env \<Longrightarrow> iter_order order \<Longrightarrow> store_ok env (new_store env order default_cas_config packs now [])"
proof -
  assume "env_ok env" and o: "iter_order order"
  have "order [] = []" using iter_order_set [OF o, of "[]"] by simp
  then show ?thesis
    by (simp add: store_ok_def new_store_empty default_cas_config_def files_ok_def hm_get_def hm.wf_empty)
qed

lemma pad_hash_nonempty: "pad_hash [3] \<noteq> pad_hash []"
proof
  assume "pad_hash [3] = pad_hash []"
  then have "hd (pad_hash [3]) = hd (pad_hash [])" by simp
  then show False by (simp add: pad_hash_def)
qed

theorem store_keeps_what_is_written_witness:
  "\<exists>x. read_individual (sample_env 1) (pad_hash [3])
     (fold (\<lambda>d s. snd (write_object (sample_env 1) d s)) [[1, 2], [3], [3], []]
       (new_store (sample_env 1) rev default_cas_config None 0 [])) = Inr x \<and> pad_hash x = pad_hash [3]"
proof -
  have "storable (sample_env 1) [3]"
    using pad_hash_nonempty by (simp add: storable_def MAX_OBJECT_SIZE_def)
  from store_keeps_what_is_written [OF sample_env_ok store_ok_new [OF sample_env_ok iter_order_rev] _ this,
      of "[[1, 2], [3], [3], []]"]
  show ?thesis by simp
qed

text \<open>C3: A crash loses nothing that was stored: stop the atomic write of a new object at any of
  its steps (before it, with any prefix of the data in the temporary file, after the rename)
  and run the recovery, in whatever order it meets the files: no temporary file is left,
  every file lies where its content's hash says, and every object that was readable reads
  back unchanged.\<close>

theorem crash_recovery_safe:
  assumes "env_ok env" and "files_ok env (s_files s)" and "iter_order order"
    and new: "\<not> hm_has (s_files s) (object_path env (e_blake3 env data))"
    and crash: "fs \<in> set (atomic_states (object_path env (e_blake3 env data)) data (s_files s))"
  shows "files_ok env (s_files (recover env order (s\<lparr>s_files := fs\<rparr>))) \<and>
    (\<forall>p. is_temp p \<longrightarrow> hm_get (s_files (recover env order (s\<lparr>s_files := fs\<rparr>))) p = None) \<and>
    (\<forall>h d. length h = 32 \<longrightarrow> read_individual env h s = Inr d \<longrightarrow>
       read_individual env h (recover env order (s\<lparr>s_files := fs\<rparr>)) = Inr d)"
proof -
  from atomic_state_files_ok [OF assms(1,2) refl crash]
  have ok: "files_ok env fs" and keep: "\<And>q c. \<not> is_temp q \<Longrightarrow> q \<noteq> object_path env (e_blake3 env data) \<Longrightarrow>
      hm_get (s_files s) q = Some c \<Longrightarrow> hm_get fs q = Some c" by blast+
  note r = recover_files_ok [OF assms(1) ok assms(3)]
  have "hm_get (fst (recover_files env order fs)) (object_path env h) = Some d"
    if "length h = 32" and "hm_get (s_files s) (object_path env h) = Some d" for h d
  proof -
    have "object_path env h \<noteq> object_path env (e_blake3 env data)" using that(2) new by (auto simp add: hm_has_def)
    with keep that object_path_not_temp [OF assms(1) that(1)] have "hm_get fs (object_path env h) = Some d" by blast
    with r object_path_not_temp [OF assms(1) that(1)] show ?thesis by blast
  qed
  with r show ?thesis by (simp add: recover_def read_individual_file)
qed

text \<open>A write of \<open>[1, 2]\<close> stopped after one byte, beside the object \<open>[3]\<close>.\<close>

definition crashed_store :: "(content_hash \<times> cached_chunk) list store" where
  "crashed_store = snd (write_object (sample_env 1) [3]
     (new_store (sample_env 1) rev default_cas_config None 0 []))"

theorem crash_recovery_safe_witness:
  "read_individual (sample_env 1) (pad_hash [3]) (recover (sample_env 1) rev (crashed_store\<lparr>s_files :=
     hm_put (temp_of (object_path (sample_env 1) (pad_hash [1, 2]))) [1] (s_files crashed_store)\<rparr>)) = Inr [3] \<and>
   is_temp (temp_of (object_path (sample_env 1) (pad_hash [1, 2])))"
proof -
  let ?e = "sample_env 1"
  let ?s = "new_store ?e rev default_cas_config None 0 []"
  have l [simp]: "length (pad_hash x) = 32" for x by (simp add: pad_hash_def)
  have s: "store_ok ?e ?s" by (rule store_ok_new [OF sample_env_ok iter_order_rev])
  have e: "s_files ?s = []" "s_dedup ?s = []"
    by (simp_all add: new_store_empty)
  have "object_size_ok [3] = Inr ()"
    by (simp add: object_size_ok_def validate_object_size_def MAX_OBJECT_SIZE_def)
  then have f: "s_files crashed_store = write_atomic (object_path ?e (pad_hash [3])) [3] []"
    using packs_off [OF s] e
    by (simp add: crashed_store_def write_object_def Let_def hm_get_def hm_has_def exists_object_def
        write_individual_def)
  note t = temp_of_object [OF sample_env_ok]
  have ok: "files_ok ?e (s_files crashed_store)"
    using store_ok_write [OF sample_env_ok s, of "[3]"] by (simp add: store_ok_def crashed_store_def)
  have "pad_hash [1, 2] \<noteq> pad_hash [3]" by (simp add: pad_hash_def numeral_eq_Suc)
  then have ne: "object_path ?e (pad_hash [1, 2]) \<noteq> object_path ?e (pad_hash [3])"
    using object_path_inj [OF sample_env_ok l l] by blast
  have get: "hm_get (write_atomic (object_path ?e (pad_hash [3])) [3] []) q =
      (if q = object_path ?e (pad_hash [3]) then Some [3]
       else if q = temp_of (object_path ?e (pad_hash [3])) then None else hm_get [] q)" for q
    by (rule write_atomic_get [OF hm.wf_empty t(2) [OF l]])
  have "object_path ?e (pad_hash [1, 2]) \<noteq> temp_of (object_path ?e (pad_hash [3]))"
    using object_path_not_temp [OF sample_env_ok l] t(1) [OF l] by metis
  with ne get have new: "\<not> hm_has (s_files crashed_store) (object_path ?e (e_blake3 ?e [1, 2]))"
    by (simp add: f hm_has_def hm_get_def [of "[]"])
  have "hm_put (temp_of (object_path ?e (pad_hash [1, 2]))) [1] (s_files crashed_store)
      \<in> set (atomic_states (object_path ?e (pad_hash [1, 2])) [1, 2] (s_files crashed_store))"
    by (force simp add: atomic_states_def image_iff)
  from crash_recovery_safe [OF sample_env_ok ok iter_order_rev new, unfolded sample_env_blake3, OF this]
  have "\<forall>h d. length h = 32 \<longrightarrow> read_individual ?e h crashed_store = Inr d \<longrightarrow>
      read_individual ?e h (recover ?e rev (crashed_store\<lparr>s_files :=
        hm_put (temp_of (object_path ?e (pad_hash [1, 2]))) [1] (s_files crashed_store)\<rparr>)) = Inr d"
    by blast
  moreover have "read_individual ?e (pad_hash [3]) crashed_store = Inr [3]"
    using get by (simp add: read_individual_file f)
  ultimately show ?thesis using t(1) [OF l] l by blast
qed

section \<open>The eviction loop\<close>

text \<open>Popping the cache yields entries of the sizes \<open>xs\<close> and then nothing.\<close>

fun drains :: "'c lru_ops \<Rightarrow> u64 list \<Rightarrow> 'c \<Rightarrow> bool" where
  "drains ops [] c \<longleftrightarrow> lru_pop ops c = (None, c)"
| "drains ops (x # xs) c \<longleftrightarrow>
     (case lru_pop ops c of (Some (_, e), c') \<Rightarrow> cc_size e = x \<and> drains ops xs c' | (None, _) \<Rightarrow> False)"

lemma evict_loop_stuck:
  assumes "lru_pop (e_lru env) c = (None, c)" and "t + n > m"
  shows "evict_loop env m n c t = None"
proof -
  have "lru_pop (e_lru env) c = (None, c) \<longrightarrow> \<not> t + n > m" if "evict_loop env m n c t = Some y" for y
  proof (rule evict_loop.raw_induct [of "\<lambda>env m n c t y. lru_pop (e_lru env) c = (None, c) \<longrightarrow> \<not> t + n > m"
        env m n c t y])
  qed (use that in \<open>auto split: if_splits option.splits prod.splits\<close>)
  with assms show ?thesis by (cases "evict_loop env m n c t") blast+
qed

lemma evict_loop_drains:
  "drains (e_lru env) xs c \<Longrightarrow> unat t = d + sum_list (map unat xs) \<Longrightarrow> unat t + unat n < 2 ^ 64 \<Longrightarrow>
   evict_loop env m n c t = None \<longleftrightarrow> unat m < d + unat n"
proof (induction xs arbitrary: c t)
  case Nil
  then have "t + n > m \<longleftrightarrow> unat m < d + unat n"
    by (simp add: word_less_nat_alt unat_plus_if')
  then show ?case
    using Nil evict_loop_stuck [of env c m t n] by (subst evict_loop.simps) auto
next
  case (Cons x xs)
  from Cons.prems(1) obtain k e c' where pop: "lru_pop (e_lru env) c = (Some (k, e), c')"
    and e: "cc_size e = x" "drains (e_lru env) xs c'"
    by (auto split: option.splits prod.splits)
  have x: "unat x \<le> unat t" using Cons.prems(2) by simp
  then have "unat (t - x) = unat t - unat x" by (simp add: unat_sub word_le_nat_alt)
  with Cons.prems have "unat (t - x) = d + sum_list (map unat xs)" "unat (t - x) + unat n < 2 ^ 64" by simp_all
  from Cons.IH [OF e(2) this] pop e(1) have rest: "t + n > m \<Longrightarrow>
      evict_loop env m n c t = None \<longleftrightarrow> unat m < d + unat n"
    by (subst evict_loop.simps) simp
  have stop: "\<not> t + n > m \<Longrightarrow> evict_loop env m n c t \<noteq> None" by (subst evict_loop.simps) simp
  have "\<not> t + n > m \<Longrightarrow> \<not> unat m < d + unat n"
    using Cons.prems by (simp add: word_less_nat_alt unat_plus_if')
  with rest stop show ?case by blast
qed

text \<open>C35: Reading an object that is not cached returns exactly if the cache can make room for it:
  \<open>d\<close> is what the size counter counts beyond the entries the cache still has (the LRU's own
  capacity evictions and replacements are never subtracted), and once \<open>d\<close> plus the object's
  size exceeds the limit the loop that evicts entries runs on over an empty cache for ever,
  with the cache locked.\<close>

theorem read_returns_iff_cache_can_drain:
  assumes "validate_content_hash (e_hex env h) = Inr ()" and "lru_get (e_lru env) (s_cache s) h = None"
    and "read_from_packs env h s = None" and "read_individual env h s = Inr data"
    and "drains (e_lru env) xs (s_cache s)" and "unat (s_cache_total s) = d + sum_list (map unat xs)"
    and "unat (s_cache_total s) + length data < 2 ^ 64"
  shows "(read_object env h s = None) = (unat (max_size_bytes (s_config s)) < d + length data)"
proof -
  have "unat (word_of_nat (length data) :: u64) = length data"
    using assms(7) by (simp add: unat_of_nat)
  with evict_loop_drains [OF assms(5,6), of "word_of_nat (length data)" "max_size_bytes (s_config s)"]
  show ?thesis using assms by (simp add: read_object_def cache_insert_def Let_def)
qed

text \<open>A cache of one entry and 3 bytes: after three one-byte objects were read its counter is 3.\<close>

definition sample_objects :: "bytes list" where
  "sample_objects = [[1], [2], [3], [4, 4]]"

definition undrifted_store :: "(content_hash \<times> cached_chunk) list store" where
  "undrifted_store = (new_store (sample_env 1) rev (default_cas_config\<lparr>max_size_bytes := 3\<rparr>) None 0 [])
     \<lparr>s_files := map (\<lambda>d. (object_path (sample_env 1) (pad_hash d), d)) sample_objects\<rparr>"

definition read_store :: "(content_hash \<times> cached_chunk) list store \<Rightarrow> bytes \<Rightarrow>
  (content_hash \<times> cached_chunk) list store" where
  "read_store s d = (case read_object (sample_env 1) (pad_hash d) s of Some (_, s1) \<Rightarrow> s1 | None \<Rightarrow> s)"

definition drifted_store :: "(content_hash \<times> cached_chunk) list store" where
  "drifted_store = foldl read_store undrifted_store [[1], [2], [3]]"

lemma sample_hash_valid: "validate_content_hash (e_hex (sample_env n) (pad_hash d)) = Inr ()"
proof -
  have d: "is_ascii_hexdigit (of_char (sample_digit n)) \<and> (of_char (sample_digit n) :: nat) < 128" if "n < 16" for n
    using sample_digit_code [OF that] that by (simp add: is_ascii_hexdigit_def)
  have "list_all is_ascii_hexdigit (utf8_chars (sample_digits bs))" for bs
  proof (induction bs)
    case (Cons b bs)
    with d [OF nibble [of b]] d [of "unat b mod 16"] show ?case by (simp add: Let_def)
  qed simp
  then show ?thesis by (simp add: validate_content_hash_def sample_env_def pad_hash_def)
qed

lemma map_of_image_inj: "inj_on f (set xs) \<Longrightarrow> x \<in> set xs \<Longrightarrow> map_of (map (\<lambda>x. (f x, x)) xs) (f x) = Some x"
  by (induction xs) (auto simp add: inj_on_def)

lemma sample_object_file:
  assumes "s_files s = s_files undrifted_store" and "d \<in> set sample_objects"
  shows "read_individual (sample_env 1) (pad_hash d) s = Inr d"
proof -
  have "a = b" if "pad_hash a = pad_hash b" "a \<in> set sample_objects" "b \<in> set sample_objects" for a b
  proof -
    from that(1) have "hd (pad_hash a) = hd (pad_hash b)" by simp
    with that(2,3) show ?thesis by (auto simp add: sample_objects_def pad_hash_def)
  qed
  then have "inj_on (\<lambda>d. object_path (sample_env 1) (pad_hash d)) (set sample_objects)"
    by (intro inj_onI) (metis object_path_inj [OF sample_env_ok] pad_hash_length)
  then have "hm_get (map (\<lambda>d. (object_path (sample_env 1) (pad_hash d), d)) sample_objects)
      (object_path (sample_env 1) (pad_hash d)) = Some d"
    using assms(2) map_of_image_inj unfolding hm_get_def by fast
  moreover have "d \<noteq> []" using assms(2) by (auto simp add: sample_objects_def)
  ultimately show ?thesis using assms(1) by (simp add: read_individual_file undrifted_store_def)
qed

lemma read_store_step:
  assumes "d \<in> set sample_objects" and "s_files s = s_files undrifted_store"
    and "\<not> enable_packfiles (s_config s)" and "map_of (s_cache s) (pad_hash d) = None"
    and "\<not> s_cache_total s + word_of_nat (length d) > max_size_bytes (s_config s)"
  shows "read_store s d = s\<lparr>s_cache := [(pad_hash d, \<lparr>cc_data = d, cc_size = word_of_nat (length d),
      cc_access_count = 1\<rparr>)], s_cache_total := s_cache_total s + word_of_nat (length d)\<rparr>"
  using assms sample_hash_valid [of 1 d] sample_object_file [OF assms(2,1)]
  by (simp add: read_store_def read_object_def read_from_packs_def cache_insert_def evict_loop.simps
      sample_env_def list_lru_def)

lemma drifted_cache:
  "drifted_store = undrifted_store\<lparr>s_cache := [(pad_hash [3], \<lparr>cc_data = [3], cc_size = 1, cc_access_count = 1\<rparr>)],
     s_cache_total := 3\<rparr>"
proof -
  let ?c = "\<lambda>d t. undrifted_store\<lparr>s_cache := [(pad_hash d, \<lparr>cc_data = d, cc_size = 1, cc_access_count = 1\<rparr>)],
     s_cache_total := t\<rparr>"
  have ne: "pad_hash [2] \<noteq> pad_hash [1]" "pad_hash [3] \<noteq> pad_hash [2]"
    by (auto simp add: pad_hash_def dest: arg_cong [of _ _ hd])
  have u: "s_config undrifted_store = default_cas_config\<lparr>max_size_bytes := 3\<rparr>"
    "s_cache undrifted_store = []" "s_cache_total undrifted_store = 0"
    by (simp_all add: undrifted_store_def new_store_empty sample_env_def list_lru_def)
  have "read_store undrifted_store [1] = ?c [1] 1"
    by (subst read_store_step) (simp_all add: u sample_objects_def default_cas_config_def)
  moreover have "read_store (?c [1] 1) [2] = ?c [2] 2"
    by (subst read_store_step) (simp_all add: u ne sample_objects_def default_cas_config_def)
  moreover have "read_store (?c [2] 2) [3] = ?c [3] 3"
    by (subst read_store_step) (simp_all add: u ne sample_objects_def default_cas_config_def)
  ultimately show ?thesis by (simp add: drifted_store_def)
qed

theorem read_returns_iff_cache_can_drain_witness:
  "read_object (sample_env 1) (pad_hash [4, 4]) drifted_store = None"
proof -
  let ?s = drifted_store
  have ne: "pad_hash [4, 4] \<noteq> pad_hash [3]"
    by (auto simp add: pad_hash_def dest: arg_cong [of _ _ hd])
  have u: "s_config ?s = default_cas_config\<lparr>max_size_bytes := 3\<rparr>"
    by (simp add: drifted_cache undrifted_store_def new_store_empty)
  have r: "read_individual (sample_env 1) (pad_hash [4, 4]) ?s = Inr [4, 4]"
    by (rule sample_object_file) (simp_all add: drifted_cache sample_objects_def)
  have g: "lru_get (e_lru (sample_env 1)) (s_cache ?s) (pad_hash [4, 4]) = None"
    using ne by (simp add: drifted_cache sample_env_def list_lru_def)
  have k: "read_from_packs (sample_env 1) (pad_hash [4, 4]) ?s = None"
    by (simp add: read_from_packs_def u default_cas_config_def)
  have d: "drains (e_lru (sample_env 1)) [1] (s_cache ?s)"
    by (simp add: drifted_cache sample_env_def list_lru_def)
  have n: "unat (s_cache_total ?s) = 2 + sum_list (map unat [1 :: u64])"
    by (simp add: drifted_cache)
  show ?thesis
    using read_returns_iff_cache_can_drain [OF sample_hash_valid g k r d n]
    by (simp add: u) (simp add: drifted_cache)
qed

text \<open>A deleted object cannot be written again: \<open>delete\<close> leaves the deduplication index as it
  is, so when the object's hash is in the index (it was batch-written, or written twice) the
  next write of the same data returns success without writing, and the object stays
  unreadable.\<close>

theorem write_after_delete_is_lost:
  assumes "hm_wf (s_files s)" and "object_size_ok data = Inr ()"
    and "hm_get (s_dedup s) (e_blake3 env data) = Some r"
  shows "write_object env data (delete_object env (e_blake3 env data) s) =
      (Inr r, delete_object env (e_blake3 env data) s) \<and>
    read_individual env (e_blake3 env data) (snd (write_object env data
      (delete_object env (e_blake3 env data) s))) = Inl (ObjectNotFound (e_blake3 env data))"
  using assms by (simp add: write_object_def delete_object_def read_individual_def hm.get_del)

text \<open>An object written twice, deleted and written again.\<close>

theorem write_after_delete_is_lost_witness:
  "\<exists>r. write_object (sample_env 1) [3] (delete_object (sample_env 1) (pad_hash [3])
       (snd (write_object (sample_env 1) [3] crashed_store))) =
     (Inr r, delete_object (sample_env 1) (pad_hash [3]) (snd (write_object (sample_env 1) [3] crashed_store)))"
proof -
  let ?e = "sample_env 1" and ?s = "snd (write_object (sample_env 1) [3] crashed_store)"
  have ok: "store_ok ?e crashed_store"
    unfolding crashed_store_def by (intro store_ok_write sample_env_ok store_ok_new iter_order_rev)
  then have wf: "hm_wf (s_files ?s)" 
    using store_ok_write [OF sample_env_ok ok, of "[3]"] by (simp add: store_ok_def files_ok_def)
  have size: "object_size_ok [3] = Inr ()"
    by (simp add: object_size_ok_def validate_object_size_def MAX_OBJECT_SIZE_def)
  have st: "storable ?e [3]"
    using pad_hash_nonempty by (simp add: storable_def MAX_OBJECT_SIZE_def)
  have "hm_has (s_files crashed_store) (object_path ?e (pad_hash [3]))"
    using read_after_write [OF sample_env_ok store_ok_new [OF sample_env_ok iter_order_rev] st]
    by (auto simp add: crashed_store_def read_individual_file hm_has_def)
  then have "\<exists>r. hm_get (s_dedup ?s) (pad_hash [3]) = Some r"
    using size ok by (auto simp add: write_object_def Let_def exists_object_def store_ok_def hm.get_put
        split: option.splits)
  then obtain r where "hm_get (s_dedup ?s) (e_blake3 ?e [3]) = Some r" by auto
  from write_after_delete_is_lost [OF wf size this] show ?thesis by auto
qed

end
