(* ===== verification/Streaming.thy ===== *)
theory Streaming
  imports Cas
begin

text \<open>
  The streaming side of the content store (\<open>landro-cas/src/storage.rs\<close>): writes and reads of
  streams, resumable writes with their partial files, and the walks over all objects (the
  statistics, the integrity scan, the prefetch).

  The store of theory \<open>Cas\<close> gets a directory \<open>.tmp\<close>, which maps the name of a file to its
  content and creation time (in nanoseconds).  A reader is the list of what its \<open>read\<close> calls
  return; no bytes is the end of the stream.  When a read fails, of the bytes written before
  some are still in a buffer: \<open>kept\<close> is how many of them reach the file.  A fresh UUID and
  the clock are parameters.  The hasher a continued write rebuilds is never used and is left
  out, like counters and fsync; the writes a batch spawns run one after the other.
\<close>

section \<open>State\<close>

record tmp_file =
  tf_data :: bytes
  tf_created :: nat

record 'c blob_store =
  bs_store :: "'c store"
  bs_tmp :: "(string, tmp_file) hmap"

type_synonym reader = "(cas_error + bytes) list"

text \<open>All that is read until the end of the stream or the first error.\<close>

fun read_all :: "reader \<Rightarrow> bytes \<times> cas_error option" where
  "read_all [] = ([], None)"
| "read_all (Inl e # rs) = ([], Some e)"
| "read_all (Inr bs # rs) = (if bs = [] then ([], None) else let (d, e) = read_all rs in (bs @ d, e))"

definition object_size :: "bytes \<Rightarrow> u64" where
  "object_size data = word_of_nat (length data)"

text \<open>The end that streamed and resumable writes share: an object that exists keeps its file, a
  new one is renamed into place, and the index learns of it.\<close>

definition move_into_place ::
  "'c cas_env \<Rightarrow> string \<Rightarrow> bytes \<Rightarrow> 'c blob_store \<Rightarrow> (cas_error + object_ref) \<times> 'c blob_store" where
  "move_into_place env name data b =
     (let h = e_blake3 env data;
          r = \<lparr>or_hash = h, or_size = object_size data\<rparr>;
          s = bs_store b;
          fs = (if hm_has (s_files s) (object_path env h) then s_files s
            else hm_put (object_path env h) data (s_files s))
      in (Inr r, \<lparr>bs_store = s\<lparr>s_files := fs, s_dedup := hm_put h r (s_dedup s)\<rparr>,
            bs_tmp = hm_del name (bs_tmp b)\<rparr>))"

section \<open>Streams\<close>

definition write_stream ::
  "'c cas_env \<Rightarrow> string \<Rightarrow> nat \<Rightarrow> nat \<Rightarrow> reader \<Rightarrow> content_hash option \<Rightarrow> 'c blob_store \<Rightarrow>
   (cas_error + object_ref) \<times> 'c blob_store" where
  "write_stream env uuid now kept reader expected b =
     (let name = uuid @ ''.tmp''; (data, err) = read_all reader in
      case err of
        Some e \<Rightarrow> (Inl e, b\<lparr>bs_tmp := hm_put name \<lparr>tf_data = take kept data, tf_created = now\<rparr> (bs_tmp b)\<rparr>)
      | None \<Rightarrow>
          (case expected of
             Some h \<Rightarrow>
               if e_blake3 env data \<noteq> h
               then (Inl (HashMismatch h (e_blake3 env data)), b\<lparr>bs_tmp := hm_del name (bs_tmp b)\<rparr>)
               else move_into_place env name data b
           | None \<Rightarrow> move_into_place env name data b))"

text \<open>A stream is returned as what it delivers; nothing checks its hash.\<close>

definition read_stream :: "'c cas_env \<Rightarrow> content_hash \<Rightarrow> 'c blob_store \<Rightarrow> cas_error + bytes" where
  "read_stream env h b =
     and_then (map_err (\<lambda>e. InvalidOperation (''Hash validation failed: '' @ e))
         (validate_content_hash (e_hex env h))) (\<lambda>_.
       if \<not> exists_object env h (bs_store b) then Inl (ObjectNotFound h)
       else case read_from_packs env h (bs_store b) of
         Some d \<Rightarrow> Inr d
       | None \<Rightarrow>
           (case hm_get (s_files (bs_store b)) (object_path env h) of
              None \<Rightarrow> Inl (CasIo NotFound)
            | Some data \<Rightarrow> Inr data))"

text \<open>All spawned writes run; the first error is returned.\<close>

fun write_batch_stream ::
  "'c cas_env \<Rightarrow> nat \<Rightarrow> (string \<times> nat \<times> reader \<times> content_hash option) list \<Rightarrow> 'c blob_store \<Rightarrow>
   (cas_error + object_ref list) \<times> 'c blob_store" where
  "write_batch_stream env now [] b = (Inr [], b)"
| "write_batch_stream env now ((uuid, kept, reader, expected) # xs) b =
     (let (r, b1) = write_stream env uuid now kept reader expected b;
          (rs, b2) = write_batch_stream env now xs b1
      in (and_then r (\<lambda>x. and_then rs (\<lambda>ys. Inr (x # ys))), b2))"

section \<open>Resumable writes\<close>

definition partial_lifetime :: nat where
  "partial_lifetime = 24 * 3600 * 1000000000"

record partial_transfer =
  pa_name :: string
  pa_expected_hash :: "content_hash option"
  pa_total_size :: "u64 option"
  pa_bytes_received :: u64
  pa_hash_state :: "string option"
  pa_expires_at :: nat

definition new_partial :: "nat \<Rightarrow> string \<Rightarrow> content_hash option \<Rightarrow> u64 option \<Rightarrow> partial_transfer" where
  "new_partial now name expected tsize = \<lparr>pa_name = name, pa_expected_hash = expected,
     pa_total_size = tsize, pa_bytes_received = 0, pa_hash_state = None,
     pa_expires_at = now + partial_lifetime\<rparr>"

definition is_expired :: "nat \<Rightarrow> partial_transfer \<Rightarrow> bool" where
  "is_expired now p \<longleftrightarrow> now > pa_expires_at p"

definition start_resumable_write ::
  "string \<Rightarrow> nat \<Rightarrow> content_hash option \<Rightarrow> u64 option \<Rightarrow> partial_transfer" where
  "start_resumable_write uuid now expected tsize = new_partial now (uuid @ ''.partial'') expected tsize"

text \<open>\<open>File::create\<close> empties an existing file; opening for appending needs one.\<close>

definition open_partial :: "nat \<Rightarrow> partial_transfer \<Rightarrow> (string, tmp_file) hmap \<Rightarrow> cas_error + tmp_file" where
  "open_partial now p tmp =
     (case hm_get tmp (pa_name p) of
        None \<Rightarrow> if pa_bytes_received p = 0 then Inr \<lparr>tf_data = [], tf_created = now\<rparr> else Inl (CasIo NotFound)
      | Some f \<Rightarrow> if pa_bytes_received p = 0 then Inr (f\<lparr>tf_data := []\<rparr>) else Inr f)"

definition continue_resumable_write ::
  "nat \<Rightarrow> nat \<Rightarrow> reader \<Rightarrow> partial_transfer \<Rightarrow> 'c blob_store \<Rightarrow>
   (cas_error + unit) \<times> partial_transfer \<times> 'c blob_store" where
  "continue_resumable_write now kept reader p b =
     (if is_expired now p then (Inl (InvalidOperation ''Partial transfer has expired''), p, b)
      else case open_partial now p (bs_tmp b) of
        Inl e \<Rightarrow> (Inl e, p, b)
      | Inr f \<Rightarrow>
          let (data, err) = read_all reader;
              write = (\<lambda>d. b\<lparr>bs_tmp := hm_put (pa_name p) (f\<lparr>tf_data := tf_data f @ d\<rparr>) (bs_tmp b)\<rparr>)
          in case err of
            Some e \<Rightarrow> (Inl e, p, write (take kept data))
          | None \<Rightarrow> (Inr (),
              p\<lparr>pa_bytes_received := pa_bytes_received p + object_size data,
                pa_hash_state := Some ''state_placeholder''\<rparr>, write data))"

definition remove_partial :: "partial_transfer \<Rightarrow> 'c blob_store \<Rightarrow> 'c blob_store" where
  "remove_partial p b = b\<lparr>bs_tmp := hm_del (pa_name p) (bs_tmp b)\<rparr>"

definition size_mismatch :: "u64 \<Rightarrow> u64 \<Rightarrow> cas_error" where
  "size_mismatch expected actual = InvalidOperation (''Size mismatch: expected ''
     @ show_nat (unat expected) @ '', got '' @ show_nat (unat actual))"

definition complete_resumable_write ::
  "'c cas_env \<Rightarrow> nat \<Rightarrow> partial_transfer \<Rightarrow> 'c blob_store \<Rightarrow> (cas_error + object_ref) \<times> 'c blob_store" where
  "complete_resumable_write env now p b =
     (if is_expired now p
      then (Inl (InvalidOperation ''Partial transfer has expired''), remove_partial p b)
      else case hm_get (bs_tmp b) (pa_name p) of
        None \<Rightarrow> (Inl (InvalidOperation ''Partial transfer file not found''), b)
      | Some f \<Rightarrow>
          let h = e_blake3 env (tf_data f); n = object_size (tf_data f) in
          if pa_expected_hash p \<noteq> None \<and> pa_expected_hash p \<noteq> Some h
          then (Inl (HashMismatch (the (pa_expected_hash p)) h), remove_partial p b)
          else if pa_total_size p \<noteq> None \<and> pa_total_size p \<noteq> Some n
          then (Inl (size_mismatch (the (pa_total_size p)) n), remove_partial p b)
          else move_into_place env (pa_name p) (tf_data f) b)"

definition cancel_resumable_write :: "partial_transfer \<Rightarrow> 'c blob_store \<Rightarrow> 'c blob_store" where
  "cancel_resumable_write p b = remove_partial p b"

definition is_partial_name :: "string \<Rightarrow> bool" where
  "is_partial_name name \<longleftrightarrow> 8 \<le> length name \<and> drop (length name - 8) name = ''.partial''"

text \<open>A clock before the creation counts as no time; the age is taken in whole seconds.\<close>

definition stale :: "nat \<Rightarrow> string \<times> tmp_file \<Rightarrow> bool" where
  "stale now e \<longleftrightarrow> is_partial_name (fst e) \<and> (now - tf_created (snd e)) div 1000000000 > 24 * 3600"

definition cleanup_expired_partials :: "nat \<Rightarrow> 'c blob_store \<Rightarrow> nat \<times> 'c blob_store" where
  "cleanup_expired_partials now b =
     (length (filter (stale now) (bs_tmp b)), b\<lparr>bs_tmp := filter (\<lambda>e. \<not> stale now e) (bs_tmp b)\<rparr>)"

section \<open>Walks over the store\<close>

definition storage_stats :: "'c store \<Rightarrow> nat \<times> nat" where
  "storage_stats s =
     (let (c, n) = (length (s_files s), sum_list (map (\<lambda>(_, d). length d) (s_files s))) in
      case (if enable_packfiles (s_config s) then s_packs s else None) of
        None \<Rightarrow> (c, n)
      | Some m \<Rightarrow> (c + total_objects (manager_stats m), n + unat (total_packed_size (manager_stats m))))"

record verification_report =
  vr_total_objects :: nat
  vr_verified_count :: nat
  vr_corruption_count :: nat
  vr_error_count :: nat
  vr_corrupted_objects :: "content_hash list"
  vr_error_objects :: "(content_hash \<times> cas_error) list"
  vr_invalid_filenames :: "obj_path list"

definition new_report :: verification_report where
  "new_report = \<lparr>vr_total_objects = 0, vr_verified_count = 0, vr_corruption_count = 0,
     vr_error_count = 0, vr_corrupted_objects = [], vr_error_objects = [], vr_invalid_filenames = []\<rparr>"

definition is_healthy :: "verification_report \<Rightarrow> bool" where
  "is_healthy r \<longleftrightarrow> vr_corruption_count r = 0 \<and> vr_error_count r = 0"

definition verify_single_object ::
  "'c cas_env \<Rightarrow> content_hash \<Rightarrow> 'c store \<Rightarrow> ((cas_error + bool) \<times> 'c store) option" where
  "verify_single_object env h s =
     map_option (\<lambda>(r, s1). (case r of
         Inr _ \<Rightarrow> Inr True
       | Inl (ObjectNotFound _) \<Rightarrow> Inr False
       | Inl (HashMismatch _ _) \<Rightarrow> Inr False
       | Inl (CorruptObject _) \<Rightarrow> Inr False
       | Inl e \<Rightarrow> Inl e, s1)) (read_object env h s)"

text \<open>\<open>from_hex\<close> reads the hash back from the path, \<open>None\<close> if it is not one.\<close>

definition report_object ::
  "'c cas_env \<Rightarrow> (string \<Rightarrow> content_hash option) \<Rightarrow> obj_path \<Rightarrow> verification_report \<times> 'c store \<Rightarrow>
   (verification_report \<times> 'c store) option" where
  "report_object env from_hex p = (\<lambda>(r, s).
     let (a, b, f) = p; r1 = r\<lparr>vr_total_objects := vr_total_objects r + 1\<rparr> in
     case from_hex (a @ b @ f) of
       None \<Rightarrow> Some (r1\<lparr>vr_invalid_filenames := vr_invalid_filenames r1 @ [p],
         vr_error_count := vr_error_count r1 + 1\<rparr>, s)
     | Some h \<Rightarrow>
         map_option (\<lambda>(v, s1). (case v of
             Inr True \<Rightarrow> r1\<lparr>vr_verified_count := vr_verified_count r1 + 1\<rparr>
           | Inr False \<Rightarrow> r1\<lparr>vr_corrupted_objects := vr_corrupted_objects r1 @ [h],
               vr_corruption_count := vr_corruption_count r1 + 1\<rparr>
           | Inl e \<Rightarrow> r1\<lparr>vr_error_objects := vr_error_objects r1 @ [(h, e)],
               vr_error_count := vr_error_count r1 + 1\<rparr>, s1)) (verify_single_object env h s))"

fun report_objects ::
  "'c cas_env \<Rightarrow> (string \<Rightarrow> content_hash option) \<Rightarrow> obj_path list \<Rightarrow> verification_report \<times> 'c store \<Rightarrow>
   (verification_report \<times> 'c store) option" where
  "report_objects env from_hex [] rs = Some rs"
| "report_objects env from_hex (p # ps) rs =
     Option.bind (report_object env from_hex p rs) (report_objects env from_hex ps)"

definition verify_integrity ::
  "'c cas_env \<Rightarrow> (string \<Rightarrow> content_hash option) \<Rightarrow> (obj_path list \<Rightarrow> obj_path list) \<Rightarrow> 'c store \<Rightarrow>
   (verification_report \<times> 'c store) option" where
  "verify_integrity env from_hex order s =
     report_objects env from_hex (order (map fst (s_files s))) (new_report, s)"

fun prefetch :: "'c cas_env \<Rightarrow> bool \<Rightarrow> content_hash list \<Rightarrow> 'c store \<Rightarrow> 'c store option" where
  "prefetch env enabled [] s = Some s"
| "prefetch env enabled (h # hs) s =
     (if \<not> enabled then Some s
      else if lru_get (e_lru env) (s_cache s) h \<noteq> None then prefetch env enabled hs s
      else Option.bind (read_object env h s) (\<lambda>(_, s1). prefetch env enabled hs s1))"

section \<open>Well-formed stores stay well-formed\<close>

definition blob_ok :: "'c cas_env \<Rightarrow> 'c blob_store \<Rightarrow> bool" where
  "blob_ok env b \<longleftrightarrow> env_ok env \<and> store_ok env (bs_store b) \<and> hm_wf (bs_tmp b)"

text \<open>What the streaming side stores: not empty, and not colliding with the empty object.  There
  is no limit on the size.\<close>

definition streamable :: "'c cas_env \<Rightarrow> bytes \<Rightarrow> bool" where
  "streamable env d \<longleftrightarrow> d \<noteq> [] \<and> e_blake3 env d \<noteq> e_blake3 env []"

lemma moved_result [simp]:
  "fst (move_into_place env name data b) =
     Inr \<lparr>or_hash = e_blake3 env data, or_size = object_size data\<rparr>"
  "bs_tmp (snd (move_into_place env name data b)) = hm_del name (bs_tmp b)"
  by (simp_all add: move_into_place_def Let_def)

lemma moved_file:
  assumes "blob_ok env b"
  shows "hm_get (s_files (bs_store (snd (move_into_place env name data b)))) q =
    (if q = object_path env (e_blake3 env data) \<and> hm_get (s_files (bs_store b)) q = None
     then Some data else hm_get (s_files (bs_store b)) q)"
proof -
  have "hm_wf (s_files (bs_store b))" using assms by (simp add: blob_ok_def store_ok_def files_ok_def)
  then show ?thesis by (auto simp add: move_into_place_def Let_def hm_has_def hm.get_put)
qed

lemma blob_ok_move:
  assumes "blob_ok env b"
  shows "blob_ok env (snd (move_into_place env name data b))"
proof -
  let ?s = "bs_store b" and ?h = "e_blake3 env data"
  have env: "env_ok env" and s: "store_ok env ?s" and files: "files_ok env (s_files ?s)"
    using assms by (simp_all add: blob_ok_def store_ok_def)
  have l: "length ?h = 32" using env by (simp add: env_ok_def)
  have wf: "hm_wf (s_files ?s)" "hm_wf (s_dedup ?s)" "hm_wf (bs_tmp b)"
    using assms by (simp_all add: blob_ok_def store_ok_def files_ok_def)
  let ?fs = "s_files (bs_store (snd (move_into_place env name data b)))"
  have "hm_wf ?fs" using wf(1) by (simp add: move_into_place_def Let_def hm.wf_put)
  then have "files_ok env ?fs"
    using files by (auto simp add: files_ok_def moved_file [OF assms] split: if_splits)
  moreover have "hm_has ?fs (object_path env g)"
    if "hm_get (hm_put ?h r (s_dedup ?s)) g = Some r'" for g r r'
    using that s wf(2) by (auto simp add: hm_has_def moved_file [OF assms] hm.get_put store_ok_def split: if_splits)
  moreover have "length g = 32" if "hm_get (hm_put ?h r (s_dedup ?s)) g = Some r'" for g r r'
    using that s l wf(2) by (auto simp add: hm.get_put store_ok_def split: if_splits)
  ultimately show ?thesis
    using env s wf by (auto simp add: blob_ok_def store_ok_def move_into_place_def Let_def hm.wf_put hm.wf_del)
qed

lemma read_after_move_keeps:
  assumes "blob_ok env b" and "read_individual env h (bs_store b) = Inr d"
  shows "read_individual env h (bs_store (snd (move_into_place env name data b))) = Inr d"
  using assms by (simp add: read_individual_file moved_file)

lemma read_after_move:
  assumes ok: "blob_ok env b" and good: "streamable env data"
  shows "\<exists>x. read_individual env (e_blake3 env data) (bs_store (snd (move_into_place env name data b))) = Inr x"
proof (cases "hm_get (s_files (bs_store b)) (object_path env (e_blake3 env data))")
  case None
  then show ?thesis using good by (simp add: read_individual_file moved_file [OF ok] streamable_def)
next
  case (Some c)
  have env: "env_ok env" and files: "files_ok env (s_files (bs_store b))"
    using ok by (simp_all add: blob_ok_def store_ok_def)
  have l: "length (e_blake3 env x) = 32" for x using env by (simp add: env_ok_def)
  from files_okD [OF files Some object_path_not_temp [OF env l]]
  have "e_blake3 env c = e_blake3 env data" by (rule object_path_inj [OF env l l])
  with Some good show ?thesis by (auto simp add: read_individual_file moved_file [OF ok] streamable_def)
qed

lemma write_stream_all: "write_stream env uuid now kept [Inr d] None b =
    move_into_place env (uuid @ ''.tmp'') d b"
  by (simp add: write_stream_def)

interpretation streamed: chunk_store "\<lambda>d b. snd (write_stream env uuid now kept [Inr d] None b)"
    "\<lambda>h b. read_individual env h (bs_store b)" "e_blake3 env" "streamable env" "blob_ok env"
  for env uuid now kept
  unfolding write_stream_all
  by unfold_locales
    (blast intro: blob_ok_move read_after_move_keeps read_after_move, simp add: read_individual_file,
     blast intro: read_after_move_keeps, blast intro: read_after_move)

section \<open>What resumable writes collect\<close>

text \<open>One attempt to continue a write: when, from which reader, and how much of the data before a
  failure reaches the file.  What the file holds and how many bytes count as received:\<close>

type_synonym attempt = "nat \<times> reader \<times> nat"

fun attempt_step :: "attempt \<Rightarrow> bytes \<times> u64 \<Rightarrow> bytes \<times> u64" where
  "attempt_step (now, reader, kept) (c, n) =
     (let base = (if n = 0 then [] else c) in
      case read_all reader of
        (d, None) \<Rightarrow> (base @ d, n + object_size d)
      | (d, Some e) \<Rightarrow> (base @ take kept d, n))"

definition collected :: "attempt list \<Rightarrow> bytes" where
  "collected as = fst (fold attempt_step as ([], 0))"

fun try_continue :: "attempt \<Rightarrow> partial_transfer \<times> 'c blob_store \<Rightarrow> partial_transfer \<times> 'c blob_store" where
  "try_continue (now, reader, kept) (p, b) = snd (continue_resumable_write now kept reader p b)"

definition in_time :: "nat \<Rightarrow> attempt \<Rightarrow> bool" where
  "in_time deadline a \<longleftrightarrow> fst a \<le> deadline"

lemma try_continue_step:
  assumes "blob_ok env b" and "in_time (pa_expires_at p) a"
    and "pa_bytes_received p = 0 \<or> map_option tf_data (hm_get (bs_tmp b) (pa_name p)) = Some c"
    and "try_continue a (p, b) = (p', b')"
  shows "blob_ok env b'" and "bs_store b' = bs_store b"
    and "map_option tf_data (hm_get (bs_tmp b') (pa_name p)) = Some (fst (attempt_step a (c, pa_bytes_received p)))"
    and "pa_bytes_received p' = snd (attempt_step a (c, pa_bytes_received p))"
    and "pa_name p' = pa_name p" "pa_expires_at p' = pa_expires_at p"
      "pa_expected_hash p' = pa_expected_hash p" "pa_total_size p' = pa_total_size p"
proof -
  obtain now reader kept where a: "a = (now, reader, kept)" by (cases a)
  obtain d e where r: "read_all reader = (d, e)" by fastforce
  have wf: "hm_wf (bs_tmp b)" using assms(1) by (simp add: blob_ok_def)
  obtain f where f: "open_partial now p (bs_tmp b) = Inr f"
      "tf_data f = (if pa_bytes_received p = 0 then [] else c)"
    using assms(3)
    by (cases "hm_get (bs_tmp b) (pa_name p)"; cases "pa_bytes_received p = 0") (auto simp add: open_partial_def)
  have exp: "\<not> is_expired now p" using assms(2) by (simp add: a in_time_def is_expired_def)
  show "blob_ok env b'" and "bs_store b' = bs_store b"
    and "map_option tf_data (hm_get (bs_tmp b') (pa_name p)) = Some (fst (attempt_step a (c, pa_bytes_received p)))"
    and "pa_bytes_received p' = snd (attempt_step a (c, pa_bytes_received p))"
    and "pa_name p' = pa_name p" "pa_expires_at p' = pa_expires_at p"
      "pa_expected_hash p' = pa_expected_hash p" "pa_total_size p' = pa_total_size p"
    using assms(1,4) exp f wf
    by (cases e; force simp add: a continue_resumable_write_def r Let_def blob_ok_def hm.get_put hm.wf_put)+
qed

lemma attempt_step_empty: "attempt_step a (c, 0) = attempt_step a ([], 0)"
  by (cases a) simp

lemma try_continue_run:
  assumes "blob_ok env b" and "list_all (in_time (pa_expires_at p)) as"
    and "map_option tf_data (hm_get (bs_tmp b) (pa_name p)) = Some c"
    and "fold try_continue as (p, b) = (p', b')"
  shows "blob_ok env b' \<and> bs_store b' = bs_store b \<and>
    map_option tf_data (hm_get (bs_tmp b') (pa_name p)) = Some (fst (fold attempt_step as (c, pa_bytes_received p))) \<and>
    pa_name p' = pa_name p \<and> pa_expires_at p' = pa_expires_at p \<and>
    pa_expected_hash p' = pa_expected_hash p \<and> pa_total_size p' = pa_total_size p"
  using assms
proof (induction as arbitrary: p b c)
  case Nil
  then show ?case by auto
next
  case (Cons a as)
  obtain p1 b1 where one: "try_continue a (p, b) = (p1, b1)" by fastforce
  have t: "in_time (pa_expires_at p) a" using Cons.prems(2) by simp
  note st = try_continue_step [OF Cons.prems(1) t disjI2 [OF Cons.prems(3)] one]
  have "fold try_continue as (p1, b1) = (p', b')" using Cons.prems(4) one by simp
  moreover have "fold attempt_step (a # as) (c, pa_bytes_received p) =
      fold attempt_step as (fst (attempt_step a (c, pa_bytes_received p)), pa_bytes_received p1)"
    by (simp add: st(4))
  ultimately show ?case
    using Cons.IH [OF st(1), of p1 "fst (attempt_step a (c, pa_bytes_received p))"] Cons.prems(2) st
    by simp
qed

lemma collected_run:
  assumes "blob_ok env b" and "list_all (in_time (pa_expires_at p)) as" and "as \<noteq> []"
    and "pa_bytes_received p = 0" and "fold try_continue as (p, b) = (p', b')"
  shows "blob_ok env b' \<and> bs_store b' = bs_store b \<and>
    map_option tf_data (hm_get (bs_tmp b') (pa_name p)) = Some (collected as) \<and>
    pa_name p' = pa_name p \<and> pa_expires_at p' = pa_expires_at p \<and>
    pa_expected_hash p' = pa_expected_hash p \<and> pa_total_size p' = pa_total_size p"
proof -
  obtain a as' where as: "as = a # as'" using assms(3) by (cases as) auto
  obtain p1 b1 where one: "try_continue a (p, b) = (p1, b1)" by fastforce
  have t: "in_time (pa_expires_at p) a" using assms(2) as by simp
  have "pa_bytes_received p = 0 \<or> map_option tf_data (hm_get (bs_tmp b) (pa_name p)) = Some []"
    using assms(4) ..
  note st = try_continue_step [OF assms(1) t this one]
  have "fold try_continue as' (p1, b1) = (p', b')" using assms(5) one as by simp
  moreover have "list_all (in_time (pa_expires_at p1)) as'" using assms(2) as st(6) by simp
  moreover have "map_option tf_data (hm_get (bs_tmp b1) (pa_name p1)) = Some (fst (attempt_step a ([], 0)))"
    using st(3,5) assms(4) by simp
  moreover have "collected as = fst (fold attempt_step as' (fst (attempt_step a ([], 0)), pa_bytes_received p1))"
    using st(4) assms(4) as by (simp add: collected_def)
  ultimately show ?thesis using try_continue_run [OF st(1), of p1 as'] st(2,5-8) by metis
qed

lemma collected_all:
  assumes "list_all (\<lambda>(now, reader, kept). snd (read_all reader) = None) as"
    and "sum_list (map (\<lambda>(now, reader, kept). length (fst (read_all reader))) as) < 2 ^ 64"
  shows "collected as = concat (map (\<lambda>(now, reader, kept). fst (read_all reader)) as)"
proof -
  let ?data = "\<lambda>(now :: nat, reader, kept :: nat). fst (read_all reader)"
  have "fold attempt_step as (c, word_of_nat (length c)) = (c @ concat (map ?data as),
      word_of_nat (length c) + word_of_nat (length (concat (map ?data as))))"
    if "list_all (\<lambda>(now, reader, kept). snd (read_all reader) = None) as"
      and "length c + sum_list (map (\<lambda>(now, reader, kept). length (fst (read_all reader))) as) < 2 ^ 64"
    for c
    using that
  proof (induction as arbitrary: c)
    case Nil
    then show ?case by simp
  next
    case (Cons a as)
    obtain now reader kept where a: "a = (now, reader, kept)" by (cases a)
    obtain d where d: "read_all reader = (d, None)" using Cons.prems(1) a by (cases "read_all reader") auto
    have "unat (word_of_nat (length c) :: u64) = length c"
      using Cons.prems(2) by (intro unat_of_nat_u64) simp
    then have "(word_of_nat (length c) :: u64) = 0 \<longleftrightarrow> c = []" by (metis length_0_conv unat_eq_zero)
    then have "attempt_step a (c, word_of_nat (length c)) = (c @ d, word_of_nat (length (c @ d)))"
      by (simp add: a d object_size_def)
    then show ?case
      using Cons.IH [of "c @ d"] Cons.prems by (simp add: a d)
  qed
  from this [OF assms(1), of "[]"] assms(2) show ?thesis by (simp add: collected_def)
qed

section \<open>Properties\<close>

text \<open>What a resumable write stores: whatever attempts to continue it were made in time, also
  failed ones, completing it succeeds exactly if the expected hash and size, where given, are
  those of what the attempts collected, and then stores that under its hash; otherwise the store
  is unchanged and everything collected is deleted.  The partial file is gone in both cases, and
  every object that was readable still is.\<close>

theorem resumable_write_outcome:
  assumes "blob_ok env b" and "as \<noteq> []" and "list_all (in_time (start + partial_lifetime)) as"
    and "now \<le> start + partial_lifetime"
  shows "let (p, b1) = fold try_continue as (start_resumable_write uuid start expected tsize, b);
      (r, b2) = complete_resumable_write env now p b1; c = collected as in
    (if expected \<in> {None, Some (e_blake3 env c)} \<and> tsize \<in> {None, Some (object_size c)}
     then r = Inr \<lparr>or_hash = e_blake3 env c, or_size = object_size c\<rparr> \<and>
       (streamable env c \<longrightarrow> is_ok (read_individual env (e_blake3 env c) (bs_store b2)))
     else \<not> is_ok r \<and> bs_store b2 = bs_store b) \<and>
    hm_get (bs_tmp b2) (uuid @ ''.partial'') = None \<and>
    (\<forall>h d. read_individual env h (bs_store b) = Inr d \<longrightarrow> read_individual env h (bs_store b2) = Inr d)"
proof -
  let ?p = "start_resumable_write uuid start expected tsize"
  obtain p b1 where run: "fold try_continue as (?p, b) = (p, b1)" by fastforce
  have p: "pa_bytes_received ?p = 0" "pa_name ?p = uuid @ ''.partial''" "pa_expected_hash ?p = expected"
      "pa_total_size ?p = tsize" "pa_expires_at ?p = start + partial_lifetime"
    by (simp_all add: start_resumable_write_def new_partial_def)
  have c: "blob_ok env b1" "bs_store b1 = bs_store b" "pa_name p = uuid @ ''.partial''"
      "map_option tf_data (hm_get (bs_tmp b1) (pa_name p)) = Some (collected as)"
      "pa_expected_hash p = expected" "pa_total_size p = tsize" "\<not> is_expired now p"
    using collected_run [OF assms(1) _ assms(2) p(1) run] assms(3,4) p by (simp_all add: is_expired_def)
  then obtain f where f: "hm_get (bs_tmp b1) (pa_name p) = Some f" "tf_data f = collected as" by auto
  have wf: "hm_wf (bs_tmp b1)" using c(1) by (simp add: blob_ok_def)
  let ?c = "collected as" and ?n = "uuid @ ''.partial''"
  obtain bm where bm: "move_into_place env ?n ?c b1 =
      (Inr \<lparr>or_hash = e_blake3 env ?c, or_size = object_size ?c\<rparr>, bm)"
    by (metis moved_result(1) prod.collapse)
  have tmp: "bs_tmp bm = hm_del ?n (bs_tmp b1)"
    using moved_result(2) [of env ?n ?c b1] by (simp add: bm)
  have keeps: "read_individual env h (bs_store bm) = Inr d" if "read_individual env h (bs_store b) = Inr d" for h d
    using read_after_move_keeps [OF c(1), of h d ?n ?c] that by (simp add: bm c(2))
  have new: "streamable env ?c \<Longrightarrow> \<exists>x. read_individual env (e_blake3 env ?c) (bs_store bm) = Inr x"
    using read_after_move [OF c(1), of ?c ?n] by (simp add: bm)
  show ?thesis
    using c(2,3,5,6,7) f tmp keeps new wf
    by (auto simp add: run bm complete_resumable_write_def Let_def remove_partial_def hm.get_del is_ok_iff)
qed

text \<open>A failed attempt leaves bytes that do not count: sent again from the position the transfer
  reports, they are in the file twice.\<close>

lemma collected_after_failure:
  assumes "d1 \<noteq> []" and "length d1 < 2 ^ 64" and "d2 \<noteq> []"
  shows "collected [(t1, [Inr d1], k1), (t2, [Inr d2, Inl e], k2), (t3, [Inr d2], k3)] = d1 @ take k2 d2 @ d2"
proof -
  have "unat (object_size d1) = length d1" using assms(2) by (simp add: object_size_def unat_of_nat_u64)
  then have "object_size d1 \<noteq> 0" using assms(1) by auto
  then show ?thesis using assms(1,3) by (simp add: collected_def)
qed

definition sample_blob :: "(content_hash \<times> cached_chunk) list blob_store" where
  "sample_blob = \<lparr>bs_store = new_store (sample_env 1) rev default_cas_config None 0 [], bs_tmp = []\<rparr>"

lemma sample_blob_ok: "blob_ok (sample_env 1) sample_blob"
  by (simp add: blob_ok_def sample_blob_def sample_env_ok hm.wf_empty
      store_ok_new [OF sample_env_ok iter_order_rev])

definition sample_attempts :: "attempt list" where
  "sample_attempts = [(1, [Inr [1, 2]], 0), (2, [Inr [3], Inl (CasIo NotFound)], 0), (3, [Inr [3], Inr []], 0)]"

lemma sample_collected: "collected sample_attempts = [1, 2, 3]"
  by (simp add: collected_def sample_attempts_def object_size_def)

text \<open>An upload of three bytes in three attempts, the second one broken, is stored and reads back.\<close>

lemma resumable_write_outcome_witness:
  "let (p, b1) = fold try_continue sample_attempts (start_resumable_write ''u'' 0 None None, sample_blob);
     (r, b2) = complete_resumable_write (sample_env 1) 3 p b1 in
   is_ok r \<and> is_ok (read_individual (sample_env 1) (pad_hash [1, 2, 3]) (bs_store b2))"
proof -
  have t: "list_all (in_time (0 + partial_lifetime)) sample_attempts" "3 \<le> 0 + partial_lifetime"
    by (simp_all add: sample_attempts_def in_time_def partial_lifetime_def)
  have good: "streamable (sample_env 1) (collected sample_attempts)"
    by (simp add: streamable_def sample_collected pad_hash_def numeral_eq_Suc)
  have "sample_attempts \<noteq> []" by (simp add: sample_attempts_def)
  from resumable_write_outcome [OF sample_blob_ok this t, of "''u''" None None] good show ?thesis
    by (simp add: sample_collected split_beta Let_def is_ok_iff)
qed

end
