(* ===== verification/Sync_Db.thy ===== *)
theory Sync_Db
  imports Manifest Machines
begin

text \<open>
  The SQL database of the sync state (\<open>landro-sync/src/state.rs\<close>): its tables as the schema
  declares them, and one operation per statement.

  A row is a record and a table the list of its rows in insertion order; the columns no
  statement reads (\<open>updated_at\<close>, the conflict log, which nothing writes) are left out.  An
  integer column is SQLite's signed 64-bit integer, and a time column is text, the seconds of
  \<open>CURRENT_TIMESTAMP\<close> as their number.  The environment
  holds what is not code of the repository: serde's JSON of a peer state, chrono's RFC 3339
  printer and parser, SQLite's \<open>datetime\<close> function, whether the library was built to enforce
  foreign keys, and the order in which rows with equal sort keys come.
\<close>

section \<open>Peer states\<close>

datatype peer_state =
    PeerIdle
  | PeerNegotiating
  | PeerTransferring u32
  | PeerCompleted date_time
  | PeerFailed string date_time

record peer_sync_state =
  ps_peer_name :: string
  ps_last_sync :: "date_time option"
  ps_last_manifest_hash :: "string option"
  ps_bytes_sent :: u64
  ps_bytes_received :: u64
  ps_files_sent :: u64
  ps_files_received :: u64
  ps_current_state :: peer_state

section \<open>Tables\<close>

record peer_row =
  pr_peer_id :: string
  pr_peer_name :: string
  pr_last_sync :: "string option"
  pr_last_manifest_hash :: "string option"
  pr_bytes_sent :: int
  pr_bytes_received :: int
  pr_files_sent :: int
  pr_files_received :: int
  pr_current_state :: string

record pending_transfer =
  pt_id :: int
  pt_peer_id :: string
  pt_folder_id :: string
  pt_file_path :: string
  pt_chunk_hash :: string
  pt_priority :: int
  pt_retry_count :: int
  pt_created_at :: int

record sync_session =
  sn_peer_id :: string
  sn_start_time :: date_time
  sn_end_time :: "date_time option"
  sn_bytes_sent :: u64
  sn_bytes_received :: u64
  sn_files_sent :: u64
  sn_files_received :: u64
  sn_success :: bool
  sn_error_message :: "string option"

record history_row =
  hr_peer_id :: string
  hr_start_time :: string
  hr_end_time :: "string option"
  hr_counters :: "int list"
  hr_success :: bool
  hr_error_message :: "string option"

record sync_db =
  db_peers :: "peer_row list"
  db_pending :: "pending_transfer list"
  db_next_id :: int
  db_history :: "history_row list"

record db_env =
  e_state_json :: "peer_state \<Rightarrow> string"
  e_parse_state :: "string \<Rightarrow> peer_state option"
  e_rfc3339 :: "date_time \<Rightarrow> string"
  e_parse_rfc3339 :: "string \<Rightarrow> date_time option"
  e_sql_datetime :: "string \<Rightarrow> string option"
  e_foreign_keys :: bool
  e_ties :: "pending_transfer list \<Rightarrow> pending_transfer list"

text \<open>\<open>ToSqlConversionFailure\<close>, \<open>IntegralValueOutOfRange\<close> and a constraint violation.\<close>

datatype db_error = ConversionFailure | ValueOutOfRange | ForeignKeyViolation

definition new_db :: sync_db where
  "new_db = \<lparr>db_peers = [], db_pending = [], db_next_id = 1, db_history = []\<rparr>"

text \<open>A \<open>u64\<close> is bound as a signed integer, and read back as one that must not be negative.\<close>

definition to_sql :: "u64 \<Rightarrow> db_error + int" where
  "to_sql v = (if unat v < 2 ^ 63 then Inr (uint v) else Inl ConversionFailure)"

definition from_sql :: "int \<Rightarrow> db_error + u64" where
  "from_sql v = (if 0 \<le> v then Inr (word_of_int v) else Inl ValueOutOfRange)"

definition has_peer :: "string \<Rightarrow> sync_db \<Rightarrow> bool" where
  "has_peer i db \<longleftrightarrow> i \<in> set (map pr_peer_id (db_peers db))"

section \<open>Statements\<close>

definition peer_row_of :: "db_env \<Rightarrow> string \<Rightarrow> peer_sync_state \<Rightarrow> db_error + peer_row" where
  "peer_row_of env i st =
     and_then (to_sql (ps_bytes_sent st)) (\<lambda>bs.
     and_then (to_sql (ps_bytes_received st)) (\<lambda>br.
     and_then (to_sql (ps_files_sent st)) (\<lambda>fs.
     and_then (to_sql (ps_files_received st)) (\<lambda>fr.
       Inr \<lparr>pr_peer_id = i, pr_peer_name = ps_peer_name st,
         pr_last_sync = map_option (e_rfc3339 env) (ps_last_sync st),
         pr_last_manifest_hash = ps_last_manifest_hash st,
         pr_bytes_sent = bs, pr_bytes_received = br, pr_files_sent = fs, pr_files_received = fr,
         pr_current_state = e_state_json env (ps_current_state st)\<rparr>))))"

definition put_row :: "peer_row \<Rightarrow> peer_row list \<Rightarrow> peer_row list" where
  "put_row r rows =
     (if pr_peer_id r \<in> set (map pr_peer_id rows)
      then map (\<lambda>x. if pr_peer_id x = pr_peer_id r then r else x) rows else rows @ [r])"

definition upsert_peer_state :: "db_env \<Rightarrow> string \<Rightarrow> peer_sync_state \<Rightarrow> sync_db \<Rightarrow> db_error + sync_db" where
  "upsert_peer_state env i st db =
     and_then (peer_row_of env i st) (\<lambda>r. Inr (db\<lparr>db_peers := put_row r (db_peers db)\<rparr>))"

definition read_peer ::
  "db_env \<Rightarrow> (string \<Rightarrow> string option) \<Rightarrow> peer_row \<Rightarrow> db_error + string \<times> peer_sync_state" where
  "read_peer env column r =
     and_then (from_sql (pr_bytes_sent r)) (\<lambda>bs.
     and_then (from_sql (pr_bytes_received r)) (\<lambda>br.
     and_then (from_sql (pr_files_sent r)) (\<lambda>fs.
     and_then (from_sql (pr_files_received r)) (\<lambda>fr.
       Inr (pr_peer_id r, \<lparr>ps_peer_name = pr_peer_name r,
         ps_last_sync = Option.bind (Option.bind (pr_last_sync r) column) (e_parse_rfc3339 env),
         ps_last_manifest_hash = pr_last_manifest_hash r,
         ps_bytes_sent = bs, ps_bytes_received = br, ps_files_sent = fs, ps_files_received = fr,
         ps_current_state = (case e_parse_state env (pr_current_state r) of
           Some s \<Rightarrow> s | None \<Rightarrow> PeerIdle)\<rparr>)))))"

definition get_peer_state :: "db_env \<Rightarrow> string \<Rightarrow> sync_db \<Rightarrow> db_error + peer_sync_state option" where
  "get_peer_state env i db =
     (case find (\<lambda>r. pr_peer_id r = i) (db_peers db) of
        None \<Rightarrow> Inr None
      | Some r \<Rightarrow> and_then (read_peer env (e_sql_datetime env) r) (\<lambda>(_, st). Inr (Some st)))"

fun read_peers :: "db_env \<Rightarrow> peer_row list \<Rightarrow> db_error + (string \<times> peer_sync_state) list" where
  "read_peers env [] = Inr []"
| "read_peers env (r # rs) =
     and_then (read_peer env Some r) (\<lambda>p. and_then (read_peers env rs) (\<lambda>ps. Inr (p # ps)))"

definition get_all_peer_states ::
  "db_env \<Rightarrow> sync_db \<Rightarrow> db_error + (string, peer_sync_state) hmap" where
  "get_all_peer_states env db = and_then (read_peers env (db_peers db)) (\<lambda>ps. Inr (hm_collect ps))"

definition same_transfer :: "string \<Rightarrow> string \<Rightarrow> string \<Rightarrow> pending_transfer \<Rightarrow> bool" where
  "same_transfer peer folder chunk t \<longleftrightarrow>
     (pt_peer_id t, pt_folder_id t, pt_chunk_hash t) = (peer, folder, chunk)"

definition add_pending_transfer ::
  "db_env \<Rightarrow> date_time \<Rightarrow> string \<Rightarrow> string \<Rightarrow> string \<Rightarrow> string \<Rightarrow> int \<Rightarrow> sync_db \<Rightarrow> db_error + sync_db" where
  "add_pending_transfer env now peer folder fpath chunk priority db =
     (if list_ex (same_transfer peer folder chunk) (db_pending db) then Inr db
      else if e_foreign_keys env \<and> \<not> has_peer peer db then Inl ForeignKeyViolation
      else Inr (db\<lparr>db_pending := db_pending db @
          [\<lparr>pt_id = db_next_id db, pt_peer_id = peer, pt_folder_id = folder, pt_file_path = fpath,
            pt_chunk_hash = chunk, pt_priority = priority, pt_retry_count = 0, pt_created_at = timestamp now\<rparr>],
        db_next_id := db_next_id db + 1\<rparr>))"

text \<open>A limit that is negative as a signed integer is no limit.\<close>

definition get_pending_transfers :: "db_env \<Rightarrow> string \<Rightarrow> u64 \<Rightarrow> sync_db \<Rightarrow> pending_transfer list" where
  "get_pending_transfers env peer limit db =
     (let rows = sort_key (\<lambda>t. (- pt_priority t, pt_created_at t))
        (e_ties env (filter (\<lambda>t. pt_peer_id t = peer) (db_pending db)))
      in if sint limit < 0 then rows else take (unat limit) rows)"

definition remove_pending_transfer :: "int \<Rightarrow> sync_db \<Rightarrow> sync_db" where
  "remove_pending_transfer i db = db\<lparr>db_pending := filter (\<lambda>t. pt_id t \<noteq> i) (db_pending db)\<rparr>"

definition remove_pending_transfer_by_hash :: "string \<Rightarrow> string \<Rightarrow> sync_db \<Rightarrow> sync_db" where
  "remove_pending_transfer_by_hash peer chunk db =
     db\<lparr>db_pending := filter (\<lambda>t. \<not> (pt_peer_id t = peer \<and> pt_chunk_hash t = chunk)) (db_pending db)\<rparr>"

definition record_sync_session :: "db_env \<Rightarrow> sync_session \<Rightarrow> sync_db \<Rightarrow> db_error + sync_db" where
  "record_sync_session env s db =
     and_then (to_sql (sn_bytes_sent s)) (\<lambda>bs.
     and_then (to_sql (sn_bytes_received s)) (\<lambda>br.
     and_then (to_sql (sn_files_sent s)) (\<lambda>fs.
     and_then (to_sql (sn_files_received s)) (\<lambda>fr.
       if e_foreign_keys env \<and> \<not> has_peer (sn_peer_id s) db then Inl ForeignKeyViolation
       else Inr (db\<lparr>db_history := db_history db @
         [\<lparr>hr_peer_id = sn_peer_id s, hr_start_time = e_rfc3339 env (sn_start_time s),
           hr_end_time = map_option (e_rfc3339 env) (sn_end_time s), hr_counters = [bs, br, fs, fr],
           hr_success = sn_success s, hr_error_message = sn_error_message s\<rparr>]\<rparr>)))))"

datatype db_op =
    Upsert string peer_sync_state
  | AddPending date_time string string string string int
  | RemovePending int
  | RemoveByHash string string
  | RecordSession sync_session

fun db_step :: "db_env \<Rightarrow> db_op \<Rightarrow> sync_db \<Rightarrow> sync_db" where
  "db_step env (Upsert i st) db = (case upsert_peer_state env i st db of Inl _ \<Rightarrow> db | Inr db' \<Rightarrow> db')"
| "db_step env (AddPending now peer folder fpath chunk priority) db =
     (case add_pending_transfer env now peer folder fpath chunk priority db of Inl _ \<Rightarrow> db | Inr db' \<Rightarrow> db')"
| "db_step env (RemovePending i) db = remove_pending_transfer i db"
| "db_step env (RemoveByHash peer chunk) db = remove_pending_transfer_by_hash peer chunk db"
| "db_step env (RecordSession s) db = (case record_sync_session env s db of Inl _ \<Rightarrow> db | Inr db' \<Rightarrow> db')"

section \<open>The schema\<close>

text \<open>What the schema and the column types promise: keys are unique, ids are assigned in order
  and never reused, counters are readable, and references point to peers when they are
  enforced.\<close>

definition counter_ok :: "int \<Rightarrow> bool" where
  "counter_ok v \<longleftrightarrow> 0 \<le> v \<and> v < 2 ^ 63"

definition peer_row_ok :: "peer_row \<Rightarrow> bool" where
  "peer_row_ok r \<longleftrightarrow>
     list_all counter_ok [pr_bytes_sent r, pr_bytes_received r, pr_files_sent r, pr_files_received r]"

definition transfer_key :: "pending_transfer \<Rightarrow> string \<times> string \<times> string" where
  "transfer_key t = (pt_peer_id t, pt_folder_id t, pt_chunk_hash t)"

definition db_ok :: "db_env \<Rightarrow> sync_db \<Rightarrow> bool" where
  "db_ok env db \<longleftrightarrow>
     distinct (map pr_peer_id (db_peers db)) \<and> list_all peer_row_ok (db_peers db) \<and>
     distinct (map transfer_key (db_pending db)) \<and> distinct (map pt_id (db_pending db)) \<and>
     list_all (\<lambda>t. pt_id t < db_next_id db) (db_pending db) \<and>
     list_all (\<lambda>h. list_all counter_ok (hr_counters h)) (db_history db) \<and>
     (e_foreign_keys env \<longrightarrow> list_all (\<lambda>t. has_peer (pt_peer_id t) db) (db_pending db) \<and>
        list_all (\<lambda>h. has_peer (hr_peer_id h) db) (db_history db))"

text \<open>The documented behaviour of the environment: JSON and RFC 3339 text read back (of a
  transfer's progress, a float, only the zero is ever stored), and the text \<open>datetime\<close> returns (\<open>YYYY-MM-DD HH:MM:SS\<close>, without an offset) is not RFC 3339.\<close>

fun json_safe :: "peer_state \<Rightarrow> bool" where
  "json_safe (PeerTransferring progress) \<longleftrightarrow> progress = 0"
| "json_safe _ \<longleftrightarrow> True"

definition db_env_ok :: "db_env \<Rightarrow> bool" where
  "db_env_ok env \<longleftrightarrow>
     (\<forall>s. json_safe s \<longrightarrow> e_parse_state env (e_state_json env s) = Some s) \<and>
     (\<forall>t. e_parse_rfc3339 env (e_rfc3339 env t) = Some t) \<and>
     (\<forall>s d. e_sql_datetime env s = Some d \<longrightarrow> e_parse_rfc3339 env d = None) \<and>
     iter_order (e_ties env)"

lemma to_sql_Inr [simp]: "to_sql v = Inr x \<longleftrightarrow> unat v < 2 ^ 63 \<and> x = uint v"
  by (auto simp add: to_sql_def)

lemma counter_ok_uint: "unat v < 2 ^ 63 \<Longrightarrow> counter_ok (uint v)"
  unfolding counter_ok_def unat_eq_nat_uint by (simp add: nat_less_iff del: nat_uint_eq)

lemma from_sql_uint [simp]: "from_sql (uint v) = Inr v"
  by (simp add: from_sql_def)

lemma peer_row_of_Inr:
  "peer_row_of env i st = Inr r \<Longrightarrow> pr_peer_id r = i \<and> peer_row_ok r"
  by (auto simp add: peer_row_of_def and_then_Inr_iff peer_row_ok_def counter_ok_uint)

lemma read_peer_row_of:
  assumes "db_env_ok env" and "peer_row_of env i st = Inr r" and "json_safe (ps_current_state st)"
  shows "read_peer env Some r = Inr (i, st)"
    and "read_peer env (e_sql_datetime env) r = Inr (i, st\<lparr>ps_last_sync := None\<rparr>)"
proof -
  have "Option.bind (map_option (e_rfc3339 env) t) (e_parse_rfc3339 env) = t" for t
    using assms(1) by (cases t) (simp_all add: db_env_ok_def)
  moreover have "Option.bind (Option.bind (map_option (e_rfc3339 env) t) (e_sql_datetime env))
      (e_parse_rfc3339 env) = None" for t
    using assms(1) by (cases t; cases "e_sql_datetime env (e_rfc3339 env (the t))")
      (auto simp add: db_env_ok_def)
  ultimately show "read_peer env Some r = Inr (i, st)"
    and "read_peer env (e_sql_datetime env) r = Inr (i, st\<lparr>ps_last_sync := None\<rparr>)"
    using assms by (auto simp add: peer_row_of_def and_then_Inr_iff read_peer_def db_env_ok_def)
qed

lemma keys_put_row: "map pr_peer_id (put_row r rows) =
    (if pr_peer_id r \<in> set (map pr_peer_id rows) then map pr_peer_id rows
     else map pr_peer_id rows @ [pr_peer_id r])"
  by (auto simp add: put_row_def)

lemma set_put_row: "x \<in> set (put_row r rows) \<Longrightarrow> x = r \<or> x \<in> set rows \<and> pr_peer_id x \<noteq> pr_peer_id r"
  by (auto simp add: put_row_def image_iff split: if_splits)

lemma has_peer_upsert:
  "upsert_peer_state env i st db = Inr db' \<Longrightarrow> has_peer j db' \<longleftrightarrow> j = i \<or> has_peer j db"
  by (auto simp add: upsert_peer_state_def and_then_Inr_iff has_peer_def keys_put_row simp del: set_map
      dest!: peer_row_of_Inr split: if_splits)

lemma db_ok_upsert:
  assumes "db_ok env db" and "upsert_peer_state env i st db = Inr db'"
  shows "db_ok env db'"
proof -
  obtain r where r: "peer_row_of env i st = Inr r" and db': "db' = db\<lparr>db_peers := put_row r (db_peers db)\<rparr>"
    using assms(2) by (auto simp add: upsert_peer_state_def and_then_Inr_iff)
  have "distinct (map pr_peer_id (db_peers db'))"
    using assms(1) by (simp add: db' keys_put_row db_ok_def)
  moreover have "list_all peer_row_ok (db_peers db')"
    using assms(1) peer_row_of_Inr [OF r] by (auto simp add: db' db_ok_def list_all_iff dest: set_put_row)
  ultimately show ?thesis
    using assms(1) has_peer_upsert [OF assms(2)] by (auto simp add: db_ok_def db' list_all_iff)
qed

lemma db_ok_add:
  "db_ok env db \<Longrightarrow> add_pending_transfer env now peer folder fpath chunk priority db = Inr db' \<Longrightarrow>
   db_ok env db'"
  by (force simp add: add_pending_transfer_def db_ok_def list_ex_iff list_all_iff same_transfer_def
      transfer_key_def has_peer_def split: if_splits)

lemma db_ok_record:
  "db_ok env db \<Longrightarrow> record_sync_session env s db = Inr db' \<Longrightarrow> db_ok env db'"
  by (auto simp add: record_sync_session_def and_then_Inr_iff db_ok_def has_peer_def counter_ok_uint
      split: if_splits)

lemma db_ok_filter: "db_ok env db \<Longrightarrow> db_ok env (db\<lparr>db_pending := filter P (db_pending db)\<rparr>)"
  by (auto simp add: db_ok_def list_all_iff has_peer_def distinct_map_filter)

interpretation tables: machine "db_step env" "db_ok env" for env
proof
  fix db op
  assume "db_ok env db"
  then show "db_ok env (db_step env op db)"
    by (cases op)
      (auto simp add: remove_pending_transfer_def remove_pending_transfer_by_hash_def
        intro: db_ok_upsert db_ok_add db_ok_record db_ok_filter split: sum.splits)
qed

lemma db_ok_new: "db_ok env new_db"
  by (simp add: db_ok_def new_db_def)

section \<open>Reading back\<close>

text \<open>A row whose counters are in range reads as its state.\<close>

definition peer_of :: "db_env \<Rightarrow> peer_row \<Rightarrow> peer_sync_state" where
  "peer_of env r = (case read_peer env Some r of Inl _ \<Rightarrow> undefined | Inr (_, st) \<Rightarrow> st)"

lemma read_peer_ok: "peer_row_ok r \<Longrightarrow> read_peer env Some r = Inr (pr_peer_id r, peer_of env r)"
  by (simp add: peer_of_def read_peer_def peer_row_ok_def counter_ok_def from_sql_def)

lemma read_peers_ok:
  "list_all peer_row_ok rows \<Longrightarrow>
   read_peers env rows = Inr (map (\<lambda>r. (pr_peer_id r, peer_of env r)) rows)"
  by (induction rows) (simp_all add: read_peer_ok)

definition peer_table :: "db_env \<Rightarrow> sync_db \<Rightarrow> string \<rightharpoonup> peer_sync_state" where
  "peer_table env db = map_of (map (\<lambda>r. (pr_peer_id r, peer_of env r)) (db_peers db))"

lemma map_of_rev_distinct: "distinct (map fst ps) \<Longrightarrow> map_of (rev ps) = map_of ps"
  by (metis map_of_inject_set distinct_rev rev_map set_rev)

lemma get_all_table:
  assumes "db_ok env db"
  shows "\<exists>m. get_all_peer_states env db = Inr m \<and> hm_wf m \<and> hm_get m = peer_table env db"
proof -
  have "map_of (rev (map (\<lambda>r. (pr_peer_id r, peer_of env r)) (db_peers db))) = peer_table env db"
    unfolding peer_table_def using assms by (intro map_of_rev_distinct) (simp add: db_ok_def comp_def)
  then show ?thesis
    using assms by (auto simp add: get_all_peer_states_def read_peers_ok db_ok_def hm_get_collect fun_eq_iff)
qed

lemma map_of_put_row:
  "map_of (map (\<lambda>r. (pr_peer_id r, g r)) (put_row r rows)) =
   (map_of (map (\<lambda>r. (pr_peer_id r, g r)) rows))(pr_peer_id r \<mapsto> g r)"
proof -
  let ?f = "\<lambda>r. (pr_peer_id r, g r)"
  have "map_of (map ?f (map (\<lambda>x. if pr_peer_id x = pr_peer_id r then r else x) rows)) =
      (if pr_peer_id r \<in> set (map pr_peer_id rows)
       then (map_of (map ?f rows))(pr_peer_id r \<mapsto> g r) else map_of (map ?f rows))"
    by (induction rows) (auto simp add: fun_eq_iff)
  moreover have "map_of (map ?f (rows @ [r])) = (map_of (map ?f rows))(pr_peer_id r \<mapsto> g r)"
    if "pr_peer_id r \<notin> set (map pr_peer_id rows)"
    using that by (induction rows) (auto simp add: fun_eq_iff)
  ultimately show ?thesis by (simp add: put_row_def)
qed

lemma upsert_table:
  assumes "db_env_ok env" and "upsert_peer_state env i st db = Inr db'"
    and "json_safe (ps_current_state st)"
  shows "peer_table env db' = (peer_table env db)(i \<mapsto> st)"
proof -
  obtain r where r: "peer_row_of env i st = Inr r" and db': "db' = db\<lparr>db_peers := put_row r (db_peers db)\<rparr>"
    using assms(2) by (auto simp add: upsert_peer_state_def and_then_Inr_iff)
  moreover have "peer_of env r = st" by (simp add: peer_of_def read_peer_row_of(1) [OF assms(1) r assms(3)])
  ultimately show ?thesis
    using peer_row_of_Inr [OF r] by (simp add: peer_table_def map_of_put_row)
qed

lemma get_peer_state_upsert:
  assumes "db_env_ok env" and "upsert_peer_state env i st db = Inr db'"
    and "json_safe (ps_current_state st)"
  shows "get_peer_state env i db' = Inr (Some (st\<lparr>ps_last_sync := None\<rparr>))"
proof -
  obtain r where r: "peer_row_of env i st = Inr r" and db': "db' = db\<lparr>db_peers := put_row r (db_peers db)\<rparr>"
    using assms(2) by (auto simp add: upsert_peer_state_def and_then_Inr_iff)
  have "\<exists>x\<in>set (put_row r rows). pr_peer_id x = i" for rows
    using peer_row_of_Inr [OF r] by (auto simp add: put_row_def)
  then obtain x where x: "find (\<lambda>r. pr_peer_id r = i) (put_row r (db_peers db)) = Some x"
    by (metis (mono_tags, lifting) find_None_iff option.exhaust)
  have "x = r" using find_SomeD [OF x] peer_row_of_Inr [OF r] set_put_row by metis
  with x read_peer_row_of(2) [OF assms(1) r assms(3)] show ?thesis
    by (simp add: get_peer_state_def db')
qed

section \<open>A concrete environment\<close>

text \<open>JSON and time texts with a sign and a unary number.\<close>

definition show_sample_int :: "int \<Rightarrow> string" where
  "show_sample_int t = (if t < 0 then CHR ''-'' else CHR ''+'') # replicate (nat \<bar>t\<bar>) CHR ''1''"

definition read_sample_int :: "string \<Rightarrow> int option" where
  "read_sample_int s = (case s of [] \<Rightarrow> None
     | c # ones \<Rightarrow> if c = CHR ''-'' then Some (- int (length ones))
         else if c = CHR ''+'' then Some (int (length ones)) else None)"

fun sample_state_json :: "peer_state \<Rightarrow> string" where
  "sample_state_json PeerIdle = ''i''"
| "sample_state_json PeerNegotiating = ''n''"
| "sample_state_json (PeerTransferring u) = CHR ''t'' # replicate (unat u) CHR ''1''"
| "sample_state_json (PeerCompleted t) = CHR ''c'' # show_sample_int t"
| "sample_state_json (PeerFailed e t) = CHR ''f'' # show_sample_int t @ CHR '','' # e"

definition sample_parse_state :: "string \<Rightarrow> peer_state option" where
  "sample_parse_state s = (case s of [] \<Rightarrow> None
     | c # rest \<Rightarrow>
         if c = CHR ''i'' then Some PeerIdle
         else if c = CHR ''n'' then Some PeerNegotiating
         else if c = CHR ''t'' then Some (PeerTransferring (word_of_nat (length rest)))
         else if c = CHR ''c'' then map_option PeerCompleted (read_sample_int rest)
         else map_option (PeerFailed (drop 1 (dropWhile (\<lambda>x. x \<noteq> CHR '','') rest)))
           (read_sample_int (takeWhile (\<lambda>x. x \<noteq> CHR '','') rest)))"

definition sample_db_env :: "bool \<Rightarrow> db_env" where
  "sample_db_env fk = \<lparr>e_state_json = sample_state_json, e_parse_state = sample_parse_state,
     e_rfc3339 = show_sample_int, e_parse_rfc3339 = read_sample_int,
     e_sql_datetime = (\<lambda>_. Some ''2024-01-01 00:00:00''), e_foreign_keys = fk, e_ties = (\<lambda>xs. xs)\<rparr>"

lemma read_show_sample: "read_sample_int (show_sample_int t) = Some t"
  by (simp add: read_sample_int_def show_sample_int_def)

lemma sample_int_no_comma:
  "takeWhile (\<lambda>x. x \<noteq> CHR '','') (show_sample_int t @ CHR '','' # e) = show_sample_int t"
  "dropWhile (\<lambda>x. x \<noteq> CHR '','') (show_sample_int t @ CHR '','' # e) = CHR '','' # e"
  by (auto simp add: show_sample_int_def takeWhile_append dropWhile_append split: if_splits)

lemma read_sample_date: "read_sample_int ''2024-01-01 00:00:00'' = None"
  by (simp add: read_sample_int_def)

lemma parse_sample_state: "sample_parse_state (sample_state_json s) = Some s"
  by (cases s) (simp_all add: sample_parse_state_def read_show_sample sample_int_no_comma)

lemma sample_db_env_ok: "db_env_ok (sample_db_env fk)"
  by (simp add: db_env_ok_def sample_db_env_def parse_sample_state read_show_sample iter_order_id
      read_sample_date)

definition sample_peer :: peer_sync_state where
  "sample_peer = \<lparr>ps_peer_name = ''Laptop'', ps_last_sync = Some 7, ps_last_manifest_hash = None,
     ps_bytes_sent = 0, ps_bytes_received = 12, ps_files_sent = 0, ps_files_received = 1,
     ps_current_state = PeerCompleted 7\<rparr>"

section \<open>Properties\<close>


text \<open>A state whose counters fit in 63 bits can always be written, and reading all peers
  then returns the states it returned before with this one replaced; but reading the one peer
  returns it without its last sync, whose \<open>datetime\<close> text is never RFC 3339.\<close>

theorem peer_state_round_trip:
  assumes "db_env_ok env"
    and "\<forall>c\<in>{ps_bytes_sent st, ps_bytes_received st, ps_files_sent st, ps_files_received st}.
      unat c < 2 ^ 63"
    and "json_safe (ps_current_state st)"
  shows "\<exists>db m m0. upsert_peer_state env i st (fold (db_step env) ops new_db) = Inr db \<and>
      get_all_peer_states env (fold (db_step env) ops new_db) = Inr m0 \<and>
      get_all_peer_states env db = Inr m \<and> hm_get m = (hm_get m0)(i \<mapsto> st) \<and>
      get_peer_state env i db = Inr (Some (st\<lparr>ps_last_sync := None\<rparr>))"
proof -
  let ?db = "fold (db_step env) ops new_db"
  have ok: "db_ok env ?db" by (rule tables.inv_fold [OF db_ok_new])
  have "\<exists>db. upsert_peer_state env i st ?db = Inr db"
    using assms(2) by (simp add: upsert_peer_state_def peer_row_of_def to_sql_def)
  then obtain db where db: "upsert_peer_state env i st ?db = Inr db" ..
  then show ?thesis
    using get_all_table [OF ok] get_all_table [OF db_ok_upsert [OF ok db]]
      upsert_table [OF assms(1) db assms(3)] get_peer_state_upsert [OF assms(1) db assms(3)] by auto
qed

theorem peer_state_round_trip_witness:
  "\<exists>db m m0. upsert_peer_state (sample_db_env True) ''p'' sample_peer
        (fold (db_step (sample_db_env True)) [Upsert ''q'' sample_peer] new_db) = Inr db \<and>
      get_all_peer_states (sample_db_env True)
        (fold (db_step (sample_db_env True)) [Upsert ''q'' sample_peer] new_db) = Inr m0 \<and>
      get_all_peer_states (sample_db_env True) db = Inr m \<and>
      hm_get m = (hm_get m0)(''p'' \<mapsto> sample_peer) \<and>
      get_peer_state (sample_db_env True) ''p'' db = Inr (Some (sample_peer\<lparr>ps_last_sync := None\<rparr>))"
  by (rule peer_state_round_trip) (simp_all add: sample_db_env_ok sample_peer_def)

end
