(* ===== verification/Session.thy ===== *)
theory Session
  imports Proto Diff Cas Sync_Db
begin

text \<open>
  The sync session of \<open>landro-sync/src/protocol.rs\<close>: the state machine over the messages of
  one peer, with the manifests, the difference, the wanted, sent and received chunks and the
  content store behind it.  Each handler holds the state's lock for its whole length, so it is
  one step on the record of the fields; the store is the session's own.

  Handlers that read the store return \<open>None\<close> when they do not return: the slice of a short
  hash panics, and a read can hang (theory \<open>Cas\<close>).  The environment adds to the store's the
  hex decoder with its error text, chrono's \<open>from_timestamp\<close> and the iteration orders; the
  clock is passed to the handlers that read it.  The debug text of a state in an error is kept
  as the state, a storage error's text as the error.  Writing to the SQL database succeeds.
  The session id and the progress percentage, which are only printed, are left out.
\<close>

section \<open>State\<close>

record 'c sync_env =
  se_cas :: "'c cas_env"
  se_hex_decode :: "string \<Rightarrow> string + bytes"
  se_from_timestamp :: "int \<Rightarrow> u32 \<Rightarrow> date_time option"
  se_paths :: "(string \<times> manifest_entry) list \<Rightarrow> (string \<times> manifest_entry) list"
  se_subtrees :: "(string \<times> manifest_entry list) list \<Rightarrow> (string \<times> manifest_entry list) list"
  se_hashes :: "string list \<Rightarrow> string list"

definition PROTOCOL_VERSION :: string where
  "PROTOCOL_VERSION = ''1.0.0''"

definition MAX_WANT_CHUNKS :: nat where
  "MAX_WANT_CHUNKS = 100"

definition MAX_CONCURRENT_TRANSFERS :: nat where
  "MAX_CONCURRENT_TRANSFERS = 10"

datatype session_state =
    Initializing
  | Negotiating
  | ComputingDiff
  | Transferring nat nat
  | Verifying
  | Completed
  | Failed string

datatype sync_error =
    Protocol string
  | Unexpected string session_state
  | Storage string cas_error

record transfer_stats =
  bytes_sent :: u64
  bytes_received :: u64
  chunks_sent :: nat
  chunks_received :: nat
  ts_files_added :: nat
  ts_files_modified :: nat
  ts_files_deleted :: nat

record 'c session =
  ss_peer_id :: string
  ss_peer_name :: string
  ss_state :: session_state
  ss_our_manifest :: "manifest option"
  ss_peer_manifest :: "proto_manifest option"
  ss_diff_result :: "diff_result option"
  ss_wanted :: "string hset"
  ss_sent :: "string hset"
  ss_received :: "string hset"
  ss_cas :: "'c store"
  ss_tracker :: incremental_diff
  ss_database :: "(string, peer_sync_state) hmap"
  ss_stats :: transfer_stats

definition new_session :: "string \<Rightarrow> string \<Rightarrow> 'c store \<Rightarrow> (string, peer_sync_state) hmap \<Rightarrow> 'c session" where
  "new_session peer_id peer_name cas database =
     \<lparr>ss_peer_id = peer_id, ss_peer_name = peer_name, ss_state = Initializing,
      ss_our_manifest = None, ss_peer_manifest = None, ss_diff_result = None,
      ss_wanted = [], ss_sent = [], ss_received = [], ss_cas = cas,
      ss_tracker = new_incremental [], ss_database = database,
      ss_stats = \<lparr>bytes_sent = 0, bytes_received = 0, chunks_sent = 0, chunks_received = 0,
        ts_files_added = 0, ts_files_modified = 0, ts_files_deleted = 0\<rparr>\<rparr>"

definition hex_encode :: "'c sync_env \<Rightarrow> bytes \<Rightarrow> string" where
  "hex_encode env = e_hex (se_cas env)"

definition hex_decode :: "'c sync_env \<Rightarrow> string \<Rightarrow> bytes option" where
  "hex_decode env h = (case se_hex_decode env h of Inl _ \<Rightarrow> None | Inr bs \<Rightarrow> Some bs)"

definition decode_or_empty :: "'c sync_env \<Rightarrow> string \<Rightarrow> bytes" where
  "decode_or_empty env h = (case hex_decode env h of Some bs \<Rightarrow> bs | None \<Rightarrow> [])"

section \<open>Handshake and manifests\<close>

definition is_version_compatible :: "string \<Rightarrow> bool" where
  "is_version_compatible peer_version \<longleftrightarrow>
     hd (split_on (CHR ''.'') PROTOCOL_VERSION) = hd (split_on (CHR ''.'') peer_version)"

definition handle_hello ::
  "Proto.timestamp \<Rightarrow> hello \<Rightarrow> 'c session \<Rightarrow> (sync_error + hello) \<times> 'c session" where
  "handle_hello now msg s =
     (if ss_state s \<noteq> Initializing then (Inl (Unexpected ''Hello'' (ss_state s)), s)
      else if \<not> is_version_compatible (h_version msg) then
        (Inl (Protocol (''Protocol version '' @ h_version msg @ '' not compatible with '' @ PROTOCOL_VERSION)),
         s\<lparr>ss_state := Failed ''Incompatible protocol version''\<rparr>)
      else
        (Inr \<lparr>h_version = PROTOCOL_VERSION, h_device_id = replicate 32 0, h_device_name = ''landropic'',
           h_capabilities = [''sync.v1'', ''incremental.v1'', ''compression.zstd''],
           h_timestamp = Some now\<rparr>,
         s\<lparr>ss_state := Negotiating\<rparr>))"

definition load_our_manifest :: "date_time \<Rightarrow> string \<Rightarrow> manifest" where
  "load_our_manifest now folder = new_manifest now folder 1"

definition handle_folder_summary ::
  "'c sync_env \<Rightarrow> date_time \<Rightarrow> Proto.timestamp \<Rightarrow> folder_summary \<Rightarrow> 'c session \<Rightarrow>
   (sync_error + folder_summary) \<times> 'c session" where
  "handle_folder_summary env now now_ts msg s =
     (if ss_state s \<noteq> Negotiating then (Inl (Unexpected ''FolderSummary'' (ss_state s)), s)
      else
        let ours = load_our_manifest now (fs_folder_id msg) in
        (Inr \<lparr>fs_folder_id = fs_folder_id msg, fs_folder_path = ''/sync'',
           fs_manifest_hash = (case manifest_hash ours of None \<Rightarrow> [] | Some h \<Rightarrow> decode_or_empty env h),
           fs_total_size = total_size ours, fs_file_count = word_of_nat (file_count ours),
           fs_last_modified = Some now_ts\<rparr>,
         s\<lparr>ss_our_manifest := Some ours, ss_state := ComputingDiff\<rparr>))"

definition proto_to_entry :: "'c sync_env \<Rightarrow> date_time \<Rightarrow> file_entry \<Rightarrow> manifest_entry" where
  "proto_to_entry env now f =
     \<lparr>path = fe_path f, file_size = fe_size f,
      modified_at = (case Option.bind (fe_modified f)
          (\<lambda>t. se_from_timestamp env (fst t) (word_of_int (snd t))) of Some d \<Rightarrow> d | None \<Rightarrow> now),
      content_hash = hex_encode env (fe_content_hash f),
      chunk_hashes = map (hex_encode env) (fe_chunk_hashes f),
      mode = Some (fe_mode f)\<rparr>"

definition proto_to_manifest :: "'c sync_env \<Rightarrow> date_time \<Rightarrow> proto_manifest \<Rightarrow> manifest" where
  "proto_to_manifest env now pm =
     finalize (e_blake3 (se_cas env)) (hex_decode env) (hex_encode env)
       (fold (\<lambda>f. add_file (proto_to_entry env now f)) (pm_files pm) (new_manifest now (pm_folder_id pm) 1))"

definition handle_manifest ::
  "'c sync_env \<Rightarrow> date_time \<Rightarrow> proto_manifest \<Rightarrow> 'c session \<Rightarrow> (sync_error + want) \<times> 'c session" where
  "handle_manifest env now msg s =
     (if ss_state s \<noteq> ComputingDiff then (Inl (Unexpected ''Manifest'' (ss_state s)), s)
      else
        let s1 = s\<lparr>ss_peer_manifest := Some msg\<rparr>;
            peer = proto_to_manifest env now msg in
        case ss_our_manifest s1 of
          None \<Rightarrow> (Inl (Protocol ''Our manifest not loaded''), s1)
        | Some ours \<Rightarrow>
            let (tracker, diff) = compute_incremental (e_blake3 (se_cas env)) (hex_decode env)
                  (se_paths env) (se_subtrees env) (ss_peer_id s1) ours peer (ss_tracker s1);
                wanted = map (decode_or_empty env) (take MAX_WANT_CHUNKS (se_hashes env (all_required diff)))
            in (Inr \<lparr>w_folder_id = folder_id peer, w_chunk_hashes = wanted, w_priority = 1\<rparr>,
                s1\<lparr>ss_tracker := tracker, ss_diff_result := Some diff,
                  ss_stats := (ss_stats s1)\<lparr>ts_files_added := files_added (stats diff),
                    ts_files_modified := files_modified (stats diff),
                    ts_files_deleted := files_deleted (stats diff)\<rparr>,
                  ss_wanted := all_required diff,
                  ss_state := Transferring (length (all_required diff)) 0\<rparr>))"

section \<open>Chunks\<close>

definition load_chunk ::
  "'c sync_env \<Rightarrow> string \<Rightarrow> 'c store \<Rightarrow> ((sync_error + bytes) \<times> 'c store) option" where
  "load_chunk env h st =
     (case se_hex_decode env h of
        Inl e \<Rightarrow> Some (Inl (Protocol (''Invalid hash: '' @ e)), st)
      | Inr hash_bytes \<Rightarrow>
          if length hash_bytes < 32 then None
          else map_option (\<lambda>(r, st1). (map_err (Storage ''Failed to load chunk: '') r, st1))
                 (read_object (se_cas env) (take 32 hash_bytes) st))"

definition store_chunk ::
  "'c sync_env \<Rightarrow> string \<Rightarrow> bytes \<Rightarrow> 'c store \<Rightarrow> (sync_error + unit) \<times> 'c store" where
  "store_chunk env h data st =
     (let computed = e_blake3 (se_cas env) data in
      case se_hex_decode env h of
        Inl e \<Rightarrow> (Inl (Protocol (''Invalid hash: '' @ e)), st)
      | Inr hash_bytes \<Rightarrow>
          if computed \<noteq> hash_bytes
          then (Inl (Protocol (''Hash mismatch: expected '' @ h @ '', got '' @ hex_encode env computed)), st)
          else (case write_object (se_cas env) data st of
              (Inl e, st1) \<Rightarrow> (Inl (Storage ''Failed to store chunk: '' e), st1)
            | (Inr _, st1) \<Rightarrow> (Inr (), st1)))"

fun send_chunks ::
  "'c sync_env \<Rightarrow> bytes list \<Rightarrow> chunk_data list \<Rightarrow> 'c session \<Rightarrow> (chunk_data list \<times> 'c session) option" where
  "send_chunks env [] chunks s = Some (chunks, s)"
| "send_chunks env (hash_bytes # hs) chunks s =
     (let hash_str = hex_encode env hash_bytes in
      if hash_str \<in> set (ss_sent s) then send_chunks env hs chunks s
      else case load_chunk env hash_str (ss_cas s) of
        None \<Rightarrow> None
      | Some (Inl _, st) \<Rightarrow> send_chunks env hs chunks (s\<lparr>ss_cas := st\<rparr>)
      | Some (Inr data, st) \<Rightarrow>
          send_chunks env hs
            (chunks @ [\<lparr>cd_hash = hash_bytes, cd_data = data, cd_compressed = False,
               cd_uncompressed_size = word_of_nat (length data)\<rparr>])
            (s\<lparr>ss_cas := st, ss_sent := hs_add hash_str (ss_sent s),
               ss_stats := (ss_stats s)\<lparr>chunks_sent := chunks_sent (ss_stats s) + 1,
                 bytes_sent := bytes_sent (ss_stats s) + word_of_nat (length data)\<rparr>\<rparr>))"

definition is_transferring :: "session_state \<Rightarrow> bool" where
  "is_transferring st = (case st of Transferring _ _ \<Rightarrow> True | _ \<Rightarrow> False)"

definition handle_want ::
  "'c sync_env \<Rightarrow> want \<Rightarrow> 'c session \<Rightarrow> ((sync_error + chunk_data list) \<times> 'c session) option" where
  "handle_want env msg s =
     (if \<not> is_transferring (ss_state s) then Some (Inl (Unexpected ''Want'' (ss_state s)), s)
      else map_option (\<lambda>(chunks, s1). (Inr chunks, s1))
        (send_chunks env (take MAX_CONCURRENT_TRANSFERS (w_chunk_hashes msg)) [] s))"

definition handle_have :: "bytes list \<Rightarrow> 'c session \<Rightarrow> (sync_error + unit) \<times> 'c session" where
  "handle_have hashes s = (Inr (), s)"

definition handle_chunk_data ::
  "'c sync_env \<Rightarrow> chunk_data \<Rightarrow> 'c session \<Rightarrow> (sync_error + ack) \<times> 'c session" where
  "handle_chunk_data env msg s =
     (case ss_state s of
        Transferring total_ transferred \<Rightarrow>
          let hash_str = hex_encode env (cd_hash msg) in
          if e_blake3 (se_cas env) (cd_data msg) \<noteq> cd_hash msg
          then (Inl (Protocol (''Chunk hash mismatch for '' @ hash_str)), s)
          else
            (case store_chunk env hash_str (cd_data msg) (ss_cas s) of
               (Inl e, st) \<Rightarrow> (Inl e, s\<lparr>ss_cas := st\<rparr>)
             | (Inr _, st) \<Rightarrow>
                 let new_transferred = transferred + 1 in
                 (Inr \<lparr>a_request_id = hash_str, a_success = True, a_message = ''Chunk stored''\<rparr>,
                  s\<lparr>ss_cas := st, ss_received := hs_add hash_str (ss_received s),
                    ss_wanted := hs_del hash_str (ss_wanted s),
                    ss_stats := (ss_stats s)\<lparr>chunks_received := chunks_received (ss_stats s) + 1,
                      bytes_received := bytes_received (ss_stats s) + word_of_nat (length (cd_data msg))\<rparr>,
                    ss_state := (if new_transferred \<ge> total_ then Verifying
                      else Transferring total_ new_transferred)\<rparr>))
      | st \<Rightarrow> (Inl (Unexpected ''ChunkData'' st), s))"

section \<open>Completion\<close>

definition verify_transfer :: "'c session \<Rightarrow> bool" where
  "verify_transfer s \<longleftrightarrow> ss_wanted s = []"

definition update_peer_state :: "date_time \<Rightarrow> 'c session \<Rightarrow> 'c session" where
  "update_peer_state now s =
     s\<lparr>ss_database := hm_put (ss_peer_id s)
        \<lparr>ps_peer_name = ss_peer_name s, ps_last_sync = Some now,
         ps_last_manifest_hash = Option.bind (ss_our_manifest s) manifest_hash,
         ps_bytes_sent = bytes_sent (ss_stats s), ps_bytes_received = bytes_received (ss_stats s),
         ps_files_sent = word_of_nat (chunks_sent (ss_stats s)),
         ps_files_received = word_of_nat (chunks_received (ss_stats s)),
         ps_current_state = PeerCompleted now\<rparr> (ss_database s)\<rparr>"

definition handle_ack :: "date_time \<Rightarrow> ack \<Rightarrow> 'c session \<Rightarrow> (sync_error + unit) \<times> 'c session" where
  "handle_ack now msg s =
     (Inr (),
      if ss_state s = Verifying then
        (if verify_transfer s then update_peer_state now (s\<lparr>ss_state := Completed\<rparr>)
         else s\<lparr>ss_state := Failed ''Verification failed''\<rparr>)
      else s)"

definition handle_error :: "string \<Rightarrow> 'c session \<Rightarrow> (sync_error + unit) \<times> 'c session" where
  "handle_error message s = (Inr (), s\<lparr>ss_state := Failed message\<rparr>)"

section \<open>Steps and reachable sessions\<close>

inductive session_step :: "'c sync_env \<Rightarrow> 'c session \<Rightarrow> 'c session \<Rightarrow> bool" for env where
  Step_Hello: "session_step env s (snd (handle_hello now_ts hello s))"
| Step_Summary: "session_step env s (snd (handle_folder_summary env now now_ts summary s))"
| Step_Manifest: "session_step env s (snd (handle_manifest env now pm s))"
| Step_Want: "handle_want env want s = Some (r, s') \<Longrightarrow> session_step env s s'"
| Step_Have: "session_step env s (snd (handle_have hashes s))"
| Step_Chunk: "session_step env s (snd (handle_chunk_data env chunk s))"
| Step_Ack: "session_step env s (snd (handle_ack now ack s))"
| Step_Error: "session_step env s (snd (handle_error message s))"

inductive session_reach :: "'c sync_env \<Rightarrow> 'c session \<Rightarrow> 'c session \<Rightarrow> bool" for env s0 where
  Reach_Start: "session_reach env s0 s0"
| Reach_Step: "session_reach env s0 s \<Longrightarrow> session_step env s s' \<Longrightarrow> session_reach env s0 s'"

text \<open>What the environment is relied on for: the store's laws, a hex decoder that inverts the
  encoder, and iteration orders.\<close>

definition sync_env_ok :: "'c sync_env \<Rightarrow> bool" where
  "sync_env_ok env \<longleftrightarrow> env_ok (se_cas env) \<and>
     (\<forall>bs. se_hex_decode env (hex_encode env bs) = Inr bs) \<and>
     iter_order (se_paths env) \<and> iter_order (se_hashes env)"

text \<open>A chunk counted as received: the encoded hash of data the store took, readable unless the
  store cannot tell it from the empty object.\<close>

definition chunk_stored :: "'c sync_env \<Rightarrow> 'c store \<Rightarrow> string \<Rightarrow> bool" where
  "chunk_stored env st h \<longleftrightarrow> (\<exists>d. h = hex_encode env (e_blake3 (se_cas env) d) \<and>
     (d = [] \<or> e_blake3 (se_cas env) d = e_blake3 (se_cas env) [] \<or>
      (\<exists>x. read_individual (se_cas env) (e_blake3 (se_cas env) d) st = Inr x)))"

definition session_ok :: "'c sync_env \<Rightarrow> 'c session \<Rightarrow> bool" where
  "session_ok env s \<longleftrightarrow> store_ok (se_cas env) (ss_cas s) \<and> hm_wf (ss_database s) \<and> ss_wanted s = [] \<and>
     (\<forall>m. ss_our_manifest s = Some m \<longrightarrow> files m = []) \<and>
     (ss_state s = ComputingDiff \<longrightarrow> ss_our_manifest s \<noteq> None) \<and>
     (\<forall>t k. ss_state s = Transferring t k \<longrightarrow> t = 0) \<and>
     (ss_state s \<in> {Verifying, Completed} \<longrightarrow> ss_received s \<noteq> []) \<and>
     (\<forall>h\<in>set (ss_received s). chunk_stored env (ss_cas s) h) \<and>
     (ss_state s = Completed \<longrightarrow> (\<exists>p now. hm_get (ss_database s) (ss_peer_id s) = Some p \<and>
        ps_current_state p = PeerCompleted now))"

definition store_same :: "'c store \<Rightarrow> 'c store \<Rightarrow> bool" where
  "store_same st st' \<longleftrightarrow> s_files st' = s_files st \<and> s_dedup st' = s_dedup st \<and> s_config st' = s_config st"

lemma store_same_ok: "store_same st st' \<Longrightarrow> store_ok env st \<Longrightarrow> store_ok env st'"
  by (simp add: store_same_def store_ok_def)

lemma store_same_read: "store_same st st' \<Longrightarrow> read_individual env h st' = read_individual env h st"
  by (simp add: store_same_def read_individual_def)

lemma store_same_trans: "store_same a b \<Longrightarrow> store_same b c \<Longrightarrow> store_same a c"
  by (simp add: store_same_def)

lemma read_object_same: "read_object env h st = Some (r, st') \<Longrightarrow> store_same st st'"
  by (auto simp add: read_object_def cache_insert_def Let_def store_same_def
      split: sum.splits option.splits)

lemma load_chunk_same: "load_chunk env h st = Some (r, st') \<Longrightarrow> store_same st st'"
  using read_object_same
  by (fastforce simp add: load_chunk_def store_same_def split: sum.splits if_splits)

text \<open>Sending changes the sent chunks, the counters and the store's cache, nothing else.\<close>

definition sends :: "'c session \<Rightarrow> 'c session \<Rightarrow> bool" where
  "sends s s' \<longleftrightarrow> store_same (ss_cas s) (ss_cas s') \<and> ss_state s' = ss_state s \<and>
     ss_our_manifest s' = ss_our_manifest s \<and> ss_wanted s' = ss_wanted s \<and>
     ss_received s' = ss_received s \<and> ss_database s' = ss_database s \<and> ss_peer_id s' = ss_peer_id s"

lemma send_chunks_sends:
  "send_chunks env hs chunks s = Some (r, s') \<Longrightarrow> sends s s'"
proof (induction env hs chunks s rule: send_chunks.induct)
  case (1 env chunks s)
  then show ?case by (simp add: sends_def store_same_def)
next
  case (2 env h hs chunks s)
  show ?case
  proof (cases "hex_encode env h \<in> set (ss_sent s)")
    case True
    with 2 show ?thesis by (simp add: Let_def)
  next
    case False
    with 2(4) obtain r1 st where l: "load_chunk env (hex_encode env h) (ss_cas s) = Some (r1, st)"
      by (auto simp add: Let_def split: option.splits)
    note same = load_chunk_same [OF l]
    show ?thesis
    proof (cases r1)
      case (Inl e)
      with 2(4) False l have "send_chunks env hs chunks (s\<lparr>ss_cas := st\<rparr>) = Some (r, s')"
        by (simp add: Let_def)
      from 2(2) [OF refl False l refl Inl this] same show ?thesis
        by (auto simp add: sends_def intro: store_same_trans)
    next
      case (Inr data)
      note 2(3) [OF refl False l refl Inr]
      with 2(4) False l Inr same show ?thesis
        by (auto simp add: Let_def sends_def intro: store_same_trans)
    qed
  qed
qed

lemma chunk_stored_same: "store_same st st' \<Longrightarrow> chunk_stored env st' h = chunk_stored env st h"
  by (simp add: chunk_stored_def store_same_read)

lemma sends_ok: "sends s s' \<Longrightarrow> session_ok env s \<Longrightarrow> session_ok env s'"
  by (auto simp add: sends_def session_ok_def chunk_stored_same intro: store_same_ok)

lemma hs_add_nonempty [simp]: "hs_add x s \<noteq> []"
  by (simp add: hs_add_def List.insert_def) auto

lemma folder_id_proto [simp]: "folder_id (proto_to_manifest env now pm) = pm_folder_id pm"
proof -
  have "folder_id (fold (\<lambda>f. add_file (proto_to_entry env now f)) fs m) = folder_id m" for fs m
    by (induction fs arbitrary: m) (simp_all add: add_file_def)
  then show ?thesis by (simp add: proto_to_manifest_def finalize_def new_manifest_def)
qed

text \<open>The difference of the peer's manifest to an empty one: no chunk is required.\<close>

lemma required_empty_target:
  assumes "iter_order it" and "files t = []"
  shows "acc_required (collect_changes it dc s t) = []"
proof -
  have "path_map t = []" using assms(2) by (simp add: path_map_def hm_collect_def)
  moreover have "it [] = []" using iter_order_set [OF assms(1), of "[]"] by simp
  moreover have "acc_required (fold (visit_source tm) pes acc) = acc_required acc" for tm pes acc
    by (induction pes arbitrary: acc) (auto simp add: visit_source_def Let_def)
  ultimately show ?thesis by (simp add: collect_changes_def)
qed

lemma incremental_requires_nothing:
  assumes "iter_order it" and "files ours = []"
  shows "all_required (snd (compute_incremental b d it its p ours peer t)) = []"
  using assms
  by (simp add: compute_incremental_def compute_diff_def prioritize_changes_def required_empty_target Let_def)

lemma manifest_ok:
  assumes "sync_env_ok env" and "session_ok env s"
  shows "session_ok env (snd (handle_manifest env now pm s))"
proof (cases "ss_state s = ComputingDiff")
  case False
  then show ?thesis using assms(2) by (simp add: handle_manifest_def)
next
  case True
  then obtain ours where o: "ss_our_manifest s = Some ours" "files ours = []"
    using assms(2) by (auto simp add: session_ok_def)
  obtain tr d where c: "compute_incremental (e_blake3 (se_cas env)) (hex_decode env) (se_paths env)
      (se_subtrees env) (ss_peer_id s) ours (proto_to_manifest env now pm) (ss_tracker s) = (tr, d)"
    by fastforce
  have "iter_order (se_paths env)" using assms(1) by (simp add: sync_env_ok_def)
  from incremental_requires_nothing [OF this o(2)] c have "all_required d = []" by (metis snd_conv)
  with True o c assms(2) show ?thesis by (simp add: handle_manifest_def Let_def session_ok_def)
qed

lemma store_chunk_store:
  "snd (store_chunk env h data st) = st \<or> snd (store_chunk env h data st) = snd (write_object (se_cas env) data st)"
  by (auto simp add: store_chunk_def Let_def split: sum.splits prod.splits)

lemma store_chunk_ok:
  "sync_env_ok env \<Longrightarrow> store_ok (se_cas env) st \<Longrightarrow> store_ok (se_cas env) (snd (store_chunk env h data st))"
  using store_chunk_store [of env h data st] store_ok_write by (metis sync_env_ok_def)

lemma store_chunk_keeps:
  assumes "sync_env_ok env" and "store_ok (se_cas env) st" and "chunk_stored env st g"
  shows "chunk_stored env (snd (store_chunk env h data st)) g"
proof -
  have "env_ok (se_cas env)" using assms(1) by (simp add: sync_env_ok_def)
  then show ?thesis
    using assms(3) store_chunk_store [of env h data st] read_after_write_keeps [OF _ assms(2)]
    unfolding chunk_stored_def by metis
qed

text \<open>A chunk the store took is stored.\<close>

lemma store_chunk_stored:
  assumes "sync_env_ok env" and "store_ok (se_cas env) st"
    and "store_chunk env (hex_encode env (e_blake3 (se_cas env) data)) data st = (Inr (), st')"
  shows "chunk_stored env st' (hex_encode env (e_blake3 (se_cas env) data))"
proof -
  have env: "env_ok (se_cas env)"
    and dec: "se_hex_decode env (hex_encode env bs) = Inr bs" for bs
    using assms(1) by (simp_all add: sync_env_ok_def)
  from assms(3) obtain r where w: "write_object (se_cas env) data st = (Inr r, st')"
    by (auto simp add: store_chunk_def dec Let_def split: prod.splits sum.splits)
  then have "length data \<le> MAX_OBJECT_SIZE"
    by (auto simp add: write_object_def object_size_ok_def validate_object_size_def split: if_splits)
  moreover have "st' = snd (write_object (se_cas env) data st)" using w by simp
  ultimately show ?thesis
    using read_after_write [OF env assms(2), of data] unfolding chunk_stored_def storable_def by blast
qed

lemma chunk_ok:
  assumes "sync_env_ok env" and "session_ok env s"
  shows "session_ok env (snd (handle_chunk_data env chunk s))"
proof (cases "\<exists>t k. ss_state s = Transferring t k \<and> e_blake3 (se_cas env) (cd_data chunk) = cd_hash chunk")
  case False
  then show ?thesis using assms(2)
    by (cases "ss_state s") (simp_all add: handle_chunk_data_def Let_def)
next
  case True
  then obtain t k where st: "ss_state s = Transferring t k"
    and h: "cd_hash chunk = e_blake3 (se_cas env) (cd_data chunk)" by metis
  let ?h = "hex_encode env (cd_hash chunk)"
  have t: "t = 0" and ok: "store_ok (se_cas env) (ss_cas s)" using assms(2) st by (auto simp add: session_ok_def)
  obtain r st' where c: "store_chunk env ?h (cd_data chunk) (ss_cas s) = (r, st')" by fastforce
  note ok' = store_chunk_ok [OF assms(1) ok, of ?h "cd_data chunk", unfolded c snd_conv]
  have keep: "\<forall>g\<in>set (ss_received s). chunk_stored env st' g"
    using assms(2) store_chunk_keeps [OF assms(1) ok, of _ ?h "cd_data chunk", unfolded c snd_conv]
    by (simp add: session_ok_def)
  show ?thesis
  proof (cases r)
    case (Inl e)
    with st h c ok' keep assms(2) show ?thesis
      by (simp add: handle_chunk_data_def Let_def session_ok_def)
  next
    case (Inr u)
    from store_chunk_stored [OF assms(1) ok] c Inr have "chunk_stored env st' ?h" unfolding h by simp
    moreover have "ss_wanted s = []" using assms(2) by (simp add: session_ok_def)
    ultimately show ?thesis
      using st h c ok' keep assms(2) t Inr
      by (simp add: handle_chunk_data_def Let_def session_ok_def hs_del_def)
  qed
qed

lemma session_ok_step:
  assumes "sync_env_ok env"
  shows "session_step env s s' \<Longrightarrow> session_ok env s \<Longrightarrow> session_ok env s'"
proof (induction rule: session_step.induct)
  case (Step_Hello now_ts hello s)
  then show ?case by (auto simp add: handle_hello_def session_ok_def)
next
  case (Step_Summary now now_ts summary s)
  then show ?case
    by (auto simp add: handle_folder_summary_def session_ok_def load_our_manifest_def new_manifest_def Let_def)
next
  case (Step_Manifest now pm s)
  then show ?case by (rule manifest_ok [OF assms])
next
  case (Step_Want want s r s')
  then have "s' = s \<or> (\<exists>r. send_chunks env (take MAX_CONCURRENT_TRANSFERS (w_chunk_hashes want)) [] s = Some (r, s'))"
    by (auto simp add: handle_want_def split: if_splits)
  with Step_Want send_chunks_sends sends_ok show ?case by blast
next
  case (Step_Have hashes s)
  then show ?case by (simp add: handle_have_def)
next
  case (Step_Chunk chunk s)
  then show ?case by (rule chunk_ok [OF assms])
next
  case (Step_Ack now ack s)
  then show ?case
    by (auto simp add: handle_ack_def update_peer_state_def session_ok_def hm.get_put hm.wf_put)
next
  case (Step_Error message s)
  then show ?case by (auto simp add: handle_error_def session_ok_def)
qed

lemma session_ok_reach:
  assumes "sync_env_ok env" and "store_ok (se_cas env) cas" and "hm_wf db"
  shows "session_reach env (new_session p n cas db) s \<Longrightarrow> session_ok env s"
proof (induction rule: session_reach.induct)
  case Reach_Start
  then show ?case using assms by (simp add: session_ok_def new_session_def)
next
  case (Reach_Step s s')
  then show ?case using session_ok_step [OF assms(1)] by blast
qed

lemma manifest_reply:
  assumes "sync_env_ok env" and "session_ok env s" and "ss_state s = ComputingDiff"
  shows "fst (handle_manifest env now pm s) =
      Inr \<lparr>w_folder_id = pm_folder_id pm, w_chunk_hashes = [], w_priority = 1\<rparr> \<and>
    ss_state (snd (handle_manifest env now pm s)) = Transferring 0 0"
proof -
  from assms(2,3) obtain ours where o: "ss_our_manifest s = Some ours" "files ours = []"
    by (auto simp add: session_ok_def)
  obtain tr d where c: "compute_incremental (e_blake3 (se_cas env)) (hex_decode env) (se_paths env)
      (se_subtrees env) (ss_peer_id s) ours (proto_to_manifest env now pm) (ss_tracker s) = (tr, d)"
    by fastforce
  have "iter_order (se_paths env)" using assms(1) by (simp add: sync_env_ok_def)
  from incremental_requires_nothing [OF this o(2)] c have "all_required d = []" by (metis snd_conv)
  moreover have "se_hashes env [] = []"
    using assms(1) iter_order_set [of "se_hashes env" "[]"] by (simp add: sync_env_ok_def)
  ultimately show ?thesis
    using assms(3) o c by (simp add: handle_manifest_def Let_def)
qed

section \<open>A concrete session\<close>

definition sample_undigit :: "char \<Rightarrow> nat" where
  "sample_undigit c = (let n = of_char c in if n < 58 then n - 48 else n - 87)"

fun sample_undigits :: "string \<Rightarrow> string + bytes" where
  "sample_undigits [] = Inr []"
| "sample_undigits [c] = Inl ''Odd number of digits''"
| "sample_undigits (a # b # s) =
     map_sum id (\<lambda>bs. word_of_nat (16 * sample_undigit a + sample_undigit b) # bs) (sample_undigits s)"

lemma sample_undigit: "n < 16 \<Longrightarrow> sample_undigit (sample_digit n) = n"
  by (simp add: sample_undigit_def sample_digit_code Let_def)

lemma sample_undigits: "sample_undigits (sample_digits bs) = Inr bs"
  by (induction bs) (simp_all add: sample_undigit nibble flip: word_unat_eq_iff)

definition sample_sync_env :: "(content_hash \<times> cached_chunk) list sync_env" where
  "sample_sync_env = \<lparr>se_cas = sample_env 1, se_hex_decode = sample_undigits,
     se_from_timestamp = (\<lambda>_ _. None), se_paths = rev, se_subtrees = rev, se_hashes = rev\<rparr>"

lemma sample_sync_env_ok: "sync_env_ok sample_sync_env"
  using sample_env_ok [of 1]
  by (simp add: sync_env_ok_def sample_sync_env_def hex_encode_def sample_env_def sample_undigits iter_order_rev)

definition sample_session :: "(content_hash \<times> cached_chunk) list session" where
  "sample_session = new_session ''peer'' ''Peer''
     (new_store (sample_env 1) rev default_cas_config None 0 []) []"

definition sample_hello :: hello where
  "sample_hello = \<lparr>h_version = ''1.2.3'', h_device_id = [], h_device_name = [], h_capabilities = [],
     h_timestamp = None\<rparr>"

definition sample_summary :: folder_summary where
  "sample_summary = \<lparr>fs_folder_id = ''f'', fs_folder_path = [], fs_manifest_hash = [], fs_total_size = 1,
     fs_file_count = 1, fs_last_modified = None\<rparr>"

definition sample_pm :: proto_manifest where
  "sample_pm = \<lparr>pm_folder_id = ''f'', pm_files = [\<lparr>fe_path = ''a'', fe_size = 1, fe_mode = 0, fe_modified = None,
     fe_chunk_hashes = [pad_hash [3]], fe_content_hash = pad_hash [3]\<rparr>], pm_generated_at = None,
     pm_manifest_hash = []\<rparr>"

text \<open>The session after the greeting and the folder summary.\<close>

definition session_before_manifest :: "(content_hash \<times> cached_chunk) list session" where
  "session_before_manifest = snd (handle_folder_summary sample_sync_env 0 (0, 0) sample_summary
     (snd (handle_hello (0, 0) sample_hello sample_session)))"

lemma session_before_manifest:
  "session_reach sample_sync_env sample_session session_before_manifest"
  "ss_state session_before_manifest = ComputingDiff"
proof -
  show "session_reach sample_sync_env sample_session session_before_manifest"
    unfolding session_before_manifest_def
    by (intro Reach_Step [OF Reach_Step [OF Reach_Start Step_Hello] Step_Summary])
  have "is_version_compatible ''1.2.3''"
    by (simp add: is_version_compatible_def PROTOCOL_VERSION_def)
  then show "ss_state session_before_manifest = ComputingDiff"
    by (simp add: session_before_manifest_def handle_hello_def handle_folder_summary_def Let_def
        sample_session_def new_session_def sample_hello_def)
qed

lemma sample_store_ok:
  "store_ok (se_cas sample_sync_env) (new_store (sample_env 1) rev default_cas_config None 0 [])"
  using store_ok_new [OF sample_env_ok iter_order_rev] by (simp add: sample_sync_env_def)

lemma sample_session_ok: "session_reach sample_sync_env sample_session s \<Longrightarrow> session_ok sample_sync_env s"
  unfolding sample_session_def
  by (rule session_ok_reach [OF sample_sync_env_ok sample_store_ok hm.wf_empty])

text \<open>The session after the manifest, a chunk nobody asked for and an acknowledgement.\<close>

definition sample_chunk :: chunk_data where
  "sample_chunk = \<lparr>cd_hash = pad_hash [3], cd_data = [3], cd_compressed = False, cd_uncompressed_size = 1\<rparr>"

definition session_at_end :: "(content_hash \<times> cached_chunk) list session" where
  "session_at_end = snd (handle_ack 0 \<lparr>a_request_id = [], a_success = False, a_message = []\<rparr>
     (snd (handle_chunk_data sample_sync_env sample_chunk
       (snd (handle_manifest sample_sync_env 0 sample_pm session_before_manifest)))))"

lemma session_at_end:
  "session_reach sample_sync_env sample_session session_at_end" "ss_state session_at_end = Completed"
proof -
  let ?m = "snd (handle_manifest sample_sync_env 0 sample_pm session_before_manifest)"
  let ?c = "snd (handle_chunk_data sample_sync_env sample_chunk ?m)"
  note m = Reach_Step [OF session_before_manifest(1) Step_Manifest]
  note c = Reach_Step [OF m Step_Chunk]
  show "session_reach sample_sync_env sample_session session_at_end"
    unfolding session_at_end_def by (intro Reach_Step [OF c Step_Ack])
  have t: "ss_state ?m = Transferring 0 0"
    using manifest_reply [OF sample_sync_env_ok sample_session_ok [OF session_before_manifest(1)]
        session_before_manifest(2)] by blast
  have size: "object_size_ok [3] = Inr ()"
    by (simp add: object_size_ok_def validate_object_size_def MAX_OBJECT_SIZE_def)
  have w: "\<exists>r st'. write_object (sample_env 1) [3] st = (Inr r, st')" for st
    using size by (auto simp add: write_object_def write_individual_def Let_def split: option.splits)
  have "\<exists>st'. store_chunk sample_sync_env (sample_digits (pad_hash [3])) [3] st = (Inr (), st')" for st
    using w [of st] by (auto simp add: store_chunk_def sample_sync_env_def sample_undigits)
  then obtain st' where "store_chunk sample_sync_env (sample_digits (pad_hash [3])) [3] (ss_cas ?m) = (Inr (), st')"
    by blast
  moreover have "hex_encode sample_sync_env = sample_digits" "e_blake3 (se_cas sample_sync_env) = pad_hash"
    by (simp_all add: hex_encode_def sample_sync_env_def sample_env_def)
  ultimately have v: "ss_state ?c = Verifying"
    using t by (simp add: handle_chunk_data_def Let_def sample_chunk_def)
  have "ss_wanted ?c = []" using sample_session_ok [OF c] by (simp add: session_ok_def)
  with v show "ss_state session_at_end = Completed"
    by (simp add: session_at_end_def handle_ack_def verify_transfer_def update_peer_state_def)
qed

section \<open>Properties\<close>

text \<open>The receiving side asks for nothing: in every session reachable from a new one, a manifest
  that arrives when one is expected is answered, whatever files it lists, by a \<open>Want\<close> without
  a single chunk hash.  The manifest of the own folder is always the empty one, and the
  difference is taken from the peer's manifest to it, so every file of the peer is a deletion
  and no chunk is required; the session waits in \<open>Transferring\<close> for 0 chunks.\<close>

theorem session_requests_nothing:
  assumes "sync_env_ok env" and "store_ok (se_cas env) cas" and "hm_wf db"
    and "session_reach env (new_session peer_id peer_name cas db) s" and "ss_state s = ComputingDiff"
  shows "fst (handle_manifest env now pm s) =
      Inr \<lparr>w_folder_id = pm_folder_id pm, w_chunk_hashes = [], w_priority = 1\<rparr> \<and>
    ss_state (snd (handle_manifest env now pm s)) = Transferring 0 0"
  using manifest_reply [OF assms(1) session_ok_reach [OF assms(1-4)] assms(5)] .

theorem session_requests_nothing_witness:
  "fst (handle_manifest sample_sync_env 0 sample_pm session_before_manifest) =
     Inr \<lparr>w_folder_id = ''f'', w_chunk_hashes = [], w_priority = 1\<rparr>"
  using session_requests_nothing [OF sample_sync_env_ok sample_store_ok hm.wf_empty
      session_before_manifest(1) [unfolded sample_session_def] session_before_manifest(2), of 0 sample_pm]
  by (simp add: sample_pm_def)



end
