(* ===== verification/Bloom.thy ===== *)
theory Bloom
  imports Manifest Containers
begin

unbundle bit_operations_syntax

text \<open>
  The Bloom-filter difference protocol of \<open>landro-daemon/src/bloom_diff.rs\<close>: the filter, the
  summary of a manifest, the messages and the handler.

  The environment holds SipHash under a seed, the sizes the floating-point formulas give a
  filter (bits and hash functions for the expected number of elements at 1% false positives),
  the checksum of a manifest's debug text and bincode's lengths; \<open>order\<close> is the order of the
  manifest map, \<open>now\<close> the clock.  A panic is \<open>None\<close>.  Serialising does not fail.  The estimated
  similarity and the averages, which are floats that are only printed, are left out.
\<close>

section \<open>The filter\<close>

record bloom_filter =
  bits :: bytes
  num_bits :: nat
  num_hashes :: nat
  num_elements :: nat

record bloom_env =
  be_sip :: "u64 \<Rightarrow> string \<Rightarrow> u64"
  be_num_bits :: "nat \<Rightarrow> nat"
  be_num_hashes :: "nat \<Rightarrow> nat"
  be_checksum :: "manifest \<Rightarrow> bytes"
  be_manifest_len :: "manifest \<Rightarrow> nat"
  be_order :: "(string \<times> manifest) list \<Rightarrow> (string \<times> manifest) list"

definition new_filter :: "bloom_env \<Rightarrow> nat \<Rightarrow> bloom_filter" where
  "new_filter env expected = (let nb = be_num_bits env expected in
     \<lparr>bits = replicate ((nb + 7) div 8) 0, num_bits = nb,
      num_hashes = be_num_hashes env expected, num_elements = 0\<rparr>)"

definition hash_item :: "bloom_env \<Rightarrow> string \<Rightarrow> nat \<Rightarrow> nat" where
  "hash_item env item seed = unat (be_sip env (word_of_nat seed) item)"

text \<open>The loop over the seeds: a remainder by 0 or an index out of range panics.\<close>

fun set_bits :: "bloom_env \<Rightarrow> string \<Rightarrow> nat list \<Rightarrow> bloom_filter \<Rightarrow> bloom_filter option" where
  "set_bits env item [] f = Some f"
| "set_bits env item (i # is) f =
     (if num_bits f = 0 then None
      else
        let bit_pos = hash_item env item i mod num_bits f;
            byte_pos = bit_pos div 8; bit_offset = bit_pos mod 8 in
        if byte_pos \<ge> length (bits f) then None
        else set_bits env item is
               (f\<lparr>bits := (bits f)[byte_pos := bits f ! byte_pos OR push_bit bit_offset 1]\<rparr>))"

definition bloom_add :: "bloom_env \<Rightarrow> string \<Rightarrow> bloom_filter \<Rightarrow> bloom_filter option" where
  "bloom_add env item f =
     map_option (\<lambda>f. f\<lparr>num_elements := num_elements f + 1\<rparr>) (set_bits env item [0..<num_hashes f] f)"

fun test_bits :: "bloom_env \<Rightarrow> string \<Rightarrow> nat list \<Rightarrow> bloom_filter \<Rightarrow> bool option" where
  "test_bits env item [] f = Some True"
| "test_bits env item (i # is) f =
     (if num_bits f = 0 then None
      else
        let bit_pos = hash_item env item i mod num_bits f;
            byte_pos = bit_pos div 8; bit_offset = bit_pos mod 8 in
        if byte_pos \<ge> length (bits f) then None
        else if bits f ! byte_pos AND push_bit bit_offset 1 = 0 then Some False
        else test_bits env item is f)"

definition bloom_contains :: "bloom_env \<Rightarrow> string \<Rightarrow> bloom_filter \<Rightarrow> bool option" where
  "bloom_contains env item f = test_bits env item [0..<num_hashes f] f"

definition size_bytes :: "bloom_filter \<Rightarrow> nat" where
  "size_bytes f = length (bits f)"

fun bloom_add_all :: "bloom_env \<Rightarrow> string list \<Rightarrow> bloom_filter \<Rightarrow> bloom_filter option" where
  "bloom_add_all env [] f = Some f"
| "bloom_add_all env (x # xs) f = Option.bind (bloom_add env x f) (bloom_add_all env xs)"

section \<open>Summaries\<close>

record manifest_summary =
  ms_device_id :: string
  ms_root_path :: string
  path_filter :: bloom_filter
  hash_filter :: bloom_filter
  ms_file_count :: nat
  ms_total_size :: u64
  generated_at :: date_time
  manifest_checksum :: bytes

definition from_manifest ::
  "bloom_env \<Rightarrow> date_time \<Rightarrow> manifest \<Rightarrow> string \<Rightarrow> string \<Rightarrow> manifest_summary option" where
  "from_manifest env now m device root =
     (let count = length (files m); f = new_filter env (max count 100) in
      Option.bind (bloom_add_all env (map path (files m)) f) (\<lambda>pf.
      map_option (\<lambda>hf. \<lparr>ms_device_id = device, ms_root_path = root, path_filter = pf, hash_filter = hf,
          ms_file_count = count, ms_total_size = total_size m, generated_at = now,
          manifest_checksum = be_checksum env m\<rparr>)
        (bloom_add_all env (map content_hash (files m)) f)))"

section \<open>Messages and the handler\<close>

datatype diff_message =
    RequestSummary string string
  | SendSummary manifest_summary string
  | RequestDiffDetails "string list" string
  | SendDiffDetails "(string, manifest_entry) hmap" string
  | RequestChunks "string list" string
  | Acknowledge string bool "string option"

datatype diff_stage =
    Initializing
  | ExchangingSummaries
  | ComparingManifests
  | RequestingDetails
  | TransferringChunks
  | Completed

record diff_progress =
  dp_peer_id :: string
  dp_stage :: diff_stage
  progress_percent :: u8
  files_compared :: nat
  differences_found :: nat
  bytes_saved :: u64
  started_at :: date_time

record diff_handler =
  dh_device_id :: string
  dh_manifests :: "(string, manifest) hmap"
  dh_summaries :: "(string, manifest_summary) hmap"
  dh_progress :: "(string, diff_progress) hmap"

definition new_diff_handler :: "string \<Rightarrow> diff_handler" where
  "new_diff_handler device =
     \<lparr>dh_device_id = device, dh_manifests = [], dh_summaries = [], dh_progress = []\<rparr>"

definition initial_progress :: "date_time \<Rightarrow> string \<Rightarrow> diff_progress" where
  "initial_progress now peer = \<lparr>dp_peer_id = peer, dp_stage = Initializing, progress_percent = 0,
     files_compared = 0, differences_found = 0, bytes_saved = 0, started_at = now\<rparr>"

definition start_diff ::
  "date_time \<Rightarrow> string \<Rightarrow> string \<Rightarrow> manifest \<Rightarrow> diff_handler \<Rightarrow> diff_message \<times> diff_handler" where
  "start_diff now peer p local h =
     (RequestSummary p (dh_device_id h @ ''-'' @ show_nat (nat (now div 1000000))),
      h\<lparr>dh_manifests := hm_put p local (dh_manifests h),
        dh_progress := hm_put peer (initial_progress now peer) (dh_progress h)\<rparr>)"

definition handle_summary_request ::
  "bloom_env \<Rightarrow> date_time \<Rightarrow> string \<Rightarrow> string \<Rightarrow> diff_handler \<Rightarrow> (diff_message option \<times> diff_handler) option" where
  "handle_summary_request env now p rid h =
     (case hm_get (dh_manifests h) p of
        Some m \<Rightarrow> map_option (\<lambda>s. (Some (SendSummary s rid), h)) (from_manifest env now m (dh_device_id h) p)
      | None \<Rightarrow> Some (Some (Acknowledge rid False (Some ''Manifest not found'')), h))"

text \<open>The local paths the remote filter does not contain, in order.\<close>

fun suspected :: "bloom_env \<Rightarrow> bloom_filter \<Rightarrow> string list \<Rightarrow> string list option" where
  "suspected env f [] = Some []"
| "suspected env f (p # ps) =
     Option.bind (bloom_contains env p f) (\<lambda>b.
     map_option (\<lambda>qs. if b then qs else p # qs) (suspected env f ps))"

definition handle_summary_response ::
  "bloom_env \<Rightarrow> (manifest_summary \<Rightarrow> nat) \<Rightarrow> date_time \<Rightarrow> manifest_summary \<Rightarrow> string \<Rightarrow> diff_handler \<Rightarrow>
   (diff_message option \<times> diff_handler) option" where
  "handle_summary_response env summary_len now summary rid h =
     (let peer = ms_device_id summary;
          h1 = h\<lparr>dh_summaries := hm_put peer summary (dh_summaries h),
                 dh_progress := hm_modify peer
                   (\<lambda>p. p\<lparr>dp_stage := ComparingManifests, progress_percent := 25\<rparr>) (dh_progress h)\<rparr> in
      case hm_get (dh_manifests h1) (ms_root_path summary) of
        None \<Rightarrow> Some (None, h1)
      | Some local \<Rightarrow>
          Option.bind (from_manifest env now local (dh_device_id h1) (ms_root_path summary)) (\<lambda>_.
          map_option (\<lambda>paths.
            let saved = be_manifest_len env local - summary_len summary;
                h2 = h1\<lparr>dh_progress := hm_modify peer
                  (\<lambda>p. p\<lparr>bytes_saved := word_of_nat saved, differences_found := length paths\<rparr>)
                  (dh_progress h1)\<rparr> in
            (Some (if paths \<noteq> [] then RequestDiffDetails paths rid
                   else Acknowledge rid True (Some ''No differences found'')), h2))
            (suspected env (path_filter summary) (map path (files local)))))"

definition handle_details_request ::
  "bloom_env \<Rightarrow> string list \<Rightarrow> string \<Rightarrow> diff_handler \<Rightarrow> diff_message option \<times> diff_handler" where
  "handle_details_request env paths rid h =
     (Some (SendDiffDetails (hm_collect (map (\<lambda>f. (path f, f))
        (filter (\<lambda>f. path f \<in> set paths)
          (concat (map (files \<circ> snd) (be_order env (dh_manifests h))))))) rid), h)"

definition handle_details_response ::
  "(string, manifest_entry) hmap \<Rightarrow> diff_handler \<Rightarrow> diff_message option \<times> diff_handler" where
  "handle_details_response details h =
     (None, h\<lparr>dh_progress := map (\<lambda>(k, p). (k,
        if dp_stage p = RequestingDetails
        then p\<lparr>dp_stage := TransferringChunks, progress_percent := 75, files_compared := length details\<rparr>
        else p)) (dh_progress h)\<rparr>)"

definition handle_chunks_request ::
  "string list \<Rightarrow> string \<Rightarrow> diff_handler \<Rightarrow> diff_message option \<times> diff_handler" where
  "handle_chunks_request hashes rid h =
     (Some (Acknowledge rid True (Some (''Would send '' @ show_nat (length hashes) @ '' chunks''))), h)"

definition handle_acknowledge :: "diff_handler \<Rightarrow> diff_message option \<times> diff_handler" where
  "handle_acknowledge h =
     (None, h\<lparr>dh_progress := map (\<lambda>(k, p). (k,
        if dp_stage p \<noteq> Completed then p\<lparr>dp_stage := Completed, progress_percent := 100\<rparr> else p))
        (dh_progress h)\<rparr>)"

fun handle_message ::
  "bloom_env \<Rightarrow> (manifest_summary \<Rightarrow> nat) \<Rightarrow> date_time \<Rightarrow> diff_message \<Rightarrow> diff_handler \<Rightarrow>
   (diff_message option \<times> diff_handler) option" where
  "handle_message env len now (RequestSummary p rid) h = handle_summary_request env now p rid h"
| "handle_message env len now (SendSummary s rid) h = handle_summary_response env len now s rid h"
| "handle_message env len now (RequestDiffDetails ps rid) h = Some (handle_details_request env ps rid h)"
| "handle_message env len now (SendDiffDetails d rid) h = Some (handle_details_response d h)"
| "handle_message env len now (RequestChunks hs rid) h = Some (handle_chunks_request hs rid h)"
| "handle_message env len now (Acknowledge rid ok msg) h = Some (handle_acknowledge h)"

definition diff_progress_of :: "string \<Rightarrow> diff_handler \<Rightarrow> diff_progress option" where
  "diff_progress_of peer h = hm_get (dh_progress h) peer"

definition bandwidth_saved :: "diff_handler \<Rightarrow> u64" where
  "bandwidth_saved h = sum_list (map (bytes_saved \<circ> snd) (dh_progress h))"

section \<open>The filter as a set of positions\<close>

text \<open>The abstract specification: a filter is the set of the positions of its bits, adding an
  item is the union with the item's positions and membership is inclusion.\<close>

definition filter_ok :: "bloom_filter \<Rightarrow> bool" where
  "filter_ok f \<longleftrightarrow> 0 < num_bits f \<and> length (bits f) = (num_bits f + 7) div 8"

definition positions :: "bloom_env \<Rightarrow> bloom_filter \<Rightarrow> string \<Rightarrow> nat set" where
  "positions env f item = (\<lambda>i. hash_item env item i mod num_bits f) ` {0..<num_hashes f}"

definition bloom_abs :: "bloom_filter \<Rightarrow> nat set" where
  "bloom_abs f = {p. p < num_bits f \<and> bit (bits f ! (p div 8)) (p mod 8)}"

lemma byte_in_range: "filter_ok f \<Longrightarrow> p < num_bits f \<Longrightarrow> p div 8 < length (bits f)"
  by (simp add: filter_ok_def)

lemma abs_set_bit:
  assumes "filter_ok f" and "p < num_bits f"
  shows "bloom_abs (f\<lparr>bits := (bits f)[p div 8 := bits f ! (p div 8) OR push_bit (p mod 8) 1]\<rparr>) =
    insert p (bloom_abs f)"
proof (rule set_eqI)
  fix q
  have "q = p \<longleftrightarrow> q div 8 = p div 8 \<and> q mod 8 = p mod 8" by (metis div_mult_mod_eq)
  moreover have "p mod 8 < LENGTH(8)" "q mod 8 < LENGTH(8)" by simp_all
  ultimately show "q \<in> bloom_abs (f\<lparr>bits := (bits f)[p div 8 := bits f ! (p div 8) OR push_bit (p mod 8) 1]\<rparr>)
      \<longleftrightarrow> q \<in> insert p (bloom_abs f)"
    using assms byte_in_range [OF assms]
    by (auto simp add: bloom_abs_def nth_list_update bit_or_iff bit_exp_iff)
qed

lemma set_bits_abs:
  "filter_ok f \<Longrightarrow> \<exists>f'. set_bits env item is f = Some f' \<and> filter_ok f' \<and>
     num_bits f' = num_bits f \<and> num_hashes f' = num_hashes f \<and>
     bloom_abs f' = bloom_abs f \<union> (\<lambda>i. hash_item env item i mod num_bits f) ` set is"
proof (induction "is" arbitrary: f)
  case Nil
  then show ?case by simp
next
  case (Cons i "is")
  let ?p = "hash_item env item i mod num_bits f"
  let ?f = "f\<lparr>bits := (bits f)[?p div 8 := bits f ! (?p div 8) OR push_bit (?p mod 8) 1]\<rparr>"
  have p: "?p < num_bits f" using Cons.prems by (simp add: filter_ok_def)
  have "filter_ok ?f" using Cons.prems by (simp add: filter_ok_def)
  from Cons.IH [OF this] obtain f' where f': "set_bits env item is ?f = Some f'" "filter_ok f'"
    "num_bits f' = num_bits f" "num_hashes f' = num_hashes f"
    "bloom_abs f' = bloom_abs ?f \<union> (\<lambda>i. hash_item env item i mod num_bits f) ` set is" by auto
  have "num_bits f \<noteq> 0" using p by simp
  with f'(1) byte_in_range [OF Cons.prems p] have "set_bits env item (i # is) f = Some f'"
    by (simp add: Let_def)
  with f'(2-5) abs_set_bit [OF Cons.prems p] show ?case by auto
qed

lemma bloom_add_abs:
  assumes "filter_ok f"
  shows "\<exists>f'. bloom_add env item f = Some f' \<and> filter_ok f' \<and> num_bits f' = num_bits f \<and>
    num_hashes f' = num_hashes f \<and> bloom_abs f' = bloom_abs f \<union> positions env f item"
proof -
  from set_bits_abs [OF assms, of env item "[0..<num_hashes f]"]
  obtain f' where "set_bits env item [0..<num_hashes f] f = Some f'" "filter_ok f'"
    "num_bits f' = num_bits f" "num_hashes f' = num_hashes f"
    "bloom_abs f' = bloom_abs f \<union> positions env f item"
    by (auto simp add: positions_def)
  then show ?thesis
    by (intro exI [of _ "f'\<lparr>num_elements := num_elements f' + 1\<rparr>"])
      (simp add: bloom_add_def filter_ok_def bloom_abs_def)
qed

lemma test_bits_abs:
  "filter_ok f \<Longrightarrow> test_bits env item is f =
     Some ((\<lambda>i. hash_item env item i mod num_bits f) ` set is \<subseteq> bloom_abs f)"
proof (induction "is")
  case Nil
  then show ?case by simp
next
  case (Cons i "is")
  let ?p = "hash_item env item i mod num_bits f"
  have p: "?p < num_bits f" and nz: "num_bits f \<noteq> 0" using Cons.prems by (simp_all add: filter_ok_def)
  have "bits f ! (?p div 8) AND push_bit (?p mod 8) 1 = 0 \<longleftrightarrow> ?p \<notin> bloom_abs f"
    using p by (simp add: bloom_abs_def and_exp_eq_0_iff_not_bit)
  with Cons byte_in_range [OF Cons.prems p] nz show ?case by (simp add: Let_def)
qed

lemma bloom_contains_abs:
  "filter_ok f \<Longrightarrow> bloom_contains env item f = Some (positions env f item \<subseteq> bloom_abs f)"
  by (simp add: bloom_contains_def test_bits_abs positions_def)

lemma bloom_add_all_abs:
  "filter_ok f \<Longrightarrow> \<exists>f'. bloom_add_all env xs f = Some f' \<and> filter_ok f' \<and> num_bits f' = num_bits f \<and>
     num_hashes f' = num_hashes f \<and> bloom_abs f' = bloom_abs f \<union> (\<Union>x\<in>set xs. positions env f x)"
proof (induction xs arbitrary: f)
  case Nil
  then show ?case by simp
next
  case (Cons x xs)
  from bloom_add_abs [OF Cons.prems, of env x] obtain f1 where f1: "bloom_add env x f = Some f1"
    "filter_ok f1" "num_bits f1 = num_bits f" "num_hashes f1 = num_hashes f"
    "bloom_abs f1 = bloom_abs f \<union> positions env f x" by blast
  have "positions env f1 = positions env f" using f1(3,4) by (simp add: positions_def fun_eq_iff)
  with Cons.IH [OF f1(2)] f1 show ?case by auto
qed

lemma new_filter_ok: "0 < be_num_bits env n \<Longrightarrow> filter_ok (new_filter env n)"
  by (simp add: filter_ok_def new_filter_def Let_def)

lemma new_filter_abs: "0 < be_num_bits env n \<Longrightarrow> bloom_abs (new_filter env n) = {}"
  using byte_in_range [OF new_filter_ok] by (auto simp add: bloom_abs_def new_filter_def Let_def)

lemma contains_added:
  assumes "0 < be_num_bits env n"
  shows "\<exists>f. bloom_add_all env xs (new_filter env n) = Some f \<and> size_bytes f = (be_num_bits env n + 7) div 8 \<and>
    (\<forall>y. bloom_contains env y f = Some (positions env (new_filter env n) y \<subseteq>
       (\<Union>x\<in>set xs. positions env (new_filter env n) x)))"
proof -
  from bloom_add_all_abs [OF new_filter_ok [OF assms], of env xs] new_filter_abs [OF assms]
  obtain f where f: "bloom_add_all env xs (new_filter env n) = Some f" "filter_ok f"
    "num_bits f = be_num_bits env n" "positions env f = positions env (new_filter env n)"
    "bloom_abs f = (\<Union>x\<in>set xs. positions env (new_filter env n) x)"
    by (auto simp add: positions_def fun_eq_iff) (auto simp add: new_filter_def Let_def)
  then show ?thesis by (simp add: bloom_contains_abs) (simp add: size_bytes_def filter_ok_def)
qed

text \<open>C39: The bit array implements a set of positions: whatever is added to a new filter, in
  whatever order, nothing panics, the array has the size the formula gives, and membership
  is exactly the inclusion of the item's positions in those of the items added.  So an item
  that was added is always found, and a false positive is a covering of positions.\<close>

theorem bloom_refines_set:
  assumes "0 < be_num_bits env n"
  shows "\<exists>f. bloom_add_all env xs (new_filter env n) = Some f \<and> size_bytes f = (be_num_bits env n + 7) div 8 \<and>
    (\<forall>y. bloom_contains env y f = Some (positions env (new_filter env n) y \<subseteq>
       (\<Union>x\<in>set xs. positions env (new_filter env n) x))) \<and>
    (\<forall>y\<in>set xs. bloom_contains env y f = Some True)"
proof -
  from contains_added [OF assms, of xs] obtain f where f:
    "bloom_add_all env xs (new_filter env n) = Some f" "size_bytes f = (be_num_bits env n + 7) div 8"
    "\<forall>y. bloom_contains env y f = Some (positions env (new_filter env n) y \<subseteq>
       (\<Union>x\<in>set xs. positions env (new_filter env n) x))" by blast
  then have "\<forall>y\<in>set xs. bloom_contains env y f = Some True" by auto
  with f show ?thesis by blast
qed

text \<open>A filter of 20 bits and two hash functions that hash a string to its length and the seed.\<close>

definition sample_bloom_env :: bloom_env where
  "sample_bloom_env = \<lparr>be_sip = (\<lambda>seed s. word_of_nat (length s) + 7 * seed), be_num_bits = (\<lambda>_. 20),
     be_num_hashes = (\<lambda>_. 2), be_checksum = (\<lambda>_. []), be_manifest_len = (\<lambda>m. length (files m)),
     be_order = rev\<rparr>"

theorem bloom_refines_set_witness:
  "\<exists>f. bloom_add_all sample_bloom_env [''a'', ''bcd''] (new_filter sample_bloom_env 2) = Some f \<and>
     size_bytes f = 3 \<and> bloom_contains sample_bloom_env ''bcd'' f = Some True"
proof -
  have n: "0 < be_num_bits sample_bloom_env 2" and s: "(be_num_bits sample_bloom_env 2 + 7) div 8 = 3"
    by (simp_all add: sample_bloom_env_def)
  from bloom_refines_set [OF n, of "[''a'', ''bcd'']"] show ?thesis unfolding s by auto
qed

section \<open>The exchange\<close>

lemma suspected_filter:
  "(\<And>p. bloom_contains env p f = Some (mem p)) \<Longrightarrow> suspected env f ps = Some (filter (\<lambda>p. \<not> mem p) ps)"
  by (induction ps) auto

lemma from_manifest_contains:
  assumes "\<And>n. 0 < be_num_bits env n"
  shows "\<exists>s mem. from_manifest env now m device root = Some s \<and> ms_root_path s = root \<and> ms_device_id s = device \<and>
    (\<forall>y. bloom_contains env y (path_filter s) = Some (mem y)) \<and> (\<forall>y\<in>path ` set (files m). mem y)"
proof -
  let ?n = "max (length (files m)) 100"
  let ?mem = "\<lambda>xs y. positions env (new_filter env ?n) y \<subseteq> (\<Union>x\<in>set xs. positions env (new_filter env ?n) x)"
  from contains_added [where n = ?n and xs = "map path (files m)", OF assms] obtain pf where
    pf: "bloom_add_all env (map path (files m)) (new_filter env ?n) = Some pf"
      "\<forall>y. bloom_contains env y pf = Some (?mem (map path (files m)) y)" by blast
  from contains_added [where n = ?n and xs = "map content_hash (files m)", OF assms] obtain hf where
    hf: "bloom_add_all env (map content_hash (files m)) (new_filter env ?n) = Some hf" by blast
  have "\<forall>y\<in>path ` set (files m). ?mem (map path (files m)) y" by auto
  with pf hf show ?thesis
    by (intro exI [of _ "\<lparr>ms_device_id = device, ms_root_path = root, path_filter = pf, hash_filter = hf,
          ms_file_count = length (files m), ms_total_size = total_size m, generated_at = now,
          manifest_checksum = be_checksum env m\<rparr>"] exI [of _ "?mem (map path (files m))"])
      (simp add: from_manifest_def Let_def)
qed

text \<open>The difference protocol never learns a difference.  The initiator has the manifest \<open>m\<close> of
  a folder, the peer only the manifest \<open>m'\<close> of the same folder: the peer answers the request
  with a summary, the initiator asks for details of paths that only it has itself, and the
  peer, which cannot have them, sends an empty set of details.  Where every local path occurs
  in the peer's manifest, whatever the contents, the answer is that there is no difference.\<close>

theorem exchange_learns_nothing:
  assumes sized: "\<And>n. 0 < be_num_bits env n" and order: "iter_order (be_order env)"
    and a: "hm_get (dh_manifests a) p = Some m" and b: "dh_manifests b = [(p, m')]"
  shows "\<exists>s reply a'. handle_message env len now (RequestSummary p rid) b = Some (Some (SendSummary s rid), b) \<and>
    handle_message env len now (SendSummary s rid) a = Some (Some reply, a') \<and>
    (if path ` set (files m) \<subseteq> path ` set (files m')
     then reply = Acknowledge rid True (Some ''No differences found'')
     else reply = Acknowledge rid True (Some ''No differences found'') \<or>
       (\<exists>paths. reply = RequestDiffDetails paths rid \<and>
          set paths \<subseteq> path ` set (files m) - path ` set (files m') \<and>
          handle_message env len now reply b = Some (Some (SendDiffDetails [] rid), b)))"
proof -
  from from_manifest_contains [OF sized, of now m' "dh_device_id b" p]
  obtain s mem where s: "from_manifest env now m' (dh_device_id b) p = Some s" "ms_root_path s = p"
    and mem: "\<And>y. bloom_contains env y (path_filter s) = Some (mem y)" "\<forall>y\<in>path ` set (files m'). mem y"
    by blast
  from from_manifest_contains [OF sized, of now m "dh_device_id a" p]
  obtain l where l: "from_manifest env now m (dh_device_id a) p = Some l" by blast
  let ?paths = "filter (\<lambda>q. \<not> mem q) (map path (files m))"
  let ?reply = "if ?paths \<noteq> [] then RequestDiffDetails ?paths rid
    else Acknowledge rid True (Some ''No differences found'')"
  have b1: "handle_message env len now (RequestSummary p rid) b = Some (Some (SendSummary s rid), b)"
    using b s(1) by (simp add: handle_summary_request_def hm_get_def)
  have a1: "\<exists>a'. handle_message env len now (SendSummary s rid) a = Some (Some ?reply, a')"
    using a s(2) l suspected_filter [OF mem(1), of "map path (files m)"]
    by (simp add: handle_summary_response_def Let_def)
  have sub: "set ?paths \<subseteq> path ` set (files m) - path ` set (files m')" using mem(2) by auto
  then have none: "path ` set (files m) \<subseteq> path ` set (files m') \<Longrightarrow> ?paths = []" by (auto simp add: filter_empty_conv)
  have "set (be_order env [(p, m')]) = {(p, m')}" using iter_order_set [OF order, of "[(p, m')]"] by simp
  moreover have "length (be_order env [(p, m')]) = 1" using iter_order_length [OF order, of "[(p, m')]"] by simp
  ultimately have "be_order env [(p, m')] = [(p, m')]" by (cases "be_order env [(p, m')]") auto
  moreover have "filter (\<lambda>f. path f \<in> set ?paths) (files m') = []"
    using sub by (auto simp add: filter_empty_conv)
  ultimately have d: "handle_message env len now (RequestDiffDetails ?paths rid) b = Some (Some (SendDiffDetails [] rid), b)"
    using b by (simp add: handle_details_request_def hm_collect_def)
  from a1 obtain a' where a2: "handle_message env len now (SendSummary s rid) a = Some (Some ?reply, a')" ..
  show ?thesis
    using b1 a2 none sub d
    by (intro exI [of _ s] exI [of _ ?reply] exI [of _ a']) auto
qed

text \<open>The same path with different contents on the two sides.\<close>

definition sample_initiator :: diff_handler where
  "sample_initiator = (new_diff_handler ''A'')\<lparr>dh_manifests := [(''f'', sample_manifest [sample_entry ''a'' ''1''])]\<rparr>"

definition sample_responder :: diff_handler where
  "sample_responder = (new_diff_handler ''B'')\<lparr>dh_manifests := [(''f'', sample_manifest [sample_entry ''a'' ''2''])]\<rparr>"

theorem exchange_learns_nothing_witness:
  "\<exists>s a'. handle_message sample_bloom_env (\<lambda>_. 0) 0 (RequestSummary ''f'' ''r'') sample_responder =
     Some (Some (SendSummary s ''r''), sample_responder) \<and>
   handle_message sample_bloom_env (\<lambda>_. 0) 0 (SendSummary s ''r'') sample_initiator =
     Some (Some (Acknowledge ''r'' True (Some ''No differences found'')), a')"
proof -
  have "0 < be_num_bits sample_bloom_env n" and "iter_order (be_order sample_bloom_env)" for n
    by (simp_all add: sample_bloom_env_def iter_order_rev)
  note exchange_learns_nothing [OF this, of sample_initiator "''f''" "sample_manifest [sample_entry ''a'' ''1'']"
      sample_responder "sample_manifest [sample_entry ''a'' ''2'']" "\<lambda>_. 0" 0 "''r''"]
  then show ?thesis
    by (simp add: sample_initiator_def sample_responder_def hm_get_def sample_manifest_def sample_entry_def
        new_manifest_def)
qed

end
