(* ===== verification/Resume.thy ===== *)
theory Resume
  imports Bloom Machines
begin

text \<open>
  Checkpoints of interrupted syncs (\<open>landro-daemon/src/resume_manager.rs\<close>): the manager's
  checkpoints in memory and in the JSON file, the sessions it monitors, the updates and the
  resumption of a session.

  A file is the checkpoints written to it (\<open>None\<close> before the first write); writing succeeds
  and reads back what was written.  A time is its nanoseconds.  \<open>checks\<close> says whether the
  build checks integer overflow (a debug build panics, a release build wraps); a panic is
  \<open>None\<close>.  \<open>folder_exists\<close> is the file system's answer.  The channel of a session, to which
  nothing is ever sent, and the averages of the statistics, which are floats, are left out.
\<close>

section \<open>State\<close>

record resume_stats_of =
  bytes_saved_by_resume :: u64
  chunks_skipped :: nat
  resume_overhead_bytes :: u64
  time_saved_seconds :: u64

record checkpoint =
  ck_session_id :: string
  ck_peer_id :: string
  folder_path :: string
  ck_created_at :: int
  last_updated :: int
  stage :: diff_stage
  percent :: u8
  manifests_exchanged :: bool
  bloom_summaries_complete :: bool
  differences_identified :: bool
  suspected_files :: "string list"
  confirmed_differences :: "string list"
  total_chunks_needed :: nat
  chunks_transferred :: "string list"
  chunks_failed :: "string list"
  bytes_transferred :: u64
  bytes_total :: u64
  connection_stable :: bool
  retry_count :: u32
  last_error :: "string option"
  bandwidth_stats :: resume_stats_of

type_synonym checkpoints = "(string, checkpoint) hmap"

record resume_manager =
  rm_checkpoints :: checkpoints
  rm_file :: "checkpoints option"
  rm_active :: "string hset"

definition new_resume_manager :: "checkpoints option \<Rightarrow> resume_manager" where
  "new_resume_manager saved =
     \<lparr>rm_checkpoints = (case saved of Some cs \<Rightarrow> cs | None \<Rightarrow> []), rm_file = saved, rm_active = []\<rparr>"

datatype checkpoint_update =
    Stage diff_stage
  | Progress u8
  | ChunkTransferred string
  | ChunkFailed string
  | BytesTransferred u64
  | Error string
  | Complete

section \<open>Saving\<close>

definition save_checkpoints_to_disk :: "resume_manager \<Rightarrow> resume_manager" where
  "save_checkpoints_to_disk m = m\<lparr>rm_file := Some (rm_checkpoints m)\<rparr>"

definition save_checkpoint :: "checkpoint \<Rightarrow> resume_manager \<Rightarrow> resume_manager" where
  "save_checkpoint c m =
     (let m1 = m\<lparr>rm_checkpoints := hm_put (ck_session_id c) c (rm_checkpoints m)\<rparr> in
      if length (rm_checkpoints m1) mod 10 = 0 then save_checkpoints_to_disk m1 else m1)"

text \<open>One tick of a session's monitor: it saves while the session is active and stops otherwise.\<close>

definition monitor_tick :: "string \<Rightarrow> resume_manager \<Rightarrow> resume_manager" where
  "monitor_tick i m = (if i \<in> set (rm_active m) then save_checkpoints_to_disk m else m)"

definition initial_checkpoint :: "int \<Rightarrow> string \<Rightarrow> string \<Rightarrow> string \<Rightarrow> checkpoint" where
  "initial_checkpoint now i peer folder =
     \<lparr>ck_session_id = i, ck_peer_id = peer, folder_path = folder, ck_created_at = now,
      last_updated = now, stage = Initializing, percent = 0, manifests_exchanged = False,
      bloom_summaries_complete = False, differences_identified = False, suspected_files = [],
      confirmed_differences = [], total_chunks_needed = 0, chunks_transferred = [],
      chunks_failed = [], bytes_transferred = 0, bytes_total = 0, connection_stable = True,
      retry_count = 0, last_error = None,
      bandwidth_stats = \<lparr>bytes_saved_by_resume = 0, chunks_skipped = 0, resume_overhead_bytes = 0,
        time_saved_seconds = 0\<rparr>\<rparr>"

definition start_resumable_session ::
  "int \<Rightarrow> string \<Rightarrow> string \<Rightarrow> string \<Rightarrow> resume_manager \<Rightarrow> resume_manager" where
  "start_resumable_session now i peer folder m =
     (let m1 = save_checkpoint (initial_checkpoint now i peer folder) m in
      m1\<lparr>rm_active := hs_add i (rm_active m1)\<rparr>)"

section \<open>Updates\<close>

definition mark_stage :: "diff_stage \<Rightarrow> checkpoint \<Rightarrow> checkpoint" where
  "mark_stage st c = (case st of
       ExchangingSummaries \<Rightarrow> c\<lparr>stage := st, manifests_exchanged := True\<rparr>
     | ComparingManifests \<Rightarrow> c\<lparr>stage := st, bloom_summaries_complete := True\<rparr>
     | RequestingDetails \<Rightarrow> c\<lparr>stage := st, differences_identified := True\<rparr>
     | _ \<Rightarrow> c\<lparr>stage := st\<rparr>)"

fun apply_update :: "checkpoint_update \<Rightarrow> checkpoint \<Rightarrow> checkpoint" where
  "apply_update (Stage st) c = mark_stage st c"
| "apply_update (Progress p) c = c\<lparr>percent := p\<rparr>"
| "apply_update (ChunkTransferred h) c =
     (if h \<in> set (chunks_transferred c) then c
      else c\<lparr>chunks_transferred := chunks_transferred c @ [h],
             chunks_failed := filter (\<lambda>g. g \<noteq> h) (chunks_failed c)\<rparr>)"
| "apply_update (ChunkFailed h) c =
     (if h \<in> set (chunks_failed c) then c else c\<lparr>chunks_failed := chunks_failed c @ [h]\<rparr>)
     \<lparr>connection_stable := False\<rparr>"
| "apply_update (BytesTransferred n) c = c\<lparr>bytes_transferred := n\<rparr>"
| "apply_update (Error e) c = c\<lparr>last_error := Some e, connection_stable := False\<rparr>"
| "apply_update Complete c = c\<lparr>percent := 100, stage := Completed\<rparr>"

definition update_checkpoint :: "int \<Rightarrow> string \<Rightarrow> checkpoint_update \<Rightarrow> resume_manager \<Rightarrow> resume_manager" where
  "update_checkpoint now i u m =
     m\<lparr>rm_checkpoints := hm_modify i (\<lambda>c. apply_update u (c\<lparr>last_updated := now\<rparr>)) (rm_checkpoints m)\<rparr>"

section \<open>Resuming\<close>

text \<open>A clock that ran backwards is an error.\<close>

definition can_resume_session :: "int \<Rightarrow> string \<Rightarrow> resume_manager \<Rightarrow> string + bool" where
  "can_resume_session now i m =
     (case hm_get (rm_checkpoints m) i of
        None \<Rightarrow> Inr False
      | Some c \<Rightarrow>
          if now < last_updated c then Inl ''second time provided was later than self''
          else Inr (now - last_updated c < 24 * 60 * 60 * 1000000000 \<and> percent c < 100))"

definition validate_checkpoint :: "(string \<Rightarrow> bool) \<Rightarrow> checkpoint \<Rightarrow> bool \<times> string" where
  "validate_checkpoint folder_exists c =
     (if \<not> folder_exists (folder_path c) then (False, ''Folder no longer exists'')
      else
        let missing = length (filter (\<lambda>h. h = []) (chunks_transferred c)) in
        if missing > length (chunks_transferred c) div 2
        then (False, ''Too many missing chunks: '' @ show_nat missing)
        else (True, ''Checkpoint valid''))"

definition estimate_time_saved :: "checkpoint \<Rightarrow> u64 option" where
  "estimate_time_saved c =
     (let n = word_of_nat (length (chunks_transferred c)) :: u64 in
      if total_chunks_needed c > 0 \<and> n = 0 then None
      else
        let avg = (if total_chunks_needed c > 0 then bytes_transferred c div n else 64 * 1024) in
        Some (max (n * avg div (10 * 1024 * 1024)) 1))"

record resume_result =
  success :: bool
  reason :: string
  rr_bytes_saved :: u64
  rr_chunks_skipped :: nat
  time_saved :: u64

definition resumed :: "int \<Rightarrow> u64 \<Rightarrow> checkpoint \<Rightarrow> checkpoint" where
  "resumed now secs c = (let b = bandwidth_stats c in
     c\<lparr>last_updated := now, retry_count := retry_count c + 1,
       bandwidth_stats := b\<lparr>bytes_saved_by_resume := bytes_saved_by_resume b + bytes_transferred c,
         chunks_skipped := chunks_skipped b + length (chunks_transferred c),
         time_saved_seconds := time_saved_seconds b + secs\<rparr>\<rparr>)"

definition resume_session ::
  "bool \<Rightarrow> (string \<Rightarrow> bool) \<Rightarrow> int \<Rightarrow> string \<Rightarrow> resume_manager \<Rightarrow>
   ((string + resume_result) \<times> resume_manager) option" where
  "resume_session checks folder_exists now i m =
     (case hm_get (rm_checkpoints m) i of
        None \<Rightarrow> Some (Inl ''Checkpoint not found'', m)
      | Some c \<Rightarrow>
          if checks \<and> total_chunks_needed c < length (chunks_transferred c) then None
          else
            (case validate_checkpoint folder_exists c of
               (False, why) \<Rightarrow>
                 Some (Inr \<lparr>success = False, reason = ''Invalid checkpoint: '' @ why,
                   rr_bytes_saved = 0, rr_chunks_skipped = 0, time_saved = 0\<rparr>, m)
             | (True, _) \<Rightarrow>
                 map_option (\<lambda>secs.
                   (Inr \<lparr>success = True, reason = ''Resume successful'',
                      rr_bytes_saved = bytes_transferred c,
                      rr_chunks_skipped = length (chunks_transferred c), time_saved = secs\<rparr>,
                    save_checkpoint (resumed now secs c) m))
                   (estimate_time_saved c)))"

section \<open>Statistics and cleanup\<close>

record resume_stats =
  total_sessions :: nat
  resumable_sessions :: nat
  completed_sessions :: nat
  failed_sessions :: nat
  total_bytes_saved :: u64
  total_chunks_skipped :: nat

definition count_checkpoint :: "string \<times> checkpoint \<Rightarrow> resume_stats \<Rightarrow> resume_stats" where
  "count_checkpoint kc st =
     (let c = snd kc;
          st1 = (if stage c = Completed then st\<lparr>completed_sessions := completed_sessions st + 1\<rparr>
                 else if percent c < 100 \<and> retry_count c > 0
                 then st\<lparr>resumable_sessions := resumable_sessions st + 1\<rparr> else st);
          st2 = (if last_error c \<noteq> None then st1\<lparr>failed_sessions := failed_sessions st1 + 1\<rparr> else st1) in
      st2\<lparr>total_bytes_saved := total_bytes_saved st2 + bytes_saved_by_resume (bandwidth_stats c),
          total_chunks_skipped := total_chunks_skipped st2 + chunks_skipped (bandwidth_stats c)\<rparr>)"

definition get_resume_stats :: "resume_manager \<Rightarrow> resume_stats" where
  "get_resume_stats m = fold count_checkpoint (rm_checkpoints m)
     \<lparr>total_sessions = length (rm_checkpoints m), resumable_sessions = 0, completed_sessions = 0,
      failed_sessions = 0, total_bytes_saved = 0, total_chunks_skipped = 0\<rparr>"

definition cleanup_old_checkpoints :: "int \<Rightarrow> resume_manager \<Rightarrow> nat \<times> resume_manager" where
  "cleanup_old_checkpoints now m =
     (let cutoff = now - 7 * 24 * 60 * 60 * 1000000000;
          kept = filter (\<lambda>(_, c). last_updated c > cutoff \<or> stage c \<noteq> Completed) (rm_checkpoints m);
          removed = length (rm_checkpoints m) - length kept;
          m1 = m\<lparr>rm_checkpoints := kept\<rparr> in
      (removed, if removed > 0 then save_checkpoints_to_disk m1 else m1))"

section \<open>Reachable managers\<close>

datatype resume_op =
    StartSession int string string string
  | Update int string checkpoint_update
  | Resume bool "string \<Rightarrow> bool" int string
  | Tick string
  | Cleanup int
  | Restart

fun resume_step :: "resume_op \<Rightarrow> resume_manager \<Rightarrow> resume_manager" where
  "resume_step (StartSession now i peer folder) m = start_resumable_session now i peer folder m"
| "resume_step (Update now i u) m = update_checkpoint now i u m"
| "resume_step (Resume checks ex now i) m =
     (case resume_session checks ex now i m of Some (_, m') \<Rightarrow> m' | None \<Rightarrow> m)"
| "resume_step (Tick i) m = monitor_tick i m"
| "resume_step (Cleanup now) m = snd (cleanup_old_checkpoints now m)"
| "resume_step Restart m = new_resume_manager (rm_file m)"

text \<open>A checkpoint is filed under its session, lists each chunk once and has no chunk count.\<close>

definition checkpoint_ok :: "string \<Rightarrow> checkpoint \<Rightarrow> bool" where
  "checkpoint_ok i c \<longleftrightarrow> ck_session_id c = i \<and> distinct (chunks_transferred c) \<and>
     distinct (chunks_failed c) \<and> total_chunks_needed c = 0"

definition checkpoints_ok :: "checkpoints \<Rightarrow> bool" where
  "checkpoints_ok cs \<longleftrightarrow> hm_wf cs \<and> list_all (\<lambda>(i, c). checkpoint_ok i c) cs"

definition resume_ok :: "resume_manager \<Rightarrow> bool" where
  "resume_ok m \<longleftrightarrow> checkpoints_ok (rm_checkpoints m) \<and> (\<forall>cs. rm_file m = Some cs \<longrightarrow> checkpoints_ok cs)"

lemma checkpoints_ok_get: "checkpoints_ok cs \<Longrightarrow> hm_get cs i = Some c \<Longrightarrow> checkpoint_ok i c"
  unfolding checkpoints_ok_def by (metis (no_types, lifting) case_prodD hm_mem_iff list_all_iff)

lemma checkpoints_ok_put: "checkpoints_ok cs \<Longrightarrow> checkpoint_ok i c \<Longrightarrow> checkpoints_ok (hm_put i c cs)"
  by (auto simp add: checkpoints_ok_def hm.wf_put intro!: list_all_put)

lemma checkpoint_ok_update: "checkpoint_ok i c \<Longrightarrow> checkpoint_ok i (apply_update u (c\<lparr>last_updated := now\<rparr>))"
  by (cases u) (auto simp add: checkpoint_ok_def mark_stage_def split: diff_stage.splits)

lemma save_checkpoint_ok:
  "resume_ok m \<Longrightarrow> checkpoint_ok (ck_session_id c) c \<Longrightarrow> resume_ok (save_checkpoint c m)"
  by (simp add: resume_ok_def save_checkpoint_def save_checkpoints_to_disk_def checkpoints_ok_put Let_def)

lemma resume_session_ok:
  assumes "resume_ok m" and "resume_session checks ex now i m = Some (r, m')"
  shows "resume_ok m'"
proof (cases "hm_get (rm_checkpoints m) i")
  case None
  with assms show ?thesis by (simp add: resume_session_def)
next
  case (Some c)
  have "checkpoint_ok i c" using assms(1) Some checkpoints_ok_get by (auto simp add: resume_ok_def)
  then have "checkpoint_ok (ck_session_id (resumed now s c)) (resumed now s c)" for s
    by (simp add: checkpoint_ok_def resumed_def Let_def)
  with Some assms save_checkpoint_ok show ?thesis
    by (auto simp add: resume_session_def split: if_splits bool.splits prod.splits)
qed

interpretation resumes: machine resume_step resume_ok
proof
  fix m op
  assume ok: "resume_ok m"
  show "resume_ok (resume_step op m)"
  proof (cases op)
    case (StartSession now i peer folder)
    have "checkpoint_ok (ck_session_id (initial_checkpoint now i peer folder)) (initial_checkpoint now i peer folder)"
      by (simp add: checkpoint_ok_def initial_checkpoint_def)
    from save_checkpoint_ok [OF ok this] StartSession show ?thesis
      by (simp add: start_resumable_session_def Let_def resume_ok_def)
  next
    case (Update now i u)
    then show ?thesis using ok
      by (simp add: update_checkpoint_def resume_ok_def checkpoints_ok_def list_all_modify checkpoint_ok_update)
  next
    case (Resume checks ex now i)
    then show ?thesis using ok resume_session_ok by (auto split: option.splits)
  next
    case (Tick i)
    then show ?thesis using ok by (simp add: monitor_tick_def save_checkpoints_to_disk_def resume_ok_def)
  next
    case (Cleanup now)
    have "checkpoints_ok (filter P (rm_checkpoints m))" for P
      using ok by (auto simp add: resume_ok_def checkpoints_ok_def hm_wf_def list_all_iff distinct_map_filter)
    with ok show ?thesis using Cleanup
      by (simp add: cleanup_old_checkpoints_def Let_def save_checkpoints_to_disk_def resume_ok_def)
  next
    case Restart
    then show ?thesis using ok
      by (auto simp add: new_resume_manager_def resume_ok_def checkpoints_ok_def hm.wf_empty split: option.splits)
  qed
qed

lemma new_resume_ok: "resume_ok (new_resume_manager None)"
  by (simp add: new_resume_manager_def resume_ok_def checkpoints_ok_def hm.wf_empty)

lemma resume_session_outcome:
  assumes ok: "resume_ok m"
  shows "(case hm_get (rm_checkpoints m) i of
      None \<Rightarrow> resume_session checks ex now i m = Some (Inl ''Checkpoint not found'', m)
    | Some c \<Rightarrow> distinct (chunks_transferred c) \<and>
        (if checks \<and> chunks_transferred c \<noteq> [] then resume_session checks ex now i m = None
         else if ex (folder_path c) \<and> 2 * length (filter (\<lambda>h. h = []) (chunks_transferred c)) \<le> length (chunks_transferred c)
         then \<exists>r m' c'. resume_session checks ex now i m = Some (Inr r, m') \<and> success r \<and>
           rr_chunks_skipped r = length (chunks_transferred c) \<and> rr_bytes_saved r = bytes_transferred c \<and>
           hm_get (rm_checkpoints m') i = Some c' \<and> retry_count c' = retry_count c + 1 \<and>
           chunks_transferred c' = chunks_transferred c
         else \<exists>r. resume_session checks ex now i m = Some (Inr r, m) \<and> \<not> success r))"
proof (cases "hm_get (rm_checkpoints m) i")
  case None
  then show ?thesis by (simp add: resume_session_def)
next
  case (Some c)
  from ok have c: "checkpoint_ok i c" and wf: "hm_wf (rm_checkpoints m)"
    using Some checkpoints_ok_get by (auto simp add: resume_ok_def checkpoints_ok_def)
  have get: "hm_get (rm_checkpoints (save_checkpoint (resumed now s c) m)) i = Some (resumed now s c)" for s
    using c wf by (simp add: save_checkpoint_def save_checkpoints_to_disk_def Let_def hm.get_put
        checkpoint_ok_def resumed_def)
  let ?missing = "length (filter (\<lambda>h. h = []) (chunks_transferred c))"
  have half: "?missing > length (chunks_transferred c) div 2 \<longleftrightarrow> \<not> 2 * ?missing \<le> length (chunks_transferred c)"
    by arith
  show ?thesis
    using Some c get
    by (auto simp add: resume_session_def checkpoint_ok_def validate_checkpoint_def estimate_time_saved_def
        half Let_def resumed_def)
qed

text \<open>What resuming a session does, in every manager that any sequence of sessions, updates,
  resumptions, monitor ticks, cleanups and restarts can reach: an unknown session is an error;
  a build that checks overflow panics as soon as one chunk was transferred, because the number
  of chunks needed is never set; any other resumption of a folder that still exists, with at
  most half of the hashes empty, succeeds, skips exactly the chunks transferred, each once, and
  counts one more retry.\<close>

theorem resume_outcome:
  "let m = fold resume_step ops (new_resume_manager None) in
    (case hm_get (rm_checkpoints m) i of
      None \<Rightarrow> resume_session checks ex now i m = Some (Inl ''Checkpoint not found'', m)
    | Some c \<Rightarrow> distinct (chunks_transferred c) \<and>
        (if checks \<and> chunks_transferred c \<noteq> [] then resume_session checks ex now i m = None
         else if ex (folder_path c) \<and> 2 * length (filter (\<lambda>h. h = []) (chunks_transferred c)) \<le> length (chunks_transferred c)
         then \<exists>r m' c'. resume_session checks ex now i m = Some (Inr r, m') \<and> success r \<and>
           rr_chunks_skipped r = length (chunks_transferred c) \<and> rr_bytes_saved r = bytes_transferred c \<and>
           hm_get (rm_checkpoints m') i = Some c' \<and> retry_count c' = retry_count c + 1 \<and>
           chunks_transferred c' = chunks_transferred c
         else \<exists>r. resume_session checks ex now i m = Some (Inr r, m) \<and> \<not> success r))"
proof -
  let ?m = "fold resume_step ops (new_resume_manager None)"
  have "resume_ok ?m" by (rule resumes.inv_fold [OF new_resume_ok])
  from resume_session_outcome [OF this] show ?thesis unfolding Let_def .
qed

end
