(* ===== verification/Resumable.thy ===== *)
theory Resumable
  imports Containers Machines Quic_Errors
begin

text \<open>
  Resumable transfers over QUIC (\<open>landro-quic/src/resumable.rs\<close>): the active transfers, their
  checkpoints, which the code keeps in memory, and the operations between them, with the
  cleanup of idle transfers and the delayed removal of a finished checkpoint as operations of
  their own.

  A connection is a value of type \<open>'c\<close>; times are nanoseconds of a clock that the operations
  are given (the monotonic clock and the wall clock are the same), and the difference of two
  of them is not below zero.  The progress and bandwidth figures, which are floats, are
  left out.
\<close>

record transfer_checkpoint =
  transfer_id :: string
  tc_peer_id :: string
  file_path :: string
  total_size :: u64
  bytes_transferred :: u64
  chunk_offset :: u64
  last_checkpoint :: nat
  retry_count :: u32

datatype transfer_status = Active | Paused | Completed | Failed | Cancelled

record 'c active_transfer =
  checkpoint :: transfer_checkpoint
  status :: transfer_status
  connection :: "'c option"
  last_activity :: nat
  bandwidth_samples :: "(nat \<times> u64) list"

record 'c transfer_manager =
  active_transfers :: "(string, 'c active_transfer) hmap"
  checkpoints :: "(string, transfer_checkpoint) hmap"
  checkpoint_interval :: nat
  transfer_timeout :: nat
  max_retry_count :: u32

definition new_manager :: "nat \<Rightarrow> nat \<Rightarrow> u32 \<Rightarrow> 'c transfer_manager" where
  "new_manager interval timeout retries =
     \<lparr>active_transfers = [], checkpoints = [], checkpoint_interval = interval,
      transfer_timeout = timeout, max_retry_count = retries\<rparr>"

definition default_manager :: "'c transfer_manager" where
  "default_manager = new_manager (10 * 1000000000) (300 * 1000000000) 3"

definition load_checkpoint :: "string \<Rightarrow> 'c transfer_manager \<Rightarrow> transfer_checkpoint option" where
  "load_checkpoint i m = hm_get (checkpoints m) i"

definition save_checkpoint :: "transfer_checkpoint \<Rightarrow> 'c transfer_manager \<Rightarrow> 'c transfer_manager" where
  "save_checkpoint c m = m\<lparr>checkpoints := hm_put (transfer_id c) c (checkpoints m)\<rparr>"

definition remove_checkpoint :: "string \<Rightarrow> 'c transfer_manager \<Rightarrow> 'c transfer_manager" where
  "remove_checkpoint i m = m\<lparr>checkpoints := hm_del i (checkpoints m)\<rparr>"

definition fresh_checkpoint :: "nat \<Rightarrow> string \<Rightarrow> string \<Rightarrow> string \<Rightarrow> u64 \<Rightarrow> transfer_checkpoint" where
  "fresh_checkpoint now i peer p n =
     \<lparr>transfer_id = i, tc_peer_id = peer, file_path = p, total_size = n, bytes_transferred = 0,
      chunk_offset = 0, last_checkpoint = now, retry_count = 0\<rparr>"

definition activate :: "nat \<Rightarrow> 'c \<Rightarrow> transfer_checkpoint \<Rightarrow> 'c active_transfer" where
  "activate now conn c = \<lparr>checkpoint = c, status = Active, connection = Some conn,
     last_activity = now, bandwidth_samples = []\<rparr>"

definition start_transfer ::
  "nat \<Rightarrow> string \<Rightarrow> string \<Rightarrow> string \<Rightarrow> u64 \<Rightarrow> 'c \<Rightarrow> 'c transfer_manager \<Rightarrow> 'c transfer_manager" where
  "start_transfer now i peer p n conn m =
     (let saved = load_checkpoint i m;
          done_bytes = (case saved of Some c \<Rightarrow> bytes_transferred c | None \<Rightarrow> 0) in
      if done_bytes \<ge> n then m
      else
        let c = (case saved of Some c \<Rightarrow> c | None \<Rightarrow> fresh_checkpoint now i peer p n) in
        save_checkpoint c
          (m\<lparr>active_transfers := hm_put i (activate now conn c) (active_transfers m)\<rparr>))"

definition update_progress ::
  "nat \<Rightarrow> string \<Rightarrow> u64 \<Rightarrow> u64 \<Rightarrow> 'c transfer_manager \<Rightarrow> 'c transfer_manager" where
  "update_progress now i bytes off m =
     (case hm_get (active_transfers m) i of
        None \<Rightarrow> m
      | Some t \<Rightarrow>
          let c = (checkpoint t)\<lparr>bytes_transferred := bytes, chunk_offset := off\<rparr>;
              samples = filter (\<lambda>(time, _). time + 30 * 1000000000 > now) (bandwidth_samples t @ [(now, bytes)]);
              due = (now - last_checkpoint c) div 1000000000 \<ge> checkpoint_interval m div 1000000000;
              c1 = (if due then c\<lparr>last_checkpoint := now\<rparr> else c);
              m1 = m\<lparr>active_transfers := hm_put i
                (t\<lparr>checkpoint := c1, last_activity := now, bandwidth_samples := samples\<rparr>)
                (active_transfers m)\<rparr> in
          if due then save_checkpoint c1 m1 else m1)"

definition complete_transfer :: "nat \<Rightarrow> string \<Rightarrow> 'c transfer_manager \<Rightarrow> 'c transfer_manager" where
  "complete_transfer now i m =
     (case hm_get (active_transfers m) i of
        None \<Rightarrow> m
      | Some t \<Rightarrow> save_checkpoint ((checkpoint t)\<lparr>last_checkpoint := now\<rparr>)
          (m\<lparr>active_transfers := hm_del i (active_transfers m)\<rparr>))"

definition fail_transfer :: "nat \<Rightarrow> string \<Rightarrow> 'c transfer_manager \<Rightarrow> 'c transfer_manager" where
  "fail_transfer now i m =
     (case hm_get (active_transfers m) i of
        None \<Rightarrow> m
      | Some t \<Rightarrow>
          let c = (checkpoint t)\<lparr>retry_count := retry_count (checkpoint t) + 1, last_checkpoint := now\<rparr>;
              active = (if retry_count c \<ge> max_retry_count m then hm_del i (active_transfers m)
                else hm_put i (t\<lparr>checkpoint := c, status := Failed\<rparr>) (active_transfers m)) in
          save_checkpoint c (m\<lparr>active_transfers := active\<rparr>))"

definition pause_transfer :: "nat \<Rightarrow> string \<Rightarrow> 'c transfer_manager \<Rightarrow> 'c transfer_manager" where
  "pause_transfer now i m =
     (case hm_get (active_transfers m) i of
        None \<Rightarrow> m
      | Some t \<Rightarrow>
          let c = (checkpoint t)\<lparr>last_checkpoint := now\<rparr> in
          save_checkpoint c (m\<lparr>active_transfers :=
            hm_put i (t\<lparr>checkpoint := c, status := Paused\<rparr>) (active_transfers m)\<rparr>))"

definition resume_transfer ::
  "nat \<Rightarrow> string \<Rightarrow> 'c \<Rightarrow> 'c transfer_manager \<Rightarrow> (quic_error + unit) \<times> 'c transfer_manager" where
  "resume_transfer now i conn m =
     (case hm_get (active_transfers m) i of
        Some t \<Rightarrow> (Inr (), m\<lparr>active_transfers := hm_put i
          (t\<lparr>status := Active, connection := Some conn, last_activity := now, bandwidth_samples := []\<rparr>)
          (active_transfers m)\<rparr>)
      | None \<Rightarrow>
          (case load_checkpoint i m of
             Some c \<Rightarrow> (Inr (), m\<lparr>active_transfers := hm_put i (activate now conn c) (active_transfers m)\<rparr>)
           | None \<Rightarrow> (Inl (ProtocolErr (''No checkpoint found for transfer: '' @ i)), m)))"

text \<open>One round of the cleanup task: idle active transfers are dropped, their checkpoints kept.\<close>

definition timed_out :: "nat \<Rightarrow> 'c transfer_manager \<Rightarrow> 'c active_transfer \<Rightarrow> bool" where
  "timed_out now m t \<longleftrightarrow> status t = Active \<and> now - last_activity t > transfer_timeout m"

definition cleanup_tick :: "nat \<Rightarrow> 'c transfer_manager \<Rightarrow> 'c transfer_manager" where
  "cleanup_tick now m =
     m\<lparr>active_transfers := filter (\<lambda>(_, t). \<not> timed_out now m t) (active_transfers m)\<rparr>"

section \<open>Reachable managers\<close>

datatype 'c transfer_op =
    StartTransfer nat string string string u64 'c
  | UpdateProgress nat string u64 u64
  | CompleteTransfer nat string
  | FailTransfer nat string
  | PauseTransfer nat string
  | ResumeTransfer nat string 'c
  | CleanupTick nat
  | RemoveCheckpoint string

fun transfer_step :: "'c transfer_op \<Rightarrow> 'c transfer_manager \<Rightarrow> 'c transfer_manager" where
  "transfer_step (StartTransfer now i peer p n conn) m = start_transfer now i peer p n conn m"
| "transfer_step (UpdateProgress now i bytes off) m = update_progress now i bytes off m"
| "transfer_step (CompleteTransfer now i) m = complete_transfer now i m"
| "transfer_step (FailTransfer now i) m = fail_transfer now i m"
| "transfer_step (PauseTransfer now i) m = pause_transfer now i m"
| "transfer_step (ResumeTransfer now i conn) m = snd (resume_transfer now i conn m)"
| "transfer_step (CleanupTick now) m = cleanup_tick now m"
| "transfer_step (RemoveCheckpoint i) m = remove_checkpoint i m"

text \<open>\<open>R i\<close> holds the positions reported for a transfer.  A checkpoint is at one of them.\<close>

definition at_reported :: "(string \<Rightarrow> (u64 \<times> u64) set) \<Rightarrow> string \<Rightarrow> transfer_checkpoint \<Rightarrow> bool" where
  "at_reported R i c \<longleftrightarrow> transfer_id c = i \<and> (bytes_transferred c, chunk_offset c) \<in> insert (0, 0) (R i)"

definition manager_ok :: "(string \<Rightarrow> (u64 \<times> u64) set) \<Rightarrow> 'c transfer_manager \<Rightarrow> bool" where
  "manager_ok R m \<longleftrightarrow> hm_wf (active_transfers m) \<and> hm_wf (checkpoints m) \<and>
     (\<forall>i t. hm_get (active_transfers m) i = Some t \<longrightarrow> at_reported R i (checkpoint t)) \<and>
     (\<forall>i c. hm_get (checkpoints m) i = Some c \<longrightarrow> at_reported R i c)"

fun reported :: "'c transfer_op \<Rightarrow> string \<Rightarrow> (u64 \<times> u64) set" where
  "reported (UpdateProgress _ j bytes off) i = (if i = j then {(bytes, off)} else {})"
| "reported _ i = {}"

lemmas manager_defs = start_transfer_def update_progress_def complete_transfer_def fail_transfer_def
  pause_transfer_def resume_transfer_def save_checkpoint_def load_checkpoint_def Let_def

lemma transfer_step_ok:
  assumes ok: "manager_ok R m" and new: "\<And>i. reported op i \<subseteq> R i"
  shows "manager_ok R (transfer_step op m)"
proof -
  have wf: "hm_wf (active_transfers m)" "hm_wf (checkpoints m)" using ok by (simp_all add: manager_ok_def)
  have act: "\<And>i t. hm_get (active_transfers m) i = Some t \<Longrightarrow> at_reported R i (checkpoint t)"
    and ckp: "\<And>i c. hm_get (checkpoints m) i = Some c \<Longrightarrow> at_reported R i c"
    using ok by (simp_all add: manager_ok_def)
  note simps = manager_ok_def hm.wf_put hm.wf_del hm.get_put hm.get_del at_reported_def
  show ?thesis
  proof (cases op)
    case (StartTransfer now i peer p n conn)
    then show ?thesis using wf act ckp
      by (auto simp add: manager_defs simps fresh_checkpoint_def activate_def split: option.splits)
  next
    case (UpdateProgress now i bytes off)
    with new [of i] have "(bytes, off) \<in> R i" by simp
    with UpdateProgress show ?thesis using wf act ckp
      by (auto simp add: manager_defs simps split: option.splits)
  next
    case (CleanupTick now)
    then show ?thesis using wf act ckp
      by (auto simp add: cleanup_tick_def manager_ok_def hm_wf_filter dest: hm_get_filter)
  next
    case (RemoveCheckpoint i)
    then show ?thesis using wf act ckp by (auto simp add: remove_checkpoint_def simps split: if_splits)
  qed (use wf act ckp in \<open>fastforce simp add: manager_defs simps activate_def split: option.splits if_splits\<close>)+
qed

lemma run_ok:
  "(\<And>op i. op \<in> set ops \<Longrightarrow> reported op i \<subseteq> R i) \<Longrightarrow> manager_ok R m \<Longrightarrow> manager_ok R (fold transfer_step ops m)"
  by (induction ops arbitrary: m) (simp_all add: transfer_step_ok)

text \<open>A transfer only ever resumes from a position that was reported for it: whatever starts,
  updates, failures, pauses, resumptions, timeouts and removals came before, resuming succeeds
  exactly when the transfer is active or has a checkpoint, and it is then active at the start
  or at a pair of byte count and chunk offset that one progress update of this very transfer
  had given.\<close>

theorem resumes_at_reported_position:
  "let m = fold transfer_step ops (new_manager interval timeout retries);
       (r, m') = resume_transfer now i conn m in
   (r = Inr () \<longleftrightarrow> hm_has (active_transfers m) i \<or> hm_has (checkpoints m) i) \<and>
   (case hm_get (active_transfers m') i of
      None \<Rightarrow> r \<noteq> Inr ()
    | Some t \<Rightarrow> status t = Active \<and> connection t = Some conn \<and>
        at_reported (\<lambda>j. \<Union>op\<in>set ops. reported op j) i (checkpoint t))"
proof -
  let ?R = "\<lambda>j. \<Union>op\<in>set ops. reported op j"
  let ?m = "fold transfer_step ops (new_manager interval timeout retries)"
  have "manager_ok ?R (new_manager interval timeout retries)"
    by (simp add: manager_ok_def new_manager_def hm.wf_empty hm_get_def)
  then have ok: "manager_ok ?R ?m" by (intro run_ok) auto
  then have wf: "hm_wf (active_transfers ?m)" by (simp add: manager_ok_def)
  show ?thesis
  proof (cases "hm_get (active_transfers ?m) i")
    case (Some t)
    with ok have "at_reported ?R i (checkpoint t)" by (auto simp add: manager_ok_def)
    with Some wf show ?thesis by (simp add: resume_transfer_def hm_has_def hm.get_put)
  next
    case None
    show ?thesis
    proof (cases "hm_get (checkpoints ?m) i")
      case (Some c)
      with ok have "at_reported ?R i c" by (auto simp add: manager_ok_def)
      with Some None wf show ?thesis
        by (simp add: resume_transfer_def load_checkpoint_def activate_def hm_has_def hm.get_put)
    qed (use None in \<open>simp add: resume_transfer_def load_checkpoint_def hm_has_def\<close>)
  qed
qed

end
