(* ===== verification/Flow.thy ===== *)
theory Flow
  imports Proto Containers Quic_Errors
begin

text \<open>
  The parts of a stream transfer that keep state (\<open>landro-quic/src/stream_transfer.rs\<close>): the
  retries of a chunk, the flow controller, the stream pool, the priority scheduler and the
  round robin of a multiplexed stream.

  The flow controller is a step relation: an acquisition holds the controller's lock until it
  returns, permits are released at any time.  Its threshold is the value the code computes in
  \<open>f32\<close> from the window and the configured fraction, a parameter.  The outcome of an attempt to
  send, with its timeout, is a parameter of the retries.  Buffers, identifiers, durations and
  the task set that runs the transfers are left out.
\<close>

section \<open>Configuration\<close>

record transfer_config =
  max_concurrent_streams :: nat
  stream_buffer_size :: nat
  adaptive_flow_control :: bool
  flow_control_window :: nat
  threshold_percent :: nat
  enable_stream_priority :: bool
  max_retransmit_attempts :: nat
  stream_timeout_secs :: nat
  enable_compression :: bool

definition file_sync_optimized :: transfer_config where
  "file_sync_optimized = \<lparr>max_concurrent_streams = 64, stream_buffer_size = 8 * 1024 * 1024,
     adaptive_flow_control = True, flow_control_window = 64 * 1024 * 1024, threshold_percent = 80,
     enable_stream_priority = True, max_retransmit_attempts = 3, stream_timeout_secs = 30,
     enable_compression = False\<rparr>"

definition diff_sync_optimized :: transfer_config where
  "diff_sync_optimized = \<lparr>max_concurrent_streams = 32, stream_buffer_size = 4 * 1024 * 1024,
     adaptive_flow_control = True, flow_control_window = 32 * 1024 * 1024, threshold_percent = 75,
     enable_stream_priority = True, max_retransmit_attempts = 5, stream_timeout_secs = 60,
     enable_compression = True\<rparr>"

section \<open>Retries\<close>

record transfer_result =
  tr_chunk_hash :: bytes
  tr_success :: bool
  tr_bytes :: nat
  tr_error :: "string option"

text \<open>The attempts left, the number made so far and the last error.\<close>

fun retransmit ::
  "(nat \<Rightarrow> string + unit) \<Rightarrow> chunk_data \<Rightarrow> nat \<Rightarrow> nat \<Rightarrow> string option \<Rightarrow> quic_error + transfer_result" where
  "retransmit send chunk 0 attempts last_error = Inl (StreamErr
     (''Failed to transfer chunk after '' @ show_nat attempts @ '' attempts: '' @
      (case last_error of Some e \<Rightarrow> e | None \<Rightarrow> ''Unknown error'')))"
| "retransmit send chunk (Suc n) attempts last_error =
     (case send attempts of
        Inr _ \<Rightarrow> Inr \<lparr>tr_chunk_hash = cd_hash chunk, tr_success = True,
                  tr_bytes = length (cd_data chunk), tr_error = None\<rparr>
      | Inl e \<Rightarrow> retransmit send chunk n (attempts + 1) (Some e))"

definition transfer_chunk_stream ::
  "transfer_config \<Rightarrow> (nat \<Rightarrow> string + unit) \<Rightarrow> chunk_data \<Rightarrow> quic_error + transfer_result" where
  "transfer_chunk_stream cfg send chunk = retransmit send chunk (max_retransmit_attempts cfg) 0 None"

text \<open>What the spawned task reports: an error loses the chunk's hash.\<close>

definition report_result :: "(quic_error \<Rightarrow> string) \<Rightarrow> quic_error + transfer_result \<Rightarrow> transfer_result" where
  "report_result show_error r = (case r of
       Inr t \<Rightarrow> t
     | Inl e \<Rightarrow> \<lparr>tr_chunk_hash = [], tr_success = False, tr_bytes = 0, tr_error = Some (show_error e)\<rparr>)"

section \<open>The flow controller\<close>

datatype acquire_phase = NoAcquire | WaitingNotify nat | WaitingCapacity nat

record flow_controller =
  window_size :: nat
  fc_threshold :: nat
  available_capacity :: nat
  fc_permits :: "nat list"
  fc_phase :: acquire_phase

definition new_flow_controller :: "nat \<Rightarrow> nat \<Rightarrow> flow_controller" where
  "new_flow_controller window threshold =
     \<lparr>window_size = window, fc_threshold = threshold, available_capacity = window,
      fc_permits = [], fc_phase = NoAcquire\<rparr>"

definition begin_acquire :: "nat \<Rightarrow> flow_controller \<Rightarrow> flow_controller" where
  "begin_acquire n fc = fc\<lparr>fc_phase :=
     (if available_capacity fc < fc_threshold fc then WaitingNotify n else WaitingCapacity n)\<rparr>"

definition take_capacity :: "nat \<Rightarrow> flow_controller \<Rightarrow> flow_controller" where
  "take_capacity n fc = fc\<lparr>available_capacity := available_capacity fc - n,
     fc_permits := n # fc_permits fc, fc_phase := NoAcquire\<rparr>"

definition drop_permit :: "nat \<Rightarrow> flow_controller \<Rightarrow> flow_controller" where
  "drop_permit n fc = fc\<lparr>available_capacity := available_capacity fc + n, fc_permits := remove1 n (fc_permits fc)\<rparr>"

text \<open>\<open>notify_waiters\<close> would let a waiting acquisition go on; nothing in the program calls it.\<close>

definition notify_waiters :: "flow_controller \<Rightarrow> flow_controller" where
  "notify_waiters fc = (case fc_phase fc of
       WaitingNotify n \<Rightarrow> fc\<lparr>fc_phase := WaitingCapacity n\<rparr> | _ \<Rightarrow> fc)"

inductive flow_step :: "flow_controller \<Rightarrow> flow_controller \<Rightarrow> bool" where
  Flow_Begin: "fc_phase fc = NoAcquire \<Longrightarrow> flow_step fc (begin_acquire n fc)"
| Flow_Grant: "fc_phase fc = WaitingCapacity n \<Longrightarrow> n \<le> available_capacity fc \<Longrightarrow>
    flow_step fc (take_capacity n fc)"
| Flow_Release: "n \<in> set (fc_permits fc) \<Longrightarrow> flow_step fc (drop_permit n fc)"

inductive flow_reach :: "flow_controller \<Rightarrow> flow_controller \<Rightarrow> bool" for fc where
  Flow_Start: "flow_reach fc fc"
| Flow_Step: "flow_reach fc fc1 \<Longrightarrow> flow_step fc1 fc2 \<Longrightarrow> flow_reach fc fc2"

inductive_cases flow_stepE: "flow_step fc fc'"

section \<open>The stream pool\<close>

record stream_pool =
  max_streams :: nat
  pool_available :: nat
  pool_handed_out :: nat

definition new_stream_pool :: "nat \<Rightarrow> stream_pool" where
  "new_stream_pool n = \<lparr>max_streams = n, pool_available = 0, pool_handed_out = 0\<rparr>"

text \<open>The semaphore's permit is given back when \<open>acquire\<close> returns.\<close>

definition pool_acquire :: "stream_pool \<Rightarrow> stream_pool" where
  "pool_acquire p = (if pool_available p > 0
     then p\<lparr>pool_available := pool_available p - 1, pool_handed_out := pool_handed_out p + 1\<rparr>
     else p\<lparr>pool_handed_out := pool_handed_out p + 1\<rparr>)"

definition pool_release :: "stream_pool \<Rightarrow> stream_pool" where
  "pool_release p = p\<lparr>pool_available :=
     (if pool_available p < max_streams p then pool_available p + 1 else pool_available p)\<rparr>"

section \<open>The priority scheduler\<close>

record priority_scheduler =
  scheduler_enabled :: bool
  queues :: "(u8, chunk_data list) hmap"

definition new_scheduler :: "bool \<Rightarrow> priority_scheduler" where
  "new_scheduler enabled = \<lparr>scheduler_enabled = enabled, queues = []\<rparr>"

definition priorities :: "u8 list" where
  "priorities = map word_of_nat (rev [0..<256])"

fun drain_queues :: "u8 list \<Rightarrow> (u8, chunk_data list) hmap \<Rightarrow> chunk_data list \<times> (u8, chunk_data list) hmap" where
  "drain_queues [] m = ([], m)"
| "drain_queues (p # ps) m =
     (let q = (case hm_get m p of Some q \<Rightarrow> q | None \<Rightarrow> []);
          (rest, m1) = drain_queues ps (hm_modify p (\<lambda>_. []) m) in
      (q @ rest, m1))"

definition schedule ::
  "chunk_data list \<Rightarrow> u8 \<Rightarrow> priority_scheduler \<Rightarrow> chunk_data list \<times> priority_scheduler" where
  "schedule chunks priority s =
     (if \<not> scheduler_enabled s then (chunks, s)
      else
        let m = hm_modify priority (\<lambda>q. q @ chunks) (hm_or_insert priority [] (queues s));
            (scheduled, m1) = drain_queues priorities m in
        (scheduled, s\<lparr>queues := m1\<rparr>))"

section \<open>Multiplexed streams\<close>

record multiplexed_stream =
  substreams :: "bytes list"
  current_index :: nat

definition multiplex_send :: "bytes \<Rightarrow> multiplexed_stream \<Rightarrow> multiplexed_stream option" where
  "multiplex_send data m =
     (if substreams m = [] then None
      else
        let i = current_index m mod length (substreams m) in
        Some (m\<lparr>substreams := (substreams m)[i := substreams m ! i @ data],
                current_index := current_index m + 1\<rparr>))"

text \<open>The substream \<open>recv\<close> reads from.\<close>

definition multiplex_recv_index :: "multiplexed_stream \<Rightarrow> nat option" where
  "multiplex_recv_index m =
     (if substreams m = [] then None else Some (current_index m mod length (substreams m)))"

section \<open>Lemmas\<close>

lemma hm_get_empty_after_drain:
  "hm_wf m \<Longrightarrow> snd (drain_queues ps m) = m1 \<Longrightarrow> hm_wf m1 \<and>
   (\<forall>p. hm_get m1 p = (if p \<in> set ps then map_option (\<lambda>_. []) (hm_get m p) else hm_get m p))"
proof (induction ps arbitrary: m)
  case Nil
  then show ?case by simp
next
  case (Cons p ps)
  have wf: "hm_wf (hm_modify p (\<lambda>_. []) m)" using Cons.prems by simp
  have dr: "snd (drain_queues ps (hm_modify p (\<lambda>_. []) m)) = m1"
    using Cons.prems(2) by (simp add: Let_def split: prod.splits)
  from Cons.IH [OF wf dr]
  have ih: "hm_wf m1" "hm_get m1 q = (if q \<in> set ps then map_option (\<lambda>_. []) (hm_get (hm_modify p (\<lambda>_. []) m) q)
      else hm_get (hm_modify p (\<lambda>_. []) m) q)" for q by blast+
  then show ?case by (auto simp add: hm_get_modify option.map_comp comp_def)
qed

text \<open>With every queue but one empty, draining yields that one.\<close>

lemma drain_queues_one:
  "distinct ps \<Longrightarrow> (\<forall>p. p \<noteq> x \<longrightarrow> hm_get m p = None \<or> hm_get m p = Some []) \<Longrightarrow> hm_get m x = Some q \<Longrightarrow>
   fst (drain_queues ps m) = (if x \<in> set ps then q else [])"
proof (induction ps arbitrary: m q)
  case Nil
  then show ?case by simp
next
  case (Cons p ps)
  let ?m = "hm_modify p (\<lambda>_. []) m"
  have o: "\<forall>p. p \<noteq> x \<longrightarrow> hm_get ?m p = None \<or> hm_get ?m p = Some []"
    using Cons.prems(2) by (auto simp add: hm_get_modify)
  have "hm_get ?m x = Some (if p = x then [] else q)" using Cons.prems(3) by (auto simp add: hm_get_modify)
  from Cons.IH [OF _ o this] Cons.prems show ?case
    by (cases "p = x") (auto simp add: Let_def split: prod.splits option.splits)
qed

lemma priorities_all: "distinct priorities" "set priorities = UNIV"
proof -
  have e: "priorities = rev (map word_of_nat [0..<256])" by (simp add: priorities_def rev_map)
  have "inj_on (word_of_nat :: nat \<Rightarrow> u8) {0..<256}"
  proof (rule inj_onI)
    fix a b :: nat
    assume "a \<in> {0..<256}" "b \<in> {0..<256}" and "(word_of_nat a :: u8) = word_of_nat b"
    then have "unat (word_of_nat a :: u8) = unat (word_of_nat b :: u8)" by simp
    with \<open>a \<in> {0..<256}\<close> \<open>b \<in> {0..<256}\<close> show "a = b" by (simp add: unat_of_nat)
  qed
  then show "distinct priorities" unfolding e by (simp add: distinct_map)
  have "x \<in> word_of_nat ` {0..<256}" for x :: u8
    using unsigned_less [of x, where 'a = nat] by (intro image_eqI [of _ _ "unat x"]) simp_all
  then show "set priorities = UNIV" unfolding e by auto
qed

lemma retransmit_ok: "is_ok (retransmit send chunk n k le) \<longleftrightarrow> (\<exists>i<n. is_ok (send (k + i)))"
proof (induction n arbitrary: k le)
  case 0
  then show ?case by (simp add: is_ok_def)
next
  case (Suc n)
  have "(\<exists>i<Suc n. is_ok (send (k + i))) \<longleftrightarrow> is_ok (send k) \<or> (\<exists>i<n. is_ok (send (Suc k + i)))"
    by (auto simp add: less_Suc_eq_0_disj)
  then show ?case by (cases "send k") (simp_all add: Suc.IH, simp_all add: is_ok_def)
qed

text \<open>A chunk is transferred exactly when one of the allowed attempts succeeds.\<close>

lemma transfer_chunk_ok:
  "is_ok (transfer_chunk_stream cfg send chunk) \<longleftrightarrow> (\<exists>i<max_retransmit_attempts cfg. is_ok (send i))"
  by (simp add: transfer_chunk_stream_def retransmit_ok)

section \<open>Properties of the flow controller\<close>

definition flow_ok :: "nat \<Rightarrow> nat \<Rightarrow> flow_controller \<Rightarrow> bool" where
  "flow_ok w t fc \<longleftrightarrow> fc_threshold fc = t \<and> available_capacity fc + sum_list (fc_permits fc) = w"

lemma sum_list_remove1: "n \<in> set ns \<Longrightarrow> sum_list (remove1 n ns) + n = sum_list (ns :: nat list)"
  by (induction ns) auto

lemma flow_ok_step: "flow_step fc fc' \<Longrightarrow> flow_ok w t fc \<Longrightarrow> flow_ok w t fc'"
  by (induction rule: flow_step.induct)
    (auto simp add: flow_ok_def begin_acquire_def take_capacity_def drop_permit_def
      dest!: sum_list_remove1)

lemma flow_ok_reach: "flow_reach fc fc' \<Longrightarrow> flow_ok w t fc \<Longrightarrow> flow_ok w t fc'"
  by (induction rule: flow_reach.induct) (auto intro: flow_ok_step)

lemma flow_ok_new: "flow_ok w t (new_flow_controller w t)"
  by (simp add: flow_ok_def new_flow_controller_def)

lemma waiting_stays: "flow_reach fc fc' \<Longrightarrow> fc_phase fc = WaitingNotify n \<Longrightarrow> fc_phase fc' = WaitingNotify n"
  by (induction rule: flow_reach.induct)
    (auto elim!: flow_stepE simp add: drop_permit_def)

lemma too_large_stays:
  assumes "flow_reach fc fc'" and "flow_ok w t fc" and "fc_phase fc = WaitingCapacity n" and "w < n"
  shows "fc_phase fc' = WaitingCapacity n"
  using assms
proof (induction rule: flow_reach.induct)
  case Flow_Start
  then show ?case by simp
next
  case (Flow_Step fc1 fc2)
  have "flow_ok w t fc1" using flow_ok_reach [OF Flow_Step.hyps(1) Flow_Step.prems(1)] .
  then have "available_capacity fc1 < n" using Flow_Step.prems(3) by (simp add: flow_ok_def)
  moreover have "fc_phase fc1 = WaitingCapacity n" using Flow_Step by simp
  ultimately show ?case using Flow_Step.hyps(2) by (auto elim!: flow_stepE simp add: drop_permit_def)
qed

text \<open>The flow controller never loses or invents capacity, and it stalls.  In every state that
  acquisitions and releases can reach, the capacity available and the permits held add up to
  the window.  Once less than the threshold is available, the next acquisition waits for a
  notification for ever, whatever is released afterwards, and as it holds the controller's lock
  so does every later one; and a chunk larger than the window waits for ever as well.\<close>

theorem flow_controller_stalls:
  assumes "flow_reach (new_flow_controller w t) fc"
  shows "available_capacity fc + sum_list (fc_permits fc) = w \<and>
    (available_capacity fc < t \<longrightarrow> (\<forall>n fc'. flow_reach (begin_acquire n fc) fc' \<longrightarrow>
       fc_phase fc' = WaitingNotify n)) \<and>
    (\<forall>n fc'. w < n \<longrightarrow> fc_phase fc = WaitingCapacity n \<longrightarrow> flow_reach fc fc' \<longrightarrow>
       fc_phase fc' = WaitingCapacity n)"
proof -
  have ok: "flow_ok w t fc" by (rule flow_ok_reach [OF assms flow_ok_new])
  have "available_capacity fc < t \<Longrightarrow> fc_phase (begin_acquire n fc) = WaitingNotify n" for n
    using ok by (simp add: begin_acquire_def flow_ok_def)
  with ok waiting_stays too_large_stays [OF _ ok] show ?thesis by (auto simp add: flow_ok_def)
qed

text \<open>A window of 100 with threshold 80: a permit of 30 was granted; the next acquisition of 10
  is stuck, also after the permit is released.\<close>

definition held_controller :: flow_controller where
  "held_controller = take_capacity 30 (begin_acquire 30 (new_flow_controller 100 80))"

theorem flow_controller_stalls_witness:
  "fc_phase (drop_permit 30 (begin_acquire 10 held_controller)) = WaitingNotify 10 \<and>
   available_capacity (drop_permit 30 (begin_acquire 10 held_controller)) = 100"
proof -
  let ?n = "new_flow_controller 100 80"
  have "flow_step ?n (begin_acquire 30 ?n)" by (rule Flow_Begin) (simp add: new_flow_controller_def)
  moreover have "flow_step (begin_acquire 30 ?n) held_controller" unfolding held_controller_def
    by (rule Flow_Grant) (simp_all add: begin_acquire_def new_flow_controller_def)
  ultimately have r: "flow_reach ?n held_controller" by (blast intro: Flow_Start Flow_Step)
  have a: "available_capacity held_controller < 80"
    by (simp add: held_controller_def take_capacity_def begin_acquire_def new_flow_controller_def)
  have "flow_step (begin_acquire 10 held_controller) (drop_permit 30 (begin_acquire 10 held_controller))"
    by (rule Flow_Release) (simp add: held_controller_def take_capacity_def begin_acquire_def)
  then have "flow_reach (begin_acquire 10 held_controller) (drop_permit 30 (begin_acquire 10 held_controller))"
    by (blast intro: Flow_Start Flow_Step)
  with flow_controller_stalls [OF r] a show ?thesis
    by (simp add: drop_permit_def held_controller_def take_capacity_def begin_acquire_def new_flow_controller_def)
qed

section \<open>The scheduler has no effect\<close>

definition scheduler_ok :: "priority_scheduler \<Rightarrow> bool" where
  "scheduler_ok s \<longleftrightarrow> hm_wf (queues s) \<and> (\<forall>p. hm_get (queues s) p = None \<or> hm_get (queues s) p = Some [])"

lemma schedule_ok:
  assumes "scheduler_ok s"
  shows "fst (schedule chunks p s) = chunks \<and> scheduler_ok (snd (schedule chunks p s))"
proof (cases "scheduler_enabled s")
  case False
  with assms show ?thesis by (simp add: schedule_def)
next
  case True
  let ?m = "hm_modify p (\<lambda>q. q @ chunks) (hm_or_insert p [] (queues s))"
  have wf: "hm_wf (queues s)" using assms by (simp add: scheduler_ok_def)
  have get: "hm_get ?m x = (if x = p then Some chunks else hm_get (queues s) x)" for x
  proof -
    have "hm_get (queues s) p = None \<or> hm_get (queues s) p = Some []"
      using assms by (simp add: scheduler_ok_def)
    then show ?thesis by (auto simp add: hm_get_modify hm_get_or_insert [OF wf])
  qed
  obtain sch m1 where d: "drain_queues priorities ?m = (sch, m1)" by fastforce
  have "fst (drain_queues priorities ?m) = chunks"
    using drain_queues_one [OF priorities_all(1), of p ?m chunks] get assms
    by (simp add: priorities_all(2) scheduler_ok_def)
  moreover from hm_get_empty_after_drain [of ?m priorities m1] d wf get
  have "hm_wf m1" "\<forall>x. hm_get m1 x = None \<or> hm_get m1 x = Some []"
    by (simp_all add: hm_wf_or_insert priorities_all(2) scheduler_ok_def) (metis option.exhaust)
  ultimately show ?thesis using True d by (simp add: schedule_def scheduler_ok_def Let_def)
qed

text \<open>Priorities change nothing: after any sequence of calls with any priorities, the scheduler
  returns for the next call exactly the chunks it is given, in their order, as if it were not
  there, because each call drains all the queues.\<close>

theorem schedule_is_identity:
  "fst (schedule chunks p (fold (\<lambda>(cs, q) s. snd (schedule cs q s)) calls (new_scheduler enabled))) = chunks"
proof -
  have "scheduler_ok (fold (\<lambda>(cs, q) s. snd (schedule cs q s)) calls s)" if "scheduler_ok s" for s
    using that by (induction calls arbitrary: s) (auto simp add: schedule_ok)
  moreover have "scheduler_ok (new_scheduler enabled)"
    by (simp add: scheduler_ok_def new_scheduler_def hm.wf_empty hm_get_def)
  ultimately show ?thesis by (simp add: schedule_ok)
qed

end
