(* ===== verification/Pool.thy ===== *)
theory Pool
  imports Containers Machines Quic_Errors
begin

text \<open>
  The connection pool (\<open>landro-quic/src/pool.rs\<close>): connections per peer address, the choice of
  an idle one, the limits, the retries of a new connection and the cleanup.

  A connection is a value of type \<open>'c\<close>; whether it is closed is the parameter \<open>closed\<close>, the
  outcome of each attempt to connect (with its timeout) the parameter \<open>attempt\<close>, times are
  nanoseconds.  The device identity of a pooled connection, which nothing sets, closing the
  connection itself and the delays between attempts are left out.
\<close>

section \<open>Pooled connections\<close>

record 'c pooled_connection =
  conn :: 'c
  created_at :: nat
  last_used :: nat
  active_streams :: u32

definition new_pooled :: "nat \<Rightarrow> 'c \<Rightarrow> 'c pooled_connection" where
  "new_pooled now c = \<lparr>conn = c, created_at = now, last_used = now, active_streams = 0\<rparr>"

definition use_connection :: "nat \<Rightarrow> 'c pooled_connection \<Rightarrow> 'c pooled_connection" where
  "use_connection now p = p\<lparr>last_used := now, active_streams := active_streams p + 1\<rparr>"

definition release_stream :: "'c pooled_connection \<Rightarrow> 'c pooled_connection" where
  "release_stream p = (if active_streams p > 0 then p\<lparr>active_streams := active_streams p - 1\<rparr> else p)"

definition is_idle :: "'c pooled_connection \<Rightarrow> bool" where
  "is_idle p \<longleftrightarrow> active_streams p = 0"

definition is_stale :: "nat \<Rightarrow> nat \<Rightarrow> 'c pooled_connection \<Rightarrow> bool" where
  "is_stale now max_idle p \<longleftrightarrow> now - last_used p > max_idle \<and> is_idle p"

definition is_healthy :: "('c \<Rightarrow> bool) \<Rightarrow> 'c pooled_connection \<Rightarrow> bool" where
  "is_healthy closed p \<longleftrightarrow> \<not> closed (conn p)"

section \<open>The pool\<close>

record pool_config =
  max_connections_per_peer :: nat
  max_total_connections :: nat
  max_idle_time :: nat
  connect_timeout :: nat
  max_retry_attempts :: nat
  retry_delay :: nat

definition default_pool_config :: pool_config where
  "default_pool_config = \<lparr>max_connections_per_peer = 2, max_total_connections = 50,
     max_idle_time = 300 * 1000000000, connect_timeout = 10 * 1000000000, max_retry_attempts = 3,
     retry_delay = 500 * 1000000\<rparr>"

type_synonym 'c pool = "(string, 'c pooled_connection list) hmap"

text \<open>The first healthy idle connection of the list is marked as used and returned.\<close>

fun take_available ::
  "('c \<Rightarrow> bool) \<Rightarrow> nat \<Rightarrow> 'c pooled_connection list \<Rightarrow> ('c \<times> 'c pooled_connection list) option" where
  "take_available closed now [] = None"
| "take_available closed now (p # ps) =
     (if is_healthy closed p \<and> is_idle p then Some (conn p, use_connection now p # ps)
      else map_option (\<lambda>(c, qs). (c, p # qs)) (take_available closed now ps))"

definition find_available_connection ::
  "('c \<Rightarrow> bool) \<Rightarrow> nat \<Rightarrow> string \<Rightarrow> 'c pool \<Rightarrow> ('c \<times> 'c pool) option" where
  "find_available_connection closed now addr m =
     Option.bind (hm_get m addr) (\<lambda>ps.
     map_option (\<lambda>(c, qs). (c, hm_put addr qs m)) (take_available closed now ps))"

definition total_connections :: "'c pool \<Rightarrow> nat" where
  "total_connections m = sum_list (map (length \<circ> snd) m)"

definition can_create_new_connection :: "pool_config \<Rightarrow> string \<Rightarrow> 'c pool \<Rightarrow> bool" where
  "can_create_new_connection cfg addr m \<longleftrightarrow> total_connections m < max_total_connections cfg \<and>
     (case hm_get m addr of Some ps \<Rightarrow> length ps < max_connections_per_peer cfg | None \<Rightarrow> True)"

fun connect_attempts ::
  "(nat \<Rightarrow> quic_error + 'c) \<Rightarrow> nat \<Rightarrow> nat \<Rightarrow> quic_error option \<Rightarrow> quic_error + 'c" where
  "connect_attempts attempt 0 i last_error =
     Inl (case last_error of Some e \<Rightarrow> e | None \<Rightarrow> ProtocolErr ''Connection failed after all retries'')"
| "connect_attempts attempt (Suc n) i last_error =
     (case attempt i of Inr c \<Rightarrow> Inr c | Inl e \<Rightarrow> connect_attempts attempt n (i + 1) (Some e))"

definition create_connection_with_retry ::
  "pool_config \<Rightarrow> (nat \<Rightarrow> quic_error + 'c) \<Rightarrow> quic_error + 'c" where
  "create_connection_with_retry cfg attempt = connect_attempts attempt (max_retry_attempts cfg) 1 None"

definition add_to_pool :: "nat \<Rightarrow> string \<Rightarrow> 'c \<Rightarrow> 'c pool \<Rightarrow> 'c pool" where
  "add_to_pool now addr c m = hm_modify addr (\<lambda>ps. ps @ [new_pooled now c]) (hm_or_insert addr [] m)"

definition get_connection ::
  "pool_config \<Rightarrow> ('c \<Rightarrow> bool) \<Rightarrow> (nat \<Rightarrow> quic_error + 'c) \<Rightarrow> nat \<Rightarrow> string \<Rightarrow> 'c pool \<Rightarrow>
   (quic_error + 'c) \<times> 'c pool" where
  "get_connection cfg closed attempt now addr m =
     (case find_available_connection closed now addr m of
        Some (c, m1) \<Rightarrow> (Inr c, m1)
      | None \<Rightarrow>
          if \<not> can_create_new_connection cfg addr m
          then (Inl (ProtocolErr (''Connection pool limit reached for peer '' @ addr)), m)
          else (case create_connection_with_retry cfg attempt of
              Inl e \<Rightarrow> (Inl e, m)
            | Inr c \<Rightarrow> (Inr c, add_to_pool now addr c m)))"

definition cleanup_pool :: "pool_config \<Rightarrow> ('c \<Rightarrow> bool) \<Rightarrow> nat \<Rightarrow> 'c pool \<Rightarrow> 'c pool" where
  "cleanup_pool cfg closed now m =
     filter (\<lambda>(_, ps). ps \<noteq> [])
       (map (\<lambda>(a, ps). (a, filter (\<lambda>p. is_healthy closed p \<and> \<not> is_stale now (max_idle_time cfg) p) ps)) m)"

definition close_peer_connections :: "string \<Rightarrow> 'c pool \<Rightarrow> 'c pool" where
  "close_peer_connections addr m = hm_del addr m"

definition remove_peer_connections :: "string \<Rightarrow> 'c pool \<Rightarrow> 'c pool" where
  "remove_peer_connections addr m = hm_del addr m"

definition shutdown_pool :: "'c pool \<Rightarrow> 'c pool" where
  "shutdown_pool m = []"

definition get_stats :: "'c pool \<Rightarrow> (string, nat) hmap" where
  "get_stats m = map (\<lambda>(a, ps). (a, length ps)) m"

section \<open>Reachable pools\<close>

datatype 'c pool_op =
    GetConnection "'c \<Rightarrow> bool" "nat \<Rightarrow> quic_error + 'c" nat string
  | CleanupPool "'c \<Rightarrow> bool" nat
  | ClosePeer string
  | RemovePeer string
  | Shutdown

fun pool_step :: "pool_config \<Rightarrow> 'c pool_op \<Rightarrow> 'c pool \<Rightarrow> 'c pool" where
  "pool_step cfg (GetConnection closed attempt now addr) m = snd (get_connection cfg closed attempt now addr m)"
| "pool_step cfg (CleanupPool closed now) m = cleanup_pool cfg closed now m"
| "pool_step cfg (ClosePeer addr) m = close_peer_connections addr m"
| "pool_step cfg (RemovePeer addr) m = remove_peer_connections addr m"
| "pool_step cfg Shutdown m = shutdown_pool m"

text \<open>A connection in the pool is unused or was handed out a second time; the limits hold.\<close>

definition pool_ok :: "pool_config \<Rightarrow> 'c pool \<Rightarrow> bool" where
  "pool_ok cfg m \<longleftrightarrow> hm_wf m \<and> total_connections m \<le> max_total_connections cfg \<and>
     list_all (\<lambda>(_, ps). length ps \<le> max (max_connections_per_peer cfg) 1 \<and>
       list_all (\<lambda>p. active_streams p \<le> 1) ps) m"

lemma take_available_facts:
  "take_available closed now ps = Some (c, qs) \<Longrightarrow> length qs = length ps \<and>
     (list_all (\<lambda>p. active_streams p \<le> 1) ps \<longrightarrow> list_all (\<lambda>p. active_streams p \<le> 1) qs)"
proof (induction ps arbitrary: qs)
  case Nil
  then show ?case by simp
next
  case (Cons p ps)
  show ?case
  proof (cases "is_healthy closed p \<and> is_idle p")
    case True
    with Cons.prems show ?thesis by (auto simp add: use_connection_def is_idle_def)
  next
    case False
    with Cons.prems obtain rs where "take_available closed now ps = Some (c, rs)" "qs = p # rs" by auto
    with Cons.IH show ?thesis by auto
  qed
qed

lemma total_put:
  "hm_wf m \<Longrightarrow> hm_get m k = Some ps \<Longrightarrow> length qs = length ps \<Longrightarrow> total_connections (hm_put k qs m) = total_connections m"
  by (induction m) (auto simp add: total_connections_def hm_put_def hm_get_def hm_wf_def)

lemma total_add:
  "hm_wf m \<Longrightarrow> total_connections (hm_modify k (\<lambda>ps. ps @ [p]) (hm_or_insert k [] m)) = total_connections m + 1"
proof -
  assume wf: "hm_wf m"
  have mod: "total_connections (hm_modify k (\<lambda>ps. ps @ [p]) n) = total_connections n + 1"
    if "hm_wf n" "hm_has n k" for n
    using that
  proof (induction n)
    case Nil
    then show ?case by (simp add: hm_has_def hm_get_def)
  next
    case (Cons e n)
    obtain j v where e: "e = (j, v)" by fastforce
    have "hm_modify k f n = n" if "k \<notin> fst ` set n" for f
      using that by (force simp add: hm_modify_def intro: map_idI)
    with Cons e show ?case
      by (auto simp add: total_connections_def hm_modify_def hm_wf_def hm_has_iff simp del: map_map)
  qed
  have put: "total_connections (hm_put k [] m) = total_connections m" if "hm_get m k = None"
    using that by (induction m) (auto simp add: total_connections_def hm_put_def hm_get_def)
  show ?thesis
  proof (cases "hm_get m k")
    case None
    with mod [of "hm_put k [] m"] put wf show ?thesis
      by (simp add: hm_or_insert_def hm.wf_put hm_has_def hm.get_put)
  next
    case (Some v)
    with mod [of m] wf show ?thesis by (simp add: hm_or_insert_def hm_has_def)
  qed
qed

lemma total_filter: "total_connections (filter P m) \<le> total_connections m"
  by (induction m) (auto simp add: total_connections_def)

lemma total_map: "(\<And>ps. length (f ps) \<le> length ps) \<Longrightarrow>
    total_connections (map (\<lambda>(a, ps). (a, f ps)) m) \<le> total_connections m"
  by (induction m) (auto simp add: total_connections_def intro!: add_mono)

lemma total_del: "total_connections (hm_del k m) \<le> total_connections m"
  using total_filter by (simp add: hm_del_def AList.delete_eq)

definition peer_ok :: "pool_config \<Rightarrow> 'c pooled_connection list \<Rightarrow> bool" where
  "peer_ok cfg ps \<longleftrightarrow> length ps \<le> max (max_connections_per_peer cfg) 1 \<and>
     list_all (\<lambda>p. active_streams p \<le> 1) ps"

lemma pool_ok_iff: "pool_ok cfg m \<longleftrightarrow> hm_wf m \<and> total_connections m \<le> max_total_connections cfg \<and>
    list_all (\<lambda>(_, ps). peer_ok cfg ps) m"
  by (simp add: pool_ok_def peer_ok_def)

lemma pool_ok_get: "pool_ok cfg m \<Longrightarrow> hm_get m k = Some ps \<Longrightarrow> peer_ok cfg ps"
  unfolding pool_ok_iff by (metis (no_types, lifting) case_prodD hm_mem_iff list_all_iff)

lemma add_to_pool_ok:
  assumes ok: "pool_ok cfg m" and can: "can_create_new_connection cfg k m"
  shows "pool_ok cfg (add_to_pool now k c m)"
proof -
  have wf: "hm_wf m" using ok by (simp add: pool_ok_def)
  have "peer_ok cfg (ps @ [new_pooled now c])"
    if "hm_get (hm_or_insert k [] m) k = Some ps" for ps
  proof (cases "hm_get m k")
    case None
    with that show ?thesis by (simp add: hm_get_or_insert [OF wf] peer_ok_def new_pooled_def)
  next
    case (Some qs)
    with that have "qs = ps" by (simp add: hm_get_or_insert [OF wf])
    with Some can pool_ok_get [OF ok Some] show ?thesis
      by (simp add: peer_ok_def can_create_new_connection_def new_pooled_def)
  qed
  moreover have "list_all (\<lambda>(_, ps). peer_ok cfg ps) (hm_or_insert k [] m)"
    using ok by (auto simp add: hm_or_insert_def pool_ok_iff peer_ok_def split: option.splits intro!: list_all_put)
  moreover obtain ps where "hm_get (hm_or_insert k [] m) k = Some ps"
    by (cases "hm_get m k") (auto simp add: hm_get_or_insert [OF wf])
  ultimately have "list_all (\<lambda>(_, ps). peer_ok cfg ps) (add_to_pool now k c m)"
    unfolding add_to_pool_def by (intro list_all_modify_at [of _ k ps]) (simp_all add: hm_wf_or_insert wf)
  then show ?thesis
    using ok can wf total_add [OF wf, of k "new_pooled now c"]
    by (simp add: pool_ok_iff add_to_pool_def hm_wf_or_insert can_create_new_connection_def)
qed

interpretation pools: machine "pool_step cfg" "pool_ok cfg" for cfg
proof
  fix m :: "'c pool" and op
  assume ok: "pool_ok cfg m"
  then have wf: "hm_wf m" by (simp add: pool_ok_def)
  have del: "pool_ok cfg (hm_del k m)" for k
    using ok total_del [of k m] hm.wf_del [OF wf, of k]
    by (auto simp add: pool_ok_iff hm_del_def AList.delete_eq list_all_iff)
  show "pool_ok cfg (pool_step cfg op m)"
  proof (cases op)
    case (GetConnection closed attempt now addr)
    show ?thesis
    proof (cases "find_available_connection closed now addr m")
      case None
      with ok add_to_pool_ok GetConnection show ?thesis
        by (auto simp add: get_connection_def split: sum.splits)
    next
      case (Some r)
      then obtain c m1 ps qs where m1: "r = (c, m1)" "hm_get m addr = Some ps"
        "take_available closed now ps = Some (c, qs)" "m1 = hm_put addr qs m"
        by (auto simp add: find_available_connection_def bind_eq_Some_conv)
      have "peer_ok cfg qs" using take_available_facts [OF m1(3)] pool_ok_get [OF ok m1(2)]
        by (simp add: peer_ok_def)
      moreover have "total_connections m1 = total_connections m"
        unfolding m1(4) using total_put [OF wf m1(2)] take_available_facts [OF m1(3)] by simp
      ultimately have "pool_ok cfg m1"
        using ok unfolding pool_ok_iff m1(4) by (auto simp add: hm.wf_put intro!: list_all_put)
      with Some m1 GetConnection show ?thesis by (simp add: get_connection_def)
    qed
  next
    case (CleanupPool closed now)
    let ?f = "filter (\<lambda>p. is_healthy closed p \<and> \<not> is_stale now (max_idle_time cfg) p)"
    have "total_connections (cleanup_pool cfg closed now m) \<le> total_connections m"
      unfolding cleanup_pool_def using total_filter total_map [of ?f m] by (meson length_filter_le order_trans)
    moreover have "peer_ok cfg ps \<Longrightarrow> peer_ok cfg (?f ps)" for ps :: "'c pooled_connection list"
      by (auto simp add: peer_ok_def list_all_iff intro: order_trans [OF length_filter_le])
    ultimately show ?thesis
      using ok CleanupPool
      by (auto simp add: pool_ok_iff cleanup_pool_def list_all_iff hm_wf_def distinct_map_filter comp_def split_def)
  qed (use ok del in \<open>simp_all add: close_peer_connections_def remove_peer_connections_def
      shutdown_pool_def pool_ok_def total_connections_def hm.wf_empty\<close>)
qed

text \<open>The limits hold, one call at a time: in every pool that requests, cleanups and closings can
  reach, there are never more connections than allowed in total or per peer, each peer is
  listed once, and a connection has been handed out again at most once.\<close>

theorem pool_limits_hold:
  "pool_ok cfg (fold (pool_step cfg) ops [])"
proof -
  have "pool_ok cfg []" by (simp add: pool_ok_def total_connections_def hm.wf_empty)
  then show ?thesis by (rule pools.inv_fold)
qed

section \<open>Exhaustion\<close>

text \<open>A peer at its limit whose connections are all in use.\<close>

definition exhausted :: "pool_config \<Rightarrow> string \<Rightarrow> 'c pool \<Rightarrow> bool" where
  "exhausted cfg addr m \<longleftrightarrow> hm_wf m \<and> (\<exists>ps. hm_get m addr = Some ps \<and> ps \<noteq> [] \<and>
     length ps \<ge> max_connections_per_peer cfg \<and> list_all (\<lambda>p. \<not> is_idle p) ps)"

lemma take_available_None [simp]: "list_all (\<lambda>p. \<not> is_idle p) ps \<Longrightarrow> take_available closed now ps = None"
  by (induction ps) auto

lemma exhausted_get:
  assumes "exhausted cfg addr m"
  shows "get_connection cfg closed attempt now addr m =
    (Inl (ProtocolErr (''Connection pool limit reached for peer '' @ addr)), m)"
  using assms
  by (auto simp add: take_available_None exhausted_def get_connection_def find_available_connection_def can_create_new_connection_def)

lemma exhausted_get_other:
  assumes ex: "exhausted cfg addr m" and ne: "a \<noteq> addr"
  shows "exhausted cfg addr (snd (get_connection cfg closed attempt now a m))"
proof -
  have wf: "hm_wf m" using ex by (simp add: exhausted_def)
  have put: "exhausted cfg addr (hm_put a qs m)" for qs
    using ex ne wf by (auto simp add: exhausted_def hm.get_put hm.wf_put)
  have add: "exhausted cfg addr (add_to_pool now a c m)" for c
    using ex ne wf
    by (auto simp add: exhausted_def add_to_pool_def hm_get_modify hm_get_or_insert hm_wf_or_insert)
  show ?thesis using put add ex
    by (auto simp add: get_connection_def find_available_connection_def bind_eq_Some_conv
        split: option.splits sum.splits)
qed

lemma exhausted_cleanup:
  assumes "exhausted cfg addr m"
  shows "exhausted cfg addr (cleanup_pool cfg (\<lambda>_. False) now m)"
proof -
  from assms obtain ps where ps: "hm_wf m" "hm_get m addr = Some ps" "ps \<noteq> []"
    "length ps \<ge> max_connections_per_peer cfg" "list_all (\<lambda>p. \<not> is_idle p) ps"
    by (auto simp add: exhausted_def)
  let ?f = "filter (\<lambda>p. is_healthy (\<lambda>_. False) p \<and> \<not> is_stale now (max_idle_time cfg) p)"
  let ?m = "map (\<lambda>(a, ps). (a, ?f ps)) m"
  have wf: "hm_wf (filter P ?m)" for P
    using ps(1) by (intro hm_wf_filter) (simp add: hm_wf_def comp_def split_def)
  have "?f ps = ps" using ps(5) by (auto simp add: filter_id_conv list_all_iff is_healthy_def is_stale_def)
  moreover have "(addr, ps) \<in> set m" using ps(1,2) by (simp add: hm_mem_iff)
  ultimately have "(addr, ps) \<in> set ?m" by force
  then have "(addr, ps) \<in> set (cleanup_pool cfg (\<lambda>_. False) now m)"
    using ps(3) by (simp add: cleanup_pool_def)
  moreover have "hm_wf (cleanup_pool cfg (\<lambda>_. False) now m)" unfolding cleanup_pool_def by (rule wf)
  ultimately show ?thesis using ps(3-5) by (auto simp add: exhausted_def hm_mem_iff)
qed

text \<open>Requests and cleanups while the connections stay healthy.\<close>

fun healthy_op :: "'c pool_op \<Rightarrow> bool" where
  "healthy_op (GetConnection closed attempt now a) = True"
| "healthy_op (CleanupPool closed now) = (closed = (\<lambda>_. False))"
| "healthy_op _ = False"

text \<open>A pool runs dry for good: nothing gives a stream back to a pooled connection, so once a
  peer is at its limit and its connections have each been handed out again, every later
  request for the peer fails, whatever requests and cleanups come in between, as long as the
  connections stay open: a connection in use never becomes stale.\<close>

theorem exhausted_pool_stays_exhausted:
  assumes "exhausted cfg addr m" and "list_all healthy_op ops"
  shows "fst (get_connection cfg closed attempt now addr (fold (pool_step cfg) ops m)) =
    Inl (ProtocolErr (''Connection pool limit reached for peer '' @ addr))"
proof -
  have "exhausted cfg addr (fold (pool_step cfg) ops m)"
    using assms
  proof (induction ops arbitrary: m)
    case Nil
    then show ?case by simp
  next
    case (Cons op ops)
    have "exhausted cfg addr (pool_step cfg op m)"
    proof (cases op)
      case (GetConnection closed attempt now a)
      then show ?thesis
        using Cons.prems(1) exhausted_get [OF Cons.prems(1)] exhausted_get_other [OF Cons.prems(1)]
        by (cases "a = addr") simp_all
    qed (use Cons.prems exhausted_cleanup [OF Cons.prems(1)] in simp_all)
    with Cons show ?case by simp
  qed
  then show ?thesis by (simp add: exhausted_get)
qed

text \<open>Four requests exhaust the default limit of two connections; the fifth fails.\<close>

definition sample_request :: "nat pool_op" where
  "sample_request = GetConnection (\<lambda>_. False) (\<lambda>i. Inr i) 0 ''peer''"

definition exhausted_pool :: "nat pool" where
  "exhausted_pool = fold (pool_step default_pool_config) (replicate 4 sample_request) []"

theorem exhausted_pool_stays_exhausted_witness:
  "fst (get_connection default_pool_config (\<lambda>_. False) (\<lambda>i. Inr i) 5 ''peer''
     (fold (pool_step default_pool_config) [CleanupPool (\<lambda>_. False) 1000000000000] exhausted_pool)) =
   (Inl (ProtocolErr (''Connection pool limit reached for peer '' @ ''peer'')) :: quic_error + nat)"
proof -
  have cfg: "max_connections_per_peer default_pool_config = 2" "max_total_connections default_pool_config = 50"
    "max_retry_attempts default_pool_config = 3"
    by (simp_all add: default_pool_config_def)
  have pool: "exhausted_pool = [(''peer'', [\<lparr>conn = 1, created_at = 0, last_used = 0, active_streams = 1\<rparr>,
      \<lparr>conn = 1, created_at = 0, last_used = 0, active_streams = 1\<rparr>])]"
    by (simp add: exhausted_pool_def sample_request_def numeral_eq_Suc get_connection_def
        find_available_connection_def can_create_new_connection_def cfg
        create_connection_with_retry_def add_to_pool_def hm_get_def hm_put_def hm_modify_def
        hm_or_insert_def new_pooled_def is_healthy_def is_idle_def use_connection_def total_connections_def)
  have "exhausted default_pool_config ''peer'' exhausted_pool"
    unfolding pool by (simp add: exhausted_def cfg hm_wf_def hm_get_def is_idle_def)
  then show ?thesis by (rule exhausted_pool_stays_exhausted) simp
qed

end
