(* ===== verification/Orchestrator.thy ===== *)
theory Orchestrator
  imports Sync_Db
begin

text \<open>
  The sync orchestrator (\<open>landro-sync/src/orchestrator.rs\<close>) with its transfer scheduler
  (\<open>scheduler.rs\<close>) and its progress records (\<open>progress.rs\<close>): the peers in memory and in the
  database of theory \<open>Sync_Db\<close>, the state of the whole system and the operations on them.

  The \<open>priority_queue\<close> crate is a parameter used through its operations.  \<open>checks\<close> says
  whether the build checks integer overflow; an addition that overflows then panics, and what
  was changed before it stays.  The percentages, which are floats, are left out.
\<close>

section \<open>Transfer scheduler\<close>

datatype transfer_priority = Low | Normal | High | Critical

fun priority_value :: "transfer_priority \<Rightarrow> int" where
  "priority_value Low = 0"
| "priority_value Normal = 1"
| "priority_value High = 2"
| "priority_value Critical = 3"

instantiation transfer_priority :: linorder
begin

definition less_eq_transfer_priority :: "transfer_priority \<Rightarrow> transfer_priority \<Rightarrow> bool" where
  "less_eq_transfer_priority p q \<longleftrightarrow> priority_value p \<le> priority_value q"

definition less_transfer_priority :: "transfer_priority \<Rightarrow> transfer_priority \<Rightarrow> bool" where
  "less_transfer_priority p q \<longleftrightarrow> priority_value p < priority_value q"

instance
proof
  fix p q r :: transfer_priority
  show "p = q" if "p \<le> q" and "q \<le> p"
    using that by (cases p; cases q) (simp_all add: less_eq_transfer_priority_def)
qed (auto simp add: less_eq_transfer_priority_def less_transfer_priority_def)

end

record transfer_request =
  tr_peer_id :: string
  tr_chunk_hash :: string
  tr_file_path :: string
  tr_size :: u64

record 'q pq_ops =
  pq_new :: 'q
  pq_push :: "transfer_request \<Rightarrow> transfer_priority \<Rightarrow> 'q \<Rightarrow> 'q"
  pq_pop :: "'q \<Rightarrow> (transfer_request \<times> transfer_priority) option \<times> 'q"
  pq_len :: "'q \<Rightarrow> nat"

record 'q scheduler =
  sc_queue :: 'q
  sc_max_concurrent :: nat
  sc_active_transfers :: nat

definition new_scheduler :: "'q pq_ops \<Rightarrow> nat \<Rightarrow> 'q scheduler" where
  "new_scheduler pq n = \<lparr>sc_queue = pq_new pq, sc_max_concurrent = n, sc_active_transfers = 0\<rparr>"

definition schedule :: "'q pq_ops \<Rightarrow> transfer_request \<Rightarrow> transfer_priority \<Rightarrow> 'q scheduler \<Rightarrow> 'q scheduler" where
  "schedule pq r p s = s\<lparr>sc_queue := pq_push pq r p (sc_queue s)\<rparr>"

definition scheduler_next :: "'q pq_ops \<Rightarrow> 'q scheduler \<Rightarrow> transfer_request option \<times> 'q scheduler" where
  "scheduler_next pq s =
     (if sc_active_transfers s \<ge> sc_max_concurrent s then (None, s)
      else case pq_pop pq (sc_queue s) of
        (None, q) \<Rightarrow> (None, s\<lparr>sc_queue := q\<rparr>)
      | (Some (r, _), q) \<Rightarrow>
          (Some r, s\<lparr>sc_queue := q, sc_active_transfers := sc_active_transfers s + 1\<rparr>))"

definition scheduler_complete :: "'q scheduler \<Rightarrow> 'q scheduler" where
  "scheduler_complete s =
     (if sc_active_transfers s > 0
      then s\<lparr>sc_active_transfers := sc_active_transfers s - 1\<rparr> else s)"

definition pending_count :: "'q pq_ops \<Rightarrow> 'q scheduler \<Rightarrow> nat" where
  "pending_count pq s = pq_len pq (sc_queue s)"

definition active_count :: "'q scheduler \<Rightarrow> nat" where
  "active_count s = sc_active_transfers s"

section \<open>Progress\<close>

record sync_progress =
  sp_total_files :: nat
  sp_completed_files :: nat
  sp_total_bytes :: u64
  sp_transferred_bytes :: u64
  sp_start_time :: date_time

definition new_progress :: "date_time \<Rightarrow> sync_progress" where
  "new_progress now = \<lparr>sp_total_files = 0, sp_completed_files = 0, sp_total_bytes = 0,
     sp_transferred_bytes = 0, sp_start_time = now\<rparr>"

definition is_complete :: "sync_progress \<Rightarrow> bool" where
  "is_complete p \<longleftrightarrow>
     sp_completed_files p = sp_total_files p \<and> sp_transferred_bytes p = sp_total_bytes p"

section \<open>Orchestrator\<close>

datatype system_state =
    SystemIdle
  | SystemSyncing nat date_time
  | SystemConflicted nat
  | SystemPaused
  | SystemFailed string date_time

datatype orchestrator_error = Database db_error | AlreadySyncing string

record 'q orchestrator =
  or_database :: sync_db
  or_state :: system_state
  or_peer_states :: "(string, peer_sync_state) hmap"
  or_scheduler :: "'q scheduler"
  or_progress :: "(string, sync_progress) hmap"

definition new_orchestrator ::
  "'q pq_ops \<Rightarrow> db_env \<Rightarrow> nat \<Rightarrow> sync_db \<Rightarrow> orchestrator_error + 'q orchestrator" where
  "new_orchestrator pq env n db =
     and_then (map_err Database (get_all_peer_states env db)) (\<lambda>peers.
       Inr \<lparr>or_database = db, or_state = SystemIdle, or_peer_states = peers,
         or_scheduler = new_scheduler pq n, or_progress = []\<rparr>)"

fun is_active :: "peer_state \<Rightarrow> bool" where
  "is_active PeerNegotiating = True"
| "is_active (PeerTransferring _) = True"
| "is_active _ = False"

definition active_peers :: "'q orchestrator \<Rightarrow> nat" where
  "active_peers o1 = length (filter (\<lambda>(_, p). is_active (ps_current_state p)) (or_peer_states o1))"

definition starting_peer :: "string \<Rightarrow> peer_sync_state" where
  "starting_peer peer_name = \<lparr>ps_peer_name = peer_name, ps_last_sync = None,
     ps_last_manifest_hash = None, ps_bytes_sent = 0, ps_bytes_received = 0, ps_files_sent = 0,
     ps_files_received = 0, ps_current_state = PeerNegotiating\<rparr>"

definition begin_sync ::
  "db_env \<Rightarrow> date_time \<Rightarrow> date_time \<Rightarrow> string \<Rightarrow> string \<Rightarrow> 'q orchestrator \<Rightarrow>
   (orchestrator_error + unit) \<times> 'q orchestrator" where
  "begin_sync env now t i peer_name o0 =
     (case upsert_peer_state env i (starting_peer peer_name) (or_database o0) of
        Inl e \<Rightarrow> (Inl (Database e), o0)
      | Inr db \<Rightarrow>
          let o1 = o0\<lparr>or_database := db,
            or_peer_states := hm_put i (starting_peer peer_name) (or_peer_states o0)\<rparr> in
          (Inr (), o1\<lparr>or_state := SystemSyncing (active_peers o1) now,
            or_progress := hm_put i (new_progress t) (or_progress o1)\<rparr>))"

definition start_sync ::
  "db_env \<Rightarrow> date_time \<Rightarrow> date_time \<Rightarrow> string \<Rightarrow> string \<Rightarrow> 'q orchestrator \<Rightarrow>
   (orchestrator_error + unit) \<times> 'q orchestrator" where
  "start_sync env now t i peer_name o0 =
     (case hm_get (or_peer_states o0) i of
        Some p \<Rightarrow>
          if is_active (ps_current_state p) then (Inl (AlreadySyncing i), o0)
          else begin_sync env now t i peer_name o0
      | None \<Rightarrow> begin_sync env now t i peer_name o0)"

definition handle_manifest_exchange :: "string \<Rightarrow> 'q orchestrator \<Rightarrow> 'q orchestrator" where
  "handle_manifest_exchange i o0 =
     o0\<lparr>or_peer_states := hm_modify i (\<lambda>p. p\<lparr>ps_current_state := PeerTransferring 0\<rparr>)
       (or_peer_states o0)\<rparr>"

definition schedule_transfer ::
  "'q pq_ops \<Rightarrow> db_env \<Rightarrow> date_time \<Rightarrow> transfer_request \<Rightarrow> transfer_priority \<Rightarrow> 'q orchestrator \<Rightarrow>
   (orchestrator_error + unit) \<times> 'q orchestrator" where
  "schedule_transfer pq env now r p o0 =
     (let o1 = o0\<lparr>or_scheduler := schedule pq r p (or_scheduler o0)\<rparr> in
      case add_pending_transfer env now (tr_peer_id r) ''default'' (tr_file_path r)
          (tr_chunk_hash r) (priority_value p) (or_database o1) of
        Inl e \<Rightarrow> (Inl (Database e), o1)
      | Inr db \<Rightarrow> (Inr (), o1\<lparr>or_database := db\<rparr>))"

definition next_transfer :: "'q pq_ops \<Rightarrow> 'q orchestrator \<Rightarrow> transfer_request option \<times> 'q orchestrator" where
  "next_transfer pq o0 =
     (let (r, s) = scheduler_next pq (or_scheduler o0) in (r, o0\<lparr>or_scheduler := s\<rparr>))"

text \<open>\<open>a += b\<close>: \<open>None\<close> is the panic of a build that checks overflow.\<close>

definition add_u64 :: "bool \<Rightarrow> u64 \<Rightarrow> u64 \<Rightarrow> u64 option" where
  "add_u64 checks a b = (if checks \<and> unat a + unat b \<ge> 2 ^ 64 then None else Some (a + b))"

text \<open>The flag is false after a panic.\<close>

definition count_received :: "bool \<Rightarrow> u64 \<Rightarrow> peer_sync_state \<Rightarrow> peer_sync_state \<times> bool" where
  "count_received checks n p =
     (case add_u64 checks (ps_bytes_received p) n of
        None \<Rightarrow> (p, False)
      | Some b \<Rightarrow>
          let p1 = p\<lparr>ps_bytes_received := b\<rparr> in
          case add_u64 checks (ps_files_received p1) 1 of
            None \<Rightarrow> (p1, False)
          | Some f \<Rightarrow> (p1\<lparr>ps_files_received := f\<rparr>, True))"

definition count_progress :: "bool \<Rightarrow> u64 \<Rightarrow> sync_progress \<Rightarrow> sync_progress \<times> bool" where
  "count_progress checks n p =
     (case add_u64 checks (sp_transferred_bytes p) n of
        None \<Rightarrow> (p, False)
      | Some b \<Rightarrow> (p\<lparr>sp_transferred_bytes := b, sp_completed_files := sp_completed_files p + 1\<rparr>, True))"

definition update_statistics :: "bool \<Rightarrow> string \<Rightarrow> u64 \<Rightarrow> 'q orchestrator \<Rightarrow> bool \<times> 'q orchestrator" where
  "update_statistics checks i n o0 =
     (case hm_get (or_peer_states o0) i of
        None \<Rightarrow> (True, o0)
      | Some p \<Rightarrow>
          let (p', fine) = count_received checks n p in
          (fine, o0\<lparr>or_peer_states := hm_modify i (\<lambda>_. p') (or_peer_states o0)\<rparr>))"

definition update_progress :: "bool \<Rightarrow> string \<Rightarrow> u64 \<Rightarrow> 'q orchestrator \<Rightarrow> bool \<times> 'q orchestrator" where
  "update_progress checks i n o0 =
     (case hm_get (or_progress o0) i of
        None \<Rightarrow> (True, o0)
      | Some g \<Rightarrow>
          let (g', fine) = count_progress checks n g in
          (fine, o0\<lparr>or_progress := hm_modify i (\<lambda>_. g') (or_progress o0)\<rparr>))"

definition complete_transfer ::
  "bool \<Rightarrow> string \<Rightarrow> u64 \<Rightarrow> 'q orchestrator \<Rightarrow> bool \<times> 'q orchestrator" where
  "complete_transfer checks i n o0 =
     (let (fine, o1) = update_statistics checks i n
        (o0\<lparr>or_scheduler := scheduler_complete (or_scheduler o0)\<rparr>) in
      if fine then update_progress checks i n o1 else (False, o1))"

definition settle :: "'q orchestrator \<Rightarrow> 'q orchestrator" where
  "settle o1 = (if active_peers o1 = 0 then o1\<lparr>or_state := SystemIdle\<rparr> else o1)"

text \<open>The clock is read twice, here as when a sync begins.\<close>

definition complete_sync ::
  "db_env \<Rightarrow> date_time \<Rightarrow> date_time \<Rightarrow> string \<Rightarrow> 'q orchestrator \<Rightarrow>
   (orchestrator_error + unit) \<times> 'q orchestrator" where
  "complete_sync env now now' i o0 =
     (case hm_get (or_peer_states o0) i of
        None \<Rightarrow> (Inr (), settle o0)
      | Some p \<Rightarrow>
          let p' = p\<lparr>ps_current_state := PeerCompleted now, ps_last_sync := Some now'\<rparr>;
              o1 = o0\<lparr>or_peer_states := hm_modify i (\<lambda>_. p') (or_peer_states o0)\<rparr> in
          case upsert_peer_state env i p' (or_database o1) of
            Inl e \<Rightarrow> (Inl (Database e), o1)
          | Inr db \<Rightarrow> (Inr (), settle (o1\<lparr>or_database := db\<rparr>)))"

definition get_progress :: "'q orchestrator \<Rightarrow> string \<Rightarrow> sync_progress option" where
  "get_progress o0 i = hm_get (or_progress o0) i"

section \<open>Reachable states\<close>

text \<open>\<open>Restart\<close> ends the process at any moment and opens a new orchestrator on the database.\<close>

datatype orchestrator_op =
    StartSync date_time date_time string string
  | Exchange string
  | Schedule date_time transfer_request transfer_priority
  | NextTransfer
  | CompleteTransfer string u64
  | CompleteSync date_time date_time string
  | Restart

fun orchestrator_step ::
  "'q pq_ops \<Rightarrow> db_env \<Rightarrow> bool \<Rightarrow> orchestrator_op \<Rightarrow> 'q orchestrator \<Rightarrow> 'q orchestrator" where
  "orchestrator_step pq env checks (StartSync now t i peer_name) o0 = snd (start_sync env now t i peer_name o0)"
| "orchestrator_step pq env checks (Exchange i) o0 = handle_manifest_exchange i o0"
| "orchestrator_step pq env checks (Schedule now r p) o0 = snd (schedule_transfer pq env now r p o0)"
| "orchestrator_step pq env checks NextTransfer o0 = snd (next_transfer pq o0)"
| "orchestrator_step pq env checks (CompleteTransfer i n) o0 = snd (complete_transfer checks i n o0)"
| "orchestrator_step pq env checks (CompleteSync now now' i) o0 = snd (complete_sync env now now' i o0)"
| "orchestrator_step pq env checks Restart o0 =
     (case new_orchestrator pq env (sc_max_concurrent (or_scheduler o0)) (or_database o0) of
        Inl _ \<Rightarrow> o0 | Inr o1 \<Rightarrow> o1)"

text \<open>The database keeps its schema and knows every peer in memory, no more transfers are
  active than allowed, and no progress record has totals.\<close>

definition orchestrator_ok :: "db_env \<Rightarrow> 'q orchestrator \<Rightarrow> bool" where
  "orchestrator_ok env o0 \<longleftrightarrow>
     db_ok env (or_database o0) \<and> hm_wf (or_peer_states o0) \<and> hm_wf (or_progress o0) \<and>
     sc_active_transfers (or_scheduler o0) \<le> sc_max_concurrent (or_scheduler o0) \<and>
     list_all (\<lambda>(i, p). has_peer i (or_database o0)) (or_peer_states o0) \<and>
     list_all (\<lambda>(i, g). sp_total_files g = 0 \<and> sp_total_bytes g = 0) (or_progress o0)"

lemma scheduler_next_bound:
  "scheduler_next pq s = (r, s') \<Longrightarrow> sc_max_concurrent s' = sc_max_concurrent s \<and>
   (sc_active_transfers s \<le> sc_max_concurrent s \<longrightarrow> sc_active_transfers s' \<le> sc_max_concurrent s')"
  by (auto simp add: scheduler_next_def split: if_splits prod.splits option.splits)

lemma add_pending_keeps:
  "add_pending_transfer env now peer folder fpath chunk p db = Inr db' \<Longrightarrow>
   db_peers db' = db_peers db \<and> set (db_pending db) \<subseteq> set (db_pending db')"
  by (auto simp add: add_pending_transfer_def split: if_splits)

lemma upsert_keeps: "upsert_peer_state env i st db = Inr db' \<Longrightarrow> db_pending db' = db_pending db"
  by (auto simp add: upsert_peer_state_def and_then_Inr_iff)

lemma has_peer_add:
  "add_pending_transfer env now peer folder fpath chunk p db = Inr db' \<Longrightarrow> has_peer i db' = has_peer i db"
  by (simp add: has_peer_def add_pending_keeps)

lemma orchestrator_ok_begin: "orchestrator_ok env o0 \<Longrightarrow> orchestrator_ok env (snd (begin_sync env now t i n o0))"
  by (auto simp add: begin_sync_def orchestrator_ok_def Let_def hm.wf_put new_progress_def
      has_peer_upsert intro!: list_all_put dest: db_ok_upsert split: sum.splits) (auto simp add: list_all_iff)

lemma orchestrator_ok_settle: "orchestrator_ok env (settle o0) = orchestrator_ok env o0"
  by (simp add: settle_def orchestrator_ok_def)

lemma count_progress_totals:
  "sp_total_files (fst (count_progress checks n g)) = sp_total_files g"
  "sp_total_bytes (fst (count_progress checks n g)) = sp_total_bytes g"
  by (simp_all add: count_progress_def split: option.split)

lemma list_all_modify_keys:
  "list_all (\<lambda>(j, p). P j) m \<Longrightarrow> list_all (\<lambda>(j, p). P j) (hm_modify k f m)"
  by (rule list_all_modify)

lemma orchestrator_ok_statistics:
  "orchestrator_ok env o0 \<Longrightarrow> orchestrator_ok env (snd (update_statistics checks i n o0))"
  by (auto simp add: orchestrator_ok_def update_statistics_def list_all_modify_keys split: option.split prod.split)

lemma orchestrator_ok_progress:
  assumes "orchestrator_ok env o0"
  shows "orchestrator_ok env (snd (update_progress checks i n o0))"
proof (cases "hm_get (or_progress o0) i")
  case None
  with assms show ?thesis by (simp add: update_progress_def)
next
  case (Some g)
  have "sp_total_files g = 0 \<and> sp_total_bytes g = 0"
    using assms Some hm_mem_iff [of "or_progress o0" i g] by (auto simp add: orchestrator_ok_def list_all_iff)
  then have "list_all (\<lambda>(i, g). sp_total_files g = 0 \<and> sp_total_bytes g = 0)
      (hm_modify i (\<lambda>_. fst (count_progress checks n g)) (or_progress o0))"
    using assms by (intro list_all_modify) (simp_all add: orchestrator_ok_def count_progress_totals)
  with assms Some show ?thesis
    by (cases "count_progress checks n g") (simp add: orchestrator_ok_def update_progress_def)
qed

lemma orchestrator_ok_complete:
  assumes "orchestrator_ok env o0"
  shows "orchestrator_ok env (snd (complete_transfer checks i n o0))"
proof -
  have "orchestrator_ok env (o0\<lparr>or_scheduler := scheduler_complete (or_scheduler o0)\<rparr>)"
    using assms by (auto simp add: orchestrator_ok_def scheduler_complete_def)
  then show ?thesis
    by (simp add: complete_transfer_def Let_def split_def orchestrator_ok_statistics orchestrator_ok_progress)
qed

lemma orchestrator_ok_upsert:
  assumes "orchestrator_ok env o0" and "upsert_peer_state env i st (or_database o0) = Inr db"
  shows "orchestrator_ok env (o0\<lparr>or_database := db\<rparr>)"
  using assms db_ok_upsert [OF _ assms(2)]
  by (auto simp add: orchestrator_ok_def has_peer_upsert [OF assms(2)] list_all_iff)

lemma orchestrator_ok_complete_sync:
  assumes "orchestrator_ok env o0"
  shows "orchestrator_ok env (snd (complete_sync env now now' i o0))"
proof (cases "hm_get (or_peer_states o0) i")
  case None
  with assms show ?thesis by (simp add: complete_sync_def orchestrator_ok_settle)
next
  case (Some p)
  have "orchestrator_ok env (o0\<lparr>or_peer_states := hm_modify i f (or_peer_states o0)\<rparr>)" for f
    using assms by (simp add: orchestrator_ok_def list_all_modify_keys)
  from this [THEN orchestrator_ok_upsert] this Some show ?thesis
    by (auto simp add: complete_sync_def Let_def orchestrator_ok_settle split: sum.split)
qed

lemma orchestrator_ok_schedule:
  assumes "orchestrator_ok env o0"
  shows "orchestrator_ok env (snd (schedule_transfer pq env now r p o0))"
  using assms
  by (auto simp add: schedule_transfer_def orchestrator_ok_def Let_def schedule_def has_peer_add
      intro: db_ok_add split: sum.split)

lemma new_orchestrator_ok:
  assumes "db_ok env db"
  shows "\<exists>o1. new_orchestrator pq env n db = Inr o1 \<and> orchestrator_ok env o1 \<and> or_database o1 = db \<and>
    hm_get (or_peer_states o1) = peer_table env db \<and> or_state o1 = SystemIdle"
proof -
  obtain m where m: "get_all_peer_states env db = Inr m" "hm_wf m" "hm_get m = peer_table env db"
    using get_all_table [OF assms] by blast
  have "has_peer i db" if "(i, p) \<in> set m" for i p
    using that m(2,3) hm_mem_iff [of m i p]
    by (auto simp add: peer_table_def has_peer_def dest!: map_of_SomeD)
  with m assms show ?thesis
    by (auto simp add: new_orchestrator_def orchestrator_ok_def new_scheduler_def hm_wf_def list_all_iff)
qed

interpretation orchestration: machine "orchestrator_step pq env checks" "orchestrator_ok env"
  for pq env checks
proof
  fix o0 :: "'a orchestrator" and op
  assume ok: "orchestrator_ok env o0"
  show "orchestrator_ok env (orchestrator_step pq env checks op o0)"
  proof (cases op)
    case (StartSync now t i n)
    then show ?thesis using ok
      by (simp add: start_sync_def orchestrator_ok_begin split: option.split)
  next
    case (Exchange i)
    then show ?thesis using ok
      by (simp add: handle_manifest_exchange_def orchestrator_ok_def list_all_modify_keys)
  next
    case NextTransfer
    then show ?thesis using ok scheduler_next_bound
      by (fastforce simp add: next_transfer_def orchestrator_ok_def split: prod.splits)
  next
    case Restart
    have "db_ok env (or_database o0)" using ok by (simp add: orchestrator_ok_def)
    from new_orchestrator_ok [OF this, of pq "sc_max_concurrent (or_scheduler o0)"] Restart ok show ?thesis by (auto split: sum.splits)
  qed (simp_all add: ok orchestrator_ok_schedule orchestrator_ok_complete orchestrator_ok_complete_sync)
qed

section \<open>Serving by priority\<close>

text \<open>What the documentation of \<open>priority_queue\<close> promises: an entry is unique, pushing one that
  is present sets its priority, and \<open>pop\<close> removes one of the highest priority.\<close>

definition pq_ok :: "'q pq_ops \<Rightarrow> ('q \<Rightarrow> transfer_request \<rightharpoonup> transfer_priority) \<Rightarrow> bool" where
  "pq_ok pq content \<longleftrightarrow>
     content (pq_new pq) = Map.empty \<and>
     (\<forall>q r p. content (pq_push pq r p q) = (content q)(r \<mapsto> p)) \<and>
     (\<forall>q q'. pq_pop pq q = (None, q') \<longrightarrow> content q = Map.empty \<and> content q' = Map.empty) \<and>
     (\<forall>q q' r p. pq_pop pq q = (Some (r, p), q') \<longrightarrow> content q r = Some p \<and>
        (\<forall>r' p'. content q r' = Some p' \<longrightarrow> p' \<le> p) \<and> content q' = (content q)(r := None))"

fun serve :: "'q pq_ops \<Rightarrow> nat \<Rightarrow> 'q scheduler \<Rightarrow> transfer_request list" where
  "serve pq 0 s = []"
| "serve pq (Suc k) s =
     (case scheduler_next pq s of (None, _) \<Rightarrow> [] | (Some r, s') \<Rightarrow> r # serve pq k s')"

text \<open>An order in which a scheduler may serve: no request twice, by falling priority, and
  nothing left behind that is more urgent than what was served.\<close>

definition serves :: "(transfer_request \<rightharpoonup> transfer_priority) \<Rightarrow> transfer_request list \<Rightarrow> bool" where
  "serves m out \<longleftrightarrow> distinct out \<and> set out \<subseteq> dom m \<and>
     sorted_wrt (\<lambda>r r'. the (m r') \<le> the (m r)) out \<and>
     (\<forall>r\<in>dom m - set out. \<forall>r'\<in>set out. the (m r) \<le> the (m r'))"

lemma serves_Nil: "serves m []"
  by (simp add: serves_def)

lemma serves_Cons:
  assumes "serves (m(r := None)) out" and "m r = Some p" and "\<And>r' p'. m r' = Some p' \<Longrightarrow> p' \<le> p"
  shows "serves m (r # out)"
proof -
  have "r \<notin> set out" and sub: "set out \<subseteq> dom m" using assms(1) by (auto simp add: serves_def)
  moreover have "sorted_wrt (\<lambda>x y. the ((m(r := None)) y) \<le> the ((m(r := None)) x)) out"
    using assms(1) unfolding serves_def by blast
  then have "sorted_wrt (\<lambda>x y. the (m y) \<le> the (m x)) out"
    by (rule sorted_wrt_mono_rel [rotated]) (use \<open>r \<notin> set out\<close> in \<open>auto split: if_splits\<close>)
  moreover have "the (m x) \<le> p" if "x \<in> dom m" for x
    using that assms(3) by auto
  moreover have "the (m x) \<le> the (m y)" if "x \<in> dom m - set (r # out)" and "y \<in> set out" for x y
    using that assms(1) \<open>r \<notin> set out\<close> by (auto simp add: serves_def split: if_splits)
  ultimately show ?thesis
    using assms(1,2) by (auto simp add: serves_def)
qed

lemma serve_serves:
  assumes "pq_ok pq content"
  shows "finite (dom (content (sc_queue s))) \<Longrightarrow>
    serves (content (sc_queue s)) (serve pq k s) \<and>
    length (serve pq k s) = min k (min (sc_max_concurrent s - sc_active_transfers s)
      (card (dom (content (sc_queue s)))))"
proof (induction k arbitrary: s)
  case 0
  then show ?case by (simp add: serves_Nil)
next
  case (Suc k)
  let ?m = "content (sc_queue s)"
  show ?case
  proof (cases "sc_active_transfers s \<ge> sc_max_concurrent s")
    case True
    then show ?thesis by (simp add: scheduler_next_def serves_Nil)
  next
    case free: False
    obtain popped q where pop: "pq_pop pq (sc_queue s) = (popped, q)" by fastforce
    show ?thesis
    proof (cases popped)
      case None
      with pop assms have "?m = Map.empty" by (simp add: pq_ok_def)
      with free pop None show ?thesis by (simp add: scheduler_next_def serves_Nil)
    next
      case (Some e)
      obtain r p where e: "e = (r, p)" by fastforce
      let ?s = "s\<lparr>sc_queue := q, sc_active_transfers := sc_active_transfers s + 1\<rparr>"
      have top: "?m r = Some p" "\<And>r' p'. ?m r' = Some p' \<Longrightarrow> p' \<le> p" and m': "content q = ?m(r := None)"
        using assms pop Some e unfolding pq_ok_def by blast+
      then have fin: "finite (dom (content q))" using Suc.prems by simp
      have serve: "serve pq (Suc k) s = r # serve pq k ?s"
        using free pop Some e by (simp add: scheduler_next_def)
      have IH: "serves (content q) (serve pq k ?s) \<and> length (serve pq k ?s) =
          min k (min (sc_max_concurrent s - (sc_active_transfers s + 1)) (card (dom (content q))))"
        using Suc.IH [of ?s] fin by simp
      have dom_q: "dom (content q) = dom ?m - {r}" by (simp add: m')
      have "card (dom ?m) = Suc (card (dom (content q)))"
        using card.remove [OF Suc.prems, of r] top(1) by (simp add: dom_q domI)
      with IH free have "length (r # serve pq k ?s) =
          min (Suc k) (min (sc_max_concurrent s - sc_active_transfers s) (card (dom ?m)))"
        by auto
      moreover have "serves ?m (r # serve pq k ?s)"
        using IH by (intro serves_Cons [where m = ?m and r = r and p = p, OF _ top]) (simp_all only: m')
      ultimately show ?thesis by (simp only: serve)
    qed
  qed
qed

lemma scheduled_content:
  assumes "pq_ok pq content"
  shows "content (sc_queue (fold (\<lambda>(r, p). schedule pq r p) rs s)) = content (sc_queue s) ++ map_of (rev rs)"
    and "sc_max_concurrent (fold (\<lambda>(r, p). schedule pq r p) rs s) = sc_max_concurrent s"
    and "sc_active_transfers (fold (\<lambda>(r, p). schedule pq r p) rs s) = sc_active_transfers s"
  using assms by (induction rs arbitrary: s) (auto simp add: schedule_def pq_ok_def)

text \<open>A queue as a list of entries, the most urgent one found by its priority.\<close>

definition list_pop :: "(transfer_request \<times> transfer_priority) list \<Rightarrow>
    (transfer_request \<times> transfer_priority) option \<times> (transfer_request \<times> transfer_priority) list" where
  "list_pop q = (case sort_key (\<lambda>e. - priority_value (snd e)) (AList.clearjunk q) of
     [] \<Rightarrow> (None, []) | e # _ \<Rightarrow> (Some e, hm_del (fst e) q))"

definition list_pq :: "(transfer_request \<times> transfer_priority) list pq_ops" where
  "list_pq = \<lparr>pq_new = [], pq_push = hm_put, pq_pop = list_pop, pq_len = length\<rparr>"

lemma list_pop_Some:
  assumes "list_pop q = (Some (r, p), q')"
  shows "map_of q r = Some p" and "map_of q r' = Some p' \<Longrightarrow> p' \<le> p" and "map_of q' = (map_of q)(r := None)"
proof -
  let ?key = "\<lambda>e. - priority_value (snd e :: transfer_priority)"
  obtain es where es: "sort_key ?key (AList.clearjunk q) = (r, p) # es" and q': "q' = hm_del r q"
    using assms by (auto simp add: list_pop_def split: list.splits)
  have mem: "set ((r, p) # es) = set (AList.clearjunk q)" by (metis es set_sort)
  show "map_of q r = Some p"
    using mem by (metis distinct_clearjunk list.set_intros(1) map_of_clearjunk map_of_is_SomeI)
  have "sorted (map ?key ((r, p) # es))" by (metis es sorted_sort_key)
  then have least: "\<forall>x\<in>set ((r, p) # es). priority_value (snd x) \<le> priority_value p" by auto
  show "p' \<le> p" if "map_of q r' = Some p'"
  proof -
    have "(r', p') \<in> set ((r, p) # es)"
      unfolding mem using that by (intro map_of_SomeD) (simp add: map_of_clearjunk)
    with least show ?thesis by (auto simp add: less_eq_transfer_priority_def)
  qed
  show "map_of q' = (map_of q)(r := None)" by (simp add: q' hm_del_def delete_conv')
qed

lemma list_pq_ok: "pq_ok list_pq map_of"
proof -
  have "map_of q = Map.empty \<and> map_of q' = Map.empty" if "list_pop q = (None, q')" for q q'
  proof -
    have "sort_key (\<lambda>e. - priority_value (snd e)) (AList.clearjunk q) = []" and q': "q' = []"
      using that by (auto simp add: list_pop_def split: list.splits)
    then have "AList.clearjunk q = []" by (metis list.set(1) set_empty set_sort)
    then have "map_of q = Map.empty" by (metis map_of.simps(1) map_of_clearjunk)
    with q' show ?thesis by simp
  qed
  then show ?thesis
    using list_pop_Some by (auto simp add: pq_ok_def list_pq_def hm_put_def update_conv')
qed

section \<open>What a crash leaves behind\<close>

lemma peer_table_add:
  "add_pending_transfer env now peer folder fpath chunk p db = Inr db' \<Longrightarrow>
   peer_table env db' = peer_table env db"
  by (simp add: peer_table_def add_pending_keeps)

text \<open>The sync of peer \<open>i\<close> has begun, in memory and in the database.\<close>

definition syncing :: "db_env \<Rightarrow> string \<Rightarrow> 'q orchestrator \<Rightarrow> bool" where
  "syncing env i o0 \<longleftrightarrow> orchestrator_ok env o0 \<and>
     (\<exists>p. hm_get (or_peer_states o0) i = Some p \<and> is_active (ps_current_state p)) \<and>
     (\<exists>p. peer_table env (or_database o0) i = Some p \<and> is_active (ps_current_state p))"

fun completes :: "string \<Rightarrow> orchestrator_op \<Rightarrow> bool" where
  "completes i (CompleteSync _ _ j) \<longleftrightarrow> i = j"
| "completes i _ \<longleftrightarrow> False"

lemma count_received_active:
  "is_active (ps_current_state (fst (count_received checks n p))) = is_active (ps_current_state p)"
  by (simp add: count_received_def Let_def split: option.split)

lemma update_progress_frame:
  "or_peer_states (snd (update_progress checks i n o0)) = or_peer_states o0"
  "or_database (snd (update_progress checks i n o0)) = or_database o0"
  by (simp_all add: update_progress_def split_def Let_def split: option.split)

lemma update_statistics_frame:
  "or_database (snd (update_statistics checks i n o0)) = or_database o0"
  "\<exists>p. hm_get (or_peer_states o0) j = Some p \<and> is_active (ps_current_state p) \<Longrightarrow>
   \<exists>p. hm_get (or_peer_states (snd (update_statistics checks i n o0))) j = Some p \<and>
     is_active (ps_current_state p)"
  by (auto simp add: update_statistics_def split_def Let_def hm_get_modify count_received_active
      split: option.split)

lemma settle_frame:
  "or_peer_states (settle o0) = or_peer_states o0" "or_database (settle o0) = or_database o0"
  by (simp_all add: settle_def)

lemma syncing_step:
  assumes "db_env_ok env" and "syncing env i o0" and "\<not> completes i op"
  shows "syncing env i (orchestrator_step pq env checks op o0)"
proof -
  have ok: "orchestrator_ok env (orchestrator_step pq env checks op o0)"
    by (rule orchestration.inv_step) (use assms(2) in \<open>simp add: syncing_def\<close>)
  have wf: "hm_wf (or_peer_states o0)" and db: "db_ok env (or_database o0)"
    using assms(2) by (simp_all add: syncing_def orchestrator_ok_def)
  show ?thesis
  proof (cases op)
    case (StartSync now t j n)
    show ?thesis
    proof (cases "j = i")
      case True
      with assms(2) StartSync show ?thesis by (auto simp add: start_sync_def syncing_def)
    next
      case False
      with assms(2) ok StartSync wf show ?thesis
        by (auto simp add: start_sync_def syncing_def begin_sync_def Let_def hm.get_put starting_peer_def
            upsert_table [OF assms(1)] split: option.splits sum.splits if_splits)
    qed
  next
    case (Exchange j)
    with assms(2) ok show ?thesis by (auto simp add: handle_manifest_exchange_def syncing_def hm_get_modify)
  next
    case (Schedule now r p)
    with assms(2) ok show ?thesis
      by (auto simp add: schedule_transfer_def syncing_def Let_def peer_table_add split: sum.splits)
  next
    case NextTransfer
    with assms(2) ok show ?thesis by (auto simp add: next_transfer_def syncing_def split: prod.splits)
  next
    case (CompleteTransfer j n)
    with assms(2) ok update_statistics_frame(2) [of "o0\<lparr>or_scheduler := scheduler_complete (or_scheduler o0)\<rparr>" i]
    show ?thesis
      by (simp add: complete_transfer_def syncing_def split_def Let_def update_progress_frame update_statistics_frame(1))
  next
    case (CompleteSync now now' j)
    with assms(2,3) ok show ?thesis
      by (auto simp add: complete_sync_def syncing_def Let_def settle_frame hm_get_modify
          upsert_table [OF assms(1)] split: option.splits sum.splits)
  next
    case Restart
    with assms(2) ok new_orchestrator_ok [OF db, of pq "sc_max_concurrent (or_scheduler o0)"] show ?thesis
      by (auto simp add: syncing_def)
  qed
qed

lemma syncing_run:
  "db_env_ok env \<Longrightarrow> syncing env i o0 \<Longrightarrow> \<forall>op\<in>set ops. \<not> completes i op \<Longrightarrow>
   syncing env i (fold (orchestrator_step pq env checks) ops o0)"
  by (induction ops arbitrary: o0) (auto intro: syncing_step)

lemma start_sync_syncing:
  assumes "db_env_ok env" and "orchestrator_ok env o0" and "start_sync env now t i n o0 = (Inr (), o1)"
  shows "syncing env i o1"
  using assms orchestrator_ok_begin [OF assms(2), of now t i n]
  by (auto simp add: start_sync_def syncing_def begin_sync_def Let_def hm.get_put orchestrator_ok_def
      starting_peer_def upsert_table [OF assms(1)] split: option.splits sum.splits if_splits)

lemma step_keeps_pending:
  "set (db_pending (or_database o0)) \<subseteq> set (db_pending (or_database (orchestrator_step pq env checks op o0)))"
proof (cases op)
  case (StartSync now t i n)
  then show ?thesis
    by (auto simp add: start_sync_def begin_sync_def Let_def upsert_keeps split: option.splits sum.splits)
next
  case (Schedule now r p)
  then show ?thesis
    using add_pending_keeps by (fastforce simp add: schedule_transfer_def Let_def split: sum.splits)
next
  case (CompleteTransfer i n)
  then show ?thesis
    by (simp add: complete_transfer_def Let_def split_def update_progress_frame update_statistics_frame(1))
next
  case Restart
  then show ?thesis
    by (auto simp add: new_orchestrator_def and_then_Inr_iff split: sum.splits)
qed (auto simp add: handle_manifest_exchange_def next_transfer_def complete_sync_def Let_def
    settle_frame upsert_keeps split: prod.split option.split sum.split)

lemma run_keeps_pending:
  "set (db_pending (or_database o0)) \<subseteq>
   set (db_pending (or_database (fold (orchestrator_step pq env checks) ops o0)))"
  by (induction ops arbitrary: o0) (use step_keeps_pending in force)+

lemma all_pending: "iter_order (e_ties env) \<Longrightarrow>
    set (get_pending_transfers env i (- 1) db) = {t \<in> set (db_pending db). pt_peer_id t = i}"
  by (auto simp add: get_pending_transfers_def Let_def iter_order_set)

lemma step_keeps_max:
  "sc_max_concurrent (or_scheduler (orchestrator_step pq env checks op o0)) =
   sc_max_concurrent (or_scheduler o0)"
proof (cases op)
  case (StartSync now t i n)
  then show ?thesis by (simp add: start_sync_def begin_sync_def Let_def split: option.split sum.split)
next
  case NextTransfer
  then show ?thesis using scheduler_next_bound [of pq "or_scheduler o0"]
    by (simp add: next_transfer_def split: prod.split)
next
  case Restart
  then show ?thesis by (auto simp add: new_orchestrator_def new_scheduler_def and_then_Inr_iff split: sum.split)
next
  case (CompleteTransfer i n)
  then show ?thesis
    by (simp add: complete_transfer_def update_statistics_def update_progress_def Let_def split_def
        scheduler_complete_def split: option.split)
qed (simp_all add: handle_manifest_exchange_def schedule_transfer_def schedule_def complete_sync_def
    Let_def settle_def split: option.split sum.split)

lemma run_keeps_max:
  "sc_max_concurrent (or_scheduler (fold (orchestrator_step pq env checks) ops o0)) =
   sc_max_concurrent (or_scheduler o0)"
  by (induction ops arbitrary: o0) (simp_all add: step_keeps_max)

lemma progress_totals:
  "orchestrator_ok env o0 \<Longrightarrow> get_progress o0 i = Some g \<Longrightarrow> sp_total_files g = 0 \<and> sp_total_bytes g = 0"
  using hm_mem_iff [of "or_progress o0" i g]
  by (auto simp add: orchestrator_ok_def get_progress_def list_all_iff)

lemma orchestrator_ok_summary:
  assumes "orchestrator_ok env o1"
  shows "sc_active_transfers (or_scheduler o1) \<le> sc_max_concurrent (or_scheduler o1) \<and>
    list_all (\<lambda>(i, p). has_peer i (or_database o1)) (or_peer_states o1) \<and>
    (\<forall>i. case get_progress o1 i of
       None \<Rightarrow> True
     | Some g \<Rightarrow> is_complete g = (sp_completed_files g = 0 \<and> sp_transferred_bytes g = 0))"
  using assms progress_totals [OF assms]
  by (simp add: orchestrator_ok_def is_complete_def split: option.split)

lemma active_peers_pos:
  assumes "hm_wf (or_peer_states o0)" and "hm_get (or_peer_states o0) i = Some p"
    and "is_active (ps_current_state p)"
  shows "active_peers o0 > 0"
  using assms hm_mem_iff [OF assms(1), of i p]
  by (auto simp add: active_peers_def filter_empty_conv)

section \<open>Properties\<close>


text \<open>C34: The scheduler serves what it was given by falling priority, the last priority given to
  a request counting: of the requests it serves none twice, none it leaves is more urgent than
  one it serves, and it stops exactly when it has nothing left or its limit of concurrent
  transfers is reached.\<close>

theorem scheduler_serves_by_priority:
  assumes "pq_ok pq content"
  shows "let out = serve pq k (fold (\<lambda>(r, p). schedule pq r p) rs (new_scheduler pq n)) in
    serves (map_of (rev rs)) out \<and>
    length out = min k (min n (card (dom (map_of (rev rs)))))"
proof -
  let ?s = "fold (\<lambda>(r, p). schedule pq r p) rs (new_scheduler pq n)"
  have "content (sc_queue ?s) = map_of (rev rs)" "sc_max_concurrent ?s = n" "sc_active_transfers ?s = 0"
    using assms scheduled_content [OF assms, of rs "new_scheduler pq n"]
    by (simp_all add: new_scheduler_def pq_ok_def)
  then show ?thesis
    using serve_serves [OF assms, of ?s k] by (simp add: Let_def finite_dom_map_of)
qed

text \<open>A crash during a sync blocks its peer: once a sync with a peer has started, a restart
  before the sync is completed leaves the peer counted as active although the system is idle,
  and every later attempt to start a sync with it is refused.\<close>

theorem interrupted_sync_blocks_peer:
  assumes "db_env_ok env"
    and "new_orchestrator pq env n new_db = Inr o_new"
    and "start_sync env now t i peer_name (fold (orchestrator_step pq env checks) ops0 o_new) = (Inr (), o1)"
    and "\<forall>op\<in>set ops. \<not> completes i op"
  shows "let o2 = orchestrator_step pq env checks Restart (fold (orchestrator_step pq env checks) ops o1) in
    or_state o2 = SystemIdle \<and> active_peers o2 > 0 \<and>
    start_sync env now' t' i peer_name' o2 = (Inl (AlreadySyncing i), o2)"
proof -
  let ?o = "fold (orchestrator_step pq env checks) ops o1"
  have "orchestrator_ok env o_new" using assms(2) new_orchestrator_ok [OF db_ok_new, of pq env n] by simp
  then have "syncing env i o1"
    using start_sync_syncing [OF assms(1) orchestration.inv_fold assms(3)] by simp
  then have run: "syncing env i ?o" by (rule syncing_run [OF assms(1) _ assms(4)])
  then have "db_ok env (or_database ?o)" by (simp add: syncing_def orchestrator_ok_def)
  from new_orchestrator_ok [OF this, of pq "sc_max_concurrent (or_scheduler ?o)"]
  have "or_state (orchestrator_step pq env checks Restart ?o) = SystemIdle" by auto
  then show ?thesis
    using syncing_step [OF assms(1) run, of Restart pq checks] active_peers_pos
    by (fastforce simp add: Let_def syncing_def start_sync_def orchestrator_ok_def)
qed

text \<open>A scheduled transfer stays pending in the database for good: whatever happens later,
  its completion included, the query of the peer's pending transfers still returns it.\<close>

theorem completed_transfer_stays_pending:
  assumes "iter_order (e_ties env)"
    and "schedule_transfer pq env now r p o0 = (Inr (), o1)"
  shows "\<exists>t\<in>set (get_pending_transfers env (tr_peer_id r) (- 1)
      (or_database (fold (orchestrator_step pq env checks) ops o1))). pt_chunk_hash t = tr_chunk_hash r"
proof -
  obtain t where "t \<in> set (db_pending (or_database o1))" "pt_peer_id t = tr_peer_id r"
      "pt_chunk_hash t = tr_chunk_hash r"
    using assms(2) by (fastforce simp add: schedule_transfer_def Let_def add_pending_transfer_def
        list_ex_iff same_transfer_def split: sum.splits if_splits)
  then show ?thesis
    using run_keeps_pending [of o1 pq env checks ops] by (auto simp add: all_pending [OF assms(1)])
qed

definition sample_request :: transfer_request where
  "sample_request = \<lparr>tr_peer_id = ''p'', tr_chunk_hash = ''c'', tr_file_path = ''f'', tr_size = 9\<rparr>"

theorem scheduler_serves_by_priority_witness:
  "let out = serve list_pq 3 (fold (\<lambda>(r, p). schedule list_pq r p)
      [(sample_request, Low), (sample_request\<lparr>tr_chunk_hash := ''d''\<rparr>, High)] (new_scheduler list_pq 1)) in
    serves (map_of (rev [(sample_request, Low), (sample_request\<lparr>tr_chunk_hash := ''d''\<rparr>, High)])) out \<and>
    length out = min 3 (min 1 (card (dom (map_of (rev
      [(sample_request, Low), (sample_request\<lparr>tr_chunk_hash := ''d''\<rparr>, High)])))))"
  by (rule scheduler_serves_by_priority [OF list_pq_ok])

definition sample_orchestrator :: "(transfer_request \<times> transfer_priority) list orchestrator" where
  "sample_orchestrator = \<lparr>or_database = new_db, or_state = SystemIdle, or_peer_states = [],
     or_scheduler = new_scheduler list_pq 4, or_progress = []\<rparr>"

lemma sample_orchestrator_new: "new_orchestrator list_pq env 4 new_db = Inr sample_orchestrator"
  by (simp add: new_orchestrator_def get_all_peer_states_def new_db_def hm_collect_def sample_orchestrator_def)

lemma sample_start:
  "\<exists>o1. start_sync (sample_db_env True) 5 5 ''p'' ''Laptop'' sample_orchestrator = (Inr (), o1) \<and>
     has_peer ''p'' (or_database o1) \<and> db_pending (or_database o1) = []"
  by (simp add: start_sync_def sample_orchestrator_def begin_sync_def upsert_peer_state_def peer_row_of_def
      to_sql_def starting_peer_def Let_def hm.get_empty has_peer_def put_row_def new_db_def)

theorem interrupted_sync_blocks_peer_witness:
  "\<exists>o1. start_sync (sample_db_env True) 5 5 ''p'' ''Laptop'' sample_orchestrator = (Inr (), o1) \<and>
    (let o2 = orchestrator_step list_pq (sample_db_env True) True Restart
        (fold (orchestrator_step list_pq (sample_db_env True) True) [Exchange ''p''] o1) in
      or_state o2 = SystemIdle \<and> active_peers o2 > 0 \<and>
      start_sync (sample_db_env True) 9 9 ''p'' ''Laptop'' o2 = (Inl (AlreadySyncing ''p''), o2))"
proof -
  obtain o1 where o1: "start_sync (sample_db_env True) 5 5 ''p'' ''Laptop'' sample_orchestrator = (Inr (), o1)"
    using sample_start by blast
  then have "start_sync (sample_db_env True) 5 5 ''p'' ''Laptop''
      (fold (orchestrator_step list_pq (sample_db_env True) True) [] sample_orchestrator) = (Inr (), o1)"
    by simp
  from interrupted_sync_blocks_peer [OF sample_db_env_ok sample_orchestrator_new this, of "[Exchange ''p'']"] o1
  show ?thesis by simp
qed

theorem completed_transfer_stays_pending_witness:
  "\<exists>o1 o2. schedule_transfer list_pq (sample_db_env True) 6 sample_request High o1 = (Inr (), o2) \<and>
    (\<exists>t\<in>set (get_pending_transfers (sample_db_env True) (tr_peer_id sample_request) (- 1)
      (or_database (fold (orchestrator_step list_pq (sample_db_env True) True)
        [NextTransfer, CompleteTransfer ''p'' 9, CompleteSync 7 7 ''p'', Restart] o2))).
      pt_chunk_hash t = tr_chunk_hash sample_request)"
proof -
  obtain o1 :: "(transfer_request \<times> transfer_priority) list orchestrator"
    where o1: "has_peer ''p'' (or_database o1)" "db_pending (or_database o1) = []"
    using sample_start by blast
  then obtain o2 where o2:
      "schedule_transfer list_pq (sample_db_env True) 6 sample_request High o1 = (Inr (), o2)"
    by (simp add: schedule_transfer_def Let_def add_pending_transfer_def sample_request_def)
  have "iter_order (e_ties (sample_db_env True))" using sample_db_env_ok by (simp add: db_env_ok_def)
  from completed_transfer_stays_pending [OF this o2] o2 show ?thesis by blast
qed

end
