(* ===== verification/Recovery.thy ===== *)
theory Recovery
  imports Sync_Db Machines
begin

text \<open>
  Crash recovery of sync operations (\<open>landro-sync/src/recovery.rs\<close>): the recovery log, a text
  file with one JSON object per line, the operations tracked in memory and the recovery at
  startup, on the database of theory \<open>Sync_Db\<close>.

  serde's JSON of an operation and the text of a database error are parameters; encoding
  succeeds.  I/O succeeds, and a crash stops the program inside one of the writes: the write of
  a file can be cut at any byte, a rename happens or does not.  The clock is a parameter of
  every operation that reads it.  An addition to a retry count wraps, as in a release build;
  the recovery time in the statistics is left out.
\<close>

section \<open>Operations\<close>

datatype operation_type =
    Transfer string string string u64 u64
  | ManifestSync string string string string
  | IndexUpdate string u64 u64

datatype operation_status = InProgress | Completed | Failed | Interrupted | Recovering

record operation =
  op_id :: string
  op_type :: operation_type
  op_started_at :: date_time
  op_last_checkpoint :: date_time
  op_status :: operation_status
  op_retry_count :: u32
  op_error_message :: "string option"

record recovery_stats =
  operations_recovered :: nat
  operations_completed :: nat
  operations_failed :: nat
  operations_abandoned :: nat

record recovery_env =
  e_to_json :: "operation \<Rightarrow> string"
  e_from_json :: "string \<Rightarrow> operation option"
  e_db_error_text :: "db_error \<Rightarrow> string"
  e_db :: db_env

section \<open>Lines\<close>

abbreviation newline :: char where
  "newline \<equiv> CHR 0x0A"

abbreviation carriage_return :: char where
  "carriage_return \<equiv> CHR 0x0D"

text \<open>\<open>str::lines\<close>: a line ends with a line feed or a carriage return and a line feed, and the
  last one may end with the text.\<close>

definition strip_cr :: "string \<Rightarrow> string" where
  "strip_cr l = (if l \<noteq> [] \<and> last l = carriage_return then butlast l else l)"

definition text_lines :: "string \<Rightarrow> string list" where
  "text_lines s =
     (let ps = split_on newline s in
      map strip_cr (butlast ps) @ (if last ps = [] then [] else [last ps]))"

text \<open>\<open>lines.join("\n") + "\n"\<close>.\<close>

fun join_lines :: "string list \<Rightarrow> string" where
  "join_lines [] = []"
| "join_lines [l] = l"
| "join_lines (l # ls) = l @ newline # join_lines ls"

definition log_text :: "string list \<Rightarrow> string" where
  "log_text ls = join_lines ls @ [newline]"

text \<open>\<open>line.trim().is_empty()\<close>: every character has Unicode's \<open>White_Space\<close> property.\<close>

definition is_whitespace :: "nat \<Rightarrow> bool" where
  "is_whitespace c \<longleftrightarrow> (9 \<le> c \<and> c \<le> 13) \<or> c = 32 \<or> c = 133 \<or> c = 160 \<or> c = 5760 \<or>
     (8192 \<le> c \<and> c \<le> 8202) \<or> c = 8232 \<or> c = 8233 \<or> c = 8239 \<or> c = 8287 \<or> c = 12288"

definition is_blank :: "string \<Rightarrow> bool" where
  "is_blank l \<longleftrightarrow> list_all is_whitespace (utf8_chars l)"

section \<open>The recovery log\<close>

record disk =
  dk_log :: "string option"
  dk_tmp :: "string option"

datatype disk_action = WriteTmp string | RenameTmp | WriteLog string

fun perform :: "disk_action \<Rightarrow> disk \<Rightarrow> disk" where
  "perform (WriteTmp s) d = d\<lparr>dk_tmp := Some s\<rparr>"
| "perform RenameTmp d = d\<lparr>dk_log := dk_tmp d, dk_tmp := None\<rparr>"
| "perform (WriteLog s) d = d\<lparr>dk_log := Some s\<rparr>"

text \<open>The disks a crash inside an action can leave.\<close>

fun cut_action :: "disk_action \<Rightarrow> disk \<Rightarrow> disk list" where
  "cut_action (WriteTmp s) d = map (\<lambda>n. d\<lparr>dk_tmp := Some (take n s)\<rparr>) [0..<Suc (length s)]"
| "cut_action RenameTmp d = [d, perform RenameTmp d]"
| "cut_action (WriteLog s) d = map (\<lambda>n. d\<lparr>dk_log := Some (take n s)\<rparr>) [0..<Suc (length s)]"

fun crash_disks :: "disk_action list \<Rightarrow> disk \<Rightarrow> disk list" where
  "crash_disks [] d = [d]"
| "crash_disks (a # as) d = d # cut_action a d @ crash_disks as (perform a d)"

definition log_content :: "disk \<Rightarrow> string" where
  "log_content d = (case dk_log d of None \<Rightarrow> [] | Some s \<Rightarrow> s)"

text \<open>The first line that is an operation with the same id is replaced.\<close>

fun replace_line :: "recovery_env \<Rightarrow> operation \<Rightarrow> string list \<Rightarrow> string list option" where
  "replace_line env x [] = None"
| "replace_line env x (l # ls) =
     (case e_from_json env l of
        Some y \<Rightarrow> if op_id y = op_id x then Some (e_to_json env x # ls)
          else map_option ((#) l) (replace_line env x ls)
      | None \<Rightarrow> map_option ((#) l) (replace_line env x ls))"

definition save_actions :: "recovery_env \<Rightarrow> operation \<Rightarrow> disk \<Rightarrow> disk_action list" where
  "save_actions env x d =
     (let ls = text_lines (log_content d);
          ls' = (case replace_line env x ls of Some ls' \<Rightarrow> ls' | None \<Rightarrow> ls @ [e_to_json env x])
      in [WriteTmp (log_text ls'), RenameTmp])"

definition save_operation :: "recovery_env \<Rightarrow> operation \<Rightarrow> disk \<Rightarrow> disk" where
  "save_operation env x d = fold perform (save_actions env x d) d"

definition is_incomplete :: "operation \<Rightarrow> bool" where
  "is_incomplete x \<longleftrightarrow> op_status x = InProgress \<or> op_status x = Interrupted"

definition load_recovery_log :: "recovery_env \<Rightarrow> disk \<Rightarrow> operation list" where
  "load_recovery_log env d =
     (case dk_log d of
        None \<Rightarrow> []
      | Some s \<Rightarrow> filter is_incomplete
          (List.map_filter (\<lambda>l. if is_blank l then None else e_from_json env l) (text_lines s)))"

definition keeps_line :: "recovery_env \<Rightarrow> string \<Rightarrow> string \<Rightarrow> bool" where
  "keeps_line env i l \<longleftrightarrow> \<not> is_blank l \<and>
     (case e_from_json env l of Some y \<Rightarrow> op_id y \<noteq> i | None \<Rightarrow> True)"

definition remove_actions :: "recovery_env \<Rightarrow> string \<Rightarrow> disk \<Rightarrow> disk_action list" where
  "remove_actions env i d =
     (case dk_log d of
        None \<Rightarrow> []
      | Some s \<Rightarrow> [WriteLog (log_text (filter (keeps_line env i) (text_lines s)))])"

definition remove_operation :: "recovery_env \<Rightarrow> string \<Rightarrow> disk \<Rightarrow> disk" where
  "remove_operation env i d = fold perform (remove_actions env i d) d"

section \<open>The manager\<close>

record recovery_manager =
  rm_database :: sync_db
  rm_disk :: disk
  rm_active :: "(string, operation) hmap"

definition new_recovery_manager :: "sync_db \<Rightarrow> disk \<Rightarrow> recovery_manager" where
  "new_recovery_manager db d = \<lparr>rm_database = db, rm_disk = d, rm_active = []\<rparr>"

definition start_operation :: "recovery_env \<Rightarrow> operation \<Rightarrow> recovery_manager \<Rightarrow> recovery_manager" where
  "start_operation env x m =
     m\<lparr>rm_active := hm_put (op_id x) x (rm_active m), rm_disk := save_operation env x (rm_disk m)\<rparr>"

definition checkpoint_operation ::
  "recovery_env \<Rightarrow> date_time \<Rightarrow> string \<Rightarrow> (operation \<Rightarrow> operation) \<Rightarrow> recovery_manager \<Rightarrow> recovery_manager" where
  "checkpoint_operation env now i progress_update m =
     (case hm_get (rm_active m) i of
        None \<Rightarrow> m
      | Some x \<Rightarrow>
          let x' = (progress_update x)\<lparr>op_last_checkpoint := now\<rparr> in
          m\<lparr>rm_active := hm_modify i (\<lambda>_. x') (rm_active m),
            rm_disk := save_operation env x' (rm_disk m)\<rparr>)"

definition complete_operation ::
  "recovery_env \<Rightarrow> date_time \<Rightarrow> string \<Rightarrow> recovery_manager \<Rightarrow> recovery_manager" where
  "complete_operation env now i m =
     (case hm_get (rm_active m) i of
        None \<Rightarrow> m
      | Some x \<Rightarrow>
          m\<lparr>rm_active := hm_del i (rm_active m),
            rm_disk := remove_operation env i
              (save_operation env (x\<lparr>op_status := Completed, op_last_checkpoint := now\<rparr>) (rm_disk m))\<rparr>)"

definition fail_operation ::
  "recovery_env \<Rightarrow> date_time \<Rightarrow> string \<Rightarrow> string \<Rightarrow> recovery_manager \<Rightarrow> recovery_manager" where
  "fail_operation env now i err m =
     (case hm_get (rm_active m) i of
        None \<Rightarrow> m
      | Some x \<Rightarrow>
          let x' = x\<lparr>op_status := Failed, op_error_message := Some err,
            op_retry_count := op_retry_count x + 1, op_last_checkpoint := now\<rparr>;
              active = hm_modify i (\<lambda>_. x') (rm_active m) in
          m\<lparr>rm_disk := save_operation env x' (rm_disk m),
            rm_active := (if op_retry_count x' \<ge> 3 then hm_del i active else active)\<rparr>)"

section \<open>Recovery at startup\<close>

definition recover_transfer_operation ::
  "recovery_env \<Rightarrow> date_time \<Rightarrow> string \<Rightarrow> string \<Rightarrow> string \<Rightarrow> u64 \<Rightarrow> u64 \<Rightarrow> sync_db \<Rightarrow>
   (db_error + bool) \<times> sync_db" where
  "recover_transfer_operation env now peer fpath chunk tsize transferred db =
     (if transferred \<ge> tsize then (Inr True, db)
      else case add_pending_transfer (e_db env) now peer ''default'' fpath chunk 0 db of
        Inl e \<Rightarrow> (Inl e, db)
      | Inr db' \<Rightarrow> (Inr False, db'))"

fun recover_operation ::
  "recovery_env \<Rightarrow> date_time \<Rightarrow> operation_type \<Rightarrow> sync_db \<Rightarrow> (db_error + bool) \<times> sync_db" where
  "recover_operation env now (Transfer peer fpath chunk tsize transferred) db =
     recover_transfer_operation env now peer fpath chunk tsize transferred db"
| "recover_operation env now (ManifestSync peer folder ours theirs) db = (Inr (ours = theirs), db)"
| "recover_operation env now (IndexUpdate folder processed total_files) db =
     (Inr (processed \<ge> total_files), db)"

text \<open>\<open>num_hours\<close> rounds towards zero; a time is its nanoseconds.\<close>

definition num_hours :: "int \<Rightarrow> int" where
  "num_hours t = sgn t * (\<bar>t\<bar> div (3600 * 10 ^ 9))"

definition recovery_result ::
  "recovery_env \<Rightarrow> db_error + bool \<Rightarrow> operation \<Rightarrow> operation" where
  "recovery_result env r x =
     (case r of
        Inr True \<Rightarrow> x\<lparr>op_status := Completed\<rparr>
      | Inr False \<Rightarrow> x\<lparr>op_status := InProgress\<rparr>
      | Inl e \<Rightarrow>
          let y = x\<lparr>op_retry_count := op_retry_count x + 1, op_error_message := Some (e_db_error_text env e)\<rparr>
          in if op_retry_count y \<ge> 3 then y\<lparr>op_status := Failed\<rparr> else y\<lparr>op_status := InProgress\<rparr>)"

definition count_result :: "operation_status \<Rightarrow> recovery_stats \<Rightarrow> recovery_stats" where
  "count_result s st =
     (if s = Completed then st\<lparr>operations_completed := operations_completed st + 1\<rparr>
      else if s = Failed then st\<lparr>operations_failed := operations_failed st + 1\<rparr> else st)"

definition recover_one ::
  "recovery_env \<Rightarrow> (string \<Rightarrow> date_time) \<Rightarrow> operation \<Rightarrow> recovery_stats \<times> recovery_manager \<Rightarrow>
   recovery_stats \<times> recovery_manager" where
  "recover_one env now x = (\<lambda>(st, m).
     let st1 = st\<lparr>operations_recovered := operations_recovered st + 1\<rparr> in
     if num_hours (now (op_id x) - op_started_at x) > 24 then
       (st1\<lparr>operations_abandoned := operations_abandoned st1 + 1\<rparr>, m)
     else
       let y = x\<lparr>op_status := Recovering\<rparr>;
           d = save_operation env y (rm_disk m);
           (r, db) = recover_operation env (now (op_id x)) (op_type y) (rm_database m);
           z = recovery_result env r y
       in (count_result (op_status z) st1,
           m\<lparr>rm_disk := save_operation env z d, rm_database := db\<rparr>))"

definition recover_on_startup ::
  "recovery_env \<Rightarrow> (string \<Rightarrow> date_time) \<Rightarrow> recovery_manager \<Rightarrow> recovery_stats \<times> recovery_manager" where
  "recover_on_startup env now m =
     fold (recover_one env now) (load_recovery_log env (rm_disk m))
       (\<lparr>operations_recovered = 0, operations_completed = 0, operations_failed = 0,
         operations_abandoned = 0\<rparr>, m)"

section \<open>The log as a list of operations\<close>

text \<open>serde's JSON of an operation reads back; it is one line without a trailing carriage
  return, and is not blank; blank text is not JSON.\<close>

definition json_ok :: "recovery_env \<Rightarrow> bool" where
  "json_ok env \<longleftrightarrow>
     (\<forall>x. e_from_json env (e_to_json env x) = Some x \<and> newline \<notin> set (e_to_json env x) \<and>
        last (e_to_json env x) \<noteq> carriage_return \<and> \<not> is_blank (e_to_json env x)) \<and>
     (\<forall>l. is_blank l \<longrightarrow> e_from_json env l = None)"

fun put_op :: "operation \<Rightarrow> operation list \<Rightarrow> operation list" where
  "put_op x [] = [x]"
| "put_op x (y # ys) = (if op_id y = op_id x then x # ys else y # put_op x ys)"

datatype log_command = Save operation | Remove string

fun log_step :: "recovery_env \<Rightarrow> log_command \<Rightarrow> disk \<Rightarrow> disk" where
  "log_step env (Save x) d = save_operation env x d"
| "log_step env (Remove i) d = remove_operation env i d"

fun abs_log_step :: "log_command \<Rightarrow> operation list \<Rightarrow> operation list" where
  "abs_log_step (Save x) xs = put_op x xs"
| "abs_log_step (Remove i) xs = filter (\<lambda>y. op_id y \<noteq> i) xs"

definition ops_of :: "recovery_env \<Rightarrow> string list \<Rightarrow> operation list" where
  "ops_of env ls = List.map_filter (e_from_json env) ls"

definition log_ops :: "recovery_env \<Rightarrow> disk \<Rightarrow> operation list" where
  "log_ops env d = ops_of env (text_lines (log_content d))"

definition good_line :: "recovery_env \<Rightarrow> string \<Rightarrow> bool" where
  "good_line env l \<longleftrightarrow> l = [] \<or> (\<exists>x. l = e_to_json env x)"

definition log_ok :: "recovery_env \<Rightarrow> disk \<Rightarrow> bool" where
  "log_ok env d \<longleftrightarrow> (case dk_log d of
     None \<Rightarrow> True | Some s \<Rightarrow> \<exists>ls. s = log_text ls \<and> list_all (good_line env) ls)"

lemma is_blank_Nil [simp]: "is_blank []"
  by (simp add: is_blank_def)

lemma good_line_shape:
  "json_ok env \<Longrightarrow> good_line env l \<Longrightarrow> newline \<notin> set l \<and> strip_cr l = l"
  by (auto simp add: good_line_def json_ok_def strip_cr_def)

lemma join_lines_Cons: "ls \<noteq> [] \<Longrightarrow> join_lines (l # ls) = l @ newline # join_lines ls"
  by (cases ls) auto

lemma split_log_text:
  "\<forall>l\<in>set ls. newline \<notin> set l \<Longrightarrow> ls \<noteq> [] \<Longrightarrow> split_on newline (log_text ls) = ls @ [[]]"
proof (induction ls)
  case Nil
  then show ?case by simp
next
  case (Cons l ls)
  then show ?case
    by (cases "ls = []") (auto simp add: log_text_def join_lines_Cons split_on_append)
qed

lemma lines_log_text:
  assumes "json_ok env" and "list_all (good_line env) ls"
  shows "text_lines (log_text ls) = (if ls = [] then [[]] else ls)"
proof (cases "ls = []")
  case True
  then show ?thesis by (simp add: text_lines_def log_text_def strip_cr_def)
next
  case False
  have "map strip_cr ls = ls"
    using assms good_line_shape by (simp add: list_all_iff map_idI)
  with False assms show ?thesis
    using split_log_text [of ls] good_line_shape
    by (simp add: text_lines_def list_all_iff)
qed

lemma text_lines_Nil [simp]: "text_lines [] = []"
  by (simp add: text_lines_def)

lemma good_lines: "json_ok env \<Longrightarrow> log_ok env d \<Longrightarrow> list_all (good_line env) (text_lines (log_content d))"
  by (auto simp add: log_ok_def log_content_def lines_log_text good_line_def split: option.splits)

lemma ops_of_simps [simp]:
  "ops_of env [] = []"
  "ops_of env (l # ls) = (case e_from_json env l of None \<Rightarrow> ops_of env ls | Some x \<Rightarrow> x # ops_of env ls)"
  "ops_of env (ls @ ls') = ops_of env ls @ ops_of env ls'"
  by (simp_all add: ops_of_def map_filter_def split: option.split)

lemma ops_of_log_text:
  assumes "json_ok env" and "list_all (good_line env) ls"
  shows "ops_of env (text_lines (log_text ls)) = ops_of env ls"
  using assms by (auto simp add: lines_log_text json_ok_def split: option.split)

definition saved_lines :: "recovery_env \<Rightarrow> operation \<Rightarrow> string list \<Rightarrow> string list" where
  "saved_lines env x ls =
     (case replace_line env x ls of Some ls' \<Rightarrow> ls' | None \<Rightarrow> ls @ [e_to_json env x])"

lemma saved_lines_ops:
  assumes "json_ok env"
  shows "ops_of env (saved_lines env x ls) = put_op x (ops_of env ls)"
proof (induction ls)
  case Nil
  then show ?case using assms by (simp add: saved_lines_def json_ok_def)
next
  case (Cons l ls)
  then show ?case
    using assms by (auto simp add: saved_lines_def json_ok_def split: option.splits)
qed

lemma saved_lines_good:
  "list_all (good_line env) ls \<Longrightarrow> list_all (good_line env) (saved_lines env x ls)"
  by (induction ls) (auto simp add: saved_lines_def good_line_def split: option.splits)

lemma save_operation_log: "dk_log (save_operation env x d) =
    Some (log_text (saved_lines env x (text_lines (log_content d))))"
  by (simp add: save_operation_def save_actions_def saved_lines_def Let_def)

lemma save_operation_ops:
  assumes "json_ok env" and "log_ok env d"
  shows "log_ok env (save_operation env x d)"
    and "log_ops env (save_operation env x d) = put_op x (log_ops env d)"
proof -
  have good: "list_all (good_line env) (saved_lines env x (text_lines (log_content d)))"
    by (rule saved_lines_good [OF good_lines [OF assms]])
  then show "log_ok env (save_operation env x d)"
    by (auto simp add: log_ok_def save_operation_log)
  show "log_ops env (save_operation env x d) = put_op x (log_ops env d)"
    using ops_of_log_text [OF assms(1) good] saved_lines_ops [OF assms(1)]
    by (simp add: log_ops_def log_content_def save_operation_log)
qed

lemma remove_operation_ops:
  assumes "json_ok env" and "log_ok env d"
  shows "log_ok env (remove_operation env i d)"
    and "log_ops env (remove_operation env i d) = filter (\<lambda>y. op_id y \<noteq> i) (log_ops env d)"
proof -
  let ?keep = "filter (keeps_line env i)"
  let ?ls = "text_lines (log_content d)"
  have good: "list_all (good_line env) (?keep ?ls)"
    using good_lines [OF assms] by (auto simp add: list_all_iff)
  have ops: "ops_of env (?keep ls) = filter (\<lambda>y. op_id y \<noteq> i) (ops_of env ls)" for ls
    using assms(1) by (induction ls) (auto simp add: json_ok_def keeps_line_def split: option.splits)
  show "log_ok env (remove_operation env i d)"
    using assms(2) good by (auto simp add: log_ok_def remove_operation_def remove_actions_def log_content_def
        split: option.splits)
  show "log_ops env (remove_operation env i d) = filter (\<lambda>y. op_id y \<noteq> i) (log_ops env d)"
    using ops_of_log_text [OF assms(1) good] ops
    by (auto simp add: log_ops_def log_content_def remove_operation_def remove_actions_def
        split: option.splits)
qed

lemma load_ops:
  assumes "json_ok env"
  shows "load_recovery_log env d = filter is_incomplete (log_ops env d)"
proof -
  have "List.map_filter (\<lambda>l. if is_blank l then None else e_from_json env l) ls = ops_of env ls" for ls
    using assms by (induction ls) (auto simp add: ops_of_def json_ok_def map_filter_simps split: option.splits)
  then show ?thesis
    by (auto simp add: load_recovery_log_def log_ops_def log_content_def split: option.split)
qed

interpretation recovery_log: simulation "log_step env" "\<lambda>d. json_ok env \<and> log_ok env d" abs_log_step "log_ops env"
  for env
proof
  fix d c
  assume "json_ok env \<and> log_ok env d"
  then show "json_ok env \<and> log_ok env (log_step env c d)"
    and "log_ops env (log_step env c d) = abs_log_step c (log_ops env d)"
    by (cases c; simp add: save_operation_ops remove_operation_ops)+
qed

lemma ids_put_op: "map op_id (put_op x xs) =
    (if op_id x \<in> set (map op_id xs) then map op_id xs else map op_id xs @ [op_id x])"
  by (induction xs) auto

lemma put_op_present:
  "distinct (map op_id xs) \<Longrightarrow> op_id x \<in> set (map op_id xs) \<Longrightarrow>
   put_op x xs = map (\<lambda>y. if op_id y = op_id x then x else y) xs"
proof (induction xs)
  case Nil
  then show ?case by simp
next
  case (Cons y ys)
  then show ?case
    by (cases "op_id y = op_id x") (auto intro!: map_idI [symmetric] simp add: image_iff)
qed

lemma abs_log_distinct: "distinct (map op_id xs) \<Longrightarrow> distinct (map op_id (fold abs_log_step cs xs))"
proof (induction cs arbitrary: xs)
  case Nil
  then show ?case by simp
next
  case (Cons c cs)
  have "distinct (map op_id (abs_log_step c xs))"
    using Cons.prems by (cases c) (simp_all add: ids_put_op distinct_map_filter del: set_map)
  then show ?case by (simp add: Cons.IH)
qed

section \<open>What the recovery at startup does\<close>

definition too_old :: "(string \<Rightarrow> date_time) \<Rightarrow> operation \<Rightarrow> bool" where
  "too_old now x \<longleftrightarrow> now (op_id x) - op_started_at x \<ge> 25 * (3600 * 10 ^ 9)"

lemma div_at_least:
  assumes "(h :: int) > 0"
  shows "t div h > 24 \<longleftrightarrow> t \<ge> 25 * h"
proof
  assume "t div h > 24"
  then have "25 * h \<le> t div h * h" using assms by (intro mult_right_mono) auto
  then show "t \<ge> 25 * h" using assms by (smt (verit) div_mult_mod_eq pos_mod_sign)
next
  assume "t \<ge> 25 * h"
  then have "25 * h div h \<le> t div h" using assms by (intro zdiv_mono1) auto
  then show "t div h > 24" using assms by simp
qed

lemma too_old_hours: "num_hours (now (op_id x) - op_started_at x) > 24 \<longleftrightarrow> too_old now x"
proof -
  define t :: int where "t = now (op_id x) - op_started_at x"
  have "sgn t * (\<bar>t\<bar> div 3600000000000) > 24 \<longleftrightarrow> t \<ge> 90000000000000"
  proof (cases "t \<ge> 0")
    case True
    have "t div 3600000000000 > 24 \<longleftrightarrow> t \<ge> 90000000000000" using div_at_least [of 3600000000000 t] by simp
    with True show ?thesis by (cases "t = 0") auto
  next
    case False
    have "\<bar>t\<bar> div 3600000000000 \<ge> 0" by simp
    with False show ?thesis by auto
  qed
  then show ?thesis by (simp add: num_hours_def too_old_def t_def)
qed

text \<open>Whether an operation is finished, has to be continued, or cannot be queued because its
  peer is unknown.\<close>

fun type_outcome :: "recovery_env \<Rightarrow> sync_db \<Rightarrow> operation_type \<Rightarrow> db_error + bool" where
  "type_outcome env db (Transfer peer fpath chunk tsize transferred) =
     (if transferred \<ge> tsize then Inr True
      else if e_foreign_keys (e_db env) \<and> \<not> has_peer peer db then Inl ForeignKeyViolation
      else Inr False)"
| "type_outcome env db (ManifestSync peer folder ours theirs) = Inr (ours = theirs)"
| "type_outcome env db (IndexUpdate folder processed total_files) = Inr (processed \<ge> total_files)"

definition recovered :: "recovery_env \<Rightarrow> (string \<Rightarrow> date_time) \<Rightarrow> sync_db \<Rightarrow> operation \<Rightarrow> operation" where
  "recovered env now db x =
     (if too_old now x then x
      else case type_outcome env db (op_type x) of
        Inr finished \<Rightarrow> x\<lparr>op_status := (if finished then Completed else InProgress)\<rparr>
      | Inl e \<Rightarrow> x\<lparr>op_retry_count := op_retry_count x + 1,
          op_error_message := Some (e_db_error_text env e),
          op_status := (if op_retry_count x + 1 < 3 then InProgress else Failed)\<rparr>)"

lemma recovery_result_recovered:
  "\<not> too_old now x \<Longrightarrow>
   recovery_result env (type_outcome env db (op_type x)) (x\<lparr>op_status := Recovering\<rparr>) = recovered env now db x"
  by (auto simp add: recovery_result_def recovered_def Let_def not_less split: sum.split bool.split)

definition ends_as ::
  "recovery_env \<Rightarrow> (string \<Rightarrow> date_time) \<Rightarrow> sync_db \<Rightarrow> operation_status \<Rightarrow> operation \<Rightarrow> bool" where
  "ends_as env now db s x \<longleftrightarrow> \<not> too_old now x \<and> op_status (recovered env now db x) = s"

lemma recovery_result_id [simp]: "op_id (recovery_result env r x) = op_id x"
  by (simp add: recovery_result_def Let_def split: sum.split bool.split)

lemma recovered_id [simp]: "op_id (recovered env now db x) = op_id x"
  by (simp add: recovered_def split: sum.split)

lemma type_outcome_cong:
  "(\<And>p. has_peer p db = has_peer p db') \<Longrightarrow> type_outcome env db t = type_outcome env db' t"
  by (cases t) simp_all

lemma recover_operation_outcome:
  assumes "db_ok (e_db env) db" and "recover_operation env now t db = (r, db')"
  shows "r = type_outcome env db t" and "db_ok (e_db env) db'" and "has_peer p db' = has_peer p db"
proof -
  have known: "has_peer peer db" if "e_foreign_keys (e_db env)"
      and "list_ex (same_transfer peer folder chunk) (db_pending db)" for peer folder chunk
    using that assms(1) by (auto simp add: db_ok_def list_ex_iff list_all_iff same_transfer_def)
  have keep: "db_ok (e_db env) d' \<and> has_peer q d' = has_peer q db"
    if "add_pending_transfer (e_db env) n peer folder fpath chunk pr db = Inr d'"
    for n peer folder fpath chunk pr d' q
    using that db_ok_add [OF assms(1) that] by (auto simp add: add_pending_transfer_def has_peer_def split: if_splits)
  show "r = type_outcome env db t"
    using assms(2) known
    by (cases t) (auto simp add: recover_transfer_operation_def add_pending_transfer_def split: if_splits sum.splits)
  show "db_ok (e_db env) db'" and "has_peer p db' = has_peer p db"
    using assms keep by (cases t; auto simp add: recover_transfer_operation_def split: if_splits sum.splits)+
qed

text \<open>What stays true while operations are recovered: the log can be read, its ids are distinct
  and the database knows the same peers.\<close>

definition recovering_ok :: "recovery_env \<Rightarrow> sync_db \<Rightarrow> recovery_manager \<Rightarrow> bool" where
  "recovering_ok env db m \<longleftrightarrow> log_ok env (rm_disk m) \<and> distinct (map op_id (log_ops env (rm_disk m))) \<and>
     db_ok (e_db env) (rm_database m) \<and> (\<forall>p. has_peer p (rm_database m) = has_peer p db)"

definition count_one ::
  "recovery_env \<Rightarrow> (string \<Rightarrow> date_time) \<Rightarrow> sync_db \<Rightarrow> operation \<Rightarrow> recovery_stats \<Rightarrow> recovery_stats" where
  "count_one env now db x st =
     (let st1 = st\<lparr>operations_recovered := operations_recovered st + 1\<rparr> in
      if too_old now x then st1\<lparr>operations_abandoned := operations_abandoned st1 + 1\<rparr>
      else count_result (op_status (recovered env now db x)) st1)"

lemma recover_one_outcome:
  assumes "json_ok env" and "recovering_ok env db m" and "x \<in> set (log_ops env (rm_disk m))"
    and "recover_one env now x (st, m) = (st', m')"
  shows "recovering_ok env db m'" and "st' = count_one env now db x st"
    and "log_ops env (rm_disk m') =
      map (\<lambda>y. if op_id y = op_id x then recovered env now db x else y) (log_ops env (rm_disk m))"
proof -
  let ?L = "log_ops env (rm_disk m)"
  have L: "log_ok env (rm_disk m)" "distinct (map op_id ?L)" "op_id x \<in> set (map op_id ?L)"
    using assms(2,3) by (auto simp add: recovering_ok_def)
  have same: "type_outcome env (rm_database m) t = type_outcome env db t" for t
    using assms(2) by (intro type_outcome_cong) (simp add: recovering_ok_def)
  have "recovering_ok env db m' \<and> st' = count_one env now db x st \<and> log_ops env (rm_disk m') =
      map (\<lambda>y. if op_id y = op_id x then recovered env now db x else y) ?L"
  proof (cases "too_old now x")
    case True
    then have x: "recovered env now db x = x" by (simp add: recovered_def)
    have "map (\<lambda>y. if op_id y = op_id x then x else y) ?L = ?L"
      using L(2) assms(3) by (intro map_idI) (auto simp add: distinct_map inj_on_def)
    with True assms(2,4) show ?thesis
      unfolding x by (auto simp add: recover_one_def count_one_def too_old_hours Let_def)
  next
    case False
    let ?y = "x\<lparr>op_status := Recovering\<rparr>"
    let ?d = "save_operation env ?y (rm_disk m)"
    obtain r db1 where r: "recover_operation env (now (op_id x)) (op_type x) (rm_database m) = (r, db1)"
      by fastforce
    have db: "r = type_outcome env db (op_type x)" "db_ok (e_db env) db1" "has_peer p db1 = has_peer p db" for p
      using recover_operation_outcome [OF _ r] assms(2) by (simp_all add: recovering_ok_def same)
    let ?z = "recovery_result env r ?y"
    have z: "?z = recovered env now db x" using False by (simp add: recovery_result_recovered db(1))
    have d: "log_ok env ?d" "log_ops env ?d = map (\<lambda>y. if op_id y = op_id x then ?y else y) ?L"
      using save_operation_ops [OF assms(1) L(1), of ?y] put_op_present [of ?L ?y] L(2,3) by simp_all
    then have ids: "map op_id (log_ops env ?d) = map op_id ?L" by auto
    have "log_ops env (save_operation env ?z ?d) =
        map (\<lambda>y. if op_id y = op_id x then ?z else y) (log_ops env ?d)"
      using save_operation_ops(2) [OF assms(1) d(1), of ?z] put_op_present [of "log_ops env ?d" ?z] L(2,3)
      unfolding ids by simp
    also have "\<dots> = map (\<lambda>y. if op_id y = op_id x then ?z else y) ?L" by (auto simp add: d(2))
    finally have log: "log_ops env (save_operation env ?z ?d) =
        map (\<lambda>y. if op_id y = op_id x then ?z else y) ?L" .
    then have "map op_id (log_ops env (save_operation env ?z ?d)) = map op_id ?L" by auto
    then have "distinct (map op_id (log_ops env (save_operation env ?z ?d)))" using L(2) by (simp only:)
    moreover have "log_ok env (save_operation env ?z ?d)" by (rule save_operation_ops(1) [OF assms(1) d(1)])
    moreover have m': "m' = m\<lparr>rm_disk := save_operation env ?z ?d, rm_database := db1\<rparr>"
        and "st' = count_one env now db x st"
      using assms(4) False z by (auto simp add: recover_one_def count_one_def too_old_hours Let_def r)
    ultimately have "recovering_ok env db m' \<and> st' = count_one env now db x st"
      using db(2,3) by (simp add: recovering_ok_def)
    with log z show ?thesis by (simp add: m')
  qed
  then show "recovering_ok env db m'" and "st' = count_one env now db x st"
    and "log_ops env (rm_disk m') = map (\<lambda>y. if op_id y = op_id x then recovered env now db x else y) ?L"
    by simp_all
qed

lemma recover_all_outcome:
  assumes "json_ok env" and "recovering_ok env db m" and "distinct (map op_id xs)"
    and "set xs \<subseteq> set (log_ops env (rm_disk m))" and "fold (recover_one env now) xs (st, m) = (st', m')"
  shows "recovering_ok env db m' \<and> st' = fold (count_one env now db) xs st \<and>
    log_ops env (rm_disk m') =
      map (\<lambda>y. if op_id y \<in> op_id ` set xs then recovered env now db y else y) (log_ops env (rm_disk m))"
  using assms(2-5)
proof (induction xs arbitrary: st m)
  case Nil
  then show ?case by simp
next
  case (Cons x xs)
  let ?L = "log_ops env (rm_disk m)"
  obtain st1 m1 where one: "recover_one env now x (st, m) = (st1, m1)" by fastforce
  have x: "x \<in> set ?L" using Cons.prems(3) by simp
  note o = recover_one_outcome [OF assms(1) Cons.prems(1) x one]
  have keep: "y = x" if "y \<in> set ?L" "op_id y = op_id x" for y
    using that x Cons.prems(1) by (auto simp add: recovering_ok_def distinct_map inj_on_def)
  have "set xs \<subseteq> set (log_ops env (rm_disk m1))"
  proof
    fix y
    assume y: "y \<in> set xs"
    then have "op_id y \<in> op_id ` set xs" by (rule imageI)
    then have "op_id y \<noteq> op_id x" using Cons.prems(2) by (metis distinct.simps(2) list.simps(9) set_map)
    moreover have "y \<in> set ?L" using y Cons.prems(3) by auto
    ultimately show "y \<in> set (log_ops env (rm_disk m1))" by (auto simp add: o(3) intro!: rev_image_eqI)
  qed
  then have "recovering_ok env db m' \<and> st' = fold (count_one env now db) xs st1 \<and>
      log_ops env (rm_disk m') =
        map (\<lambda>y. if op_id y \<in> op_id ` set xs then recovered env now db y else y) (log_ops env (rm_disk m1))"
    using Cons.IH [OF o(1)] Cons.prems(2,4) one by simp
  moreover have "map (\<lambda>y. if op_id y \<in> op_id ` set xs then recovered env now db y else y)
        (log_ops env (rm_disk m1)) =
      map (\<lambda>y. if op_id y \<in> op_id ` set (x # xs) then recovered env now db y else y) ?L"
    using Cons.prems(2) keep by (auto simp add: o(3))
  ultimately show ?case by (simp add: o(2))
qed

lemma count_all: 
  "operations_recovered (fold (count_one env now db) xs st) = operations_recovered st + length xs"
  "operations_abandoned (fold (count_one env now db) xs st) =
     operations_abandoned st + length (filter (too_old now) xs)"
  "operations_completed (fold (count_one env now db) xs st) =
     operations_completed st + length (filter (ends_as env now db Completed) xs)"
  "operations_failed (fold (count_one env now db) xs st) =
     operations_failed st + length (filter (ends_as env now db Failed) xs)"
  by (induction xs arbitrary: st) (auto simp add: count_one_def count_result_def ends_as_def Let_def)

text \<open>A log after any saves and removals, starting without a file.\<close>

definition no_log :: disk where
  "no_log = \<lparr>dk_log = None, dk_tmp = None\<rparr>"

lemma log_ops_no_log: "log_ok env no_log" "log_ops env no_log = []"
  by (simp_all add: no_log_def log_ok_def log_ops_def log_content_def)

lemma logged:
  assumes "json_ok env"
  shows "log_ok env (fold (log_step env) cs no_log)"
    and "log_ops env (fold (log_step env) cs no_log) = fold abs_log_step cs []"
    and "distinct (map op_id (log_ops env (fold (log_step env) cs no_log)))"
proof -
  have start: "json_ok env \<and> log_ok env no_log" using assms log_ops_no_log by simp
  show "log_ok env (fold (log_step env) cs no_log)"
    using recovery_log.inv_fold [OF start] by blast
  show ops: "log_ops env (fold (log_step env) cs no_log) = fold abs_log_step cs []"
    using recovery_log.abs_fold [OF start] by (simp add: log_ops_no_log)
  show "distinct (map op_id (log_ops env (fold (log_step env) cs no_log)))"
    unfolding ops by (rule abs_log_distinct) simp
qed

lemma marked_not_loaded:
  "op_id x \<notin> op_id ` set (filter is_incomplete
     (map (\<lambda>y. if op_id y = op_id x then x\<lparr>op_status := Recovering\<rparr> else y) xs))"
  by (induction xs) (auto simp add: is_incomplete_def)

section \<open>Properties\<close>

text \<open>C23: The recovery log implements a list of operations keyed by their ids: after any saves
  and removals, loading it returns the incomplete operations of the list in which each save
  replaced the operation of its id or appended it, and each removal dropped it.\<close>

theorem recovery_log_refines:
  assumes "json_ok env"
  shows "load_recovery_log env (fold (log_step env) cs no_log) =
    filter is_incomplete (fold abs_log_step cs [])"
  by (simp add: load_ops assms logged)

text \<open>C24: Recovery at startup handles exactly the incomplete operations of the log: one of 25
  hours or more stays as it is and is counted as abandoned, a finished one is completed, one whose
  transfer cannot be queued gets another retry and fails at the third, and every other one is
  in progress again; the rest of the log is unchanged, and the statistics count the outcomes.\<close>

theorem startup_recovery_outcome:
  assumes "json_ok env" and "db_ok (e_db env) db"
  shows "let d = fold (log_step env) cs no_log; xs = filter is_incomplete (log_ops env d);
      (st, m) = recover_on_startup env now (new_recovery_manager db d) in
    log_ops env (rm_disk m) =
      map (\<lambda>x. if is_incomplete x then recovered env now db x else x) (log_ops env d) \<and>
    operations_recovered st = length xs \<and>
    operations_abandoned st = length (filter (too_old now) xs) \<and>
    operations_completed st = length (filter (ends_as env now db Completed) xs) \<and>
    operations_failed st = length (filter (ends_as env now db Failed) xs)"
proof -
  let ?d = "fold (log_step env) cs no_log"
  let ?L = "log_ops env ?d" let ?xs = "filter is_incomplete (log_ops env ?d)"
  obtain st m where run: "recover_on_startup env now (new_recovery_manager db ?d) = (st, m)" by fastforce
  have L: "distinct (map op_id ?L)" by (rule logged(3) [OF assms(1)])
  have ok: "recovering_ok env db (new_recovery_manager db ?d)"
    using L assms(2) logged(1) [OF assms(1)] by (simp add: recovering_ok_def new_recovery_manager_def)
  have "map (\<lambda>y. if op_id y \<in> op_id ` set ?xs then recovered env now db y else y) ?L =
      map (\<lambda>x. if is_incomplete x then recovered env now db x else x) ?L"
    using L by (auto simp add: distinct_map inj_on_def)
  moreover have "fold (recover_one env now) ?xs (\<lparr>operations_recovered = 0, operations_completed = 0,
      operations_failed = 0, operations_abandoned = 0\<rparr>, new_recovery_manager db ?d) = (st, m)"
    using run by (simp add: recover_on_startup_def new_recovery_manager_def load_ops assms(1))
  from recover_all_outcome [OF assms(1) ok _ _ this]
  have "st = fold (count_one env now db) ?xs \<lparr>operations_recovered = 0, operations_completed = 0,
      operations_failed = 0, operations_abandoned = 0\<rparr>"
    and "log_ops env (rm_disk m) =
      map (\<lambda>y. if op_id y \<in> op_id ` set ?xs then recovered env now db y else y) ?L"
    using L by (simp_all add: distinct_map_filter new_recovery_manager_def)
  ultimately show ?thesis
    by (simp add: Let_def run count_all del: map_eq_conv)
qed

text \<open>A crash while an operation is being recovered loses it: from the write that marks it as
  being recovered until the write of its outcome, loading the log does not return it, so no
  later recovery handles it.\<close>

theorem crash_during_recovery_loses_operation:
  assumes "json_ok env" and "db_ok (e_db env) db"
    and "load_recovery_log env (fold (log_step env) cs no_log) = pre @ x # post"
  shows "let (st, m) = fold (recover_one env now) pre
        (st0, new_recovery_manager db (fold (log_step env) cs no_log)) in
    op_id x \<notin> op_id ` set (load_recovery_log env (save_operation env (x\<lparr>op_status := Recovering\<rparr>) (rm_disk m)))"
proof -
  let ?d = "fold (log_step env) cs no_log"
  let ?m = "new_recovery_manager db ?d"
  obtain st m where run: "fold (recover_one env now) pre (st0, ?m) = (st, m)" by fastforce
  have L: "distinct (map op_id (log_ops env ?d))" by (rule logged(3) [OF assms(1)])
  have ok: "recovering_ok env db ?m"
    using L assms(2) logged(1) [OF assms(1)] by (simp add: recovering_ok_def new_recovery_manager_def)
  have xs: "filter is_incomplete (log_ops env ?d) = pre @ x # post" using assms(1,3) by (simp add: load_ops)
  have "distinct (map op_id (pre @ x # post))" and "set (pre @ x # post) \<subseteq> set (log_ops env ?d)"
    unfolding xs [symmetric] using L by (auto simp add: distinct_map_filter)
  then have out: "recovering_ok env db m \<and> log_ops env (rm_disk m) =
      map (\<lambda>y. if op_id y \<in> op_id ` set pre then recovered env now db y else y) (log_ops env ?d)"
    using recover_all_outcome [OF assms(1) ok _ _ run] by (simp add: new_recovery_manager_def)
  then have ok_m: "recovering_ok env db m" by simp
  let ?y = "x\<lparr>op_status := Recovering\<rparr>"
  have "op_id x \<in> op_id ` set (log_ops env ?d)"
    using \<open>set (pre @ x # post) \<subseteq> set (log_ops env ?d)\<close> by auto
  moreover have "map op_id (log_ops env (rm_disk m)) = map op_id (log_ops env ?d)" using out by auto
  ultimately have "op_id x \<in> op_id ` set (log_ops env (rm_disk m))" by (metis set_map)
  then have "put_op ?y (log_ops env (rm_disk m)) =
      map (\<lambda>y. if op_id y = op_id ?y then ?y else y) (log_ops env (rm_disk m))"
    using ok_m by (intro put_op_present) (simp_all add: recovering_ok_def)
  moreover have "log_ops env (save_operation env ?y (rm_disk m)) = put_op ?y (log_ops env (rm_disk m))"
    using ok_m by (intro save_operation_ops(2) [OF assms(1)]) (simp add: recovering_ok_def)
  ultimately have "op_id x \<notin> op_id ` set (load_recovery_log env (save_operation env ?y (rm_disk m)))"
    using marked_not_loaded [of x "log_ops env (rm_disk m)"] by (simp only: load_ops [OF assms(1)]) simp
  then show ?thesis by (simp only: run Let_def prod.case not_False_eq_True)
qed

text \<open>Saving an operation is atomic: a crash at any point leaves the log as it was or as saved.
  Removing one is not: a crash in it can leave a log of which nothing is left.\<close>

theorem save_is_atomic_removal_is_not:
  "dk_log ` set (crash_disks (save_actions env x d) d) \<subseteq> {dk_log d, dk_log (save_operation env x d)} \<and>
   (dk_log d = None \<or> Some [] \<in> dk_log ` set (crash_disks (remove_actions env i d) d))"
proof -
  have "Some [] \<in> dk_log ` set (cut_action (WriteLog s) d)" for s
    by (auto simp add: image_iff intro!: bexI [of _ 0])
  then show ?thesis
    by (auto simp add: save_operation_def save_actions_def remove_actions_def Let_def split: option.split)
qed

section \<open>A concrete encoding\<close>

text \<open>An operation as a list of numbers, written in unary.\<close>

definition nats_text :: "nat list \<Rightarrow> string" where
  "nats_text ns = CHR ''{'' # concat (map (\<lambda>n. replicate n CHR ''a'' @ ''b'') ns)"

definition text_nats :: "string \<Rightarrow> nat list" where
  "text_nats s = map length (butlast (split_on CHR ''b'' (drop 1 s)))"

definition enc_string :: "string \<Rightarrow> nat list" where
  "enc_string s = length s # map of_char s"

definition dec_string :: "nat list \<Rightarrow> string \<times> nat list" where
  "dec_string ns = (map char_of (take (hd ns) (tl ns)), drop (hd ns) (tl ns))"

definition enc_int :: "int \<Rightarrow> nat list" where
  "enc_int t = [if t < 0 then 1 else 0, nat \<bar>t\<bar>]"

definition dec_int :: "nat list \<Rightarrow> int \<times> nat list" where
  "dec_int ns = ((if hd ns = 1 then - int (ns ! 1) else int (ns ! 1)), drop 2 ns)"

fun enc_type :: "operation_type \<Rightarrow> nat list" where
  "enc_type (Transfer a b c m n) = 0 # enc_string a @ enc_string b @ enc_string c @ [unat m, unat n]"
| "enc_type (ManifestSync a b c d) = 1 # enc_string a @ enc_string b @ enc_string c @ enc_string d"
| "enc_type (IndexUpdate a m n) = 2 # enc_string a @ [unat m, unat n]"

definition dec_type :: "nat list \<Rightarrow> operation_type \<times> nat list" where
  "dec_type ns = (let (a, r) = dec_string (tl ns) in
     if hd ns = 2 then (IndexUpdate a (word_of_nat (hd r)) (word_of_nat (r ! 1)), drop 2 r)
     else let (b, r) = dec_string r; (c, r) = dec_string r in
       if hd ns = 0 then (Transfer a b c (word_of_nat (hd r)) (word_of_nat (r ! 1)), drop 2 r)
       else let (d, r) = dec_string r in (ManifestSync a b c d, r))"

fun enc_status :: "operation_status \<Rightarrow> nat" where
  "enc_status InProgress = 0"
| "enc_status Completed = 1"
| "enc_status Failed = 2"
| "enc_status Interrupted = 3"
| "enc_status Recovering = 4"

definition dec_status :: "nat \<Rightarrow> operation_status" where
  "dec_status n = [InProgress, Completed, Failed, Interrupted, Recovering] ! n"

definition enc_operation :: "operation \<Rightarrow> nat list" where
  "enc_operation x = enc_string (op_id x) @ enc_type (op_type x) @ enc_int (op_started_at x) @
     enc_int (op_last_checkpoint x) @ [enc_status (op_status x), unat (op_retry_count x)] @
     (case op_error_message x of None \<Rightarrow> [0] | Some e \<Rightarrow> 1 # enc_string e)"

definition dec_operation :: "nat list \<Rightarrow> operation" where
  "dec_operation ns = (let (i, r) = dec_string ns; (t, r) = dec_type r; (a, r) = dec_int r;
     (b, r) = dec_int r in
     \<lparr>op_id = i, op_type = t, op_started_at = a, op_last_checkpoint = b,
      op_status = dec_status (hd r), op_retry_count = word_of_nat (r ! 1),
      op_error_message = (if r ! 2 = 0 then None else Some (fst (dec_string (drop 3 r))))\<rparr>)"

definition sample_recovery_env :: "bool \<Rightarrow> recovery_env" where
  "sample_recovery_env fk = \<lparr>e_to_json = (\<lambda>x. nats_text (enc_operation x)),
     e_from_json = (\<lambda>l. if take 1 l = ''{'' then Some (dec_operation (text_nats l)) else None),
     e_db_error_text = (\<lambda>_. ''Database error''), e_db = sample_db_env fk\<rparr>"

lemma dec_enc [simp]:
  "dec_string (enc_string s @ r) = (s, r)" "dec_int (enc_int t @ r) = (t, r)"
  "dec_status (enc_status st) = st"
  by (simp_all add: enc_string_def dec_string_def enc_int_def dec_int_def dec_status_def comp_def)
    (cases st; simp add: numeral_eq_Suc)

lemma dec_enc_type [simp]: "dec_type (enc_type y @ r) = (y, r)"
  by (cases y) (simp_all add: dec_type_def)

lemma dec_enc_operation: "dec_operation (enc_operation x) = x"
  by (cases x; cases "op_error_message x")
    (simp_all add: dec_operation_def enc_operation_def numeral_eq_Suc dec_enc(1) [of _ "[]", simplified])

lemma split_unary: "split_on CHR ''b'' (concat (map (\<lambda>n. replicate n CHR ''a'' @ ''b'') ns)) =
    map (\<lambda>n. replicate n CHR ''a'') ns @ [[]]"
  by (induction ns) (simp_all add: split_on_append)

lemma text_nats_text [simp]: "text_nats (nats_text ns) = ns"
  by (simp add: text_nats_def nats_text_def split_unary comp_def)

lemma nats_text_chars: "c \<in> set (nats_text ns) \<Longrightarrow> c \<in> {CHR ''{'', CHR ''a'', CHR ''b''}"
  by (auto simp add: nats_text_def split: if_splits)

lemma sample_json_ok: "json_ok (sample_recovery_env fk)"
proof -
  have "last (nats_text ns) \<in> {CHR ''{'', CHR ''a'', CHR ''b''}" for ns
  proof (rule nats_text_chars)
    have "nats_text ns \<noteq> []" by (simp add: nats_text_def)
    then show "last (nats_text ns) \<in> set (nats_text ns)" by (rule last_in_set)
  qed
  moreover have "carriage_return \<notin> {CHR ''{'', CHR ''a'', CHR ''b''}" by simp
  ultimately have cr: "last (nats_text ns) \<noteq> carriage_return" for ns by metis
  have brace: "\<not> is_blank (CHR ''{'' # l)" for l
    by (simp add: is_blank_def is_whitespace_def)
  have "take 1 l \<noteq> ''{''" if "is_blank l" for l
    using that brace by (cases l) auto
  moreover have "\<not> is_blank (nats_text ns)" "take 1 (nats_text ns) = ''{''" for ns
    using brace by (simp_all add: nats_text_def)
  moreover have "newline \<notin> set (nats_text ns)" for ns using nats_text_chars [of newline ns] by auto
  ultimately show ?thesis
    using cr by (simp add: json_ok_def sample_recovery_env_def dec_enc_operation)
qed

definition sample_operation :: operation where
  "sample_operation = \<lparr>op_id = ''op'', op_type = Transfer ''p'' ''f'' ''c'' 10 4, op_started_at = 0,
     op_last_checkpoint = 0, op_status = InProgress, op_retry_count = 2, op_error_message = None\<rparr>"

theorem recovery_log_refines_witness:
  "load_recovery_log (sample_recovery_env True) (fold (log_step (sample_recovery_env True))
      [Save sample_operation, Save (sample_operation\<lparr>op_id := ''x''\<rparr>), Remove ''op''] no_log) =
    filter is_incomplete (fold abs_log_step
      [Save sample_operation, Save (sample_operation\<lparr>op_id := ''x''\<rparr>), Remove ''op''] [])"
  by (rule recovery_log_refines [OF sample_json_ok])

lemma sample_db_ok: "db_ok (e_db (sample_recovery_env fk)) new_db"
  by (rule db_ok_new)

theorem startup_recovery_outcome_witness:
  "let d = fold (log_step (sample_recovery_env True)) [Save sample_operation] no_log;
      xs = filter is_incomplete (log_ops (sample_recovery_env True) d);
      (st, m) = recover_on_startup (sample_recovery_env True) (\<lambda>_. 5) (new_recovery_manager new_db d) in
    log_ops (sample_recovery_env True) (rm_disk m) =
      map (\<lambda>x. if is_incomplete x then recovered (sample_recovery_env True) (\<lambda>_. 5) new_db x else x)
        (log_ops (sample_recovery_env True) d) \<and>
    operations_recovered st = length xs \<and>
    operations_abandoned st = length (filter (too_old (\<lambda>_. 5)) xs) \<and>
    operations_completed st = length (filter (ends_as (sample_recovery_env True) (\<lambda>_. 5) new_db Completed) xs) \<and>
    operations_failed st = length (filter (ends_as (sample_recovery_env True) (\<lambda>_. 5) new_db Failed) xs)"
  by (rule startup_recovery_outcome [OF sample_json_ok sample_db_ok])

lemma sample_load:
  "load_recovery_log (sample_recovery_env True)
     (fold (log_step (sample_recovery_env True)) [Save sample_operation] no_log) = [] @ sample_operation # []"
  unfolding load_ops [OF sample_json_ok] logged(2) [OF sample_json_ok]
  by (simp add: is_incomplete_def sample_operation_def)

theorem crash_during_recovery_loses_operation_witness:
  "let (st, m) = fold (recover_one (sample_recovery_env True) (\<lambda>_. 5)) []
        (\<lparr>operations_recovered = 0, operations_completed = 0, operations_failed = 0,
           operations_abandoned = 0\<rparr>, new_recovery_manager new_db
          (fold (log_step (sample_recovery_env True)) [Save sample_operation] no_log)) in
    op_id sample_operation \<notin> op_id ` set (load_recovery_log (sample_recovery_env True)
      (save_operation (sample_recovery_env True) (sample_operation\<lparr>op_status := Recovering\<rparr>) (rm_disk m)))"
  by (rule crash_during_recovery_loses_operation [OF sample_json_ok sample_db_ok sample_load])

end
