(* ===== verification/Index_Db.thy ===== *)
theory Index_Db
  imports Manifest Machines
begin

text \<open>
  The SQLite database of the folder index (\<open>landro-index/src/database_pool.rs\<close>, with the entry
  types and the tables of \<open>database.rs\<close> and \<open>schema.rs\<close>): the tables files, chunks, manifests
  and manifest_files, and one operation per transaction.

  A row is a record and a table the list of its rows in insertion order; columns no statement
  reads (\<open>created_at\<close>, \<open>updated_at\<close>) and tables no statement touches are left out.  An INTEGER
  column holds a signed 64-bit integer, to which and from which \<open>as\<close> casts bit for bit.  An
  AUTOINCREMENT key is one more than the largest the table ever had.  A transaction that fails
  rolls back, so an error comes without a new state.  The connection pool itself (checking out,
  time-outs, joining the blocking task) is taken to succeed, and of an error wrapped from another
  part the text is left out.  Parameters are chrono's RFC 3339
  and serde's JSON of a list of strings.
\<close>

section \<open>Errors and rows\<close>

datatype sql_error = UniqueViolation | ConversionFailure | NoSuchColumn | StatementFailed string

datatype index_error =
    Database sql_error
  | IndexIo
  | Serialization string
  | SchemaVersionMismatch nat nat
  | ChunkerFailure
  | StorageFailure
  | InvalidFileType string
  | DatabaseFailure string

record file_entry =
  fe_path :: string
  fe_size :: u64
  fe_modified_at :: date_time
  fe_content_hash :: string
  fe_mode :: "u32 option"

record chunk_entry =
  ce_hash :: string
  ce_size :: u64
  ce_ref_count :: u64

record file_row =
  fl_id :: int
  fl_path :: string
  fl_size :: int
  fl_modified_at :: string
  fl_content_hash :: string
  fl_permissions :: "u32 option"

record chunk_row =
  ck_id :: int
  ck_hash :: string
  ck_size :: int
  ck_ref_count :: int

record manifest_row =
  mf_id :: int
  mf_device_id :: string
  mf_folder_path :: string
  mf_version :: int
  mf_manifest_hash :: string
  mf_file_count :: int
  mf_total_size :: int

record manifest_file_row =
  ml_manifest_id :: int
  ml_file_id :: int
  ml_chunk_list :: string

record index_db =
  ix_files :: "file_row list"
  ix_next_file :: int
  ix_chunks :: "chunk_row list"
  ix_next_chunk :: int
  ix_manifests :: "manifest_row list"
  ix_next_manifest :: int
  ix_links :: "manifest_file_row list"

record index_env =
  x_rfc3339 :: "date_time \<Rightarrow> string"
  x_parse_rfc3339 :: "string \<Rightarrow> date_time option"
  x_json :: "string list \<Rightarrow> string"
  x_parse_json :: "string \<Rightarrow> string list option"

definition new_index_db :: index_db where
  "new_index_db = \<lparr>ix_files = [], ix_next_file = 1, ix_chunks = [], ix_next_chunk = 1,
     ix_manifests = [], ix_next_manifest = 1, ix_links = []\<rparr>"

definition as_i64 :: "u64 \<Rightarrow> int" where
  "as_i64 v = sint v"

definition as_u64 :: "int \<Rightarrow> u64" where
  "as_u64 v = word_of_int v"

lemma as_u64_as_i64 [simp]: "as_u64 (as_i64 v) = v"
  by (simp add: as_u64_def as_i64_def)

section \<open>Files and chunks\<close>

text \<open>\<open>INSERT \<dots> ON CONFLICT(path) DO UPDATE \<dots> RETURNING id\<close>\<close>

definition put_file :: "index_env \<Rightarrow> file_entry \<Rightarrow> index_db \<Rightarrow> int \<times> index_db" where
  "put_file env f db =
     (let row = (\<lambda>i. \<lparr>fl_id = i, fl_path = fe_path f, fl_size = as_i64 (fe_size f),
        fl_modified_at = x_rfc3339 env (fe_modified_at f), fl_content_hash = fe_content_hash f,
        fl_permissions = fe_mode f\<rparr>) in
      case find (\<lambda>r. fl_path r = fe_path f) (ix_files db) of
        Some r \<Rightarrow> (fl_id r, db\<lparr>ix_files :=
          map (\<lambda>x. if fl_path x = fe_path f then row (fl_id x) else x) (ix_files db)\<rparr>)
      | None \<Rightarrow> (ix_next_file db, db\<lparr>ix_files := ix_files db @ [row (ix_next_file db)],
          ix_next_file := ix_next_file db + 1\<rparr>))"

definition upsert_file :: "index_env \<Rightarrow> file_entry \<Rightarrow> index_db \<Rightarrow> int \<times> index_db" where
  "upsert_file env f db = put_file env f db"

definition get_file_by_path :: "index_env \<Rightarrow> string \<Rightarrow> index_db \<Rightarrow> index_error + (int \<times> file_entry) option" where
  "get_file_by_path env p db =
     (case find (\<lambda>r. fl_path r = p) (ix_files db) of
        None \<Rightarrow> Inr None
      | Some r \<Rightarrow>
          (case x_parse_rfc3339 env (fl_modified_at r) of
             None \<Rightarrow> Inl (Database ConversionFailure)
           | Some t \<Rightarrow> Inr (Some (fl_id r, \<lparr>fe_path = fl_path r, fe_size = as_u64 (fl_size r),
               fe_modified_at = t, fe_content_hash = fl_content_hash r, fe_mode = fl_permissions r\<rparr>))))"

text \<open>The reference count of the entry is not used: a new row starts with one.\<close>

definition upsert_chunk :: "chunk_entry \<Rightarrow> index_db \<Rightarrow> int \<times> index_db" where
  "upsert_chunk c db =
     (case find (\<lambda>r. ck_hash r = ce_hash c) (ix_chunks db) of
        Some r \<Rightarrow> (ck_id r, db\<lparr>ix_chunks :=
          map (\<lambda>x. if ck_hash x = ce_hash c then x\<lparr>ck_ref_count := ck_ref_count x + 1\<rparr> else x)
            (ix_chunks db)\<rparr>)
      | None \<Rightarrow> (ix_next_chunk db, db\<lparr>ix_chunks := ix_chunks db @
            [\<lparr>ck_id = ix_next_chunk db, ck_hash = ce_hash c, ck_size = as_i64 (ce_size c), ck_ref_count = 1\<rparr>],
          ix_next_chunk := ix_next_chunk db + 1\<rparr>))"

section \<open>Manifests\<close>

definition manifests_of :: "string \<Rightarrow> string \<Rightarrow> index_db \<Rightarrow> manifest_row list" where
  "manifests_of device folder db =
     filter (\<lambda>r. mf_device_id r = device \<and> mf_folder_path r = folder) (ix_manifests db)"

definition get_latest_manifest_version :: "string \<Rightarrow> string \<Rightarrow> index_db \<Rightarrow> u64 option" where
  "get_latest_manifest_version device folder db =
     (case map mf_version (manifests_of device folder db) of
        [] \<Rightarrow> None
      | v # vs \<Rightarrow> Some (as_u64 (fold max vs v)))"

text \<open>The table's UNIQUE(device_id, folder_path, version).\<close>

definition insert_manifest :: "manifest \<Rightarrow> index_db \<Rightarrow> index_error + (int \<times> index_db)" where
  "insert_manifest m db =
     (if as_i64 (version m) \<in> set (map mf_version (manifests_of (folder_id m) ''/'' db))
      then Inl (Database UniqueViolation)
      else Inr (ix_next_manifest db, db\<lparr>ix_manifests := ix_manifests db @
          [\<lparr>mf_id = ix_next_manifest db, mf_device_id = folder_id m, mf_folder_path = ''/'',
            mf_version = as_i64 (version m),
            mf_manifest_hash = (case manifest_hash m of None \<Rightarrow> [] | Some h \<Rightarrow> h),
            mf_file_count = int (file_count m), mf_total_size = as_i64 (total_size m)\<rparr>],
        ix_next_manifest := ix_next_manifest db + 1\<rparr>))"

definition entry_of :: "manifest_entry \<Rightarrow> file_entry" where
  "entry_of e = \<lparr>fe_path = path e, fe_size = file_size e, fe_modified_at = modified_at e,
     fe_content_hash = content_hash e, fe_mode = mode e\<rparr>"

text \<open>The table's PRIMARY KEY (manifest_id, file_id).\<close>

definition insert_link :: "manifest_file_row \<Rightarrow> index_db \<Rightarrow> index_error + index_db" where
  "insert_link l db =
     (if list_ex (\<lambda>x. ml_manifest_id x = ml_manifest_id l \<and> ml_file_id x = ml_file_id l) (ix_links db)
      then Inl (Database UniqueViolation)
      else Inr (db\<lparr>ix_links := ix_links db @ [l]\<rparr>))"

fun save_entries :: "index_env \<Rightarrow> int \<Rightarrow> manifest_entry list \<Rightarrow> index_db \<Rightarrow> index_error + index_db" where
  "save_entries env i [] db = Inr db"
| "save_entries env i (e # es) db =
     (let (j, db1) = put_file env (entry_of e) db in
      and_then (insert_link \<lparr>ml_manifest_id = i, ml_file_id = j, ml_chunk_list = x_json env (chunk_hashes e)\<rparr> db1)
        (save_entries env i es))"

definition save_manifest :: "index_env \<Rightarrow> manifest \<Rightarrow> index_db \<Rightarrow> index_error + (int \<times> index_db)" where
  "save_manifest env m db =
     and_then (insert_manifest m db) (\<lambda>(i, db1).
     and_then (save_entries env i (files m) db1) (\<lambda>db2. Inr (i, db2)))"

text \<open>\<open>ORDER BY version DESC LIMIT 1\<close>; versions do not repeat.\<close>

definition latest_row :: "manifest_row list \<Rightarrow> manifest_row option" where
  "latest_row rs =
     (case rs of [] \<Rightarrow> None
      | r # rs \<Rightarrow> Some (fold (\<lambda>x y. if mf_version y < mf_version x then x else y) rs r))"

definition load_entry :: "index_env \<Rightarrow> date_time \<Rightarrow> file_row \<times> manifest_file_row \<Rightarrow> index_error + manifest_entry" where
  "load_entry env now = (\<lambda>(f, l).
     case x_parse_json env (ml_chunk_list l) of
       None \<Rightarrow> Inl (Database ConversionFailure)
     | Some hs \<Rightarrow> Inr \<lparr>path = fl_path f, file_size = as_u64 (fl_size f), modified_at = now,
         content_hash = fl_content_hash f, chunk_hashes = hs, mode = fl_permissions f\<rparr>)"

fun load_entries :: "index_env \<Rightarrow> (date_time \<times> file_row \<times> manifest_file_row) list \<Rightarrow>
    index_error + manifest_entry list" where
  "load_entries env [] = Inr []"
| "load_entries env ((now, r) # rs) =
     and_then (load_entry env now r) (\<lambda>e. and_then (load_entries env rs) (\<lambda>es. Inr (e # es)))"

text \<open>The join of the manifest's links with the files, in the order of the paths.\<close>

definition manifest_files :: "int \<Rightarrow> index_db \<Rightarrow> (file_row \<times> manifest_file_row) list" where
  "manifest_files i db = sort_key (\<lambda>(f, l). fl_path f)
     [(f, l). l \<leftarrow> ix_links db, ml_manifest_id l = i, f \<leftarrow> ix_files db, fl_id f = ml_file_id l]"

text \<open>\<open>clock n\<close> is the time of the \<open>n\<close>-th reading: of the manifest, then of each entry.\<close>

definition get_latest_manifest ::
  "index_env \<Rightarrow> (nat \<Rightarrow> date_time) \<Rightarrow> string \<Rightarrow> string \<Rightarrow> index_db \<Rightarrow> index_error + manifest option" where
  "get_latest_manifest env clock device folder db =
     (case latest_row (manifests_of device folder db) of
        None \<Rightarrow> Inr None
      | Some r \<Rightarrow>
          let rows = manifest_files (mf_id r) db in
          and_then (load_entries env (zip (map clock [1..<Suc (length rows)]) rows)) (\<lambda>es.
            Inr (Some \<lparr>folder_id = mf_device_id r, version = as_u64 (mf_version r), files = es,
              created_at = clock 0,
              manifest_hash = (if mf_manifest_hash r = [] then None else Some (mf_manifest_hash r))\<rparr>)))"

section \<open>What the schema promises\<close>

text \<open>Primary keys and UNIQUE columns do not repeat, generated keys are below the next one, and
  foreign keys refer to rows.\<close>

definition index_ok :: "index_db \<Rightarrow> bool" where
  "index_ok db \<longleftrightarrow>
     distinct (map fl_id (ix_files db)) \<and> distinct (map fl_path (ix_files db)) \<and>
     list_all (\<lambda>r. 0 < fl_id r \<and> fl_id r < ix_next_file db) (ix_files db) \<and>
     distinct (map ck_id (ix_chunks db)) \<and> distinct (map ck_hash (ix_chunks db)) \<and>
     list_all (\<lambda>r. 0 < ck_id r \<and> ck_id r < ix_next_chunk db \<and> 0 < ck_ref_count r) (ix_chunks db) \<and>
     distinct (map mf_id (ix_manifests db)) \<and>
     distinct (map (\<lambda>r. (mf_device_id r, mf_folder_path r, mf_version r)) (ix_manifests db)) \<and>
     list_all (\<lambda>r. 0 < mf_id r \<and> mf_id r < ix_next_manifest db) (ix_manifests db) \<and>
     distinct (map (\<lambda>l. (ml_manifest_id l, ml_file_id l)) (ix_links db)) \<and>
     list_all (\<lambda>l. ml_manifest_id l \<in> set (map mf_id (ix_manifests db)) \<and>
       ml_file_id l \<in> set (map fl_id (ix_files db))) (ix_links db) \<and>
     0 < ix_next_file db \<and> 0 < ix_next_chunk db \<and> 0 < ix_next_manifest db"

lemma index_ok_new: "index_ok new_index_db"
  by (simp add: index_ok_def new_index_db_def)

definition file_at :: "string \<Rightarrow> index_db \<Rightarrow> file_row option" where
  "file_at p db = find (\<lambda>r. fl_path r = p) (ix_files db)"

definition row_of :: "index_env \<Rightarrow> file_entry \<Rightarrow> int \<Rightarrow> file_row" where
  "row_of env f i = \<lparr>fl_id = i, fl_path = fe_path f, fl_size = as_i64 (fe_size f),
     fl_modified_at = x_rfc3339 env (fe_modified_at f), fl_content_hash = fe_content_hash f,
     fl_permissions = fe_mode f\<rparr>"

lemma file_at_SomeD: "file_at p db = Some r \<Longrightarrow> r \<in> set (ix_files db) \<and> fl_path r = p"
  using find_SomeD by (fastforce simp add: file_at_def)

lemma file_at_NoneD: "file_at p db = None \<Longrightarrow> p \<notin> fl_path ` set (ix_files db)"
  by (auto simp add: file_at_def find_None_iff)

lemma put_file_cases:
  obtains (old) r where "file_at (fe_path f) db = Some r" "put_file env f db = (fl_id r, db\<lparr>ix_files :=
      map (\<lambda>x. if fl_path x = fe_path f then row_of env f (fl_id x) else x) (ix_files db)\<rparr>)"
    | (fresh) "file_at (fe_path f) db = None" "put_file env f db = (ix_next_file db,
        db\<lparr>ix_files := ix_files db @ [row_of env f (ix_next_file db)], ix_next_file := ix_next_file db + 1\<rparr>)"
  by (cases "file_at (fe_path f) db") (auto simp add: put_file_def file_at_def row_of_def Let_def)

lemma row_of_simps [simp]: "fl_id (row_of env f i) = i" "fl_path (row_of env f i) = fe_path f"
  by (simp_all add: row_of_def)

lemma find_append: "find P (xs @ ys) = (case find P xs of None \<Rightarrow> find P ys | Some x \<Rightarrow> Some x)"
  by (induction xs) auto

lemma file_at_put: "file_at q (snd (put_file env f db)) =
    (if q = fe_path f then Some (row_of env f (fst (put_file env f db))) else file_at q db)"
proof (cases rule: put_file_cases [of f db env])
  case (old r)
  have "find (\<lambda>x. fl_path x = q) (map (\<lambda>x. if fl_path x = fe_path f then row_of env f (fl_id x) else x) xs) =
      (if q = fe_path f then map_option (\<lambda>x. row_of env f (fl_id x)) (find (\<lambda>x. fl_path x = q) xs)
       else find (\<lambda>x. fl_path x = q) xs)" for xs
    by (induction xs) auto
  with old show ?thesis by (simp add: file_at_def)
next
  case fresh
  then show ?thesis by (auto simp add: file_at_def find_append split: option.splits)
qed

text \<open>An upsert keeps the rows' keys, or adds one with a new key.\<close>

lemma put_file_keys:
  assumes "put_file env f db = (i, db')"
  shows "ix_links db' = ix_links db" "ix_manifests db' = ix_manifests db"
    "ix_chunks db' = ix_chunks db" "ix_next_chunk db' = ix_next_chunk db"
    "ix_next_manifest db' = ix_next_manifest db"
    "set (map fl_id (ix_files db')) = insert i (set (map fl_id (ix_files db)))"
    "file_at (fe_path f) db' = Some (row_of env f i)"
proof -
  have keep: "map (fl_id \<circ> (\<lambda>x. if fl_path x = fe_path f then row_of env f (fl_id x) else x)) xs = map fl_id xs" for xs
    by (induction xs) auto
  show "ix_links db' = ix_links db" "ix_manifests db' = ix_manifests db"
    "ix_chunks db' = ix_chunks db" "ix_next_chunk db' = ix_next_chunk db"
    "ix_next_manifest db' = ix_next_manifest db"
    "set (map fl_id (ix_files db')) = insert i (set (map fl_id (ix_files db)))"
    using assms file_at_SomeD [of "fe_path f" db] arg_cong [OF keep [of "ix_files db"], of set]
    by (cases rule: put_file_cases [of f db env]; force)+
  show "file_at (fe_path f) db' = Some (row_of env f i)"
    using file_at_put [of "fe_path f" env f db] assms by simp
qed

lemma updated_keys [simp]:
  "fl_id \<circ> (\<lambda>x. if fl_path x = fe_path f then row_of env f (fl_id x) else x) = fl_id"
  "fl_path \<circ> (\<lambda>x. if fl_path x = fe_path f then row_of env f (fl_id x) else x) = fl_path"
  by (rule ext; simp)+

lemma counted_keys [simp]:
  "ck_id \<circ> (\<lambda>x. if ck_hash x = h then x\<lparr>ck_ref_count := n x\<rparr> else x) = ck_id"
  "ck_hash \<circ> (\<lambda>x. if ck_hash x = h then x\<lparr>ck_ref_count := n x\<rparr> else x) = ck_hash"
  by (rule ext; simp)+

lemma index_ok_put_file:
  assumes "index_ok db"
  shows "index_ok (snd (put_file env f db))"
proof (cases rule: put_file_cases [of f db env])
  case (old r)
  show ?thesis using assms old by (auto simp add: index_ok_def list_all_iff)
next
  case fresh
  then have "fe_path f \<notin> fl_path ` set (ix_files db)" by (intro file_at_NoneD)
  then show ?thesis
    using assms fresh by (auto simp add: index_ok_def list_all_iff dest: less_imp_neq; fastforce)
qed

lemma index_ok_upsert_chunk:
  assumes "index_ok db"
  shows "index_ok (snd (upsert_chunk c db))"
proof (cases "find (\<lambda>r. ck_hash r = ce_hash c) (ix_chunks db)")
  case None
  then have "ce_hash c \<notin> ck_hash ` set (ix_chunks db)" by (auto simp add: find_None_iff)
  then show ?thesis
    using assms None by (auto simp add: index_ok_def upsert_chunk_def list_all_iff dest: less_imp_neq; fastforce)
next
  case (Some r)
  then show ?thesis using assms by (auto simp add: index_ok_def upsert_chunk_def list_all_iff)
qed

text \<open>The row that saving manifest \<open>m\<close> under key \<open>i\<close> adds.\<close>

definition manifest_row_of :: "manifest \<Rightarrow> int \<Rightarrow> manifest_row" where
  "manifest_row_of m i = \<lparr>mf_id = i, mf_device_id = folder_id m, mf_folder_path = ''/'',
     mf_version = as_i64 (version m),
     mf_manifest_hash = (case manifest_hash m of None \<Rightarrow> [] | Some h \<Rightarrow> h),
     mf_file_count = int (file_count m), mf_total_size = as_i64 (total_size m)\<rparr>"

lemma index_ok_insert_manifest:
  assumes "index_ok db" and "insert_manifest m db = Inr (i, db')"
  shows "index_ok db'" and "i = ix_next_manifest db" and "i \<in> set (map mf_id (ix_manifests db'))"
    and "ix_links db' = ix_links db" and "ix_files db' = ix_files db"
    and "ix_manifests db' = ix_manifests db @ [manifest_row_of m i]"
proof -
  show "index_ok db'"
    using assms unfolding index_ok_def
    by (auto simp add: insert_manifest_def list_all_iff manifests_of_def split: if_splits; fastforce)
qed (use assms(2) in \<open>auto simp add: insert_manifest_def manifest_row_of_def split: if_splits\<close>)

lemma index_ok_insert_link:
  assumes "index_ok db" and "insert_link l db = Inr db'"
    and "ml_manifest_id l \<in> set (map mf_id (ix_manifests db))" and "ml_file_id l \<in> set (map fl_id (ix_files db))"
  shows "index_ok db'"
  using assms unfolding index_ok_def
  by (auto simp add: insert_link_def list_all_iff list_ex_iff split: if_splits; fastforce)

lemma insert_link_keeps:
  "insert_link l db = Inr db' \<Longrightarrow> db' = db\<lparr>ix_links := ix_links db @ [l]\<rparr>"
  by (simp add: insert_link_def split: if_splits)

lemma index_ok_save_entries:
  assumes "index_ok db" and "i \<in> set (map mf_id (ix_manifests db))" and "save_entries env i es db = Inr db'"
  shows "index_ok db'"
  using assms
proof (induction es arbitrary: db)
  case Nil
  then show ?case by simp
next
  case (Cons e es)
  obtain j db1 where p: "put_file env (entry_of e) db = (j, db1)" by fastforce
  then obtain db2 where l: "insert_link \<lparr>ml_manifest_id = i, ml_file_id = j, ml_chunk_list = x_json env (chunk_hashes e)\<rparr> db1 = Inr db2"
    and r: "save_entries env i es db2 = Inr db'"
    using Cons.prems(3) by (auto simp add: and_then_Inr_iff)
  have "index_ok db1" using index_ok_put_file [OF Cons.prems(1), of env "entry_of e"] p by simp
  then have "index_ok db2"
    by (rule index_ok_insert_link [OF _ l]) (use put_file_keys [OF p] Cons.prems(2) in simp_all)
  moreover have "i \<in> set (map mf_id (ix_manifests db2))"
    using put_file_keys(2) [OF p] insert_link_keeps [OF l] Cons.prems(2) by simp
  ultimately show ?case by (rule Cons.IH [OF _ _ r])
qed

lemma index_ok_save_manifest:
  "index_ok db \<Longrightarrow> save_manifest env m db = Inr (i, db') \<Longrightarrow> index_ok db'"
  by (auto simp add: save_manifest_def and_then_Inr_iff
      intro: index_ok_save_entries index_ok_insert_manifest)

section \<open>The database as a machine\<close>

datatype index_op = UpsertFile file_entry | UpsertChunk chunk_entry | SaveManifest manifest

fun index_step :: "index_env \<Rightarrow> index_op \<Rightarrow> index_db \<Rightarrow> index_db" where
  "index_step env (UpsertFile f) db = snd (upsert_file env f db)"
| "index_step env (UpsertChunk c) db = snd (upsert_chunk c db)"
| "index_step env (SaveManifest m) db = (case save_manifest env m db of Inl _ \<Rightarrow> db | Inr (_, db1) \<Rightarrow> db1)"

interpretation index_machine: machine "index_step env" index_ok for env
proof
  fix db op
  assume "index_ok db"
  then show "index_ok (index_step env op db)"
    by (cases op) (auto simp add: upsert_file_def intro: index_ok_put_file index_ok_upsert_chunk
        index_ok_save_manifest split: sum.splits)
qed

section \<open>What is loaded after saving\<close>

definition json_ok :: "index_env \<Rightarrow> bool" where
  "json_ok env \<longleftrightarrow> (\<forall>hs. x_parse_json env (x_json env hs) = Some hs)"

text \<open>The row a link of entry \<open>e\<close> joins with.\<close>

definition saved_link :: "index_env \<Rightarrow> int \<Rightarrow> index_db \<Rightarrow> manifest_entry \<Rightarrow> manifest_file_row" where
  "saved_link env i db e = \<lparr>ml_manifest_id = i, ml_file_id = fl_id (the (file_at (path e) db)),
     ml_chunk_list = x_json env (chunk_hashes e)\<rparr>"

lemma upsert_file_id:
  assumes "file_at (fe_path f) db = Some r"
  shows "fst (put_file env f db) = fl_id r"
  using assms by (cases rule: put_file_cases [of f db env]) auto

lemma save_entries_result:
  assumes "distinct (map path es)" and "save_entries env i es db = Inr db'"
  shows "ix_links db' = ix_links db @ map (saved_link env i db') es \<and>
    (\<forall>q. case find (\<lambda>e. path e = q) es of
       None \<Rightarrow> file_at q db' = file_at q db
     | Some e \<Rightarrow> \<exists>j. file_at q db' = Some (row_of env (entry_of e) j))"
  using assms
proof (induction es arbitrary: db)
  case Nil
  then show ?case by simp
next
  case (Cons e es)
  obtain j db1 where p: "put_file env (entry_of e) db = (j, db1)" by fastforce
  then obtain db2 where l: "insert_link \<lparr>ml_manifest_id = i, ml_file_id = j, ml_chunk_list = x_json env (chunk_hashes e)\<rparr> db1 = Inr db2"
    and r: "save_entries env i es db2 = Inr db'"
    using Cons.prems(2) by (auto simp add: and_then_Inr_iff)
  have links: "ix_links db2 = ix_links db @ [\<lparr>ml_manifest_id = i, ml_file_id = j, ml_chunk_list = x_json env (chunk_hashes e)\<rparr>]"
    and files2: "ix_files db2 = ix_files db1"
    using insert_link_keeps [OF l] put_file_keys(1) [OF p] by simp_all
  have at2: "file_at q db2 = (if q = path e then Some (row_of env (entry_of e) j) else file_at q db)" for q
    using file_at_put [of q env "entry_of e" db] p files2 by (simp add: entry_of_def file_at_def)
  note ih = Cons.IH [OF _ r]
  have no: "find (\<lambda>x. path x = path e) es = None" using Cons.prems(1) by (simp add: find_None_iff) (metis image_eqI)
  have d: "distinct (map path es)" using Cons.prems(1) by simp
  have e: "file_at (path e) db' = Some (row_of env (entry_of e) j)"
    using conjunct2 [OF ih [OF d], rule_format, of "path e"] no at2 [of "path e"] by simp
  have "case find (\<lambda>x. path x = q) (e # es) of None \<Rightarrow> file_at q db' = file_at q db
      | Some x \<Rightarrow> \<exists>j. file_at q db' = Some (row_of env (entry_of x) j)" for q
    using conjunct2 [OF ih [OF d], rule_format, of q] at2 [of q] e by (auto split: option.splits)
  moreover have "saved_link env i db' e = \<lparr>ml_manifest_id = i, ml_file_id = j, ml_chunk_list = x_json env (chunk_hashes e)\<rparr>"
    by (simp add: saved_link_def e)
  ultimately show ?case using ih [OF d] links by simp
qed

text \<open>Upserts of files do not touch the links, and the last one of a path decides its row.\<close>

definition upserts :: "index_env \<Rightarrow> file_entry list \<Rightarrow> index_db \<Rightarrow> index_db" where
  "upserts env fs db = fold (\<lambda>f db. snd (upsert_file env f db)) fs db"

definition current :: "manifest_entry \<Rightarrow> file_entry list \<Rightarrow> file_entry" where
  "current e fs = last (entry_of e # filter (\<lambda>f. fe_path f = path e) fs)"

lemma upserts_keep:
  "index_ok db \<Longrightarrow> index_ok (upserts env fs db) \<and> ix_links (upserts env fs db) = ix_links db \<and>
     ix_manifests (upserts env fs db) = ix_manifests db"
proof (induction fs arbitrary: db)
  case Nil
  then show ?case by (simp add: upserts_def)
next
  case (Cons f fs)
  obtain j db1 where "put_file env f db = (j, db1)" by fastforce
  with Cons.IH [of db1] index_ok_put_file [OF Cons.prems, of env f] put_file_keys [of env f db j db1]
  show ?case by (simp add: upserts_def upsert_file_def)
qed

lemma upserts_file_at:
  assumes "file_at q db = Some (row_of env u i)" and "fe_path u = q"
  shows "file_at q (upserts env fs db) = Some (row_of env (last (u # filter (\<lambda>f. fe_path f = q) fs)) i)"
  using assms
proof (induction fs arbitrary: db u)
  case Nil
  then show ?case by (simp add: upserts_def)
next
  case (Cons f fs)
  let ?db1 = "snd (put_file env f db)"
  have "file_at q ?db1 = (if fe_path f = q then Some (row_of env f i) else Some (row_of env u i))"
    using Cons.prems(1) upsert_file_id [of f db "row_of env u i" env] by (simp add: file_at_put)
  then show ?case
    using Cons.IH [of ?db1] Cons.prems(2) by (auto simp add: upserts_def upsert_file_def)
qed

section \<open>The join\<close>

lemma sort_key_map: "sort_key f (map g xs) = map g (sort_key (\<lambda>x. f (g x)) xs)"
proof (induction xs)
  case Nil
  then show ?case by simp
next
  case (Cons x xs)
  have "insort_key f (g x) (map g ys) = map g (insort_key (\<lambda>x. f (g x)) x ys)" for ys
    by (induction ys) auto
  with Cons show ?case by simp
qed

lemma sort_key_eqI: "(\<And>x. x \<in> set xs \<Longrightarrow> f x = g x) \<Longrightarrow> sort_key f xs = sort_key g xs"
proof (induction xs)
  case Nil
  then show ?case by simp
next
  case (Cons x xs)
  have "insort_key f x ys = insort_key g x ys" if "\<And>y. y \<in> insert x (set ys) \<Longrightarrow> f y = g y" for ys
    using that by (induction ys) auto
  from this [of "sort_key g xs"] Cons show ?case by simp
qed

lemma filter_unique:
  "distinct (map f xs) \<Longrightarrow> x \<in> set xs \<Longrightarrow> filter (\<lambda>y. f y = f x) xs = [x]"
  by (induction xs) (auto simp add: filter_empty_conv image_iff)

lemma join_rows:
  assumes "\<And>e. e \<in> set es \<Longrightarrow> r e \<in> set fs \<and> fl_id (r e) = ml_file_id (l e)" and "distinct (map fl_id fs)"
  shows "[(f, x). x \<leftarrow> map l es, f \<leftarrow> fs, fl_id f = ml_file_id x] = map (\<lambda>e. (r e, l e)) es"
  using assms(1)
proof (induction es)
  case Nil
  then show ?case by simp
next
  case (Cons e es)
  have "r e \<in> set fs" "fl_id (r e) = ml_file_id (l e)" using Cons.prems by simp_all
  with filter_unique [OF assms(2), of "r e"] have "filter (\<lambda>f. fl_id f = ml_file_id (l e)) fs = [r e]" by simp
  moreover have "concat (map (\<lambda>f. if fl_id f = ml_file_id (l e) then [(f, l e)] else []) fs) =
      map (\<lambda>f. (f, l e)) (filter (\<lambda>f. fl_id f = ml_file_id (l e)) fs)"
    by (induction fs) auto
  ultimately show ?case using Cons by simp
qed

lemma join_filter:
  "[(f, x). x \<leftarrow> ls, P x, f \<leftarrow> fs, fl_id f = ml_file_id x] =
     [(f, x). x \<leftarrow> filter P ls, f \<leftarrow> fs, fl_id f = ml_file_id x]"
  by (induction ls) auto

lemma current_path [simp]: "fe_path (current e us) = path e"
proof (cases "filter (\<lambda>f. fe_path f = path e) us" rule: rev_cases)
  case (snoc ys y)
  then have "y \<in> set (filter (\<lambda>f. fe_path f = path e) us)" by simp
  then have "fe_path y = path e" by simp
  with snoc show ?thesis by (simp add: current_def)
qed (simp add: current_def entry_of_def)

text \<open>An entry as it is loaded at time \<open>t\<close> when the files \<open>us\<close> were upserted after it was saved.\<close>

definition loaded :: "file_entry list \<Rightarrow> date_time \<Rightarrow> manifest_entry \<Rightarrow> manifest_entry" where
  "loaded us t e = e\<lparr>file_size := fe_size (current e us), modified_at := t,
     content_hash := fe_content_hash (current e us), mode := fe_mode (current e us)\<rparr>"

lemma load_entries_loaded:
  assumes "json_ok env" and "length ts = length es"
  shows "load_entries env (zip ts (map (\<lambda>e. (row_of env (current e us) (j e), saved_link env i db e)) es)) =
    Inr (map2 (loaded us) ts es)"
  using assms(2)
proof (induction ts es rule: list_induct2)
  case (Cons t ts e es)
  have "load_entry env t (row_of env (current e us) (j e), saved_link env i db e) = Inr (loaded us t e)"
    using assms(1) by (simp add: load_entry_def saved_link_def json_ok_def row_of_def loaded_def)
  with Cons show ?case by simp
qed simp

lemma find_distinct_key: "distinct (map f xs) \<Longrightarrow> x \<in> set xs \<Longrightarrow> find (\<lambda>y. f y = f x) xs = Some x"
  by (induction xs) (auto simp add: image_iff)

lemma save_entries_manifests: "save_entries env i es db = Inr db' \<Longrightarrow> ix_manifests db' = ix_manifests db"
proof (induction es arbitrary: db)
  case Nil
  then show ?case by simp
next
  case (Cons e es)
  obtain j db1 where p: "put_file env (entry_of e) db = (j, db1)" by fastforce
  with Cons.prems obtain db2 where l: "insert_link \<lparr>ml_manifest_id = i, ml_file_id = j, ml_chunk_list = x_json env (chunk_hashes e)\<rparr> db1 = Inr db2"
    and r: "save_entries env i es db2 = Inr db'" by (auto simp add: and_then_Inr_iff)
  from Cons.IH [OF r] put_file_keys(2) [OF p] insert_link_keeps [OF l] show ?case by simp
qed

lemma latest_row_snoc:
  assumes "\<forall>x\<in>set rs. mf_version x < mf_version r"
  shows "latest_row (rs @ [r]) = Some r"
proof -
  let ?newer = "\<lambda>x y. if mf_version y < mf_version x then x else y"
  have f: "fold ?newer xs q \<in> insert q (set xs)" for xs q
  proof (induction xs arbitrary: q)
    case Nil
    then show ?case by simp
  next
    case (Cons x xs)
    from Cons.IH [of "?newer x q"] show ?case by (auto split: if_splits)
  qed
  show ?thesis
  proof (cases rs)
    case Nil
    then show ?thesis by (simp add: latest_row_def)
  next
    case (Cons q qs)
    with f [of qs q] assms have "mf_version (fold ?newer qs q) < mf_version r" by auto
    with Cons show ?thesis by (simp add: latest_row_def)
  qed
qed

section \<open>Properties\<close>

text \<open>Whatever files, chunks and manifests were put into the index, in whatever order and
  with whatever failures, its tables satisfy the constraints of the schema: primary keys and
  unique columns do not repeat, references have a row, and no folder has a version twice.\<close>

theorem index_keeps_schema:
  "index_ok (fold (index_step env) ops new_index_db)"
  by (rule index_machine.inv_fold) (rule index_ok_new)

text \<open>What is loaded after a manifest was saved: if its version is the newest, the manifest
  comes back with its entries in the order of their paths, whatever files were upserted since.
  Chunk lists are those saved, but size, content hash and mode are those of the last upsert of
  the path, and every time stamp is the time of loading.\<close>

theorem saved_manifest_loads:
  assumes "index_ok db" and "json_ok env" and "distinct (map path (files m))"
    and "save_manifest env m db = Inr (i, db')"
    and "\<forall>r\<in>set (manifests_of (folder_id m) ''/'' db). mf_version r < as_i64 (version m)"
  shows "get_latest_manifest env clock (folder_id m) ''/'' (upserts env us db') =
    Inr (Some (m\<lparr>files := map2 (loaded us) (map clock [1..<Suc (file_count m)]) (sort_key path (files m)),
      created_at := clock 0,
      manifest_hash := (if manifest_hash m = Some [] then None else manifest_hash m)\<rparr>))"
proof -
  let ?es = "files m" and ?db2 = "upserts env us db'"
  obtain dba where ins: "insert_manifest m db = Inr (i, dba)" and sv: "save_entries env i ?es dba = Inr db'"
    using assms(4) by (auto simp add: save_manifest_def and_then_Inr_iff)
  note a = index_ok_insert_manifest [OF assms(1) ins]
  have ok': "index_ok db'" by (rule index_ok_save_manifest [OF assms(1,4)])
  note u = upserts_keep [OF ok', of env us]
  note r = save_entries_result [OF assms(3) sv]
  have keep: "ix_manifests db' = ix_manifests dba" by (rule save_entries_manifests [OF sv])
  have rows: "latest_row (manifests_of (folder_id m) ''/'' ?db2) = Some (manifest_row_of m i)"
    using a(6) keep u assms(5) latest_row_snoc [of "manifests_of (folder_id m) ''/'' db" "manifest_row_of m i"]
    by (simp add: manifests_of_def manifest_row_of_def)
  have old: "filter (\<lambda>l. ml_manifest_id l = i) (ix_links db) = []"
    using assms(1) a(2) by (fastforce simp add: index_ok_def list_all_iff filter_empty_conv)
  then have links: "filter (\<lambda>l. ml_manifest_id l = i) (ix_links ?db2) = map (saved_link env i db') ?es"
    using u r a(4) by (simp add: saved_link_def filter_map comp_def)
  define j where "j e = fl_id (the (file_at (path e) db'))" for e :: manifest_entry
  have row: "row_of env (current e us) (j e) \<in> set (ix_files ?db2)" if e: "e \<in> set ?es" for e
  proof -
    have "find (\<lambda>x. path x = path e) ?es = Some e" by (rule find_distinct_key [OF assms(3) e])
    with conjunct2 [OF r, rule_format, of "path e"]
    have "file_at (path e) db' = Some (row_of env (entry_of e) (j e))" by (auto simp add: j_def)
    from upserts_file_at [OF this] have "file_at (path e) ?db2 = Some (row_of env (current e us) (j e))"
      by (simp add: current_def entry_of_def)
    then show ?thesis by (blast dest: file_at_SomeD)
  qed
  have "manifest_files i ?db2 = sort_key (\<lambda>(f, l). fl_path f)
      (map (\<lambda>e. (row_of env (current e us) (j e), saved_link env i db' e)) ?es)"
    unfolding manifest_files_def join_filter links
    by (subst join_rows [where r = "\<lambda>e. row_of env (current e us) (j e)"])
      (use row u in \<open>simp_all add: index_ok_def saved_link_def j_def\<close>)
  also have "\<dots> = map (\<lambda>e. (row_of env (current e us) (j e), saved_link env i db' e)) (sort_key path ?es)"
    by (simp add: sort_key_map)
  finally have mfs: "manifest_files i ?db2 = \<dots>" .
  show ?thesis
    by (simp add: get_latest_manifest_def rows manifest_row_of_def mfs Let_def load_entries_loaded assms(2)
        file_count_def split: option.splits)
qed

fun escaped :: "string list \<Rightarrow> string" where
  "escaped [] = []"
| "escaped ([] # hs) = CHR '','' # escaped hs"
| "escaped ((c # s) # hs) = CHR ''.'' # c # escaped (s # hs)"

fun unescaped :: "string \<Rightarrow> string list option" where
  "unescaped [] = Some []"
| "unescaped [x] = (if x = CHR '','' then Some [[]] else None)"
| "unescaped (x # c # s) =
     (if x = CHR '','' then map_option ((#) []) (unescaped (c # s))
      else case unescaped s of Some (t # hs) \<Rightarrow> Some ((c # t) # hs) | _ \<Rightarrow> None)"

lemma unescaped_comma: "unescaped (CHR '','' # s) = map_option ((#) []) (unescaped s)"
  by (cases s) auto

lemma unescaped_escaped: "unescaped (escaped hs) = Some hs"
  by (induction hs rule: escaped.induct) (auto simp add: unescaped_comma)

definition sample_index_env :: index_env where
  "sample_index_env = \<lparr>x_rfc3339 = (\<lambda>t. replicate (nat t) (CHR ''t'')), x_parse_rfc3339 = (\<lambda>s. Some (int (length s))),
     x_json = escaped, x_parse_json = unescaped\<rparr>"

lemma sample_index_json_ok: "json_ok sample_index_env"
  by (simp add: json_ok_def sample_index_env_def unescaped_escaped)

definition sample_two :: manifest where
  "sample_two = \<lparr>folder_id = ''f'', version = 1, files =
     [\<lparr>path = ''b'', file_size = 2, modified_at = 7, content_hash = ''22'', chunk_hashes = [''a'', ''d''], mode = None\<rparr>,
      \<lparr>path = ''a'', file_size = 1, modified_at = 8, content_hash = ''11'', chunk_hashes = [''c''], mode = Some 4\<rparr>],
     created_at = 9, manifest_hash = Some ''h''\<rparr>"

text \<open>File \<open>b\<close> is indexed again after the manifest was saved: the manifest comes back with its new
  hash and its old chunks.\<close>

lemma saved_manifest_loads_witness:
  "\<exists>i db. save_manifest sample_index_env sample_two new_index_db = Inr (i, db) \<and>
     get_latest_manifest sample_index_env int ''f'' ''/''
       (upserts sample_index_env [\<lparr>fe_path = ''b'', fe_size = 3, fe_modified_at = 9, fe_content_hash = ''33'', fe_mode = None\<rparr>] db) =
     Inr (Some (sample_two\<lparr>files :=
       [\<lparr>path = ''a'', file_size = 1, modified_at = 1, content_hash = ''11'', chunk_hashes = [''c''], mode = Some 4\<rparr>,
        \<lparr>path = ''b'', file_size = 3, modified_at = 2, content_hash = ''33'', chunk_hashes = [''a'', ''d''], mode = None\<rparr>],
       created_at := 0\<rparr>))"
proof -
  have d: "distinct (map path (files sample_two))" by (simp add: sample_two_def)
  have s: "sort_key path (files sample_two) = rev (files sample_two)"
    by (simp add: sample_two_def)
  obtain i db where sv: "save_manifest sample_index_env sample_two new_index_db = Inr (i, db)"
    by (simp add: save_manifest_def insert_manifest_def sample_two_def new_index_db_def manifests_of_def
        put_file_def insert_link_def entry_of_def Let_def)
  have "\<forall>r\<in>set (manifests_of (folder_id sample_two) ''/'' new_index_db). mf_version r < as_i64 (version sample_two)"
    by (simp add: new_index_db_def manifests_of_def)
  note l = saved_manifest_loads [OF index_ok_new sample_index_json_ok d sv this, of int
      "[\<lparr>fe_path = ''b'', fe_size = 3, fe_modified_at = 9, fe_content_hash = ''33'', fe_mode = None\<rparr>]"]
  have f: "folder_id sample_two = ''f''" by (simp add: sample_two_def)
  show ?thesis
    by (intro exI [of _ i] exI [of _ db] conjI, rule sv, unfold l [unfolded f s])
      (simp add: sample_two_def loaded_def current_def entry_of_def file_count_def upt_rec)
qed

end
