(* ===== verification/Migrations.thy ===== *)
theory Migrations
  imports Index_Db
begin

text \<open>
  Schema migrations of the folder index (\<open>landro-index/src/migrations.rs\<close>), and how the two kinds
  of database are opened (\<open>database.rs\<close>, \<open>database_pool.rs\<close>).

  A connection is the version column of the table \<open>schema_version\<close>, \<open>None\<close> while the table does
  not exist, and the rest of the database, of any type.  \<open>exec\<close> is SQLite's \<open>execute_batch\<close> on
  the rest and \<open>schema\<close> the text of \<open>schema.rs\<close>; that it creates the version table is part of
  the model, and no migration touches that table.  A version is a natural number: the code
  only compares versions and counts them from one.
\<close>

section \<open>Migrations\<close>

record migration =
  mg_version :: nat
  mg_description :: string
  mg_up :: "string list"
  mg_down :: "string list option"

record 'd connection =
  cn_versions :: "nat list option"
  cn_rest :: 'd

type_synonym 'd sql_exec = "string \<Rightarrow> 'd \<Rightarrow> sql_error + 'd"

fun exec_all :: "'d sql_exec \<Rightarrow> string list \<Rightarrow> 'd \<Rightarrow> index_error + 'd" where
  "exec_all exec [] d = Inr d"
| "exec_all exec (s # ss) d = and_then (map_err Database (exec s d)) (exec_all exec ss)"

text \<open>A transaction: on an error nothing is changed.\<close>

definition apply_migration :: "'d sql_exec \<Rightarrow> migration \<Rightarrow> 'd connection \<Rightarrow> index_error + 'd connection" where
  "apply_migration exec m c =
     and_then (exec_all exec (mg_up m) (cn_rest c)) (\<lambda>d.
       case cn_versions c of
         None \<Rightarrow> Inl (Database (StatementFailed ''no such table: schema_version''))
       | Some vs \<Rightarrow>
           if mg_version m \<in> set vs then Inl (Database UniqueViolation)
           else Inr \<lparr>cn_versions = Some (vs @ [mg_version m]), cn_rest = d\<rparr>)"

definition rollback :: "'d sql_exec \<Rightarrow> migration \<Rightarrow> 'd connection \<Rightarrow> index_error + 'd connection" where
  "rollback exec m c =
     (case mg_down m of
        None \<Rightarrow> Inl (DatabaseFailure (''Migration '' @ show_nat (mg_version m) @ '' does not support rollback''))
      | Some down \<Rightarrow>
          and_then (exec_all exec (rev down) (cn_rest c)) (\<lambda>d.
            case cn_versions c of
              None \<Rightarrow> Inl (Database (StatementFailed ''no such table: schema_version''))
            | Some vs \<Rightarrow> Inr \<lparr>cn_versions = Some (filter (\<lambda>v. v \<noteq> mg_version m) vs), cn_rest = d\<rparr>))"

section \<open>The manager\<close>

record migration_manager =
  mm_migrations :: "(nat, migration) hmap"
  mm_target :: nat

text \<open>No migration is registered.\<close>

definition new_migration_manager :: "nat \<Rightarrow> migration_manager" where
  "new_migration_manager target = \<lparr>mm_migrations = [], mm_target = target\<rparr>"

definition add_migration :: "migration \<Rightarrow> migration_manager \<Rightarrow> migration_manager" where
  "add_migration m mgr = mgr\<lparr>mm_migrations := hm_put (mg_version m) m (mm_migrations mgr)\<rparr>"

definition get_current_version :: "'d connection \<Rightarrow> index_error + nat" where
  "get_current_version c =
     (case cn_versions c of
        None \<Rightarrow> Inl (Database (StatementFailed ''no such table: schema_version''))
      | Some vs \<Rightarrow> Inr (fold max vs 0))"

definition needs_migration :: "migration_manager \<Rightarrow> 'd connection \<Rightarrow> index_error + bool" where
  "needs_migration mgr c = and_then (get_current_version c) (\<lambda>v. Inr (v \<noteq> mm_target mgr))"

definition missing_migration :: "nat \<Rightarrow> index_error" where
  "missing_migration v = DatabaseFailure (''Missing migration for version '' @ show_nat v)"

text \<open>The versions are applied one after the other, each in its own transaction.\<close>

fun run_versions ::
  "(migration \<Rightarrow> 'd connection \<Rightarrow> index_error + 'd connection) \<Rightarrow> (nat, migration) hmap \<Rightarrow> nat list \<Rightarrow>
   'd connection \<Rightarrow> (index_error + unit) \<times> 'd connection" where
  "run_versions run ms [] c = (Inr (), c)"
| "run_versions run ms (v # vs) c =
     (case hm_get ms v of
        None \<Rightarrow> (Inl (missing_migration v), c)
      | Some m \<Rightarrow>
          (case run m c of
             Inl e \<Rightarrow> (Inl e, c)
           | Inr c1 \<Rightarrow> run_versions run ms vs c1))"

definition versions_between :: "nat \<Rightarrow> nat \<Rightarrow> (nat, migration) hmap \<Rightarrow> nat list" where
  "versions_between from_v to_v ms = sort (filter (\<lambda>v. from_v < v \<and> v \<le> to_v) (map fst ms))"

definition migrate_up ::
  "'d sql_exec \<Rightarrow> migration_manager \<Rightarrow> nat \<Rightarrow> nat \<Rightarrow> 'd connection \<Rightarrow> (index_error + unit) \<times> 'd connection" where
  "migrate_up exec mgr from_v to_v c =
     run_versions (apply_migration exec) (mm_migrations mgr) (versions_between from_v to_v (mm_migrations mgr)) c"

definition migrate_down ::
  "'d sql_exec \<Rightarrow> migration_manager \<Rightarrow> nat \<Rightarrow> nat \<Rightarrow> 'd connection \<Rightarrow> (index_error + unit) \<times> 'd connection" where
  "migrate_down exec mgr from_v to_v c =
     run_versions (rollback exec) (mm_migrations mgr) (rev (versions_between to_v from_v (mm_migrations mgr))) c"

definition migrate :: "'d sql_exec \<Rightarrow> migration_manager \<Rightarrow> 'd connection \<Rightarrow> (index_error + unit) \<times> 'd connection" where
  "migrate exec mgr c =
     (case get_current_version c of
        Inl e \<Rightarrow> (Inl e, c)
      | Inr v \<Rightarrow>
          if v = mm_target mgr then (Inr (), c)
          else if v > mm_target mgr then migrate_down exec mgr v (mm_target mgr) c
          else migrate_up exec mgr v (mm_target mgr) c)"

definition get_pending_migrations :: "migration_manager \<Rightarrow> 'd connection \<Rightarrow> index_error + nat list" where
  "get_pending_migrations mgr c =
     and_then (get_current_version c) (\<lambda>v. Inr (versions_between v (mm_target mgr) (mm_migrations mgr)))"

fun check_gaps :: "nat \<Rightarrow> nat list \<Rightarrow> index_error + unit" where
  "check_gaps expected [] = Inr ()"
| "check_gaps expected (v # vs) =
     (if v \<noteq> expected
      then Inl (DatabaseFailure (''Migration version gap: expected '' @ show_nat expected @ '', found '' @ show_nat v))
      else check_gaps (expected + 1) vs)"

definition validate_migrations :: "migration_manager \<Rightarrow> index_error + unit" where
  "validate_migrations mgr =
     and_then (check_gaps 1 (sort (map fst (mm_migrations mgr)))) (\<lambda>_.
       ensure (mm_migrations mgr = [] \<or> hm_has (mm_migrations mgr) (mm_target mgr))
         (DatabaseFailure (''Target version '' @ show_nat (mm_target mgr) @ '' not found in migrations'')))"

text \<open>\<open>run_migrations\<close> for any manager, and for the one the code builds.\<close>

definition run_manager :: "'d sql_exec \<Rightarrow> migration_manager \<Rightarrow> 'd connection \<Rightarrow> (index_error + unit) \<times> 'd connection" where
  "run_manager exec mgr c =
     (case validate_migrations mgr of
        Inl e \<Rightarrow> (Inl e, c)
      | Inr _ \<Rightarrow>
          (case needs_migration mgr c of
             Inl e \<Rightarrow> (Inl e, c)
           | Inr b \<Rightarrow> if b then migrate exec mgr c else (Inr (), c)))"

definition run_migrations :: "'d sql_exec \<Rightarrow> nat \<Rightarrow> 'd connection \<Rightarrow> (index_error + unit) \<times> 'd connection" where
  "run_migrations exec target c = run_manager exec (new_migration_manager target) c"

section \<open>Opening a database\<close>

definition SCHEMA_VERSION :: nat where
  "SCHEMA_VERSION = 1"

text \<open>\<open>CREATE TABLE IF NOT EXISTS\<close>: an existing version table keeps its rows.\<close>

definition execute_schema :: "'d sql_exec \<Rightarrow> string \<Rightarrow> 'd connection \<Rightarrow> sql_error + 'd connection" where
  "execute_schema exec schema c =
     and_then (exec schema (cn_rest c)) (\<lambda>d.
       Inr \<lparr>cn_versions = Some (case cn_versions c of None \<Rightarrow> [] | Some vs \<Rightarrow> vs), cn_rest = d\<rparr>)"

text \<open>A connection of the pool.\<close>

definition initialize_connection ::
  "'d sql_exec \<Rightarrow> string \<Rightarrow> 'd connection \<Rightarrow> (sql_error + unit) \<times> 'd connection" where
  "initialize_connection exec schema c =
     (case execute_schema exec schema c of
        Inl e \<Rightarrow> (Inl e, c)
      | Inr c1 \<Rightarrow>
          (case run_migrations exec SCHEMA_VERSION c1 of
             (Inr _, c2) \<Rightarrow> (Inr (), c2)
           | (Inl e, c2) \<Rightarrow> (Inl (StatementFailed ''Migration failed''), c2)))"

text \<open>The single connection of \<open>IndexDatabase\<close>.\<close>

definition initialize_database ::
  "'d sql_exec \<Rightarrow> string \<Rightarrow> 'd connection \<Rightarrow> index_error + 'd connection" where
  "initialize_database exec schema c =
     (case (case cn_versions c of None \<Rightarrow> None | Some [] \<Rightarrow> None | Some vs \<Rightarrow> Some (fold max vs 0)) of
        None \<Rightarrow>
          map_err Database (and_then (execute_schema exec schema c) (\<lambda>c1.
            case cn_versions c1 of
              None \<Rightarrow> Inl (StatementFailed ''no such table: schema_version'')
            | Some vs \<Rightarrow> if SCHEMA_VERSION \<in> set vs then Inl UniqueViolation
                else Inr (c1\<lparr>cn_versions := Some (vs @ [SCHEMA_VERSION])\<rparr>)))
      | Some v \<Rightarrow>
          if v \<noteq> SCHEMA_VERSION then Inl (SchemaVersionMismatch SCHEMA_VERSION v) else Inr c)"

section \<open>Up and down again\<close>

text \<open>The statements that roll a migration back, run from the last to the first, undo it.\<close>

definition reversible :: "'d sql_exec \<Rightarrow> migration \<Rightarrow> bool" where
  "reversible exec m \<longleftrightarrow> (\<exists>down. mg_down m = Some down \<and>
     (\<forall>d d'. exec_all exec (mg_up m) d = Inr d' \<longrightarrow> exec_all exec (rev down) d' = Inr d))"

definition registered :: "'d sql_exec \<Rightarrow> (nat, migration) hmap \<Rightarrow> bool" where
  "registered exec ms \<longleftrightarrow> (\<forall>v m. hm_get ms v = Some m \<longrightarrow> mg_version m = v \<and> reversible exec m)"

lemma run_versions_append:
  "run_versions run ms (as @ bs) c =
     (case run_versions run ms as c of (Inl e, c1) \<Rightarrow> (Inl e, c1) | (Inr _, c1) \<Rightarrow> run_versions run ms bs c1)"
  by (induction as arbitrary: c) (auto split: option.splits sum.splits)

lemma apply_rollback:
  assumes "reversible exec m" and "apply_migration exec m c = Inr c1" and "cn_versions c = Some ws"
  shows "cn_versions c1 = Some (ws @ [mg_version m])" and "rollback exec m c1 = Inr c"
proof -
  obtain down where down: "mg_down m = Some down"
      "\<forall>d d'. exec_all exec (mg_up m) d = Inr d' \<longrightarrow> exec_all exec (rev down) d' = Inr d"
    using assms(1) by (auto simp add: reversible_def)
  from assms(2,3) show "cn_versions c1 = Some (ws @ [mg_version m])"
    by (auto simp add: apply_migration_def and_then_Inr_iff split: if_splits)
  from assms(2,3) down show "rollback exec m c1 = Inr c"
    by (cases c) (auto simp add: apply_migration_def rollback_def and_then_Inr_iff split: if_splits intro: filter_True)
qed

lemma run_up_down:
  assumes "registered exec ms" and "run_versions (apply_migration exec) ms vs c = (Inr (), c')"
    and "cn_versions c = Some ws"
  shows "cn_versions c' = Some (ws @ vs) \<and> run_versions (rollback exec) ms (rev vs) c' = (Inr (), c)"
  using assms(2,3)
proof (induction vs arbitrary: c ws)
  case Nil
  then show ?case by simp
next
  case (Cons v vs)
  from Cons.prems(1) obtain m c1 where m: "hm_get ms v = Some m" and one: "apply_migration exec m c = Inr c1"
    and more: "run_versions (apply_migration exec) ms vs c1 = (Inr (), c')"
    by (auto split: option.splits sum.splits)
  have "mg_version m = v" and rv: "reversible exec m" using assms(1) m by (auto simp add: registered_def)
  with apply_rollback [OF rv one Cons.prems(2)] Cons.IH [OF more, of "ws @ [v]"] m
  show ?case by (simp add: run_versions_append)
qed

lemma fold_max: "fold max vs n = Max (insert n (set vs))" for n :: nat
  by (simp add: Max.set_eq_fold [symmetric])

lemma in_versions_between:
  "v \<in> set (versions_between a b ms) \<longleftrightarrow> a < v \<and> v \<le> b \<and> v \<in> fst ` set ms"
  by (auto simp add: versions_between_def)

lemma versions_between_upto:
  assumes "a < b" and "\<forall>v\<in>set (versions_between a t ms). v \<le> b" and "b \<le> t"
  shows "versions_between a b ms = versions_between a t ms"
proof -
  have "filter (\<lambda>v. a < v \<and> v \<le> b) (map fst ms) = filter (\<lambda>v. a < v \<and> v \<le> t) (map fst ms)"
    using assms by (intro filter_cong) (force simp add: in_versions_between)+
  then show ?thesis by (simp add: versions_between_def)
qed

section \<open>Properties\<close>

text \<open>Migrations can be undone: a database that was migrated up to some target is in that
  version if there is a migration for it, and migrating down to the version it had before gives
  back the database it was, if the down statements of every migration undo its up statements.\<close>

theorem migrate_and_back:
  assumes "registered exec (mm_migrations mgr)" and "get_current_version c = Inr v"
    and "v \<le> mm_target mgr" and "migrate exec mgr c = (Inr (), c')"
  shows "migrate exec (mgr\<lparr>mm_target := v\<rparr>) c' = (Inr (), c) \<and>
    (hm_has (mm_migrations mgr) (mm_target mgr) \<longrightarrow> get_current_version c' = Inr (mm_target mgr) \<or> v = mm_target mgr)"
proof (cases "v = mm_target mgr")
  case True
  with assms show ?thesis by (simp add: migrate_def)
next
  case False
  let ?ms = "mm_migrations mgr" and ?t = "mm_target mgr"
  let ?vs = "versions_between v ?t ?ms"
  obtain ws where ws: "cn_versions c = Some ws" "fold max ws 0 = v"
    using assms(2) by (auto simp add: get_current_version_def split: option.splits)
  have "run_versions (apply_migration exec) ?ms ?vs c = (Inr (), c')"
    using assms(2-4) False by (simp add: migrate_def migrate_up_def)
  note r = run_up_down [OF assms(1) this ws(1)]
  define w where "w = fold max (ws @ ?vs) 0"
  have cur: "get_current_version c' = Inr w" using r by (simp add: get_current_version_def w_def)
  have w: "w = Max (insert v (set ?vs))" using ws(2) by (simp add: w_def fold_max)
  have vw: "v \<le> w" and le: "\<forall>x\<in>set ?vs. x \<le> w" by (auto simp add: w)
  have wt: "w \<le> ?t" using assms(3) by (auto simp add: w in_versions_between)
  have undone: "migrate exec (mgr\<lparr>mm_target := v\<rparr>) c' = (Inr (), c)"
  proof (cases "w = v")
    case True
    then have "?vs = []" using le in_versions_between [of _ v ?t ?ms] by (metis last_in_set leD)
    then show ?thesis using cur True r by (simp add: migrate_def)
  next
    case False
    with vw cur r versions_between_upto [of v w ?t ?ms] le wt show ?thesis
      by (simp add: migrate_def migrate_down_def)
  qed
  have "w = ?t" if "hm_has ?ms ?t"
  proof -
    have "?t \<in> set ?vs" using that False assms(3) by (simp add: hm_has_iff in_versions_between)
    with le wt show ?thesis by (simp add: le_antisym)
  qed
  with undone cur show ?thesis by simp
qed

definition sample_exec :: "string list sql_exec" where
  "sample_exec s d =
     (if s = [] then Inl (StatementFailed s)
      else if hd s = CHR ''+'' then Inr (tl s # d)
      else if d \<noteq> [] \<and> hd d = tl s then Inr (tl d) else Inl (StatementFailed s))"

definition sample_migration :: migration where
  "sample_migration = \<lparr>mg_version = 2, mg_description = ''two tables'', mg_up = [''+a'', ''+b''],
     mg_down = Some [''-a'', ''-b'']\<rparr>"

definition sample_manager :: migration_manager where
  "sample_manager = add_migration sample_migration (new_migration_manager 3)"

lemma migrate_and_back_witness:
  "migrate sample_exec (sample_manager\<lparr>mm_target := 1\<rparr>) \<lparr>cn_versions = Some [1, 2], cn_rest = [''b'', ''a'']\<rparr> =
     (Inr (), \<lparr>cn_versions = Some [1], cn_rest = []\<rparr>)"
proof -
  have reg: "registered sample_exec (mm_migrations sample_manager)"
    by (auto simp add: registered_def sample_manager_def add_migration_def new_migration_manager_def
        sample_migration_def hm_get_def hm_put_def reversible_def sample_exec_def split: if_splits)
  have up: "migrate sample_exec sample_manager \<lparr>cn_versions = Some [1], cn_rest = []\<rparr> =
      (Inr (), \<lparr>cn_versions = Some [1, 2], cn_rest = [''b'', ''a'']\<rparr>)"
    by (simp add: migrate_def get_current_version_def migrate_up_def versions_between_def sample_manager_def
        add_migration_def new_migration_manager_def sample_migration_def hm_get_def hm_put_def
        apply_migration_def sample_exec_def)
  have v: "get_current_version \<lparr>cn_versions = Some [1], cn_rest = [] :: string list\<rparr> = Inr 1"
    by (simp add: get_current_version_def)
  have t: "(1 :: nat) \<le> mm_target sample_manager"
    by (simp add: sample_manager_def add_migration_def new_migration_manager_def)
  from migrate_and_back [OF reg v t up] show ?thesis by simp
qed

text \<open>The versions a manager must have.\<close>

lemma check_gaps_upt: "check_gaps n vs = Inr () \<longleftrightarrow> vs = [n..<n + length vs]"
proof (induction n vs rule: check_gaps.induct)
  case (1 n)
  then show ?case by simp
next
  case (2 n v vs)
  have "[n..<n + length (v # vs)] = n # [n + 1..<n + 1 + length vs]"
    by (simp add: upt_conv_Cons del: upt_Suc)
  with 2 show ?case by (auto simp del: upt_Suc)
qed

text \<open>The migrations of a manager are accepted exactly if their versions are the numbers from
  one to some number, without a gap, and the target is one of them, or if there are none.\<close>

theorem validate_migrations_iff:
  assumes "hm_wf (mm_migrations mgr)"
  shows "validate_migrations mgr = Inr () \<longleftrightarrow>
    fst ` set (mm_migrations mgr) = {1..length (mm_migrations mgr)} \<and>
    (mm_migrations mgr = [] \<or> mm_target mgr \<in> {1..length (mm_migrations mgr)})"
proof -
  let ?vs = "map fst (mm_migrations mgr)"
  have d: "distinct ?vs" using assms by (simp add: hm_wf_def)
  have "sort ?vs = [1..<1 + length ?vs] \<longleftrightarrow> set ?vs = {1..length ?vs}"
  proof
    assume "sort ?vs = [1..<1 + length ?vs]"
    then have "set (sort ?vs) = set [1..<1 + length ?vs]" by (rule arg_cong)
    then show "set ?vs = {1..length ?vs}" by (simp add: atLeastLessThanSuc_atLeastAtMost del: upt_Suc)
  next
    assume s: "set ?vs = {1..length ?vs}"
    show "sort ?vs = [1..<1 + length ?vs]"
      by (rule sorted_distinct_set_unique) (use d s in \<open>simp_all add: atLeastLessThanSuc_atLeastAtMost del: upt_Suc\<close>)
  qed
  then show ?thesis
    by (auto simp add: validate_migrations_def and_then_Inr_iff ensure_Inr_iff check_gaps_upt hm_has_iff)
qed

lemma validate_migrations_iff_witness:
  "validate_migrations sample_manager \<noteq> Inr ()"
proof -
  have "hm_wf (mm_migrations sample_manager)"
    by (simp add: sample_manager_def add_migration_def new_migration_manager_def hm_wf_def hm_put_def)
  from validate_migrations_iff [OF this] show ?thesis
    by (simp add: sample_manager_def add_migration_def new_migration_manager_def sample_migration_def hm_put_def)
qed

text \<open>The pool never records a schema version: opening any number of connections leaves the
  version table of a new database empty, so the database counts as in need of migration for
  ever, and no migration is pending.\<close>

theorem pool_never_records_version:
  "let c = fold (\<lambda>_ c. snd (initialize_connection exec schema c)) [0..<n] \<lparr>cn_versions = None, cn_rest = d\<rparr>;
       mgr = new_migration_manager SCHEMA_VERSION in
   cn_versions c \<in> {None, Some []} \<and> needs_migration mgr c \<noteq> Inr False \<and>
   get_pending_migrations mgr c \<in> {Inl (Database (StatementFailed ''no such table: schema_version'')), Inr []}"
proof -
  have none: "run_migrations exec SCHEMA_VERSION c = (Inr (), c)" if "cn_versions c = Some []" for c
    using that by (simp add: run_migrations_def run_manager_def new_migration_manager_def validate_migrations_def
        needs_migration_def get_current_version_def ensure_def SCHEMA_VERSION_def migrate_def migrate_up_def
        versions_between_def)
  have one: "cn_versions (snd (initialize_connection exec schema c)) \<in> {None, Some []}"
    if "cn_versions c \<in> {None, Some []}" for c
    using that
    by (cases "exec schema (cn_rest c)") (auto simp add: initialize_connection_def execute_schema_def none)
  have "cn_versions (fold (\<lambda>_ c. snd (initialize_connection exec schema c)) is c) \<in> {None, Some []}"
    if "cn_versions c \<in> {None, Some []}" for c and "is" :: "nat list"
    using that one by (induction "is" arbitrary: c) auto
  from this [of "\<lparr>cn_versions = None, cn_rest = d\<rparr>" "[0..<n]"] show ?thesis
    by (auto simp add: Let_def needs_migration_def get_pending_migrations_def get_current_version_def
        new_migration_manager_def SCHEMA_VERSION_def versions_between_def)
qed

end
