(* ===== verification/Indexer.thy ===== *)
theory Indexer
  imports Index_Db Chunker Cas
begin

text \<open>
  The folder indexer (\<open>landro-index/src/indexer.rs\<close>; \<open>async_indexer.rs\<close> calls it under a lock):
  walk a directory tree, cut each file into chunks, store them, and record files, chunks and the
  manifest in the database.

  A path is the list of its names from the root.  The operating system is a record of what its
  calls return, in the order \<open>read_dir\<close> gives; \<open>None\<close> is an I/O error.  BLAKE3 and its
  hexadecimal form are those of the store.  \<open>now\<close> is the time a manifest is created.
\<close>

section \<open>Paths and the operating system\<close>

type_synonym fs_path = "string list"

definition path_string :: "fs_path \<Rightarrow> string" where
  "path_string p = (if p = [] then ''/'' else concat (map (\<lambda>n. CHR ''/'' # n) p))"

datatype file_kind = RegularFile | Directory | Symlink | OtherKind

record file_meta =
  me_is_file :: bool
  me_size :: u64
  me_modified :: "date_time option"
  me_mode :: "u32 option"

record os =
  os_canonicalize :: "fs_path \<Rightarrow> fs_path option"
  os_read_dir :: "fs_path \<Rightarrow> (fs_path \<times> file_kind) list option"
  os_read_link :: "fs_path \<Rightarrow> fs_path option"
  os_is_file :: "fs_path \<Rightarrow> bool"
  os_is_dir :: "fs_path \<Rightarrow> bool"
  os_metadata :: "fs_path \<Rightarrow> file_meta option"
  os_open :: "fs_path \<Rightarrow> (chunker_error + bytes) list option"

section \<open>The indexer\<close>

record indexer_config =
  ic_chunker_config :: chunker_config
  ic_follow_symlinks :: bool
  ic_ignore_patterns :: "string list"

definition default_indexer_config :: indexer_config where
  "default_indexer_config = \<lparr>ic_chunker_config = default_config, ic_follow_symlinks = False,
     ic_ignore_patterns = [''.git'', ''.DS_Store'', ''Thumbs.db'', ''*.tmp'']\<rparr>"

record 'c indexer =
  in_chunker :: chunker
  in_store :: "'c store"
  in_db :: index_db
  in_config :: indexer_config

record 'c indexer_env =
  n_cas :: "'c cas_env"
  n_index :: index_env
  n_hex_decode :: "string \<Rightarrow> bytes option"
  n_os :: os

definition new_indexer :: "indexer_config \<Rightarrow> 'c store \<Rightarrow> index_db \<Rightarrow> index_error + 'c indexer" where
  "new_indexer cfg s db =
     and_then (map_err (\<lambda>_. ChunkerFailure) (new_chunker (ic_chunker_config cfg))) (\<lambda>ch.
       Inr \<lparr>in_chunker = ch, in_store = s, in_db = db, in_config = cfg\<rparr>)"

section \<open>What is ignored\<close>

definition starts_with :: "string \<Rightarrow> string \<Rightarrow> bool" where
  "starts_with s p \<longleftrightarrow> take (length p) s = p"

definition ends_with :: "string \<Rightarrow> string \<Rightarrow> bool" where
  "ends_with s p \<longleftrightarrow> length p \<le> length s \<and> drop (length s - length p) s = p"

definition glob_match :: "string \<Rightarrow> string \<Rightarrow> bool" where
  "glob_match pattern name \<longleftrightarrow>
     (if starts_with pattern ''*'' then ends_with name (drop 1 pattern)
      else if ends_with pattern ''*'' then starts_with name (take (length pattern - 1) pattern)
      else pattern = name)"

definition should_ignore :: "indexer_config \<Rightarrow> fs_path \<Rightarrow> bool" where
  "should_ignore cfg p \<longleftrightarrow>
     (let name = (if p = [] then [] else last p) in
      list_ex (\<lambda>pattern. if CHR ''*'' \<in> set pattern then glob_match pattern name else name = pattern)
        (ic_ignore_patterns cfg))"

section \<open>Walking\<close>

text \<open>The top of the stack of directories is the head of the list.\<close>

fun visit_entries ::
  "os \<Rightarrow> indexer_config \<Rightarrow> (fs_path \<times> file_kind) list \<Rightarrow> fs_path list \<Rightarrow> fs_path list \<Rightarrow>
   index_error + (fs_path list \<times> fs_path list)" where
  "visit_entries os cfg [] dirs found = Inr (dirs, found)"
| "visit_entries os cfg ((p, kind) # es) dirs found =
     (if should_ignore cfg p then visit_entries os cfg es dirs found
      else case kind of
        RegularFile \<Rightarrow> visit_entries os cfg es dirs (found @ [p])
      | Directory \<Rightarrow> visit_entries os cfg es (p # dirs) found
      | Symlink \<Rightarrow>
          if ic_follow_symlinks cfg then
            (case os_read_link os p of
               None \<Rightarrow> Inl IndexIo
             | Some target \<Rightarrow>
                 if os_is_file os target then visit_entries os cfg es dirs (found @ [p])
                 else if os_is_dir os target then visit_entries os cfg es (p # dirs) found
                 else visit_entries os cfg es dirs found)
          else visit_entries os cfg es dirs found
      | OtherKind \<Rightarrow> visit_entries os cfg es dirs found)"

text \<open>Followed links may lead in circles, so the loop need not end.\<close>

partial_function (option) walk ::
  "os \<Rightarrow> indexer_config \<Rightarrow> fs_path list \<Rightarrow> fs_path list \<Rightarrow> (index_error + fs_path list) option" where
  "walk os cfg dirs found =
     (case dirs of
        [] \<Rightarrow> Some (Inr found)
      | d # dirs1 \<Rightarrow>
          (case os_read_dir os d of
             None \<Rightarrow> Some (Inl IndexIo)
           | Some es \<Rightarrow>
               (case visit_entries os cfg es dirs1 found of
                  Inl e \<Rightarrow> Some (Inl e)
                | Inr (dirs2, found2) \<Rightarrow> walk os cfg dirs2 found2)))"

definition walk_directory :: "os \<Rightarrow> indexer_config \<Rightarrow> fs_path \<Rightarrow> (index_error + fs_path list) option" where
  "walk_directory os cfg p = map_option (\<lambda>r. and_then r (\<lambda>found. Inr (sort found))) (walk os cfg [p] [])"

section \<open>Indexing\<close>

definition calculate_file_hash :: "'c cas_env \<Rightarrow> string list \<Rightarrow> string" where
  "calculate_file_hash env hs = e_hex env (e_blake3 env (concat (map str_bytes hs)))"

definition path_to_folder_id :: "'c cas_env \<Rightarrow> fs_path \<Rightarrow> string" where
  "path_to_folder_id env p = e_hex env (e_blake3 env (str_bytes (path_string p)))"

fun store_chunks :: "'c cas_env \<Rightarrow> chunk list \<Rightarrow> 'c indexer \<Rightarrow> (index_error + string list) \<times> 'c indexer" where
  "store_chunks env [] st = (Inr [], st)"
| "store_chunks env (k # ks) st =
     (let (r, s1) = write_object env (chunk_bytes_of k) (in_store st) in
      case r of
        Inl e \<Rightarrow> (Inl StorageFailure, st\<lparr>in_store := s1\<rparr>)
      | Inr _ \<Rightarrow>
          let h = e_hex env (chunk_hash k);
              (_, db1) = upsert_chunk \<lparr>ce_hash = h, ce_size = word_of_nat (length (chunk_bytes_of k)),
                ce_ref_count = 1\<rparr> (in_db st);
              (r1, st1) = store_chunks env ks (st\<lparr>in_store := s1, in_db := db1\<rparr>)
          in (and_then r1 (\<lambda>hs. Inr (h # hs)), st1))"

text \<open>\<open>None\<close> if the chunk loop does not return.\<close>

definition index_file ::
  "'c indexer_env \<Rightarrow> fs_path \<Rightarrow> 'c indexer \<Rightarrow> ((index_error + manifest_entry) \<times> 'c indexer) option" where
  "index_file env p st =
     (case os_metadata (n_os env) p of
        None \<Rightarrow> Some (Inl IndexIo, st)
      | Some meta \<Rightarrow>
          if \<not> me_is_file meta then Some (Inl (InvalidFileType (path_string p)), st)
          else case me_modified meta of
            None \<Rightarrow> Some (Inl IndexIo, st)
          | Some t \<Rightarrow>
              (case os_open (n_os env) p of
                 None \<Rightarrow> Some (Inl IndexIo, st)
               | Some reads \<Rightarrow>
                   map_option (\<lambda>r. case r of
                       Inl _ \<Rightarrow> (Inl ChunkerFailure, st)
                     | Inr ks \<Rightarrow>
                         (case store_chunks (n_cas env) ks st of
                            (Inl e, st1) \<Rightarrow> (Inl e, st1)
                          | (Inr hs, st1) \<Rightarrow>
                              let h = calculate_file_hash (n_cas env) hs;
                                  (_, db2) = upsert_file (n_index env) \<lparr>fe_path = path_string p, fe_size = me_size meta,
                                    fe_modified_at = t, fe_content_hash = h, fe_mode = me_mode meta\<rparr> (in_db st1)
                              in (Inr \<lparr>path = path_string p, file_size = me_size meta, modified_at = t,
                                    content_hash = h, chunk_hashes = hs, mode = me_mode meta\<rparr>,
                                  st1\<lparr>in_db := db2\<rparr>)))
                     (chunk_stream (e_blake3 (n_cas env)) (in_chunker st) reads)))"

text \<open>A file that cannot be indexed is skipped.\<close>

fun index_files ::
  "'c indexer_env \<Rightarrow> fs_path list \<Rightarrow> manifest \<Rightarrow> 'c indexer \<Rightarrow> (manifest \<times> 'c indexer) option" where
  "index_files env [] m st = Some (m, st)"
| "index_files env (p # ps) m st =
     Option.bind (index_file env p st) (\<lambda>(r, st1).
       index_files env ps (case r of Inl _ \<Rightarrow> m | Inr e \<Rightarrow> add_file e m) st1)"

definition index_folder ::
  "'c indexer_env \<Rightarrow> date_time \<Rightarrow> fs_path \<Rightarrow> 'c indexer \<Rightarrow> ((index_error + manifest) \<times> 'c indexer) option" where
  "index_folder env now p st =
     (case os_canonicalize (n_os env) p of
        None \<Rightarrow> Some (Inl IndexIo, st)
      | Some canonical \<Rightarrow>
          let i = path_to_folder_id (n_cas env) canonical;
              next_version = (case get_latest_manifest_version i (path_string canonical) (in_db st) of
                None \<Rightarrow> 0 | Some v \<Rightarrow> v) + 1
          in Option.bind (walk_directory (n_os env) (in_config st) p) (\<lambda>r.
            case r of
              Inl e \<Rightarrow> Some (Inl e, st)
            | Inr ps \<Rightarrow>
                map_option (\<lambda>(m, st1).
                    let m1 = finalize (e_blake3 (n_cas env)) (n_hex_decode env) (e_hex (n_cas env)) m in
                    case save_manifest (n_index env) m1 (in_db st1) of
                      Inl e \<Rightarrow> (Inl e, st1)
                    | Inr (_, db2) \<Rightarrow> (Inr m1, st1\<lparr>in_db := db2\<rparr>))
                  (index_files env ps (new_manifest now i next_version) st)))"

section \<open>A directory tree and the files in it\<close>

text \<open>The shape of a directory tree, and that the operating system shows it at a path.\<close>

datatype node = FileNode | FolderNode "(string \<times> node) list" | LinkNode | OtherNode

fun kind_of :: "node \<Rightarrow> file_kind" where
  "kind_of FileNode = RegularFile"
| "kind_of (FolderNode es) = Directory"
| "kind_of LinkNode = Symlink"
| "kind_of OtherNode = OtherKind"

lemma size_entry [termination_simp]: "(n, nd) \<in> set es \<Longrightarrow> size nd < Suc (size_list (size_prod (\<lambda>_. 0) size) es)"
  by (induction es) auto

fun presents :: "os \<Rightarrow> fs_path \<Rightarrow> node \<Rightarrow> bool" where
  "presents os p (FolderNode es) \<longleftrightarrow>
     os_read_dir os p = Some (map (\<lambda>(n, nd). (p @ [n], kind_of nd)) es) \<and>
     (\<forall>(n, nd)\<in>set es. presents os (p @ [n]) nd)"
| "presents os p nd \<longleftrightarrow> True"

text \<open>The files of a tree that no pattern hides, neither by their own name nor by that of a folder.\<close>

fun tree_files :: "indexer_config \<Rightarrow> fs_path \<Rightarrow> node \<Rightarrow> fs_path list" where
  "tree_files cfg p FileNode = [p]"
| "tree_files cfg p (FolderNode es) = concat (map (\<lambda>(n, nd).
     if should_ignore cfg (p @ [n]) then [] else tree_files cfg (p @ [n]) nd) es)"
| "tree_files cfg p nd = []"

section \<open>The walk lists the tree\<close>

fun sub_folders :: "indexer_config \<Rightarrow> fs_path \<Rightarrow> (string \<times> node) list \<Rightarrow> (fs_path \<times> (string \<times> node) list) list" where
  "sub_folders cfg p [] = []"
| "sub_folders cfg p ((n, nd) # es) =
     (case nd of FolderNode fs \<Rightarrow> if should_ignore cfg (p @ [n]) then [] else [(p @ [n], fs)] | _ \<Rightarrow> [])
     @ sub_folders cfg p es"

fun own_files :: "indexer_config \<Rightarrow> fs_path \<Rightarrow> (string \<times> node) list \<Rightarrow> fs_path list" where
  "own_files cfg p [] = []"
| "own_files cfg p ((n, nd) # es) =
     (if nd = FileNode \<and> \<not> should_ignore cfg (p @ [n]) then [p @ [n]] else []) @ own_files cfg p es"

definition folder_files :: "indexer_config \<Rightarrow> fs_path \<times> (string \<times> node) list \<Rightarrow> fs_path list" where
  "folder_files cfg = (\<lambda>(p, es). tree_files cfg p (FolderNode es))"

lemma visit_entries_tree:
  "\<not> ic_follow_symlinks cfg \<Longrightarrow>
   visit_entries os cfg (map (\<lambda>(n, nd). (p @ [n], kind_of nd)) es) dirs found =
     Inr (rev (map fst (sub_folders cfg p es)) @ dirs, found @ own_files cfg p es)"
proof (induction es arbitrary: dirs found)
  case Nil
  then show ?case by simp
next
  case (Cons e es)
  obtain n nd where e: "e = (n, nd)" by (cases e)
  from Cons show ?case by (cases nd) (auto simp add: e)
qed

lemma tree_files_split:
  "mset (tree_files cfg p (FolderNode es)) =
     mset (own_files cfg p es) + mset (concat (map (folder_files cfg) (sub_folders cfg p es)))"
proof (induction es)
  case Nil
  then show ?case by simp
next
  case (Cons e es)
  obtain n nd where e: "e = (n, nd)" by (cases e)
  from Cons show ?case by (cases nd) (auto simp add: e folder_files_def)
qed

lemma sub_folders_size:
  "sum_list (map (\<lambda>(q, fs). size (FolderNode fs)) (sub_folders cfg p es)) < size (FolderNode es)"
proof (induction es)
  case Nil
  then show ?case by simp
next
  case (Cons e es)
  obtain n nd where e: "e = (n, nd)" by (cases e)
  from Cons show ?case by (cases nd) (auto simp add: e)
qed

lemma sub_folders_presented:
  assumes "presents os p (FolderNode es)" and "(q, fs) \<in> set (sub_folders cfg p es)"
  shows "presents os q (FolderNode fs)"
proof -
  have "(q, fs) \<in> set (sub_folders cfg p es) \<Longrightarrow> \<exists>n. q = p @ [n] \<and> (n, FolderNode fs) \<in> set es"
  proof (induction es)
    case (Cons e es)
    then show ?case by (cases e) (auto split: node.splits if_splits)
  qed simp
  with assms(2) obtain n where q: "q = p @ [n]" "(n, FolderNode fs) \<in> set es" by blast
  from assms(1) have "\<forall>(n, nd)\<in>set es. presents os (p @ [n]) nd" by simp
  with q show ?thesis by blast
qed

lemma walk_tree:
  assumes "\<not> ic_follow_symlinks cfg" and "\<forall>(p, es)\<in>set st. presents os p (FolderNode es)"
  shows "\<exists>ps. walk os cfg (map fst st) found = Some (Inr ps) \<and>
    mset ps = mset found + mset (concat (map (folder_files cfg) st))"
  using assms(2)
proof (induction "sum_list (map (\<lambda>(q, fs). size (FolderNode fs)) st)" arbitrary: st found rule: less_induct)
  case less
  show ?case
  proof (cases st)
    case Nil
    then show ?thesis by (simp add: walk.simps)
  next
    case (Cons x st1)
    obtain p es where x: "x = (p, es)" by (cases x)
    have sh: "presents os p (FolderNode es)" using less.prems Cons x by simp
    let ?st = "rev (sub_folders cfg p es) @ st1"
    have "sum_list (map (\<lambda>(q, fs). size (FolderNode fs)) ?st) < sum_list (map (\<lambda>(q, fs). size (FolderNode fs)) st)"
      using sub_folders_size [of cfg p es] by (simp add: Cons x rev_map [symmetric] sum_list_rev del: node.size)
    moreover have "\<forall>(p, es)\<in>set ?st. presents os p (FolderNode es)"
      using less.prems Cons sub_folders_presented [OF sh] by (auto simp del: presents.simps)
    ultimately obtain ps where ps: "walk os cfg (map fst ?st) (found @ own_files cfg p es) = Some (Inr ps)"
        "mset ps = mset (found @ own_files cfg p es) + mset (concat (map (folder_files cfg) ?st))"
      using less.hyps by blast
    have "walk os cfg (map fst st) found = Some (Inr ps)"
      using sh ps(1) visit_entries_tree [OF assms(1), of os p es "map fst st1" found]
      by (subst walk.simps) (simp add: Cons x rev_map)
    moreover have "mset ps = mset found + mset (concat (map (folder_files cfg) st))"
      using ps(2) tree_files_split [of cfg p es] by (simp add: Cons x folder_files_def rev_map [symmetric] mset_concat)
    ultimately show ?thesis by blast
  qed
qed

section \<open>What indexing does to the store\<close>

text \<open>The content of a file as its reader delivers it.\<close>

definition file_data :: "os \<Rightarrow> fs_path \<Rightarrow> bytes option" where
  "file_data os p =
     (case os_open os p of
        None \<Rightarrow> None
      | Some reads \<Rightarrow> (case read_stream reads [] of Inl _ \<Rightarrow> None | Inr data \<Rightarrow> Some data))"

text \<open>The chunks of all files.\<close>

definition pieces :: "'c indexer_env \<Rightarrow> chunker \<Rightarrow> bytes set" where
  "pieces env ch = {chunk_bytes_of k | k p data ks. file_data (n_os env) p = Some data \<and>
     chunk_bytes (e_blake3 (n_cas env)) ch data = Some ks \<and> k \<in> set ks}"

lemma piecesI:
  "file_data (n_os env) p = Some data \<Longrightarrow> chunk_bytes (e_blake3 (n_cas env)) ch data = Some ks \<Longrightarrow>
     k \<in> set ks \<Longrightarrow> chunk_bytes_of k \<in> pieces env ch"
  by (auto simp add: pieces_def)

definition writes :: "'c cas_env \<Rightarrow> bytes list \<Rightarrow> 'c store \<Rightarrow> 'c store" where
  "writes env ds s = fold (\<lambda>d s. snd (write_object env d s)) ds s"

lemma writes_append: "writes env (ds @ es) s = writes env es (writes env ds s)"
  by (simp add: writes_def)

lemma writes_ok: "env_ok env \<Longrightarrow> store_ok env s \<Longrightarrow> store_ok env (writes env ds s)"
  unfolding writes_def using cas.ok_puts by blast

text \<open>An entry from which the file at \<open>p\<close> can be put together again.\<close>

definition entry_restores :: "'c indexer_env \<Rightarrow> 'c store \<Rightarrow> fs_path \<Rightarrow> manifest_entry \<Rightarrow> bool" where
  "entry_restores env s p e \<longleftrightarrow> path e = path_string p \<and>
     (\<exists>hs ds. chunk_hashes e = map (e_hex (n_cas env)) hs \<and>
        map (\<lambda>h. read_individual (n_cas env) h s) hs = map Inr ds \<and>
        file_data (n_os env) p = Some (concat ds))"

lemma entry_restores_writes:
  assumes "env_ok (n_cas env)" and "store_ok (n_cas env) s" and "entry_restores env s p e"
  shows "entry_restores env (writes (n_cas env) ds s) p e"
proof -
  from assms(3) obtain hs xs where x: "chunk_hashes e = map (e_hex (n_cas env)) hs"
      "map (\<lambda>h. read_individual (n_cas env) h s) hs = map Inr xs" "file_data (n_os env) p = Some (concat xs)"
      "path e = path_string p" by (auto simp add: entry_restores_def)
  have "read_individual (n_cas env) h (writes (n_cas env) ds s) = Inr d"
    if "read_individual (n_cas env) h s = Inr d" for h d
    unfolding writes_def using cas.get_puts_keeps assms(1,2) that by blast
  with x(2) have "map (\<lambda>h. read_individual (n_cas env) h (writes (n_cas env) ds s)) hs = map Inr xs"
    by (auto simp add: list_eq_iff_nth_eq)
  with x show ?thesis by (auto simp add: entry_restores_def)
qed

lemma chunk_stream_data:
  "valid_chunker ch \<Longrightarrow> read_stream reads [] = Inr data \<Longrightarrow>
     chunk_stream blake3 ch reads = map_option Inr (chunk_bytes blake3 ch data)"
  by (simp add: chunk_stream_def chunk_bytes_def chunk_stream_from_eq chunk_from.simps [of _ _ data])

lemma store_chunks_result:
  assumes "store_chunks env ks st = (r, st')"
  shows "\<exists>ds. in_store st' = writes env ds (in_store st) \<and> set ds \<subseteq> chunk_bytes_of ` set ks \<and>
    (\<forall>hs. r = Inr hs \<longrightarrow> ds = map chunk_bytes_of ks \<and> hs = map (\<lambda>k. e_hex env (chunk_hash k)) ks) \<and>
    in_chunker st' = in_chunker st \<and> in_config st' = in_config st \<and>
    ix_manifests (in_db st') = ix_manifests (in_db st)"
  using assms
proof (induction ks arbitrary: st r st')
  case Nil
  then show ?case by (intro exI [of _ "[]"]) (auto simp add: writes_def)
next
  case (Cons k ks)
  obtain w s1 where w: "write_object env (chunk_bytes_of k) (in_store st) = (w, s1)" by fastforce
  show ?case
  proof (cases w)
    case (Inl e)
    with Cons.prems w show ?thesis by (intro exI [of _ "[chunk_bytes_of k]"]) (auto simp add: writes_def)
  next
    case (Inr x)
    obtain j db1 where u: "upsert_chunk \<lparr>ce_hash = e_hex env (chunk_hash k),
        ce_size = word_of_nat (length (chunk_bytes_of k)), ce_ref_count = 1\<rparr> (in_db st) = (j, db1)" by fastforce
    have mk: "ix_manifests db1 = ix_manifests (in_db st)" using u by (auto simp add: upsert_chunk_def split: option.splits)
    obtain r1 st1 where m: "store_chunks env ks (st\<lparr>in_store := s1, in_db := db1\<rparr>) = (r1, st1)" by fastforce
    from Cons.IH [OF m] obtain ds where ds: "in_store st1 = writes env ds s1" "set ds \<subseteq> chunk_bytes_of ` set ks"
        "\<forall>hs. r1 = Inr hs \<longrightarrow> ds = map chunk_bytes_of ks \<and> hs = map (\<lambda>k. e_hex env (chunk_hash k)) ks"
        "in_chunker st1 = in_chunker st" "in_config st1 = in_config st" "ix_manifests (in_db st1) = ix_manifests db1" by auto
    have "st' = st1" and r: "r = and_then r1 (\<lambda>hs. Inr (e_hex env (chunk_hash k) # hs))"
      using Cons.prems w Inr u m by (auto simp add: Let_def)
    with ds mk w show ?thesis
      by (intro exI [of _ "chunk_bytes_of k # ds"]) (auto simp add: writes_def and_then_Inr_iff)
  qed
qed

text \<open>What one call leaves unchanged, and the writes it makes to the store.\<close>

definition indexed_by :: "'c indexer_env \<Rightarrow> bytes list \<Rightarrow> 'c indexer \<Rightarrow> 'c indexer \<Rightarrow> bool" where
  "indexed_by env ds st st' \<longleftrightarrow> in_store st' = writes (n_cas env) ds (in_store st) \<and>
     set ds \<subseteq> pieces env (in_chunker st) \<and> in_chunker st' = in_chunker st \<and> in_config st' = in_config st \<and>
     ix_manifests (in_db st') = ix_manifests (in_db st)"

lemma indexed_by_refl: "indexed_by env [] st st"
  by (simp add: indexed_by_def writes_def)

lemma indexed_by_trans:
  "indexed_by env ds st st1 \<Longrightarrow> indexed_by env es st1 st2 \<Longrightarrow> indexed_by env (ds @ es) st st2"
  by (simp add: indexed_by_def writes_append)

lemma index_file_result:
  assumes "valid_chunker (in_chunker st)" and "index_file env p st = Some (r, st')"
  shows "\<exists>ds. indexed_by env ds st st' \<and>
    (\<forall>e. r = Inr e \<longrightarrow> path e = path_string p \<and> (\<exists>data ks. file_data (n_os env) p = Some data \<and>
       chunk_bytes (e_blake3 (n_cas env)) (in_chunker st) data = Some ks \<and> ds = map chunk_bytes_of ks \<and>
       chunk_hashes e = map (\<lambda>k. e_hex (n_cas env) (chunk_hash k)) ks))"
proof (cases "st' = st \<and> \<not> is_ok r")
  case True
  then show ?thesis using indexed_by_refl [of env st] by (intro exI [of _ "[]"]) (auto simp add: is_ok_def)
next
  case False
  let ?c = "n_cas env"
  from assms(2) False obtain meta t reads where m: "os_metadata (n_os env) p = Some meta" "me_is_file meta"
      "me_modified meta = Some t" and o: "os_open (n_os env) p = Some reads"
    by (auto simp add: index_file_def is_ok_def split: option.splits if_splits)
  obtain data where d: "read_stream reads [] = Inr data"
    using assms(2) False m o by (cases "read_stream reads []") (auto simp add: index_file_def chunk_stream_def is_ok_def)
  obtain ks where ks: "chunk_bytes (e_blake3 ?c) (in_chunker st) data = Some ks"
      "chunk_stream (e_blake3 ?c) (in_chunker st) reads = Some (Inr ks)"
    using assms(2) m o chunk_stream_data [OF assms(1) d, of "e_blake3 ?c"]
    by (auto simp add: index_file_def)
  have fd: "file_data (n_os env) p = Some data" using o d by (simp add: file_data_def)
  have pc: "chunk_bytes_of ` set ks \<subseteq> pieces env (in_chunker st)"
    using piecesI [OF fd ks(1)] by blast
  obtain r1 st1 where s: "store_chunks ?c ks st = (r1, st1)" by fastforce
  from store_chunks_result [OF s] obtain ds where ds: "in_store st1 = writes ?c ds (in_store st)"
      "set ds \<subseteq> chunk_bytes_of ` set ks" "in_chunker st1 = in_chunker st" "in_config st1 = in_config st"
      "ix_manifests (in_db st1) = ix_manifests (in_db st)"
      "\<forall>hs. r1 = Inr hs \<longrightarrow> ds = map chunk_bytes_of ks \<and> hs = map (\<lambda>k. e_hex ?c (chunk_hash k)) ks"
    by blast
  have one: "indexed_by env ds st st1" using ds pc by (auto simp add: indexed_by_def)
  show ?thesis
  proof (cases r1)
    case (Inl e)
    then show ?thesis using assms(2) m o ks(2) s one by (auto simp add: index_file_def)
  next
    case (Inr hs)
    obtain j db2 where u: "upsert_file (n_index env) \<lparr>fe_path = path_string p, fe_size = me_size meta,
        fe_modified_at = t, fe_content_hash = calculate_file_hash ?c hs, fe_mode = me_mode meta\<rparr> (in_db st1) = (j, db2)"
      by fastforce
    have "st' = st1\<lparr>in_db := db2\<rparr>" and "r = Inr \<lparr>path = path_string p, file_size = me_size meta, modified_at = t,
        content_hash = calculate_file_hash ?c hs, chunk_hashes = hs, mode = me_mode meta\<rparr>"
      using assms(2) m o ks(2) s Inr u by (auto simp add: index_file_def Let_def)
    moreover have "ix_manifests db2 = ix_manifests (in_db st1)"
      using put_file_keys(2) u by (simp add: upsert_file_def)
    ultimately show ?thesis
      using one ds(6) Inr fd ks(1) by (intro exI [of _ ds]) (auto simp add: indexed_by_def)
  qed
qed

text \<open>A set of byte strings without collisions that holds everything the index may store.\<close>

definition collision_free :: "'c indexer_env \<Rightarrow> 'c indexer \<Rightarrow> bytes set \<Rightarrow> bool" where
  "collision_free env st U \<longleftrightarrow> inj_on (e_blake3 (n_cas env)) U \<and>
     insert [] (contents (in_store st) \<union> pieces env (in_chunker st)) \<subseteq> U"

lemma collision_free_after:
  assumes "env_ok (n_cas env)" and "store_ok (n_cas env) (in_store st)"
    and "collision_free env st U" and "indexed_by env ds st st'"
  shows "collision_free env st' U" and "store_ok (n_cas env) (in_store st')"
  using assms contents_writes [OF assms(1,2), of ds] writes_ok [OF assms(1,2), of ds]
  unfolding collision_free_def indexed_by_def by (auto simp add: writes_def)

lemma new_entry_restores:
  assumes ch: "new_chunker c = Inr (in_chunker st)" and ok: "env_ok (n_cas env)" "store_ok (n_cas env) (in_store st)"
    and U: "collision_free env st U" and one: "indexed_by env (map chunk_bytes_of ks) st st'"
    and ks: "chunk_bytes (e_blake3 (n_cas env)) (in_chunker st) data = Some ks"
      "file_data (n_os env) p = Some data" "path e = path_string p"
      "chunk_hashes e = map (\<lambda>k. e_hex (n_cas env) (chunk_hash k)) ks"
  shows "entry_restores env (in_store st') p e"
proof -
  let ?c = "n_cas env"
  obtain k0 where "chunk_bytes (e_blake3 ?c) (in_chunker st) data = Some k0" "concat (map chunk_bytes_of k0) = data"
      "chunks_at (e_blake3 ?c) 0 k0" "sized_chunks c k0"
    using cut_file [OF ch, of "e_blake3 ?c" data] by blast
  then have cut: "concat (map chunk_bytes_of ks) = data" "chunks_at (e_blake3 ?c) 0 ks" "sized_chunks c ks"
    using ks(1) by simp_all
  have "read_individual ?c (chunk_hash k) (in_store st') = Inr (chunk_bytes_of k)" if k: "k \<in> set ks" for k
  proof -
    note kk = chunks_at_set [OF cut(2) k]
    have kU: "chunk_bytes_of k \<in> U" "[] \<in> U" and inj: "inj_on (e_blake3 ?c) U"
      using U piecesI [OF ks(2,1) k] by (auto simp add: collision_free_def)
    have "length (chunk_bytes_of k) \<le> 16 * 1024 * 1024"
      using k cut(3) new_chunker_limits [OF ch] by (auto simp add: sized_chunks_def)
    moreover have "e_blake3 ?c (chunk_bytes_of k) \<noteq> e_blake3 ?c []"
      using inj_onD [OF inj _ kU] kk by blast
    ultimately have "storable ?c (chunk_bytes_of k)" using kk by (simp add: storable_def MAX_OBJECT_SIZE_def)
    moreover have "inj_on (e_blake3 ?c) (set (map chunk_bytes_of ks) \<union> contents (in_store st))"
      using inj by (rule inj_on_subset) (use U piecesI [OF ks(2,1)] in \<open>auto simp add: collision_free_def\<close>)
    ultimately show ?thesis
      using stored_object [OF ok, of "chunk_bytes_of k" "map chunk_bytes_of ks"] k kk one
      by (simp add: indexed_by_def writes_def)
  qed
  then have "map (\<lambda>h. read_individual ?c h (in_store st')) (map chunk_hash ks) = map Inr (map chunk_bytes_of ks)"
    by simp
  then show ?thesis using ks cut(1) unfolding entry_restores_def
    by (intro conjI exI [of _ "map chunk_hash ks"] exI [of _ "map chunk_bytes_of ks"]) simp_all
qed

lemma index_files_result:
  assumes ch: "new_chunker c = Inr (in_chunker st)" and env: "env_ok (n_cas env)"
    and "store_ok (n_cas env) (in_store st)" and "collision_free env st U"
    and "index_files env ps m st = Some (m', st')" and "\<forall>e\<in>set (files m). \<exists>p. entry_restores env (in_store st) p e"
  shows "\<forall>e\<in>set (files m'). \<exists>p. entry_restores env (in_store st') p e"
  using assms
proof (induction ps arbitrary: m st)
  case Nil
  then show ?case by simp
next
  case (Cons p ps)
  from Cons.prems(5) obtain r st1 where one: "index_file env p st = Some (r, st1)"
    and more: "index_files env ps (case r of Inl _ \<Rightarrow> m | Inr e \<Rightarrow> add_file e m) st1 = Some (m', st')"
    by (auto simp add: bind_eq_Some_conv)
  note v = new_chunker_valid [OF Cons.prems(1)]
  from index_file_result [OF conjunct1 [OF v] one] obtain ds where ds: "indexed_by env ds st st1"
      "\<forall>e. r = Inr e \<longrightarrow> path e = path_string p \<and> (\<exists>data ks. file_data (n_os env) p = Some data \<and>
       chunk_bytes (e_blake3 (n_cas env)) (in_chunker st) data = Some ks \<and> ds = map chunk_bytes_of ks \<and>
       chunk_hashes e = map (\<lambda>k. e_hex (n_cas env) (chunk_hash k)) ks)" by blast
  note after = collision_free_after [OF Cons.prems(2-4) ds(1)]
  have st1: "in_store st1 = writes (n_cas env) ds (in_store st)" and ch1: "in_chunker st1 = in_chunker st"
    using ds(1) by (simp_all add: indexed_by_def)
  have old: "\<forall>e\<in>set (files m). \<exists>p. entry_restores env (in_store st1) p e"
    using Cons.prems(6) entry_restores_writes [OF Cons.prems(2,3)] unfolding st1 by blast
  have "\<exists>p. entry_restores env (in_store st1) p e" if "r = Inr e" for e
    using new_entry_restores [OF Cons.prems(1-4)] ds that by metis
  with old have "\<forall>e\<in>set (files (case r of Inl _ \<Rightarrow> m | Inr e \<Rightarrow> add_file e m)). \<exists>p. entry_restores env (in_store st1) p e"
    by (cases r) (auto simp add: add_file_def)
  from Cons.IH [OF _ env after(2,1) more this] Cons.prems(1) ch1 show ?case by simp
qed

lemma index_files_keep:
  assumes "valid_chunker (in_chunker st)" and "index_files env ps m st = Some (m', st')"
  shows "folder_id m' = folder_id m \<and> version m' = version m \<and> in_chunker st' = in_chunker st \<and>
    in_config st' = in_config st \<and> ix_manifests (in_db st') = ix_manifests (in_db st)"
  using assms
proof (induction ps arbitrary: m st)
  case Nil
  then show ?case by simp
next
  case (Cons p ps)
  from Cons.prems(2) obtain r st1 where one: "index_file env p st = Some (r, st1)"
    and more: "index_files env ps (case r of Inl _ \<Rightarrow> m | Inr e \<Rightarrow> add_file e m) st1 = Some (m', st')"
    by (auto simp add: bind_eq_Some_conv)
  have "in_chunker st1 = in_chunker st" "in_config st1 = in_config st" "ix_manifests (in_db st1) = ix_manifests (in_db st)"
    using index_file_result [OF Cons.prems(1) one] by (auto simp add: indexed_by_def)
  with Cons.IH [OF _ more] Cons.prems(1) show ?case by (cases r) (simp_all add: add_file_def)
qed

text \<open>The version a folder is indexed under, and what a successful run went through.\<close>

definition next_version :: "'c indexer_env \<Rightarrow> fs_path \<Rightarrow> index_db \<Rightarrow> u64" where
  "next_version env canonical db =
     (case get_latest_manifest_version (path_to_folder_id (n_cas env) canonical) (path_string canonical) db of
        None \<Rightarrow> 0 | Some v \<Rightarrow> v) + 1"

lemma index_folder_cases:
  assumes "index_folder env now p st = Some (r, st')"
  obtains (early) e where "r = Inl e" "st' = st"
    | (indexed) canonical ps m st1 where "os_canonicalize (n_os env) p = Some canonical"
        "index_files env ps (new_manifest now (path_to_folder_id (n_cas env) canonical)
           (next_version env canonical (in_db st))) st = Some (m, st1)"
        "(r, st') = (let m1 = finalize (e_blake3 (n_cas env)) (n_hex_decode env) (e_hex (n_cas env)) m in
           case save_manifest (n_index env) m1 (in_db st1) of
             Inl e \<Rightarrow> (Inl e, st1) | Inr (_, db2) \<Rightarrow> (Inr m1, st1\<lparr>in_db := db2\<rparr>))"
proof (cases "os_canonicalize (n_os env) p")
  case None
  with assms early show thesis by (auto simp add: index_folder_def)
next
  case (Some c)
  with assms obtain w where w: "walk_directory (n_os env) (in_config st) p = Some w"
    by (auto simp add: index_folder_def Let_def bind_eq_Some_conv)
  show thesis
  proof (cases w)
    case (Inl e)
    with assms Some w early show thesis by (auto simp add: index_folder_def Let_def)
  next
    case (Inr ps)
    with assms Some w obtain m st1 where f: "index_files env ps
        (new_manifest now (path_to_folder_id (n_cas env) c) (next_version env c (in_db st))) st = Some (m, st1)"
      by (auto simp add: index_folder_def Let_def next_version_def)
    show thesis
      by (rule indexed [OF Some f]) (use assms Some w Inr f in \<open>simp add: index_folder_def next_version_def Let_def\<close>)
  qed
qed

lemma index_folder_Inr:
  assumes "index_folder env now p st = Some (Inr m, st')"
  obtains canonical ps m0 st1 i db where "os_canonicalize (n_os env) p = Some canonical"
    "index_files env ps (new_manifest now (path_to_folder_id (n_cas env) canonical)
       (next_version env canonical (in_db st))) st = Some (m0, st1)"
    "m = finalize (e_blake3 (n_cas env)) (n_hex_decode env) (e_hex (n_cas env)) m0"
    "save_manifest (n_index env) m (in_db st1) = Inr (i, db)" "st' = st1\<lparr>in_db := db\<rparr>"
  using assms
proof (cases rule: index_folder_cases)
  case (indexed canonical ps m0 st1)
  with that show thesis by (auto simp add: Let_def split: sum.splits prod.splits)
qed simp

text \<open>Only the walk can go on for ever.\<close>

lemma index_file_total: "valid_chunker (in_chunker st) \<Longrightarrow> index_file env p st \<noteq> None"
proof -
  assume v: "valid_chunker (in_chunker st)"
  have "chunk_stream blake3 (in_chunker st) reads \<noteq> None" for blake3 reads
  proof (cases "read_stream reads []")
    case (Inl e)
    then show ?thesis by (simp add: chunk_stream_def)
  next
    case (Inr data)
    with chunk_stream_data [OF v Inr] chunk_from_cuts [OF v, of blake3 data 0] show ?thesis
      by (auto simp add: chunk_bytes_def)
  qed
  then show ?thesis by (simp add: index_file_def del: not_None_eq split: option.splits)
qed

lemma index_files_total: "valid_chunker (in_chunker st) \<Longrightarrow> index_files env ps m st \<noteq> None"
proof (induction ps arbitrary: m st)
  case Nil
  then show ?case by simp
next
  case (Cons p ps)
  obtain r st1 where one: "index_file env p st = Some (r, st1)" using index_file_total [OF Cons.prems] by fastforce
  with index_file_result [OF Cons.prems one] Cons show ?case by (auto simp add: indexed_by_def)
qed

lemma index_folder_total:
  assumes "valid_chunker (in_chunker st)" and "walk_directory (n_os env) (in_config st) p \<noteq> None"
  shows "index_folder env now p st \<noteq> None"
  using assms index_files_total [OF assms(1)]
  by (auto simp add: index_folder_def Let_def bind_eq_None_conv simp del: not_None_eq split: option.splits sum.splits)

section \<open>Properties\<close>

text \<open>C12: The walk ends and finds the files of the tree: with symbolic links not followed, on any
  directory tree the operating system shows, it returns exactly the files that no ignore
  pattern hides, neither by their own name nor by that of a folder above them, in the order of
  their paths.\<close>

theorem walk_lists_tree:
  assumes "\<not> ic_follow_symlinks cfg" and "presents os p (FolderNode es)"
  shows "walk_directory os cfg p = Some (Inr (sort (tree_files cfg p (FolderNode es))))"
proof -
  obtain ps where "walk os cfg [p] [] = Some (Inr ps)" and "mset ps = mset (tree_files cfg p (FolderNode es))"
    using walk_tree [OF assms(1), of "[(p, es)]" os "[]"] assms(2) by (auto simp add: folder_files_def)
  then show ?thesis by (simp add: walk_directory_def properties_for_sort)
qed

text \<open>C11: Every entry of a manifest that indexing returns can be restored from the indexer's store:
  the chunk hashes, in their order, are readable, and what is read concatenates to the content
  of the file at the entry's path, if no two of the byte strings involved have the same hash.
  The manifest verifies.\<close>

theorem indexed_files_restorable:
  assumes "new_chunker c = Inr (in_chunker st)" and "env_ok (n_cas env)" and "store_ok (n_cas env) (in_store st)"
    and "inj_on (e_blake3 (n_cas env)) (insert [] (contents (in_store st) \<union> pieces env (in_chunker st)))"
    and "index_folder env now p st = Some (Inr m, st')"
  shows "verify (e_blake3 (n_cas env)) (n_hex_decode env) (e_hex (n_cas env)) m \<and>
    (\<forall>e\<in>set (files m). \<exists>q hs ds. path e = path_string q \<and> chunk_hashes e = map (e_hex (n_cas env)) hs \<and>
       map (\<lambda>h. read_individual (n_cas env) h (in_store st')) hs = map Inr ds \<and>
       file_data (n_os env) q = Some (concat ds))"
proof -
  from assms(5) obtain canonical ps m0 st1 i db where f: "index_files env ps
      (new_manifest now (path_to_folder_id (n_cas env) canonical) (next_version env canonical (in_db st))) st = Some (m0, st1)"
      "m = finalize (e_blake3 (n_cas env)) (n_hex_decode env) (e_hex (n_cas env)) m0" "st' = st1\<lparr>in_db := db\<rparr>"
    by (rule index_folder_Inr) blast
  have "collision_free env st (insert [] (contents (in_store st) \<union> pieces env (in_chunker st)))"
    using assms(4) by (simp add: collision_free_def)
  from index_files_result [OF assms(1-3) this f(1)]
  have "\<forall>e\<in>set (files m0). \<exists>p. entry_restores env (in_store st1) p e" by (simp add: new_manifest_def)
  with f show ?thesis by (force simp add: finalize_def verify_def calculate_hash_def entry_restores_def)
qed

text \<open>Every manifest is saved under the folder path \<open>/\<close>.\<close>

definition saved_under_root :: "'c indexer \<Rightarrow> bool" where
  "saved_under_root st \<longleftrightarrow> valid_chunker (in_chunker st) \<and>
     list_all (\<lambda>r. mf_folder_path r = ''/'') (ix_manifests (in_db st))"

lemma save_manifest_rows:
  "save_manifest env m db = Inr (i, db') \<Longrightarrow> \<exists>k. ix_manifests db' = ix_manifests db @ [manifest_row_of m k]"
  by (auto simp add: save_manifest_def and_then_Inr_iff insert_manifest_def manifest_row_of_def
      dest!: save_entries_manifests split: if_splits)

text \<open>A run adds at most the row of the manifest it returns.\<close>

lemma index_folder_rows:
  assumes "saved_under_root st" and "index_folder env now p st = Some (r, st')"
  shows "saved_under_root st' \<and> set (ix_manifests (in_db st)) \<subseteq> set (ix_manifests (in_db st')) \<and>
    (\<forall>m. r = Inr m \<longrightarrow> (\<exists>canonical i. os_canonicalize (n_os env) p = Some canonical \<and>
       folder_id m = path_to_folder_id (n_cas env) canonical \<and>
       version m = next_version env canonical (in_db st) \<and>
       as_i64 (version m) \<notin> set (map mf_version (manifests_of (folder_id m) ''/'' (in_db st))) \<and>
       manifest_row_of m i \<in> set (ix_manifests (in_db st'))))"
proof (cases r)
  case (Inl e)
  from assms(2) have "st' = st \<or> (\<exists>ps m m0. index_files env ps m st = Some (m0, st'))"
  proof (cases rule: index_folder_cases)
    case (indexed canonical ps m st1)
    with Inl show ?thesis by (auto simp add: Let_def split: sum.splits prod.splits)
  qed simp
  then have "in_chunker st' = in_chunker st \<and> ix_manifests (in_db st') = ix_manifests (in_db st)"
    using index_files_keep [of st env _ _ _ st'] assms(1) unfolding saved_under_root_def by blast
  with Inl assms(1) show ?thesis by (simp add: saved_under_root_def)
next
  case (Inr m)
  from assms(2) [unfolded Inr] obtain canonical ps m0 st1 i db where f: "os_canonicalize (n_os env) p = Some canonical"
    "index_files env ps (new_manifest now (path_to_folder_id (n_cas env) canonical)
       (next_version env canonical (in_db st))) st = Some (m0, st1)"
    "m = finalize (e_blake3 (n_cas env)) (n_hex_decode env) (e_hex (n_cas env)) m0"
    "save_manifest (n_index env) m (in_db st1) = Inr (i, db)" "st' = st1\<lparr>in_db := db\<rparr>"
    by (rule index_folder_Inr)
  have keep: "in_chunker st1 = in_chunker st" "ix_manifests (in_db st1) = ix_manifests (in_db st)"
      "folder_id m = path_to_folder_id (n_cas env) canonical" "version m = next_version env canonical (in_db st)"
    using index_files_keep [OF _ f(2)] assms(1) f(3) by (simp_all add: saved_under_root_def finalize_def new_manifest_def)
  obtain k where "ix_manifests db = ix_manifests (in_db st) @ [manifest_row_of m k]"
    using save_manifest_rows [OF f(4)] keep(2) by auto
  moreover have "as_i64 (version m) \<notin> set (map mf_version (manifests_of (folder_id m) ''/'' (in_db st)))"
    using f(4) keep(2) by (auto simp add: save_manifest_def and_then_Inr_iff insert_manifest_def manifests_of_def split: if_splits)
  ultimately show ?thesis
    using assms(1) keep f(1,5) Inr by (auto simp add: saved_under_root_def manifest_row_of_def)
qed

lemma next_version_1:
  assumes "saved_under_root st" and "path_string canonical \<noteq> ''/''"
  shows "next_version env canonical (in_db st) = 1"
proof -
  have "manifests_of i (path_string canonical) (in_db st) = []" for i
    using assms by (auto simp add: saved_under_root_def manifests_of_def list_all_iff filter_empty_conv)
  then show ?thesis by (simp add: next_version_def get_latest_manifest_version_def)
qed

text \<open>A folder under which version 1 is in the database is refused.\<close>

definition indexed_once :: "'c indexer_env \<Rightarrow> fs_path \<Rightarrow> index_db \<Rightarrow> bool" where
  "indexed_once env canonical db \<longleftrightarrow> (\<exists>r\<in>set (ix_manifests db).
     mf_device_id r = path_to_folder_id (n_cas env) canonical \<and> mf_version r = 1)"

lemma index_folder_once:
  assumes "saved_under_root st" and "index_folder env now p st = Some (Inr m, st')"
    and "os_canonicalize (n_os env) p = Some c" and "path_string c \<noteq> ''/''"
  shows "version m = 1" and "indexed_once env c (in_db st')" and "\<not> indexed_once env c (in_db st)"
proof -
  from index_folder_rows [OF assms(1,2)] assms(3) obtain i where m: "folder_id m = path_to_folder_id (n_cas env) c"
      "version m = next_version env c (in_db st)" "manifest_row_of m i \<in> set (ix_manifests (in_db st'))"
      "as_i64 (version m) \<notin> set (map mf_version (manifests_of (folder_id m) ''/'' (in_db st)))" by auto
  with next_version_1 [OF assms(1,4)] show v: "version m = 1" by simp
  show "indexed_once env c (in_db st')"
    unfolding indexed_once_def using m v by (intro bexI [of _ "manifest_row_of m i"]) (simp_all add: manifest_row_of_def as_i64_def)
  show "\<not> indexed_once env c (in_db st)"
    using assms(1) m v
    by (auto simp add: indexed_once_def saved_under_root_def list_all_iff manifests_of_def as_i64_def)
qed

lemma index_folder_Inl:
  assumes "valid_chunker (in_chunker st)" and "index_folder env now p st = Some (Inl e, st')"
  shows "ix_manifests (in_db st') = ix_manifests (in_db st)"
  using assms(2)
proof (cases rule: index_folder_cases)
  case (indexed c ps m st1)
  with index_files_keep [OF assms(1) indexed(2)] show ?thesis
    by (auto simp add: Let_def split: sum.splits prod.splits)
qed simp

lemma index_folder_config:
  assumes "index_folder env now p st = Some (Inr m, st')" and "valid_chunker (in_chunker st)"
  shows "in_config st' = in_config st"
  by (rule index_folder_Inr [OF assms(1)]) (use index_files_keep [OF assms(2)] in auto)

text \<open>Runs of the indexer on folders, each with its own time and state of the file system.\<close>

fun index_runs :: "('c indexer_env \<times> date_time \<times> fs_path) list \<Rightarrow> 'c indexer \<Rightarrow> 'c indexer option" where
  "index_runs [] st = Some st"
| "index_runs ((env, now, p) # rs) st =
     Option.bind (index_folder env now p st) (\<lambda>(_, st1). index_runs rs st1)"

lemma index_runs_rows:
  "saved_under_root st \<Longrightarrow> index_runs rs st = Some st' \<Longrightarrow>
     saved_under_root st' \<and> set (ix_manifests (in_db st)) \<subseteq> set (ix_manifests (in_db st'))"
proof (induction rs arbitrary: st)
  case Nil
  then show ?case by simp
next
  case (Cons x rs)
  obtain env now p where x: "x = (env, now, p)" by (cases x)
  with Cons.prems(2) obtain r st1 where "index_folder env now p st = Some (r, st1)" "index_runs rs st1 = Some st'"
    by (auto simp add: bind_eq_Some_conv)
  with index_folder_rows [OF Cons.prems(1)] Cons.IH show ?case by blast
qed

text \<open>A folder is indexed successfully only once: the version is looked up under the folder's
  path, but saved under \<open>/\<close>, so every run computes version 1, and once a manifest of a folder
  other than the root directory is in the database, every later run on it fails, whatever was
  indexed in between and however the file system changed.\<close>

theorem folder_is_indexed_only_once:
  assumes "saved_under_root st" and "index_folder env now p st = Some (Inr m, st1)"
    and "index_runs runs st1 = Some st2"
    and "n_cas env' = n_cas env" and "os_canonicalize (n_os env') p' = os_canonicalize (n_os env) p"
    and "\<forall>c. os_canonicalize (n_os env) p = Some c \<longrightarrow> path_string c \<noteq> ''/''"
    and "index_folder env' now' p' st2 = Some (r, st3)"
  shows "version m = 1 \<and> (\<exists>e. r = Inl e)"
proof -
  note first = index_folder_rows [OF assms(1,2)]
  then obtain c where c: "os_canonicalize (n_os env) p = Some c" by blast
  with assms(6) have root: "path_string c \<noteq> ''/''" by simp
  note one = index_folder_once [OF assms(1,2) c root]
  note between = index_runs_rows [OF conjunct1 [OF first] assms(3)]
  have "indexed_once env' c (in_db st2)" using one(2) between assms(4) by (auto simp add: indexed_once_def)
  then have "\<exists>e. r = Inl e"
    using index_folder_once(3) [OF conjunct1 [OF between] _ _ root] assms(5,7) c by (cases r) auto
  with one(1) show ?thesis ..
qed

section \<open>A folder with one file and one hidden folder\<close>

definition sample_tree :: "(string \<times> node) list" where
  "sample_tree = [(''.git'', FolderNode []), (''a'', FileNode)]"

definition sample_content :: bytes where
  "sample_content = replicate 300 1"

definition sample_os :: os where
  "sample_os = \<lparr>os_canonicalize = Some,
     os_read_dir = (\<lambda>p. if p = [''d''] then Some [([''d'', ''.git''], Directory), ([''d'', ''a''], RegularFile)] else Some []),
     os_read_link = (\<lambda>_. None), os_is_file = (\<lambda>p. p = [''d'', ''a'']), os_is_dir = (\<lambda>p. p \<noteq> [''d'', ''a'']),
     os_metadata = (\<lambda>p. Some \<lparr>me_is_file = True, me_size = 300, me_modified = Some 7, me_mode = Some 420\<rparr>),
     os_open = (\<lambda>p. Some [Inr sample_content, Inr []])\<rparr>"

lemma sample_presented: "presents sample_os [''d''] (FolderNode sample_tree)"
  by (simp add: sample_tree_def sample_os_def)

lemma walk_lists_tree_sample:
  "walk_directory sample_os default_indexer_config [''d''] = Some (Inr [[''d'', ''a'']])"
  by (simp add: walk_directory_def walk.simps sample_os_def should_ignore_def default_indexer_config_def glob_match_def
      starts_with_def ends_with_def)

lemma walk_lists_tree_witness:
  "walk_directory sample_os default_indexer_config [''d''] = Some (Inr [[''d'', ''a'']])"
proof -
  have "\<not> ic_follow_symlinks default_indexer_config" by (simp add: default_indexer_config_def)
  from walk_lists_tree [OF this sample_presented] show ?thesis
    by (simp add: sample_tree_def should_ignore_def default_indexer_config_def glob_match_def starts_with_def ends_with_def)
qed

definition sample_indexer_env :: "(content_hash \<times> cached_chunk) list indexer_env" where
  "sample_indexer_env = \<lparr>n_cas = sample_env 1, n_index = sample_index_env, n_hex_decode = (\<lambda>_. None), n_os = sample_os\<rparr>"

definition sample_indexer :: "chunker \<Rightarrow> (content_hash \<times> cached_chunk) list indexer" where
  "sample_indexer ch = \<lparr>in_chunker = ch, in_store = new_store (sample_env 1) rev default_cas_config None 0 [],
     in_db = new_index_db, in_config = default_indexer_config\<rparr>"

lemma sample_one_chunk:
  assumes "new_chunker default_config = Inr ch"
  shows "\<exists>k. chunk_bytes blake3 ch sample_content = Some [k] \<and> chunk_bytes_of k = sample_content"
proof -
  obtain ks where ks: "chunk_bytes blake3 ch sample_content = Some ks"
      "concat (map chunk_bytes_of ks) = sample_content" "sized_chunks default_config ks"
    using cut_file [OF assms] by blast
  have "length (chunk_bytes_of k) \<le> 300" if "k \<in> set ks" for k
    using chunk_length_le [OF that] unfolding ks(2) by (simp add: sample_content_def)
  moreover have "256 * 1024 \<le> length (chunk_bytes_of k)" if "k \<in> set (butlast ks)" for k
    using that ks(3) by (simp add: sized_chunks_def default_config_def)
  ultimately have "k \<notin> set (butlast ks)" for k using in_set_butlastD [of k ks] by fastforce
  then have one: "butlast ks = []" by (metis equals0I set_empty)
  have "ks \<noteq> []" using ks(2) by (auto simp add: sample_content_def)
  with one have "ks = [last ks]" by (metis append_butlast_last_id append_Nil)
  then obtain k where "ks = [k]" ..
  with ks(1,2) show ?thesis by auto
qed

lemma write_object_succeeds:
  "object_size_ok data = Inr u \<Longrightarrow> \<exists>r. fst (write_object env data s) = Inr r"
  by (auto simp add: write_object_def write_individual_def Let_def split: option.splits)

lemma sample_indexed:
  assumes ch: "new_chunker default_config = Inr ch"
  shows "\<exists>m st. index_folder sample_indexer_env 5 [''d''] (sample_indexer ch) = Some (Inr m, st) \<and> files m \<noteq> []"
proof -
  let ?c = "sample_env 1" and ?st = "sample_indexer ch"
  obtain k where k: "chunk_bytes (e_blake3 ?c) ch sample_content = Some [k]" "chunk_bytes_of k = sample_content"
    using sample_one_chunk [OF ch] by blast
  have "read_stream [Inr sample_content, Inr []] [] = Inr sample_content" by (simp add: sample_content_def)
  then have cs: "chunk_stream (e_blake3 ?c) ch [Inr sample_content, Inr []] = Some (Inr [k])"
    using chunk_stream_data [OF conjunct1 [OF new_chunker_valid [OF ch]]] k(1) by simp
  have "object_size_ok sample_content = Inr ()"
    by (simp add: object_size_ok_def validate_object_size_def MAX_OBJECT_SIZE_def sample_content_def)
  then obtain r s1 where w: "write_object ?c sample_content (in_store ?st) = (Inr r, s1)"
    using write_object_succeeds [of sample_content "()" ?c "in_store ?st"] by (metis prod.collapse)
  have env: "n_cas sample_indexer_env = ?c" "n_index sample_indexer_env = sample_index_env"
    by (simp_all add: sample_indexer_env_def)
  have sample_in_db: "in_db ?st = new_index_db" by (simp add: sample_indexer_def)
  let ?hs = "[e_hex ?c (chunk_hash k)]"
  let ?f = "\<lparr>fe_path = ''/d/a'', fe_size = 300, fe_modified_at = 7,
    fe_content_hash = calculate_file_hash ?c ?hs, fe_mode = Some 420\<rparr> :: file_entry"
  let ?e = "\<lparr>path = ''/d/a'', file_size = 300, modified_at = 7, content_hash = calculate_file_hash ?c ?hs,
    chunk_hashes = ?hs, mode = Some 420\<rparr> :: manifest_entry"
  let ?db = "snd (upsert_file sample_index_env ?f (snd (upsert_chunk \<lparr>ce_hash = e_hex ?c (chunk_hash k),
    ce_size = 300, ce_ref_count = 1\<rparr> new_index_db)))"
  have "index_file sample_indexer_env [''d'', ''a''] ?st = Some (Inr ?e, ?st\<lparr>in_store := s1, in_db := ?db\<rparr>)"
    using cs w k(2) by (simp add: index_file_def sample_indexer_env_def sample_os_def sample_indexer_def
        Let_def split_beta path_string_def sample_content_def)
  then have files: "index_files sample_indexer_env [[''d'', ''a'']] m ?st =
      Some (add_file ?e m, ?st\<lparr>in_store := s1, in_db := ?db\<rparr>)" for m by simp
  have "walk_directory (n_os sample_indexer_env) (in_config ?st) [''d''] = Some (Inr [[''d'', ''a'']])"
    using walk_lists_tree_sample by (simp add: sample_indexer_env_def sample_indexer_def)
  moreover have "os_canonicalize (n_os sample_indexer_env) [''d''] = Some [''d'']"
    by (simp add: sample_indexer_env_def sample_os_def)
  moreover have "is_ok (save_manifest sample_index_env m ?db)" if "files m = [?e]" for m
    using that by (simp add: save_manifest_def insert_manifest_def manifests_of_def upsert_file_def upsert_chunk_def
        new_index_db_def put_file_def Let_def insert_link_def entry_of_def is_ok_def)
  moreover define m where "m = finalize (e_blake3 ?c) (n_hex_decode sample_indexer_env) (e_hex ?c)
    (add_file ?e (new_manifest 5 (path_to_folder_id ?c [''d'']) (next_version sample_indexer_env [''d''] new_index_db)))"
  moreover have "files m = [?e]" by (simp add: m_def finalize_def add_file_def new_manifest_def)
  ultimately obtain i db where sv: "save_manifest sample_index_env m ?db = Inr (i, db)"
    and "walk_directory (n_os sample_indexer_env) (in_config ?st) [''d''] = Some (Inr [[''d'', ''a'']])"
      "os_canonicalize (n_os sample_indexer_env) [''d''] = Some [''d'']"
    by (metis is_ok_iff prod.collapse)
  then have "index_folder sample_indexer_env 5 [''d''] ?st = Some (Inr m, ?st\<lparr>in_store := s1, in_db := db\<rparr>)"
    using sv by (simp add: index_folder_def Let_def files m_def next_version_def env sample_in_db del: index_files.simps)
  with \<open>files m = [?e]\<close> show ?thesis by (intro exI conjI) auto
qed

lemma sample_pieces:
  assumes "new_chunker default_config = Inr ch"
  shows "pieces sample_indexer_env ch = {sample_content}"
proof -
  obtain k where "chunk_bytes (e_blake3 (sample_env 1)) ch sample_content = Some [k]" "chunk_bytes_of k = sample_content"
    using sample_one_chunk [OF assms] by blast
  moreover have "file_data sample_os p = Some sample_content" for p
    by (simp add: file_data_def sample_os_def sample_content_def)
  ultimately show ?thesis by (auto simp add: pieces_def sample_indexer_env_def)
qed

lemma indexed_files_restorable_witness:
  "\<exists>ch m st. new_chunker default_config = Inr ch \<and>
    index_folder sample_indexer_env 5 [''d''] (sample_indexer ch) = Some (Inr m, st) \<and> files m \<noteq> [] \<and>
    (\<forall>e\<in>set (files m). \<exists>q hs ds. path e = path_string q \<and> chunk_hashes e = map sample_digits hs \<and>
       map (\<lambda>h. read_individual (sample_env 1) h (in_store st)) hs = map Inr ds \<and> concat ds = sample_content)"
proof -
  let ?c = "sample_env 1"
  obtain ch where ch: "new_chunker default_config = Inr ch"
    by (simp add: new_chunker_def validate_config_def default_config_def)
  obtain m st where f: "index_folder sample_indexer_env 5 [''d''] (sample_indexer ch) = Some (Inr m, st)" "files m \<noteq> []"
    using sample_indexed [OF ch] by blast
  have c: "n_cas sample_indexer_env = ?c" "in_chunker (sample_indexer ch) = ch"
      "in_store (sample_indexer ch) = new_store ?c rev default_cas_config None 0 []"
    by (simp_all add: sample_indexer_env_def sample_indexer_def)
  have "store_ok ?c (new_store ?c rev default_cas_config None 0 [])"
    by (rule store_ok_new [OF sample_env_ok iter_order_rev])
  moreover have "contents (new_store ?c rev default_cas_config None 0 []) = {}"
    by (simp add: contents_def new_store_empty [of rev] hm.get_empty ran_def)
  moreover have "e_blake3 ?c sample_content \<noteq> e_blake3 ?c []"
    by (simp add: sample_content_def sample_env_def pad_hash_def numeral_eq_Suc)
  ultimately have inj: "inj_on (e_blake3 (n_cas sample_indexer_env)) (insert [] (contents (in_store (sample_indexer ch)) \<union>
      pieces sample_indexer_env (in_chunker (sample_indexer ch))))"
    and s: "store_ok (n_cas sample_indexer_env) (in_store (sample_indexer ch))"
    by (auto simp add: c sample_pieces [OF ch])
  have "env_ok (n_cas sample_indexer_env)" and "new_chunker default_config = Inr (in_chunker (sample_indexer ch))"
    using ch by (simp_all add: c sample_env_ok)
  from indexed_files_restorable [OF this(2,1) s inj f(1)]
  have "\<forall>e\<in>set (files m). \<exists>q hs ds. path e = path_string q \<and> chunk_hashes e = map (e_hex ?c) hs \<and>
       map (\<lambda>h. read_individual ?c h (in_store st)) hs = map Inr ds \<and> file_data (n_os sample_indexer_env) q = Some (concat ds)"
    by (simp add: c)
  moreover have "\<And>q. file_data (n_os sample_indexer_env) q = Some sample_content"
    by (simp add: file_data_def sample_indexer_env_def sample_os_def sample_content_def)
  moreover have "e_hex ?c = sample_digits" by (simp add: sample_env_def)
  ultimately have "\<forall>e\<in>set (files m). \<exists>q hs ds. path e = path_string q \<and> chunk_hashes e = map sample_digits hs \<and>
       map (\<lambda>h. read_individual (sample_env 1) h (in_store st)) hs = map Inr ds \<and> concat ds = sample_content"
    by (metis option.inject)
  with ch f show ?thesis by blast
qed

text \<open>The same folder again.\<close>

lemma folder_is_indexed_only_once_witness:
  "\<exists>ch m st e st2. index_folder sample_indexer_env 5 [''d''] (sample_indexer ch) = Some (Inr m, st) \<and>
     index_folder sample_indexer_env 6 [''d''] st = Some (Inl e, st2)"
proof -
  obtain ch where ch: "new_chunker default_config = Inr ch"
    by (simp add: new_chunker_def validate_config_def default_config_def)
  obtain m st where f: "index_folder sample_indexer_env 5 [''d''] (sample_indexer ch) = Some (Inr m, st)"
    using sample_indexed [OF ch] by blast
  have ok: "saved_under_root (sample_indexer ch)"
    using new_chunker_valid [OF ch] by (simp add: saved_under_root_def sample_indexer_def new_index_db_def)
  have root: "\<forall>c. os_canonicalize (n_os sample_indexer_env) [''d''] = Some c \<longrightarrow> path_string c \<noteq> ''/''"
    by (simp add: sample_indexer_env_def sample_os_def path_string_def)
  have "in_config st = default_indexer_config"
    using index_folder_config [OF f] ok by (simp add: sample_indexer_def saved_under_root_def)
  then have "walk_directory (n_os sample_indexer_env) (in_config st) [''d''] \<noteq> None"
    using walk_lists_tree_sample by (simp add: sample_indexer_env_def)
  moreover have "valid_chunker (in_chunker st)" using index_folder_rows [OF ok f] by (simp add: saved_under_root_def)
  ultimately obtain r st2 where again: "index_folder sample_indexer_env 6 [''d''] st = Some (r, st2)"
    using index_folder_total [of st sample_indexer_env "[''d'']" 6] by fastforce
  have "index_runs [] st = Some st" by simp
  from folder_is_indexed_only_once [OF ok f this refl refl root again] f again show ?thesis by blast
qed

end
