(* ===== verification/Daemon.thy ===== *)
theory Daemon
  imports Indexer Machines
begin

text \<open>
  The daemon's actor (\<open>landro-daemon/src/orchestrator.rs\<close>): the messages it handles, the
  debouncing of file changes, the retry of failed operations, and the pipeline of a file through
  chunker, store and index.

  The actor's own store and the indexer's open the same directory, so they share their object
  files and nothing else.  Tasks that are spawned together run one after the other, in the order
  \<open>d_tasks\<close> gives; the keys of the peer map are visited in the order \<open>d_peers\<close> gives.  What the
  callbacks were called with is kept in \<open>dm_calls\<close>.  The QUIC server, log output and the address
  and last sighting of a peer are left out.
\<close>

section \<open>Messages, configuration and state\<close>

datatype file_event_kind = Created | Modified | Deleted | Renamed fs_path fs_path

record file_event =
  ev_path :: fs_path
  ev_kind :: file_event_kind

record peer_info =
  pi_device_id :: string
  pi_device_name :: string
  pi_capabilities :: "string list"
  pi_version :: string

record orchestrator_status =
  os_running :: bool
  os_active_peers :: nat
  os_pending_changes :: nat
  os_synced_folders :: "fs_path list"
  os_total_bytes_synced :: u64
  os_current_operations :: "string list"

datatype orchestrator_message =
    FileChanged file_event
  | FileChangesBatch "file_event list"
  | PeerDiscovered peer_info
  | PeerLost string
  | SyncRequested string fs_path
  | AddSyncFolder fs_path
  | RemoveSyncFolder fs_path
  | GetStatus
  | Shutdown

record orchestrator_config =
  oc_max_concurrent_chunks :: nat
  oc_debounce_duration :: nat
  oc_auto_sync :: bool
  oc_max_retries :: nat
  oc_batch_size :: nat

definition default_orchestrator_config :: orchestrator_config where
  "default_orchestrator_config = \<lparr>oc_max_concurrent_chunks = 4, oc_debounce_duration = 500 * 1000000,
     oc_auto_sync = True, oc_max_retries = 3, oc_batch_size = 100\<rparr>"

record pending_op =
  po_path :: fs_path
  po_kind :: file_event_kind
  po_retry_count :: nat
  po_last_attempt :: nat

datatype daemon_call =
    PeerSyncNeeded string "fs_path list"
  | ManifestReady fs_path
  | StatusSent orchestrator_status

datatype daemon_error =
    DaemonIo
  | ChunkingFailed
  | StoreFailed cas_error
  | IndexFailed index_error
  | NoSuchPath fs_path
  | NotADirectory fs_path

record 'c daemon =
  dm_config :: orchestrator_config
  dm_chunker :: chunker
  dm_store :: "'c store"
  dm_indexer :: "'c indexer"
  dm_sync_callback :: bool
  dm_manifest_callback :: bool
  dm_synced_folders :: "fs_path list"
  dm_active_peers :: "(string, peer_info) hmap"
  dm_pending_operations :: "pending_op list"
  dm_current_operations :: "string list"
  dm_total_bytes_synced :: u64
  dm_debounce_buffer :: "file_event list"
  dm_last_debounce :: nat
  dm_calls :: "daemon_call list"

record 'c daemon_env =
  d_index :: "'c indexer_env"
  d_now :: date_time
  d_exists :: "fs_path \<Rightarrow> bool"
  d_tasks :: "fs_path list \<Rightarrow> fs_path list"
  d_peers :: "string list \<Rightarrow> string list"

definition new_daemon ::
  "orchestrator_config \<Rightarrow> 'c store \<Rightarrow> chunker \<Rightarrow> 'c indexer \<Rightarrow> nat \<Rightarrow> 'c daemon" where
  "new_daemon cfg s ch ix now = \<lparr>dm_config = cfg, dm_chunker = ch, dm_store = s, dm_indexer = ix,
     dm_sync_callback = False, dm_manifest_callback = False, dm_synced_folders = [], dm_active_peers = [],
     dm_pending_operations = [], dm_current_operations = [], dm_total_bytes_synced = 0,
     dm_debounce_buffer = [], dm_last_debounce = now, dm_calls = []\<rparr>"

definition set_peer_sync_callback :: "'c daemon \<Rightarrow> 'c daemon" where
  "set_peer_sync_callback st = st\<lparr>dm_sync_callback := True\<rparr>"

definition set_manifest_ready_callback :: "'c daemon \<Rightarrow> 'c daemon" where
  "set_manifest_ready_callback st = st\<lparr>dm_manifest_callback := True\<rparr>"

definition call :: "daemon_call \<Rightarrow> 'c daemon \<Rightarrow> 'c daemon" where
  "call c st = st\<lparr>dm_calls := dm_calls st @ [c]\<rparr>"

section \<open>Files through the pipeline\<close>

text \<open>The shared directory of objects: before the indexer runs it holds what the actor's store
  wrote, and afterwards the other way round.\<close>

definition daemon_index ::
  "'c daemon_env \<Rightarrow> fs_path \<Rightarrow> 'c daemon \<Rightarrow> ((daemon_error + unit) \<times> 'c daemon) option" where
  "daemon_index env p st =
     (let ix = dm_indexer st;
          ix1 = ix\<lparr>in_store := (in_store ix)\<lparr>s_files := s_files (dm_store st)\<rparr>\<rparr> in
      map_option (\<lambda>(r, ix2). (and_then (map_err IndexFailed r) (\<lambda>_. Inr ()),
          st\<lparr>dm_indexer := ix2, dm_store := (dm_store st)\<lparr>s_files := s_files (in_store ix2)\<rparr>\<rparr>))
        (index_folder (d_index env) (d_now env) p ix1))"

fun write_chunks :: "'c cas_env \<Rightarrow> chunk list \<Rightarrow> 'c store \<Rightarrow> (daemon_error + unit) \<times> 'c store" where
  "write_chunks env [] s = (Inr (), s)"
| "write_chunks env (k # ks) s =
     (case write_object env (chunk_bytes_of k) s of
        (Inl e, s1) \<Rightarrow> (Inl (StoreFailed e), s1)
      | (Inr _, s1) \<Rightarrow> write_chunks env ks s1)"

definition store_bytes ::
  "'c daemon_env \<Rightarrow> bytes \<Rightarrow> 'c daemon \<Rightarrow> ((daemon_error + unit) \<times> 'c daemon) option" where
  "store_bytes env data st =
     (let c = n_cas (d_index env) in
      map_option (\<lambda>ks. let (r, s) = write_chunks c ks (dm_store st) in (r, st\<lparr>dm_store := s\<rparr>))
        (chunk_bytes (e_blake3 c) (dm_chunker st) data))"

text \<open>The parent of a path, if it has one.\<close>

definition parent_of :: "fs_path \<Rightarrow> fs_path option" where
  "parent_of p = (if p = [] then None else Some (butlast p))"

definition index_parent ::
  "'c daemon_env \<Rightarrow> fs_path \<Rightarrow> 'c daemon \<Rightarrow> ((daemon_error + unit) \<times> 'c daemon) option" where
  "index_parent env p st = (case parent_of p of None \<Rightarrow> Some (Inr (), st) | Some d \<Rightarrow> daemon_index env d st)"

datatype file_operation = CreateFile | ModifyFile | DeleteFile

text \<open>\<open>None\<close> if a loop does not return or the code panics.\<close>

definition process_single_file ::
  "'c daemon_env \<Rightarrow> file_operation \<Rightarrow> fs_path \<Rightarrow> 'c daemon \<Rightarrow> ((daemon_error + unit) \<times> 'c daemon) option" where
  "process_single_file env op p st =
     (let os = n_os (d_index env) in
      case op of
        DeleteFile \<Rightarrow> Some (Inr (), st)
      | _ \<Rightarrow>
          if os_is_file os p then
            (case file_data os p of
               None \<Rightarrow> Some (Inl DaemonIo, st)
             | Some content \<Rightarrow>
                 Option.bind (store_bytes env content st) (\<lambda>(r, st1).
                   case r of Inl e \<Rightarrow> Some (Inl e, st1) | Inr _ \<Rightarrow> index_parent env p st1))
          else if os_is_dir os p then daemon_index env p st
          else Some (Inr (), st))"

text \<open>The results of tasks are only logged.\<close>

fun run_tasks :: "'c daemon_env \<Rightarrow> file_operation \<Rightarrow> fs_path list \<Rightarrow> 'c daemon \<Rightarrow> 'c daemon option" where
  "run_tasks env op [] st = Some st"
| "run_tasks env op (p # ps) st =
     Option.bind (process_single_file env op p st) (\<lambda>(_, st1). run_tasks env op ps st1)"

function group_list :: "nat \<Rightarrow> 'a list \<Rightarrow> 'a list list" where
  "group_list n xs = (if xs = [] then [] else take (max 1 n) xs # group_list n (drop (max 1 n) xs))"
  by pat_completeness auto
termination
  by (relation "measure (\<lambda>(_, xs). length xs)") (auto simp add: max_def)

declare group_list.simps [simp del]

text \<open>At most \<open>oc_max_concurrent_chunks\<close> tasks at a time, but at least one.\<close>

fun run_groups :: "'c daemon_env \<Rightarrow> file_operation \<Rightarrow> fs_path list list \<Rightarrow> 'c daemon \<Rightarrow> 'c daemon option" where
  "run_groups env op [] st = Some st"
| "run_groups env op (g # gs) st =
     Option.bind (run_tasks env op (d_tasks env g) st) (run_groups env op gs)"

definition process_file_batch ::
  "'c daemon_env \<Rightarrow> file_operation \<Rightarrow> fs_path list \<Rightarrow> 'c daemon \<Rightarrow> 'c daemon option" where
  "process_file_batch env op ps st = run_groups env op (group_list (oc_max_concurrent_chunks (dm_config st)) ps) st"

fun process_batches ::
  "'c daemon_env \<Rightarrow> file_operation \<Rightarrow> fs_path list list \<Rightarrow> 'c daemon \<Rightarrow> 'c daemon option" where
  "process_batches env op [] st = Some st"
| "process_batches env op (b # bs) st =
     Option.bind (process_file_batch env op b st) (process_batches env op bs)"

text \<open>\<open>chunks(0)\<close> panics, even on an empty list.\<close>

definition process_paths ::
  "'c daemon_env \<Rightarrow> file_operation \<Rightarrow> fs_path list \<Rightarrow> 'c daemon \<Rightarrow> 'c daemon option" where
  "process_paths env op ps st =
     (let n = oc_batch_size (dm_config st) in
      if n = 0 then None else process_batches env op (group_list n ps) st)"

section \<open>Peers and callbacks\<close>

definition trigger_auto_sync :: "'c daemon_env \<Rightarrow> 'c daemon \<Rightarrow> 'c daemon" where
  "trigger_auto_sync env st =
     (if dm_sync_callback st
      then fold (\<lambda>i. call (PeerSyncNeeded i (dm_synced_folders st))) (d_peers env (map fst (dm_active_peers st))) st
      else st)"

definition handle_peer_discovered :: "peer_info \<Rightarrow> 'c daemon \<Rightarrow> 'c daemon" where
  "handle_peer_discovered p st =
     (let st1 = st\<lparr>dm_active_peers := hm_put (pi_device_id p) p (dm_active_peers st)\<rparr> in
      if dm_synced_folders st1 \<noteq> [] \<and> oc_auto_sync (dm_config st1) then st1
      else if dm_sync_callback st1 then call (PeerSyncNeeded (pi_device_id p) (dm_synced_folders st1)) st1
      else st1)"

definition handle_peer_lost :: "string \<Rightarrow> 'c daemon \<Rightarrow> 'c daemon" where
  "handle_peer_lost i st = st\<lparr>dm_active_peers := hm_del i (dm_active_peers st),
     dm_pending_operations := filter (\<lambda>_. True) (dm_pending_operations st)\<rparr>"

section \<open>Debounced changes\<close>

definition creates_of :: "file_event list \<Rightarrow> fs_path list" where
  "creates_of es = concat (map (\<lambda>e. case ev_kind e of Created \<Rightarrow> [ev_path e] | Renamed _ to_path \<Rightarrow> [to_path] | _ \<Rightarrow> []) es)"

definition modifies_of :: "file_event list \<Rightarrow> fs_path list" where
  "modifies_of es = concat (map (\<lambda>e. case ev_kind e of Modified \<Rightarrow> [ev_path e] | _ \<Rightarrow> []) es)"

definition deletes_of :: "file_event list \<Rightarrow> fs_path list" where
  "deletes_of es = concat (map (\<lambda>e. case ev_kind e of Deleted \<Rightarrow> [ev_path e] | Renamed from_path _ \<Rightarrow> [from_path] | _ \<Rightarrow> []) es)"

definition process_debounced_changes :: "'c daemon_env \<Rightarrow> nat \<Rightarrow> 'c daemon \<Rightarrow> 'c daemon option" where
  "process_debounced_changes env now st =
     (if dm_debounce_buffer st = [] then Some st
      else if now - dm_last_debounce st < oc_debounce_duration (dm_config st) then Some st
      else
        let changes = dm_debounce_buffer st;
            st1 = st\<lparr>dm_debounce_buffer := [], dm_last_debounce := now\<rparr> in
        Option.bind (process_paths env CreateFile (creates_of changes) st1) (\<lambda>st2.
        Option.bind (process_paths env ModifyFile (modifies_of changes) st2) (\<lambda>st3.
        Option.bind (process_paths env DeleteFile (deletes_of changes) st3) (\<lambda>st4.
          Some (if oc_auto_sync (dm_config st4) \<and> dm_active_peers st4 \<noteq> [] then trigger_auto_sync env st4
            else st4)))))"

text \<open>One pending operation: kept or dropped, and an event for the buffer if it is retried.\<close>

definition retry_operation :: "nat \<Rightarrow> nat \<Rightarrow> pending_op \<Rightarrow> pending_op list \<times> file_event list" where
  "retry_operation max_retries now q =
     (if po_retry_count q \<ge> max_retries then ([], [])
      else if now - po_last_attempt q < 30 * 1000000000 then ([q], [])
      else ([q\<lparr>po_retry_count := po_retry_count q + 1, po_last_attempt := now\<rparr>],
            [\<lparr>ev_path = po_path q, ev_kind = po_kind q\<rparr>]))"

definition retry_failed_operations :: "nat \<Rightarrow> 'c daemon \<Rightarrow> 'c daemon" where
  "retry_failed_operations now st =
     (let rs = map (retry_operation (oc_max_retries (dm_config st)) now) (dm_pending_operations st) in
      st\<lparr>dm_pending_operations := concat (map fst rs),
         dm_debounce_buffer := dm_debounce_buffer st @ concat (map snd rs)\<rparr>)"

section \<open>Folders\<close>

text \<open>The buffer is cut whenever it is large enough; its last 256 KiB stay for the next round.\<close>

fun stream_reads ::
  "'c daemon_env \<Rightarrow> (chunker_error + bytes) list \<Rightarrow> bytes \<Rightarrow> 'c daemon \<Rightarrow>
   ((daemon_error + unit) \<times> 'c daemon) option" where
  "stream_reads env [] buffer st = (if buffer = [] then Some (Inr (), st) else store_bytes env buffer st)"
| "stream_reads env (Inl e # rs) buffer st = Some (Inl DaemonIo, st)"
| "stream_reads env (Inr bs # rs) buffer st =
     (if bs = [] then (if buffer = [] then Some (Inr (), st) else store_bytes env buffer st)
      else
        let buffer1 = buffer @ bs in
        if length buffer1 < oc_max_concurrent_chunks (dm_config st) * (256 * 1024) then stream_reads env rs buffer1 st
        else if length buffer1 < 256 * 1024 then None
        else
          let n = length buffer1 - 256 * 1024 in
          Option.bind (store_bytes env (take n buffer1) st) (\<lambda>(r, st1).
            case r of Inl e \<Rightarrow> Some (Inl e, st1) | Inr _ \<Rightarrow> stream_reads env rs (drop n buffer1) st1))"

definition process_file_streaming ::
  "'c daemon_env \<Rightarrow> fs_path \<Rightarrow> 'c daemon \<Rightarrow> ((daemon_error + unit) \<times> 'c daemon) option" where
  "process_file_streaming env p st =
     (case (os_open (n_os (d_index env)) p, os_metadata (n_os (d_index env)) p) of
        (Some reads, Some meta) \<Rightarrow>
          map_option (\<lambda>(r, st1). (r, if is_ok r
              then st1\<lparr>dm_total_bytes_synced := dm_total_bytes_synced st1 + me_size meta\<rparr> else st1))
            (stream_reads env reads [] st)
      | _ \<Rightarrow> Some (Inl DaemonIo, st))"

fun contains_string :: "string \<Rightarrow> string \<Rightarrow> bool" where
  "contains_string [] p \<longleftrightarrow> p = []"
| "contains_string (c # s) p \<longleftrightarrow> starts_with (c # s) p \<or> contains_string s p"

definition operation_name :: "fs_path \<Rightarrow> string" where
  "operation_name p = ''Processing: '' @ path_string p"

text \<open>An error leaves the entry of the operation in the list.\<close>

definition process_single_file_internal ::
  "'c daemon_env \<Rightarrow> file_operation \<Rightarrow> fs_path \<Rightarrow> 'c daemon \<Rightarrow> ((daemon_error + unit) \<times> 'c daemon) option" where
  "process_single_file_internal env op p st =
     (if op = DeleteFile \<or> \<not> os_is_file (n_os (d_index env)) p then Some (Inr (), st)
      else
        let st1 = st\<lparr>dm_current_operations := dm_current_operations st @ [operation_name p]\<rparr> in
        Option.bind (process_file_streaming env p st1) (\<lambda>(r, st2).
          case r of Inl e \<Rightarrow> Some (Inl e, st2)
          | Inr _ \<Rightarrow>
              map_option (\<lambda>(r1, st3). (r1, if is_ok r1
                  then st3\<lparr>dm_current_operations :=
                    filter (\<lambda>q. \<not> contains_string q (path_string p)) (dm_current_operations st3)\<rparr> else st3))
                (index_parent env p st2)))"

text \<open>One directory: files are processed as they are met, directories go on the stack.\<close>

fun process_entries ::
  "'c daemon_env \<Rightarrow> (fs_path \<times> file_kind) list \<Rightarrow> fs_path list \<Rightarrow> 'c daemon \<Rightarrow> (fs_path list \<times> 'c daemon) option" where
  "process_entries env [] dirs st = Some (dirs, st)"
| "process_entries env ((p, kind) # es) dirs st =
     (if kind = RegularFile then
        Option.bind (process_single_file_internal env CreateFile p st) (\<lambda>(_, st1). process_entries env es dirs st1)
      else if kind = Directory then process_entries env es (p # dirs) st
      else process_entries env es dirs st)"

partial_function (option) process_dirs ::
  "'c daemon_env \<Rightarrow> fs_path list \<Rightarrow> 'c daemon \<Rightarrow> ((daemon_error + unit) \<times> 'c daemon) option" where
  "process_dirs env dirs st =
     (case dirs of
        [] \<Rightarrow> Some (Inr (), st)
      | d # dirs1 \<Rightarrow>
          (case os_read_dir (n_os (d_index env)) d of
             None \<Rightarrow> Some (Inl DaemonIo, st)
           | Some es \<Rightarrow>
               Option.bind (process_entries env es dirs1 st) (\<lambda>x. process_dirs env (fst x) (snd x))))"

definition process_folder_for_sync ::
  "'c daemon_env \<Rightarrow> fs_path \<Rightarrow> 'c daemon \<Rightarrow> ((daemon_error + unit) \<times> 'c daemon) option" where
  "process_folder_for_sync env p st =
     Option.bind (daemon_index env p st) (\<lambda>(r, st1).
       case r of Inl e \<Rightarrow> Some (Inl e, st1)
       | Inr _ \<Rightarrow>
           map_option (\<lambda>(r1, st2). (r1, if is_ok r1 \<and> dm_manifest_callback st2 then call (ManifestReady p) st2 else st2))
             (process_dirs env [p] st1))"

definition add_sync_folder ::
  "'c daemon_env \<Rightarrow> fs_path \<Rightarrow> 'c daemon \<Rightarrow> ((daemon_error + unit) \<times> 'c daemon) option" where
  "add_sync_folder env p st =
     (if \<not> d_exists env p then Some (Inl (NoSuchPath p), st)
      else if \<not> os_is_dir (n_os (d_index env)) p then Some (Inl (NotADirectory p), st)
      else if p \<in> set (dm_synced_folders st) then Some (Inr (), st)
      else map_option (\<lambda>(r, st1). (r, if is_ok r then st1\<lparr>dm_synced_folders := dm_synced_folders st1 @ [p]\<rparr> else st1))
        (process_folder_for_sync env p st))"

definition remove_sync_folder :: "fs_path \<Rightarrow> 'c daemon \<Rightarrow> 'c daemon" where
  "remove_sync_folder p st = st\<lparr>dm_synced_folders := filter (\<lambda>q. q \<noteq> p) (dm_synced_folders st)\<rparr>"

definition handle_sync_request ::
  "'c daemon_env \<Rightarrow> string \<Rightarrow> fs_path \<Rightarrow> 'c daemon \<Rightarrow> ((daemon_error + unit) \<times> 'c daemon) option" where
  "handle_sync_request env i p st =
     (if \<not> hm_has (dm_active_peers st) i then Some (Inr (), st)
      else map_option (\<lambda>(r, st1). (r, if is_ok r \<and> dm_sync_callback st1 then call (PeerSyncNeeded i [p]) st1 else st1))
        (process_folder_for_sync env p st))"

definition get_status :: "'c daemon \<Rightarrow> orchestrator_status" where
  "get_status st = \<lparr>os_running = True, os_active_peers = length (dm_active_peers st),
     os_pending_changes = length (dm_debounce_buffer st) + length (dm_pending_operations st),
     os_synced_folders = dm_synced_folders st, os_total_bytes_synced = dm_total_bytes_synced st,
     os_current_operations = dm_current_operations st\<rparr>"

definition shutdown :: "'c daemon_env \<Rightarrow> nat \<Rightarrow> 'c daemon \<Rightarrow> 'c daemon option" where
  "shutdown env now st =
     map_option (\<lambda>st1. st1\<lparr>dm_current_operations := []\<rparr>)
       (if dm_debounce_buffer st = [] then Some st else process_debounced_changes env now st)"

section \<open>The event loop\<close>

definition continue :: "(daemon_error + unit) \<times> 'c daemon \<Rightarrow> (daemon_error + bool) \<times> 'c daemon" where
  "continue = (\<lambda>(r, st). (and_then r (\<lambda>_. Inr True), st))"

fun handle_message ::
  "'c daemon_env \<Rightarrow> orchestrator_message \<Rightarrow> 'c daemon \<Rightarrow> ((daemon_error + bool) \<times> 'c daemon) option" where
  "handle_message env (FileChanged e) st = Some (Inr True, st\<lparr>dm_debounce_buffer := dm_debounce_buffer st @ [e]\<rparr>)"
| "handle_message env (FileChangesBatch es) st = Some (Inr True, st\<lparr>dm_debounce_buffer := dm_debounce_buffer st @ es\<rparr>)"
| "handle_message env (PeerDiscovered p) st = Some (Inr True, handle_peer_discovered p st)"
| "handle_message env (PeerLost i) st = Some (Inr True, handle_peer_lost i st)"
| "handle_message env (SyncRequested i p) st = map_option continue (handle_sync_request env i p st)"
| "handle_message env (AddSyncFolder p) st = map_option continue (add_sync_folder env p st)"
| "handle_message env (RemoveSyncFolder p) st = Some (Inr True, remove_sync_folder p st)"
| "handle_message env GetStatus st = Some (Inr True, call (StatusSent (get_status st)) st)"
| "handle_message env Shutdown st = Some (Inr False, st)"

text \<open>Up to three attempts at a discovered peer.\<close>

fun retry_message ::
  "nat \<Rightarrow> 'c daemon_env \<Rightarrow> orchestrator_message \<Rightarrow> 'c daemon \<Rightarrow> ((daemon_error + bool) \<times> 'c daemon) option" where
  "retry_message 0 env m st = Some (Inr True, st)"
| "retry_message (Suc n) env m st =
     Option.bind (handle_message env m st) (\<lambda>(r, st1).
       case r of Inr b \<Rightarrow> Some (Inr b, st1)
       | Inl e \<Rightarrow> if n = 0 then Some (Inl e, st1) else retry_message n env m st1)"

definition handle_message_with_recovery ::
  "'c daemon_env \<Rightarrow> orchestrator_message \<Rightarrow> 'c daemon \<Rightarrow> ((daemon_error + bool) \<times> 'c daemon) option" where
  "handle_message_with_recovery env m st =
     (case m of PeerDiscovered _ \<Rightarrow> retry_message 3 env m st | _ \<Rightarrow> handle_message env m st)"

datatype 'c daemon_input =
    Received "'c daemon_env" orchestrator_message
  | DebounceTick "'c daemon_env" nat
  | RetryTick nat

text \<open>Whether the loop goes on, and the state; errors are logged.\<close>

fun daemon_step :: "'c daemon_input \<Rightarrow> 'c daemon \<Rightarrow> (bool \<times> 'c daemon) option" where
  "daemon_step (Received env m) st =
     map_option (\<lambda>(r, st1). (case r of Inl _ \<Rightarrow> True | Inr b \<Rightarrow> b, st1)) (handle_message_with_recovery env m st)"
| "daemon_step (DebounceTick env now) st = map_option (\<lambda>st1. (True, st1)) (process_debounced_changes env now st)"
| "daemon_step (RetryTick now) st = Some (True, retry_failed_operations now st)"

text \<open>The loop, on the inputs in the order \<open>select!\<close> picks them, and the shutdown after it.  The
  inputs end with a shutdown or when the channel is closed.\<close>

fun run_daemon ::
  "'c daemon_env \<Rightarrow> nat \<Rightarrow> 'c daemon_input list \<Rightarrow> 'c daemon \<Rightarrow> 'c daemon option" where
  "run_daemon env now [] st = shutdown env now st"
| "run_daemon env now (i # is) st =
     Option.bind (daemon_step i st) (\<lambda>(more, st1). if more then run_daemon env now is st1 else shutdown env now st1)"

section \<open>Serving chunks\<close>

text \<open>What a stream with a request is answered with; \<open>None\<close> if the store's cache loops.\<close>

definition handle_data_stream ::
  "'c daemon_env \<Rightarrow> bytes \<Rightarrow> 'c daemon \<Rightarrow> ((daemon_error + bytes) \<times> 'c daemon) option" where
  "handle_data_stream env input st =
     (case read_exact 4 input of
        None \<Rightarrow> Some (Inl DaemonIo, st)
      | Some (l, rest) \<Rightarrow>
          (case read_exact (unat (u32_of_be l)) rest of
             None \<Rightarrow> Some (Inl DaemonIo, st)
           | Some (h, _) \<Rightarrow>
               if length h \<noteq> 32 then Some (Inl DaemonIo, st)
               else map_option (\<lambda>(r, s). (case r of Inl e \<Rightarrow> Inl (StoreFailed e)
                     | Inr d \<Rightarrow> Inr (u32_be (word_of_nat (length d)) @ d), st\<lparr>dm_store := s\<rparr>))
                 (read_object (n_cas (d_index env)) h (dm_store st))))"

section \<open>What the pipeline keeps\<close>

lemma stream_reads_cases:
  assumes "stream_reads env (x # rs) buffer st = Some (r, st')"
  obtains (failed) e where "x = Inl e" "r = Inl DaemonIo" "st' = st"
    | (finished) "x = Inr []" "buffer = []" "r = Inr ()" "st' = st"
    | (rest) "x = Inr []" "store_bytes env buffer st = Some (r, st')"
    | (buffered) bs where "x = Inr bs" "bs \<noteq> []" "stream_reads env rs (buffer @ bs) st = Some (r, st')"
    | (cut) bs n r1 st1 where "x = Inr bs" "bs \<noteq> []" "store_bytes env (take n (buffer @ bs)) st = Some (r1, st1)"
        "case r1 of Inl e \<Rightarrow> r = Inl e \<and> st' = st1
          | Inr _ \<Rightarrow> stream_reads env rs (drop n (buffer @ bs)) st1 = Some (r, st')"
proof (cases x)
  case (Inl e)
  with assms show thesis by (intro failed [of e]) auto
next
  case (Inr bs)
  show thesis
  proof (cases "bs = []")
    case True
    with Inr assms show thesis by (cases "buffer = []") (auto intro: finished rest)
  next
    case False
    let ?n = "length (buffer @ bs) - 256 * 1024"
    show thesis
    proof (cases "length (buffer @ bs) < oc_max_concurrent_chunks (dm_config st) * (256 * 1024)")
      case True
      with Inr False assms show thesis by (intro buffered) (auto simp add: Let_def)
    next
      case large: False
      note a = assms [unfolded Inr stream_reads.simps(3) Let_def if_not_P [OF False] if_not_P [OF large]]
      then obtain r1 st1 where c: "store_bytes env (take ?n (buffer @ bs)) st = Some (r1, st1)"
          "(case r1 of Inl e \<Rightarrow> Some (Inl e, st1) | Inr _ \<Rightarrow> stream_reads env rs (drop ?n (buffer @ bs)) st1) = Some (r, st')"
        by (auto simp only: bind_eq_Some_conv split: if_split_asm)
      from Inr False c(1) show thesis by (rule cut) (use c(2) in \<open>cases r1; auto\<close>)
    qed
  qed
qed

lemma process_file_streaming_cases:
  assumes "process_file_streaming env p st = Some (r, st')"
  obtains (missing) "r = Inl DaemonIo" "st' = st"
    | (streamed) reads meta st1 where "os_open (n_os (d_index env)) p = Some reads"
        "os_metadata (n_os (d_index env)) p = Some meta" "stream_reads env reads [] st = Some (r, st1)"
        "st' = (if is_ok r then st1\<lparr>dm_total_bytes_synced := dm_total_bytes_synced st1 + me_size meta\<rparr> else st1)"
  using assms by (auto simp add: process_file_streaming_def split: option.split_asm)

lemma process_single_file_cases:
  assumes "process_single_file env op p st = Some (r, st')"
  obtains (nothing) "st' = st" "op = DeleteFile \<or> \<not> os_is_file (n_os (d_index env)) p \<or> \<not> is_ok r"
    | (stored) content r1 st1 where "op \<noteq> DeleteFile" "os_is_file (n_os (d_index env)) p"
        "file_data (n_os (d_index env)) p = Some content" "store_bytes env content st = Some (r1, st1)"
        "case r1 of Inl e \<Rightarrow> r = Inl e \<and> st' = st1 | Inr _ \<Rightarrow> index_parent env p st1 = Some (r, st')"
    | (folder) "\<not> os_is_file (n_os (d_index env)) p" "os_is_dir (n_os (d_index env)) p" "daemon_index env p st = Some (r, st')"
proof (cases "op = DeleteFile")
  case True
  show thesis by (rule nothing) (use assms True in \<open>simp_all add: process_single_file_def\<close>)
next
  case op: False
  then have b: "process_single_file env op p st = (if os_is_file (n_os (d_index env)) p then
      (case file_data (n_os (d_index env)) p of
         None \<Rightarrow> Some (Inl DaemonIo, st)
       | Some content \<Rightarrow> Option.bind (store_bytes env content st) (\<lambda>(r, st1).
           case r of Inl e \<Rightarrow> Some (Inl e, st1) | Inr _ \<Rightarrow> index_parent env p st1))
      else if os_is_dir (n_os (d_index env)) p then daemon_index env p st else Some (Inr (), st))"
    by (cases op) (simp_all add: process_single_file_def)
  show thesis
  proof (cases "os_is_file (n_os (d_index env)) p")
    case False
    show thesis
    proof (cases "os_is_dir (n_os (d_index env)) p")
      case True
      show thesis by (rule folder) (use assms b False True in simp_all)
    next
      case no_dir: False
      show thesis by (rule nothing) (use assms b False no_dir in simp_all)
    qed
  next
    case True
    show thesis
    proof (cases "file_data (n_os (d_index env)) p")
      case None
      show thesis by (rule nothing) (use assms b True None in \<open>auto simp add: is_ok_def\<close>)
    next
      case (Some content)
      from assms obtain r1 st1 where s: "store_bytes env content st = Some (r1, st1)"
          "(case r1 of Inl e \<Rightarrow> Some (Inl e, st1) | Inr _ \<Rightarrow> index_parent env p st1) = Some (r, st')"
        unfolding b if_P [OF True] Some option.case by (auto simp only: bind_eq_Some_conv split: prod.split_asm)
      from op True Some s(1) show thesis by (rule stored) (use s(2) in \<open>cases r1; auto\<close>)
    qed
  qed
qed

lemma process_single_file_internal_cases:
  assumes "process_single_file_internal env op p st = Some (r, st')"
  obtains (skipped) "op = DeleteFile \<or> \<not> os_is_file (n_os (d_index env)) p" "r = Inr ()" "st' = st"
    | (streamed) e where "op \<noteq> DeleteFile" "os_is_file (n_os (d_index env)) p"
        "process_file_streaming env p (st\<lparr>dm_current_operations := dm_current_operations st @ [operation_name p]\<rparr>) =
           Some (Inl e, st')" "r = Inl e"
    | (indexed) st1 st2 where
        "process_file_streaming env p (st\<lparr>dm_current_operations := dm_current_operations st @ [operation_name p]\<rparr>) =
           Some (Inr (), st1)" "index_parent env p st1 = Some (r, st2)"
        "st' = (if is_ok r then st2\<lparr>dm_current_operations :=
           filter (\<lambda>q. \<not> contains_string q (path_string p)) (dm_current_operations st2)\<rparr> else st2)"
        "op \<noteq> DeleteFile" "os_is_file (n_os (d_index env)) p"
proof (cases "op = DeleteFile \<or> \<not> os_is_file (n_os (d_index env)) p")
  case True
  with assms show thesis by (intro skipped) (simp_all add: process_single_file_internal_def)
next
  case False
  note a = assms [unfolded process_single_file_internal_def Let_def if_not_P [OF False]]
  then obtain r1 st1 where s: "process_file_streaming env p
        (st\<lparr>dm_current_operations := dm_current_operations st @ [operation_name p]\<rparr>) = Some (r1, st1)"
      "(case r1 of Inl e \<Rightarrow> Some (Inl e, st1) | Inr _ \<Rightarrow> map_option (\<lambda>(r1, st3). (r1, if is_ok r1
          then st3\<lparr>dm_current_operations :=
            filter (\<lambda>q. \<not> contains_string q (path_string p)) (dm_current_operations st3)\<rparr> else st3))
        (index_parent env p st1)) = Some (r, st')"
    by (auto simp only: bind_eq_Some_conv split: prod.split_asm)
  show thesis
  proof (cases r1)
    case (Inl e)
    with s False show thesis by (intro streamed) auto
  next
    case (Inr u)
    with s(2) obtain st2 where "index_parent env p st1 = Some (r, st2)"
        "st' = (if is_ok r then st2\<lparr>dm_current_operations :=
           filter (\<lambda>q. \<not> contains_string q (path_string p)) (dm_current_operations st2)\<rparr> else st2)"
      by auto
    with s(1) Inr False show thesis by (intro indexed) simp_all
  qed
qed

lemma process_folder_for_sync_cases:
  assumes "process_folder_for_sync env p st = Some (r, st')"
  obtains (failed) e where "daemon_index env p st = Some (Inl e, st')" "r = Inl e"
    | (walked) st1 st2 where "daemon_index env p st = Some (Inr (), st1)" "process_dirs env [p] st1 = Some (r, st2)"
        "st' = (if is_ok r \<and> dm_manifest_callback st2 then call (ManifestReady p) st2 else st2)"
proof -
  from assms obtain r1 st1 where i: "daemon_index env p st = Some (r1, st1)"
      "(case r1 of Inl e \<Rightarrow> Some (Inl e, st1) | Inr _ \<Rightarrow>
         map_option (\<lambda>(r1, st2). (r1, if is_ok r1 \<and> dm_manifest_callback st2 then call (ManifestReady p) st2 else st2))
           (process_dirs env [p] st1)) = Some (r, st')"
    unfolding process_folder_for_sync_def by (auto simp only: bind_eq_Some_conv split: prod.split_asm)
  show thesis
  proof (cases r1)
    case (Inl e)
    with i show thesis by (intro failed) auto
  next
    case (Inr u)
    with i that(2) show thesis by auto
  qed
qed

text \<open>A property of the daemon that a run of the indexer, a write to the store and the daemon's
  bookkeeping keep is kept by everything the daemon does with a file or a folder.\<close>

locale pipeline_keeps =
  fixes inv :: "'c daemon \<Rightarrow> bool"
    and env :: "'c daemon_env"
  assumes index: "inv st \<Longrightarrow> daemon_index env p st = Some (r, st') \<Longrightarrow> inv st'"
    and store_write: "inv st \<Longrightarrow> inv (st\<lparr>dm_store := snd (write_object (n_cas (d_index env)) d (dm_store st))\<rparr>)"
    and operations: "inv st \<Longrightarrow> inv (st\<lparr>dm_current_operations := qs\<rparr>)"
    and synced_bytes: "inv st \<Longrightarrow> inv (st\<lparr>dm_total_bytes_synced := n\<rparr>)"
    and calls: "inv st \<Longrightarrow> inv (call c st)"
begin

lemma write_chunks_keep: "inv st \<Longrightarrow> inv (st\<lparr>dm_store := snd (write_chunks (n_cas (d_index env)) ks (dm_store st))\<rparr>)"
proof (induction ks arbitrary: st)
  case Nil
  then show ?case by simp
next
  case (Cons k ks)
  let ?st = "st\<lparr>dm_store := snd (write_object (n_cas (d_index env)) (chunk_bytes_of k) (dm_store st))\<rparr>"
  have "inv ?st" by (rule store_write [OF Cons.prems])
  with Cons.IH [OF this] show ?case by (auto simp add: split_beta split: sum.splits)
qed

lemma store_bytes_keep: "inv st \<Longrightarrow> store_bytes env data st = Some (r, st') \<Longrightarrow> inv st'"
  using write_chunks_keep by (auto simp add: store_bytes_def Let_def split_beta)

lemma index_parent_keep: "inv st \<Longrightarrow> index_parent env p st = Some (r, st') \<Longrightarrow> inv st'"
  using index by (auto simp add: index_parent_def split: option.splits)

lemma process_single_file_keep:
  assumes "inv st" and "process_single_file env op p st = Some (r, st')"
  shows "inv st'"
  using assms(2)
proof (cases rule: process_single_file_cases)
  case (stored content r1 st1)
  note st1 = store_bytes_keep [OF assms(1) stored(4)]
  show ?thesis
  proof (cases r1)
    case (Inr u)
    with stored(5) index_parent_keep [OF st1] show ?thesis by auto
  qed (use stored(5) st1 in auto)
qed (use assms(1) index in auto)

lemma run_tasks_keep: "inv st \<Longrightarrow> run_tasks env op ps st = Some st' \<Longrightarrow> inv st'"
  using process_single_file_keep
  by (induction ps arbitrary: st) (auto simp add: bind_eq_Some_conv, blast)

lemma run_groups_keep: "inv st \<Longrightarrow> run_groups env op gs st = Some st' \<Longrightarrow> inv st'"
  using run_tasks_keep by (induction gs arbitrary: st) (auto simp add: bind_eq_Some_conv, blast)

lemma process_batches_keep: "inv st \<Longrightarrow> process_batches env op bs st = Some st' \<Longrightarrow> inv st'"
  using run_groups_keep
  by (induction bs arbitrary: st) (auto simp add: bind_eq_Some_conv process_file_batch_def, blast)

lemma process_paths_keep: "inv st \<Longrightarrow> process_paths env op ps st = Some st' \<Longrightarrow> inv st'"
  using process_batches_keep by (auto simp add: process_paths_def Let_def split: if_splits)

lemma stream_reads_keep: "inv st \<Longrightarrow> stream_reads env rs buffer st = Some (r, st') \<Longrightarrow> inv st'"
proof (induction rs arbitrary: buffer st)
  case Nil
  then show ?case by (auto split: if_splits intro: store_bytes_keep)
next
  case (Cons x rs)
  from Cons.prems(2) show ?case
  proof (cases rule: stream_reads_cases)
    case buffered
    with Cons.IH [OF Cons.prems(1)] show ?thesis by blast
  next
    case (cut bs n r1 st1)
    note st1 = store_bytes_keep [OF Cons.prems(1) cut(3)]
    show ?thesis
    proof (cases r1)
      case (Inr u)
      with cut(4) Cons.IH [OF st1] show ?thesis by auto
    qed (use st1 cut(4) in auto)
  qed (use Cons.prems store_bytes_keep in auto)
qed

lemma process_file_streaming_keep:
  assumes "inv st" and "process_file_streaming env p st = Some (r, st')"
  shows "inv st'"
  using assms(2)
proof (cases rule: process_file_streaming_cases)
  case (streamed reads meta st1)
  with stream_reads_keep [OF assms(1)] synced_bytes show ?thesis by auto
qed (use assms(1) in simp)

lemma process_single_file_internal_keep:
  assumes "inv st" and "process_single_file_internal env op p st = Some (r, st')"
  shows "inv st'"
proof (cases "op = DeleteFile \<or> \<not> os_is_file (n_os (d_index env)) p")
  case True
  with assms show ?thesis by (auto simp add: process_single_file_internal_def)
next
  case False
  let ?st = "st\<lparr>dm_current_operations := dm_current_operations st @ [operation_name p]\<rparr>"
  have "inv ?st" by (rule operations [OF assms(1)])
  from assms(2) False show ?thesis
  proof (cases rule: process_single_file_internal_cases)
    case streamed
    with \<open>inv ?st\<close> show ?thesis using process_file_streaming_keep by blast
  next
    case (indexed st1 st2)
    with \<open>inv ?st\<close> have "inv st2" using process_file_streaming_keep index_parent_keep by blast
    with indexed(3) operations show ?thesis by auto
  qed auto
qed

lemma process_entries_keep: "inv st \<Longrightarrow> process_entries env es dirs st = Some (dirs', st') \<Longrightarrow> inv st'"
proof (induction es arbitrary: dirs st)
  case (Cons e es)
  then show ?case using process_single_file_internal_keep
    by (cases e) (auto simp add: bind_eq_Some_conv split: if_splits, blast)
qed simp

lemma process_dirs_keep: "process_dirs env dirs st = Some (r, st') \<Longrightarrow> inv st \<Longrightarrow> inv st'"
proof -
  assume "process_dirs env dirs st = Some (r, st')"
  then have "env = env \<longrightarrow> inv st \<longrightarrow> inv (snd (r, st'))"
  proof (rule process_dirs.raw_induct [of "\<lambda>e dirs st x. e = env \<longrightarrow> inv st \<longrightarrow> inv (snd x)", rotated])
    fix rec :: "'c daemon_env \<Rightarrow> fs_path list \<Rightarrow> 'c daemon \<Rightarrow> ((daemon_error + unit) \<times> 'c daemon) option"
      and e dirs st y
    assume rec: "\<And>e dirs st y. rec e dirs st = Some y \<Longrightarrow> e = env \<longrightarrow> inv st \<longrightarrow> inv (snd y)"
      and eq: "(case dirs of [] \<Rightarrow> Some (Inr (), st)
        | d # dirs1 \<Rightarrow> (case os_read_dir (n_os (d_index e)) d of None \<Rightarrow> Some (Inl DaemonIo, st)
          | Some es \<Rightarrow> Option.bind (process_entries e es dirs1 st) (\<lambda>x. rec e (fst x) (snd x)))) = Some y"
    show "e = env \<longrightarrow> inv st \<longrightarrow> inv (snd y)"
    proof (intro impI)
      assume e: "e = env" and st: "inv st"
      from eq st e show "inv (snd y)"
        by (auto simp add: bind_eq_Some_conv split: list.split_asm option.split_asm
            dest!: rec [rule_format] intro: process_entries_keep)
    qed
  qed
  then show "inv st \<Longrightarrow> inv st'" by simp
qed

lemma process_folder_for_sync_keep:
  assumes "inv st" and "process_folder_for_sync env p st = Some (r, st')"
  shows "inv st'"
  using assms(2)
proof (cases rule: process_folder_for_sync_cases)
  case failed
  with index [OF assms(1)] show ?thesis by blast
next
  case (walked st1 st2)
  with process_dirs_keep [OF walked(2) index [OF assms(1) walked(1)]] calls show ?thesis by auto
qed

end

section \<open>The parts a file does not touch, and the rows of the index\<close>

definition frame_of :: "'c daemon \<Rightarrow> orchestrator_config \<times> chunker \<times> bool \<times> bool \<times> fs_path list \<times>
    (string, peer_info) hmap \<times> pending_op list \<times> file_event list \<times> nat" where
  "frame_of st = (dm_config st, dm_chunker st, dm_sync_callback st, dm_manifest_callback st, dm_synced_folders st,
     dm_active_peers st, dm_pending_operations st, dm_debounce_buffer st, dm_last_debounce st)"

interpretation frame: pipeline_keeps "\<lambda>st. frame_of st = f" env for f env
  by unfold_locales (auto simp add: frame_of_def daemon_index_def call_def Let_def)

definition rows_kept :: "manifest_row set \<Rightarrow> 'c daemon \<Rightarrow> bool" where
  "rows_kept R st \<longleftrightarrow> saved_under_root (dm_indexer st) \<and> R \<subseteq> set (ix_manifests (in_db (dm_indexer st)))"

lemma daemon_index_cases:
  assumes "daemon_index env p st = Some (r, st')"
  obtains r0 ix where "index_folder (d_index env) (d_now env) p
      ((dm_indexer st)\<lparr>in_store := (in_store (dm_indexer st))\<lparr>s_files := s_files (dm_store st)\<rparr>\<rparr>) = Some (r0, ix)"
    "r = and_then (map_err IndexFailed r0) (\<lambda>_. Inr ())"
    "st' = st\<lparr>dm_indexer := ix, dm_store := (dm_store st)\<lparr>s_files := s_files (in_store ix)\<rparr>\<rparr>"
  using assms by (auto simp add: daemon_index_def Let_def)

lemma daemon_index_rows: "rows_kept R st \<Longrightarrow> daemon_index env p st = Some (r, st') \<Longrightarrow> rows_kept R st'"
proof (elim daemon_index_cases)
  fix r0 ix
  let ?ix = "(dm_indexer st)\<lparr>in_store := (in_store (dm_indexer st))\<lparr>s_files := s_files (dm_store st)\<rparr>\<rparr>"
  assume R: "rows_kept R st" and i: "index_folder (d_index env) (d_now env) p ?ix = Some (r0, ix)"
    and st': "st' = st\<lparr>dm_indexer := ix, dm_store := (dm_store st)\<lparr>s_files := s_files (in_store ix)\<rparr>\<rparr>"
  have "saved_under_root ?ix" using R by (simp add: rows_kept_def saved_under_root_def)
  from index_folder_rows [OF this i] R st' show "rows_kept R st'" by (auto simp add: rows_kept_def)
qed

interpretation rows: pipeline_keeps "rows_kept R" env for R env
proof
  show "rows_kept R st'" if "rows_kept R st" "daemon_index env p st = Some (r, st')"
    for st p r and st' :: "'a daemon"
    using that by (rule daemon_index_rows)
qed (simp_all add: rows_kept_def call_def)

section \<open>The shared objects\<close>

definition readable :: "'c cas_env \<Rightarrow> content_hash \<Rightarrow> 'c store \<Rightarrow> bool" where
  "readable c h s \<longleftrightarrow> (\<exists>x. read_individual c h s = Inr x)"

lemma object_kept:
  assumes env: "env_ok c" and s: "store_ok c s" and "length g = 32" "hm_has (s_files s) (object_path c g)"
  shows "hm_has (s_files (snd (write_object c d s))) (object_path c g)"
  using s
proof (cases rule: write_object_cases [of c s d])
  case written
  have wf: "hm_wf (s_files s)" and l: "length (e_blake3 c d) = 32"
    using assms by (simp_all add: store_ok_def files_ok_def env_ok_def)
  from assms(4) obtain x where "hm_get (s_files s) (object_path c g) = Some x" by (auto simp add: hm_has_def)
  from object_file_kept [OF env wf assms(3) l this] written assms(4)
  have "hm_get (write_atomic (object_path c (e_blake3 c d)) d (s_files s)) (object_path c g) = Some x" by fastforce
  with written(1) show ?thesis by (simp add: hm_has_def)
qed (use assms(4) in simp_all)

text \<open>Another store on the same directory stays sound when objects are written.\<close>

lemma shared_write:
  assumes "env_ok c" and "store_ok c s" and "store_ok c (t\<lparr>s_files := s_files s\<rparr>)"
  shows "store_ok c (t\<lparr>s_files := s_files (snd (write_object c d s))\<rparr>)"
  using assms(3) store_ok_write [OF assms(1,2), of d] object_kept [OF assms(1,2)]
  by (auto simp add: store_ok_def)

lemma shared_writes:
  "env_ok c \<Longrightarrow> store_ok c s \<Longrightarrow> store_ok c (t\<lparr>s_files := s_files s\<rparr>) \<Longrightarrow>
     store_ok c (t\<lparr>s_files := s_files (writes c ds s)\<rparr>)"
proof (induction ds arbitrary: s)
  case (Cons d ds)
  from Cons.IH [OF Cons.prems(1) store_ok_write [OF Cons.prems(1,2)] shared_write [OF Cons.prems]]
  show ?case by (simp add: writes_def)
qed (simp add: writes_def)

lemma readable_files: "s_files s = s_files t \<Longrightarrow> readable c h s = readable c h t"
  by (simp add: readable_def read_individual_def)

lemma readable_writes: "env_ok c \<Longrightarrow> store_ok c s \<Longrightarrow> readable c h s \<Longrightarrow> readable c h (writes c ds s)"
  unfolding readable_def writes_def using cas.get_puts_keeps by blast

lemma written_readable:
  "env_ok c \<Longrightarrow> store_ok c s \<Longrightarrow> d \<in> set ds \<Longrightarrow> storable c d \<Longrightarrow> readable c (e_blake3 c d) (writes c ds s)"
  unfolding readable_def writes_def using cas.get_puts by blast

text \<open>The daemon's two views of the directory are sound, the indexer is as configured, and the
  objects \<open>H\<close> can be read.\<close>

definition objects_kept :: "'c cas_env \<Rightarrow> indexer_config \<Rightarrow> content_hash set \<Rightarrow> 'c daemon \<Rightarrow> bool" where
  "objects_kept c cfg H st \<longleftrightarrow> env_ok c \<and> store_ok c (dm_store st) \<and>
     store_ok c ((in_store (dm_indexer st))\<lparr>s_files := s_files (dm_store st)\<rparr>) \<and>
     valid_chunker (in_chunker (dm_indexer st)) \<and> in_config (dm_indexer st) = cfg \<and>
     (\<forall>h\<in>H. readable c h (dm_store st))"

lemma index_files_writes:
  "valid_chunker (in_chunker st) \<Longrightarrow> index_files env ps m st = Some (m', st') \<Longrightarrow> \<exists>ds. indexed_by env ds st st'"
proof (induction ps arbitrary: m st)
  case Nil
  then show ?case using indexed_by_refl by (intro exI [of _ "[]"]) simp
next
  case (Cons p ps)
  from Cons.prems(2) obtain r st1 where one: "index_file env p st = Some (r, st1)"
    and more: "index_files env ps (case r of Inl _ \<Rightarrow> m | Inr e \<Rightarrow> add_file e m) st1 = Some (m', st')"
    by (auto simp add: bind_eq_Some_conv)
  from index_file_result [OF Cons.prems(1) one] obtain ds where ds: "indexed_by env ds st st1" by blast
  have "valid_chunker (in_chunker st1)" using Cons.prems(1) ds by (simp add: indexed_by_def)
  from Cons.IH [OF this more] obtain es where "indexed_by env es st1 st'" ..
  from indexed_by_trans [OF ds this] show ?case ..
qed

lemma index_folder_writes:
  assumes "index_folder env now p st = Some (r, st')" and "valid_chunker (in_chunker st)"
  shows "\<exists>ds. in_store st' = writes (n_cas env) ds (in_store st) \<and> in_chunker st' = in_chunker st \<and>
    in_config st' = in_config st"
  using assms(1)
proof (cases rule: index_folder_cases)
  case early
  then show ?thesis by (intro exI [of _ "[]"]) (simp add: writes_def)
next
  case (indexed canonical ps m st1)
  from index_files_writes [OF assms(2) indexed(2)] obtain ds where "indexed_by env ds st st1" ..
  with indexed(3) show ?thesis
    by (intro exI [of _ ds]) (auto simp add: indexed_by_def Let_def split: sum.splits prod.splits)
qed

lemma daemon_index_objects:
  assumes "objects_kept (n_cas (d_index env)) cfg H st" and "daemon_index env p st = Some (r, st')"
  shows "objects_kept (n_cas (d_index env)) cfg H st'"
  using assms(2)
proof (cases rule: daemon_index_cases)
  case (1 r0 ix)
  let ?c = "n_cas (d_index env)"
  let ?ix = "(dm_indexer st)\<lparr>in_store := (in_store (dm_indexer st))\<lparr>s_files := s_files (dm_store st)\<rparr>\<rparr>"
  note ok = assms(1) [unfolded objects_kept_def]
  have "valid_chunker (in_chunker ?ix)" using ok by simp
  from index_folder_writes [OF 1(1) this] obtain ds where
    w: "in_store ix = writes ?c ds (in_store ?ix)" "in_chunker ix = in_chunker (dm_indexer st)"
      "in_config ix = in_config (dm_indexer st)" by auto
  have s: "store_ok ?c (in_store ?ix)" "env_ok ?c" using ok by simp_all
  have "store_ok ?c (in_store ix)" unfolding w(1) by (rule writes_ok [OF s(2,1)])
  moreover have "store_ok ?c ((dm_store st)\<lparr>s_files := s_files (in_store ix)\<rparr>)"
    unfolding w(1) by (rule shared_writes [OF s(2,1)]) (use ok in simp)
  moreover have "readable ?c h ((dm_store st)\<lparr>s_files := s_files (in_store ix)\<rparr>)" if "h \<in> H" for h
  proof -
    have "readable ?c h (in_store ?ix)" using ok that readable_files [of "in_store ?ix" "dm_store st"] by simp
    from readable_writes [OF s(2,1) this] show ?thesis
      using readable_files [of "(dm_store st)\<lparr>s_files := s_files (in_store ix)\<rparr>" "in_store ix"] w(1) by simp
  qed
  ultimately show ?thesis using ok w 1(3) by (simp add: objects_kept_def)
qed

lemma write_objects:
  assumes "objects_kept c cfg H st"
  shows "objects_kept c cfg H (st\<lparr>dm_store := snd (write_object c d (dm_store st))\<rparr>)"
proof -
  note ok = assms [unfolded objects_kept_def]
  have "store_ok c (snd (write_object c d (dm_store st)))" using ok store_ok_write by blast
  moreover have "store_ok c ((in_store (dm_indexer st))\<lparr>s_files := s_files (snd (write_object c d (dm_store st)))\<rparr>)"
    using ok shared_write by blast
  moreover have "readable c h (snd (write_object c d (dm_store st)))" if "h \<in> H" for h
    using ok that readable_writes [of c "dm_store st" h "[d]"] by (simp add: writes_def)
  ultimately show ?thesis using ok by (simp add: objects_kept_def)
qed

interpretation objects: pipeline_keeps "objects_kept (n_cas (d_index env)) cfg H" env for env cfg H
proof
  show "objects_kept (n_cas (d_index env)) cfg H st'"
    if "objects_kept (n_cas (d_index env)) cfg H st" "daemon_index env p st = Some (r, st')"
    for st p r and st' :: "'a daemon"
    using that by (rule daemon_index_objects)
  show "objects_kept (n_cas (d_index env)) cfg H (st\<lparr>dm_store := snd (write_object (n_cas (d_index env)) d (dm_store st))\<rparr>)"
    if "objects_kept (n_cas (d_index env)) cfg H st" for st d
    using that by (rule write_objects)
qed (simp_all add: objects_kept_def call_def)

section \<open>A file in the store\<close>

lemma write_chunks_writes:
  "\<forall>k\<in>set ks. object_size_ok (chunk_bytes_of k) = Inr () \<Longrightarrow>
     write_chunks c ks s = (Inr (), writes c (map chunk_bytes_of ks) s)"
proof (induction ks arbitrary: s)
  case (Cons k ks)
  obtain w where "fst (write_object c (chunk_bytes_of k) s) = Inr w"
    using write_object_succeeds [of "chunk_bytes_of k" "()" c s] Cons.prems by auto
  then obtain s1 where "write_object c (chunk_bytes_of k) s = (Inr w, s1)"
    by (cases "write_object c (chunk_bytes_of k) s") simp
  moreover have "write_chunks c ks s' = (Inr (), writes c (map chunk_bytes_of ks) s')" for s'
    using Cons by simp
  ultimately show ?case by (simp add: writes_def)
qed (simp add: writes_def)

text \<open>Pieces the store takes.\<close>

definition sound_pieces :: "bytes list \<Rightarrow> bool" where
  "sound_pieces ds \<longleftrightarrow> list_all (\<lambda>d. d \<noteq> [] \<and> length d \<le> MAX_OBJECT_SIZE) ds"

lemma sound_pieces_append [simp]: "sound_pieces (ds @ es) \<longleftrightarrow> sound_pieces ds \<and> sound_pieces es"
  by (simp add: sound_pieces_def)

lemma store_bytes_result:
  assumes "new_chunker c = Inr (dm_chunker st)"
  shows "\<exists>ds. store_bytes env data st = Some (Inr (), st\<lparr>dm_store := writes (n_cas (d_index env)) ds (dm_store st)\<rparr>) \<and>
    concat ds = data \<and> sound_pieces ds"
proof -
  let ?b = "e_blake3 (n_cas (d_index env))"
  obtain ks where ks: "chunk_bytes ?b (dm_chunker st) data = Some ks" "concat (map chunk_bytes_of ks) = data"
      "chunks_at ?b 0 ks" "sized_chunks c ks"
    using cut_file [OF assms, of ?b data] by blast
  have sound: "sound_pieces (map chunk_bytes_of ks)"
    using ks(4) new_chunker_limits [OF assms] chunks_at_set [OF ks(3)]
    by (fastforce simp add: sound_pieces_def list_all_iff sized_chunks_def MAX_OBJECT_SIZE_def)
  then have "\<forall>k\<in>set ks. object_size_ok (chunk_bytes_of k) = Inr ()"
    by (auto simp add: sound_pieces_def list_all_iff object_size_ok_def validate_object_size_def)
  from write_chunks_writes [OF this, of "n_cas (d_index env)" "dm_store st"] ks sound show ?thesis
    by (intro exI [of _ "map chunk_bytes_of ks"]) (simp add: store_bytes_def Let_def)
qed

lemma read_stream_prefix: "read_stream rs (xs @ ys) = Inr data \<Longrightarrow> \<exists>zs. data = xs @ zs \<and> read_stream rs ys = Inr zs"
proof (induction rs arbitrary: ys)
  case (Cons r rs)
  then show ?case by (cases r) (auto split: if_split_asm)
qed simp

lemma stream_reads_result:
  assumes "new_chunker c = Inr (dm_chunker st)" and "0 < oc_max_concurrent_chunks (dm_config st)"
    and "read_stream rs buffer = Inr data"
  shows "\<exists>ds. stream_reads env rs buffer st = Some (Inr (), st\<lparr>dm_store := writes (n_cas (d_index env)) ds (dm_store st)\<rparr>) \<and>
    concat ds = data \<and> sound_pieces ds"
  using assms
proof (induction rs arbitrary: buffer st data)
  case Nil
  show ?case
  proof (cases "buffer = []")
    case True
    with Nil.prems(3) show ?thesis by (intro exI [of _ "[]"]) (simp add: writes_def sound_pieces_def)
  next
    case False
    with Nil.prems(3) store_bytes_result [OF Nil.prems(1), of env buffer] show ?thesis by simp
  qed
next
  case (Cons x rs)
  obtain bs where x: "x = Inr bs" using Cons.prems(3) by (cases x) auto
  show ?case
  proof (cases "bs = []")
    case True
    show ?thesis
    proof (cases "buffer = []")
      case True
      with \<open>bs = []\<close> x Cons.prems(3) show ?thesis by (intro exI [of _ "[]"]) (simp add: writes_def sound_pieces_def)
    next
      case False
      with True x Cons.prems(3) store_bytes_result [OF Cons.prems(1), of env buffer] show ?thesis by simp
    qed
  next
    case ne: False
    then have rest: "read_stream rs (buffer @ bs) = Inr data" using Cons.prems(3) x by simp
    show ?thesis
    proof (cases "length (buffer @ bs) < oc_max_concurrent_chunks (dm_config st) * (256 * 1024)")
      case True
      with ne x Cons.IH [OF Cons.prems(1,2) rest] show ?thesis by (simp add: Let_def)
    next
      case large: False
      define n where "n = length (buffer @ bs) - 256 * 1024"
      from large Cons.prems(2) have "256 * 1024 \<le> length (buffer @ bs)"
        by (cases "oc_max_concurrent_chunks (dm_config st)") auto
      then have fit: "\<not> length (buffer @ bs) < 256 * 1024" by simp
      obtain ds where ds: "store_bytes env (take n (buffer @ bs)) st =
            Some (Inr (), st\<lparr>dm_store := writes (n_cas (d_index env)) ds (dm_store st)\<rparr>)"
          "concat ds = take n (buffer @ bs)" "sound_pieces ds"
        using store_bytes_result [OF Cons.prems(1), of env "take n (buffer @ bs)"] by blast
      let ?st = "st\<lparr>dm_store := writes (n_cas (d_index env)) ds (dm_store st)\<rparr>"
      obtain zs where zs: "data = take n (buffer @ bs) @ zs" "read_stream rs (drop n (buffer @ bs)) = Inr zs"
        using read_stream_prefix [of rs "take n (buffer @ bs)" "drop n (buffer @ bs)" data] rest
        by (auto simp only: append_take_drop_id)
      obtain es where es: "stream_reads env rs (drop n (buffer @ bs)) ?st =
            Some (Inr (), ?st\<lparr>dm_store := writes (n_cas (d_index env)) es (dm_store ?st)\<rparr>)"
          "concat es = zs" "sound_pieces es"
        using Cons.IH [of ?st "drop n (buffer @ bs)" zs] Cons.prems(1,2) zs(2) by auto
      have "stream_reads env (x # rs) buffer st = stream_reads env rs (drop n (buffer @ bs)) ?st"
        unfolding x stream_reads.simps Let_def if_not_P [OF ne] if_not_P [OF large] if_not_P [OF fit]
          n_def [symmetric] ds(1) by (simp only: Option.bind.bind_lunit prod.case sum.case)
      with es ds zs show ?thesis by (intro exI [of _ "ds @ es"]) (simp add: writes_append)
    qed
  qed
qed

text \<open>A file whose content is in the store, piece by piece.\<close>

definition file_stored :: "'c daemon_env \<Rightarrow> fs_path \<Rightarrow> 'c daemon \<Rightarrow> bool" where
  "file_stored env q st \<longleftrightarrow> (\<exists>ds. file_data (n_os (d_index env)) q = Some (concat ds) \<and>
     (\<forall>d\<in>set ds. readable (n_cas (d_index env)) (e_blake3 (n_cas (d_index env)) d) (dm_store st)))"

definition pipeline_ready :: "'c daemon_env \<Rightarrow> indexer_config \<Rightarrow> chunker_config \<Rightarrow> 'c daemon \<Rightarrow> bool" where
  "pipeline_ready env cfg c st \<longleftrightarrow> objects_kept (n_cas (d_index env)) cfg {} st \<and>
     new_chunker c = Inr (dm_chunker st) \<and> 0 < oc_max_concurrent_chunks (dm_config st)"

text \<open>A step after which the pipeline is still ready and no stored file is lost.\<close>

definition advances :: "'c daemon_env \<Rightarrow> indexer_config \<Rightarrow> chunker_config \<Rightarrow> 'c daemon \<Rightarrow> 'c daemon \<Rightarrow> bool" where
  "advances env cfg c st st' \<longleftrightarrow> pipeline_ready env cfg c st' \<and> (\<forall>q. file_stored env q st \<longrightarrow> file_stored env q st')"

lemma advances_trans: "advances env cfg c st1 st2 \<Longrightarrow> advances env cfg c st2 st3 \<Longrightarrow> advances env cfg c st1 st3"
  by (simp add: advances_def)

lemma kept_advances:
  assumes "pipeline_ready env cfg c st"
    and "objects_kept (n_cas (d_index env)) cfg {h. readable (n_cas (d_index env)) h (dm_store st)} st'"
    and "frame_of st' = frame_of st"
  shows "advances env cfg c st st'"
  using assms unfolding advances_def pipeline_ready_def objects_kept_def frame_of_def file_stored_def by fastforce

lemma ready_objects:
  "pipeline_ready env cfg c st \<Longrightarrow>
     objects_kept (n_cas (d_index env)) cfg {h. readable (n_cas (d_index env)) h (dm_store st)} st"
  by (simp add: pipeline_ready_def objects_kept_def)

lemma daemon_index_advances:
  "pipeline_ready env cfg c st \<Longrightarrow> daemon_index env p st = Some (r, st') \<Longrightarrow> advances env cfg c st st'"
  by (rule kept_advances) (auto intro: daemon_index_objects [OF ready_objects] frame.index)

text \<open>The files of a folder can be read, their pieces are told from the empty object, and the walk
  of the indexer over the folder ends.\<close>

definition regular_file :: "'c daemon_env \<Rightarrow> fs_path \<Rightarrow> bool" where
  "regular_file env q \<longleftrightarrow> os_is_file (n_os (d_index env)) q \<and> os_metadata (n_os (d_index env)) q \<noteq> None \<and>
     file_data (n_os (d_index env)) q \<noteq> None \<and>
     (\<forall>xs ys zs. file_data (n_os (d_index env)) q = Some (xs @ ys @ zs) \<and> ys \<noteq> [] \<longrightarrow>
        e_blake3 (n_cas (d_index env)) ys \<noteq> e_blake3 (n_cas (d_index env)) [])"

lemma daemon_index_total:
  assumes "pipeline_ready env cfg c st" and "walk_directory (n_os (d_index env)) cfg p \<noteq> None"
  shows "\<exists>r st'. daemon_index env p st = Some (r, st')"
proof -
  let ?ix = "(dm_indexer st)\<lparr>in_store := (in_store (dm_indexer st))\<lparr>s_files := s_files (dm_store st)\<rparr>\<rparr>"
  have "index_folder (d_index env) (d_now env) p ?ix \<noteq> None"
    by (rule index_folder_total) (use assms in \<open>simp_all add: pipeline_ready_def objects_kept_def\<close>)
  then show ?thesis by (auto simp add: daemon_index_def Let_def)
qed

lemma streamed_file:
  assumes "pipeline_ready env cfg c st" and "regular_file env q"
  shows "\<exists>st'. process_file_streaming env q st = Some (Inr (), st') \<and> advances env cfg c st st' \<and> file_stored env q st'"
proof -
  let ?c = "n_cas (d_index env)"
  obtain meta data where m: "os_metadata (n_os (d_index env)) q = Some meta" "file_data (n_os (d_index env)) q = Some data"
    using assms(2) by (auto simp add: regular_file_def)
  then obtain reads where r: "os_open (n_os (d_index env)) q = Some reads" "read_stream reads [] = Inr data"
    by (auto simp add: file_data_def split: option.splits sum.splits)
  obtain ds where ds: "stream_reads env reads [] st = Some (Inr (), st\<lparr>dm_store := writes ?c ds (dm_store st)\<rparr>)"
      "concat ds = data" "sound_pieces ds"
    using stream_reads_result [OF _ _ r(2), of c st env] assms(1) by (auto simp add: pipeline_ready_def)
  let ?st = "st\<lparr>dm_store := writes ?c ds (dm_store st),
    dm_total_bytes_synced := dm_total_bytes_synced st + me_size meta\<rparr>"
  have s: "process_file_streaming env q st = Some (Inr (), ?st)"
    using m r ds(1) by (simp add: process_file_streaming_def is_ok_def)
  have "storable ?c d" if "d \<in> set ds" for d
  proof -
    from that obtain ds1 ds2 where split: "ds = ds1 @ d # ds2" by (meson split_list)
    have "d \<noteq> [] \<and> length d \<le> MAX_OBJECT_SIZE" using ds(3) that by (simp add: sound_pieces_def list_all_iff)
    moreover have "file_data (n_os (d_index env)) q = Some (concat ds1 @ d @ concat ds2)"
      using m(2) ds(2) split by simp
    ultimately show ?thesis using assms(2) unfolding regular_file_def storable_def by blast
  qed
  then have "file_stored env q ?st"
    using assms(1) m(2) ds(2) written_readable [of ?c "dm_store st" _ ds]
    unfolding file_stored_def pipeline_ready_def objects_kept_def by (intro exI [of _ ds]) auto
  moreover have "advances env cfg c st ?st"
    by (rule kept_advances [OF assms(1) objects.process_file_streaming_keep [OF ready_objects [OF assms(1)] s]])
      (simp add: frame_of_def)
  ultimately show ?thesis using s by blast
qed

lemma processed_file:
  assumes "pipeline_ready env cfg c st" and "regular_file env q"
    and "walk_directory (n_os (d_index env)) cfg (butlast q) \<noteq> None"
  shows "\<exists>r st'. process_single_file_internal env CreateFile q st = Some (r, st') \<and>
    advances env cfg c st st' \<and> file_stored env q st'"
proof -
  let ?st = "st\<lparr>dm_current_operations := dm_current_operations st @ [operation_name q]\<rparr>"
  have "pipeline_ready env cfg c ?st" using assms(1) by (simp add: pipeline_ready_def objects_kept_def)
  from streamed_file [OF this assms(2)] obtain st1 where
    one: "process_file_streaming env q ?st = Some (Inr (), st1)" "advances env cfg c ?st st1" "file_stored env q st1" by blast
  from one(2) have ready1: "pipeline_ready env cfg c st1" by (simp add: advances_def)
  obtain r st2 where two: "index_parent env q st1 = Some (r, st2)"
    using daemon_index_total [OF ready1 assms(3)] by (cases "q = []") (auto simp add: index_parent_def parent_of_def)
  have "advances env cfg c st1 st2"
    by (rule kept_advances [OF ready1 objects.index_parent_keep [OF ready_objects [OF ready1] two]])
      (rule frame.index_parent_keep [OF refl two])
  with one have listed: "advances env cfg c st (st2\<lparr>dm_current_operations := x\<rparr>) \<and>
      file_stored env q (st2\<lparr>dm_current_operations := x\<rparr>)" for x
    by (auto simp add: advances_def file_stored_def pipeline_ready_def objects_kept_def)
  from listed [of "dm_current_operations st2"] have "advances env cfg c st st2 \<and> file_stored env q st2" by simp
  with one(1) two assms(2) listed show ?thesis
    by (auto simp add: process_single_file_internal_def regular_file_def)
qed

section \<open>A folder in the store\<close>

text \<open>No pattern hides a file here: the daemon walks everything.\<close>

definition everything :: indexer_config where
  "everything = default_indexer_config\<lparr>ic_ignore_patterns := []\<rparr>"

lemma not_ignored [simp]: "\<not> should_ignore everything p"
  by (simp add: should_ignore_def everything_def)

definition folder_ready :: "'c daemon_env \<Rightarrow> indexer_config \<Rightarrow> fs_path \<Rightarrow> (string \<times> node) list \<Rightarrow> bool" where
  "folder_ready env cfg p es \<longleftrightarrow> \<not> ic_follow_symlinks cfg \<and> presents (n_os (d_index env)) p (FolderNode es) \<and>
     (\<forall>q\<in>set (tree_files everything p (FolderNode es)). regular_file env q)"

lemma folder_walk: "folder_ready env cfg p es \<Longrightarrow> walk_directory (n_os (d_index env)) cfg p \<noteq> None"
  using walk_tree [of cfg "[(p, es)]" "n_os (d_index env)" "[]"] by (auto simp add: folder_ready_def walk_directory_def)

lemma tree_files_set:
  "set (tree_files cfg p (FolderNode es)) =
     set (own_files cfg p es) \<union> (\<Union>x\<in>set (sub_folders cfg p es). set (folder_files cfg x))"
  using arg_cong [OF tree_files_split [of cfg p es], of set_mset] unfolding set_mset_mset by simp

lemma sub_folder_ready:
  assumes "folder_ready env cfg p es" and "(q, fs) \<in> set (sub_folders everything p es)"
  shows "folder_ready env cfg q fs"
proof -
  have "set (tree_files everything q (FolderNode fs)) \<subseteq> set (tree_files everything p (FolderNode es))"
    unfolding tree_files_set [of everything p es] using assms(2) by (force simp add: folder_files_def)
  then show ?thesis
    using assms sub_folders_presented [OF _ assms(2)] unfolding folder_ready_def by blast
qed

lemma entries_stored:
  assumes "pipeline_ready env cfg c st" and "walk_directory (n_os (d_index env)) cfg p \<noteq> None"
    and "\<forall>q\<in>set (own_files everything p es). regular_file env q"
  shows "\<exists>st'. process_entries env (map (\<lambda>(n, nd). (p @ [n], kind_of nd)) es) dirs st =
      Some (rev (map fst (sub_folders everything p es)) @ dirs, st') \<and>
    advances env cfg c st st' \<and> (\<forall>q\<in>set (own_files everything p es). file_stored env q st')"
  using assms(1,3)
proof (induction es arbitrary: dirs st)
  case Nil
  then show ?case by (simp add: advances_def)
next
  case (Cons e es)
  obtain n nd where e: "e = (n, nd)" by (cases e)
  show ?case
  proof (cases "nd = FileNode")
    case True
    with Cons.prems(2) e have "regular_file env (p @ [n])" by simp
    from processed_file [OF Cons.prems(1) this] assms(2) obtain r st1 where
      one: "process_single_file_internal env CreateFile (p @ [n]) st = Some (r, st1)" "advances env cfg c st st1"
        "file_stored env (p @ [n]) st1" by auto
    from Cons.IH [of st1 dirs] one(2) Cons.prems(2) e obtain st2 where
      two: "process_entries env (map (\<lambda>(n, nd). (p @ [n], kind_of nd)) es) dirs st1 =
          Some (rev (map fst (sub_folders everything p es)) @ dirs, st2)" "advances env cfg c st1 st2"
        "\<forall>q\<in>set (own_files everything p es). file_stored env q st2" by (auto simp add: advances_def)
    from one two True e show ?thesis
      by (intro exI [of _ st2]) (auto simp add: advances_def)
  next
    case False
    from Cons.IH [of st "(case nd of FolderNode _ \<Rightarrow> [p @ [n]] | _ \<Rightarrow> []) @ dirs"] Cons.prems e False show ?thesis
      by (cases nd) auto
  qed
qed

lemma dirs_stored:
  assumes "pipeline_ready env cfg c st" and "\<forall>(p, es)\<in>set fs. folder_ready env cfg p es"
  shows "\<exists>st'. process_dirs env (map fst fs) st = Some (Inr (), st') \<and> advances env cfg c st st' \<and>
    (\<forall>q\<in>set (concat (map (folder_files everything) fs)). file_stored env q st')"
  using assms
proof (induction "sum_list (map (\<lambda>(q, fs). size (FolderNode fs)) fs)" arbitrary: fs st rule: less_induct)
  case less
  show ?case
  proof (cases fs)
    case Nil
    with less.prems(1) show ?thesis by (simp add: process_dirs.simps advances_def)
  next
    case (Cons x fs1)
    obtain p es where x: "x = (p, es)" by (cases x)
    have ready: "folder_ready env cfg p es" using less.prems(2) Cons x by simp
    let ?fs = "rev (sub_folders everything p es) @ fs1"
    have own: "\<forall>q\<in>set (own_files everything p es). regular_file env q"
      using ready tree_files_set [of everything p es] unfolding folder_ready_def by blast
    from entries_stored [OF less.prems(1) folder_walk [OF ready] own, of "map fst fs1"] obtain st1 where
      one: "process_entries env (map (\<lambda>(n, nd). (p @ [n], kind_of nd)) es) (map fst fs1) st =
          Some (rev (map fst (sub_folders everything p es)) @ map fst fs1, st1)" "advances env cfg c st st1"
        "\<forall>q\<in>set (own_files everything p es). file_stored env q st1" by blast
    have "sum_list (map (\<lambda>(q, fs). size (FolderNode fs)) ?fs) < sum_list (map (\<lambda>(q, fs). size (FolderNode fs)) fs)"
      using sub_folders_size [of everything p es]
      by (simp add: Cons x rev_map [symmetric] sum_list_rev del: node.size)
    moreover have "\<forall>(p, es)\<in>set ?fs. folder_ready env cfg p es"
      using less.prems(2) Cons sub_folder_ready [OF ready] by auto
    moreover have "pipeline_ready env cfg c st1" using one(2) by (simp add: advances_def)
    ultimately obtain st2 where two: "process_dirs env (map fst ?fs) st1 = Some (Inr (), st2)" "advances env cfg c st1 st2"
        "\<forall>q\<in>set (concat (map (folder_files everything) ?fs)). file_stored env q st2"
      using less.hyps [of ?fs st1] by blast
    have "process_dirs env (map fst fs) st = Some (Inr (), st2)"
      using ready one(1) two(1) by (subst process_dirs.simps) (simp add: Cons x folder_ready_def rev_map)
    moreover have "file_stored env q st2" if "q \<in> set (concat (map (folder_files everything) fs))" for q
    proof -
      have "folder_files everything (p, es) = tree_files everything p (FolderNode es)"
        by (simp only: folder_files_def prod.case)
      then have "set (concat (map (folder_files everything) fs)) =
          set (own_files everything p es) \<union> set (concat (map (folder_files everything) ?fs))"
        unfolding Cons x list.map concat.simps map_append concat_append set_append
        by (simp only: tree_files_set set_concat set_map set_rev Un_assoc image_image)
      with that one(3) two(2,3) show ?thesis by (auto simp only: advances_def)
    qed
    ultimately show ?thesis using advances_trans [OF one(2) two(2)] by blast
  qed
qed

section \<open>Properties\<close>

text \<open>C14: A folder that the daemon is told to add is stored: with a chunker that validates, a bound on
  concurrent chunks that is not zero, and on any tree of folders, files and links the operating
  system shows at its path, whose files are readable and whose pieces do not hash as the empty
  object does, the call returns; and unless the indexer already refuses the folder, it succeeds,
  the folder is listed as synced, and the content of every file in the tree, those the ignore
  patterns hide included, is in the store as pieces that can be read by their hashes.\<close>

theorem added_folder_is_stored:
  assumes "pipeline_ready env cfg c st" and "folder_ready env cfg p es"
    and "d_exists env p" and "os_is_dir (n_os (d_index env)) p" and "p \<notin> set (dm_synced_folders st)"
  shows "\<exists>r st'. add_sync_folder env p st = Some (r, st') \<and>
    (is_ok r \<longleftrightarrow> (\<exists>st1. daemon_index env p st = Some (Inr (), st1))) \<and>
    (is_ok r \<longrightarrow> dm_synced_folders st' = dm_synced_folders st @ [p] \<and>
       (\<forall>q\<in>set (tree_files everything p (FolderNode es)). \<exists>ds. file_data (n_os (d_index env)) q = Some (concat ds) \<and>
          (\<forall>d\<in>set ds. \<exists>x. read_individual (n_cas (d_index env)) (e_blake3 (n_cas (d_index env)) d) (dm_store st') = Inr x \<and>
             e_blake3 (n_cas (d_index env)) x = e_blake3 (n_cas (d_index env)) d)))"
proof -
  let ?c = "n_cas (d_index env)"
  obtain r0 st1 where i: "daemon_index env p st = Some (r0, st1)"
    using daemon_index_total [OF assms(1) folder_walk [OF assms(2)]] by blast
  have adv: "advances env cfg c st st1" by (rule daemon_index_advances [OF assms(1) i])
  have known: "x \<in> set (dm_synced_folders st) \<longleftrightarrow> False" if "x = p" for x using assms(5) that by simp
  show ?thesis
  proof (cases r0)
    case (Inl e)
    with i assms(3-5) show ?thesis
      by (auto simp add: add_sync_folder_def process_folder_for_sync_def is_ok_def)
  next
    case (Inr u)
    obtain st2 where d: "process_dirs env [p] st1 = Some (Inr (), st2)" "advances env cfg c st1 st2"
        "\<forall>q\<in>set (tree_files everything p (FolderNode es)). file_stored env q st2"
      using dirs_stored [of env cfg c st1 "[(p, es)]"] adv assms(2) by (auto simp add: advances_def folder_files_def)
    have "frame_of st1 = frame_of st" by (rule frame.index [OF refl i])
    moreover have "frame_of st2 = frame_of st1" by (rule frame.process_dirs_keep [OF d(1) refl])
    ultimately have synced: "dm_synced_folders st2 = dm_synced_folders st" by (simp add: frame_of_def)
    define st3 where "st3 = (if dm_manifest_callback st2 then call (ManifestReady p) st2 else st2)"
    have st3: "dm_synced_folders st3 = dm_synced_folders st" "dm_store st3 = dm_store st2"
      using synced by (simp_all add: st3_def call_def)
    have "add_sync_folder env p st = Some (Inr (), st3\<lparr>dm_synced_folders := dm_synced_folders st3 @ [p]\<rparr>)"
      using i Inr d(1) assms(3-5) by (simp add: add_sync_folder_def process_folder_for_sync_def is_ok_def st3_def)
    moreover have "\<forall>q\<in>set (tree_files everything p (FolderNode es)). \<exists>ds. file_data (n_os (d_index env)) q = Some (concat ds) \<and>
          (\<forall>d\<in>set ds. \<exists>x. read_individual ?c (e_blake3 ?c d) (dm_store st3) = Inr x \<and> e_blake3 ?c x = e_blake3 ?c d)"
      using d(3) unfolding file_stored_def readable_def st3(2) by (meson read_individual_file)
    ultimately show ?thesis using i Inr st3(1) by (auto simp add: is_ok_def)
  qed
qed

text \<open>What the daemon reaches from a state by messages and ticks.\<close>

inductive daemon_reaches :: "'c daemon \<Rightarrow> 'c daemon \<Rightarrow> bool" for st0 where
  start: "daemon_reaches st0 st0"
| step: "daemon_reaches st0 st \<Longrightarrow> daemon_step i st = Some (goes_on, st') \<Longrightarrow> daemon_reaches st0 st'"

definition daemon_ok :: "manifest_row set \<Rightarrow> 'c daemon \<Rightarrow> bool" where
  "daemon_ok R st \<longleftrightarrow> dm_pending_operations st = [] \<and> distinct (dm_synced_folders st) \<and>
     hm_wf (dm_active_peers st) \<and> rows_kept R st"

lemma daemon_ok_frame: "daemon_ok R st \<Longrightarrow> frame_of st' = frame_of st \<Longrightarrow> rows_kept R st' \<Longrightarrow> daemon_ok R st'"
  by (simp add: daemon_ok_def frame_of_def)

lemma daemon_ok_call [simp]: "daemon_ok R (call c st) \<longleftrightarrow> daemon_ok R st"
  by (simp add: daemon_ok_def rows_kept_def call_def)

lemma daemon_ok_calls: "daemon_ok R st \<Longrightarrow> daemon_ok R (fold (\<lambda>i. call (f i)) is st)"
  by (induction "is" arbitrary: st) simp_all

lemma daemon_ok_trigger: "daemon_ok R st \<Longrightarrow> daemon_ok R (trigger_auto_sync env st)"
  by (simp add: trigger_auto_sync_def daemon_ok_calls)

lemma daemon_ok_folder:
  assumes "daemon_ok R st" and "process_folder_for_sync env p st = Some (r, st')"
  shows "daemon_ok R st'" and "dm_synced_folders st' = dm_synced_folders st"
proof -
  have f: "frame_of st' = frame_of st" by (rule frame.process_folder_for_sync_keep [OF refl assms(2)])
  moreover have "rows_kept R st'" using rows.process_folder_for_sync_keep assms unfolding daemon_ok_def by blast
  ultimately show "daemon_ok R st'" by (rule daemon_ok_frame [OF assms(1)])
  show "dm_synced_folders st' = dm_synced_folders st" using f by (simp add: frame_of_def)
qed

lemma daemon_ok_paths: "daemon_ok R st \<Longrightarrow> process_paths env op ps st = Some st' \<Longrightarrow> daemon_ok R st'"
  using frame.process_paths_keep [OF refl] rows.process_paths_keep daemon_ok_frame unfolding daemon_ok_def by blast

lemma daemon_ok_changes:
  assumes "daemon_ok R st" and "process_debounced_changes env now st = Some st'"
  shows "daemon_ok R st'"
proof (cases "st' = st")
  case False
  let ?st = "st\<lparr>dm_debounce_buffer := [], dm_last_debounce := now\<rparr>"
  from assms(2) False obtain st2 st3 st4 where
    "process_paths env CreateFile (creates_of (dm_debounce_buffer st)) ?st = Some st2"
    "process_paths env ModifyFile (modifies_of (dm_debounce_buffer st)) st2 = Some st3"
    "process_paths env DeleteFile (deletes_of (dm_debounce_buffer st)) st3 = Some st4"
    "st' = trigger_auto_sync env st4 \<or> st' = st4"
    by (auto simp add: process_debounced_changes_def Let_def bind_eq_Some_conv split: if_split_asm)
  moreover have "daemon_ok R ?st" using assms(1) by (simp add: daemon_ok_def rows_kept_def)
  ultimately show ?thesis using daemon_ok_paths daemon_ok_trigger by blast
qed (use assms(1) in simp)

lemma daemon_ok_message:
  assumes "daemon_ok R st" and "handle_message env m st = Some (r, st')"
  shows "daemon_ok R st'"
proof (cases m)
  case (PeerDiscovered p)
  with assms show ?thesis
    by (auto simp add: handle_peer_discovered_def Let_def daemon_ok_def rows_kept_def hm.wf_put call_def)
next
  case (PeerLost i)
  with assms show ?thesis by (auto simp add: handle_peer_lost_def daemon_ok_def rows_kept_def hm.wf_del)
next
  case (SyncRequested i p)
  with assms show ?thesis using daemon_ok_folder(1) [OF assms(1)]
    by (auto simp add: handle_sync_request_def continue_def split: if_split_asm)
next
  case (AddSyncFolder p)
  show ?thesis
  proof (cases "st' = st")
    case False
    with AddSyncFolder assms(2) obtain r1 st1 where f: "process_folder_for_sync env p st = Some (r1, st1)"
        "p \<notin> set (dm_synced_folders st)"
        "st' = st1 \<or> st' = st1\<lparr>dm_synced_folders := dm_synced_folders st1 @ [p]\<rparr>"
      by (auto simp add: add_sync_folder_def continue_def split: if_split_asm)
    with daemon_ok_folder [OF assms(1) f(1)] show ?thesis by (auto simp add: daemon_ok_def rows_kept_def)
  qed (use assms(1) in simp)
next
  case (RemoveSyncFolder p)
  with assms show ?thesis by (auto simp add: remove_sync_folder_def daemon_ok_def rows_kept_def)
qed (use assms in \<open>auto simp add: daemon_ok_def rows_kept_def call_def\<close>)

lemma retry_handled:
  "retry_message n env (PeerDiscovered p) st = Some (r, st') \<Longrightarrow> st' = st \<or> st' = handle_peer_discovered p st"
  by (cases n) auto

lemma daemon_ok_step:
  assumes "daemon_ok R st" and "daemon_step i st = Some (goes_on, st')"
  shows "daemon_ok R st'"
proof (cases i)
  case (Received env m)
  with assms(2) obtain r where r: "handle_message_with_recovery env m st = Some (r, st')" by auto
  show ?thesis
  proof (cases "\<exists>p. m = PeerDiscovered p")
    case True
    then obtain p where p: "m = PeerDiscovered p" ..
    with r retry_handled [of 3 env p st r st'] have "st' = st \<or> st' = handle_peer_discovered p st"
      by (simp add: handle_message_with_recovery_def)
    with daemon_ok_message [OF assms(1), of env m _ "handle_peer_discovered p st"] p assms(1) show ?thesis by auto
  next
    case False
    with r have "handle_message env m st = Some (r, st')"
      by (cases m) (simp_all add: handle_message_with_recovery_def)
    with daemon_ok_message [OF assms(1)] show ?thesis by blast
  qed
next
  case (DebounceTick env now)
  with assms daemon_ok_changes show ?thesis by auto
next
  case (RetryTick now)
  with assms show ?thesis by (auto simp add: retry_failed_operations_def daemon_ok_def rows_kept_def)
qed

lemma daemon_ok_reaches: "daemon_reaches st0 st \<Longrightarrow> daemon_ok R st0 \<Longrightarrow> daemon_ok R st"
  by (induction rule: daemon_reaches.induct) (auto intro: daemon_ok_step)

text \<open>In every state the daemon reaches from its start, by any messages and ticks in any order, with
  any file system and clock, no operation is waiting to be retried: a file that could not be
  processed is logged and forgotten, so every tick that should retry failed operations leaves the
  state as it is, and the changes a status reports as pending are those of the debounce buffer
  alone.  The synced folders are distinct, each peer is listed once, and no manifest is ever
  removed from the index.\<close>

theorem failures_are_never_retried:
  assumes "saved_under_root ix" and "daemon_reaches (new_daemon cfg s ch ix now) st"
  shows "daemon_step (RetryTick t) st = Some (True, st) \<and>
    os_pending_changes (get_status st) = length (dm_debounce_buffer st) \<and>
    distinct (dm_synced_folders st) \<and> hm_wf (dm_active_peers st) \<and>
    set (ix_manifests (in_db ix)) \<subseteq> set (ix_manifests (in_db (dm_indexer st)))"
proof -
  have "daemon_ok (set (ix_manifests (in_db ix))) (new_daemon cfg s ch ix now)"
    using assms(1) by (simp add: daemon_ok_def rows_kept_def new_daemon_def hm.wf_empty)
  from daemon_ok_reaches [OF assms(2) this] show ?thesis
    by (simp add: daemon_ok_def rows_kept_def retry_failed_operations_def get_status_def)
qed

text \<open>C15: Once a folder is indexed, later changes of the files in it never reach the index: in every
  state the daemon reaches afterwards, processing a created or modified file whose parent has the
  same canonical path ends in an error if it ends at all, or does nothing, and leaves the
  manifests as they are.\<close>

theorem changes_never_reach_the_index:
  assumes "saved_under_root ix" and "daemon_reaches (new_daemon cfg s ch ix now) st"
    and "daemon_index env p st = Some (Inr (), st1)" and "daemon_reaches st1 st2"
    and "n_cas (d_index env') = n_cas (d_index env)"
    and "os_canonicalize (n_os (d_index env')) (butlast q) = os_canonicalize (n_os (d_index env)) p"
    and "\<forall>c. os_canonicalize (n_os (d_index env)) p = Some c \<longrightarrow> path_string c \<noteq> ''/''"
    and "q \<noteq> []" and "os_is_file (n_os (d_index env')) q" and "op \<noteq> DeleteFile"
    and "process_single_file env' op q st2 = Some (r, st3)"
  shows "(\<exists>e. r = Inl e) \<and> ix_manifests (in_db (dm_indexer st3)) = ix_manifests (in_db (dm_indexer st2))"
proof -
  let ?ix = "\<lambda>st. (dm_indexer st)\<lparr>in_store := (in_store (dm_indexer st))\<lparr>s_files := s_files (dm_store st)\<rparr>\<rparr>"
  have "daemon_ok {} (new_daemon cfg s ch ix now)"
    using assms(1) by (simp add: daemon_ok_def rows_kept_def new_daemon_def hm.wf_empty)
  from daemon_ok_reaches [OF assms(2) this] have st: "daemon_ok {} st" .
  from assms(3) obtain r1 ix1 where r1: "index_folder (d_index env) (d_now env) p (?ix st) = Some (r1, ix1)"
      "Inr () = and_then (map_err IndexFailed r1) (\<lambda>_. Inr ())" "dm_indexer st1 = ix1"
    by (elim daemon_index_cases) simp
  then obtain m where i: "index_folder (d_index env) (d_now env) p (?ix st) = Some (Inr m, ix1)" "dm_indexer st1 = ix1"
    by (cases r1) simp_all
  have root: "saved_under_root (?ix st)" using st by (simp add: daemon_ok_def rows_kept_def saved_under_root_def)
  from index_folder_rows [OF root i(1)] obtain c where c: "os_canonicalize (n_os (d_index env)) p = Some c" by blast
  with assms(7) have nr: "path_string c \<noteq> ''/''" by simp
  note once = index_folder_once(2) [OF root i(1) c nr]
  have "rows_kept (set (ix_manifests (in_db ix1))) st1"
    using daemon_index_rows [OF _ assms(3), of "{}"] st i(2) by (simp add: daemon_ok_def rows_kept_def)
  moreover have "frame_of st1 = frame_of st" by (rule frame.index [OF refl assms(3)])
  ultimately have "daemon_ok (set (ix_manifests (in_db ix1))) st1"
    using st by (simp add: daemon_ok_def frame_of_def)
  from daemon_ok_reaches [OF assms(4) this] have st2: "rows_kept (set (ix_manifests (in_db ix1))) st2"
    by (simp add: daemon_ok_def)
  from assms(11) show ?thesis
  proof (cases rule: process_single_file_cases)
    case nothing
    with assms(9,10) show ?thesis by (cases r) (auto simp add: is_ok_def)
  next
    case (stored content r1 st4)
    obtain cs where st4: "st4 = st2\<lparr>dm_store := cs\<rparr>"
      using stored(4) by (auto simp add: store_bytes_def Let_def split_beta)
    show ?thesis
    proof (cases r1)
      case (Inl e)
      with stored(5) st4 show ?thesis by auto
    next
      case (Inr u)
      with stored(5) assms(8) have "daemon_index env' (butlast q) st4 = Some (r, st3)"
        by (simp add: index_parent_def parent_of_def)
      then obtain r0 ix2 where j: "index_folder (d_index env') (d_now env') (butlast q) (?ix st4) = Some (r0, ix2)"
          "r = and_then (map_err IndexFailed r0) (\<lambda>_. Inr ())" "dm_indexer st3 = ix2"
        by (elim daemon_index_cases) auto
      have root4: "saved_under_root (?ix st4)" using st2 st4 by (simp add: rows_kept_def saved_under_root_def)
      have "indexed_once (d_index env') c (in_db (?ix st4))"
        using once st2 st4 assms(5) by (auto simp add: indexed_once_def rows_kept_def)
      with index_folder_once(3) [OF root4 _ _ nr] j(1) assms(6) c obtain e where "r0 = Inl e" by (cases r0) auto
      with j index_folder_Inl [of "?ix st4" "d_index env'" "d_now env'" "butlast q" e ix2] root4 st4 show ?thesis
        by (simp add: saved_under_root_def map_err_simps)
    qed
  next
    case folder
    with assms(9) show ?thesis by simp
  qed
qed

section \<open>A daemon that adds a folder\<close>

definition sample_daemon_env :: "(content_hash \<times> cached_chunk) list daemon_env" where
  "sample_daemon_env = \<lparr>d_index = sample_indexer_env, d_now = 5, d_exists = (\<lambda>_. True), d_tasks = id, d_peers = id\<rparr>"

definition sample_daemon :: "chunker \<Rightarrow> (content_hash \<times> cached_chunk) list daemon" where
  "sample_daemon ch = new_daemon default_orchestrator_config (in_store (sample_indexer ch)) ch (sample_indexer ch) 0"

lemma sample_daemon_index:
  assumes ch: "new_chunker default_config = Inr ch"
  shows "\<exists>st. daemon_index sample_daemon_env [''d''] (sample_daemon ch) = Some (Inr (), st)"
proof -
  obtain m ix where "index_folder sample_indexer_env 5 [''d''] (sample_indexer ch) = Some (Inr m, ix)"
    using sample_indexed [OF ch] by blast
  then show ?thesis
    by (simp add: daemon_index_def sample_daemon_env_def sample_daemon_def new_daemon_def)
qed

lemma sample_file_data: "file_data sample_os q = Some sample_content"
  by (simp add: file_data_def sample_os_def sample_content_def)

lemma sample_piece:
  assumes "sample_content = xs @ ys @ zs" and "ys \<noteq> []"
  shows "pad_hash ys \<noteq> pad_hash []"
proof -
  from assms(2) obtain y ys1 where y: "ys = y # ys1" by (cases ys) auto
  have "y \<in> set sample_content" unfolding assms(1) y by simp
  then have "y = 1" by (simp add: sample_content_def split: if_split_asm)
  with y show ?thesis by (simp add: pad_hash_def numeral_eq_Suc)
qed

lemma sample_regular: "regular_file sample_daemon_env [''d'', ''a'']"
proof -
  have "e_blake3 (sample_env 1) = pad_hash" by (simp add: sample_env_def)
  then show ?thesis
    using sample_piece sample_file_data
    by (auto simp add: regular_file_def sample_daemon_env_def sample_indexer_env_def) (simp_all add: sample_os_def)
qed

lemma sample_folder_ready: "folder_ready sample_daemon_env default_indexer_config [''d''] sample_tree"
  using sample_presented sample_regular
  by (simp add: folder_ready_def sample_tree_def sample_daemon_env_def sample_indexer_env_def default_indexer_config_def)

lemma sample_pipeline_ready:
  assumes "new_chunker default_config = Inr ch"
  shows "pipeline_ready sample_daemon_env default_indexer_config default_config (sample_daemon ch)"
  using assms new_chunker_valid [OF assms] store_ok_new [OF sample_env_ok iter_order_rev]
  by (simp add: pipeline_ready_def objects_kept_def sample_daemon_env_def sample_indexer_env_def sample_daemon_def
      new_daemon_def sample_indexer_def sample_env_ok default_orchestrator_config_def)

theorem added_folder_is_stored_witness:
  "\<exists>ch st'. new_chunker default_config = Inr ch \<and>
     add_sync_folder sample_daemon_env [''d''] (sample_daemon ch) = Some (Inr (), st') \<and>
     dm_synced_folders st' = [[''d'']] \<and>
     (\<exists>ds. concat ds = sample_content \<and> (\<forall>d\<in>set ds. \<exists>x. read_individual (sample_env 1) (pad_hash d) (dm_store st') = Inr x))"
proof -
  obtain ch where ch: "new_chunker default_config = Inr ch"
    by (simp add: new_chunker_def validate_config_def default_config_def)
  have e: "d_exists sample_daemon_env [''d'']" "os_is_dir (n_os (d_index sample_daemon_env)) [''d'']"
      "[''d''] \<notin> set (dm_synced_folders (sample_daemon ch))" "dm_synced_folders (sample_daemon ch) = []"
    by (simp_all add: sample_daemon_env_def sample_indexer_env_def sample_os_def sample_daemon_def new_daemon_def)
  have c: "n_cas (d_index sample_daemon_env) = sample_env 1" "e_blake3 (sample_env 1) = pad_hash"
      "n_os (d_index sample_daemon_env) = sample_os"
    by (simp_all add: sample_daemon_env_def sample_indexer_env_def sample_env_def)
  have q: "[''d'', ''a''] \<in> set (tree_files everything [''d''] (FolderNode sample_tree))" by (simp add: sample_tree_def)
  from added_folder_is_stored [OF sample_pipeline_ready [OF ch] sample_folder_ready e(1-3)] sample_daemon_index [OF ch]
  obtain r st' where a: "add_sync_folder sample_daemon_env [''d''] (sample_daemon ch) = Some (r, st')" "is_ok r"
      "dm_synced_folders st' = [[''d'']]"
      "\<forall>q\<in>set (tree_files everything [''d''] (FolderNode sample_tree)). \<exists>ds. file_data sample_os q = Some (concat ds) \<and>
          (\<forall>d\<in>set ds. \<exists>x. read_individual (sample_env 1) (pad_hash d) (dm_store st') = Inr x \<and> pad_hash x = pad_hash d)"
    by (auto simp only: c e(4) append_Nil)
  from a(2) have "r = Inr ()" by (cases r) (simp_all add: is_ok_def)
  with a(1,3) a(4) [rule_format, OF q] ch show ?thesis unfolding sample_file_data option.inject by metis
qed

lemma sample_saved: "new_chunker default_config = Inr ch \<Longrightarrow> saved_under_root (sample_indexer ch)"
  using new_chunker_valid [of default_config ch] by (simp add: saved_under_root_def sample_indexer_def new_index_db_def)

theorem failures_are_never_retried_witness:
  "\<exists>ch st. new_chunker default_config = Inr ch \<and> daemon_reaches (sample_daemon ch) st \<and>
     length (dm_debounce_buffer st) = 1 \<and> daemon_step (RetryTick 9) st = Some (True, st)"
proof -
  obtain ch where ch: "new_chunker default_config = Inr ch"
    by (simp add: new_chunker_def validate_config_def default_config_def)
  let ?m = "FileChanged \<lparr>ev_path = [''d'', ''a''], ev_kind = Modified\<rparr>"
  obtain st where st: "daemon_step (Received sample_daemon_env ?m) (sample_daemon ch) = Some (True, st)"
      "length (dm_debounce_buffer st) = 1"
    by (simp add: handle_message_with_recovery_def sample_daemon_def new_daemon_def)
  have r: "daemon_reaches (sample_daemon ch) st" by (rule daemon_reaches.step [OF daemon_reaches.start st(1)])
  from failures_are_never_retried [OF sample_saved [OF ch] this [unfolded sample_daemon_def], of 9] r ch st(2)
  show ?thesis by blast
qed

text \<open>The file in the folder is changed after the folder was indexed.\<close>

theorem changes_never_reach_the_index_witness:
  "\<exists>ch st e st2. daemon_index sample_daemon_env [''d''] (sample_daemon ch) = Some (Inr (), st) \<and>
     process_single_file sample_daemon_env ModifyFile [''d'', ''a''] st = Some (Inl e, st2)"
proof -
  obtain ch where ch: "new_chunker default_config = Inr ch"
    by (simp add: new_chunker_def validate_config_def default_config_def)
  obtain st where i: "daemon_index sample_daemon_env [''d''] (sample_daemon ch) = Some (Inr (), st)"
    using sample_daemon_index [OF ch] by blast
  have "pipeline_ready sample_daemon_env default_indexer_config default_config st"
    using daemon_index_advances [OF sample_pipeline_ready [OF ch] i] by (simp add: advances_def)
  note ready = this
  then have "new_chunker default_config = Inr (dm_chunker st)" by (simp add: pipeline_ready_def)
  from store_bytes_result [OF this, of sample_daemon_env sample_content] obtain ds where
    s: "store_bytes sample_daemon_env sample_content st =
        Some (Inr (), st\<lparr>dm_store := writes (n_cas (d_index sample_daemon_env)) ds (dm_store st)\<rparr>)" by blast
  from objects.store_bytes_keep [OF _ s, of default_indexer_config "{}"] ready
  have ready2: "pipeline_ready sample_daemon_env default_indexer_config default_config
      (st\<lparr>dm_store := writes (n_cas (d_index sample_daemon_env)) ds (dm_store st)\<rparr>)"
    by (simp add: pipeline_ready_def)
  have o: "n_os (d_index sample_daemon_env) = sample_os" by (simp add: sample_daemon_env_def sample_indexer_env_def)
  have f: "os_is_file sample_os [''d'', ''a'']" by (simp add: sample_os_def)
  obtain r st2 where p: "process_single_file sample_daemon_env ModifyFile [''d'', ''a''] st = Some (r, st2)"
    using daemon_index_total [OF ready2 folder_walk [OF sample_folder_ready]] s f sample_file_data
    by (auto simp add: process_single_file_def o index_parent_def parent_of_def)
  have b: "os_canonicalize (n_os (d_index sample_daemon_env)) (butlast [''d'', ''a'']) =
      os_canonicalize (n_os (d_index sample_daemon_env)) [''d'']" by simp
  have nr: "\<forall>c. os_canonicalize (n_os (d_index sample_daemon_env)) [''d''] = Some c \<longrightarrow> path_string c \<noteq> ''/''"
    by (simp add: o sample_os_def path_string_def)
  have "\<exists>e. r = Inl e"
    using changes_never_reach_the_index [OF sample_saved [OF ch] daemon_reaches.start
        i [unfolded sample_daemon_def] daemon_reaches.start refl b nr _ _ _ p] f by (simp add: o)
  with p i show ?thesis by blast
qed

end
