(* ===== verification/File_Sync.thy ===== *)
theory File_Sync
  imports Codec
begin

text \<open>
  The file transfer of the alpha release (\<open>landro-daemon/src/simple_sync_protocol.rs\<close>,
  \<open>connection_handler.rs\<close>): messages in JSON behind a length, a sender and a receiver that work
  on the two directions of a stream, and the daemon's handler of such messages.

  The JSON of serde is a parameter; for these types it does not fail.  A side waits while the
  stream holds no whole message, and fails if the other side has ended.  What a side writes is
  delivered in order; either side may lose its connection at any time.
\<close>

section \<open>Messages\<close>

datatype sync_message =
    FileTransferRequest string u64 string
  | FileTransferResponse bool "string option"
  | FileData bytes
  | TransferComplete bool bool string

datatype transfer_error =
    TransferIo
  | JsonFailed
  | MessageTooLarge
  | TransferRejected string
  | UnexpectedMessage
  | TransferFailed string
  | ChecksumFailed

text \<open>\<open>t_write d\<close> is the content of the destination after writing \<open>d\<close>, and whether it succeeded.\<close>

record transfer_env =
  t_blake3 :: "bytes \<Rightarrow> bytes"
  t_hex :: "bytes \<Rightarrow> string"
  t_to_json :: "sync_message \<Rightarrow> bytes"
  t_from_json :: "bytes \<Rightarrow> sync_message option"
  t_read :: "bytes option"
  t_create_dir :: bool
  t_write :: "bytes \<Rightarrow> bytes option \<times> bool"
  t_error :: string

definition message_limit :: nat where
  "message_limit = 100 * 1024 * 1024"

text \<open>The length is cut to 32 bits.\<close>

definition send :: "transfer_env \<Rightarrow> sync_message \<Rightarrow> bytes" where
  "send env m = (let b = t_to_json env m in u32_be (word_of_nat (length b)) @ b)"

text \<open>\<open>None\<close> while the message is not there yet; \<open>closed\<close> if nothing more will come.\<close>

definition receive ::
  "transfer_env \<Rightarrow> bool \<Rightarrow> bytes \<Rightarrow> ((transfer_error + sync_message) \<times> bytes) option" where
  "receive env closed input =
     (case read_exact 4 input of
        None \<Rightarrow> if closed then Some (Inl TransferIo, []) else None
      | Some (l, rest) \<Rightarrow>
          if unat (u32_of_be l) > message_limit then Some (Inl MessageTooLarge, rest)
          else case read_exact (unat (u32_of_be l)) rest of
            None \<Rightarrow> if closed then Some (Inl TransferIo, []) else None
          | Some (b, rest1) \<Rightarrow>
              Some (case t_from_json env b of None \<Rightarrow> Inl JsonFailed | Some m \<Rightarrow> Inr m, rest1))"

section \<open>Sender and receiver\<close>

datatype sender = SendRequest | AwaitResponse bytes | AwaitCompletion | SenderEnded "transfer_error + unit"

datatype receiver = AwaitRequest | AwaitData string | ReceiverEnded "transfer_error + unit"

record transfer =
  tr_sender :: sender
  tr_receiver :: receiver
  tr_to_receiver :: bytes
  tr_to_sender :: bytes
  tr_dest :: "bytes option"

definition new_transfer :: "bytes option \<Rightarrow> transfer" where
  "new_transfer dest = \<lparr>tr_sender = SendRequest, tr_receiver = AwaitRequest, tr_to_receiver = [],
     tr_to_sender = [], tr_dest = dest\<rparr>"

definition receiver_ended :: "transfer \<Rightarrow> bool" where
  "receiver_ended t = (case tr_receiver t of ReceiverEnded _ \<Rightarrow> True | _ \<Rightarrow> False)"

definition sender_ended :: "transfer \<Rightarrow> bool" where
  "sender_ended t = (case tr_sender t of SenderEnded _ \<Rightarrow> True | _ \<Rightarrow> False)"

definition response_received :: "transfer_env \<Rightarrow> bytes \<Rightarrow> transfer_error + sync_message \<Rightarrow> transfer \<Rightarrow> transfer" where
  "response_received env d r t =
     (case r of
        Inl e \<Rightarrow> t\<lparr>tr_sender := SenderEnded (Inl e)\<rparr>
      | Inr (FileTransferResponse True _) \<Rightarrow>
          t\<lparr>tr_to_receiver := tr_to_receiver t @ send env (FileData d), tr_sender := AwaitCompletion\<rparr>
      | Inr (FileTransferResponse False reason) \<Rightarrow>
          t\<lparr>tr_sender := SenderEnded (Inl (TransferRejected
             (case reason of None \<Rightarrow> ''Unknown reason'' | Some s \<Rightarrow> s)))\<rparr>
      | Inr _ \<Rightarrow> t\<lparr>tr_sender := SenderEnded (Inl UnexpectedMessage)\<rparr>)"

definition completion_received :: "transfer_error + sync_message \<Rightarrow> transfer_error + unit" where
  "completion_received r =
     (case r of
        Inl e \<Rightarrow> Inl e
      | Inr (TransferComplete success verified message) \<Rightarrow>
          if success \<and> verified then Inr () else Inl (TransferFailed message)
      | Inr _ \<Rightarrow> Inl UnexpectedMessage)"

text \<open>One side goes on until it has to wait for a message; \<open>None\<close> if it waits or has ended.\<close>

definition sender_step :: "transfer_env \<Rightarrow> string \<Rightarrow> transfer \<Rightarrow> transfer option" where
  "sender_step env p t =
     (case tr_sender t of
        SendRequest \<Rightarrow>
          Some (case t_read env of
              None \<Rightarrow> t\<lparr>tr_sender := SenderEnded (Inl TransferIo)\<rparr>
            | Some d \<Rightarrow>
                t\<lparr>tr_to_receiver := tr_to_receiver t @ send env (FileTransferRequest p (word_of_nat (length d))
                    (t_hex env (t_blake3 env d))), tr_sender := AwaitResponse d\<rparr>)
      | AwaitResponse d \<Rightarrow>
          map_option (\<lambda>(r, rest). response_received env d r (t\<lparr>tr_to_sender := rest\<rparr>))
            (receive env (receiver_ended t) (tr_to_sender t))
      | AwaitCompletion \<Rightarrow>
          map_option (\<lambda>(r, rest). t\<lparr>tr_to_sender := rest, tr_sender := SenderEnded (completion_received r)\<rparr>)
            (receive env (receiver_ended t) (tr_to_sender t))
      | SenderEnded _ \<Rightarrow> None)"

definition request_received :: "transfer_env \<Rightarrow> transfer_error + sync_message \<Rightarrow> transfer \<Rightarrow> transfer" where
  "request_received env r t =
     (case r of
        Inl e \<Rightarrow> t\<lparr>tr_receiver := ReceiverEnded (Inl e)\<rparr>
      | Inr (FileTransferRequest _ _ checksum) \<Rightarrow>
          t\<lparr>tr_to_sender := tr_to_sender t @ send env (FileTransferResponse True None), tr_receiver := AwaitData checksum\<rparr>
      | Inr _ \<Rightarrow>
          t\<lparr>tr_to_sender := tr_to_sender t @ send env (FileTransferResponse False (Some ''Expected file transfer request'')),
            tr_receiver := ReceiverEnded (Inl UnexpectedMessage)\<rparr>)"

definition data_received :: "transfer_env \<Rightarrow> string \<Rightarrow> transfer_error + sync_message \<Rightarrow> transfer \<Rightarrow> transfer" where
  "data_received env expected r t =
     (case r of
        Inl e \<Rightarrow> t\<lparr>tr_receiver := ReceiverEnded (Inl e)\<rparr>
      | Inr (FileData d) \<Rightarrow>
          if t_hex env (t_blake3 env d) \<noteq> expected then
            t\<lparr>tr_to_sender := tr_to_sender t @ send env (TransferComplete False False ''Checksum verification failed''),
              tr_receiver := ReceiverEnded (Inl ChecksumFailed)\<rparr>
          else if \<not> t_create_dir env then t\<lparr>tr_receiver := ReceiverEnded (Inl TransferIo)\<rparr>
          else
            let (dest, ok) = t_write env d in
            if \<not> ok then t\<lparr>tr_dest := dest, tr_receiver := ReceiverEnded (Inl TransferIo)\<rparr>
            else t\<lparr>tr_dest := dest,
                tr_to_sender := tr_to_sender t @ send env (TransferComplete True True ''File transfer completed successfully''),
                tr_receiver := ReceiverEnded (Inr ())\<rparr>
      | Inr _ \<Rightarrow>
          t\<lparr>tr_to_sender := tr_to_sender t @ send env (TransferComplete False False ''Expected file data''),
            tr_receiver := ReceiverEnded (Inl UnexpectedMessage)\<rparr>)"

definition receiver_step :: "transfer_env \<Rightarrow> transfer \<Rightarrow> transfer option" where
  "receiver_step env t =
     (case tr_receiver t of
        AwaitRequest \<Rightarrow>
          map_option (\<lambda>(r, rest). request_received env r (t\<lparr>tr_to_receiver := rest\<rparr>))
            (receive env (sender_ended t) (tr_to_receiver t))
      | AwaitData expected \<Rightarrow>
          map_option (\<lambda>(r, rest). data_received env expected r (t\<lparr>tr_to_receiver := rest\<rparr>))
            (receive env (sender_ended t) (tr_to_receiver t))
      | ReceiverEnded _ \<Rightarrow> None)"

text \<open>The two sides in any interleaving, and with the loss of connections.\<close>

inductive transfer_step :: "transfer_env \<Rightarrow> string \<Rightarrow> transfer \<Rightarrow> transfer \<Rightarrow> bool" for env p where
  sender: "sender_step env p t = Some t' \<Longrightarrow> transfer_step env p t t'"
| receiver: "receiver_step env t = Some t' \<Longrightarrow> transfer_step env p t t'"

inductive transfer_reaches :: "transfer_env \<Rightarrow> string \<Rightarrow> transfer \<Rightarrow> transfer \<Rightarrow> bool" for env p t0 where
  start: "transfer_reaches env p t0 t0"
| step: "transfer_reaches env p t0 t \<Longrightarrow> transfer_step env p t t' \<Longrightarrow> transfer_reaches env p t0 t'"
| sender_lost: "transfer_reaches env p t0 t \<Longrightarrow> \<not> sender_ended t \<Longrightarrow>
    transfer_reaches env p t0 (t\<lparr>tr_sender := SenderEnded (Inl TransferIo)\<rparr>)"
| receiver_lost: "transfer_reaches env p t0 t \<Longrightarrow> \<not> receiver_ended t \<Longrightarrow>
    transfer_reaches env p t0 (t\<lparr>tr_receiver := ReceiverEnded (Inl TransferIo)\<rparr>)"

inductive_cases transfer_stepE: "transfer_step env p t t'"

section \<open>The daemon's handler\<close>

text \<open>The reply to one message, if any, and the file it leaves.  Every file is written to the same
  path; the path that the request asks for is only logged.\<close>

definition process_sync_message :: "transfer_env \<Rightarrow> bytes \<Rightarrow> bytes option \<Rightarrow> bytes option \<times> bytes option" where
  "process_sync_message env b f =
     (case t_from_json env b of
        None \<Rightarrow> (None, f)
      | Some (FileTransferRequest _ _ _) \<Rightarrow>
          (Some (t_to_json env (if t_create_dir env then FileTransferResponse True None
             else FileTransferResponse False (Some (''Failed to create destination folder: '' @ t_error env)))), f)
      | Some (FileData d) \<Rightarrow>
          let (f1, ok) = t_write env d in
          (Some (t_to_json env (if ok
             then TransferComplete True True (''File saved successfully, checksum: '' @ t_hex env (t_blake3 env d))
             else TransferComplete False False (''Failed to save file: '' @ t_error env))), f1)
      | Some _ \<Rightarrow> (None, f))"

text \<open>The handler of a connection, on all that arrives: the replies and the file.\<close>

function handle_quic_connection :: "transfer_env \<Rightarrow> bytes \<Rightarrow> bytes option \<Rightarrow> bytes \<times> bytes option" where
  "handle_quic_connection env input f =
     (case read_exact 4 input of
        None \<Rightarrow> ([], f)
      | Some (l, rest) \<Rightarrow>
          (case read_exact (unat (u32_of_be l)) rest of
             None \<Rightarrow> ([], f)
           | Some (b, rest1) \<Rightarrow>
               let (reply, f1) = process_sync_message env b f;
                   (out, f2) = handle_quic_connection env rest1 f1
               in ((case reply of None \<Rightarrow> [] | Some r \<Rightarrow> u32_be (word_of_nat (length r)) @ r) @ out, f2)))"
  by pat_completeness auto
termination
  by (relation "measure (\<lambda>(_, input, _). length input)") (auto dest!: read_exact_Some)

declare handle_quic_connection.simps [simp del]

section \<open>Messages on the stream\<close>

definition fits :: "transfer_env \<Rightarrow> sync_message \<Rightarrow> bool" where
  "fits env m \<longleftrightarrow> t_from_json env (t_to_json env m) = Some m \<and> length (t_to_json env m) < 2 ^ 32"

definition deliverable :: "transfer_env \<Rightarrow> sync_message \<Rightarrow> bool" where
  "deliverable env m \<longleftrightarrow> fits env m \<and> length (t_to_json env m) \<le> message_limit"

lemma receive_delivered: "deliverable env m \<Longrightarrow> receive env closed (send env m @ rest) = Some (Inr m, rest)"
  by (simp add: receive_def send_def deliverable_def fits_def Let_def codec_simps unat_of_nat_u32)

lemma receive_large:
  "fits env m \<Longrightarrow> message_limit < length (t_to_json env m) \<Longrightarrow>
     receive env closed (send env m @ rest) = Some (Inl MessageTooLarge, t_to_json env m @ rest)"
  by (simp add: receive_def send_def fits_def Let_def codec_simps unat_of_nat_u32)

lemma receive_nothing: "receive env closed [] = (if closed then Some (Inl TransferIo, []) else None)"
  by (simp add: receive_def read_exact_def)

text \<open>A file, the messages of its transfer and what is left of them on the stream after \<open>c\<close> of \<open>k\<close>
  messages have been taken off.\<close>

definition request_of :: "transfer_env \<Rightarrow> string \<Rightarrow> bytes \<Rightarrow> sync_message" where
  "request_of env p d = FileTransferRequest p (word_of_nat (length d)) (t_hex env (t_blake3 env d))"

definition acceptance :: sync_message where
  "acceptance = FileTransferResponse True None"

definition completion :: sync_message where
  "completion = TransferComplete True True ''File transfer completed successfully''"

definition in_flight :: "transfer_env \<Rightarrow> sync_message list \<Rightarrow> nat \<Rightarrow> nat \<Rightarrow> bytes" where
  "in_flight env ms k c = concat (map (send env) (drop c (take k ms)))"

lemma in_flight_simps [simp]:
  "in_flight env ms k k = []"
  "in_flight env [a, b] (Suc 0) 0 = send env a" "in_flight env [a, b] 2 0 = send env a @ send env b"
  "in_flight env [a, b] 2 (Suc 0) = send env b"
  by (simp_all add: in_flight_def)

definition sends_file :: "transfer_env \<Rightarrow> string \<Rightarrow> bytes \<Rightarrow> bool" where
  "sends_file env p d \<longleftrightarrow> t_read env = Some d \<and> deliverable env (request_of env p d) \<and>
     deliverable env acceptance \<and> deliverable env completion \<and> fits env (FileData d) \<and>
     (snd (t_write env d) \<longrightarrow> fst (t_write env d) = Some d)"

text \<open>\<open>ks\<close> and \<open>kr\<close> count what each side has sent.  A side that ended with an error may have left the
  stream in any state.\<close>

definition sender_at :: "transfer_env \<Rightarrow> bytes \<Rightarrow> nat \<Rightarrow> nat \<Rightarrow> transfer \<Rightarrow> bool" where
  "sender_at env d ks kr t \<longleftrightarrow>
     (case tr_sender t of
        SendRequest \<Rightarrow> ks = 0 \<and> tr_to_sender t = in_flight env [acceptance, completion] kr 0
      | AwaitResponse x \<Rightarrow> x = d \<and> ks = 1 \<and> tr_to_sender t = in_flight env [acceptance, completion] kr 0
      | AwaitCompletion \<Rightarrow> ks = 2 \<and> 0 < kr \<and> tr_to_sender t = in_flight env [acceptance, completion] kr 1
      | SenderEnded r \<Rightarrow> is_ok r \<longrightarrow> kr = 2)"

definition receiver_at :: "transfer_env \<Rightarrow> string \<Rightarrow> bytes \<Rightarrow> bytes option \<Rightarrow> nat \<Rightarrow> nat \<Rightarrow> transfer \<Rightarrow> bool" where
  "receiver_at env p d dest ks kr t \<longleftrightarrow>
     (case tr_receiver t of
        AwaitRequest \<Rightarrow> kr = 0 \<and> tr_dest t = dest \<and>
          tr_to_receiver t = in_flight env [request_of env p d, FileData d] ks 0
      | AwaitData c \<Rightarrow> c = t_hex env (t_blake3 env d) \<and> kr = 1 \<and> 0 < ks \<and> tr_dest t = dest \<and>
          tr_to_receiver t = in_flight env [request_of env p d, FileData d] ks 1
      | ReceiverEnded r \<Rightarrow>
          if is_ok r then kr = 2 \<and> tr_dest t = Some d \<and> deliverable env (FileData d)
          else kr < 2 \<and> (tr_dest t = dest \<or> tr_dest t = fst (t_write env d) \<and> deliverable env (FileData d)))"

definition transfer_inv :: "transfer_env \<Rightarrow> string \<Rightarrow> bytes \<Rightarrow> bytes option \<Rightarrow> transfer \<Rightarrow> bool" where
  "transfer_inv env p d dest t \<longleftrightarrow>
     (\<exists>ks kr. ks \<le> 2 \<and> kr \<le> 2 \<and> sender_at env d ks kr t \<and> receiver_at env p d dest ks kr t)"

lemma receiver_at_frame [simp]:
  "receiver_at env p d dest ks kr (t\<lparr>tr_sender := x\<rparr>) = receiver_at env p d dest ks kr t"
  "receiver_at env p d dest ks kr (t\<lparr>tr_to_sender := b\<rparr>) = receiver_at env p d dest ks kr t"
  by (simp_all add: receiver_at_def split: receiver.split)

lemma sender_at_frame [simp]:
  "sender_at env d ks kr (t\<lparr>tr_receiver := y\<rparr>) = sender_at env d ks kr t"
  "sender_at env d ks kr (t\<lparr>tr_to_receiver := b\<rparr>) = sender_at env d ks kr t"
  "sender_at env d ks kr (t\<lparr>tr_dest := f\<rparr>) = sender_at env d ks kr t"
  by (simp_all add: sender_at_def split: sender.split)

lemma in_flight_more: "k < length ms \<Longrightarrow> c \<le> k \<Longrightarrow> in_flight env ms (Suc k) c = in_flight env ms k c @ send env (ms ! k)"
  by (simp add: in_flight_def take_Suc_conv_app_nth)

lemma in_flight_next: "c < k \<Longrightarrow> k \<le> length ms \<Longrightarrow> in_flight env ms k c = send env (ms ! c) @ in_flight env ms k (Suc c)"
  by (simp add: in_flight_def Cons_nth_drop_Suc [symmetric])

lemma receiver_at_sends:
  "receiver_at env p d dest ks kr t \<Longrightarrow> ks < 2 \<Longrightarrow> m = [request_of env p d, FileData d] ! ks \<Longrightarrow>
     receiver_at env p d dest (Suc ks) kr (t\<lparr>tr_to_receiver := tr_to_receiver t @ send env m\<rparr>)"
  by (auto simp add: receiver_at_def in_flight_more Suc_le_eq split: receiver.splits)

lemma sender_at_sends:
  "sender_at env d ks kr t \<Longrightarrow> kr < 2 \<Longrightarrow> m = [acceptance, completion] ! kr \<Longrightarrow>
     sender_at env d ks (Suc kr) (t\<lparr>tr_to_sender := tr_to_sender t @ send env m\<rparr>)"
  by (auto simp add: sender_at_def in_flight_more Suc_le_eq split: sender.splits)

lemma transfer_invI:
  "sender_at env d ks kr t \<Longrightarrow> receiver_at env p d dest ks kr t \<Longrightarrow> ks \<le> 2 \<Longrightarrow> kr \<le> 2 \<Longrightarrow> transfer_inv env p d dest t"
  by (auto simp add: transfer_inv_def)

lemma sender_inv:
  assumes ok: "sends_file env p d" and inv: "transfer_inv env p d dest t" and s: "sender_step env p t = Some t'"
  shows "transfer_inv env p d dest t'"
proof -
  from inv obtain ks kr where k: "ks \<le> 2" "kr \<le> 2" and at: "sender_at env d ks kr t" "receiver_at env p d dest ks kr t"
    by (auto simp add: transfer_inv_def)
  show ?thesis
  proof (cases "tr_sender t")
    case SendRequest
    then have ks: "ks = 0" "tr_to_sender t = in_flight env [acceptance, completion] kr 0"
      using at(1) by (simp_all add: sender_at_def)
    from SendRequest ok s have t': "t' = t\<lparr>tr_to_receiver := tr_to_receiver t @ send env (request_of env p d), tr_sender := AwaitResponse d\<rparr>"
      by (auto simp add: sender_step_def sends_file_def request_of_def)
    show ?thesis
    proof (rule transfer_invI)
      show "receiver_at env p d dest 1 kr t'" using receiver_at_sends [OF at(2)] ks by (simp add: t')
      show "sender_at env d 1 kr t'" using ks by (simp add: sender_at_def t')
    qed (use k in simp_all)
  next
    case (AwaitResponse x)
    then have x: "x = d" "ks = 1" "tr_to_sender t = in_flight env [acceptance, completion] kr 0"
      using at(1) by (simp_all add: sender_at_def)
    show ?thesis
    proof (cases "kr = 0")
      case True
      with x s AwaitResponse have "t' = t\<lparr>tr_to_sender := [], tr_sender := SenderEnded (Inl TransferIo)\<rparr>"
        by (auto simp add: sender_step_def receive_nothing response_received_def split: if_split_asm)
      with at k show ?thesis by (intro transfer_invI [of env d ks kr]) (simp_all add: sender_at_def is_ok_def)
    next
      case False
      then have "tr_to_sender t = send env acceptance @ in_flight env [acceptance, completion] kr (Suc 0)"
        using k(2) x(3) by (simp add: in_flight_next)
      with x(1) s AwaitResponse ok have t': "t' = t\<lparr>tr_to_sender := in_flight env [acceptance, completion] kr (Suc 0),
          tr_to_receiver := tr_to_receiver t @ send env (FileData d), tr_sender := AwaitCompletion\<rparr>"
        by (simp add: sender_step_def receive_delivered sends_file_def response_received_def) (simp add: acceptance_def)
      show ?thesis
      proof (rule transfer_invI)
        show "receiver_at env p d dest 2 kr t'"
          using receiver_at_sends [of env p d dest ks kr "t\<lparr>tr_to_sender := in_flight env [acceptance, completion] kr (Suc 0)\<rparr>"
              "FileData d"] at(2) x(2) by (simp add: t' numeral_2_eq_2)
        show "sender_at env d 2 kr t'" using False by (simp add: sender_at_def t')
      qed (use k in simp_all)
    qed
  next
    case AwaitCompletion
    then have x: "ks = 2" "0 < kr" "tr_to_sender t = in_flight env [acceptance, completion] kr 1"
      using at(1) by (simp_all add: sender_at_def)
    obtain r rest where t': "t' = t\<lparr>tr_to_sender := rest, tr_sender := SenderEnded r\<rparr>" "is_ok r \<longrightarrow> kr = 2"
    proof (cases "kr = 1")
      case True
      with x s AwaitCompletion that [of "Inl TransferIo" "[]"] show thesis
        by (auto simp add: sender_step_def receive_nothing completion_received_def is_ok_def split: if_split_asm)
    next
      case False
      with x k(2) have "kr = 2" by simp
      with s AwaitCompletion that show thesis by (auto simp add: sender_step_def)
    qed
    with at k show ?thesis by (intro transfer_invI [of env d ks kr]) (simp_all add: sender_at_def)
  next
    case (SenderEnded r)
    with s show ?thesis by (simp add: sender_step_def)
  qed
qed

lemma receiver_inv:
  assumes ok: "sends_file env p d" and inv: "transfer_inv env p d dest t" and s: "receiver_step env t = Some t'"
  shows "transfer_inv env p d dest t'"
proof -
  from inv obtain ks kr where k: "ks \<le> 2" "kr \<le> 2" and at: "sender_at env d ks kr t" "receiver_at env p d dest ks kr t"
    by (auto simp add: transfer_inv_def)
  show ?thesis
  proof (cases "tr_receiver t")
    case AwaitRequest
    then have x: "kr = 0" "tr_dest t = dest" "tr_to_receiver t = in_flight env [request_of env p d, FileData d] ks 0"
      using at(2) by (simp_all add: receiver_at_def)
    show ?thesis
    proof (cases "ks = 0")
      case True
      with x s AwaitRequest have t': "t' = t\<lparr>tr_to_receiver := [], tr_receiver := ReceiverEnded (Inl TransferIo)\<rparr>"
        by (auto simp add: receiver_step_def receive_nothing request_received_def split: if_split_asm)
      show ?thesis
        by (rule transfer_invI [of env d ks kr]) (use at k x in \<open>simp_all add: t' receiver_at_def is_ok_def\<close>)
    next
      case False
      then have "tr_to_receiver t = send env (request_of env p d) @ in_flight env [request_of env p d, FileData d] ks (Suc 0)"
        using k(1) x(3) by (simp add: in_flight_next)
      with s AwaitRequest ok have t': "t' = t\<lparr>tr_to_receiver := in_flight env [request_of env p d, FileData d] ks (Suc 0),
          tr_to_sender := tr_to_sender t @ send env acceptance, tr_receiver := AwaitData (t_hex env (t_blake3 env d))\<rparr>"
        by (simp add: receiver_step_def receive_delivered sends_file_def request_received_def)
          (simp add: request_of_def acceptance_def)
      show ?thesis
      proof (rule transfer_invI)
        show "sender_at env d ks 1 t'"
          using sender_at_sends [of env d ks kr "t\<lparr>tr_to_receiver := in_flight env [request_of env p d, FileData d] ks (Suc 0)\<rparr>"
              acceptance] at(1) x(1) by (simp add: t')
        show "receiver_at env p d dest ks 1 t'" using False x(2) by (simp add: receiver_at_def t')
      qed (use k in simp_all)
    qed
  next
    case (AwaitData c)
    then have x: "c = t_hex env (t_blake3 env d)" "kr = 1" "0 < ks" "tr_dest t = dest"
        "tr_to_receiver t = in_flight env [request_of env p d, FileData d] ks 1"
      using at(2) by (simp_all add: receiver_at_def)
    have fail: ?thesis if "t' = t\<lparr>tr_to_receiver := b, tr_dest := f, tr_receiver := ReceiverEnded (Inl e)\<rparr>"
        "f = dest \<or> f = fst (t_write env d) \<and> deliverable env (FileData d)" for b e f
      by (rule transfer_invI [of env d ks kr]) (use at k x that in \<open>simp_all add: receiver_at_def is_ok_def\<close>)
    show ?thesis
    proof (cases "ks = 1")
      case True
      with x s AwaitData have "t' = t\<lparr>tr_to_receiver := [], tr_dest := dest, tr_receiver := ReceiverEnded (Inl TransferIo)\<rparr>"
        by (auto simp add: receiver_step_def receive_nothing data_received_def split: if_split_asm)
      with fail show ?thesis by blast
    next
      case False
      with x(3) k(1) have ks: "ks = 2" by simp
      with x(5) have f: "tr_to_receiver t = send env (FileData d) @ []" by simp
      show ?thesis
      proof (cases "deliverable env (FileData d)")
        case False
        with ok have "fits env (FileData d)" "message_limit < length (t_to_json env (FileData d))"
          by (auto simp add: sends_file_def deliverable_def)
        note large = receive_large [OF this, of "sender_ended t" "[]", simplified]
        with s AwaitData f x(4) have "t' = t\<lparr>tr_to_receiver := t_to_json env (FileData d), tr_dest := dest,
            tr_receiver := ReceiverEnded (Inl MessageTooLarge)\<rparr>"
          by (auto simp add: receiver_step_def data_received_def)
        with fail show ?thesis by blast
      next
        case True
        with s AwaitData f have t': "t' = data_received env c (Inr (FileData d)) (t\<lparr>tr_to_receiver := []\<rparr>)"
          using receive_delivered [OF True, of "sender_ended t" "[]"] by (simp add: receiver_step_def)
        show ?thesis
        proof (cases "t_create_dir env \<and> snd (t_write env d)")
          case True
          with t' x(1) ok have t2: "t' = t\<lparr>tr_to_receiver := [], tr_dest := Some d,
              tr_to_sender := tr_to_sender t @ send env completion, tr_receiver := ReceiverEnded (Inr ())\<rparr>"
            by (auto simp add: data_received_def sends_file_def completion_def split_beta)
          show ?thesis
          proof (rule transfer_invI)
            show "sender_at env d 2 2 t'"
              using sender_at_sends [of env d ks kr "t\<lparr>tr_to_receiver := [], tr_dest := Some d\<rparr>" completion] at(1) x(2) ks
              by (simp add: t2 numeral_2_eq_2)
            show "receiver_at env p d dest 2 2 t'"
              using \<open>deliverable env (FileData d)\<close> by (simp add: receiver_at_def t2 is_ok_def)
          qed simp_all
        next
          case False
          with t' x(1,4) have "t' = t\<lparr>tr_to_receiver := [], tr_dest := (if t_create_dir env then fst (t_write env d) else dest),
              tr_receiver := ReceiverEnded (Inl TransferIo)\<rparr>"
            by (auto simp add: data_received_def split_beta)
          with fail \<open>deliverable env (FileData d)\<close> show ?thesis by (metis (full_types))
        qed
      qed
    qed
  next
    case (ReceiverEnded r)
    with s show ?thesis by (simp add: receiver_step_def)
  qed
qed

lemma transfer_reaches_inv:
  assumes "sends_file env p d" and "transfer_reaches env p (new_transfer dest) t"
  shows "transfer_inv env p d dest t"
  using assms(2)
proof (induction rule: transfer_reaches.induct)
  case start
  show ?case
    by (rule transfer_invI [of _ _ 0 0]) (simp_all add: new_transfer_def sender_at_def receiver_at_def)
next
  case (step t t')
  from step(2) step.IH show ?case
    by (cases rule: transfer_stepE) (use sender_inv receiver_inv assms(1) in blast)+
next
  case (sender_lost t)
  then show ?case
    by (auto simp add: transfer_inv_def sender_at_def is_ok_def)
next
  case (receiver_lost t)
  then obtain ks kr where k: "ks \<le> 2" "kr \<le> 2" "sender_at env d ks kr t" "receiver_at env p d dest ks kr t"
    by (auto simp add: transfer_inv_def)
  with receiver_lost(2) have "kr < 2" "tr_dest t = dest"
    by (auto simp add: receiver_ended_def receiver_at_def split: receiver.splits)
  with k show ?case by (intro transfer_invI [of env d ks kr]) (simp_all add: receiver_at_def is_ok_def)
qed

section \<open>Properties of a transfer\<close>

text \<open>C16: A transfer is sound: whatever the interleaving of the two sides and wherever their connections
  are lost, a side that ends successfully has the whole file at the destination; and as long as
  the receiver does not fail while writing, the destination is either as before or the whole file.
  A file whose message exceeds the limit of 100 MB is never transferred: the sender sends it, the
  receiver refuses it, neither side ends successfully and the destination stays as it was.\<close>

theorem file_transfer_sound:
  assumes "sends_file env p d" and "transfer_reaches env p (new_transfer dest) t"
  shows "(tr_sender t = SenderEnded (Inr ()) \<or> tr_receiver t = ReceiverEnded (Inr ()) \<longrightarrow> tr_dest t = Some d) \<and>
    tr_dest t \<in> {dest, Some d, fst (t_write env d)} \<and>
    (message_limit < length (t_to_json env (FileData d)) \<longrightarrow>
       tr_sender t \<noteq> SenderEnded (Inr ()) \<and> tr_receiver t \<noteq> ReceiverEnded (Inr ()) \<and> tr_dest t = dest)"
proof -
  from transfer_reaches_inv [OF assms] obtain ks kr where
    s: "sender_at env d ks kr t" and r: "receiver_at env p d dest ks kr t"
    by (auto simp add: transfer_inv_def)
  have two: "tr_dest t = Some d \<and> deliverable env (FileData d)" if "kr = 2"
    using r that by (auto simp add: receiver_at_def split: receiver.splits if_split_asm)
  moreover have "kr = 2" if "tr_sender t = SenderEnded (Inr ()) \<or> tr_receiver t = ReceiverEnded (Inr ())"
    using s r that by (auto simp add: sender_at_def receiver_at_def is_ok_def)
  moreover have "tr_dest t = dest \<or> tr_dest t = Some d \<and> deliverable env (FileData d) \<or>
      tr_dest t = fst (t_write env d) \<and> deliverable env (FileData d)"
    using r by (auto simp add: receiver_at_def split: receiver.splits if_split_asm)
  ultimately show ?thesis by (auto simp add: deliverable_def)
qed

text \<open>The states of a transfer that is not disturbed.\<close>

definition written_file :: "transfer_env \<Rightarrow> bytes \<Rightarrow> bool" where
  "written_file env d \<longleftrightarrow> deliverable env (FileData d) \<and> t_create_dir env \<and> snd (t_write env d)"

definition phases :: "transfer_env \<Rightarrow> string \<Rightarrow> bytes \<Rightarrow> bytes option \<Rightarrow> transfer list" where
  "phases env p d dest =
     ([new_transfer dest,
       \<lparr>tr_sender = AwaitResponse d, tr_receiver = AwaitRequest, tr_to_receiver = send env (request_of env p d),
         tr_to_sender = [], tr_dest = dest\<rparr>,
       \<lparr>tr_sender = AwaitResponse d, tr_receiver = AwaitData (t_hex env (t_blake3 env d)), tr_to_receiver = [],
         tr_to_sender = send env acceptance, tr_dest = dest\<rparr>,
       \<lparr>tr_sender = AwaitCompletion, tr_receiver = AwaitData (t_hex env (t_blake3 env d)), tr_to_receiver = send env (FileData d),
         tr_to_sender = [], tr_dest = dest\<rparr>,
       \<lparr>tr_sender = AwaitCompletion, tr_receiver = ReceiverEnded (Inr ()), tr_to_receiver = [],
         tr_to_sender = send env completion, tr_dest = Some d\<rparr>,
       \<lparr>tr_sender = SenderEnded (Inr ()), tr_receiver = ReceiverEnded (Inr ()), tr_to_receiver = [],
         tr_to_sender = [], tr_dest = Some d\<rparr>])"

lemma phases_nth:
  "phases env p d dest ! 0 = new_transfer dest"
  "phases env p d dest ! Suc 0 = \<lparr>tr_sender = AwaitResponse d, tr_receiver = AwaitRequest,
     tr_to_receiver = send env (request_of env p d), tr_to_sender = [], tr_dest = dest\<rparr>"
  "phases env p d dest ! 2 = \<lparr>tr_sender = AwaitResponse d, tr_receiver = AwaitData (t_hex env (t_blake3 env d)),
     tr_to_receiver = [], tr_to_sender = send env acceptance, tr_dest = dest\<rparr>"
  "phases env p d dest ! 3 = \<lparr>tr_sender = AwaitCompletion, tr_receiver = AwaitData (t_hex env (t_blake3 env d)),
     tr_to_receiver = send env (FileData d), tr_to_sender = [], tr_dest = dest\<rparr>"
  "phases env p d dest ! 4 = \<lparr>tr_sender = AwaitCompletion, tr_receiver = ReceiverEnded (Inr ()), tr_to_receiver = [],
     tr_to_sender = send env completion, tr_dest = Some d\<rparr>"
  "phases env p d dest ! 5 = \<lparr>tr_sender = SenderEnded (Inr ()), tr_receiver = ReceiverEnded (Inr ()),
     tr_to_receiver = [], tr_to_sender = [], tr_dest = Some d\<rparr>"
  by (simp_all add: phases_def eval_nat_numeral)

lemma transfer_step_iff: "transfer_step env p t t' \<longleftrightarrow> sender_step env p t = Some t' \<or> receiver_step env t = Some t'"
  by (auto elim: transfer_stepE intro: transfer_step.intros)

lemma phase_steps:
  assumes "sends_file env p d" and "written_file env d" and "k < 6"
  shows "transfer_step env p (phases env p d dest ! k) t \<longleftrightarrow> k < 5 \<and> t = phases env p d dest ! Suc k"
proof -
  note sent = receive_delivered [of env _ _ "[]", simplified]
  have d: "deliverable env (request_of env p d)" "deliverable env acceptance" "deliverable env completion"
      "deliverable env (FileData d)" "t_read env = Some d" "t_create_dir env" "t_write env d = (Some d, True)"
    using assms(1,2) by (auto simp add: sends_file_def written_file_def prod_eq_iff)
  note steps = transfer_step_iff sender_step_def receiver_step_def receive_nothing sender_ended_def receiver_ended_def
  have succ: "Suc 1 = 2" "Suc 2 = 3" "Suc 3 = 4" "Suc 4 = 5" by simp_all
  consider "k = 0" | "k = 1" | "k = 2" | "k = 3" | "k = 4" | "k = 5" using assms(3) by linarith
  then show ?thesis
  proof cases
    case 1
    then show ?thesis using d(5) by (auto simp add: phases_nth steps new_transfer_def request_of_def)
  next
    case 2
    have "request_received env (Inr (request_of env p d)) u =
        u\<lparr>tr_to_sender := tr_to_sender u @ send env acceptance, tr_receiver := AwaitData (t_hex env (t_blake3 env d))\<rparr>" for u
      by (simp add: request_received_def request_of_def acceptance_def)
    with 2 sent [OF d(1)] succ show ?thesis
      by (auto simp add: phases_nth steps phases_nth(3) [unfolded numeral_2_eq_2])
  next
    case 3
    have "response_received env d (Inr acceptance) u =
        u\<lparr>tr_to_receiver := tr_to_receiver u @ send env (FileData d), tr_sender := AwaitCompletion\<rparr>" for u
      by (simp add: response_received_def acceptance_def)
    with 3 sent [OF d(2)] succ show ?thesis by (auto simp add: phases_nth steps)
  next
    case 4
    have "data_received env (t_hex env (t_blake3 env d)) (Inr (FileData d)) u =
        u\<lparr>tr_dest := Some d, tr_to_sender := tr_to_sender u @ send env completion, tr_receiver := ReceiverEnded (Inr ())\<rparr>" for u
      using d(6,7) by (simp add: data_received_def completion_def)
    with 4 sent [OF d(4)] succ show ?thesis by (auto simp add: phases_nth steps)
  next
    case 5
    have "completion_received (Inr completion) = Inr ()" by (simp add: completion_received_def completion_def)
    with 5 sent [OF d(3)] succ show ?thesis by (auto simp add: phases_nth steps)
  next
    case 6
    then show ?thesis by (simp add: phases_nth steps)
  qed
qed

text \<open>C17: A transfer that is not disturbed completes: if no connection is lost, every message keeps
  within the limit and the destination can be written, then after any run of the two sides, in
  whatever order they are scheduled, either one of them can go on, or both have ended
  successfully and the destination is the file; and no run is longer than five steps.\<close>

theorem file_transfer_completes:
  assumes "sends_file env p d" and "written_file env d" and "(transfer_step env p ^^ n) (new_transfer dest) t"
  shows "n \<le> 5 \<and> ((\<exists>t'. transfer_step env p t t') \<or>
    tr_sender t = SenderEnded (Inr ()) \<and> tr_receiver t = ReceiverEnded (Inr ()) \<and> tr_dest t = Some d)"
proof -
  have "n \<le> 5 \<and> t = phases env p d dest ! n" using assms(3)
  proof (induction n arbitrary: t)
    case 0
    then show ?case by (simp add: phases_nth)
  next
    case (Suc n)
    then obtain u where u: "(transfer_step env p ^^ n) (new_transfer dest) u" "transfer_step env p u t" by auto
    from Suc.IH [OF u(1)] u(2) have "n < 6" "transfer_step env p (phases env p d dest ! n) t" by auto
    with phase_steps [OF assms(1,2)] show ?case by auto
  qed
  with phase_steps [OF assms(1,2), of n dest] phases_nth(6) [of env p d dest] show ?thesis by (cases "n = 5") auto
qed

lemma handle_one:
  assumes "fits env m"
  shows "handle_quic_connection env (send env m @ rest) f =
    (let (reply, f1) = process_sync_message env (t_to_json env m) f;
         (out, f2) = handle_quic_connection env rest f1
     in ((case reply of None \<Rightarrow> [] | Some r \<Rightarrow> u32_be (word_of_nat (length r)) @ r) @ out, f2))"
  using assms
  by (subst handle_quic_connection.simps) (simp add: send_def fits_def Let_def codec_simps unat_of_nat_u32)

text \<open>The daemon's handler verifies nothing and keeps one file: whatever the transfers of a
  connection announce, in particular whatever checksums, each is accepted and acknowledged as
  verified, and in the end only the data of the last one is on disk.\<close>

theorem daemon_keeps_last_file_unverified:
  assumes "t_create_dir env"
    and "\<forall>(p, n, c, d)\<in>set xs. fits env (FileTransferRequest p n c) \<and> fits env (FileData d) \<and> t_write env d = (Some d, True)"
  shows "handle_quic_connection env
      (concat (map (\<lambda>(p, n, c, d). send env (FileTransferRequest p n c) @ send env (FileData d)) xs)) f =
    (concat (map (\<lambda>(p, n, c, d). send env (FileTransferResponse True None) @
        send env (TransferComplete True True (''File saved successfully, checksum: '' @ t_hex env (t_blake3 env d)))) xs),
     if xs = [] then f else Some (snd (snd (snd (last xs)))))"
  using assms(2)
proof (induction xs arbitrary: f)
  case Nil
  show ?case by (subst handle_quic_connection.simps) (simp add: read_exact_def)
next
  case (Cons x xs)
  obtain p n c d where x: "x = (p, n, c, d)" by (cases x)
  let ?r = "FileTransferRequest p n c"
  from Cons.prems x have fit: "fits env ?r" "fits env (FileData d)" "t_write env d = (Some d, True)" by simp_all
  then have "process_sync_message env (t_to_json env ?r) f = (Some (t_to_json env (FileTransferResponse True None)), f)"
    "process_sync_message env (t_to_json env (FileData d)) f = (Some (t_to_json env (TransferComplete True True
       (''File saved successfully, checksum: '' @ t_hex env (t_blake3 env d)))), Some d)" for f
    using assms(1) by (simp_all add: process_sync_message_def fits_def)
  moreover have "\<forall>(p, n, c, d)\<in>set xs. fits env (FileTransferRequest p n c) \<and> fits env (FileData d) \<and> t_write env d = (Some d, True)"
    using Cons.prems by simp
  note Cons.IH [OF this]
  ultimately show ?case
    using fit by (simp add: x handle_one) (simp add: send_def Let_def)
qed

section \<open>A file of one byte\<close>

definition sample_request :: sync_message where
  "sample_request = FileTransferRequest ''/a'' 1 ''h''"

definition sample_transfer_env :: transfer_env where
  "sample_transfer_env = \<lparr>t_blake3 = id, t_hex = (\<lambda>_. ''h''),
     t_to_json = (\<lambda>m. if m = sample_request then [1] else if m = acceptance then [2] else if m = completion then [3]
       else if m = FileData [7] then [4] else [5]),
     t_from_json = (\<lambda>b. if b = [1] then Some sample_request else if b = [2] then Some acceptance
       else if b = [3] then Some completion else if b = [4] then Some (FileData [7]) else None),
     t_read = Some [7], t_create_dir = True, t_write = (\<lambda>d. (Some d, True)), t_error = []\<rparr>"

lemma sample_fits:
  "deliverable sample_transfer_env sample_request" "deliverable sample_transfer_env acceptance"
  "deliverable sample_transfer_env completion" "deliverable sample_transfer_env (FileData [7])"
  by (simp_all add: deliverable_def fits_def sample_transfer_env_def sample_request_def acceptance_def completion_def
      message_limit_def)

lemma sample_sends: "sends_file sample_transfer_env ''/a'' [7]" "written_file sample_transfer_env [7]"
  using sample_fits
  by (simp_all add: sends_file_def written_file_def request_of_def deliverable_def sample_request_def [symmetric])
    (simp_all add: sample_transfer_env_def request_of_def sample_request_def)

theorem file_transfer_sound_witness:
  "\<exists>t. transfer_reaches sample_transfer_env ''/a'' (new_transfer None) t \<and> t \<noteq> new_transfer None \<and> tr_dest t \<in> {None, Some [7]}"
proof -
  let ?t = "(new_transfer None)\<lparr>tr_receiver := ReceiverEnded (Inl TransferIo)\<rparr>"
  have r: "transfer_reaches sample_transfer_env ''/a'' (new_transfer None) ?t"
    by (rule transfer_reaches.receiver_lost [OF transfer_reaches.start]) (simp add: new_transfer_def receiver_ended_def)
  have "fst (t_write sample_transfer_env [7]) = Some [7]" by (simp add: sample_transfer_env_def)
  with file_transfer_sound [OF sample_sends(1) r] r show ?thesis
    by (intro exI [of _ ?t]) (auto simp add: new_transfer_def)
qed

theorem file_transfer_completes_witness:
  "\<exists>t. (transfer_step sample_transfer_env ''/a'' ^^ 1) (new_transfer None) t \<and> (\<exists>t'. transfer_step sample_transfer_env ''/a'' t t')"
proof -
  have "transfer_step sample_transfer_env ''/a'' (new_transfer None) (phases sample_transfer_env ''/a'' [7] None ! 1)"
    using phase_steps [OF sample_sends, of 0 None] by (simp add: phases_nth)
  then have r: "(transfer_step sample_transfer_env ''/a'' ^^ 1) (new_transfer None) (phases sample_transfer_env ''/a'' [7] None ! 1)"
    by auto
  from file_transfer_completes [OF sample_sends r] r show ?thesis by (auto simp add: phases_nth)
qed

theorem daemon_keeps_last_file_unverified_witness:
  "snd (handle_quic_connection sample_transfer_env
     (send sample_transfer_env sample_request @ send sample_transfer_env (FileData [7])) None) = Some [7]"
proof -
  have c: "t_create_dir sample_transfer_env" by (simp add: sample_transfer_env_def)
  have "\<forall>(p, n, c, d)\<in>set [(''/a'', 1, ''h'', [7])]. fits sample_transfer_env (FileTransferRequest p n c) \<and>
      fits sample_transfer_env (FileData d) \<and> t_write sample_transfer_env d = (Some d, True)"
    using sample_fits by (simp add: deliverable_def sample_request_def [symmetric]) (simp add: sample_transfer_env_def)
  from daemon_keeps_last_file_unverified [OF c this, of None] show ?thesis by (simp add: sample_request_def)
qed

end
