(* ===== verification/Persistence.thy ===== *)
theory Persistence
  imports Conflicts Machines "HOL-Library.FSet"
begin

text \<open>
  Sessions that survive a restart (\<open>landro-sync/src/sync_persistence.rs\<close>): the record of a
  session, the manager that keeps the sessions in memory and writes each to a file of its own,
  and the load at the start.

  The state directory maps file names to texts; the JSON of serde, the order in which a directory
  or a hash map is read, and which writes and removals the file system grants are parameters.
  The percentage shown to the user is left out.  Calls on the manager are atomic here: in the code
  a save reads the session again after the lock of the update is released.
\<close>

section \<open>Sessions\<close>

datatype sync_session_status = SessionActive | SessionCompleted | SessionInterrupted | SessionFailed

record persisted_session =
  pss_id :: string
  pss_peer_id :: string
  pss_folder_path :: string
  pss_status :: sync_session_status
  pss_started_at :: date_time
  pss_last_activity :: date_time
  pss_completed_at :: "date_time option"
  pss_completed_chunks :: "string fset"
  pss_pending_chunks :: "string fset"
  pss_failed_chunks :: "string fset"
  pss_conflicts :: "conflict list"
  pss_total_chunks :: nat
  pss_total_bytes :: u64
  pss_transferred_bytes :: u64
  pss_resume_token :: "string option"
  pss_checkpoint_data :: "string option"

definition new_persisted_session :: "date_time \<Rightarrow> string \<Rightarrow> string \<Rightarrow> string \<Rightarrow> persisted_session" where
  "new_persisted_session now i peer folder = \<lparr>pss_id = i, pss_peer_id = peer, pss_folder_path = folder,
     pss_status = SessionActive, pss_started_at = now, pss_last_activity = now, pss_completed_at = None,
     pss_completed_chunks = {||}, pss_pending_chunks = {||}, pss_failed_chunks = {||}, pss_conflicts = [],
     pss_total_chunks = 0, pss_total_bytes = 0, pss_transferred_bytes = 0, pss_resume_token = None,
     pss_checkpoint_data = None\<rparr>"

definition can_resume :: "persisted_session \<Rightarrow> bool" where
  "can_resume s \<longleftrightarrow> pss_status s = SessionInterrupted \<and> pss_pending_chunks s \<noteq> {||}"

definition session_chunk_completed :: "date_time \<Rightarrow> string \<Rightarrow> persisted_session \<Rightarrow> persisted_session" where
  "session_chunk_completed now h s = s\<lparr>pss_pending_chunks := pss_pending_chunks s |-| {|h|},
     pss_failed_chunks := pss_failed_chunks s |-| {|h|},
     pss_completed_chunks := finsert h (pss_completed_chunks s), pss_last_activity := now\<rparr>"

definition session_chunk_failed :: "date_time \<Rightarrow> string \<Rightarrow> persisted_session \<Rightarrow> persisted_session" where
  "session_chunk_failed now h s = s\<lparr>pss_pending_chunks := pss_pending_chunks s |-| {|h|},
     pss_failed_chunks := finsert h (pss_failed_chunks s), pss_last_activity := now\<rparr>"

definition session_add_conflict :: "date_time \<Rightarrow> conflict \<Rightarrow> persisted_session \<Rightarrow> persisted_session" where
  "session_add_conflict now c s = s\<lparr>pss_conflicts := pss_conflicts s @ [c], pss_last_activity := now\<rparr>"

definition session_complete :: "date_time \<Rightarrow> persisted_session \<Rightarrow> persisted_session" where
  "session_complete now s = s\<lparr>pss_status := SessionCompleted, pss_completed_at := Some now, pss_last_activity := now\<rparr>"

definition session_interrupt :: "date_time \<Rightarrow> persisted_session \<Rightarrow> persisted_session" where
  "session_interrupt now s = s\<lparr>pss_status := SessionInterrupted, pss_last_activity := now\<rparr>"

definition session_fail :: "date_time \<Rightarrow> persisted_session \<Rightarrow> persisted_session" where
  "session_fail now s = s\<lparr>pss_status := SessionFailed, pss_last_activity := now\<rparr>"

section \<open>The manager\<close>

datatype persistence_error = StorageFailed

record persistence_config =
  pc_save_interval_chunks :: nat
  pc_completed_session_retention :: int
  pc_max_in_memory_sessions :: nat

definition default_persistence_config :: persistence_config where
  "default_persistence_config = \<lparr>pc_save_interval_chunks = 50,
     pc_completed_session_retention = 7 * 24 * 60 * 60, pc_max_in_memory_sessions = 100\<rparr>"

record persistence_env =
  p_to_json :: "persisted_session \<Rightarrow> string"
  p_from_json :: "string \<Rightarrow> persisted_session option"
  p_write_ok :: "string \<Rightarrow> bool"
  p_remove_ok :: "string \<Rightarrow> bool"
  p_dir_order :: "(string \<times> string) list \<Rightarrow> (string \<times> string) list"
  p_session_order :: "(string \<times> persisted_session) list \<Rightarrow> (string \<times> persisted_session) list"

record persistence =
  pm_config :: persistence_config
  pm_sessions :: "(string, persisted_session) hmap"
  pm_counter :: "(string, nat) hmap"
  pm_files :: "(string, string) hmap"

definition session_file :: "string \<Rightarrow> string" where
  "session_file i = i @ ''.json''"

text \<open>A name that is only a dot and letters has no extension.\<close>

definition is_session_file :: "string \<Rightarrow> bool" where
  "is_session_file n \<longleftrightarrow> 5 < length n \<and> drop (length n - 5) n = ''.json''"

definition save_session :: "persistence_env \<Rightarrow> string \<Rightarrow> persistence \<Rightarrow> (persistence_error + unit) \<times> persistence" where
  "save_session env i m =
     (case hm_get (pm_sessions m) i of
        None \<Rightarrow> (Inr (), m)
      | Some s \<Rightarrow>
          if p_write_ok env (session_file i)
          then (Inr (), m\<lparr>pm_files := hm_put (session_file i) (p_to_json env s) (pm_files m)\<rparr>)
          else (Inl StorageFailed, m))"

definition start_session ::
  "persistence_env \<Rightarrow> persisted_session \<Rightarrow> persistence \<Rightarrow> (persistence_error + unit) \<times> persistence" where
  "start_session env s m =
     save_session env (pss_id s) (m\<lparr>pm_sessions := hm_put (pss_id s) s (pm_sessions m),
       pm_counter := hm_put (pss_id s) 0 (pm_counter m)\<rparr>)"

definition mark_chunk_completed ::
  "persistence_env \<Rightarrow> date_time \<Rightarrow> string \<Rightarrow> string \<Rightarrow> u64 \<Rightarrow> persistence \<Rightarrow> (persistence_error + unit) \<times> persistence" where
  "mark_chunk_completed env now i h n m =
     (case hm_get (pm_sessions m) i of
        None \<Rightarrow> (Inr (), m)
      | Some s \<Rightarrow>
          let s1 = session_chunk_completed now h s;
              count = (case hm_get (pm_counter m) i of None \<Rightarrow> 0 | Some c \<Rightarrow> c) + 1;
              m1 = m\<lparr>pm_sessions := hm_put i (s1\<lparr>pss_transferred_bytes := pss_transferred_bytes s1 + n\<rparr>) (pm_sessions m),
                pm_counter := hm_put i count (pm_counter m)\<rparr>
          in if count \<ge> pc_save_interval_chunks (pm_config m)
             then save_session env i (m1\<lparr>pm_counter := hm_put i 0 (pm_counter m1)\<rparr>)
             else (Inr (), m1))"

definition update_session :: "string \<Rightarrow> (persisted_session \<Rightarrow> persisted_session) \<Rightarrow> persistence \<Rightarrow> persistence" where
  "update_session i f m = m\<lparr>pm_sessions := hm_modify i f (pm_sessions m)\<rparr>"

definition mark_chunk_failed ::
  "persistence_env \<Rightarrow> date_time \<Rightarrow> string \<Rightarrow> string \<Rightarrow> persistence \<Rightarrow> (persistence_error + unit) \<times> persistence" where
  "mark_chunk_failed env now i h m = save_session env i (update_session i (session_chunk_failed now h) m)"

definition persist_conflict :: "date_time \<Rightarrow> string \<Rightarrow> conflict \<Rightarrow> persistence \<Rightarrow> persistence" where
  "persist_conflict now i c m = update_session i (session_add_conflict now c) m"

text \<open>The counter stays if the session cannot be saved.\<close>

definition complete_session ::
  "persistence_env \<Rightarrow> date_time \<Rightarrow> string \<Rightarrow> persistence \<Rightarrow> (persistence_error + unit) \<times> persistence" where
  "complete_session env now i m =
     (case save_session env i (update_session i (session_complete now) m) of
        (Inl e, m1) \<Rightarrow> (Inl e, m1)
      | (Inr _, m1) \<Rightarrow> (Inr (), m1\<lparr>pm_counter := hm_del i (pm_counter m1)\<rparr>))"

definition interrupt_session ::
  "persistence_env \<Rightarrow> date_time \<Rightarrow> string \<Rightarrow> persistence \<Rightarrow> (persistence_error + unit) \<times> persistence" where
  "interrupt_session env now i m = save_session env i (update_session i (session_interrupt now) m)"

definition get_resumable_sessions :: "persistence_env \<Rightarrow> persistence \<Rightarrow> persisted_session list" where
  "get_resumable_sessions env m = filter can_resume (map snd (p_session_order env (pm_sessions m)))"

definition get_session :: "persistence \<Rightarrow> string \<Rightarrow> persisted_session option" where
  "get_session m i = hm_get (pm_sessions m) i"

text \<open>Files that cannot be parsed are passed over.\<close>

definition load_sessions :: "persistence_env \<Rightarrow> (string, string) hmap \<Rightarrow> (string, persisted_session) hmap" where
  "load_sessions env fs = hm_collect (concat (map (\<lambda>(n, t).
     if is_session_file n then (case p_from_json env t of None \<Rightarrow> [] | Some s \<Rightarrow> [(pss_id s, s)]) else [])
     (p_dir_order env fs)))"

definition new_persistence :: "persistence_env \<Rightarrow> persistence_config \<Rightarrow> (string, string) hmap \<Rightarrow> persistence" where
  "new_persistence env cfg fs = \<lparr>pm_config = cfg, pm_sessions = load_sessions env fs, pm_counter = [], pm_files = fs\<rparr>"

definition remove_session :: "persistence_env \<Rightarrow> string \<Rightarrow> persistence \<Rightarrow> (persistence_error + unit) \<times> persistence" where
  "remove_session env i m =
     (let m1 = m\<lparr>pm_sessions := hm_del i (pm_sessions m)\<rparr> in
      if \<not> hm_has (pm_files m1) (session_file i) then (Inr (), m1)
      else if p_remove_ok env (session_file i)
           then (Inr (), m1\<lparr>pm_files := hm_del (session_file i) (pm_files m1)\<rparr>)
           else (Inl StorageFailed, m1))"

fun remove_sessions :: "persistence_env \<Rightarrow> string list \<Rightarrow> persistence \<Rightarrow> (persistence_error + unit) \<times> persistence" where
  "remove_sessions env [] m = (Inr (), m)"
| "remove_sessions env (i # is) m =
     (case remove_session env i m of (Inl e, m1) \<Rightarrow> (Inl e, m1) | (Inr _, m1) \<Rightarrow> remove_sessions env is m1)"

definition cleanup_old_sessions ::
  "persistence_env \<Rightarrow> date_time \<Rightarrow> persistence \<Rightarrow> (persistence_error + unit) \<times> persistence" where
  "cleanup_old_sessions env now m =
     (let cutoff = now - pc_completed_session_retention (pm_config m);
          old = filter (\<lambda>(i, s). pss_status s = SessionCompleted \<and>
            (case pss_completed_at s of None \<Rightarrow> False | Some t \<Rightarrow> t < cutoff)) (p_session_order env (pm_sessions m))
      in remove_sessions env (map fst old) m)"

datatype persistence_op =
    StartSession persisted_session
  | ChunkCompleted date_time string string u64
  | ChunkFailed date_time string string
  | AddConflict date_time string conflict
  | CompleteSession date_time string
  | InterruptSession date_time string
  | CleanupSessions date_time
  | RestartProcess

text \<open>A restart keeps the files and nothing else.\<close>

fun persistence_step :: "persistence_env \<Rightarrow> persistence_op \<Rightarrow> persistence \<Rightarrow> persistence" where
  "persistence_step env (StartSession s) m = snd (start_session env s m)"
| "persistence_step env (ChunkCompleted now i h n) m = snd (mark_chunk_completed env now i h n m)"
| "persistence_step env (ChunkFailed now i h) m = snd (mark_chunk_failed env now i h m)"
| "persistence_step env (AddConflict now i c) m = persist_conflict now i c m"
| "persistence_step env (CompleteSession now i) m = snd (complete_session env now i m)"
| "persistence_step env (InterruptSession now i) m = snd (interrupt_session env now i m)"
| "persistence_step env (CleanupSessions now) m = snd (cleanup_old_sessions env now m)"
| "persistence_step env RestartProcess m = new_persistence env (pm_config m) (pm_files m)"

section \<open>What is on disk\<close>

text \<open>What is written can be read back and writes succeed; the orders visit everything once.\<close>

definition persistence_env_ok :: "persistence_env \<Rightarrow> bool" where
  "persistence_env_ok env \<longleftrightarrow> (\<forall>s. p_from_json env (p_to_json env s) = Some s) \<and> (\<forall>n. p_write_ok env n) \<and>
     iter_order (p_dir_order env) \<and> iter_order (p_session_order env)"

definition counted :: "persistence \<Rightarrow> string \<Rightarrow> nat" where
  "counted m i = (case hm_get (pm_counter m) i of None \<Rightarrow> 0 | Some c \<Rightarrow> c)"

definition save_limit :: "persistence \<Rightarrow> nat" where
  "save_limit m = max 1 (pc_save_interval_chunks (pm_config m))"

text \<open>The copy of a session on disk has its status and lacks at most the chunks counted since.\<close>

definition copy_on_disk :: "persistence_env \<Rightarrow> persistence \<Rightarrow> persisted_session \<Rightarrow> bool" where
  "copy_on_disk env m s \<longleftrightarrow> (\<exists>d. hm_get (pm_files m) (session_file (pss_id s)) = Some (p_to_json env d) \<and>
     pss_id d = pss_id s \<and> pss_status d = pss_status s \<and> pss_completed_chunks d |\<subseteq>| pss_completed_chunks s \<and>
     fcard (pss_completed_chunks s |-| pss_completed_chunks d) \<le> counted m (pss_id s))"

definition files_sound :: "persistence_env \<Rightarrow> persistence \<Rightarrow> bool" where
  "files_sound env m \<longleftrightarrow> hm_wf (pm_files m) \<and> (\<forall>n t. hm_get (pm_files m) n = Some t \<longrightarrow>
     (\<exists>d. t = p_to_json env d \<and> n = session_file (pss_id d)))"

text \<open>All sessions but \<open>i\<close> are as they should be on disk.\<close>

definition persisted_but :: "persistence_env \<Rightarrow> string set \<Rightarrow> persistence \<Rightarrow> bool" where
  "persisted_but env X m \<longleftrightarrow> hm_wf (pm_sessions m) \<and> hm_wf (pm_counter m) \<and> files_sound env m \<and>
     (\<forall>j. counted m j < save_limit m) \<and>
     (\<forall>j s. hm_get (pm_sessions m) j = Some s \<longrightarrow> pss_id s = j \<and> (j \<notin> X \<longrightarrow> copy_on_disk env m s))"

definition persisted_ok :: "persistence_env \<Rightarrow> persistence \<Rightarrow> bool" where
  "persisted_ok env m \<longleftrightarrow> persisted_but env {} m"

lemma session_file_eq [simp]: "session_file i = session_file j \<longleftrightarrow> i = j"
  by (simp add: session_file_def)

lemma persisted_all:
  "persisted_but env {i} m \<Longrightarrow> (\<And>s. hm_get (pm_sessions m) i = Some s \<Longrightarrow> copy_on_disk env m s) \<Longrightarrow> persisted_ok env m"
  by (fastforce simp add: persisted_ok_def persisted_but_def)

lemma save_persists:
  assumes "persistence_env_ok env" and "persisted_but env {i} m"
  shows "persisted_ok env (snd (save_session env i m))"
proof (cases "hm_get (pm_sessions m) i")
  case None
  with persisted_all [OF assms(2)] show ?thesis by (simp add: save_session_def)
next
  case (Some s)
  with assms have i: "pss_id s = i" and w: "p_write_ok env (session_file i)" "hm_wf (pm_files m)"
    by (auto simp add: persisted_but_def persistence_env_ok_def files_sound_def)
  then have m: "snd (save_session env i m) = m\<lparr>pm_files := hm_put (session_file i) (p_to_json env s) (pm_files m)\<rparr>"
    using Some by (simp add: save_session_def)
  have get: "hm_get (hm_put (session_file i) (p_to_json env s) (pm_files m)) n =
      (if n = session_file i then Some (p_to_json env s) else hm_get (pm_files m) n)" for n
    by (simp add: hm.get_put w(2))
  show ?thesis
    unfolding persisted_ok_def persisted_but_def m
  proof (intro conjI allI impI)
    show "files_sound env (m\<lparr>pm_files := hm_put (session_file i) (p_to_json env s) (pm_files m)\<rparr>)"
      using assms(2) i w(2) by (auto simp add: files_sound_def persisted_but_def get hm.wf_put)
  next
    fix j u
    assume u: "hm_get (pm_sessions (m\<lparr>pm_files := hm_put (session_file i) (p_to_json env s) (pm_files m)\<rparr>)) j = Some u"
    show "copy_on_disk env (m\<lparr>pm_files := hm_put (session_file i) (p_to_json env s) (pm_files m)\<rparr>) u"
    proof (cases "j = i")
      case True
      with u Some have "u = s" by simp
      then show ?thesis unfolding copy_on_disk_def by (intro exI [of _ s]) (simp add: get i fcard_fempty)
    next
      case False
      with u assms(2) have "pss_id u = j" "copy_on_disk env m u" by (auto simp add: persisted_but_def)
      with False show ?thesis by (auto simp add: copy_on_disk_def get counted_def)
    qed
  qed (use assms(2) in \<open>auto simp add: persisted_but_def counted_def save_limit_def\<close>)
qed

lemma persisted_update:
  assumes "persisted_ok env m" and "\<And>s. pss_id (f s) = pss_id s"
  shows "persisted_but env {i} (update_session i f m)"
  using assms
  by (auto simp add: persisted_ok_def persisted_but_def update_session_def hm_get_modify files_sound_def
      copy_on_disk_def counted_def save_limit_def)

text \<open>A new value of a session and of its counter.\<close>

lemma persisted_put:
  assumes "persisted_ok env m" and "pss_id s = i" and "k < save_limit m"
  shows "persisted_but env {i} (m\<lparr>pm_sessions := hm_put i s (pm_sessions m), pm_counter := hm_put i k (pm_counter m)\<rparr>)"
  using assms
  by (auto simp add: persisted_ok_def persisted_but_def hm.get_put hm.wf_put files_sound_def
      copy_on_disk_def counted_def save_limit_def split: if_splits)

lemma fcard_finsert_minus: "fcard (finsert h A |-| B) \<le> Suc (fcard (A |-| B))"
proof -
  have "finsert h A |-| B |\<subseteq>| finsert h (A |-| B)" by auto
  then have "fcard (finsert h A |-| B) \<le> fcard (finsert h (A |-| B))" by (rule fcard_mono)
  also have "\<dots> \<le> Suc (fcard (A |-| B))" by (simp add: fcard_finsert_if)
  finally show ?thesis .
qed

lemma persisted_completed:
  assumes env: "persistence_env_ok env" and ok: "persisted_ok env m"
  shows "persisted_ok env (snd (mark_chunk_completed env now i h n m))"
proof (cases "hm_get (pm_sessions m) i")
  case None
  with ok show ?thesis by (simp add: mark_chunk_completed_def)
next
  case (Some s)
  let ?s = "(session_chunk_completed now h s)\<lparr>pss_transferred_bytes := pss_transferred_bytes s + n\<rparr>"
  have i: "pss_id s = i" and c: "copy_on_disk env m s" and wf: "hm_wf (pm_counter m)"
    using ok Some by (auto simp add: persisted_ok_def persisted_but_def)
  let ?m = "m\<lparr>pm_sessions := hm_put i ?s (pm_sessions m), pm_counter := hm_put i (Suc (counted m i)) (pm_counter m)\<rparr>"
  show ?thesis
  proof (cases "Suc (counted m i) \<ge> pc_save_interval_chunks (pm_config m)")
    case True
    have "hm_put i 0 (hm_put i (Suc (counted m i)) (pm_counter m)) = hm_put i 0 (pm_counter m)"
      by (simp add: hm_put_def AList.update_last)
    with True Some have m: "snd (mark_chunk_completed env now i h n m) = snd (save_session env i
        (m\<lparr>pm_sessions := hm_put i ?s (pm_sessions m), pm_counter := hm_put i 0 (pm_counter m)\<rparr>))"
      by (simp add: mark_chunk_completed_def Let_def counted_def session_chunk_completed_def)
    show ?thesis unfolding m
      by (rule save_persists [OF env persisted_put [OF ok]]) (use i in \<open>simp_all add: session_chunk_completed_def save_limit_def\<close>)
  next
    case False
    then have k: "Suc (counted m i) < save_limit m" by (simp add: save_limit_def)
    have m: "snd (mark_chunk_completed env now i h n m) = ?m"
      using False Some by (simp add: mark_chunk_completed_def Let_def counted_def session_chunk_completed_def)
    have "copy_on_disk env ?m ?s"
    proof -
      from c obtain d where d: "hm_get (pm_files m) (session_file i) = Some (p_to_json env d)" "pss_id d = i"
          "pss_status d = pss_status s" "pss_completed_chunks d |\<subseteq>| pss_completed_chunks s"
          "fcard (pss_completed_chunks s |-| pss_completed_chunks d) \<le> counted m i"
        unfolding copy_on_disk_def i by blast
      moreover have "counted ?m i = Suc (counted m i)" by (simp add: counted_def hm.get_put wf)
      moreover have "fcard (pss_completed_chunks ?s |-| pss_completed_chunks d) \<le> Suc (counted m i)"
        using fcard_finsert_minus [of h "pss_completed_chunks s" "pss_completed_chunks d"] d(5)
        by (simp add: session_chunk_completed_def)
      ultimately show ?thesis
        unfolding copy_on_disk_def by (intro exI [of _ d]) (auto simp add: session_chunk_completed_def i)
    qed
    moreover have "hm_get (pm_sessions ?m) i = Some ?s"
      using ok by (simp add: hm.get_put persisted_ok_def persisted_but_def)
    moreover have "pss_id ?s = i" using i by (simp add: session_chunk_completed_def)
    note put = persisted_put [OF ok this k]
    ultimately show ?thesis unfolding m by (intro persisted_all [OF put]) auto
  qed
qed

lemma is_session_file: "is_session_file (session_file i) \<longleftrightarrow> i \<noteq> []"
  by (simp add: is_session_file_def session_file_def)

lemma option_same: "(\<And>d. a = Some d \<longleftrightarrow> b = Some d) \<Longrightarrow> a = b"
  by (cases a; cases b) auto

lemma map_of_only:
  assumes "\<And>v w. (k, v) \<in> set xs \<Longrightarrow> (k, w) \<in> set xs \<Longrightarrow> v = w"
  shows "map_of xs k = Some d \<longleftrightarrow> (k, d) \<in> set xs"
  using assms map_of_SomeD [of xs k] weak_map_of_SomeI [of k d xs] by blast

text \<open>What a start finds: the sessions in the files.\<close>

definition files_loadable :: "persistence_env \<Rightarrow> (string, string) hmap \<Rightarrow> bool" where
  "files_loadable env fs \<longleftrightarrow> hm_wf fs \<and>
     (\<forall>n t d. hm_get fs n = Some t \<longrightarrow> p_from_json env t = Some d \<longrightarrow> n = session_file (pss_id d))"

lemma load_sessions_get:
  assumes "iter_order (p_dir_order env)" and fs: "files_loadable env fs"
  shows "hm_get (load_sessions env fs) i = Some d \<longleftrightarrow>
    i \<noteq> [] \<and> pss_id d = i \<and> Option.bind (hm_get fs (session_file i)) (p_from_json env) = Some d"
proof -
  let ?f = "\<lambda>(n, t). if is_session_file n then (case p_from_json env t of None \<Rightarrow> [] | Some s \<Rightarrow> [(pss_id s, s)]) else []"
  let ?xs = "rev (concat (map ?f (p_dir_order env fs)))"
  have mem: "(n, t) \<in> set (p_dir_order env fs) \<longleftrightarrow> hm_get fs n = Some t" for n t
    using assms by (simp add: files_loadable_def iter_order_set hm_mem_iff)
  have one: "(i, d) \<in> set (?f (n, t)) \<longleftrightarrow> is_session_file n \<and> p_from_json env t = Some d \<and> i = pss_id d" for i d n t
    by (cases "is_session_file n"; cases "p_from_json env t") auto
  have "(i, d) \<in> set ?xs \<longleftrightarrow> (\<exists>n t. (n, t) \<in> set (p_dir_order env fs) \<and> (i, d) \<in> set (?f (n, t)))" for i d
    by (simp only: set_rev set_concat set_map image_image UN_iff Bex_def split_paired_Ex)
  then have elem1: "(i, d) \<in> set ?xs \<longleftrightarrow>
      (\<exists>n t. hm_get fs n = Some t \<and> is_session_file n \<and> p_from_json env t = Some d \<and> i = pss_id d)" for i d
    unfolding mem one .
  have at: "n = session_file (pss_id d)" if "hm_get fs n = Some t" "p_from_json env t = Some d" for n t d
    using fs that by (simp add: files_loadable_def)
  have found: "(\<exists>n t. hm_get fs n = Some t \<and> is_session_file n \<and> p_from_json env t = Some d \<and> i = pss_id d) \<longleftrightarrow>
      i \<noteq> [] \<and> pss_id d = i \<and> Option.bind (hm_get fs (session_file i)) (p_from_json env) = Some d" for i d
  proof
    assume "\<exists>n t. hm_get fs n = Some t \<and> is_session_file n \<and> p_from_json env t = Some d \<and> i = pss_id d"
    then obtain n t where n: "hm_get fs n = Some t" "is_session_file n" "p_from_json env t = Some d" "i = pss_id d" by blast
    with at [OF n(1,3)] show "i \<noteq> [] \<and> pss_id d = i \<and> Option.bind (hm_get fs (session_file i)) (p_from_json env) = Some d"
      by (simp add: is_session_file)
  next
    assume r: "i \<noteq> [] \<and> pss_id d = i \<and> Option.bind (hm_get fs (session_file i)) (p_from_json env) = Some d"
    then obtain t where "hm_get fs (session_file i) = Some t" "p_from_json env t = Some d"
      by (cases "hm_get fs (session_file i)") simp_all
    with r show "\<exists>n t. hm_get fs n = Some t \<and> is_session_file n \<and> p_from_json env t = Some d \<and> i = pss_id d"
      by (intro exI [of _ "session_file i"] exI [of _ t]) (simp add: is_session_file)
  qed
  have elem2: "(i, d) \<in> set ?xs \<longleftrightarrow>
      i \<noteq> [] \<and> pss_id d = i \<and> Option.bind (hm_get fs (session_file i)) (p_from_json env) = Some d" for i d
    unfolding elem1 by (rule found)
  have "map_of ?xs i = Some d \<longleftrightarrow> (i, d) \<in> set ?xs"
  proof (rule map_of_only)
    fix v w
    assume "(i, v) \<in> set ?xs" "(i, w) \<in> set ?xs"
    then show "v = w" unfolding elem2 by (metis option.inject)
  qed
  then show ?thesis unfolding elem2 load_sessions_def hm_get_collect .
qed

lemma files_sound_loadable: "persistence_env_ok env \<Longrightarrow> files_sound env m \<Longrightarrow> files_loadable env (pm_files m)"
  by (fastforce simp add: files_sound_def files_loadable_def persistence_env_ok_def)

lemma load_sound:
  assumes "persistence_env_ok env" and "files_sound env m"
  shows "hm_get (load_sessions env (pm_files m)) i = Some d \<longleftrightarrow>
    i \<noteq> [] \<and> pss_id d = i \<and> hm_get (pm_files m) (session_file i) = Some (p_to_json env d)"
proof -
  have "Option.bind (hm_get (pm_files m) (session_file i)) (p_from_json env) = Some d \<longleftrightarrow>
      hm_get (pm_files m) (session_file i) = Some (p_to_json env d)"
    using assms unfolding bind_eq_Some_conv files_sound_def persistence_env_ok_def by (metis option.inject)
  then show ?thesis
    using load_sessions_get [OF _ files_sound_loadable [OF assms]] assms(1) by (simp add: persistence_env_ok_def)
qed

lemma persisted_restart:
  assumes env: "persistence_env_ok env" and ok: "persisted_ok env m"
  shows "persisted_ok env (new_persistence env (pm_config m) (pm_files m))"
proof -
  have fs: "files_sound env m" using ok by (simp add: persisted_ok_def persisted_but_def)
  have "hm_wf (load_sessions env (pm_files m))" by (simp add: load_sessions_def)
  then show ?thesis
    using fs load_sound [OF env fs]
    by (auto simp add: persisted_ok_def persisted_but_def new_persistence_def hm.wf_empty files_sound_def counted_def
        hm.get_empty save_limit_def copy_on_disk_def)
qed

lemma persisted_remove:
  assumes ok: "persisted_ok env m"
  shows "persisted_ok env (snd (remove_session env i m))"
proof -
  have wf: "hm_wf (pm_sessions m)" "hm_wf (pm_files m)"
    using ok by (simp_all add: persisted_ok_def persisted_but_def files_sound_def)
  have one: "persisted_ok env (m\<lparr>pm_sessions := hm_del i (pm_sessions m)\<rparr>)"
    using ok wf(1) by (auto simp add: persisted_ok_def persisted_but_def hm.get_del hm.wf_del files_sound_def
        copy_on_disk_def counted_def save_limit_def)
  have two: "persisted_ok env (m\<lparr>pm_sessions := hm_del i (pm_sessions m), pm_files := hm_del (session_file i) (pm_files m)\<rparr>)"
    using ok wf by (auto simp add: persisted_ok_def persisted_but_def hm.get_del hm.wf_del files_sound_def
        copy_on_disk_def counted_def save_limit_def split: if_splits)
  show ?thesis using one two by (simp add: remove_session_def Let_def)
qed

lemma persisted_removes: "persisted_ok env m \<Longrightarrow> persisted_ok env (snd (remove_sessions env is m))"
proof (induction "is" arbitrary: m)
  case (Cons i "is")
  obtain r m1 where r: "remove_session env i m = (r, m1)" by fastforce
  with persisted_remove [OF Cons.prems, of i] have "persisted_ok env m1" by simp
  with Cons.IH r show ?case by (cases r) simp_all
qed simp

lemma save_session_copy:
  "persistence_env_ok env \<Longrightarrow> hm_wf (pm_files m) \<Longrightarrow> hm_get (pm_sessions (snd (save_session env i m))) i = Some s \<Longrightarrow>
     hm_get (pm_files (snd (save_session env i m))) (session_file i) = Some (p_to_json env s)"
  by (auto simp add: save_session_def persistence_env_ok_def hm.get_put split: option.splits)

text \<open>Once a session is saved its counter can go.\<close>

lemma forget_counter:
  assumes "persisted_ok env m"
    and "\<And>s. hm_get (pm_sessions m) i = Some s \<Longrightarrow> hm_get (pm_files m) (session_file i) = Some (p_to_json env s)"
  shows "persisted_ok env (m\<lparr>pm_counter := hm_del i (pm_counter m)\<rparr>)"
proof -
  have wf: "hm_wf (pm_counter m)" using assms(1) by (simp add: persisted_ok_def persisted_but_def)
  have c: "counted (m\<lparr>pm_counter := hm_del i (pm_counter m)\<rparr>) j = (if j = i then 0 else counted m j)" for j
    by (simp add: counted_def hm.get_del wf)
  have "persisted_but env {i} (m\<lparr>pm_counter := hm_del i (pm_counter m)\<rparr>)"
    using assms(1) wf
    by (auto simp add: persisted_ok_def persisted_but_def hm.wf_del files_sound_def c save_limit_def copy_on_disk_def)
  moreover have "copy_on_disk env (m\<lparr>pm_counter := hm_del i (pm_counter m)\<rparr>) s" if "hm_get (pm_sessions m) i = Some s" for s
  proof -
    have "pss_id s = i" using assms(1) that by (simp add: persisted_ok_def persisted_but_def)
    with assms(2) [OF that] show ?thesis
      unfolding copy_on_disk_def by (intro exI [of _ s]) (simp add: c fcard_fempty)
  qed
  ultimately show ?thesis by (intro persisted_all [of env i]) simp_all
qed

lemma persisted_step:
  assumes env: "persistence_env_ok env" and ok: "persisted_ok env m"
  shows "persisted_ok env (persistence_step env op m)"
proof (cases op)
  case (StartSession s)
  with save_persists [OF env persisted_put [OF ok refl, of 0 s]] show ?thesis
    by (simp add: start_session_def save_limit_def)
next
  case (ChunkCompleted now i h n)
  with persisted_completed [OF env ok] show ?thesis by simp
next
  case (ChunkFailed now i h)
  with save_persists [OF env persisted_update [OF ok]] show ?thesis
    by (simp add: mark_chunk_failed_def session_chunk_failed_def)
next
  case (AddConflict now i c)
  have "copy_on_disk env (update_session i (session_add_conflict now c) m) (session_add_conflict now c s)"
    if "copy_on_disk env m s" for s
    using that by (simp add: copy_on_disk_def session_add_conflict_def update_session_def counted_def)
  with ok have "hm_get (pm_sessions (update_session i (session_add_conflict now c) m)) i = Some u \<Longrightarrow>
      copy_on_disk env (update_session i (session_add_conflict now c) m) u" for u
    by (auto simp add: persisted_ok_def persisted_but_def update_session_def hm_get_modify)
  from persisted_all [OF persisted_update [OF ok] this] AddConflict show ?thesis
    by (simp add: persist_conflict_def session_add_conflict_def)
next
  case (CompleteSession now i)
  let ?m = "snd (save_session env i (update_session i (session_complete now) m))"
  have m: "persisted_ok env ?m"
    by (rule save_persists [OF env persisted_update [OF ok]]) (simp add: session_complete_def)
  have "persisted_ok env (?m\<lparr>pm_counter := hm_del i (pm_counter ?m)\<rparr>)"
    by (rule forget_counter [OF m])
      (use save_session_copy [OF env, of "update_session i (session_complete now) m" i] ok in
        \<open>simp add: update_session_def persisted_ok_def persisted_but_def files_sound_def\<close>)
  moreover obtain r m1 where "save_session env i (update_session i (session_complete now) m) = (r, m1)" by fastforce
  ultimately show ?thesis using m CompleteSession by (cases r) (simp_all add: complete_session_def)
next
  case (InterruptSession now i)
  with save_persists [OF env persisted_update [OF ok]] show ?thesis
    by (simp add: interrupt_session_def session_interrupt_def)
next
  case (CleanupSessions now)
  with persisted_removes [OF ok] show ?thesis by (simp add: cleanup_old_sessions_def Let_def)
next
  case RestartProcess
  with persisted_restart [OF env ok] show ?thesis by simp
qed

section \<open>Properties\<close>

interpretation persistence: machine "persistence_step env" "\<lambda>m. persistence_env_ok env \<and> persisted_ok env m" for env
  by unfold_locales (blast intro: persisted_step)


text \<open>A save is not atomic: if the process stops while a file is being written, and no proper
  beginning of a session's text can be parsed, then the next start does not find the session,
  although a copy of it had been on disk, while every other session is found as before.\<close>

theorem torn_save_loses_session:
  assumes "persistence_env_ok env" and "\<forall>s k. k < length (p_to_json env s) \<longrightarrow> p_from_json env (take k (p_to_json env s)) = None"
    and "persisted_ok env m" and "hm_get (pm_sessions m) i = Some s" and "k < length (p_to_json env s)"
    and "m' = new_persistence env cfg (hm_put (session_file i) (take k (p_to_json env s)) (pm_files m))"
  shows "get_session m' i = None \<and>
    (j \<noteq> i \<longrightarrow> get_session m' j = get_session (new_persistence env cfg (pm_files m)) j)"
proof -
  let ?fs = "hm_put (session_file i) (take k (p_to_json env s)) (pm_files m)"
  have fs: "files_loadable env (pm_files m)" and order: "iter_order (p_dir_order env)" and wf: "hm_wf (pm_files m)"
    using assms(1,3) files_sound_loadable [OF assms(1)]
    by (auto simp add: persisted_ok_def persisted_but_def persistence_env_ok_def files_sound_def)
  have torn: "p_from_json env (take k (p_to_json env s)) = None" using assms(2,5) by blast
  have get: "hm_get ?fs n = (if n = session_file i then Some (take k (p_to_json env s)) else hm_get (pm_files m) n)" for n
    by (simp add: hm.get_put wf)
  have "files_loadable env ?fs" using fs torn by (auto simp add: files_loadable_def get hm.wf_put)
  note new = load_sessions_get [OF order this] and old = load_sessions_get [OF order fs]
  have "hm_get (load_sessions env ?fs) i = None"
  proof (rule ccontr)
    assume "hm_get (load_sessions env ?fs) i \<noteq> None"
    then obtain d where "hm_get (load_sessions env ?fs) i = Some d" by blast
    with new [of i d] torn show False by (simp add: get)
  qed
  moreover have "hm_get (load_sessions env ?fs) j = hm_get (load_sessions env (pm_files m)) j" if "j \<noteq> i"
  proof (rule option_same)
    show "hm_get (load_sessions env ?fs) j = Some d \<longleftrightarrow> hm_get (load_sessions env (pm_files m)) j = Some d" for d
      unfolding new [of j d] old [of j d] using that by (simp add: get)
  qed
  ultimately show ?thesis unfolding assms(6) by (simp add: get_session_def new_persistence_def)
qed

section \<open>Texts for sessions\<close>

text \<open>Sessions are countable, so each has a number to be written down.\<close>

instance manifest_entry_ext :: (countable) countable
proof (rule countable_classI [of "\<lambda>r. to_nat (path r, file_size r, modified_at r, content_hash r, chunk_hashes r,
    mode r, manifest_entry.more r)"])
qed (rule manifest_entry.equality; simp)

instance conflict_type :: countable
  by countable_datatype

instance conflict_ext :: (countable) countable
proof (rule countable_classI [of "\<lambda>r. to_nat (file_path r, conflict_type r, local_entry r, remote_entry r,
    detected_at r, resolved r, conflict.more r)"])
qed (rule conflict.equality; simp)

instance sync_session_status :: countable
  by countable_datatype

instance persisted_session_ext :: (countable) countable
proof (rule countable_classI [of "\<lambda>r. to_nat (pss_id r, pss_peer_id r, pss_folder_path r, pss_status r,
    pss_started_at r, pss_last_activity r, pss_completed_at r, pss_completed_chunks r, pss_pending_chunks r,
    pss_failed_chunks r, pss_conflicts r, pss_total_chunks r, pss_total_bytes r, pss_transferred_bytes r,
    pss_resume_token r, pss_checkpoint_data r, persisted_session.more r)"])
qed (rule persisted_session.equality; simp)

definition sample_session_text :: "persisted_session \<Rightarrow> string" where
  "sample_session_text s = replicate (to_nat s) CHR ''x'' @ [CHR ''.'']"

definition sample_persistence_env :: persistence_env where
  "sample_persistence_env = \<lparr>p_to_json = sample_session_text,
     p_from_json = (\<lambda>t. if t \<noteq> [] \<and> last t = CHR ''.'' then Some (from_nat (length t - 1)) else None),
     p_write_ok = (\<lambda>_. True), p_remove_ok = (\<lambda>_. True), p_dir_order = rev, p_session_order = rev\<rparr>"

lemma sample_persistence_env_ok: "persistence_env_ok sample_persistence_env"
  by (simp add: persistence_env_ok_def sample_persistence_env_def sample_session_text_def iter_order_rev)

lemma sample_torn:
  assumes "k < length (p_to_json sample_persistence_env s)"
  shows "p_from_json sample_persistence_env (take k (p_to_json sample_persistence_env s)) = None"
proof -
  have "take k (sample_session_text s) = replicate k CHR ''x''"
    using assms by (simp add: sample_persistence_env_def sample_session_text_def)
  then show ?thesis by (cases k) (simp_all add: sample_persistence_env_def)
qed

definition sample_persisted :: persisted_session where
  "sample_persisted = (new_persisted_session 1 ''s'' ''p'' ''/f'')\<lparr>pss_pending_chunks := {|''c1'', ''c2''|}\<rparr>"


theorem torn_save_loses_session_witness:
  "\<exists>m :: persistence. hm_get (pm_sessions m) ''s'' = Some sample_persisted \<and>
     get_session (new_persistence sample_persistence_env default_persistence_config
       (hm_put ''s.json'' [] (pm_files m))) ''s'' = None"
proof -
  let ?env = sample_persistence_env
  let ?none = "\<lparr>pm_config = default_persistence_config, pm_sessions = [], pm_counter = [], pm_files = []\<rparr>"
  let ?m = "persistence_step ?env (StartSession sample_persisted) ?none"
  have "persisted_ok ?env ?none"
    by (simp add: persisted_ok_def persisted_but_def files_sound_def hm.wf_empty hm.get_empty counted_def save_limit_def)
  then have ok: "persisted_ok ?env ?m" by (rule persisted_step [OF sample_persistence_env_ok])
  have s: "hm_get (pm_sessions ?m) ''s'' = Some sample_persisted"
    by (simp add: start_session_def save_session_def sample_persistence_env_def sample_persisted_def
        new_persisted_session_def hm.get_put hm.wf_empty)
  have k: "0 < length (p_to_json ?env sample_persisted)"
    by (simp add: sample_persistence_env_def sample_session_text_def)
  have torn: "\<forall>s k. k < length (p_to_json ?env s) \<longrightarrow> p_from_json ?env (take k (p_to_json ?env s)) = None"
    using sample_torn by blast
  from torn_save_loses_session [OF sample_persistence_env_ok torn ok s k refl, of default_persistence_config "''t''"] s
  show ?thesis by (intro exI [of _ ?m]) (simp add: session_file_def)
qed

end
