(* ===== verification/Fs_Watch.thy ===== *)
theory Fs_Watch
  imports Indexer Machines
begin

text \<open>
  The index's file-system watcher (\<open>landro-index/src/watcher/mod.rs\<close>, \<open>fallback.rs\<close>,
  \<open>legacy.rs\<close>): the events, the ignore patterns, the debouncer, the watcher on \<open>notify\<close> that every
  platform uses, and the folder watcher that indexes a folder again when something in it changed.

  Parameters: what \<open>stat\<close> says of a path (is it a directory, its size; it follows links, so never a
  link), whether \<open>notify\<close> accepts a call, the order in which a hash map is iterated, and the
  operating system of theory \<open>Indexer\<close>.  An \<open>Instant\<close> is a number of nanoseconds.
\<close>

section \<open>Events\<close>

datatype fs_event_kind = FsCreated | FsModified | FsRemoved | FsRenamed | FsAttributeChanged | FsRescan

record platform_flags =
  pf_is_directory :: bool
  pf_is_symlink :: bool
  pf_file_size :: "u64 option"

record fs_event =
  fx_kind :: fs_event_kind
  fx_path :: fs_path
  fx_old_path :: "fs_path option"
  fx_file_id :: "u64 option"
  fx_timestamp :: date_time
  fx_flags :: platform_flags

definition no_flags :: platform_flags where
  "no_flags = \<lparr>pf_is_directory = False, pf_is_symlink = False, pf_file_size = None\<rparr>"

text \<open>The kinds of \<open>notify\<close> the code distinguishes.\<close>

datatype rename_mode = RenameBoth | RenameOther

datatype modify_kind = ModifyData | ModifyAny | ModifyName rename_mode | ModifyMetadata | ModifyOther

datatype nf_kind = NfCreate | NfModify modify_kind | NfRemove | NfAny | NfOther | NfAccess

record nf_event =
  nf_event_kind :: nf_kind
  nf_paths :: "fs_path list"

definition event_at :: "(fs_path \<Rightarrow> (bool \<times> u64) option) \<Rightarrow> date_time \<Rightarrow> fs_event_kind \<Rightarrow> fs_path \<Rightarrow> fs_event" where
  "event_at stat now k p = \<lparr>fx_kind = k, fx_path = p, fx_old_path = None, fx_file_id = None, fx_timestamp = now,
     fx_flags = (case stat p of
         Some (dir, n) \<Rightarrow> \<lparr>pf_is_directory = dir, pf_is_symlink = False, pf_file_size = Some n\<rparr>
       | None \<Rightarrow> no_flags)\<rparr>"

definition first_event ::
  "(fs_path \<Rightarrow> (bool \<times> u64) option) \<Rightarrow> date_time \<Rightarrow> fs_event_kind \<Rightarrow> fs_path list \<Rightarrow> fs_event option" where
  "first_event stat now k ps = (case ps of [] \<Rightarrow> None | p # _ \<Rightarrow> Some (event_at stat now k p))"

fun convert_fs_event ::
  "(fs_path \<Rightarrow> (bool \<times> u64) option) \<Rightarrow> date_time \<Rightarrow> nf_event \<Rightarrow> fs_event option" where
  "convert_fs_event stat now e =
     (case nf_event_kind e of
        NfCreate \<Rightarrow> first_event stat now FsCreated (nf_paths e)
      | NfModify m \<Rightarrow>
          (case m of
             ModifyData \<Rightarrow> first_event stat now FsModified (nf_paths e)
           | ModifyAny \<Rightarrow> first_event stat now FsModified (nf_paths e)
           | ModifyName rm \<Rightarrow>
               (case (rm, nf_paths e) of
                  (RenameBoth, old # new # _) \<Rightarrow> Some \<lparr>fx_kind = FsRenamed, fx_path = new,
                    fx_old_path = Some old, fx_file_id = None, fx_timestamp = now, fx_flags = no_flags\<rparr>
                | _ \<Rightarrow> first_event stat now FsModified (nf_paths e))
           | ModifyMetadata \<Rightarrow> first_event stat now FsAttributeChanged (nf_paths e)
           | ModifyOther \<Rightarrow> first_event stat now FsModified (nf_paths e))
      | NfRemove \<Rightarrow> first_event stat now FsRemoved (nf_paths e)
      | NfAny \<Rightarrow> first_event stat now FsRescan (nf_paths e)
      | NfOther \<Rightarrow> first_event stat now FsRescan (nf_paths e)
      | NfAccess \<Rightarrow> None)"

datatype legacy_fs_event =
    LegacyCreated fs_path
  | LegacyModified fs_path
  | LegacyRemoved fs_path
  | LegacyRenamed fs_path fs_path
  | LegacyRescan fs_path

definition legacy_of :: "fs_event \<Rightarrow> legacy_fs_event" where
  "legacy_of e =
     (case fx_kind e of
        FsCreated \<Rightarrow> LegacyCreated (fx_path e)
      | FsModified \<Rightarrow> LegacyModified (fx_path e)
      | FsRemoved \<Rightarrow> LegacyRemoved (fx_path e)
      | FsAttributeChanged \<Rightarrow> LegacyModified (fx_path e)
      | FsRenamed \<Rightarrow>
          (case fx_old_path e of
             Some old \<Rightarrow> LegacyRenamed old (fx_path e)
           | None \<Rightarrow> LegacyModified (fx_path e))
      | FsRescan \<Rightarrow> LegacyRescan (fx_path e))"

section \<open>Configuration and patterns\<close>

record watcher_config =
  wc_debounce_delay :: nat
  wc_recursive :: bool
  wc_ignore_patterns :: "string list"
  wc_batch_size :: nat
  wc_use_platform_optimizations :: bool
  wc_event_buffer_size :: nat

definition default_watcher_config :: watcher_config where
  "default_watcher_config = \<lparr>wc_debounce_delay = 500 * 1000000, wc_recursive = True,
     wc_ignore_patterns = [''.git'', ''.DS_Store'', ''Thumbs.db'', ''*.tmp'', ''*.swp'', ''*~'', ''.#*'', ''#*#''],
     wc_batch_size = 100, wc_use_platform_optimizations = True, wc_event_buffer_size = 1000\<rparr>"

definition pattern_match :: "string \<Rightarrow> string \<Rightarrow> bool" where
  "pattern_match pattern name \<longleftrightarrow>
     (if starts_with pattern ''*'' then ends_with name (drop 1 pattern)
      else if ends_with pattern ''*'' then starts_with name (take (length pattern - 1) pattern)
      else pattern = name)"

definition should_ignore_path :: "fs_path \<Rightarrow> string list \<Rightarrow> bool" where
  "should_ignore_path p patterns \<longleftrightarrow>
     (let name = (if p = [] then [] else last p) in
      list_ex (\<lambda>pattern. if CHR ''*'' \<in> set pattern then pattern_match pattern name else name = pattern) patterns)"

section \<open>The debouncer\<close>

record event_debouncer =
  db_pending :: "(fs_path, fs_event \<times> nat) hmap"
  db_delay :: nat

definition new_debouncer :: "nat \<Rightarrow> event_debouncer" where
  "new_debouncer delay = \<lparr>db_pending = [], db_delay = delay\<rparr>"

definition add_event :: "nat \<Rightarrow> fs_event \<Rightarrow> event_debouncer \<Rightarrow> event_debouncer" where
  "add_event now e d = d\<lparr>db_pending := hm_put (fx_path e) (e, now) (db_pending d)\<rparr>"

definition is_due :: "nat \<Rightarrow> event_debouncer \<Rightarrow> fs_path \<times> fs_event \<times> nat \<Rightarrow> bool" where
  "is_due now d = (\<lambda>(_, _, t). now - t \<ge> db_delay d)"

type_synonym pending_order = "(fs_path \<times> fs_event \<times> nat) list \<Rightarrow> (fs_path \<times> fs_event \<times> nat) list"

definition get_ready_events :: "pending_order \<Rightarrow> nat \<Rightarrow> event_debouncer \<Rightarrow> fs_event list \<times> event_debouncer" where
  "get_ready_events it now d =
     (map (fst \<circ> snd) (filter (is_due now d) (it (db_pending d))),
      d\<lparr>db_pending := filter (\<lambda>x. \<not> is_due now d x) (db_pending d)\<rparr>)"

definition has_pending :: "event_debouncer \<Rightarrow> bool" where
  "has_pending d \<longleftrightarrow> db_pending d \<noteq> []"

definition clear_events :: "event_debouncer \<Rightarrow> event_debouncer" where
  "clear_events d = d\<lparr>db_pending := []\<rparr>"

section \<open>The watcher on notify\<close>

datatype watch_error = WatcherError string | WatchIo | WatchIndex index_error

record watcher_stats =
  ws_events_processed :: u64
  ws_paths_watched :: nat
  ws_events_queued :: nat
  ws_at_watch_limit :: bool
  ws_overflow_events :: u64

definition default_watcher_stats :: watcher_stats where
  "default_watcher_stats = \<lparr>ws_events_processed = 0, ws_paths_watched = 0, ws_events_queued = 0,
     ws_at_watch_limit = False, ws_overflow_events = 0\<rparr>"

text \<open>\<open>fw_watcher\<close> tells whether there is a \<open>notify\<close> watcher, which only dropping takes away;
  \<open>fw_queue\<close> is the unbounded channel.\<close>

record fallback_watcher =
  fw_watcher :: bool
  fw_queue :: "fs_event list"
  fw_watched :: "fs_path hset"
  fw_stats :: watcher_stats

definition new_fallback :: "bool \<Rightarrow> watch_error + fallback_watcher" where
  "new_fallback created =
     (if created then Inr \<lparr>fw_watcher = True, fw_queue = [], fw_watched = [], fw_stats = default_watcher_stats\<rparr>
      else Inl (WatcherError ''Failed to create notify watcher''))"

definition notify_callback ::
  "(fs_path \<Rightarrow> (bool \<times> u64) option) \<Rightarrow> date_time \<Rightarrow> nf_event option \<Rightarrow> fallback_watcher \<Rightarrow> fallback_watcher" where
  "notify_callback stat now r w =
     (case r of
        Some e \<Rightarrow> (case convert_fs_event stat now e of Some x \<Rightarrow> w\<lparr>fw_queue := fw_queue w @ [x]\<rparr> | None \<Rightarrow> w)
      | None \<Rightarrow> w)"

definition watch_path ::
  "os \<Rightarrow> (fs_path \<Rightarrow> bool \<Rightarrow> bool) \<Rightarrow> fs_path \<Rightarrow> bool \<Rightarrow> fallback_watcher \<Rightarrow> (watch_error + unit) \<times> fallback_watcher" where
  "watch_path os accepts p recursive w =
     (case os_canonicalize os p of
        None \<Rightarrow> (Inl (WatcherError ''Cannot canonicalize path''), w)
      | Some c \<Rightarrow>
          if fw_watcher w then
            (if accepts c recursive
             then (Inr (), w\<lparr>fw_watched := hs_add c (fw_watched w),
               fw_stats := (fw_stats w)\<lparr>ws_paths_watched := ws_paths_watched (fw_stats w) + 1\<rparr>\<rparr>)
             else (Inl (WatcherError ''Failed to watch path''), w))
          else (Inr (), w))"

definition unwatch_path ::
  "os \<Rightarrow> (fs_path \<Rightarrow> bool) \<Rightarrow> fs_path \<Rightarrow> fallback_watcher \<Rightarrow> (watch_error + unit) \<times> fallback_watcher" where
  "unwatch_path os accepts p w =
     (case os_canonicalize os p of
        None \<Rightarrow> (Inl (WatcherError ''Cannot canonicalize path''), w)
      | Some c \<Rightarrow>
          if fw_watcher w then
            (if accepts c
             then (Inr (), w\<lparr>fw_watched := hs_del c (fw_watched w),
               fw_stats := (if c \<in> set (fw_watched w)
                 then (fw_stats w)\<lparr>ws_paths_watched := ws_paths_watched (fw_stats w) - 1\<rparr> else fw_stats w)\<rparr>)
             else (Inl (WatcherError ''Failed to unwatch path''), w))
          else (Inr (), w))"

definition poll_events :: "fallback_watcher \<Rightarrow> fs_event list \<times> fallback_watcher" where
  "poll_events w =
     (fw_queue w, w\<lparr>fw_queue := [],
        fw_stats := (if fw_queue w = [] then fw_stats w
          else (fw_stats w)\<lparr>ws_events_processed :=
            ws_events_processed (fw_stats w) + word_of_nat (length (fw_queue w))\<rparr>)\<rparr>)"

definition watcher_health :: "fallback_watcher \<Rightarrow> bool" where
  "watcher_health w \<longleftrightarrow> fw_watcher w"

definition get_watcher_stats :: "fallback_watcher \<Rightarrow> watcher_stats" where
  "get_watcher_stats w = (fw_stats w)\<lparr>ws_paths_watched := length (fw_watched w)\<rparr>"

section \<open>The folder watcher\<close>

record folder_watcher =
  fo_watcher :: fallback_watcher
  fo_folders :: "(fs_path, string) hmap"
  fo_config :: watcher_config
  fo_debouncer :: event_debouncer

text \<open>Both values of \<open>use_platform_optimizations\<close> give the watcher on \<open>notify\<close>.\<close>

definition new_folder_watcher :: "bool \<Rightarrow> watcher_config \<Rightarrow> watch_error + folder_watcher" where
  "new_folder_watcher created cfg =
     and_then (new_fallback created) (\<lambda>w.
       Inr \<lparr>fo_watcher = w, fo_folders = [], fo_config = cfg, fo_debouncer = new_debouncer (wc_debounce_delay cfg)\<rparr>)"

definition watch_folder ::
  "os \<Rightarrow> (fs_path \<Rightarrow> bool \<Rightarrow> bool) \<Rightarrow> fs_path \<Rightarrow> string \<Rightarrow> folder_watcher \<Rightarrow> (watch_error + unit) \<times> folder_watcher" where
  "watch_folder os accepts p i fo =
     (case os_canonicalize os p of
        None \<Rightarrow> (Inl WatchIo, fo)
      | Some c \<Rightarrow>
          (case watch_path os accepts c (wc_recursive (fo_config fo)) (fo_watcher fo) of
             (Inl e, w) \<Rightarrow> (Inl e, fo\<lparr>fo_watcher := w\<rparr>)
           | (Inr _, w) \<Rightarrow> (Inr (), fo\<lparr>fo_watcher := w, fo_folders := hm_put c i (fo_folders fo)\<rparr>)))"

definition unwatch_folder ::
  "os \<Rightarrow> (fs_path \<Rightarrow> bool) \<Rightarrow> fs_path \<Rightarrow> folder_watcher \<Rightarrow> (watch_error + unit) \<times> folder_watcher" where
  "unwatch_folder os accepts p fo =
     (case os_canonicalize os p of
        None \<Rightarrow> (Inl WatchIo, fo)
      | Some c \<Rightarrow>
          (case unwatch_path os accepts c (fo_watcher fo) of
             (Inl e, w) \<Rightarrow> (Inl e, fo\<lparr>fo_watcher := w\<rparr>)
           | (Inr _, w) \<Rightarrow> (Inr (), fo\<lparr>fo_watcher := w, fo_folders := hm_del c (fo_folders fo)\<rparr>)))"

definition should_ignore_event :: "watcher_config \<Rightarrow> fs_event \<Rightarrow> bool" where
  "should_ignore_event cfg e = should_ignore_path (fx_path e) (wc_ignore_patterns cfg)"

type_synonym 'h batch_handler = "fs_event list \<Rightarrow> 'h \<Rightarrow> (watch_error + unit) \<times> 'h"

fun push_ready ::
  "nat \<Rightarrow> 'h batch_handler \<Rightarrow> fs_event list \<Rightarrow> fs_event list \<Rightarrow> 'h \<Rightarrow> (watch_error + unit) \<times> fs_event list \<times> 'h" where
  "push_ready n handler [] batch h = (Inr (), batch, h)"
| "push_ready n handler (e # es) batch h =
     (let batch1 = batch @ [e] in
      if length batch1 \<ge> n
      then (case handler batch1 h of
          (Inl err, h1) \<Rightarrow> (Inl err, [], h1)
        | (Inr _, h1) \<Rightarrow> push_ready n handler es [] h1)
      else push_ready n handler es batch1 h)"

text \<open>One turn of \<open>process_events\<close>, at one instant; \<open>batch\<close> is kept between turns.\<close>

definition process_tick ::
  "pending_order \<Rightarrow> 'h batch_handler \<Rightarrow> nat \<Rightarrow> folder_watcher \<times> fs_event list \<times> 'h \<Rightarrow>
   (watch_error + unit) \<times> folder_watcher \<times> fs_event list \<times> 'h" where
  "process_tick it handler now = (\<lambda>(fo, batch, h).
     let (new_events, w) = poll_events (fo_watcher fo);
         d1 = fold (add_event now) (filter (\<lambda>e. \<not> should_ignore_event (fo_config fo) e) new_events) (fo_debouncer fo);
         (ready, d2) = get_ready_events it now d1;
         fo1 = fo\<lparr>fo_watcher := w, fo_debouncer := d2\<rparr>
     in case push_ready (wc_batch_size (fo_config fo)) handler ready batch h of
          (Inl e, batch1, h1) \<Rightarrow> (Inl e, fo1, batch1, h1)
        | (Inr _, batch1, h1) \<Rightarrow>
            if batch1 \<noteq> [] \<and> \<not> has_pending d2
            then (let (r, h2) = handler batch1 h1 in (r, fo1, [], h2))
            else (Inr (), fo1, batch1, h1))"

text \<open>The handler of \<open>start_with_indexer\<close>: every event goes into a channel.\<close>

definition forward_events :: "fs_event list batch_handler" where
  "forward_events es channel = (Inr (), channel @ es)"

section \<open>Indexing again\<close>

definition owner_folder ::
  "((fs_path \<times> string) list \<Rightarrow> (fs_path \<times> string) list) \<Rightarrow> fs_path \<Rightarrow> (fs_path, string) hmap \<Rightarrow> (fs_path \<times> string) option" where
  "owner_folder it p folders = find (\<lambda>(f, _). take (length f) p = f) (it folders)"

definition handle_fs_event ::
  "'c indexer_env \<Rightarrow> date_time \<Rightarrow> ((fs_path \<times> string) list \<Rightarrow> (fs_path \<times> string) list) \<Rightarrow>
   (fs_path, string) hmap \<Rightarrow> fs_event \<Rightarrow> 'c indexer \<Rightarrow> ((watch_error + unit) \<times> 'c indexer) option" where
  "handle_fs_event env now it folders e st =
     (case owner_folder it (fx_path e) folders of
        None \<Rightarrow> Some (Inr (), st)
      | Some (folder, _) \<Rightarrow>
          if fx_kind e = FsRemoved then Some (Inr (), st)
          else map_option (\<lambda>(r, st1). (case r of Inl err \<Rightarrow> Inl (WatchIndex err) | Inr _ \<Rightarrow> Inr (), st1))
            (index_folder env now folder st))"

text \<open>The task at the other end of the channel; errors are logged.\<close>

fun handle_channel ::
  "((fs_path \<times> string) list \<Rightarrow> (fs_path \<times> string) list) \<Rightarrow> (fs_path, string) hmap \<Rightarrow>
   ('c indexer_env \<times> date_time \<times> fs_event) list \<Rightarrow> 'c indexer \<Rightarrow> 'c indexer option" where
  "handle_channel it folders [] st = Some st"
| "handle_channel it folders ((env, now, e) # es) st =
     Option.bind (handle_fs_event env now it folders e st) (\<lambda>(_, st1). handle_channel it folders es st1)"

section \<open>The patterns\<close>

lemma starts_with_iff: "starts_with s p \<longleftrightarrow> (\<exists>r. s = p @ r)"
  by (auto simp add: starts_with_def) (metis append_take_drop_id)

lemma ends_with_iff: "ends_with s p \<longleftrightarrow> (\<exists>r. s = r @ p)"
proof
  assume "ends_with s p"
  then have "s = take (length s - length p) s @ p" by (metis append_take_drop_id ends_with_def)
  then show "\<exists>r. s = r @ p" by blast
qed (auto simp add: ends_with_def)

text \<open>By default a path is ignored exactly when its last name is one of three names, ends in
  \<open>.tmp\<close>, \<open>.swp\<close> or a tilde, starts with \<open>.#\<close>, or is literally \<open>#*#\<close>.\<close>

theorem ignored_by_default_iff:
  "should_ignore_path (p @ [n]) (wc_ignore_patterns default_watcher_config) \<longleftrightarrow>
     n \<in> {''.git'', ''.DS_Store'', ''Thumbs.db'', ''#*#''} \<or>
     (\<exists>r. n = r @ ''.tmp'' \<or> n = r @ ''.swp'' \<or> n = r @ ''~'' \<or> n = ''.#'' @ r)"
proof -
  have "pattern_match ''*.tmp'' n \<longleftrightarrow> (\<exists>r. n = r @ ''.tmp'')" "pattern_match ''*.swp'' n \<longleftrightarrow> (\<exists>r. n = r @ ''.swp'')"
    "pattern_match ''*~'' n \<longleftrightarrow> (\<exists>r. n = r @ ''~'')"
    unfolding ends_with_iff [symmetric] by (simp_all add: pattern_match_def starts_with_def)
  moreover have "pattern_match ''.#*'' n \<longleftrightarrow> (\<exists>r. n = ''.#'' @ r)"
    unfolding starts_with_iff [symmetric] by (simp add: pattern_match_def starts_with_def ends_with_def)
  moreover have "pattern_match ''#*#'' n \<longleftrightarrow> n = ''#*#''"
    by (auto simp add: pattern_match_def starts_with_def ends_with_def)
  moreover have "should_ignore_path (p @ [n]) (wc_ignore_patterns default_watcher_config) \<longleftrightarrow>
      list_ex (\<lambda>pattern. if CHR ''*'' \<in> set pattern then pattern_match pattern n else n = pattern)
        [''.git'', ''.DS_Store'', ''Thumbs.db'', ''*.tmp'', ''*.swp'', ''*~'', ''.#*'', ''#*#'']"
    by (simp only: should_ignore_path_def Let_def default_watcher_config_def watcher_config.simps last_snoc append_is_Nil_conv
        not_Cons_self2 simp_thms if_False)
  moreover have "CHR ''*'' \<notin> set ''.git''" "CHR ''*'' \<notin> set ''.DS_Store''" "CHR ''*'' \<notin> set ''Thumbs.db''"
    "CHR ''*'' \<in> set ''*.tmp''" "CHR ''*'' \<in> set ''*.swp''" "CHR ''*'' \<in> set ''*~''" "CHR ''*'' \<in> set ''.#*''"
    "CHR ''*'' \<in> set ''#*#''" by simp_all
  ultimately show ?thesis
    by (simp only: list_ex_Nil_iff list_ex_Cons_iff if_True if_False simp_thms insert_iff empty_iff) blast
qed

section \<open>The debouncer against the last events\<close>

text \<open>What the debouncer stands for: for each path the last event and its instant.\<close>

datatype debounce_op = AddEvent nat fs_event | GetReady nat

definition last_events_step ::
  "nat \<Rightarrow> debounce_op \<Rightarrow> (fs_path \<Rightarrow> (fs_event \<times> nat) option) \<Rightarrow> (fs_path \<Rightarrow> (fs_event \<times> nat) option)" where
  "last_events_step delay i f = (case i of
     AddEvent now e \<Rightarrow> f(fx_path e := Some (e, now))
   | GetReady now \<Rightarrow> (\<lambda>p. case f p of Some (e, t) \<Rightarrow> if now - t \<ge> delay then None else f p | None \<Rightarrow> None))"

fun debounce_step :: "pending_order \<Rightarrow> debounce_op \<Rightarrow> event_debouncer \<Rightarrow> event_debouncer" where
  "debounce_step it (AddEvent now e) d = add_event now e d"
| "debounce_step it (GetReady now) d = snd (get_ready_events it now d)"

definition debouncer_ok :: "nat \<Rightarrow> event_debouncer \<Rightarrow> bool" where
  "debouncer_ok delay d \<longleftrightarrow> hm_wf (db_pending d) \<and> db_delay d = delay"

lemma hm_get_filter_iff:
  assumes "hm_wf m"
  shows "hm_get (filter P m) k = (case hm_get m k of Some v \<Rightarrow> if P (k, v) then Some v else None | None \<Rightarrow> None)"
proof -
  have hit: "hm_get (filter P m) k = Some v \<longleftrightarrow> hm_get m k = Some v \<and> P (k, v)" for v
    using hm_mem_iff [OF assms, of k v] hm_mem_iff [OF hm_wf_filter [OF assms], of k v P] by auto
  show ?thesis
  proof (cases "hm_get (filter P m) k")
    case None
    with hit have "\<not> (hm_get m k = Some v \<and> P (k, v))" for v by (metis option.distinct(1))
    with None show ?thesis by (cases "hm_get m k") simp_all
  next
    case (Some v)
    with hit [of v] show ?thesis by simp
  qed
qed

interpretation debouncing: simulation "debounce_step it" "debouncer_ok delay" "last_events_step delay" "\<lambda>d. hm_get (db_pending d)"
  for it delay
proof
  fix d :: event_debouncer and i
  assume ok: "debouncer_ok delay d"
  then show "debouncer_ok delay (debounce_step it i d)"
    by (cases i) (auto simp add: debouncer_ok_def add_event_def get_ready_events_def hm.wf_put hm_wf_filter)
  show "hm_get (db_pending (debounce_step it i d)) = last_events_step delay i (hm_get (db_pending d))"
  proof (cases i)
    case (AddEvent now e)
    with ok show ?thesis by (auto simp add: debouncer_ok_def add_event_def last_events_step_def hm.get_put fun_eq_iff)
  next
    case (GetReady now)
    with ok show ?thesis
      by (auto simp add: debouncer_ok_def get_ready_events_def last_events_step_def hm_get_filter_iff is_due_def fun_eq_iff
          split: option.split)
  qed
qed

lemma ready_events_set:
  assumes "iter_order it" and "hm_wf (db_pending d)"
  shows "e \<in> set (fst (get_ready_events it now d)) \<longleftrightarrow>
    (\<exists>p t. hm_get (db_pending d) p = Some (e, t) \<and> now - t \<ge> db_delay d)"
proof -
  have "e \<in> set (fst (get_ready_events it now d)) \<longleftrightarrow>
      (\<exists>p t. (p, e, t) \<in> set (db_pending d) \<and> now - t \<ge> db_delay d)"
    using iter_order_set [OF assms(1), of "db_pending d"] by (force simp add: get_ready_events_def is_due_def)
  then show ?thesis by (simp only: hm_mem_iff [OF assms(2)])
qed

section \<open>Turns of the watcher\<close>

text \<open>A turn: what \<open>notify\<close> called back with since the last one, and the instant of the tick.\<close>

type_synonym turn_input = "(date_time \<times> nf_event option) list \<times> nat"

type_synonym watch_state = "folder_watcher \<times> fs_event list \<times> fs_event list"

definition arrivals :: "(fs_path \<Rightarrow> (bool \<times> u64) option) \<Rightarrow> (date_time \<times> nf_event option) list \<Rightarrow> fs_event list" where
  "arrivals stat rs = List.map_filter (\<lambda>(ts, r). Option.bind r (convert_fs_event stat ts)) rs"

definition watch_turn ::
  "(fs_path \<Rightarrow> (bool \<times> u64) option) \<Rightarrow> pending_order \<Rightarrow> turn_input \<Rightarrow> watch_state \<Rightarrow> watch_state" where
  "watch_turn stat it = (\<lambda>(rs, now) (fo, batch, channel).
     snd (process_tick it forward_events now
       (fo\<lparr>fo_watcher := fold (\<lambda>(ts, r). notify_callback stat ts r) rs (fo_watcher fo)\<rparr>, batch, channel)))"

text \<open>The events of all turns that are not ignored, and the last one for a path.\<close>

definition kept_events ::
  "watcher_config \<Rightarrow> (fs_path \<Rightarrow> (bool \<times> u64) option) \<Rightarrow> turn_input list \<Rightarrow> fs_event list" where
  "kept_events cfg stat ts = filter (\<lambda>e. \<not> should_ignore_event cfg e) (concat (map (arrivals stat \<circ> fst) ts))"

definition last_for :: "fs_path \<Rightarrow> fs_event list \<Rightarrow> fs_event option" where
  "last_for p es = (let xs = filter (\<lambda>e. fx_path e = p) es in if xs = [] then None else Some (last xs))"

lemma last_for_append:
  "last_for p (es @ fs) = (case last_for p fs of Some e \<Rightarrow> Some e | None \<Rightarrow> last_for p es)"
  by (simp add: last_for_def Let_def)

lemma last_for_Some: "last_for p es = Some e \<Longrightarrow> e \<in> set es \<and> fx_path e = p"
  using last_in_set [of "filter (\<lambda>e. fx_path e = p) es"] by (auto simp add: last_for_def Let_def split: if_splits)

lemma callbacks:
  "fold (\<lambda>(ts, r). notify_callback stat ts r) rs w = w\<lparr>fw_queue := fw_queue w @ arrivals stat rs\<rparr>"
proof (induction rs arbitrary: w)
  case Nil
  then show ?case by (simp add: arrivals_def List.map_filter_def)
next
  case (Cons x rs)
  obtain ts r where x: "x = (ts, r)" by fastforce
  have "notify_callback stat ts r w = w\<lparr>fw_queue := fw_queue w @ arrivals stat [x]\<rparr>"
    by (simp add: x notify_callback_def arrivals_def List.map_filter_def del: convert_fs_event.simps split: option.split)
  moreover have "arrivals stat (x # rs) = arrivals stat [x] @ arrivals stat rs"
    by (simp add: arrivals_def List.map_filter_def)
  ultimately show ?case by (simp add: x Cons.IH)
qed

lemma added_events:
  assumes "hm_wf (db_pending d)"
  shows "hm_wf (db_pending (fold (add_event now) es d)) \<and> db_delay (fold (add_event now) es d) = db_delay d \<and>
    hm_get (db_pending (fold (add_event now) es d)) p =
      (case last_for p es of Some e \<Rightarrow> Some (e, now) | None \<Rightarrow> hm_get (db_pending d) p)"
proof (induction es rule: rev_induct)
  case Nil
  with assms show ?case by (simp add: last_for_def)
next
  case (snoc e es)
  then show ?case
    by (auto simp add: add_event_def hm.get_put hm.wf_put last_for_append) (simp_all add: last_for_def)
qed

lemma push_forward:
  "\<exists>batch' ch'. push_ready n forward_events es batch ch = (Inr (), batch', ch') \<and> ch' @ batch' = ch @ batch @ es \<and>
     (length batch + length es < n \<longrightarrow> ch' = ch)"
proof (induction es arbitrary: batch ch)
  case (Cons e es)
  show ?case
  proof (cases "length (batch @ [e]) \<ge> n")
    case True
    with Cons.IH [of "[]" "ch @ batch @ [e]"] show ?thesis by (auto simp add: forward_events_def)
  next
    case False
    with Cons.IH [of "batch @ [e]" ch] show ?thesis by (auto simp add: Let_def)
  qed
qed simp

definition watching_ok :: "watcher_config \<Rightarrow> watch_state \<Rightarrow> bool" where
  "watching_ok cfg = (\<lambda>(fo, batch, ch). fo_config fo = cfg \<and> fw_queue (fo_watcher fo) = [] \<and>
     hm_wf (db_pending (fo_debouncer fo)) \<and> db_delay (fo_debouncer fo) = wc_debounce_delay cfg)"

text \<open>What a turn does: the events are added, those that are due leave for the channel or the batch,
  and a batch stays only while something is pending.\<close>

lemma turn_result:
  assumes "watching_ok cfg (fo, batch, ch)"
    and d1: "d1 = fold (add_event now) (filter (\<lambda>e. \<not> should_ignore_event cfg e) (arrivals stat rs)) (fo_debouncer fo)"
    and ready: "get_ready_events it now d1 = (ready, d2)"
  obtains fo' batch' ch' where "watch_turn stat it (rs, now) (fo, batch, ch) = (fo', batch', ch')"
    and "watching_ok cfg (fo', batch', ch')" and "fo_debouncer fo' = d2" and "ch' @ batch' = ch @ batch @ ready"
    and "batch' \<noteq> [] \<longrightarrow> has_pending d2"
    and "has_pending d2 \<and> length batch + length ready < wc_batch_size cfg \<longrightarrow> ch' = ch"
proof -
  let ?w = "(fo_watcher fo)\<lparr>fw_queue := arrivals stat rs\<rparr>"
  let ?fo = "fo\<lparr>fo_watcher := snd (poll_events ?w), fo_debouncer := d2\<rparr>"
  obtain batch1 ch1 where p: "push_ready (wc_batch_size cfg) forward_events ready batch ch = (Inr (), batch1, ch1)"
      "ch1 @ batch1 = ch @ batch @ ready" "length batch + length ready < wc_batch_size cfg \<longrightarrow> ch1 = ch"
    using push_forward by blast
  have turn: "watch_turn stat it (rs, now) (fo, batch, ch) =
      (if batch1 \<noteq> [] \<and> \<not> has_pending d2 then (?fo, [], ch1 @ batch1) else (?fo, batch1, ch1))"
    using assms(1) p(1) ready [unfolded d1]
    by (simp add: watch_turn_def process_tick_def watching_ok_def callbacks poll_events_def forward_events_def Let_def)
  have "hm_wf (db_pending d1)" "db_delay d1 = wc_debounce_delay cfg"
    using assms(1) added_events [of "fo_debouncer fo" now] by (simp_all add: d1 watching_ok_def)
  then have "hm_wf (db_pending d2)" "db_delay d2 = wc_debounce_delay cfg"
    using ready by (auto simp add: get_ready_events_def hm_wf_filter)
  then have "watching_ok cfg (?fo, b, c)" for b c
    using assms(1) by (simp add: watching_ok_def poll_events_def)
  with turn p(2,3) show thesis
    using that [of ?fo "[]" "ch1 @ batch1"] that [of ?fo batch1 ch1] by (cases "batch1 \<noteq> [] \<and> \<not> has_pending d2") auto
qed

definition accounted :: "fs_event list \<Rightarrow> nat \<Rightarrow> watch_state \<Rightarrow> bool" where
  "accounted es now = (\<lambda>(fo, batch, ch). set (ch @ batch) \<subseteq> set es \<and> (batch \<noteq> [] \<longrightarrow> has_pending (fo_debouncer fo)) \<and>
     (\<forall>p e. last_for p es = Some e \<longrightarrow>
       e \<in> set (ch @ batch) \<or> (\<exists>t \<le> now. hm_get (db_pending (fo_debouncer fo)) p = Some (e, t))) \<and>
     (\<forall>p e t. hm_get (db_pending (fo_debouncer fo)) p = Some (e, t) \<longrightarrow> last_for p es = Some e \<and> t \<le> now))"

lemma accountedD:
  assumes "accounted es now (fo, batch, ch)"
  shows "set (ch @ batch) \<subseteq> set es" and "batch \<noteq> [] \<Longrightarrow> has_pending (fo_debouncer fo)"
    and "last_for p es = Some e \<Longrightarrow> e \<in> set (ch @ batch) \<or> (\<exists>t \<le> now. hm_get (db_pending (fo_debouncer fo)) p = Some (e, t))"
    and "hm_get (db_pending (fo_debouncer fo)) p = Some (e, t) \<Longrightarrow> last_for p es = Some e \<and> t \<le> now"
  using assms unfolding accounted_def prod.case by blast+

lemma accountedI:
  assumes "set (ch @ batch) \<subseteq> set es" and "batch \<noteq> [] \<Longrightarrow> has_pending (fo_debouncer fo)"
    and "\<And>p e. last_for p es = Some e \<Longrightarrow> e \<in> set (ch @ batch) \<or> (\<exists>t \<le> now. hm_get (db_pending (fo_debouncer fo)) p = Some (e, t))"
    and "\<And>p e t. hm_get (db_pending (fo_debouncer fo)) p = Some (e, t) \<Longrightarrow> last_for p es = Some e \<and> t \<le> now"
  shows "accounted es now (fo, batch, ch)"
  using assms unfolding accounted_def prod.case by blast

lemma accounted_turn:
  assumes it: "iter_order it" and ok: "watching_ok cfg st" and acc: "accounted es t0 st" and le: "t0 \<le> now"
  shows "watching_ok cfg (watch_turn stat it (rs, now) st) \<and>
    accounted (es @ filter (\<lambda>e. \<not> should_ignore_event cfg e) (arrivals stat rs)) now (watch_turn stat it (rs, now) st)"
proof -
  obtain fo batch ch where st: "st = (fo, batch, ch)" using prod_cases3 by blast
  define new where "new = filter (\<lambda>e. \<not> should_ignore_event cfg e) (arrivals stat rs)"
  define d1 where "d1 = fold (add_event now) new (fo_debouncer fo)"
  obtain ready d2 where r: "get_ready_events it now d1 = (ready, d2)" by fastforce
  obtain fo' batch' ch' where turn: "watch_turn stat it (rs, now) (fo, batch, ch) = (fo', batch', ch')"
      "watching_ok cfg (fo', batch', ch')" "fo_debouncer fo' = d2" "ch' @ batch' = ch @ batch @ ready"
      "batch' \<noteq> [] \<longrightarrow> has_pending d2"
    using turn_result [OF ok [unfolded st] d1_def [unfolded new_def] r] by blast
  have "hm_wf (db_pending (fo_debouncer fo))" using ok by (simp add: st watching_ok_def)
  note d1 = added_events [OF this, of now new, folded d1_def]
  have set: "set (ch' @ batch') = set (ch @ batch) \<union> set ready" by (simp only: turn(4)) auto
  have pend: "last_for p (es @ new) = Some e \<and> t \<le> now" if "hm_get (db_pending d1) p = Some (e, t)" for p e t
  proof (cases "last_for p new")
    case None
    with that d1 [THEN conjunct2, THEN conjunct2, of p] have "hm_get (db_pending (fo_debouncer fo)) p = Some (e, t)" by simp
    with accountedD(4) [OF acc [unfolded st]] le None show ?thesis by (fastforce simp add: last_for_append)
  next
    case (Some f)
    with that d1 [THEN conjunct2, THEN conjunct2, of p] show ?thesis by (simp add: last_for_append)
  qed
  have ready: "e \<in> set ready \<longleftrightarrow> (\<exists>p t. hm_get (db_pending d1) p = Some (e, t) \<and> now - t \<ge> db_delay d1)" for e
    using ready_events_set [OF it, of d1 e now] d1 r by simp
  have d2: "hm_get (db_pending d2) p = (case hm_get (db_pending d1) p of
      Some (e, t) \<Rightarrow> if now - t \<ge> db_delay d1 then None else Some (e, t) | None \<Rightarrow> None)" for p
  proof -
    have "db_pending d2 = filter (\<lambda>x. \<not> is_due now d1 x) (db_pending d1)"
      using r by (auto simp add: get_ready_events_def)
    with d1 show ?thesis by (simp only: hm_get_filter_iff) (simp add: is_due_def split: option.split)
  qed
  have "set ready \<subseteq> set (es @ new)" using ready pend last_for_Some by blast
  then have "set (ch' @ batch') \<subseteq> set (es @ new)"
    using accountedD(1) [OF acc [unfolded st]] unfolding set by auto
  moreover have "e \<in> set (ch' @ batch') \<or> (\<exists>t \<le> now. hm_get (db_pending d2) p = Some (e, t))"
    if l: "last_for p (es @ new) = Some e" for p e
  proof -
    have "e \<in> set (ch @ batch) \<or> (\<exists>t \<le> now. hm_get (db_pending d1) p = Some (e, t))"
    proof (cases "last_for p new")
      case (Some f)
      with l d1 [THEN conjunct2, THEN conjunct2, of p] show ?thesis by (auto simp add: last_for_append)
    next
      case None
      with l have "last_for p es = Some e" by (simp add: last_for_append)
      from accountedD(3) [OF acc [unfolded st] this]
      have "e \<in> set (ch @ batch) \<or> (\<exists>t \<le> t0. hm_get (db_pending (fo_debouncer fo)) p = Some (e, t))" .
      with None le d1 [THEN conjunct2, THEN conjunct2, of p] show ?thesis by (auto intro: order_trans)
    qed
    then show ?thesis
      unfolding set using ready [of e] d2 [of p] by (auto split: option.splits if_splits)
  qed
  moreover have "last_for p (es @ new) = Some e \<and> t \<le> now" if "hm_get (db_pending d2) p = Some (e, t)" for p e t
    using that d2 [of p] pend [of p e t] by (auto split: option.splits if_splits)
  ultimately have "accounted (es @ new) now (fo', batch', ch')"
    using turn(5) by (intro accountedI) (simp_all only: turn(3) not_False_eq_True simp_thms)
  with turn(1,2) show ?thesis by (simp add: st new_def)
qed

definition watch_start :: "watcher_config \<Rightarrow> watch_state" where
  "watch_start cfg = (\<lparr>fo_watcher = \<lparr>fw_watcher = True, fw_queue = [], fw_watched = [], fw_stats = default_watcher_stats\<rparr>,
     fo_folders = [], fo_config = cfg, fo_debouncer = new_debouncer (wc_debounce_delay cfg)\<rparr>, [], [])"

lemma watch_start_new: "new_folder_watcher True cfg = Inr fo \<Longrightarrow> watch_start cfg = (fo, [], [])"
  by (auto simp add: watch_start_def new_folder_watcher_def new_fallback_def)

lemma accounted_turns:
  assumes it: "iter_order it" and "sorted (map snd ts)" and "\<forall>t\<in>set ts. snd t \<le> now"
  shows "watching_ok cfg (fold (watch_turn stat it) ts (watch_start cfg)) \<and>
    accounted (kept_events cfg stat ts) now (fold (watch_turn stat it) ts (watch_start cfg))"
  using assms(2,3)
proof (induction ts arbitrary: now rule: rev_induct)
  case Nil
  then show ?case
    by (simp add: watch_start_def watching_ok_def accounted_def new_debouncer_def kept_events_def last_for_def
        hm.wf_empty hm.get_empty)
next
  case (snoc t ts)
  obtain rs n where t: "t = (rs, n)" by fastforce
  have "sorted (map snd ts)" "\<forall>x\<in>set ts. snd x \<le> n" using snoc.prems(1) by (auto simp add: t sorted_append)
  note IH = snoc.IH [OF this]
  from accounted_turn [OF it conjunct1 [OF IH] conjunct2 [OF IH] order_refl, where stat = stat and rs = rs]
  have "watching_ok cfg (fold (watch_turn stat it) (ts @ [t]) (watch_start cfg)) \<and>
      accounted (kept_events cfg stat (ts @ [t])) n (fold (watch_turn stat it) (ts @ [t]) (watch_start cfg))"
    by (simp add: t kept_events_def)
  moreover have "accounted es now st" if "accounted es n st" for es and st :: watch_state
  proof -
    obtain fo batch ch where st: "st = (fo, batch, ch)" using prod_cases3 by blast
    have "n \<le> now" using snoc.prems(2) by (simp add: t)
    then show ?thesis
      unfolding st using accountedD [OF that [unfolded st]] by (intro accountedI) (blast intro: order_trans)+
  qed
  ultimately show ?case by blast
qed



section \<open>A busy path\<close>

lemma length_put: "length (hm_put k v m) \<le> Suc (length m)"
  by (induction m) (auto simp add: hm_put_def)

lemma length_added: "length (db_pending (fold (add_event now) es d)) \<le> length (db_pending d) + length es"
proof (induction es arbitrary: d)
  case (Cons e es)
  have "length (db_pending (add_event now e d)) \<le> Suc (length (db_pending d))"
    by (simp add: add_event_def length_put)
  with Cons.IH [of "add_event now e d"] show ?case by simp
qed simp

lemma length_ready:
  assumes "iter_order it"
  shows "length (fst (get_ready_events it now d)) + length (db_pending (snd (get_ready_events it now d))) = length (db_pending d)"
proof -
  have "length (filter (is_due now d) (it (db_pending d))) = length (filter (is_due now d) (db_pending d))"
    using assms iter_order_mset [OF assms, of "db_pending d"] by (metis mset_filter size_mset)
  then show ?thesis by (simp add: get_ready_events_def sum_length_filter_compl)
qed

text \<open>A path that changes in every turn holds everything back: if every turn brings an event that
  is not ignored, nothing is forwarded, however long it takes, until there are as many events as a
  batch holds.\<close>

theorem busy_path_holds_back:
  assumes "iter_order it" and "0 < wc_debounce_delay cfg"
    and "new_folder_watcher True cfg = Inr fo0"
    and "\<forall>t\<in>set ts. \<exists>e\<in>set (arrivals stat (fst t)). \<not> should_ignore_event cfg e"
    and "length (kept_events cfg stat ts) < wc_batch_size cfg"
  shows "snd (snd (fold (watch_turn stat it) ts (fo0, [], []))) = []"
proof -
  let ?run = "\<lambda>ts. fold (watch_turn stat it) ts (watch_start cfg)"
  have "watching_ok cfg (?run ts) \<and> (case ?run ts of (fo, batch, ch) \<Rightarrow> ch = [] \<and>
      length batch + length (db_pending (fo_debouncer fo)) \<le> length (kept_events cfg stat ts))"
    using assms(4,5)
  proof (induction ts rule: rev_induct)
    case Nil
    then show ?case by (simp add: watch_start_def watching_ok_def new_debouncer_def hm.wf_empty)
  next
    case (snoc t ts)
    obtain rs now where t: "t = (rs, now)" by fastforce
    obtain fo batch ch where st: "?run ts = (fo, batch, ch)" using prod_cases3 by blast
    define new where "new = filter (\<lambda>e. \<not> should_ignore_event cfg e) (arrivals stat rs)"
    have kept: "kept_events cfg stat (ts @ [t]) = kept_events cfg stat ts @ new"
      by (simp add: kept_events_def t new_def)
    have IH: "watching_ok cfg (fo, batch, ch)" "ch = []"
        "length batch + length (db_pending (fo_debouncer fo)) \<le> length (kept_events cfg stat ts)"
      using snoc kept by (auto simp add: st)
    define d1 where "d1 = fold (add_event now) new (fo_debouncer fo)"
    obtain ready d2 where r: "get_ready_events it now d1 = (ready, d2)" by fastforce
    obtain fo' batch' ch' where turn: "watch_turn stat it (rs, now) (fo, batch, ch) = (fo', batch', ch')"
        "watching_ok cfg (fo', batch', ch')" "fo_debouncer fo' = d2" "ch' @ batch' = ch @ batch @ ready"
        "has_pending d2 \<and> length batch + length ready < wc_batch_size cfg \<longrightarrow> ch' = ch"
      using turn_result [OF IH(1) d1_def [unfolded new_def] r] by blast
    have wf: "hm_wf (db_pending (fo_debouncer fo))" using IH(1) by (simp add: watching_ok_def)
    have delay: "db_delay d1 = wc_debounce_delay cfg" "hm_wf (db_pending d1)"
      using added_events [OF wf, of now new] IH(1) by (simp_all add: d1_def watching_ok_def)
    have len: "length ready + length (db_pending d2) = length (db_pending d1)"
      using length_ready [OF assms(1), of now d1] r by simp
    have d1_len: "length (db_pending d1) \<le> length (db_pending (fo_debouncer fo)) + length new"
      unfolding d1_def by (rule length_added)
    have "has_pending d2"
    proof -
      from snoc.prems(1) obtain x where "x \<in> set new" by (auto simp add: t new_def)
      then have "filter (\<lambda>e. fx_path e = fx_path x) new \<noteq> []" by (auto simp add: filter_empty_conv)
      then obtain e where e: "last_for (fx_path x) new = Some e" by (simp add: last_for_def Let_def)
      then have "hm_get (db_pending d1) (fx_path x) = Some (e, now)"
        using added_events [OF wf, of now new "fx_path x"] by (simp add: d1_def)
      then have "(fx_path x, e, now) \<in> set (db_pending d1)" by (simp only: hm_mem_iff [OF delay(2)])
      moreover have "\<not> is_due now d1 (fx_path x, e, now)" using assms(2) delay by (simp add: is_due_def)
      ultimately have "filter (\<lambda>x. \<not> is_due now d1 x) (db_pending d1) \<noteq> []" by (auto simp add: filter_empty_conv)
      with r show ?thesis by (auto simp add: get_ready_events_def has_pending_def)
    qed
    moreover have "length batch + length ready < wc_batch_size cfg"
      using len d1_len IH(3) snoc.prems(2) kept by simp
    ultimately have "ch' = []" using turn(5) IH(2) by simp
    with turn(4) IH(2) have "batch' = batch @ ready" by simp
    with \<open>ch' = []\<close> turn(1-3) len d1_len IH(3) kept show ?case by (simp add: t st)
  qed
  then show ?thesis by (auto simp add: watch_start_new [OF assms(3), symmetric] split: prod.splits)
qed

theorem busy_path_holds_back_witness:
  "\<exists>fo. new_folder_watcher True default_watcher_config = Inr fo \<and>
     snd (snd (fold (watch_turn (\<lambda>_. None) (\<lambda>x. x))
       [([(1, Some \<lparr>nf_event_kind = NfCreate, nf_paths = [[''a'']]\<rparr>)], 5), ([(9, Some \<lparr>nf_event_kind = NfModify ModifyData, nf_paths = [[''a'']]\<rparr>)], 9000000000)]
       (fo, [], []))) = []"
proof -
  let ?ts = "[([(1 :: date_time, Some \<lparr>nf_event_kind = NfCreate, nf_paths = [[''a'']]\<rparr>)], 5 :: nat),
      ([(9, Some \<lparr>nf_event_kind = NfModify ModifyData, nf_paths = [[''a'']]\<rparr>)], 9000000000)]"
  obtain fo where fo: "new_folder_watcher True default_watcher_config = Inr fo"
    by (simp add: new_folder_watcher_def new_fallback_def)
  have kept: "\<not> should_ignore_path [''a''] (wc_ignore_patterns default_watcher_config)"
    using ignored_by_default_iff [of "[]" "''a''"] by (auto simp add: Cons_eq_append_conv)
  have "\<forall>t\<in>set ?ts. \<exists>e\<in>set (arrivals (\<lambda>_. None) (fst t)). \<not> should_ignore_event default_watcher_config e"
    using kept by (simp add: arrivals_def List.map_filter_def first_event_def should_ignore_event_def event_at_def)
  moreover have "length (kept_events default_watcher_config (\<lambda>_. None) ?ts) < wc_batch_size default_watcher_config"
  proof -
    have "length (kept_events default_watcher_config (\<lambda>_. None) ?ts) \<le> 2"
      unfolding kept_events_def by (rule order_trans [OF length_filter_le])
        (simp add: arrivals_def List.map_filter_def first_event_def)
    then show ?thesis by (simp add: default_watcher_config_def)
  qed
  moreover have "0 < wc_debounce_delay default_watcher_config" by (simp add: default_watcher_config_def)
  ultimately show ?thesis using busy_path_holds_back [OF iter_order_id _ fo, of ?ts "\<lambda>_. None"] fo by blast
qed

section \<open>Events at the indexer\<close>

lemma handle_fs_event_cases:
  assumes "handle_fs_event env now it folders e st = Some (r, st')"
  obtains "st' = st"
  | folder i r1 where "owner_folder it (fx_path e) folders = Some (folder, i)" and "fx_kind e \<noteq> FsRemoved"
      and "index_folder env now folder st = Some (r1, st')" and "r = (case r1 of Inl err \<Rightarrow> Inl (WatchIndex err) | Inr _ \<Rightarrow> Inr ())"
  using assms by (auto simp add: handle_fs_event_def split: option.splits if_splits)

lemma handle_channel_rows:
  "saved_under_root st \<Longrightarrow> handle_channel it folders es st = Some st' \<Longrightarrow>
     saved_under_root st' \<and> set (ix_manifests (in_db st)) \<subseteq> set (ix_manifests (in_db st'))"
proof (induction es arbitrary: st)
  case (Cons x es)
  obtain env now e where x: "x = (env, now, e)" by (cases x)
  with Cons.prems(2) obtain r st1 where s: "handle_fs_event env now it folders e st = Some (r, st1)" "handle_channel it folders es st1 = Some st'"
    by (auto simp add: bind_eq_Some_conv)
  from s(1) have "saved_under_root st1 \<and> set (ix_manifests (in_db st)) \<subseteq> set (ix_manifests (in_db st1))"
    by (cases rule: handle_fs_event_cases) (use Cons.prems(1) index_folder_rows in blast)+
  with Cons.IH s(2) show ?case by blast
qed simp

text \<open>Watching never updates the index: once a folder other than the root directory is indexed,
  every event in it, through whatever the watcher handles in between, either does nothing - a
  removal - or ends in an error of the indexer, and the manifests stay as they are.\<close>

theorem watching_never_updates_the_index:
  assumes "saved_under_root st" and "index_folder env now folder st = Some (Inr m, st1)"
    and "os_canonicalize (n_os env) folder = Some folder" and "path_string folder \<noteq> ''/''"
    and "handle_channel it folders es st1 = Some st2"
    and "n_cas env' = n_cas env" and "os_canonicalize (n_os env') folder = Some folder"
    and "owner_folder it (fx_path e) folders = Some (folder, i)"
    and "handle_fs_event env' now' it folders e st2 = Some (r, st3)"
  shows "ix_manifests (in_db st3) = ix_manifests (in_db st2) \<and>
    (fx_kind e = FsRemoved \<and> r = Inr () \<and> st3 = st2 \<or> (\<exists>err. r = Inl (WatchIndex err)))"
proof (cases "fx_kind e = FsRemoved")
  case True
  with assms(8,9) show ?thesis by (simp add: handle_fs_event_def)
next
  case False
  with assms(8,9) obtain r1 where r1: "index_folder env' now' folder st2 = Some (r1, st3)"
      "r = (case r1 of Inl err \<Rightarrow> Inl (WatchIndex err) | Inr _ \<Rightarrow> Inr ())"
    by (auto simp add: handle_fs_event_def)
  note first = index_folder_rows [OF assms(1,2)]
  note one = index_folder_once [OF assms(1,2,3,4)]
  note between = handle_channel_rows [OF conjunct1 [OF first] assms(5)]
  have "indexed_once env' folder (in_db st2)" using one(2) between assms(6) by (auto simp add: indexed_once_def)
  then obtain err where err: "r1 = Inl err"
    using index_folder_once(3) [OF conjunct1 [OF between] _ assms(7,4)] r1(1) by (cases r1) auto
  have "valid_chunker (in_chunker st2)" using between by (simp add: saved_under_root_def)
  from index_folder_Inl [OF this] r1 err show ?thesis by simp
qed

theorem watching_never_updates_the_index_witness:
  "\<exists>ch m st err st2. index_folder sample_indexer_env 5 [''d''] (sample_indexer ch) = Some (Inr m, st) \<and>
     handle_fs_event sample_indexer_env 6 (\<lambda>x. x) [([''d''], ''id'')] (event_at (\<lambda>_. None) 1 FsModified [''d'', ''a'']) st =
       Some (Inl (WatchIndex err), st2)"
proof -
  obtain ch where ch: "new_chunker default_config = Inr ch"
    by (simp add: new_chunker_def validate_config_def default_config_def)
  obtain m st where f: "index_folder sample_indexer_env 5 [''d''] (sample_indexer ch) = Some (Inr m, st)"
    using sample_indexed [OF ch] by blast
  have ok: "saved_under_root (sample_indexer ch)"
    using new_chunker_valid [OF ch] by (simp add: saved_under_root_def sample_indexer_def new_index_db_def)
  have os: "os_canonicalize (n_os sample_indexer_env) [''d''] = Some [''d'']" "path_string [''d''] \<noteq> ''/''"
    by (simp_all add: sample_indexer_env_def sample_os_def path_string_def)
  have "in_config st = default_indexer_config"
    using index_folder_config [OF f] ok by (simp add: sample_indexer_def saved_under_root_def)
  then have "walk_directory (n_os sample_indexer_env) (in_config st) [''d''] \<noteq> None"
    using walk_lists_tree_sample by (simp add: sample_indexer_env_def)
  moreover have "valid_chunker (in_chunker st)" using index_folder_rows [OF ok f] by (simp add: saved_under_root_def)
  ultimately obtain r st2 where again: "index_folder sample_indexer_env 6 [''d''] st = Some (r, st2)"
    using index_folder_total [of st sample_indexer_env "[''d'']" 6] by fastforce
  let ?e = "event_at (\<lambda>_. None) 1 FsModified [''d'', ''a'']"
  have own: "owner_folder (\<lambda>x. x) (fx_path ?e) [([''d''], ''id'')] = Some ([''d''], ''id'')"
    by (simp add: owner_folder_def event_at_def)
  obtain r2 where h: "handle_fs_event sample_indexer_env 6 (\<lambda>x. x) [([''d''], ''id'')] ?e st = Some (r2, st2)"
    using again own by (simp add: handle_fs_event_def event_at_def)
  have "handle_channel (\<lambda>x. x) [([''d''], ''id'')] [] st = Some st" by simp
  from watching_never_updates_the_index [OF ok f os this refl os(1) own h]
  obtain err where "r2 = Inl (WatchIndex err)" by (auto simp add: event_at_def)
  with f h show ?thesis by blast
qed

end
