(* ===== verification/Watcher.thy ===== *)
theory Watcher
  imports Daemon
begin

text \<open>
  Checks of paths, sizes and names in the daemon (\<open>landro-daemon/src/security.rs\<close>) and its file
  watcher (\<open>landro-daemon/src/watcher.rs\<close>), whose batches go to the actor of theory \<open>Daemon\<close>.

  Canonical paths, Unicode lower-casing beyond ASCII and the \<open>notify\<close> crate are parameters;
  names are valid UTF-8.  A watcher is started once, as all its callers do.  The background task
  is a machine whose inputs are what it can meet in any order: its own start, a stop, and one
  round of its loop with what \<open>recv_timeout\<close> gave and the instant after it, in nanoseconds.
\<close>

section \<open>Checks\<close>

definition max_chunk_size :: nat where
  "max_chunk_size = 16 * 1024 * 1024"

definition max_path_depth :: nat where
  "max_path_depth = 32"

definition max_filename_length :: nat where
  "max_filename_length = 255"

definition file_name :: "fs_path \<Rightarrow> string option" where
  "file_name p = (if p = [] then None else Some (last p))"

text \<open>\<open>Path::join\<close> with a relative path.\<close>

definition join_path :: "fs_path \<Rightarrow> string \<Rightarrow> string" where
  "join_path base requested =
     (if base = [] then ''/'' @ requested else path_string base @ ''/'' @ requested)"

text \<open>The root directory is a component of its own.\<close>

definition validate_path ::
  "(string \<Rightarrow> string + fs_path) \<Rightarrow> string \<Rightarrow> string \<Rightarrow> string + fs_path" where
  "validate_path canonicalize base requested =
     (case canonicalize base of
        Inl e \<Rightarrow> Inl (''Failed to canonicalize base path '' @ base @ '': '' @ e)
      | Inr canonical_base \<Rightarrow>
          if starts_with requested ''/'' then Inl (''Absolute paths not allowed: '' @ requested)
          else
            let combined = join_path canonical_base requested in
            (case canonicalize combined of
               Inl e \<Rightarrow> Inl (''Failed to canonicalize path '' @ combined @ '': '' @ e)
             | Inr canonical \<Rightarrow>
                 if take (length canonical_base) canonical \<noteq> canonical_base
                 then Inl ''Path traversal attempt: path escapes base directory''
                 else
                   let depth = Suc (length canonical) in
                   if depth > max_path_depth
                   then Inl (''Path too deep: '' @ show_nat depth @ '' levels (max '' @ show_nat max_path_depth @ '')'')
                   else
                     (case file_name canonical of
                        Some n \<Rightarrow>
                          if length n > max_filename_length
                          then Inl (''Filename too long: '' @ show_nat (length n) @ '' bytes (max '' @
                            show_nat max_filename_length @ '')'')
                          else Inr canonical
                      | None \<Rightarrow> Inr canonical)))"

definition validate_chunk_size :: "nat \<Rightarrow> string + unit" where
  "validate_chunk_size n =
     (if n = 0 then Inl ''Chunk size cannot be zero''
      else if n > max_chunk_size
      then Inl (''Chunk size '' @ show_nat n @ '' exceeds maximum '' @ show_nat max_chunk_size @ '' bytes'')
      else Inr ())"

definition validate_device_name :: "string \<Rightarrow> string + unit" where
  "validate_device_name n =
     (if n = [] then Inl ''Device name cannot be empty''
      else if length n > 64 then Inl (''Device name too long: '' @ show_nat (length n) @ '' chars (max 64)'')
      else if CHR ''/'' \<in> set n \<or> CHR 0x5C \<in> set n \<or> CHR 0x00 \<in> set n
      then Inl ''Device name contains invalid characters''
      else if list_ex is_control (utf8_chars n) then Inl ''Device name contains control characters''
      else Inr ())"

text \<open>\<open>char::is_whitespace\<close>: the code points with Unicode's \<open>White_Space\<close> property.\<close>

definition white_space :: "nat \<Rightarrow> bool" where
  "white_space c \<longleftrightarrow> (9 \<le> c \<and> c \<le> 13) \<or> c = 32 \<or> c = 133 \<or> c = 160 \<or> c = 5760 \<or>
     (8192 \<le> c \<and> c \<le> 8202) \<or> c = 8232 \<or> c = 8233 \<or> c = 8239 \<or> c = 8287 \<or> c = 12288"

text \<open>The characters of the result.\<close>

definition sanitize_for_log :: "string \<Rightarrow> nat list" where
  "sanitize_for_log s = take 1000 (filter (\<lambda>c. \<not> is_control c \<or> white_space c) (utf8_chars s))"

definition ascii_lower :: "char \<Rightarrow> char" where
  "ascii_lower c = (let n = of_char c :: nat in if 65 \<le> n \<and> n \<le> 90 then char_of (n + 32) else c)"

definition to_lowercase :: "(string \<Rightarrow> string) \<Rightarrow> string \<Rightarrow> string" where
  "to_lowercase uni s = (if list_all (\<lambda>c. of_char c < (128 :: nat)) s then map ascii_lower s else uni s)"

definition sensitive_patterns :: "string list" where
  "sensitive_patterns =
     [''/etc'', ''/sys'', ''/proc'', ''/dev'', ''/.ssh'', ''/.gnupg'', ''/.aws'', ''/.kube'',
      ''/private/etc'', ''/system'', ''/library/keychains'',
      ''c:'' @ CHR 0x5C # ''windows'' @ CHR 0x5C # ''system32'', ''c:'' @ CHR 0x5C # ''program files'']"

definition is_sensitive_path :: "(string \<Rightarrow> string) \<Rightarrow> fs_path \<Rightarrow> bool" where
  "is_sensitive_path uni p \<longleftrightarrow>
     list_ex (\<lambda>pattern. contains_sub pattern (to_lowercase uni (path_string p))) sensitive_patterns \<or>
     (case file_name p of Some n \<Rightarrow> starts_with n ''.'' | None \<Rightarrow> False)"

section \<open>Events\<close>

datatype notify_kind = NotifyCreate | NotifyModify | NotifyRemove | NotifyOtherKind

record notify_event =
  ne_kind :: notify_kind
  ne_paths :: "fs_path list"

definition is_temporary :: "fs_path \<Rightarrow> bool" where
  "is_temporary p =
     (case file_name p of
        Some n \<Rightarrow> starts_with n ''.'' \<or>
          ends_with n ''~'' \<or> ends_with n ''.tmp'' \<or> ends_with n ''.swp'' \<or>
          (starts_with n ''#'' \<and> ends_with n ''#'')
      | None \<Rightarrow> False)"

definition convert_path :: "notify_kind \<Rightarrow> fs_path \<Rightarrow> file_event option" where
  "convert_path k p =
     (if is_temporary p then None
      else case k of
        NotifyCreate \<Rightarrow> Some \<lparr>ev_path = p, ev_kind = Created\<rparr>
      | NotifyModify \<Rightarrow> Some \<lparr>ev_path = p, ev_kind = Modified\<rparr>
      | NotifyRemove \<Rightarrow> Some \<lparr>ev_path = p, ev_kind = Deleted\<rparr>
      | NotifyOtherKind \<Rightarrow> None)"

definition convert_notify_event :: "notify_event \<Rightarrow> file_event list option" where
  "convert_notify_event e =
     (let es = List.map_filter (convert_path (ne_kind e)) (ne_paths e) in
      if es = [] then None else Some es)"

section \<open>The watcher\<close>

definition batch_timeout :: nat where
  "batch_timeout = 100 * 1000000"

datatype recv_outcome = Event notify_event | Timeout | Disconnected

datatype watch_phase = Spawned | Looping | Ended

text \<open>\<open>wt_delivered\<close> is what the callback was called with; \<open>wt_running\<close> is the flag the watcher
  and its task share.\<close>

record watch_task =
  wt_running :: bool
  wt_phase :: watch_phase
  wt_pending :: "file_event list"
  wt_last_batch :: nat
  wt_delivered :: "file_event list list"

record file_watcher =
  fw_path :: fs_path
  fw_task :: watch_task

definition new_watcher :: "fs_path \<Rightarrow> file_watcher" where
  "new_watcher p = \<lparr>fw_path = p, fw_task =
     \<lparr>wt_running = False, wt_phase = Ended, wt_pending = [], wt_last_batch = 0, wt_delivered = []\<rparr>\<rparr>"

text \<open>\<open>created\<close> and \<open>watched\<close> say whether \<open>notify\<close> could create its watcher and watch the path.\<close>

definition start_watcher ::
  "(string \<Rightarrow> string) \<Rightarrow> bool \<Rightarrow> (fs_path \<Rightarrow> bool) \<Rightarrow> file_watcher \<Rightarrow> (string + unit) \<times> file_watcher" where
  "start_watcher uni created watched w =
     (if is_sensitive_path uni (fw_path w) then (Inl ''Cannot watch sensitive system directory'', w)
      else if \<not> created \<or> \<not> watched (fw_path w) then (Inl ''notify'', w)
      else (Inr (), w\<lparr>fw_task := (fw_task w)\<lparr>wt_phase := Spawned\<rparr>\<rparr>))"

definition end_loop :: "watch_task \<Rightarrow> watch_task" where
  "end_loop t = t\<lparr>wt_phase := Ended, wt_pending := [],
     wt_delivered := wt_delivered t @ (if wt_pending t = [] then [] else [wt_pending t])\<rparr>"

fun on_receive :: "recv_outcome \<Rightarrow> nat \<Rightarrow> watch_task \<Rightarrow> watch_task" where
  "on_receive (Event e) now t =
     (case convert_notify_event e of
        Some es \<Rightarrow> t\<lparr>wt_pending := wt_pending t @ es\<rparr>
      | None \<Rightarrow> t)"
| "on_receive Timeout now t =
     (if wt_pending t \<noteq> [] \<and> now - wt_last_batch t \<ge> batch_timeout
      then t\<lparr>wt_pending := [], wt_delivered := wt_delivered t @ [wt_pending t], wt_last_batch := now\<rparr>
      else t)"
| "on_receive Disconnected now t = end_loop t"

datatype watch_input = TaskStarts nat | StopTask | Round recv_outcome nat

text \<open>Inputs a task is not waiting for leave it as it is.\<close>

fun watch_step :: "watch_input \<Rightarrow> watch_task \<Rightarrow> watch_task" where
  "watch_step (TaskStarts now) t =
     (if wt_phase t = Spawned
      then t\<lparr>wt_running := True, wt_phase := Looping, wt_pending := [], wt_last_batch := now\<rparr> else t)"
| "watch_step StopTask t = t\<lparr>wt_running := False\<rparr>"
| "watch_step (Round r now) t =
     (if wt_phase t \<noteq> Looping then t
      else if \<not> wt_running t then end_loop t
      else on_receive r now t)"

definition is_running :: "file_watcher \<Rightarrow> bool" where
  "is_running w \<longleftrightarrow> wt_running (fw_task w)"

section \<open>What the checks accept\<close>

lemma file_name_length_iff:
  "(case file_name p of Some n \<Rightarrow> length n \<le> max_filename_length | None \<Rightarrow> True) \<longleftrightarrow>
     p = [] \<or> length (last p) \<le> max_filename_length"
  by (simp add: file_name_def)

text \<open>A request is accepted exactly when it is relative, exists, and what it stands for, links
  and dots resolved, lies in the base directory at most 31 names below the root with a last name
  of at most 255 bytes; so a base directory 32 names deep accepts nothing.\<close>

theorem validated_path_stays_in_base:
  "(validate_path canonicalize base requested = Inr p \<longleftrightarrow>
     (\<exists>cb rest. canonicalize base = Inr cb \<and> \<not> starts_with requested ''/'' \<and>
        canonicalize (join_path cb requested) = Inr p \<and> p = cb @ rest \<and> length p < 32 \<and>
        (p = [] \<or> length (last p) \<le> 255))) \<and>
   (canonicalize base = Inr deep \<and> length deep \<ge> 32 \<longrightarrow> (\<exists>e. validate_path canonicalize base requested = Inl e))"
proof -
  have ok: "validate_path canonicalize base requested = Inr p \<longleftrightarrow>
     (\<exists>cb rest. canonicalize base = Inr cb \<and> \<not> starts_with requested ''/'' \<and>
        canonicalize (join_path cb requested) = Inr p \<and> p = cb @ rest \<and> length p < 32 \<and>
        (p = [] \<or> length (last p) \<le> 255))" for p
  proof (cases "canonicalize base")
    case (Inr cb)
    have pre: "take (length cb) q = cb \<longleftrightarrow> (\<exists>rest. q = cb @ rest)" for q :: fs_path
      by (metis append_eq_conv_conj)
    show ?thesis
      using Inr by (cases "canonicalize (join_path cb requested)")
        (auto simp add: validate_path_def Let_def pre file_name_def max_path_depth_def
          max_filename_length_def split: if_splits)
  qed (simp add: validate_path_def)
  have "\<exists>e. validate_path canonicalize base requested = Inl e"
    if deep: "canonicalize base = Inr deep" "length deep \<ge> 32"
  proof (cases "validate_path canonicalize base requested")
    case (Inr q)
    with deep ok [of q] show ?thesis by auto
  qed blast
  with ok show ?thesis by blast
qed

theorem validated_path_stays_in_base_witness:
  "\<exists>e. validate_path (\<lambda>_. Inr (replicate 32 ''d'')) ''/base'' ''f'' = Inl e"
  using validated_path_stays_in_base [of "\<lambda>_. Inr (replicate 32 ''d'')" "''/base''" "''f''" "[]" "replicate 32 ''d''"]
  by simp

section \<open>The task against an unbatched queue\<close>

text \<open>What a task does if batching is forgotten: it appends the converted events it receives.\<close>

type_synonym queue_state = "watch_phase \<times> bool \<times> file_event list"

definition converted :: "notify_event \<Rightarrow> file_event list" where
  "converted e = List.map_filter (convert_path (ne_kind e)) (ne_paths e)"

fun queue_step :: "watch_input \<Rightarrow> queue_state \<Rightarrow> queue_state" where
  "queue_step (TaskStarts now) (ph, b, es) = (if ph = Spawned then (Looping, True, es) else (ph, b, es))"
| "queue_step StopTask (ph, b, es) = (ph, False, es)"
| "queue_step (Round r now) (ph, b, es) =
     (if ph \<noteq> Looping then (ph, b, es)
      else if \<not> b then (Ended, b, es)
      else case r of Event e \<Rightarrow> (ph, b, es @ converted e) | Timeout \<Rightarrow> (ph, b, es) | Disconnected \<Rightarrow> (Ended, b, es))"

definition queue_of :: "watch_task \<Rightarrow> queue_state" where
  "queue_of t = (wt_phase t, wt_running t, concat (wt_delivered t) @ wt_pending t)"

definition task_ok :: "watch_task \<Rightarrow> bool" where
  "task_ok t \<longleftrightarrow> [] \<notin> set (wt_delivered t) \<and> (wt_phase t \<noteq> Looping \<longrightarrow> wt_pending t = [])"

lemma convert_notify_event_converted:
  "convert_notify_event e = (if converted e = [] then None else Some (converted e))"
  by (simp add: convert_notify_event_def converted_def Let_def)

lemma end_loop_simps [simp]:
  "wt_phase (end_loop t) = Ended" "wt_running (end_loop t) = wt_running t" "wt_pending (end_loop t) = []"
  "concat (wt_delivered (end_loop t)) = concat (wt_delivered t) @ wt_pending t"
  "[] \<in> set (wt_delivered (end_loop t)) \<longleftrightarrow> [] \<in> set (wt_delivered t)"
  by (auto simp add: end_loop_def)

lemma task_ok_on_receive:
  "task_ok t \<Longrightarrow> wt_phase t = Looping \<Longrightarrow> task_ok (on_receive r now t)"
  by (cases r) (auto simp add: task_ok_def split: option.split)

lemma queue_of_on_receive:
  assumes "wt_phase t = Looping" and "wt_running t"
  shows "queue_of (on_receive r now t) = queue_step (Round r now) (queue_of t)"
  using assms by (cases r) (auto simp add: queue_of_def convert_notify_event_converted)

lemma task_ok_step: "task_ok t \<Longrightarrow> task_ok (watch_step i t)"
  by (cases i) (auto simp add: task_ok_on_receive, auto simp add: task_ok_def)

lemma queue_of_step: "task_ok t \<Longrightarrow> queue_of (watch_step i t) = queue_step i (queue_of t)"
  by (cases i) (auto simp add: queue_of_on_receive, auto simp add: queue_of_def task_ok_def)

interpretation watching: simulation watch_step task_ok queue_step queue_of
  by unfold_locales (simp_all add: task_ok_step queue_of_step)

definition started_task :: watch_task where
  "started_task = \<lparr>wt_running = False, wt_phase = Spawned, wt_pending = [], wt_last_batch = 0, wt_delivered = []\<rparr>"

lemma started_task_ok: "task_ok started_task"
  by (simp add: task_ok_def started_task_def)

lemma start_watcher_task:
  assumes "start_watcher uni created watched (new_watcher p) = (Inr (), w)"
  shows "fw_task w = started_task" and "\<not> is_sensitive_path uni p" and "fw_path w = p"
  using assms by (auto simp add: start_watcher_def new_watcher_def started_task_def split: if_splits)

lemma queue_of_fold: "queue_of (fold watch_step is started_task) = fold queue_step is (Spawned, False, [])"
proof -
  have "queue_of started_task = (Spawned, False, [])" by (simp add: queue_of_def started_task_def)
  with watching.abs_fold [OF started_task_ok, of "is"] show ?thesis by simp
qed

text \<open>Batching changes nothing: whatever the task meets, the events its callback was given and
  those that wait are, in order, the events of an unbatched queue; no batch is empty; and when the
  loop has ended none waits.\<close>

theorem batches_are_the_queue:
  "(let t = fold watch_step is started_task in
    queue_of t = fold queue_step is (Spawned, False, []) \<and> [] \<notin> set (wt_delivered t) \<and>
    (wt_phase t = Ended \<longrightarrow> concat (wt_delivered t) = snd (snd (fold queue_step is (Spawned, False, [])))))"
proof -
  have "task_ok (fold watch_step is started_task)"
    by (rule watching.inv_fold [OF started_task_ok])
  moreover note queue_of_fold [of "is"]
  moreover from this have "snd (snd (fold queue_step is (Spawned, False, []))) =
      concat (wt_delivered (fold watch_step is started_task)) @ wt_pending (fold watch_step is started_task)"
    by (metis queue_of_def snd_conv)
  ultimately show ?thesis by (auto simp add: Let_def task_ok_def)
qed

section \<open>When events are delivered\<close>

definition event_round :: "notify_event \<times> nat \<Rightarrow> watch_input" where
  "event_round = (\<lambda>(e, now). Round (Event e) now)"

lemma event_rounds:
  assumes "wt_phase t = Looping" and "wt_running t"
  shows "fold watch_step (map event_round es) t =
    t\<lparr>wt_pending := wt_pending t @ concat (map (converted \<circ> fst) es)\<rparr>"
  using assms
  by (induction es arbitrary: t)
    (auto simp add: event_round_def convert_notify_event_converted split: prod.split)

text \<open>While events keep coming nothing is delivered, however many there are and however long it
  takes; the first 100 milliseconds without one deliver all that waits in a single batch.\<close>

theorem quiet_moment_delivers:
  assumes "wt_phase t = Looping" and "wt_running t"
    and "now \<ge> wt_last_batch t + batch_timeout"
  shows "(let busy = fold watch_step (map event_round es) t;
              quiet = watch_step (Round Timeout now) busy;
              all = wt_pending t @ concat (map (converted \<circ> fst) es) in
    wt_delivered busy = wt_delivered t \<and> wt_pending busy = all \<and>
    wt_delivered quiet = wt_delivered t @ (if all = [] then [] else [all]) \<and> wt_pending quiet = [])"
proof -
  have "batch_timeout \<le> now - wt_last_batch t" using assms(3) by arith
  with assms(1,2) show ?thesis by (simp add: event_rounds Let_def)
qed

theorem quiet_moment_delivers_witness:
  "wt_delivered (watch_step (Round Timeout 500000000)
     (fold watch_step (map event_round
        [(\<lparr>ne_kind = NotifyCreate, ne_paths = [[''a'']]\<rparr>, 1), (\<lparr>ne_kind = NotifyModify, ne_paths = [[''b.tmp''], [''a'']]\<rparr>, 2)])
       (watch_step (TaskStarts 0) started_task))) =
   [[\<lparr>ev_path = [''a''], ev_kind = Created\<rparr>, \<lparr>ev_path = [''a''], ev_kind = Modified\<rparr>]]"
  using quiet_moment_delivers [of "watch_step (TaskStarts 0) started_task" 500000000
    "[(\<lparr>ne_kind = NotifyCreate, ne_paths = [[''a'']]\<rparr>, 1), (\<lparr>ne_kind = NotifyModify, ne_paths = [[''b.tmp''], [''a'']]\<rparr>, 2)]"]
  by (simp add: started_task_def batch_timeout_def Let_def converted_def convert_path_def is_temporary_def
      file_name_def starts_with_def ends_with_def List.map_filter_def)

text \<open>The watcher of \<open>notify\<close> is a local of \<open>start\<close> and is dropped at its end; \<open>notify\<close> then
  closes the channel, and once its buffer is empty \<open>recv_timeout\<close> gives \<open>Disconnected\<close>.\<close>

lemma ended_stays: "wt_phase t = Ended \<Longrightarrow>
    wt_phase (fold watch_step js t) = Ended \<and> wt_delivered (fold watch_step js t) = wt_delivered t \<and>
    (StopTask \<notin> set js \<longrightarrow> wt_running (fold watch_step js t) = wt_running t)"
proof (induction js arbitrary: t)
  case (Cons i js)
  have step: "wt_phase (watch_step i t) = Ended" "wt_delivered (watch_step i t) = wt_delivered t"
      "i \<noteq> StopTask \<Longrightarrow> wt_running (watch_step i t) = wt_running t"
    using Cons.prems by (cases i; simp)+
  with Cons.IH [OF step(1)] show ?case by auto
qed simp

text \<open>After the channel is closed the watcher is deaf: what arrived before is delivered in one
  batch, nothing is delivered ever after, and the watcher still reports that it is running until it
  is stopped.\<close>

theorem closed_channel_deafens:
  assumes "start_watcher uni created watched (new_watcher p) = (Inr (), w)"
    and "StopTask \<notin> set js"
  shows "(let t = fold watch_step js (watch_step (Round Disconnected n)
             (fold watch_step (map event_round es) (watch_step (TaskStarts n0) (fw_task w)))) in
    wt_delivered t = (if concat (map (converted \<circ> fst) es) = [] then []
      else [concat (map (converted \<circ> fst) es)]) \<and>
    wt_phase t = Ended \<and> is_running (w\<lparr>fw_task := t\<rparr>))"
proof -
  have "fw_task w = started_task" by (rule start_watcher_task [OF assms(1)])
  define u where "u = end_loop (started_task\<lparr>wt_running := True, wt_phase := Looping, wt_last_batch := n0,
       wt_pending := concat (map (converted \<circ> fst) es)\<rparr>)"
  from \<open>fw_task w = started_task\<close> have t: "watch_step (Round Disconnected n)
       (fold watch_step (map event_round es) (watch_step (TaskStarts n0) (fw_task w))) = u"
    by (simp add: u_def event_rounds started_task_def)
  have u: "wt_phase u = Ended" "wt_running u"
      "wt_delivered u = (if concat (map (converted \<circ> fst) es) = [] then [] else [concat (map (converted \<circ> fst) es)])"
    by (simp_all only: u_def end_loop_def) (simp_all add: started_task_def)
  show ?thesis
    using ended_stays [OF u(1), of js] assms(2) u(2) by (simp only: t Let_def is_running_def u(3)) simp
qed

lemma sample_watch_start: "start_watcher (\<lambda>s. s) True (\<lambda>_. True) (new_watcher [''a'']) =
    (Inr (), (new_watcher [''a''])\<lparr>fw_task := started_task\<rparr>)"
  by (simp add: start_watcher_def new_watcher_def started_task_def is_sensitive_path_def sensitive_patterns_def
      to_lowercase_def ascii_lower_def path_string_def file_name_def starts_with_def)

theorem closed_channel_deafens_witness:
  "wt_delivered (fold watch_step [Round (Event \<lparr>ne_kind = NotifyCreate, ne_paths = [[''a'', ''b'']]\<rparr>) 9, Round Timeout 900000000]
     (watch_step (Round Disconnected 2) (fold watch_step (map event_round []) (watch_step (TaskStarts 1) started_task)))) = []"
  using closed_channel_deafens [OF sample_watch_start, of
    "[Round (Event \<lparr>ne_kind = NotifyCreate, ne_paths = [[''a'', ''b'']]\<rparr>) 9, Round Timeout 900000000]"
    2 "[]" 1]
  by (simp add: Let_def del: fold_simps watch_step.simps)

section \<open>From the watcher to the actor\<close>

text \<open>The callback of the daemon sends each batch as one message; the channel keeps their order.\<close>

fun send_batches :: "'c daemon_env \<Rightarrow> file_event list list \<Rightarrow> 'c daemon \<Rightarrow> 'c daemon option" where
  "send_batches env [] st = Some st"
| "send_batches env (b # bs) st =
     Option.bind (handle_message env (FileChangesBatch b) st) (\<lambda>(r, st1). send_batches env bs st1)"

lemma send_batches_buffer:
  "send_batches env bs st = Some (st\<lparr>dm_debounce_buffer := dm_debounce_buffer st @ concat bs\<rparr>)"
  by (induction bs arbitrary: st) simp_all

definition quiet_or_event :: "notify_event option \<times> nat \<Rightarrow> watch_input" where
  "quiet_or_event = (\<lambda>(r, now). Round (case r of Some e \<Rightarrow> Event e | None \<Rightarrow> Timeout) now)"

lemma queue_rounds:
  "fold queue_step (map quiet_or_event rs) (Looping, True, es) =
     (Looping, True, es @ concat (map converted (List.map_filter fst rs)))"
  by (induction rs arbitrary: es)
    (auto simp add: quiet_or_event_def List.map_filter_def split: option.split)


end
