(* ===== verification/Reconnect.thy ===== *)
theory Reconnect
  imports Pool
begin

text \<open>
  The reconnection manager (\<open>landro-quic/src/reconnection_manager.rs\<close>), on the pool of theory
  \<open>Pool\<close>.

  A reconnection task is a program counter with the awaits of its loop as the steps, so that every
  interleaving with the manager's operations and with other tasks is a list of inputs.  Each input
  lets some time pass first; a sleeping task is not run before its time, so its step moves the clock
  there.  Times are nanoseconds.  What a connect attempt gives is part of the input.  The product of
  a delay and the multiplier, and the jitter drawn for a delay, are floating-point results cut to
  milliseconds: parameters.  The monitoring task, which only logs, is left out.
\<close>

section \<open>Peers\<close>

datatype connection_state = Connected | Connecting | Reconnecting | Failed | Backoff

record reconnection_config =
  rc_initial_retry_delay :: nat
  rc_max_retry_delay :: nat
  rc_max_retry_attempts :: u32
  rc_connection_timeout :: nat
  rc_health_check_interval :: nat
  rc_enable_jitter :: bool

definition default_reconnection_config :: reconnection_config where
  "default_reconnection_config = \<lparr>rc_initial_retry_delay = 100 * 1000000,
     rc_max_retry_delay = 30 * 1000000000, rc_max_retry_attempts = 10,
     rc_connection_timeout = 10 * 1000000000, rc_health_check_interval = 5 * 1000000000,
     rc_enable_jitter = True\<rparr>"

text \<open>\<open>rf_scale\<close> is the product with the multiplier, \<open>rf_jitter\<close> the jitter of an attempt.\<close>

record reconnection_floats =
  rf_scale :: "nat \<Rightarrow> nat"
  rf_jitter :: "nat \<Rightarrow> nat"

record 'c peer_state =
  ps_addr :: string
  ps_state :: connection_state
  ps_retry_count :: u32
  ps_last_attempt :: "nat option"
  ps_last_success :: "nat option"
  ps_current_delay :: nat
  ps_connection :: "'c option"
  ps_failure_reason :: "string option"

definition millis :: "nat \<Rightarrow> nat" where
  "millis n = n * 1000000"

definition as_millis :: "nat \<Rightarrow> nat" where
  "as_millis d = d div 1000000"

definition new_peer_state :: "nat \<Rightarrow> string \<Rightarrow> 'c peer_state" where
  "new_peer_state now addr = \<lparr>ps_addr = addr, ps_state = Connected, ps_retry_count = 0,
     ps_last_attempt = None, ps_last_success = Some now, ps_current_delay = millis 100,
     ps_connection = None, ps_failure_reason = None\<rparr>"

definition is_ready_for_retry :: "reconnection_config \<Rightarrow> nat \<Rightarrow> 'c peer_state \<Rightarrow> bool" where
  "is_ready_for_retry cfg now p \<longleftrightarrow>
     (if ps_retry_count p \<ge> rc_max_retry_attempts cfg then False
      else case ps_last_attempt p of
        Some t \<Rightarrow> now - t \<ge> ps_current_delay p
      | None \<Rightarrow> True)"

definition next_delay :: "reconnection_config \<Rightarrow> reconnection_floats \<Rightarrow> nat \<Rightarrow> nat" where
  "next_delay cfg fl d =
     (let capped = min (millis (rf_scale fl (as_millis d))) (rc_max_retry_delay cfg) in
      if rc_enable_jitter cfg then millis (as_millis capped + rf_jitter fl (as_millis capped)) else capped)"

definition start_retry_attempt ::
  "reconnection_config \<Rightarrow> reconnection_floats \<Rightarrow> nat \<Rightarrow> 'c peer_state \<Rightarrow> 'c peer_state" where
  "start_retry_attempt cfg fl now p = p\<lparr>ps_retry_count := ps_retry_count p + 1, ps_last_attempt := Some now,
     ps_state := Reconnecting, ps_current_delay := next_delay cfg fl (ps_current_delay p)\<rparr>"

definition mark_success :: "nat \<Rightarrow> 'c \<Rightarrow> 'c peer_state \<Rightarrow> 'c peer_state" where
  "mark_success now c p = p\<lparr>ps_state := Connected, ps_retry_count := 0, ps_last_success := Some now,
     ps_current_delay := millis 100, ps_connection := Some c, ps_failure_reason := None\<rparr>"

definition mark_failed :: "string \<Rightarrow> 'c peer_state \<Rightarrow> 'c peer_state" where
  "mark_failed reason p = p\<lparr>ps_state := Failed, ps_connection := None, ps_failure_reason := Some reason\<rparr>"

definition mark_backoff :: "'c peer_state \<Rightarrow> 'c peer_state" where
  "mark_backoff p = p\<lparr>ps_state := Backoff\<rparr>"

section \<open>The manager and its tasks\<close>

text \<open>Where a task is: at the check, before the write that starts an attempt, in the attempt,
  before the pool gets the connection, before the delay is read, asleep, and out of the loop.\<close>

datatype 'c task_pc =
    AtCheck | AtStart | AtConnect | AtPool 'c | AtDelay | Asleep nat | Leaving

record 'c reconnection_manager =
  rm_clock :: nat
  rm_config :: reconnection_config
  rm_pool :: "'c pool"
  rm_peers :: "(string, 'c peer_state) hmap"
  rm_tasks :: "(string, 'c task_pc) hmap"
  rm_running :: bool

definition new_reconnection_manager ::
  "nat \<Rightarrow> 'c pool \<Rightarrow> reconnection_config \<Rightarrow> 'c reconnection_manager" where
  "new_reconnection_manager now pool cfg = \<lparr>rm_clock = now, rm_config = cfg, rm_pool = pool,
     rm_peers = [], rm_tasks = [], rm_running = False\<rparr>"

definition start_manager :: "'c reconnection_manager \<Rightarrow> 'c reconnection_manager" where
  "start_manager m = m\<lparr>rm_running := True\<rparr>"

definition stop_manager :: "'c reconnection_manager \<Rightarrow> 'c reconnection_manager" where
  "stop_manager m = m\<lparr>rm_running := False, rm_tasks := []\<rparr>"

definition with_peer ::
  "string \<Rightarrow> ('c peer_state \<Rightarrow> 'c peer_state) \<Rightarrow> 'c reconnection_manager \<Rightarrow> 'c reconnection_manager" where
  "with_peer addr f m = m\<lparr>rm_peers := hm_modify addr f (rm_peers m)\<rparr>"

definition with_entry ::
  "string \<Rightarrow> ('c peer_state \<Rightarrow> 'c peer_state) \<Rightarrow> 'c reconnection_manager \<Rightarrow> 'c reconnection_manager" where
  "with_entry addr f m =
     m\<lparr>rm_peers := hm_modify addr f (hm_or_insert addr (new_peer_state (rm_clock m) addr) (rm_peers m))\<rparr>"

definition track_peer :: "string \<Rightarrow> 'c \<Rightarrow> 'c reconnection_manager \<Rightarrow> 'c reconnection_manager" where
  "track_peer addr c m = with_entry addr (mark_success (rm_clock m) c) m"

definition is_reconnection_active :: "string \<Rightarrow> 'c reconnection_manager \<Rightarrow> bool" where
  "is_reconnection_active addr m \<longleftrightarrow> hm_has (rm_tasks m) addr"

definition set_task :: "string \<Rightarrow> 'c task_pc \<Rightarrow> 'c reconnection_manager \<Rightarrow> 'c reconnection_manager" where
  "set_task addr pc m = m\<lparr>rm_tasks := hm_put addr pc (rm_tasks m)\<rparr>"

text \<open>The peers are locked until the new task is registered, so the task cannot be done before.\<close>

definition report_connection_failure ::
  "string \<Rightarrow> string \<Rightarrow> 'c reconnection_manager \<Rightarrow> 'c reconnection_manager" where
  "report_connection_failure addr reason m =
     (let m1 = with_entry addr (mark_failed reason) m in
      if is_reconnection_active addr m1 then m1 else set_task addr AtCheck m1)"

definition get_peer_state :: "string \<Rightarrow> 'c reconnection_manager \<Rightarrow> 'c peer_state option" where
  "get_peer_state addr m = hm_get (rm_peers m) addr"

datatype 'c connect_outcome = ConnectOk 'c | ConnectError string | ConnectTimeout

definition should_continue :: "'c reconnection_manager \<Rightarrow> string \<Rightarrow> bool" where
  "should_continue m addr \<longleftrightarrow>
     (case hm_get (rm_peers m) addr of
        Some p \<Rightarrow> is_ready_for_retry (rm_config m) (rm_clock m) p \<and> ps_state p \<noteq> Connected
      | None \<Rightarrow> False)"

fun task_step ::
  "reconnection_floats \<Rightarrow> string \<Rightarrow> 'c connect_outcome \<Rightarrow> 'c task_pc \<Rightarrow> 'c reconnection_manager \<Rightarrow>
   'c reconnection_manager" where
  "task_step fl addr out AtCheck m =
     set_task addr (if should_continue m addr then AtStart else Leaving) m"
| "task_step fl addr out AtStart m =
     set_task addr AtConnect (with_peer addr (start_retry_attempt (rm_config m) fl (rm_clock m)) m)"
| "task_step fl addr out AtConnect m =
     (case out of
        ConnectOk c \<Rightarrow> set_task addr (AtPool c) (with_peer addr (mark_success (rm_clock m) c) m)
      | ConnectError e \<Rightarrow>
          (case hm_get (rm_peers m) addr of
             Some p \<Rightarrow>
               if ps_retry_count p \<ge> rc_max_retry_attempts (rm_config m)
               then set_task addr Leaving
                 (with_peer addr (mark_failed (''Max retry attempts exceeded: '' @ e)) m)
               else set_task addr AtDelay (with_peer addr mark_backoff m)
           | None \<Rightarrow> set_task addr AtDelay m)
      | ConnectTimeout \<Rightarrow> set_task addr AtDelay (with_peer addr mark_backoff m))"
| "task_step fl addr out (AtPool c) m =
     set_task addr Leaving (m\<lparr>rm_pool := add_to_pool (rm_clock m) addr c (rm_pool m)\<rparr>)"
| "task_step fl addr out AtDelay m =
     set_task addr (Asleep (rm_clock m +
       (case hm_get (rm_peers m) addr of Some p \<Rightarrow> ps_current_delay p | None \<Rightarrow> 5 * 1000000000))) m"
| "task_step fl addr out (Asleep t) m = set_task addr AtCheck (m\<lparr>rm_clock := max (rm_clock m) t\<rparr>)"
| "task_step fl addr out Leaving m = m\<lparr>rm_tasks := hm_del addr (rm_tasks m)\<rparr>"

datatype 'c manager_input =
    Start
  | Stop
  | Track string 'c
  | Report string string
  | RunTask reconnection_floats string "'c connect_outcome"

definition pass_time :: "nat \<Rightarrow> 'c reconnection_manager \<Rightarrow> 'c reconnection_manager" where
  "pass_time dt m = m\<lparr>rm_clock := rm_clock m + dt\<rparr>"

fun perform :: "'c manager_input \<Rightarrow> 'c reconnection_manager \<Rightarrow> 'c reconnection_manager" where
  "perform Start m = start_manager m"
| "perform Stop m = stop_manager m"
| "perform (Track addr c) m = track_peer addr c m"
| "perform (Report addr reason) m = report_connection_failure addr reason m"
| "perform (RunTask fl addr out) m =
     (case hm_get (rm_tasks m) addr of Some pc \<Rightarrow> task_step fl addr out pc m | None \<Rightarrow> m)"

definition manager_step :: "nat \<times> 'c manager_input \<Rightarrow> 'c reconnection_manager \<Rightarrow> 'c reconnection_manager" where
  "manager_step i m = perform (snd i) (pass_time (fst i) m)"

section \<open>Statistics\<close>

record reconnection_stats =
  rs_total_peers :: nat
  rs_connected_peers :: nat
  rs_reconnecting_peers :: nat
  rs_failed_peers :: nat
  rs_total_reconnections :: nat
  rs_successful_reconnections :: nat

definition count_peer :: "'c peer_state \<Rightarrow> reconnection_stats \<Rightarrow> reconnection_stats" where
  "count_peer p s =
     (let s1 = (case ps_state p of
            Connected \<Rightarrow> s\<lparr>rs_connected_peers := rs_connected_peers s + 1\<rparr>
          | Failed \<Rightarrow> s\<lparr>rs_failed_peers := rs_failed_peers s + 1\<rparr>
          | _ \<Rightarrow> s);
          s2 = s1\<lparr>rs_total_reconnections := rs_total_reconnections s1 + unat (ps_retry_count p)\<rparr> in
      if ps_state p = Connected \<and> ps_retry_count p > 0
      then s2\<lparr>rs_successful_reconnections := rs_successful_reconnections s2 + 1\<rparr> else s2)"

definition get_reconnection_stats :: "'c reconnection_manager \<Rightarrow> reconnection_stats" where
  "get_reconnection_stats m = fold (count_peer \<circ> snd) (rm_peers m)
     \<lparr>rs_total_peers = length (rm_peers m), rs_connected_peers = 0,
      rs_reconnecting_peers = length (rm_tasks m), rs_failed_peers = 0, rs_total_reconnections = 0,
      rs_successful_reconnections = 0\<rparr>"

section \<open>The invariant\<close>

definition tracked_ok :: "reconnection_config \<Rightarrow> 'c peer_state \<Rightarrow> bool" where
  "tracked_ok cfg p \<longleftrightarrow> ps_retry_count p \<le> rc_max_retry_attempts cfg \<and>
     (ps_state p = Connected \<longrightarrow> ps_retry_count p = 0 \<and> ps_connection p \<noteq> None)"

definition task_peer_ok :: "'c reconnection_manager \<Rightarrow> string \<Rightarrow> 'c task_pc \<Rightarrow> bool" where
  "task_peer_ok m addr pc \<longleftrightarrow> (\<exists>p. hm_get (rm_peers m) addr = Some p \<and>
     (pc = AtStart \<longrightarrow> ps_retry_count p < rc_max_retry_attempts (rm_config m)))"

definition manager_ok :: "'c reconnection_manager \<Rightarrow> bool" where
  "manager_ok m \<longleftrightarrow> hm_wf (rm_peers m) \<and> hm_wf (rm_tasks m) \<and>
     (\<forall>addr p. hm_get (rm_peers m) addr = Some p \<longrightarrow> tracked_ok (rm_config m) p) \<and>
     (\<forall>addr pc. hm_get (rm_tasks m) addr = Some pc \<longrightarrow> task_peer_ok m addr pc)"

lemmas map_facts = hm_get_modify hm.get_put hm.wf_put hm.get_del hm.wf_del hm_get_or_insert hm_wf_or_insert

lemmas peer_defs = mark_success_def mark_failed_def mark_backoff_def start_retry_attempt_def

lemma manager_okD:
  assumes "manager_ok m"
  shows "hm_wf (rm_peers m)" and "hm_wf (rm_tasks m)"
    and "hm_get (rm_peers m) addr = Some p \<Longrightarrow> tracked_ok (rm_config m) p"
    and "hm_get (rm_tasks m) addr = Some pc \<Longrightarrow> \<exists>p. hm_get (rm_peers m) addr = Some p \<and> tracked_ok (rm_config m) p \<and>
      (pc = AtStart \<longrightarrow> ps_retry_count p < rc_max_retry_attempts (rm_config m))"
  using assms by (simp_all add: manager_ok_def task_peer_ok_def) metis

lemma set_task_with_peer: "with_peer a f (set_task b pc m) = set_task b pc (with_peer a f m)"
  by (cases m) (simp add: set_task_def with_peer_def)

lemma ok_set_task:
  assumes "manager_ok m" and "task_peer_ok m addr pc"
  shows "manager_ok (set_task addr pc m)"
  using assms by (auto simp add: manager_ok_def task_peer_ok_def set_task_def map_facts split: if_splits)

lemma ok_with_peer:
  assumes "manager_ok m"
    and "\<And>p. hm_get (rm_peers m) addr = Some p \<Longrightarrow> tracked_ok (rm_config m) (f p)"
    and "\<And>p. hm_get (rm_tasks m) addr = Some AtStart \<Longrightarrow> hm_get (rm_peers m) addr = Some p \<Longrightarrow>
      ps_retry_count (f p) < rc_max_retry_attempts (rm_config m)"
  shows "manager_ok (with_peer addr f m)"
  unfolding manager_ok_def
proof (intro conjI allI impI)
  fix a pc assume "hm_get (rm_tasks (with_peer addr f m)) a = Some pc"
  then have t: "hm_get (rm_tasks m) a = Some pc" by (simp add: with_peer_def)
  from manager_okD(4) [OF assms(1) t] obtain p where "hm_get (rm_peers m) a = Some p"
      "pc = AtStart \<longrightarrow> ps_retry_count p < rc_max_retry_attempts (rm_config m)" by blast
  with assms(3) t show "task_peer_ok (with_peer addr f m) a pc"
    by (cases "a = addr") (auto simp add: task_peer_ok_def with_peer_def hm_get_modify)
qed (use assms(1,2) in \<open>auto simp add: manager_ok_def with_peer_def hm_get_modify split: if_splits\<close>)

text \<open>An attempt that starts leaves its task past the start.\<close>

lemma ok_start:
  assumes "manager_ok m" and "hm_get (rm_tasks m) addr = Some AtStart"
  shows "manager_ok (task_step fl addr out AtStart m)"
proof -
  have moved: "manager_ok (set_task addr AtConnect m)"
    using assms(1) manager_okD(4) [OF assms] by (auto intro!: ok_set_task simp add: task_peer_ok_def)
  from manager_okD(4) [OF assms] obtain p where p: "hm_get (rm_peers m) addr = Some p"
      "ps_retry_count p < rc_max_retry_attempts (rm_config m)" by blast
  have "manager_ok (with_peer addr (start_retry_attempt (rm_config m) fl (rm_clock m)) (set_task addr AtConnect m))"
    using moved p by (intro ok_with_peer)
      (auto simp add: set_task_def tracked_ok_def peer_defs hm.get_put [OF manager_okD(2) [OF assms(1)]] inc_le)
  then show ?thesis by (simp add: set_task_with_peer)
qed

lemma ok_task_step:
  assumes ok: "manager_ok m" and at: "hm_get (rm_tasks m) addr = Some pc"
  shows "manager_ok (task_step fl addr out pc m)"
proof -
  from manager_okD(4) [OF ok at] obtain p where p: "hm_get (rm_peers m) addr = Some p" "tracked_ok (rm_config m) p"
    by blast
  have go: "manager_ok (set_task addr q n)" if "manager_ok n" "\<exists>p. hm_get (rm_peers n) addr = Some p" "q \<noteq> AtStart" for q n
    using that by (auto intro!: ok_set_task simp add: task_peer_ok_def)
  have upd: "manager_ok (set_task addr q (with_peer addr f m))"
    if "pc \<noteq> AtStart" "q \<noteq> AtStart" "tracked_ok (rm_config m) (f p)" for q f
  proof -
    have "manager_ok (with_peer addr f m)" using ok by (rule ok_with_peer) (use that p at in auto)
    moreover have "\<exists>p. hm_get (rm_peers (with_peer addr f m)) addr = Some p"
      using p(1) by (simp add: with_peer_def hm_get_modify)
    ultimately show ?thesis using that(2) by (rule go)
  qed
  show ?thesis
  proof (cases pc)
    case AtCheck
    have "should_continue m addr \<Longrightarrow> ps_retry_count p < rc_max_retry_attempts (rm_config m)"
      using p(1) by (auto simp add: should_continue_def is_ready_for_retry_def split: if_splits)
    with AtCheck p(1) ok show ?thesis by (auto intro!: ok_set_task simp add: task_peer_ok_def)
  next
    case AtStart
    with ok_start [OF ok] at show ?thesis by simp
  next
    case AtConnect
    with p show ?thesis
      by (cases out) (auto intro!: upd simp add: tracked_ok_def peer_defs)
  next
    case (AtPool c)
    with ok p(1) have "manager_ok (m\<lparr>rm_pool := add_to_pool (rm_clock m) addr c (rm_pool m)\<rparr>)"
      by (simp add: manager_ok_def task_peer_ok_def)
    with AtPool p(1) show ?thesis by (auto intro!: go)
  next
    case AtDelay
    with ok p(1) show ?thesis by (auto intro!: go)
  next
    case (Asleep t)
    have "manager_ok (m\<lparr>rm_clock := max (rm_clock m) t\<rparr>)"
      using ok by (simp add: manager_ok_def task_peer_ok_def)
    with Asleep p(1) show ?thesis by (auto intro!: go)
  next
    case Leaving
    with ok show ?thesis by (auto simp add: manager_ok_def task_peer_ok_def map_facts split: if_splits)
  qed
qed

lemma ok_with_entry:
  assumes "manager_ok m"
    and "\<And>p. tracked_ok (rm_config m) p \<or> p = new_peer_state (rm_clock m) addr \<Longrightarrow> tracked_ok (rm_config m) (f p)"
    and "\<And>p. ps_retry_count (f p) \<le> ps_retry_count p"
  shows "manager_ok (with_entry addr f m)"
proof -
  note wf = manager_okD(1,2) [OF assms(1)]
  show ?thesis
    unfolding manager_ok_def
  proof (intro conjI allI impI)
    fix a p assume "hm_get (rm_peers (with_entry addr f m)) a = Some p"
    with manager_okD(3) [OF assms(1)] assms(2) wf show "tracked_ok (rm_config (with_entry addr f m)) p"
      by (auto simp add: with_entry_def map_facts split: if_splits)
  next
    fix a pc assume "hm_get (rm_tasks (with_entry addr f m)) a = Some pc"
    then have "hm_get (rm_tasks m) a = Some pc" by (simp add: with_entry_def)
    from manager_okD(4) [OF assms(1) this] assms(3) wf show "task_peer_ok (with_entry addr f m) a pc"
      by (auto simp add: task_peer_ok_def with_entry_def map_facts intro: le_less_trans [OF assms(3)])
  qed (use wf in \<open>simp_all add: with_entry_def hm_wf_or_insert\<close>)
qed

lemma ok_report: "manager_ok m \<Longrightarrow> manager_ok (report_connection_failure addr reason m)"
proof -
  assume ok: "manager_ok m"
  have "manager_ok (with_entry addr (mark_failed reason) m)"
    using ok by (rule ok_with_entry) (auto simp add: tracked_ok_def peer_defs new_peer_state_def)
  moreover have "\<exists>p. hm_get (rm_peers (with_entry addr (mark_failed reason) m)) addr = Some p"
    using manager_okD(1) [OF ok] by (auto simp add: with_entry_def map_facts)
  ultimately show ?thesis
    by (auto simp add: report_connection_failure_def Let_def task_peer_ok_def intro!: ok_set_task)
qed

lemma ok_track: "manager_ok m \<Longrightarrow> manager_ok (track_peer addr c m)"
  unfolding track_peer_def by (rule ok_with_entry) (auto simp add: tracked_ok_def peer_defs)

interpretation reconnection: machine manager_step manager_ok
proof
  fix m :: "'c reconnection_manager" and i :: "nat \<times> 'c manager_input"
  assume "manager_ok m"
  then have ok: "manager_ok (pass_time (fst i) m)" by (simp add: manager_ok_def task_peer_ok_def pass_time_def)
  show "manager_ok (manager_step i m)"
  proof (cases "snd i")
    case Start
    with ok show ?thesis by (simp add: manager_step_def start_manager_def manager_ok_def task_peer_ok_def)
  next
    case Stop
    with ok show ?thesis by (simp add: manager_step_def stop_manager_def manager_ok_def hm.wf_empty hm.get_empty)
  next
    case (RunTask fl addr out)
    with ok show ?thesis by (auto simp add: manager_step_def ok_task_step split: option.split)
  qed (use ok in \<open>simp_all add: manager_step_def ok_track ok_report\<close>)
qed

section \<open>What the statistics can show\<close>

lemma no_successes:
  "(\<And>a p. (a, p) \<in> set ps \<Longrightarrow> ps_state p = Connected \<Longrightarrow> ps_retry_count p = 0) \<Longrightarrow>
   rs_successful_reconnections (fold (count_peer \<circ> snd) ps s) = rs_successful_reconnections s \<and>
   rs_reconnecting_peers (fold (count_peer \<circ> snd) ps s) = rs_reconnecting_peers s \<and>
   rs_total_peers (fold (count_peer \<circ> snd) ps s) = rs_total_peers s"
proof (induction ps arbitrary: s)
  case (Cons e ps)
  obtain a p where e: "e = (a, p)" by fastforce
  have "ps_state p = Connected \<Longrightarrow> ps_retry_count p = 0" using Cons.prems [of a p] e by simp
  then have "rs_successful_reconnections (count_peer p s) = rs_successful_reconnections s \<and>
      rs_reconnecting_peers (count_peer p s) = rs_reconnecting_peers s \<and>
      rs_total_peers (count_peer p s) = rs_total_peers s"
    by (cases "ps_state p") (simp_all add: count_peer_def Let_def)
  moreover have "(b, q) \<in> set ps \<Longrightarrow> ps_state q = Connected \<Longrightarrow> ps_retry_count q = 0" for b q
    using Cons.prems by auto
  note Cons.IH [OF this, where s = "count_peer p s"]
  ultimately show ?case by (simp add: e)
qed simp

lemma tasks_are_tracked:
  assumes "manager_ok m"
  shows "length (rm_tasks m) \<le> length (rm_peers m)"
proof -
  have wf: "distinct (map fst (rm_tasks m))" "distinct (map fst (rm_peers m))"
    using manager_okD(1,2) [OF assms] by (simp_all add: hm_wf_def)
  have "a \<in> set (map fst (rm_peers m))" if "a \<in> set (map fst (rm_tasks m))" for a
  proof -
    from that have "hm_has (rm_tasks m) a" by (simp add: hm_has_iff)
    then obtain pc where "hm_get (rm_tasks m) a = Some pc" by (auto simp add: hm_has_def)
    from manager_okD(4) [OF assms this] have "hm_has (rm_peers m) a" by (auto simp add: hm_has_def)
    then show ?thesis by (simp add: hm_has_iff)
  qed
  then have "card (set (map fst (rm_tasks m))) \<le> card (set (map fst (rm_peers m)))"
    by (intro card_mono) auto
  then show ?thesis using wf by (simp only: distinct_card length_map)
qed

lemma new_manager_ok: "manager_ok (new_reconnection_manager now pool cfg)"
  by (simp add: manager_ok_def new_reconnection_manager_def hm.wf_empty hm.get_empty)

text \<open>Whatever happens in whatever order, a peer shown as connected has a connection and a retry
  count of zero, no retry count exceeds the limit, there are no more tasks than peers - and so the
  statistics never show a successful reconnection.\<close>

theorem reconnections_never_counted:
  "(let m = fold manager_step is (new_reconnection_manager now pool cfg) in
    (\<forall>addr. case get_peer_state addr m of
       Some p \<Rightarrow> (ps_state p = Connected \<longrightarrow> ps_retry_count p = 0 \<and> ps_connection p \<noteq> None) \<and>
         ps_retry_count p \<le> rc_max_retry_attempts (rm_config m)
     | None \<Rightarrow> True) \<and>
    rs_successful_reconnections (get_reconnection_stats m) = 0 \<and>
    rs_reconnecting_peers (get_reconnection_stats m) \<le> rs_total_peers (get_reconnection_stats m))"
proof -
  let ?m = "fold manager_step is (new_reconnection_manager now pool cfg)"
  have ok: "manager_ok ?m" using new_manager_ok by (rule reconnection.inv_fold)
  have peer: "(ps_state p = Connected \<longrightarrow> ps_retry_count p = 0 \<and> ps_connection p \<noteq> None) \<and>
      ps_retry_count p \<le> rc_max_retry_attempts (rm_config ?m)" if "get_peer_state addr ?m = Some p" for addr p
    using manager_okD(3) [OF ok, of addr p] that by (simp add: get_peer_state_def tracked_ok_def)
  have "ps_retry_count p = 0" if "(a, p) \<in> set (rm_peers ?m)" "ps_state p = Connected" for a p
    using peer [of a p] that hm_mem_iff [OF manager_okD(1) [OF ok]] by (simp add: get_peer_state_def)
  note stats = no_successes [of "rm_peers ?m", OF this]
  show ?thesis
    unfolding Let_def get_reconnection_stats_def
    using peer stats tasks_are_tracked [OF ok] by (simp split: option.split)
qed

theorem reconnections_never_counted_witness:
  "rs_successful_reconnections (get_reconnection_stats
     (fold manager_step [(0, Report ''p'' ''lost''), (0, RunTask \<lparr>rf_scale = \<lambda>d. 2 * d, rf_jitter = \<lambda>d. 0\<rparr> ''p'' (ConnectOk 7))]
        (new_reconnection_manager 0 [] default_reconnection_config :: nat reconnection_manager))) = 0"
  using reconnections_never_counted [of
      "[(0, Report ''p'' ''lost''), (0, RunTask \<lparr>rf_scale = \<lambda>d. 2 * d, rf_jitter = \<lambda>d. 0\<rparr> ''p'' (ConnectOk (7 :: nat)))]"
      0 "[]" default_reconnection_config]
  by (simp only: Let_def)

section \<open>Every task ends\<close>

definition task_inputs ::
  "string \<Rightarrow> (nat \<times> reconnection_floats \<times> 'c connect_outcome) list \<Rightarrow> (nat \<times> 'c manager_input) list" where
  "task_inputs addr = map (\<lambda>(dt, fl, out). (dt, RunTask fl addr out))"

definition attempts_left :: "string \<Rightarrow> 'c reconnection_manager \<Rightarrow> nat" where
  "attempts_left addr m =
     (case hm_get (rm_peers m) addr of
        Some p \<Rightarrow> unat (rc_max_retry_attempts (rm_config m)) - unat (ps_retry_count p)
      | None \<Rightarrow> 0)"

definition steps_left :: "string \<Rightarrow> 'c reconnection_manager \<Rightarrow> nat" where
  "steps_left addr m =
     (case hm_get (rm_tasks m) addr of
        None \<Rightarrow> 0
      | Some Leaving \<Rightarrow> 1
      | Some (AtPool c) \<Rightarrow> 2
      | Some AtStart \<Rightarrow> 6 * attempts_left addr m + 3
      | Some AtCheck \<Rightarrow> 6 * attempts_left addr m + 4
      | Some (Asleep t) \<Rightarrow> 6 * attempts_left addr m + 5
      | Some AtDelay \<Rightarrow> 6 * attempts_left addr m + 6
      | Some AtConnect \<Rightarrow> 6 * attempts_left addr m + 7)"

text \<open>The attempts made while a list of inputs runs, the one in progress included.\<close>

fun attempts :: "string \<Rightarrow> (nat \<times> 'c manager_input) list \<Rightarrow> 'c reconnection_manager \<Rightarrow> nat" where
  "attempts addr [] m = 0"
| "attempts addr (i # is) m =
     (if hm_get (rm_tasks m) addr = Some AtConnect \<and> 
        (case snd i of RunTask fl a out \<Rightarrow> a = addr | _ \<Rightarrow> False) then 1 else 0) +
     attempts addr is (manager_step i m)"

definition attempts_to_come :: "string \<Rightarrow> 'c reconnection_manager \<Rightarrow> nat" where
  "attempts_to_come addr m =
     (case hm_get (rm_tasks m) addr of
        None \<Rightarrow> 0 | Some Leaving \<Rightarrow> 0 | Some (AtPool c) \<Rightarrow> 0
      | Some AtConnect \<Rightarrow> Suc (attempts_left addr m)
      | Some pc \<Rightarrow> attempts_left addr m)"

lemma pass_time_simps [simp]:
  "rm_tasks (pass_time dt m) = rm_tasks m" "rm_peers (pass_time dt m) = rm_peers m"
  "rm_config (pass_time dt m) = rm_config m" "rm_pool (pass_time dt m) = rm_pool m"
  "rm_clock (pass_time dt m) = rm_clock m + dt"
  "attempts_left addr (pass_time dt m) = attempts_left addr m"
  "steps_left addr (pass_time dt m) = steps_left addr m"
  "attempts_to_come addr (pass_time dt m) = attempts_to_come addr m"
  "should_continue (pass_time 0 m) addr = should_continue m addr"
  by (simp_all add: pass_time_def attempts_left_def steps_left_def attempts_to_come_def should_continue_def
      split: option.split task_pc.split)

lemma manager_ok_pass_time [simp]: "manager_ok (pass_time dt m) = manager_ok m"
  by (simp add: manager_ok_def task_peer_ok_def)

lemma run_task: "manager_step (dt, RunTask fl addr out) m =
    (case hm_get (rm_tasks m) addr of Some pc \<Rightarrow> task_step fl addr out pc (pass_time dt m) | None \<Rightarrow> pass_time dt m)"
  by (simp add: manager_step_def)

lemma set_task_simps [simp]:
  "rm_peers (set_task a pc m) = rm_peers m" "rm_config (set_task a pc m) = rm_config m"
  "rm_pool (set_task a pc m) = rm_pool m" "rm_clock (set_task a pc m) = rm_clock m"
  "rm_tasks (with_peer a f m) = rm_tasks m" "rm_config (with_peer a f m) = rm_config m"
  "rm_pool (with_peer a f m) = rm_pool m" "rm_clock (with_peer a f m) = rm_clock m"
  by (simp_all add: set_task_def with_peer_def)

lemma set_task_get: "hm_wf (rm_tasks m) \<Longrightarrow>
    hm_get (rm_tasks (set_task a pc m)) b = (if b = a then Some pc else hm_get (rm_tasks m) b)"
  by (simp add: set_task_def hm.get_put)

lemma with_peer_get: "hm_get (rm_peers (with_peer a f m)) b =
    (if b = a then map_option f (hm_get (rm_peers m) b) else hm_get (rm_peers m) b)"
  by (simp add: with_peer_def hm_get_modify)

lemma attempts_left_start:
  assumes "manager_ok m" and "hm_get (rm_tasks m) addr = Some AtStart"
  shows "Suc (attempts_left addr (with_peer addr (start_retry_attempt (rm_config m) fl now) m)) = attempts_left addr m"
proof -
  from manager_okD(4) [OF assms] obtain p where p: "hm_get (rm_peers m) addr = Some p"
      "ps_retry_count p < rc_max_retry_attempts (rm_config m)" by blast
  then have "unat (ps_retry_count p) < unat (rc_max_retry_attempts (rm_config m))"
    by (simp add: word_less_nat_alt)
  moreover have "unat (rc_max_retry_attempts (rm_config m)) < 2 ^ 32"
    using unsigned_less [of "rc_max_retry_attempts (rm_config m)"] by simp
  ultimately have "unat (ps_retry_count p + 1) = Suc (unat (ps_retry_count p))"
    by (simp add: unat_word_ariths)
  with p show ?thesis
    by (simp add: attempts_left_def with_peer_get peer_defs word_less_nat_alt)
qed

lemma attempts_left_same:
  "(\<And>p. ps_retry_count (f p) = ps_retry_count p) \<Longrightarrow> attempts_left addr (with_peer addr f m) = attempts_left addr m"
  by (simp add: attempts_left_def with_peer_get split: option.split)

lemma attempts_left_frame [simp]:
  "attempts_left addr (set_task a pc m) = attempts_left addr m"
  "attempts_left addr (rm_tasks_update f m) = attempts_left addr m"
  "attempts_left addr (rm_pool_update g m) = attempts_left addr m"
  "attempts_left addr (rm_clock_update h m) = attempts_left addr m"
  by (simp_all add: attempts_left_def split: option.split)

lemma task_step_decreases:
  assumes ok: "manager_ok m" and at: "hm_get (rm_tasks m) addr = Some pc"
  shows "steps_left addr (task_step fl addr out pc m) < steps_left addr m" (is ?steps)
    and "(if pc = AtConnect then 1 else 0) + attempts_to_come addr (task_step fl addr out pc m) \<le> attempts_to_come addr m"
      (is ?attempts)
proof -
  note wf = manager_okD(2) [OF ok]
  have same: "attempts_left addr (with_peer addr (mark_failed r) n) = attempts_left addr n"
      "attempts_left addr (with_peer addr mark_backoff n) = attempts_left addr n" for r and n :: "'a reconnection_manager"
    by (simp_all add: attempts_left_same peer_defs)
  have "?steps \<and> ?attempts"
  proof (cases pc)
    case AtStart
    with at attempts_left_start [OF ok, of addr fl "rm_clock m"] wf show ?thesis
      by (simp add: steps_left_def attempts_to_come_def set_task_get)
  next
    case AtConnect
    with at wf same show ?thesis
      by (cases out) (auto simp add: steps_left_def attempts_to_come_def set_task_get split: option.split)
  qed (use at wf in \<open>auto simp add: steps_left_def attempts_to_come_def set_task_get hm.get_del\<close>)
  then show ?steps and ?attempts by simp_all
qed

lemma task_inputs_end:
  assumes "manager_ok m"
  shows "attempts addr (task_inputs addr ins) m \<le> attempts_to_come addr m \<and>
    (steps_left addr m \<le> length ins \<longrightarrow> steps_left addr (fold manager_step (task_inputs addr ins) m) = 0)"
  using assms
proof (induction ins arbitrary: m)
  case Nil
  then show ?case by (simp add: task_inputs_def)
next
  case (Cons i ins)
  obtain dt fl out where i: "i = (dt, fl, out)" using prod_cases3 by blast
  let ?n = "manager_step (dt, RunTask fl addr out) m"
  have n: "manager_ok ?n" using Cons.prems by (rule reconnection.inv_step)
  show ?case
  proof (cases "hm_get (rm_tasks m) addr")
    case None
    then have "?n = pass_time dt m" by (simp add: run_task)
    with Cons.IH [OF n] None show ?thesis
      by (simp add: i task_inputs_def) (simp add: steps_left_def)
  next
    case (Some pc)
    then have "?n = task_step fl addr out pc (pass_time dt m)" by (simp add: run_task)
    with task_step_decreases [of "pass_time dt m" addr pc fl out] Cons.prems Some
    have "steps_left addr ?n < steps_left addr m"
        "(if pc = AtConnect then 1 else 0) + attempts_to_come addr ?n \<le> attempts_to_come addr m" by simp_all
    with Cons.IH [OF n] Some show ?thesis by (simp add: i task_inputs_def)
  qed
qed

lemma steps_left_0: "steps_left addr m = 0 \<longleftrightarrow> \<not> is_reconnection_active addr m"
  by (auto simp add: steps_left_def is_reconnection_active_def hm_has_def split: option.splits task_pc.splits)

text \<open>C30: A reconnection task that is left to run makes at most the configured number of connect
  attempts and is gone after six steps for each and four more, whatever the attempts give and
  however long they take.\<close>

theorem reconnection_task_ends:
  assumes "reachable = fold manager_step is (new_reconnection_manager now pool cfg)"
    and "hm_get (rm_tasks reachable) addr = Some AtCheck"
    and "length ins \<ge> 6 * unat (rc_max_retry_attempts (rm_config reachable)) + 4"
  shows "attempts addr (task_inputs addr ins) reachable \<le> unat (rc_max_retry_attempts (rm_config reachable)) \<and>
    \<not> is_reconnection_active addr (fold manager_step (task_inputs addr ins) reachable)"
proof -
  have ok: "manager_ok reachable" unfolding assms(1) using new_manager_ok by (rule reconnection.inv_fold)
  have left: "attempts_left addr reachable \<le> unat (rc_max_retry_attempts (rm_config reachable))"
    by (simp add: attempts_left_def split: option.split)
  have "attempts_to_come addr reachable = attempts_left addr reachable"
      "steps_left addr reachable = 6 * attempts_left addr reachable + 4"
    using assms(2) by (simp_all add: attempts_to_come_def steps_left_def)
  with task_inputs_end [OF ok, of addr ins] left assms(3) show ?thesis
    by (auto simp add: steps_left_0)
qed

theorem reconnection_task_ends_witness:
  "\<not> is_reconnection_active ''p'' (fold manager_step
     (task_inputs ''p'' (replicate 64 (0, \<lparr>rf_scale = \<lambda>d. 2 * d, rf_jitter = \<lambda>d. 0\<rparr>, ConnectTimeout)))
     (fold manager_step [(0, Report ''p'' ''lost'')]
       (new_reconnection_manager 0 [] default_reconnection_config :: nat reconnection_manager)))"
proof -
  let ?m = "fold manager_step [(0, Report ''p'' ''lost'')]
       (new_reconnection_manager 0 [] default_reconnection_config :: nat reconnection_manager)"
  have "hm_get (rm_tasks ?m) ''p'' = Some AtCheck"
    by (simp add: manager_step_def report_connection_failure_def with_entry_def is_reconnection_active_def
        set_task_def new_reconnection_manager_def hm_has_def hm.get_empty hm_get_def hm_put_def)
  moreover have "rm_config ?m = default_reconnection_config"
    by (simp add: manager_step_def report_connection_failure_def Let_def with_entry_def new_reconnection_manager_def)
  then have "length (replicate 64 (0 :: nat, \<lparr>rf_scale = \<lambda>d. 2 * d, rf_jitter = \<lambda>d. 0\<rparr>, ConnectTimeout :: nat connect_outcome))
      \<ge> 6 * unat (rc_max_retry_attempts (rm_config ?m)) + 4"
    by (simp only: length_replicate) (simp add: default_reconnection_config_def)
  ultimately show ?thesis using reconnection_task_ends [OF refl] by blast
qed

section \<open>Success after failures\<close>

text \<open>The five steps of one turn of the loop, with the time \<open>d i\<close> before the \<open>i\<close>th.\<close>

definition turn ::
  "reconnection_floats \<times> 'c connect_outcome \<times> (nat \<Rightarrow> nat) \<Rightarrow> (nat \<times> reconnection_floats \<times> 'c connect_outcome) list" where
  "turn = (\<lambda>(fl, out, d). [(d 0, fl, out), (d 1, fl, out), (d 2, fl, out), (d 3, fl, out), (d 4, fl, out)])"

definition waiting_over :: "'c reconnection_manager \<Rightarrow> 'c peer_state \<Rightarrow> bool" where
  "waiting_over m p \<longleftrightarrow>
     (case ps_last_attempt p of Some t \<Rightarrow> rm_clock m \<ge> t + ps_current_delay p | None \<Rightarrow> True)"

definition retrying :: "string \<Rightarrow> nat \<Rightarrow> 'c reconnection_manager \<Rightarrow> bool" where
  "retrying addr k m \<longleftrightarrow> manager_ok m \<and> hm_get (rm_tasks m) addr = Some AtCheck \<and>
     (\<exists>p. hm_get (rm_peers m) addr = Some p \<and> ps_state p \<noteq> Connected \<and> unat (ps_retry_count p) = k \<and>
       waiting_over m p)"

lemma set_task_wf [simp]: "hm_wf (rm_tasks m) \<Longrightarrow> hm_wf (rm_tasks (set_task a pc m))"
  by (simp add: set_task_def hm.wf_put)

lemma pool_update_simps [simp]:
  "rm_tasks (m\<lparr>rm_pool := q\<rparr>) = rm_tasks m" "rm_peers (m\<lparr>rm_pool := q\<rparr>) = rm_peers m"
  "rm_tasks (m\<lparr>rm_clock := t\<rparr>) = rm_tasks m" "rm_peers (m\<lparr>rm_clock := t\<rparr>) = rm_peers m"
  by simp_all

lemma retrying_continues:
  assumes "retrying addr k m" and "k < unat (rc_max_retry_attempts (rm_config m))"
  shows "should_continue (pass_time d m) addr"
proof -
  from assms(1) obtain p where "hm_get (rm_peers m) addr = Some p" "ps_state p \<noteq> Connected"
      "unat (ps_retry_count p) = k" "waiting_over m p" unfolding retrying_def by blast
  with assms(2) show ?thesis
    by (auto simp add: should_continue_def is_ready_for_retry_def waiting_over_def word_le_nat_alt
        split: option.splits)
qed

lemma manager_step_wf: "manager_ok m \<Longrightarrow> hm_wf (rm_tasks (manager_step i m))"
  by (rule manager_okD(2)) (rule reconnection.inv_step)

lemma first_steps:
  assumes "retrying addr k m" and "k < unat (rc_max_retry_attempts (rm_config m))"
  shows "fold manager_step (task_inputs addr [(d0, fl, out), (d1, fl, out)]) m =
    set_task addr AtConnect (with_peer addr (start_retry_attempt (rm_config m) fl (rm_clock m + d0 + d1))
      (set_task addr AtStart (pass_time (d0 + d1) m)))"
proof -
  have wf: "hm_wf (rm_tasks m)" and at: "hm_get (rm_tasks m) addr = Some AtCheck"
    using assms(1) manager_okD(2) by (auto simp add: retrying_def)
  have "manager_step (d0, RunTask fl addr out) m = set_task addr AtStart (pass_time d0 m)"
    using at retrying_continues [OF assms] by (simp add: run_task)
  moreover have "pass_time d1 (set_task addr AtStart (pass_time d0 m)) = set_task addr AtStart (pass_time (d0 + d1) m)"
    by (cases m) (simp add: pass_time_def set_task_def add.assoc)
  ultimately show ?thesis
    using wf by (simp add: task_inputs_def run_task set_task_get add.assoc)
qed

lemma connecting:
  assumes "retrying addr k m" and "k < unat (rc_max_retry_attempts (rm_config m))"
    and n: "n = fold manager_step (task_inputs addr [(d0, fl, out), (d1, fl, out)]) m"
  obtains q where "hm_get (rm_tasks n) addr = Some AtConnect" and "hm_get (rm_peers n) addr = Some q"
    and "unat (ps_retry_count q) = Suc k" and "ps_last_attempt q = Some (rm_clock n)"
    and "rm_config n = rm_config m" and "rm_pool n = rm_pool m" and "manager_ok n"
proof -
  from assms(1) obtain p where p: "hm_get (rm_peers m) addr = Some p" "unat (ps_retry_count p) = k"
    and ok: "manager_ok m" unfolding retrying_def by blast
  have wf: "hm_wf (rm_tasks m)" using manager_okD(2) [OF ok] .
  let ?q = "start_retry_attempt (rm_config m) fl (rm_clock m + d0 + d1) p"
  have "unat (rc_max_retry_attempts (rm_config m)) < 2 ^ 32"
    using unsigned_less [of "rc_max_retry_attempts (rm_config m)"] by simp
  then have "unat (ps_retry_count ?q) = Suc k"
    using p(2) assms(2) by (simp add: peer_defs unat_word_ariths)
  moreover note st = first_steps [OF assms(1,2), of d0 fl out d1]
  moreover have "manager_ok n" unfolding n task_inputs_def using ok by (rule reconnection.inv_fold)
  ultimately show ?thesis
    using p(1) wf that [of ?q] by (simp add: n set_task_get with_peer_get peer_defs add.assoc)
qed

lemma failed_turn:
  assumes "retrying addr k m" and "Suc k < unat (rc_max_retry_attempts (rm_config m))"
    and "\<forall>c. out \<noteq> ConnectOk c"
  shows "let n = fold manager_step (task_inputs addr (turn (fl, out, d))) m in
    retrying addr (Suc k) n \<and> rm_config n = rm_config m \<and> rm_pool n = rm_pool m"
proof -
  define n where "n = fold manager_step (task_inputs addr [(d 0, fl, out), (d 1, fl, out)]) m"
  obtain q where q: "hm_get (rm_tasks n) addr = Some AtConnect" "hm_get (rm_peers n) addr = Some q"
      "unat (ps_retry_count q) = Suc k" "ps_last_attempt q = Some (rm_clock n)"
      "rm_config n = rm_config m" "rm_pool n = rm_pool m" "manager_ok n"
    using connecting [OF assms(1) _ n_def] assms(2) Suc_lessD by blast
  have wf: "hm_wf (rm_tasks n)" using manager_okD(2) [OF q(7)] .
  let ?n1 = "set_task addr AtDelay (with_peer addr mark_backoff (pass_time (d 2) n))"
  let ?t = "rm_clock n + d 2 + d 3 + ps_current_delay q"
  have "\<not> rc_max_retry_attempts (rm_config n) \<le> ps_retry_count q"
    using q(3,5) assms(2) by (simp add: word_le_nat_alt)
  then have "manager_step (d 2, RunTask fl addr out) n = ?n1"
    using q(1,2) assms(3) by (cases out) (auto simp add: run_task)
  moreover have "manager_step (d 3, RunTask fl addr out) ?n1 = set_task addr (Asleep ?t) (pass_time (d 3) ?n1)"
    using wf q(2) by (simp add: run_task set_task_get with_peer_get peer_defs add.assoc)
  moreover have "manager_step (d 4, RunTask fl addr out) (set_task addr (Asleep ?t) (pass_time (d 3) ?n1)) =
      set_task addr AtCheck ((pass_time (d 4) (set_task addr (Asleep ?t) (pass_time (d 3) ?n1)))
        \<lparr>rm_clock := max (rm_clock n + d 2 + d 3 + d 4) ?t\<rparr>)" (is "_ = ?n2")
    using wf by (simp add: run_task set_task_get add.assoc)
  ultimately have run: "fold manager_step (task_inputs addr (turn (fl, out, d))) m = ?n2"
    by (simp add: n_def turn_def task_inputs_def)
  have "manager_ok ?n2"
    unfolding run [symmetric] task_inputs_def using assms(1) reconnection.inv_fold unfolding retrying_def by blast
  moreover have "hm_get (rm_peers ?n2) addr = Some (mark_backoff q)"
    using q(2) by (simp add: with_peer_get)
  moreover have "waiting_over ?n2 (mark_backoff q)"
    using q(4) by (simp add: waiting_over_def peer_defs)
  ultimately show ?thesis
    using q(3,5,6) wf by (simp add: run Let_def retrying_def set_task_get) (simp add: peer_defs)
qed

lemma successful_turn:
  assumes "retrying addr k m" and "k < unat (rc_max_retry_attempts (rm_config m))"
  shows "let n = fold manager_step (task_inputs addr (turn (fl, ConnectOk c, d))) m in
    \<not> is_reconnection_active addr n \<and> (\<exists>t. rm_pool n = add_to_pool t addr c (rm_pool m)) \<and>
    (\<exists>p. hm_get (rm_peers n) addr = Some p \<and> ps_state p = Connected \<and> ps_connection p = Some c \<and> ps_retry_count p = 0)"
proof -
  define n where "n = fold manager_step (task_inputs addr [(d 0, fl, ConnectOk c), (d 1, fl, ConnectOk c)]) m"
  obtain q where q: "hm_get (rm_tasks n) addr = Some AtConnect" "hm_get (rm_peers n) addr = Some q"
      "rm_pool n = rm_pool m" "manager_ok n"
    using connecting [OF assms(1,2) n_def] by blast
  have wf: "hm_wf (rm_tasks n)" using manager_okD(2) [OF q(4)] .
  let ?n1 = "set_task addr (AtPool c) (with_peer addr (mark_success (rm_clock n + d 2) c) (pass_time (d 2) n))"
  let ?t = "rm_clock n + d 2 + d 3"
  let ?n2 = "set_task addr Leaving ((pass_time (d 3) ?n1)\<lparr>rm_pool := add_to_pool ?t addr c (rm_pool m)\<rparr>)"
  let ?n3 = "(pass_time (d 4) ?n2)\<lparr>rm_tasks := hm_del addr (rm_tasks ?n2)\<rparr>"
  have "manager_step (d 2, RunTask fl addr (ConnectOk c)) n = ?n1" using q(1) by (simp add: run_task)
  moreover have "manager_step (d 3, RunTask fl addr (ConnectOk c)) ?n1 = ?n2"
    using wf q(3) by (simp add: run_task set_task_get)
  moreover have "manager_step (d 4, RunTask fl addr (ConnectOk c)) ?n2 = ?n3"
    using wf by (simp add: run_task set_task_get)
  ultimately have run: "fold manager_step (task_inputs addr (turn (fl, ConnectOk c, d))) m = ?n3"
    by (simp add: n_def turn_def task_inputs_def)
  have "rm_peers ?n3 = rm_peers (with_peer addr (mark_success (rm_clock n + d 2) c) (pass_time (d 2) n))"
    "rm_pool ?n3 = add_to_pool ?t addr c (rm_pool m)" by simp_all
  moreover have "hm_get (hm_del addr (rm_tasks ?n2)) addr = None"
    using wf by (simp add: hm.get_del)
  ultimately show ?thesis
    unfolding run Let_def using q(2)
    by (auto simp add: is_reconnection_active_def hm_has_def with_peer_get) (auto simp add: peer_defs)
qed

lemma turns_succeed:
  assumes "retrying addr k m" and "\<forall>(fl, out, d)\<in>set fails. \<forall>c. out \<noteq> ConnectOk c"
    and "k + length fails < unat (rc_max_retry_attempts (rm_config m))"
  shows "let n = fold manager_step (task_inputs addr (concat (map turn fails) @ turn (fl, ConnectOk c, d))) m in
    \<not> is_reconnection_active addr n \<and> (\<exists>t. rm_pool n = add_to_pool t addr c (rm_pool m)) \<and>
    (\<exists>p. hm_get (rm_peers n) addr = Some p \<and> ps_state p = Connected \<and> ps_connection p = Some c \<and> ps_retry_count p = 0)"
  using assms
proof (induction fails arbitrary: k m)
  case Nil
  then show ?case using successful_turn [of addr k m fl c d] by simp
next
  case (Cons f fails)
  obtain fl1 out1 d1 where f: "f = (fl1, out1, d1)" using prod_cases3 by blast
  let ?n = "fold manager_step (task_inputs addr (turn f)) m"
  have n: "retrying addr (Suc k) ?n" "rm_config ?n = rm_config m" "rm_pool ?n = rm_pool m"
    using failed_turn [of addr k m out1 fl1 d1] Cons.prems by (auto simp add: f Let_def)
  have "Suc k + length fails < unat (rc_max_retry_attempts (rm_config ?n))" using Cons.prems(3) n(2) by simp
  from Cons.IH [OF n(1) _ this] Cons.prems(2) n(3) show ?case
    by (simp add: task_inputs_def)
qed

text \<open>C29: A reported peer whose last attempt is long enough ago is reconnected by the first attempt
  that succeeds, if fewer attempts than the limit leaves fail before it, by errors or timeouts: the
  peer is connected with that connection, the pool has it, and the task is gone.\<close>

theorem reported_peer_reconnects:
  assumes "reachable = fold manager_step is (new_reconnection_manager now pool cfg)"
    and "get_peer_state addr reachable = Some p" and "\<not> is_reconnection_active addr reachable"
    and "waiting_over reachable p"
    and "\<forall>(fl, out, d)\<in>set fails. \<forall>c. out \<noteq> ConnectOk c"
    and "unat (ps_retry_count p) + length fails < unat (rc_max_retry_attempts (rm_config reachable))"
  shows "let n = fold manager_step ((0, Report addr reason) # task_inputs addr (concat (map turn fails) @ turn (fl, ConnectOk c, d)))
      reachable in
    (\<exists>q. get_peer_state addr n = Some q \<and> ps_state q = Connected \<and> ps_connection q = Some c \<and> ps_retry_count q = 0) \<and>
    (\<exists>t. rm_pool n = add_to_pool t addr c (rm_pool reachable)) \<and> \<not> is_reconnection_active addr n"
proof -
  have ok: "manager_ok reachable" unfolding assms(1) using new_manager_ok by (rule reconnection.inv_fold)
  note wf = manager_okD(1,2) [OF ok]
  let ?m = "manager_step (0, Report addr reason) reachable"
  have "rm_config ?m = rm_config reachable" "rm_pool ?m = rm_pool reachable"
    by (simp_all add: manager_step_def report_connection_failure_def Let_def with_entry_def)
  moreover have "hm_get (rm_tasks ?m) addr = Some AtCheck"
    using assms(3) wf by (simp add: manager_step_def report_connection_failure_def Let_def with_entry_def
        is_reconnection_active_def set_task_def map_facts)
  moreover have "hm_get (rm_peers ?m) addr = Some (mark_failed reason p)" "rm_clock ?m = rm_clock reachable"
    using assms(2) wf by (simp_all add: manager_step_def report_connection_failure_def Let_def with_entry_def
        get_peer_state_def map_facts)
  moreover have "manager_ok ?m" using ok by (rule reconnection.inv_step)
  ultimately have "retrying addr (unat (ps_retry_count p)) ?m"
    using assms(4) by (simp add: retrying_def waiting_over_def mark_failed_def split: option.splits)
  from turns_succeed [OF this assms(5), of fl c d] assms(6) \<open>rm_config ?m = _\<close> \<open>rm_pool ?m = _\<close>
  show ?thesis by (simp add: get_peer_state_def Let_def)
qed

definition sample_floats :: reconnection_floats where
  "sample_floats = \<lparr>rf_scale = \<lambda>d. 2 * d, rf_jitter = \<lambda>d. 0\<rparr>"

lemma sample_tracked:
  assumes "reachable = fold manager_step [(0, Track ''p'' 1)]
      (new_reconnection_manager 0 [] default_reconnection_config :: nat reconnection_manager)"
  shows "get_peer_state ''p'' reachable = Some (mark_success 0 1 (new_peer_state 0 ''p''))"
    and "\<not> is_reconnection_active ''p'' reachable" and "rm_config reachable = default_reconnection_config"
    and "rm_pool reachable = []"
  by (simp_all add: assms manager_step_def track_peer_def with_entry_def new_reconnection_manager_def get_peer_state_def
      is_reconnection_active_def hm_has_def hm.get_empty hm_get_modify hm_get_or_insert hm.wf_empty pass_time_def)

theorem reported_peer_reconnects_witness:
  "\<exists>n q. get_peer_state ''p'' (n :: nat reconnection_manager) = Some q \<and> ps_state q = Connected \<and> ps_connection q = Some 2"
proof -
  define m where "m = fold manager_step [(0, Track ''p'' 1)]
      (new_reconnection_manager 0 [] default_reconnection_config :: nat reconnection_manager)"
  note m = sample_tracked [OF m_def]
  have over: "waiting_over m (mark_success 0 1 (new_peer_state 0 ''p''))"
    by (simp add: waiting_over_def peer_defs new_peer_state_def)
  have "unat (ps_retry_count (mark_success 0 (1 :: nat) (new_peer_state 0 ''p''))) +
      length [(sample_floats, ConnectTimeout :: nat connect_outcome, \<lambda>_. 0 :: nat), (sample_floats, ConnectError ''refused'', \<lambda>_. 5)]
      < unat (rc_max_retry_attempts (rm_config m))"
    by (simp add: m(3) default_reconnection_config_def peer_defs)
  from reported_peer_reconnects [OF m_def m(1,2) over _ this, of "''lost''" sample_floats 2 "\<lambda>_. 0"]
  show ?thesis by (simp add: Let_def del: fold_simps) blast
qed

section \<open>Abandoned peers\<close>

definition abandoned :: "string \<Rightarrow> 'c reconnection_manager \<Rightarrow> bool" where
  "abandoned addr m \<longleftrightarrow> manager_ok m \<and> hm_get (rm_tasks m) addr \<in> {None, Some AtCheck, Some Leaving} \<and>
     (\<exists>p. hm_get (rm_peers m) addr = Some p \<and> ps_retry_count p \<ge> rc_max_retry_attempts (rm_config m))"

lemma task_step_other:
  assumes "hm_wf (rm_tasks m)" and "b \<noteq> addr"
  shows "hm_get (rm_tasks (task_step fl b out pc m)) addr = hm_get (rm_tasks m) addr \<and>
    hm_get (rm_peers (task_step fl b out pc m)) addr = hm_get (rm_peers m) addr"
  using assms by (cases pc; cases out) (auto simp add: set_task_get with_peer_get hm.get_del split: option.split)

lemma task_step_config: "rm_config (task_step fl b out pc m) = rm_config m"
  by (cases pc; cases out) (auto split: option.split)

lemma manager_step_config: "rm_config (manager_step i m) = rm_config m"
  by (cases "snd i") (auto simp add: manager_step_def start_manager_def stop_manager_def track_peer_def with_entry_def
      report_connection_failure_def Let_def task_step_config split: option.split)

lemma abandoned_step:
  assumes ab: "abandoned addr m" and not: "\<forall>c. snd i \<noteq> Track addr c"
  shows "abandoned addr (manager_step i m)"
proof -
  from ab obtain p where p: "hm_get (rm_peers m) addr = Some p" "ps_retry_count p \<ge> rc_max_retry_attempts (rm_config m)"
      and at: "hm_get (rm_tasks m) addr \<in> {None, Some AtCheck, Some Leaving}" and ok: "manager_ok m"
    unfolding abandoned_def by blast
  note wf = manager_okD(1,2) [OF ok]
  have stop: "\<not> should_continue (pass_time d m) addr" for d
    using p by (simp add: should_continue_def is_ready_for_retry_def)
  have "hm_get (rm_tasks (manager_step i m)) addr \<in> {None, Some AtCheck, Some Leaving} \<and>
      (\<exists>p. hm_get (rm_peers (manager_step i m)) addr = Some p \<and> ps_retry_count p \<ge> rc_max_retry_attempts (rm_config m))"
  proof (cases "snd i")
    case Start
    with p at show ?thesis by (simp add: manager_step_def start_manager_def)
  next
    case Stop
    with p show ?thesis by (simp add: manager_step_def stop_manager_def hm.get_empty)
  next
    case (Track b c)
    with not have "b \<noteq> addr" by auto
    with Track p at wf show ?thesis
      by (auto simp add: manager_step_def track_peer_def with_entry_def map_facts)
  next
    case (Report b r)
    with p at wf show ?thesis
      by (auto simp add: manager_step_def report_connection_failure_def Let_def with_entry_def set_task_def map_facts
          mark_failed_def split: if_splits)
  next
    case (RunTask fl b out)
    then have st: "manager_step i m =
        (case hm_get (rm_tasks m) b of Some pc \<Rightarrow> task_step fl b out pc (pass_time (fst i) m) | None \<Rightarrow> pass_time (fst i) m)"
      by (simp add: manager_step_def)
    show ?thesis
    proof (cases "b = addr")
      case True
      with at p stop wf show ?thesis by (auto simp add: st set_task_get hm.get_del)
    next
      case False
      with at p wf task_step_other [of "pass_time (fst i) m" b addr fl out] show ?thesis
        by (auto simp add: st split: option.split)
    qed
  qed
  with ok show ?thesis by (simp add: abandoned_def manager_step_config reconnection.inv_step)
qed

lemma abandoned_run:
  assumes "abandoned addr m" and "\<forall>i\<in>set is. \<forall>c. snd i \<noteq> Track addr c"
  shows "attempts addr is m = 0 \<and> abandoned addr (fold manager_step is m)"
  using assms
proof (induction "is" arbitrary: m)
  case (Cons i "is")
  have "hm_get (rm_tasks m) addr \<noteq> Some AtConnect" using Cons.prems(1) by (auto simp add: abandoned_def)
  with Cons.IH [OF abandoned_step [OF Cons.prems(1)]] Cons.prems(2) show ?case by simp
qed simp

text \<open>Once a peer has used up its attempts and its task is gone, nobody tries it again: through
  any further reports, restarts and runs of tasks no connect attempt is made, until the application
  hands over a connection it made itself.\<close>

theorem exhausted_peer_is_abandoned:
  assumes "reachable = fold manager_step is (new_reconnection_manager now pool cfg)"
    and "get_peer_state addr reachable = Some p" and "ps_retry_count p = rc_max_retry_attempts (rm_config reachable)"
    and "\<not> is_reconnection_active addr reachable"
    and "\<forall>i\<in>set js. \<forall>c. snd i \<noteq> Track addr c"
  shows "attempts addr js reachable = 0 \<and>
    (\<exists>q. get_peer_state addr (fold manager_step js reachable) = Some q \<and>
       \<not> is_ready_for_retry (rm_config reachable) (rm_clock (fold manager_step js reachable)) q)"
proof -
  have "manager_ok reachable" unfolding assms(1) using new_manager_ok by (rule reconnection.inv_fold)
  with assms(2-4) have ab: "abandoned addr reachable"
    by (auto simp add: abandoned_def get_peer_state_def is_reconnection_active_def hm_has_def)
  have "rm_config (fold manager_step js m) = rm_config m" for m :: "'a reconnection_manager"
    by (induction js arbitrary: m) (simp_all add: manager_step_config)
  with abandoned_run [OF ab assms(5)] show ?thesis
    by (auto simp add: abandoned_def get_peer_state_def is_ready_for_retry_def)
qed

definition one_attempt :: reconnection_config where
  "one_attempt = default_reconnection_config\<lparr>rc_max_retry_attempts := 1\<rparr>"

theorem exhausted_peer_is_abandoned_witness:
  "\<exists>m :: nat reconnection_manager. attempts ''p'' [(0, Report ''p'' ''again''), (0, RunTask sample_floats ''p'' (ConnectOk 1))] m = 0"
proof -
  define ins where "ins = (0 :: nat, Report ''p'' ''lost'') # task_inputs ''p'' (replicate 4 (0, sample_floats, ConnectError ''refused'' :: nat connect_outcome))"
  define m where "m = fold manager_step ins (new_reconnection_manager 0 [] one_attempt)"
  have m: "map_option ps_retry_count (get_peer_state ''p'' m) = Some 1 \<and> rm_tasks m = [] \<and> rm_config m = one_attempt"
    by (simp add: m_def ins_def task_inputs_def numeral_eq_Suc run_task) (simp add: manager_step_def report_connection_failure_def with_entry_def is_reconnection_active_def set_task_def
        new_reconnection_manager_def pass_time_def hm_or_insert_def hm_has_def hm_get_def hm_put_def hm_modify_def
        hm_del_def should_continue_def is_ready_for_retry_def with_peer_def peer_defs new_peer_state_def
        one_attempt_def default_reconnection_config_def get_peer_state_def)
  then obtain p where p: "get_peer_state ''p'' m = Some p" "ps_retry_count p = rc_max_retry_attempts (rm_config m)"
    by (auto simp add: one_attempt_def)
  have "\<not> is_reconnection_active ''p'' m" using m by (simp add: is_reconnection_active_def hm_has_def hm.get_empty)
  from exhausted_peer_is_abandoned [OF m_def p this, of "[(0, Report ''p'' ''again''), (0, RunTask sample_floats ''p'' (ConnectOk 1))]"]
  show ?thesis by (intro exI [of _ m]) simp
qed

end
