(* ===== verification/Pairing.thy ===== *)
theory Pairing
  imports Containers Machines Quic_Errors
begin

text \<open>
  Pairing by passphrase (\<open>landro-quic/src/pairing.rs\<close>).  The constant-time comparison of bytes is
  equality here; the device identity of a context, which nothing sets, is left out.
\<close>

section \<open>Contexts\<close>

datatype pairing_state = WaitingForPassphrase | PairingCompleted | PairingRejected string

record pairing_context =
  pc_state :: pairing_state
  pc_expected :: "string option"

definition new_context :: pairing_context where
  "new_context = \<lparr>pc_state = WaitingForPassphrase, pc_expected = None\<rparr>"

definition set_passphrase :: "string \<Rightarrow> pairing_context \<Rightarrow> pairing_context" where
  "set_passphrase p c = c\<lparr>pc_expected := Some p\<rparr>"

definition verify_passphrase :: "string \<Rightarrow> pairing_context \<Rightarrow> bool \<times> pairing_context" where
  "verify_passphrase received c =
     (case pc_expected c of
        Some expected \<Rightarrow>
          let matches = (if length expected = length received then expected = received else False) in
          if matches then (True, c\<lparr>pc_state := PairingCompleted\<rparr>)
          else (False, c\<lparr>pc_state := PairingRejected ''Passphrase mismatch''\<rparr>)
      | None \<Rightarrow> (False, c\<lparr>pc_state := PairingRejected ''No passphrase set''\<rparr>))"

definition is_complete :: "pairing_context \<Rightarrow> bool" where
  "is_complete c \<longleftrightarrow> (case pc_state c of PairingCompleted \<Rightarrow> True | _ \<Rightarrow> False)"

section \<open>The manager\<close>

definition pairing_failed :: "string \<Rightarrow> quic_error" where
  "pairing_failed reason = PairingErr (''Pairing failed: '' @ reason)"

type_synonym pairing_manager = "(string, pairing_context) hmap"

definition start_pairing :: "string \<Rightarrow> string \<Rightarrow> pairing_manager \<Rightarrow> pairing_manager" where
  "start_pairing d p m = hm_put d (set_passphrase p new_context) m"

definition verify_pairing :: "string \<Rightarrow> string \<Rightarrow> pairing_manager \<Rightarrow> (quic_error + bool) \<times> pairing_manager" where
  "verify_pairing d p m =
     (case hm_get m d of
        Some c \<Rightarrow> let (b, c1) = verify_passphrase p c in (Inr b, hm_modify d (\<lambda>_. c1) m)
      | None \<Rightarrow> (Inl (pairing_failed ''No pairing context found''), m))"

definition is_paired :: "string \<Rightarrow> pairing_manager \<Rightarrow> bool" where
  "is_paired d m \<longleftrightarrow> (case hm_get m d of Some c \<Rightarrow> is_complete c | None \<Rightarrow> False)"

datatype pairing_op = StartPairing string string | VerifyPairing string string

fun pairing_step :: "pairing_op \<Rightarrow> pairing_manager \<Rightarrow> pairing_manager" where
  "pairing_step (StartPairing d p) m = start_pairing d p m"
| "pairing_step (VerifyPairing d p) m = snd (verify_pairing d p m)"

interpretation pairing: machine pairing_step hm_wf
proof
  fix m :: pairing_manager and i
  assume "hm_wf m"
  then show "hm_wf (pairing_step i m)"
    by (cases i) (auto simp add: start_pairing_def verify_pairing_def hm.wf_put split: option.split prod.split)
qed

section \<open>The state as a function of the history\<close>

fun device_of :: "pairing_op \<Rightarrow> string" where
  "device_of (StartPairing d p) = d"
| "device_of (VerifyPairing d p) = d"

text \<open>The passphrase of the last start for a device.\<close>

fun last_passphrase :: "string \<Rightarrow> pairing_op list \<Rightarrow> string option" where
  "last_passphrase d [] = None"
| "last_passphrase d (i # is) =
     (case last_passphrase d is of
        Some p \<Rightarrow> Some p
      | None \<Rightarrow> (case i of StartPairing e p \<Rightarrow> if e = d then Some p else None | VerifyPairing e p \<Rightarrow> None))"

lemma last_passphrase_snoc:
  "last_passphrase d (is @ [i]) =
     (case i of StartPairing e p \<Rightarrow> if e = d then Some p else last_passphrase d is | VerifyPairing e p \<Rightarrow> last_passphrase d is)"
  by (induction "is") (auto split: option.splits pairing_op.splits)

lemma pairing_step_other:
  assumes "hm_wf m" and "device_of i \<noteq> d"
  shows "hm_get (pairing_step i m) d = hm_get m d"
  using assms by (cases i)
    (auto simp add: start_pairing_def verify_pairing_def hm.get_put hm_get_modify split: option.split prod.split)

lemma expected_is_last:
  "map_option pc_expected (hm_get (fold pairing_step is []) d) = map_option Some (last_passphrase d is)"
proof (induction "is" rule: rev_induct)
  case Nil
  then show ?case by (simp add: hm.get_empty)
next
  case (snoc i "is")
  have wf: "hm_wf (fold pairing_step is [])" using hm.wf_empty by (rule pairing.inv_fold)
  show ?case
  proof (cases "device_of i = d")
    case True
    with snoc.IH wf show ?thesis
      by (cases i) (auto simp add: last_passphrase_snoc start_pairing_def verify_pairing_def verify_passphrase_def
          set_passphrase_def hm.get_put hm_get_modify Let_def split: option.splits prod.splits)
  next
    case False
    with snoc.IH pairing_step_other [OF wf False] show ?thesis
      by (cases i) (auto simp add: last_passphrase_snoc)
  qed
qed

lemma verify_step:
  assumes "hm_wf m"
  shows "is_paired d (pairing_step (VerifyPairing d a) m) \<longleftrightarrow> map_option pc_expected (hm_get m d) = Some (Some a)"
  using assms by (auto simp add: is_paired_def verify_pairing_def verify_passphrase_def hm_get_modify is_complete_def
      Let_def split: option.splits prod.splits)

text \<open>Through any starts and verifications a device is paired exactly when the last thing that
  happened to it was a verification with the passphrase of the last start for it.\<close>

theorem paired_iff_last_verification_right:
  "is_paired d (fold pairing_step ops []) \<longleftrightarrow>
     (\<exists>pre a post. ops = pre @ VerifyPairing d a # post \<and> d \<notin> device_of ` set post \<and> last_passphrase d pre = Some a)"
proof (induction ops rule: rev_induct)
  case Nil
  then show ?case by (simp add: is_paired_def hm.get_empty)
next
  case (snoc i ops)
  have wf: "hm_wf (fold pairing_step ops [])" using hm.wf_empty by (rule pairing.inv_fold)
  show ?case
  proof (cases "device_of i = d")
    case False
    then have "is_paired d (fold pairing_step (ops @ [i]) []) \<longleftrightarrow> is_paired d (fold pairing_step ops [])"
      using pairing_step_other [OF wf False] by (simp add: is_paired_def)
    also have "\<dots> \<longleftrightarrow> (\<exists>pre a post. ops @ [i] = pre @ VerifyPairing d a # post \<and> d \<notin> device_of ` set post \<and>
        last_passphrase d pre = Some a)" (is "_ \<longleftrightarrow> ?R")
    proof
      assume "is_paired d (fold pairing_step ops [])"
      then obtain pre a post where "ops = pre @ VerifyPairing d a # post" "d \<notin> device_of ` set post"
          "last_passphrase d pre = Some a" using snoc.IH by blast
      with False show ?R by (intro exI [of _ pre] exI [of _ a] exI [of _ "post @ [i]"]) auto
    next
      assume ?R
      then obtain pre a post where r: "ops @ [i] = pre @ VerifyPairing d a # post" "d \<notin> device_of ` set post"
          "last_passphrase d pre = Some a" by blast
      have "post \<noteq> []" using r(1) False by auto
      then obtain rest where "post = rest @ [i]" "ops = pre @ VerifyPairing d a # rest"
        using r(1) by (cases post rule: rev_cases) auto
      with r snoc.IH show "is_paired d (fold pairing_step ops [])" by auto
    qed
    finally show ?thesis .
  next
    case True
    have at_end: "(\<exists>pre a post. ops @ [i] = pre @ VerifyPairing d a # post \<and> d \<notin> device_of ` set post \<and> last_passphrase d pre = Some a)
        \<longleftrightarrow> (\<exists>a. i = VerifyPairing d a \<and> last_passphrase d ops = Some a)" (is "?L \<longleftrightarrow> ?R")
    proof
      assume ?L
      then obtain pre a post where r: "ops @ [i] = pre @ VerifyPairing d a # post" "d \<notin> device_of ` set post"
          "last_passphrase d pre = Some a" by blast
      have "post = []" using r(1,2) True by (cases post rule: rev_cases) auto
      with r show ?R by auto
    next
      assume ?R
      then obtain a where "i = VerifyPairing d a" "last_passphrase d ops = Some a" by blast
      then show ?L by (intro exI [of _ ops] exI [of _ a] exI [of _ "[]"]) simp
    qed
    show ?thesis
    proof (cases i)
      case (StartPairing e p)
      with True at_end wf show ?thesis
        by (simp add: is_paired_def start_pairing_def hm.get_put is_complete_def set_passphrase_def new_context_def)
    next
      case (VerifyPairing e a)
      with True at_end verify_step [OF wf, of d a] expected_is_last [of ops d] show ?thesis by auto
    qed
  qed
qed

text \<open>Nothing limits guessing: after any number of guesses, wrong ones included, the right
  passphrase still pairs the device, and one wrong guess afterwards unpairs it.\<close>

theorem guesses_are_unlimited:
  "is_paired d (fold pairing_step (ops @ StartPairing d p # map (VerifyPairing d) guesses @ [VerifyPairing d p]) []) \<and>
   (wrong \<noteq> p \<longrightarrow>
     \<not> is_paired d (fold pairing_step (ops @ StartPairing d p # map (VerifyPairing d) guesses @ [VerifyPairing d p, VerifyPairing d wrong]) []))"
proof -
  let ?h = "ops @ StartPairing d p # map (VerifyPairing d) guesses"
  have wf: "hm_wf (fold pairing_step xs [])" for xs using hm.wf_empty by (rule pairing.inv_fold)
  have last: "last_passphrase d (xs @ map (VerifyPairing d) gs) = last_passphrase d xs" for xs gs
    by (induction gs rule: rev_induct) (simp_all add: last_passphrase_snoc flip: append_assoc)
  have "last_passphrase d ?h = Some p"
    using last [of "ops @ [StartPairing d p]" guesses] by (simp add: last_passphrase_snoc)
  moreover have "last_passphrase d (?h @ [VerifyPairing d p]) = Some p"
    using calculation by (simp only: last_passphrase_snoc) simp
  ultimately show ?thesis
    using verify_step [OF wf, of d p ?h] verify_step [OF wf, of d wrong "?h @ [VerifyPairing d p]"]
      expected_is_last [of ?h d] expected_is_last [of "?h @ [VerifyPairing d p]" d] by auto
qed

theorem guesses_are_unlimited_witness:
  "\<not> is_paired ''d'' (fold pairing_step ([] @ StartPairing ''d'' ''k'' # map (VerifyPairing ''d'') [''a'', ''b''] @
     [VerifyPairing ''d'' ''k'', VerifyPairing ''d'' ''z'']) [])"
  using guesses_are_unlimited [of "''d''" "[]" "''k''" "[''a'', ''b'']" "''z''"] by blast

end
