(* ===== verification/Identity.thy ===== *)
theory Identity
  imports Prelude
begin

text \<open>
  Device identities (\<open>landro-crypto/src/identity.rs\<close>): identifiers, their text forms, signing, and
  the key file with its atomic replacement.

  Ed25519, BLAKE3, the hexadecimal codec and bincode are parameters.  The disk is a map from
  files to content and mode; an error or a crash stops \<open>save\<close> before it, after any prefix of the
  write, before the change of mode or before the rename.  A file name is its directory, its
  stem and its extension.  Clearing keys in memory is left out.
\<close>

section \<open>Identifiers\<close>

datatype crypto_error =
    CryptoIo
  | KeyGeneration string
  | InvalidKeyFormat string
  | CertificateGeneration string
  | CertificateValidation string
  | SignatureVerification
  | CryptoSerialization string
  | KeyNotFound
  | CertificateStorage string
  | TrustFailure string

datatype device_id = DeviceId bytes

record 'k identity_env =
  i_blake3 :: "bytes \<Rightarrow> bytes"
  i_hex :: "bytes \<Rightarrow> string"
  i_unhex :: "string \<Rightarrow> string + bytes"
  i_public :: "bytes \<Rightarrow> bytes"
  i_sign :: "bytes \<Rightarrow> bytes \<Rightarrow> 'k"
  i_key_error :: "bytes \<Rightarrow> string option"
  i_verify :: "bytes \<Rightarrow> bytes \<Rightarrow> 'k \<Rightarrow> bool"
  i_read_fails :: bool

fun id_bytes :: "device_id \<Rightarrow> bytes" where
  "id_bytes (DeviceId b) = b"

definition from_bytes :: "bytes \<Rightarrow> crypto_error + device_id" where
  "from_bytes b = (if length b \<noteq> 32 then Inl (InvalidKeyFormat ''Device ID must be 32 bytes'') else Inr (DeviceId b))"

definition to_hex :: "'k identity_env \<Rightarrow> device_id \<Rightarrow> string" where
  "to_hex env i = i_hex env (id_bytes i)"

definition hex_digit :: "nat \<Rightarrow> char" where
  "hex_digit n = (if n < 10 then char_of (48 + n) else char_of (87 + n))"

definition hex2 :: "u8 \<Rightarrow> string" where
  "hex2 b = [hex_digit (unat b div 16), hex_digit (unat b mod 16)]"

text \<open>\<open>chunks(2)\<close> and \<open>join(":")\<close> on an even number of bytes; a last odd byte would be out of range.\<close>

fun fingerprint_groups :: "bytes \<Rightarrow> string list option" where
  "fingerprint_groups [] = Some []"
| "fingerprint_groups [b] = None"
| "fingerprint_groups (a # b # bs) = map_option (\<lambda>gs. (hex2 a @ hex2 b) # gs) (fingerprint_groups bs)"

fun join_with :: "char \<Rightarrow> string list \<Rightarrow> string" where
  "join_with c [] = []"
| "join_with c [g] = g"
| "join_with c (g # gs) = g @ c # join_with c gs"

text \<open>\<open>None\<close> for the panic of the slice if the hash had fewer than 16 bytes.\<close>

definition fingerprint :: "'k identity_env \<Rightarrow> device_id \<Rightarrow> string option" where
  "fingerprint env i =
     Option.bind (subslice (i_blake3 env (id_bytes i)) 0 16) (\<lambda>b.
       map_option (join_with (CHR '':'')) (fingerprint_groups b))"

definition from_str :: "'k identity_env \<Rightarrow> string \<Rightarrow> crypto_error + device_id" where
  "from_str env s =
     (if length s = 64
      then and_then (map_err (\<lambda>e. InvalidKeyFormat (''Invalid hex string: '' @ e)) (i_unhex env s)) from_bytes
      else Inl (InvalidKeyFormat (''Invalid DeviceId string length: '' @ show_nat (length s) @
        '' (expected 64 hex characters)'')))"

section \<open>Identities\<close>

record key_path =
  kp_dir :: "string list"
  kp_stem :: string
  kp_ext :: "string option"

record device_identity =
  di_signing_key :: bytes
  di_verifying_key :: bytes
  di_device_name :: string
  di_storage_path :: "key_path option"

definition generate :: "'k identity_env \<Rightarrow> bytes \<Rightarrow> string \<Rightarrow> device_identity" where
  "generate env fresh n = \<lparr>di_signing_key = fresh, di_verifying_key = i_public env fresh,
     di_device_name = n, di_storage_path = None\<rparr>"

definition device_id_of :: "device_identity \<Rightarrow> device_id" where
  "device_id_of d = DeviceId (di_verifying_key d)"

definition sign :: "'k identity_env \<Rightarrow> device_identity \<Rightarrow> bytes \<Rightarrow> 'k" where
  "sign env d m = i_sign env (di_signing_key d) m"

definition verify_signature :: "'k identity_env \<Rightarrow> device_id \<Rightarrow> bytes \<Rightarrow> 'k \<Rightarrow> crypto_error + unit" where
  "verify_signature env i m s =
     (case i_key_error env (id_bytes i) of
        Some e \<Rightarrow> Inl (InvalidKeyFormat e)
      | None \<Rightarrow> if i_verify env (id_bytes i) m s then Inr () else Inl SignatureVerification)"

section \<open>The key file\<close>

record stored_identity =
  si_version :: u8
  si_device_name :: string
  si_private_key :: bytes

record bincode =
  b_serialize :: "stored_identity \<Rightarrow> bytes"
  b_deserialize :: "bytes \<Rightarrow> string + stored_identity"

type_synonym disk = "key_path \<Rightarrow> (bytes \<times> nat) option"

definition default_key_path :: "string list option \<Rightarrow> crypto_error + key_path" where
  "default_key_path home =
     (case home of
        None \<Rightarrow> Inl CryptoIo
      | Some h \<Rightarrow> Inr \<lparr>kp_dir = h @ [''.landropic'', ''keys''], kp_stem = ''device_identity'', kp_ext = Some ''key''\<rparr>)"

definition storage_path_for :: "string list option \<Rightarrow> key_path option \<Rightarrow> crypto_error + key_path" where
  "storage_path_for home p = (case p of Some q \<Rightarrow> Inr q | None \<Rightarrow> default_key_path home)"

definition with_extension_tmp :: "key_path \<Rightarrow> key_path" where
  "with_extension_tmp p = p\<lparr>kp_ext := Some ''tmp''\<rparr>"

definition stored_of :: "device_identity \<Rightarrow> stored_identity" where
  "stored_of d = \<lparr>si_version = 1, si_device_name = di_device_name d, si_private_key = di_signing_key d\<rparr>"

text \<open>The disk before a save, after each byte of the temporary file, after the change of its mode,
  and after the rename.  A new file gets the mode \<open>m\<close> of the process, an old one keeps its own.\<close>

definition save_states :: "bincode \<Rightarrow> nat \<Rightarrow> device_identity \<Rightarrow> key_path \<Rightarrow> disk \<Rightarrow> disk list" where
  "save_states bc m d p fs =
     (let tmp = with_extension_tmp p;
          data = b_serialize bc (stored_of d);
          created = (case fs tmp of Some (_, n) \<Rightarrow> n | None \<Rightarrow> m);
          restricted = fs(tmp \<mapsto> (data, 384))
      in [fs] @ map (\<lambda>n. fs(tmp \<mapsto> (take n data, created))) [0..<Suc (length data)] @
         [restricted, (restricted(tmp := None))(p := restricted tmp)])"

text \<open>\<open>fault\<close> says after how many of these states an operation of the file system fails, if one does.\<close>

definition save :: "bincode \<Rightarrow> nat \<Rightarrow> nat option \<Rightarrow> string list option \<Rightarrow> key_path option \<Rightarrow> device_identity \<Rightarrow> disk \<Rightarrow>
    (crypto_error + device_identity) \<times> disk" where
  "save bc m fault home p d fs =
     (case storage_path_for home p of
        Inl e \<Rightarrow> (Inl e, fs)
      | Inr q \<Rightarrow>
          let states = save_states bc m d q fs in
          case fault of
            None \<Rightarrow> (Inr (d\<lparr>di_storage_path := Some q\<rparr>), last states)
          | Some n \<Rightarrow> if Suc n < length states then (Inl CryptoIo, states ! n)
              else (Inr (d\<lparr>di_storage_path := Some q\<rparr>), last states))"

definition load :: "'k identity_env \<Rightarrow> bincode \<Rightarrow> string list option \<Rightarrow> key_path option \<Rightarrow> disk \<Rightarrow>
    crypto_error + device_identity" where
  "load env bc home p fs =
     and_then (storage_path_for home p) (\<lambda>q.
       case fs q of
         None \<Rightarrow> Inl KeyNotFound
       | Some (data, _) \<Rightarrow>
           if i_read_fails env then Inl CryptoIo
           else and_then (map_err CryptoSerialization (b_deserialize bc data)) (\<lambda>s.
             if si_version s \<noteq> 1
             then Inl (InvalidKeyFormat (''Unsupported key version: '' @ show_nat (unat (si_version s))))
             else Inr \<lparr>di_signing_key = si_private_key s, di_verifying_key = i_public env (si_private_key s),
               di_device_name = si_device_name s, di_storage_path = Some q\<rparr>))"

definition load_or_generate :: "'k identity_env \<Rightarrow> bincode \<Rightarrow> nat \<Rightarrow> nat option \<Rightarrow> string list option \<Rightarrow> bytes \<Rightarrow> string \<Rightarrow> disk \<Rightarrow>
    (crypto_error + device_identity) \<times> disk" where
  "load_or_generate env bc m fault home fresh n fs =
     (case load env bc home None fs of
        Inr d \<Rightarrow> (Inr d, fs)
      | Inl KeyNotFound \<Rightarrow> save bc m fault home None (generate env fresh n) fs
      | Inl e \<Rightarrow> (Inl e, fs))"

section \<open>What is required of the libraries\<close>

definition hex_ok :: "'k identity_env \<Rightarrow> bool" where
  "hex_ok env \<longleftrightarrow> (\<forall>b. length (i_hex env b) = 2 * length b \<and> i_unhex env (i_hex env b) = Inr b)"

definition ed25519_ok :: "'k identity_env \<Rightarrow> bool" where
  "ed25519_ok env \<longleftrightarrow> (\<forall>k. length (i_public env k) = 32 \<and> i_key_error env (i_public env k) = None \<and>
     (\<forall>m. i_verify env (i_public env k) m (i_sign env k m)))"

definition bincode_ok :: "bincode \<Rightarrow> bool" where
  "bincode_ok bc \<longleftrightarrow> (\<forall>s. b_deserialize bc (b_serialize bc s) = Inr s)"

section \<open>Text forms\<close>

lemma hex2_length: "length (hex2 b) = 2"
  by (simp add: hex2_def)

lemma fingerprint_groups_even:
  "length bs = 2 * n \<Longrightarrow> \<exists>gs. fingerprint_groups bs = Some gs \<and> length gs = n \<and> (\<forall>g\<in>set gs. length g = 4)"
proof (induction n arbitrary: bs)
  case (Suc n)
  then obtain a b cs where bs: "bs = a # b # cs" "length cs = 2 * n"
    by (cases bs; cases "tl bs") auto
  with Suc.IH [of cs] show ?case by (auto simp add: hex2_length)
qed simp

lemma join_with_length:
  "gs \<noteq> [] \<Longrightarrow> \<forall>g\<in>set gs. length g = k \<Longrightarrow> length (join_with c gs) = (k + 1) * length gs - 1"
  by (induction c gs rule: join_with.induct) auto

text \<open>An identifier survives its text form, and a text that parses is the text form of an
  identifier of 32 bytes; the fingerprint always exists and has 39 characters.\<close>

theorem device_id_round_trip:
  assumes "hex_ok env" and "\<forall>b. length (i_blake3 env b) = 32"
  shows "(length (id_bytes i) = 32 \<longrightarrow> from_str env (to_hex env i) = Inr i) \<and>
    (from_str env s = Inr j \<longrightarrow> length s = 64 \<and> length (id_bytes j) = 32) \<and>
    (\<exists>f. fingerprint env i = Some f \<and> length f = 39)"
proof (intro conjI impI)
  assume "length (id_bytes i) = 32"
  then show "from_str env (to_hex env i) = Inr i"
    using assms(1) by (cases i) (simp add: from_str_def to_hex_def hex_ok_def from_bytes_def)
next
  assume "from_str env s = Inr j"
  then show "length s = 64" and "length (id_bytes j) = 32"
    by (auto simp add: from_str_def from_bytes_def and_then_Inr_iff split: if_splits)
next
  let ?b = "take 16 (i_blake3 env (id_bytes i))"
  have b: "length ?b = 2 * 8" "subslice (i_blake3 env (id_bytes i)) 0 16 = Some ?b"
    using assms(2) by (simp_all add: subslice_ok)
  from fingerprint_groups_even [OF b(1)] obtain gs where gs: "fingerprint_groups ?b = Some gs" "length gs = 8"
      "\<forall>g\<in>set gs. length g = 4" by blast
  have "gs \<noteq> []" using gs(2) by auto
  from join_with_length [OF this gs(3), of "CHR '':''"] gs(1,2) b(2)
  show "\<exists>f. fingerprint env i = Some f \<and> length f = 39" by (simp add: fingerprint_def)
qed

section \<open>Signatures\<close>

text \<open>What a device signs verifies under the identifier of the device, also after the identity
  was saved and loaded; and an identity that is loaded has the identifier it was saved with.\<close>

theorem saved_identity_signs:
  assumes "ed25519_ok env" and "bincode_ok bc" and "d = generate env k n"
    and "save bc m fault home p d fs = (Inr d1, fs1)" and "\<not> i_read_fails env"
  shows "\<exists>d2. load env bc home p fs1 = Inr d2 \<and> device_id_of d2 = device_id_of d \<and> di_device_name d2 = n \<and>
    verify_signature env (device_id_of d) msg (sign env d2 msg) = Inr ()"
proof -
  from assms(4) obtain q where q: "storage_path_for home p = Inr q" "fs1 = last (save_states bc m d q fs)"
    by (auto simp add: save_def Let_def split: sum.splits option.splits if_splits)
  then have "\<exists>md. fs1 q = Some (b_serialize bc (stored_of d), md)"
    by (simp add: save_states_def Let_def)
  with q(1) assms(1-3,5) show ?thesis
    by (auto simp add: load_def bincode_ok_def stored_of_def generate_def device_id_of_def verify_signature_def
        ed25519_ok_def sign_def)
qed

section \<open>Crashes\<close>

lemma save_states_cases:
  assumes "fs' \<in> set (save_states bc m d p fs)" and "kp_ext p \<noteq> Some ''tmp''"
  shows "fs' p = fs p \<or> fs' p = Some (b_serialize bc (stored_of d), 384)"
proof -
  have "with_extension_tmp p \<noteq> p" using assms(2) by (cases p) (auto simp add: with_extension_tmp_def)
  with assms(1) show ?thesis by (auto simp add: save_states_def Let_def)
qed

text \<open>C28: However a save is cut short, by an error or a crash, the identity found afterwards is the one that was there before
  or the new one, never a broken one, and a key file that has changed is readable by its owner only;
  but before that the whole key is in the temporary file with the mode of the process.  A path that
  itself ends in \<open>.tmp\<close> is excluded.\<close>

theorem interrupted_save_keeps_an_identity:
  assumes "bincode_ok bc" and "kp_ext p \<noteq> Some ''tmp''"
    and "d = generate env k n" and "\<not> i_read_fails env" and "fs' \<in> set (save_states bc m d p fs)"
  shows "(load env bc home (Some p) fs' = load env bc home (Some p) fs \<or>
      load env bc home (Some p) fs' = Inr (d\<lparr>di_storage_path := Some p\<rparr>)) \<and>
    (fs' p \<noteq> fs p \<longrightarrow> (\<exists>data. fs' p = Some (data, 384))) \<and>
    (fs (with_extension_tmp p) = None \<longrightarrow>
      fs(with_extension_tmp p \<mapsto> (b_serialize bc (stored_of d), m)) \<in> set (save_states bc m d p fs)) \<and>
    snd (save bc m fault home (Some p) d fs) \<in> set (save_states bc m d p fs)"
proof -
  have "save_states bc m d p fs \<noteq> []" by (simp add: save_states_def Let_def)
  then have "snd (save bc m fault home (Some p) d fs) \<in> set (save_states bc m d p fs)"
    by (auto simp add: save_def storage_path_for_def Let_def split: option.split)
  moreover have "load env bc home (Some p) fs' = load env bc home (Some p) fs" if "fs' p = fs p"
    using that by (simp add: load_def storage_path_for_def)
  moreover have "load env bc home (Some p) fs' = Inr (d\<lparr>di_storage_path := Some p\<rparr>)"
    if "fs' p = Some (b_serialize bc (stored_of d), 384)"
    using that assms(1,3,4) by (simp add: load_def storage_path_for_def bincode_ok_def stored_of_def generate_def)
  moreover have "fs(with_extension_tmp p \<mapsto> (b_serialize bc (stored_of d), m)) \<in> set (save_states bc m d p fs)"
    if "fs (with_extension_tmp p) = None"
  proof -
    have "fs(with_extension_tmp p \<mapsto> (take (length (b_serialize bc (stored_of d))) (b_serialize bc (stored_of d)), m))
        \<in> set (save_states bc m d p fs)"
      unfolding save_states_def Let_def using that by (auto simp del: take_all)
    then show ?thesis by simp
  qed
  ultimately show ?thesis using save_states_cases [OF assms(5,2)] by metis
qed

text \<open>Loading or generating twice gives the same identity: the second call finds what the first
  one saved, whatever fresh key it would have used.\<close>

theorem load_or_generate_is_stable:
  assumes "bincode_ok bc" and "\<not> i_read_fails env"
    and "load_or_generate env bc m fault home k n fs = (Inr d, fs1)"
    and "load_or_generate env bc m' fault' home k' n' fs1 = (r, fs2)"
  shows "\<exists>d2. r = Inr d2 \<and> device_id_of d2 = device_id_of d \<and> di_device_name d2 = di_device_name d \<and> fs2 = fs1"
proof (cases "load env bc home None fs")
  case (Inr d0)
  with assms(3) have "fs1 = fs" and "d0 = d" by (simp_all add: load_or_generate_def)
  with Inr assms(4) have "r = Inr d \<and> fs2 = fs1" by (auto simp add: load_or_generate_def)
  then show ?thesis by simp
next
  case (Inl e)
  with assms(3) have e: "e = KeyNotFound" and s: "save bc m fault home None (generate env k n) fs = (Inr d, fs1)"
    by (auto simp add: load_or_generate_def split: crypto_error.splits)
  from s obtain q where q: "storage_path_for home None = Inr q" "fs1 = last (save_states bc m (generate env k n) q fs)"
      "d = (generate env k n)\<lparr>di_storage_path := Some q\<rparr>"
    by (auto simp add: save_def Let_def split: sum.splits option.splits if_splits)
  then have "\<exists>md. fs1 q = Some (b_serialize bc (stored_of (generate env k n)), md)"
    by (simp add: save_states_def Let_def)
  with q(1) assms(1,2) have "load env bc home None fs1 = Inr ((generate env k n)\<lparr>di_storage_path := Some q\<rparr>)"
    by (auto simp add: load_def bincode_ok_def stored_of_def generate_def)
  with assms(4) q(3) have "r = Inr d \<and> fs2 = fs1" by (auto simp add: load_or_generate_def)
  then show ?thesis by simp
qed

section \<open>A concrete environment\<close>

definition digit_value :: "char \<Rightarrow> nat" where
  "digit_value c = (if (of_char c :: nat) < 58 then of_char c - 48 else of_char c - 87)"

fun sample_unhex :: "string \<Rightarrow> string + bytes" where
  "sample_unhex [] = Inr []"
| "sample_unhex [c] = Inl ''Odd number of digits''"
| "sample_unhex (c # d # s) =
     and_then (sample_unhex s) (\<lambda>bs. Inr (word_of_nat (16 * digit_value c + digit_value d) # bs))"

definition sample_identity_env :: "(bytes \<times> bytes) identity_env" where
  "sample_identity_env = \<lparr>i_blake3 = (\<lambda>b. take 32 (b @ replicate 32 0)), i_hex = (\<lambda>b. concat (map hex2 b)),
     i_unhex = sample_unhex, i_public = (\<lambda>k. take 32 (k @ replicate 32 0)),
     i_sign = (\<lambda>k m. (take 32 (k @ replicate 32 0), m)), i_key_error = (\<lambda>_. None),
     i_verify = (\<lambda>p m s. s = (p, m)), i_read_fails = False\<rparr>"

fun encode_name :: "string \<Rightarrow> bytes" where
  "encode_name [] = [0]"
| "encode_name (c # s) = 1 # word_of_nat (of_char c) # encode_name s"

fun decode_name :: "bytes \<Rightarrow> string + (string \<times> bytes)" where
  "decode_name (b # bs) =
     (if b = 0 then Inr ([], bs)
      else case bs of
        [] \<Rightarrow> Inl ''io error: unexpected end of file''
      | c # r \<Rightarrow> and_then (decode_name r) (\<lambda>(s, k). Inr (char_of (unat c) # s, k)))"
| "decode_name [] = Inl ''io error: unexpected end of file''"

definition sample_bincode :: bincode where
  "sample_bincode = \<lparr>b_serialize = (\<lambda>s. si_version s # encode_name (si_device_name s) @ si_private_key s),
     b_deserialize = (\<lambda>bs. case bs of
         [] \<Rightarrow> Inl ''io error: unexpected end of file''
       | v # r \<Rightarrow> and_then (decode_name r) (\<lambda>(n, k).
           Inr \<lparr>si_version = v, si_device_name = n, si_private_key = k\<rparr>))\<rparr>"

lemma padded_length: "length (take 32 (b @ replicate 32 0)) = 32"
  by simp

lemma digit_value_hex:
  assumes "n < 16"
  shows "digit_value (hex_digit n) = n"
proof (cases "n < 10")
  case True
  then show ?thesis by (simp add: digit_value_def hex_digit_def)
next
  case False
  with assms show ?thesis by (simp add: digit_value_def hex_digit_def)
qed

lemma byte_digits_less: "unat (b :: u8) div 16 < 16"
  using unsigned_less [of b, where 'a = nat] by simp

lemma sample_unhex_hex: "sample_unhex (concat (map hex2 b)) = Inr b"
  by (induction b) (simp_all add: hex2_def digit_value_hex byte_digits_less)

lemma sample_hex_ok: "hex_ok sample_identity_env"
proof -
  have "length (concat (map hex2 b)) = 2 * length b" for b by (induction b) (simp_all add: hex2_length)
  then show ?thesis by (simp add: hex_ok_def sample_identity_env_def sample_unhex_hex)
qed

lemma sample_ed25519_ok: "ed25519_ok sample_identity_env"
  by (simp only: ed25519_ok_def sample_identity_env_def identity_env.simps padded_length simp_thms)

lemma sample_reads: "\<not> i_read_fails sample_identity_env"
  by (simp add: sample_identity_env_def)

lemma decode_encode_name: "decode_name (encode_name s @ k) = Inr (s, k)"
proof (induction s)
  case (Cons c s)
  have "unat (word_of_nat (of_char c) :: u8) = of_char c"
    by (simp add: unat_of_nat take_bit_eq_mod)
  with Cons show ?case by simp
qed simp

lemma sample_bincode_ok: "bincode_ok sample_bincode"
  by (simp add: bincode_ok_def sample_bincode_def decode_encode_name)

lemmas sample_identity_laws = sample_hex_ok sample_ed25519_ok sample_bincode_ok

theorem device_id_round_trip_witness:
  "from_str sample_identity_env (to_hex sample_identity_env (DeviceId (replicate 32 7))) = Inr (DeviceId (replicate 32 7)) \<and>
    from_bytes [7] = Inl (InvalidKeyFormat ''Device ID must be 32 bytes'')"
proof -
  have "\<forall>b. length (i_blake3 sample_identity_env b) = 32"
    by (simp only: sample_identity_env_def identity_env.simps padded_length simp_thms)
  from device_id_round_trip [OF sample_hex_ok this, where i = "DeviceId (replicate 32 7)"]
  show ?thesis by (simp add: from_bytes_def)
qed

definition sample_key_path :: key_path where
  "sample_key_path = \<lparr>kp_dir = [], kp_stem = ''device_identity'', kp_ext = Some ''key''\<rparr>"

theorem saved_identity_signs_witness:
  "\<exists>d2. load sample_identity_env sample_bincode None (Some sample_key_path)
      (snd (save sample_bincode 420 None None (Some sample_key_path) (generate sample_identity_env [1, 2] ''laptop'') Map.empty)) = Inr d2 \<and>
    verify_signature sample_identity_env (device_id_of (generate sample_identity_env [1, 2] ''laptop'')) [9]
      (sign sample_identity_env d2 [9]) = Inr ()"
proof -
  let ?d = "generate sample_identity_env [1, 2] ''laptop''"
  have "save sample_bincode 420 None None (Some sample_key_path) ?d Map.empty =
      (Inr (?d\<lparr>di_storage_path := Some sample_key_path\<rparr>),
        snd (save sample_bincode 420 None None (Some sample_key_path) ?d Map.empty))"
    by (simp add: save_def storage_path_for_def)
  from saved_identity_signs [OF sample_ed25519_ok sample_bincode_ok refl this sample_reads, where msg = "[9]"]
  show ?thesis by blast
qed

theorem interrupted_save_keeps_an_identity_witness:
  "\<exists>fs'\<in>set (save_states sample_bincode 420 (generate sample_identity_env [1, 2] ''laptop'') sample_key_path Map.empty).
    load sample_identity_env sample_bincode None (Some sample_key_path) fs' = Inl KeyNotFound \<and>
    (\<exists>data. fs' (with_extension_tmp sample_key_path) = Some (data, 420))"
proof -
  let ?d = "generate sample_identity_env [1, 2] ''laptop''"
  have p: "kp_ext sample_key_path \<noteq> Some ''tmp''" by (simp add: sample_key_path_def)
  have "Map.empty \<in> set (save_states sample_bincode 420 ?d sample_key_path Map.empty)"
    by (simp add: save_states_def Let_def)
  from interrupted_save_keeps_an_identity [OF sample_bincode_ok p refl sample_reads this]
  have "Map.empty(with_extension_tmp sample_key_path \<mapsto> (b_serialize sample_bincode (stored_of ?d), 420))
      \<in> set (save_states sample_bincode 420 ?d sample_key_path Map.empty)" by simp
  then show ?thesis
    by (rule bexI [rotated]) (simp add: load_def storage_path_for_def with_extension_tmp_def sample_key_path_def)
qed

theorem load_or_generate_is_stable_witness:
  "\<exists>d d2 fs1.
    load_or_generate sample_identity_env sample_bincode 420 None (Some []) [1, 2] ''laptop'' Map.empty = (Inr d, fs1) \<and>
    load_or_generate sample_identity_env sample_bincode 420 None (Some []) [3] ''other'' fs1 = (Inr d2, fs1) \<and>
    device_id_of d2 = device_id_of d"
proof -
  obtain d fs1 where 1: "load_or_generate sample_identity_env sample_bincode 420 None (Some []) [1, 2] ''laptop'' Map.empty =
      (Inr d, fs1)"
    by (simp add: load_or_generate_def load_def storage_path_for_def default_key_path_def save_def)
  obtain r fs2 where 2: "load_or_generate sample_identity_env sample_bincode 420 None (Some []) [3] ''other'' fs1 = (r, fs2)"
    by (cases "load_or_generate sample_identity_env sample_bincode 420 None (Some []) [3] ''other'' fs1")
  from load_or_generate_is_stable [OF sample_bincode_ok sample_reads 1 2] 1 2 show ?thesis by blast
qed

end
