(* ===== verification/Certificates.thy ===== *)
theory Certificates
  imports Identity Containers Codec
begin

text \<open>
  Certificates of devices: their generation, the list of trusted devices with its pinned
  certificates and its directory (\<open>landro-crypto/src/certificate.rs\<close>), and the checks of a peer
  during the handshake (\<open>landro-crypto/src/secure_verifier.rs\<close>).

  Generating and parsing X.509, PEM and the file system are parameters.  A parsed certificate is what
  the code can read of it, and its public key, which the code does not look at; that the peer holds
  the private key is checked by rustls.  A directory lists its files as stem, extension and content.
\<close>

section \<open>Parameters\<close>

record x509 =
  x_not_before :: int
  x_not_after :: int
  x_issuer :: bytes
  x_subject :: bytes
  x_extensions :: "(string \<times> bytes) list"
  x_public_key :: bytes

datatype san = DnsName string | IpAddress bytes

record cert_params =
  cp_not_before :: int
  cp_not_after :: int
  cp_distinguished_name :: "(string \<times> string) list"
  cp_alt_names :: "san list"
  cp_custom_extensions :: "(nat list \<times> bytes) list"

type_synonym file_name = "string \<times> string option"
type_synonym directory = "(file_name, string) hmap"

record cert_env =
  x_parse :: "bytes \<Rightarrow> x509 option"
  x_new_params :: "string \<Rightarrow> string + unit"
  x_dns_name :: "string \<Rightarrow> string + unit"
  x_parse_ip :: "string \<Rightarrow> bytes option"
  x_self_signed :: "cert_params \<Rightarrow> bytes \<Rightarrow> string + bytes"
  x_pem_encode :: "string \<Rightarrow> bytes \<Rightarrow> string"
  x_pem_parse :: "string \<Rightarrow> string + (string \<times> bytes)"
  x_create_dir :: "string option"
  x_write_error :: "file_name \<Rightarrow> nat option"
  x_read_dir :: "string option"
  x_next_entry :: "nat \<Rightarrow> string option"
  x_read_error :: "file_name \<Rightarrow> string option"

section \<open>Generation\<close>

definition device_id_oid :: "nat list" where
  "device_id_oid = [1, 3, 6, 1, 4, 1, 99999, 1]"

definition generate_device_certificate :: "cert_env \<Rightarrow> string + bytes \<Rightarrow> int \<Rightarrow> device_identity \<Rightarrow>
    crypto_error + (bytes list \<times> bytes)" where
  "generate_device_certificate env key now d =
     and_then (map_err CertificateGeneration (x_new_params env (di_device_name d))) (\<lambda>_.
     and_then (map_err (\<lambda>e. CertificateGeneration (''Invalid DNS name: '' @ e)) (x_dns_name env (di_device_name d))) (\<lambda>_.
       let params = \<lparr>cp_not_before = now, cp_not_after = now + 365 * 5 * 86400,
             cp_distinguished_name = [(''CommonName'', di_device_name d), (''OrganizationName'', ''Landropic'')],
             cp_alt_names = [DnsName (di_device_name d), IpAddress [127, 0, 0, 1], IpAddress (replicate 15 0 @ [1])],
             cp_custom_extensions = [(device_id_oid, id_bytes (device_id_of d))]\<rparr> in
       and_then (map_err CertificateGeneration key) (\<lambda>key_pair.
       and_then (map_err CertificateGeneration (x_self_signed env params key_pair)) (\<lambda>cert_der.
         Inr ([cert_der], key_pair)))))"

definition generate_ephemeral_certificate :: "cert_env \<Rightarrow> string + bytes \<Rightarrow> int \<Rightarrow> string \<Rightarrow>
    crypto_error + (bytes list \<times> bytes)" where
  "generate_ephemeral_certificate env key now hostname =
     and_then (map_err CertificateGeneration (x_new_params env hostname)) (\<lambda>_.
     and_then (map_err (\<lambda>e. CertificateGeneration (''Invalid DNS name: '' @ e)) (x_dns_name env hostname)) (\<lambda>_.
       let params = \<lparr>cp_not_before = now, cp_not_after = now + 7 * 86400,
             cp_distinguished_name = [(''CommonName'', hostname)],
             cp_alt_names = DnsName hostname # (case x_parse_ip env hostname of Some ip \<Rightarrow> [IpAddress ip] | None \<Rightarrow> []),
             cp_custom_extensions = []\<rparr> in
       and_then (map_err CertificateGeneration key) (\<lambda>key_pair.
       and_then (map_err CertificateGeneration (x_self_signed env params key_pair)) (\<lambda>cert_der.
         Inr ([cert_der], key_pair)))))"

section \<open>Trusted devices\<close>

record cert_verifier =
  cv_trusted :: "device_id list"
  cv_pinned :: "(device_id, bytes) hmap"
  cv_allow_untrusted :: bool

definition new_verifier :: "device_id list \<Rightarrow> cert_verifier" where
  "new_verifier ids = \<lparr>cv_trusted = ids, cv_pinned = [], cv_allow_untrusted = False\<rparr>"

definition for_pairing :: cert_verifier where
  "for_pairing = \<lparr>cv_trusted = [], cv_pinned = [], cv_allow_untrusted = True\<rparr>"

definition add_trusted_device :: "device_id \<Rightarrow> cert_verifier \<Rightarrow> cert_verifier" where
  "add_trusted_device i v = (if i \<in> set (cv_trusted v) then v else v\<lparr>cv_trusted := cv_trusted v @ [i]\<rparr>)"

definition remove_trusted_device :: "device_id \<Rightarrow> cert_verifier \<Rightarrow> bool \<times> cert_verifier" where
  "remove_trusted_device i v =
     (if i \<in> set (cv_trusted v) then (True, v\<lparr>cv_trusted := remove1 i (cv_trusted v)\<rparr>) else (False, v))"

definition add_trusted_device_with_cert :: "device_id \<Rightarrow> bytes \<Rightarrow> cert_verifier \<Rightarrow> cert_verifier" where
  "add_trusted_device_with_cert i c v =
     (let v1 = (if i \<in> set (cv_trusted v) then v else v\<lparr>cv_trusted := cv_trusted v @ [i]\<rparr>)
      in v1\<lparr>cv_pinned := hm_put i c (cv_pinned v1)\<rparr>)"

definition is_trusted :: "cert_verifier \<Rightarrow> device_id \<Rightarrow> bool" where
  "is_trusted v i \<longleftrightarrow> cv_allow_untrusted v \<or> i \<in> set (cv_trusted v)"

definition get_pinned_certificate :: "cert_verifier \<Rightarrow> device_id \<Rightarrow> bytes option" where
  "get_pinned_certificate v i = hm_get (cv_pinned v) i"

definition verify_pinned_certificate :: "cert_verifier \<Rightarrow> device_id \<Rightarrow> bytes \<Rightarrow> bool" where
  "verify_pinned_certificate v i c = (case get_pinned_certificate v i of Some p \<Rightarrow> p = c | None \<Rightarrow> False)"

fun find_device_id :: "(string \<times> bytes) list \<Rightarrow> device_id option" where
  "find_device_id [] = None"
| "find_device_id ((oid, value) # es) =
     (if oid = ''1.3.6.1.4.1.99999.1'' \<and> length value = 32 then Some (DeviceId value) else find_device_id es)"

definition extract_device_id :: "cert_env \<Rightarrow> bytes \<Rightarrow> device_id option" where
  "extract_device_id env c = (case x_parse env c of Some x \<Rightarrow> find_device_id (x_extensions x) | None \<Rightarrow> None)"

section \<open>The directory of trusted certificates\<close>

definition cert_file :: "'k identity_env \<Rightarrow> device_id \<Rightarrow> file_name" where
  "cert_file ie i = (to_hex ie i, Some ''pem'')"

text \<open>A write that fails leaves the first \<open>n\<close> characters.\<close>

fun save_each :: "'k identity_env \<Rightarrow> cert_env \<Rightarrow> (device_id \<times> bytes) list \<Rightarrow> directory \<Rightarrow>
    (crypto_error + unit) \<times> directory" where
  "save_each ie env [] d = (Inr (), d)"
| "save_each ie env ((i, c) # cs) d =
     (let f = cert_file ie i; pem = x_pem_encode env ''CERTIFICATE'' c in
      case x_write_error env f of
        Some n \<Rightarrow> (Inl (CertificateStorage ''Failed to write certificate''), hm_put f (take n pem) d)
      | None \<Rightarrow> save_each ie env cs (hm_put f pem d))"

definition save_trusted_certificates :: "'k identity_env \<Rightarrow> cert_env \<Rightarrow>
    ((device_id \<times> bytes) list \<Rightarrow> (device_id \<times> bytes) list) \<Rightarrow> cert_verifier \<Rightarrow> directory option \<Rightarrow>
    (crypto_error + unit) \<times> directory option" where
  "save_trusted_certificates ie env it v d =
     (case x_create_dir env of
        Some e \<Rightarrow> (Inl (CertificateStorage (''Failed to create cert directory: '' @ e)), d)
      | None \<Rightarrow> map_prod id Some (save_each ie env (it (cv_pinned v)) (case d of Some fs \<Rightarrow> fs | None \<Rightarrow> [])))"

definition load_certificate_file :: "cert_env \<Rightarrow> file_name \<Rightarrow> string \<Rightarrow> crypto_error + bytes" where
  "load_certificate_file env f text =
     (case x_read_error env f of
        Some e \<Rightarrow> Inl (CertificateStorage (''Failed to read certificate file: '' @ e))
      | None \<Rightarrow>
          and_then (map_err (\<lambda>e. CertificateValidation (''Invalid PEM format: '' @ e)) (x_pem_parse env text)) (\<lambda>(tag, bs).
            if tag \<noteq> ''CERTIFICATE'' then Inl (CertificateValidation ''Not a certificate PEM'') else Inr bs))"

definition load_entry :: "'k identity_env \<Rightarrow> cert_env \<Rightarrow> file_name \<times> string \<Rightarrow> cert_verifier \<Rightarrow> cert_verifier" where
  "load_entry ie env e v =
     (if snd (fst e) = Some ''pem''
      then case from_str ie (fst (fst e)) of
          Inl _ \<Rightarrow> v
        | Inr i \<Rightarrow> (case load_certificate_file env (fst e) (snd e) of
              Inr c \<Rightarrow> add_trusted_device_with_cert i c v
            | Inl _ \<Rightarrow> v)
      else v)"

fun load_each :: "'k identity_env \<Rightarrow> cert_env \<Rightarrow> nat \<Rightarrow> directory \<Rightarrow> cert_verifier \<Rightarrow>
    (crypto_error + unit) \<times> cert_verifier" where
  "load_each ie env n [] v =
     (case x_next_entry env n of
        Some err \<Rightarrow> (Inl (CertificateStorage (''Failed to read directory entry: '' @ err)), v)
      | None \<Rightarrow> (Inr (), v))"
| "load_each ie env n (e # es) v =
     (case x_next_entry env n of
        Some err \<Rightarrow> (Inl (CertificateStorage (''Failed to read directory entry: '' @ err)), v)
      | None \<Rightarrow> load_each ie env (Suc n) es (load_entry ie env e v))"

text \<open>\<open>ls\<close> is the order in which the directory is listed.\<close>

definition load_trusted_certificates :: "'k identity_env \<Rightarrow> cert_env \<Rightarrow> (directory \<Rightarrow> directory) \<Rightarrow> directory option \<Rightarrow> cert_verifier \<Rightarrow>
    (crypto_error + unit) \<times> cert_verifier" where
  "load_trusted_certificates ie env ls d v =
     (case d of
        None \<Rightarrow> (Inr (), v)
      | Some es \<Rightarrow> (case x_read_dir env of
            Some e \<Rightarrow> (Inl (CertificateStorage (''Failed to read cert directory: '' @ e)), v)
          | None \<Rightarrow> load_each ie env 0 (ls es) v))"

section \<open>The handshake\<close>

datatype rustls_error = BadEncoding | Expired | UnknownIssuer | OtherCertificateError crypto_error

definition expired :: "x509 \<Rightarrow> u64 \<Rightarrow> bool" where
  "expired x now \<longleftrightarrow> word_of_int (x_not_before x) > now \<or> word_of_int (x_not_after x) < now"

definition verify_self_signature :: "cert_env \<Rightarrow> bytes \<Rightarrow> crypto_error + unit" where
  "verify_self_signature env c =
     (case x_parse env c of
        None \<Rightarrow> Inl (CertificateValidation ''Failed to parse certificate'')
      | Some x \<Rightarrow> if x_issuer x \<noteq> x_subject x
          then Inl (CertificateValidation ''Certificate is not self-signed'') else Inr ())"

text \<open>The checks from the identifier on are the same for a server and for a client.\<close>

definition no_device_id :: rustls_error where
  "no_device_id = OtherCertificateError (CertificateValidation ''No device ID found in certificate'')"

definition pin_mismatch :: rustls_error where
  "pin_mismatch = OtherCertificateError (CertificateValidation ''Certificate does not match pinned certificate'')"

text \<open>The payloads of the first and of the missing key are left out.\<close>

fun crypto_error_text :: "crypto_error \<Rightarrow> string" where
  "crypto_error_text CryptoIo = ''IO error: ''"
| "crypto_error_text (KeyGeneration s) = ''Key generation failed: '' @ s"
| "crypto_error_text (InvalidKeyFormat s) = ''Invalid key format: '' @ s"
| "crypto_error_text (CertificateGeneration s) = ''Certificate generation failed: '' @ s"
| "crypto_error_text (CertificateValidation s) = ''Certificate validation failed: '' @ s"
| "crypto_error_text SignatureVerification = ''Signature verification failed''"
| "crypto_error_text (CryptoSerialization s) = ''Serialization error: '' @ s"
| "crypto_error_text KeyNotFound = ''Key not found at path: ''"
| "crypto_error_text (CertificateStorage s) = ''Certificate storage error: '' @ s"
| "crypto_error_text (TrustFailure s) = ''Certificate trust error: '' @ s"

definition verify_server_cert :: "cert_env \<Rightarrow> cert_verifier \<Rightarrow> bool \<Rightarrow> bytes \<Rightarrow> bytes list \<Rightarrow> u64 \<Rightarrow> rustls_error + unit" where
  "verify_server_cert env v allow_self_signed end_entity intermediates now =
     (case x_parse env end_entity of
        None \<Rightarrow> Inl BadEncoding
      | Some x \<Rightarrow>
          if expired x now then Inl Expired
          else if \<not> allow_self_signed then Inl UnknownIssuer
          else case extract_device_id env end_entity of
            None \<Rightarrow> Inl no_device_id
          | Some i \<Rightarrow>
              if \<not> is_trusted v i then Inl UnknownIssuer
              else if (case get_pinned_certificate v i of Some p \<Rightarrow> p \<noteq> end_entity | None \<Rightarrow> False) then Inl pin_mismatch
              else case verify_self_signature env end_entity of
                Inl e \<Rightarrow> Inl (OtherCertificateError (CertificateValidation
                  (''Self-signature verification failed: '' @ crypto_error_text e)))
              | Inr _ \<Rightarrow> if intermediates \<noteq> [] then Inl BadEncoding else Inr ())"

definition verify_client_cert :: "cert_env \<Rightarrow> cert_verifier \<Rightarrow> bytes \<Rightarrow> bytes list \<Rightarrow> u64 \<Rightarrow> rustls_error + unit" where
  "verify_client_cert env v end_entity intermediates now =
     (case x_parse env end_entity of
        None \<Rightarrow> Inl BadEncoding
      | Some x \<Rightarrow>
          if expired x now then Inl Expired
          else case extract_device_id env end_entity of
            None \<Rightarrow> Inl no_device_id
          | Some i \<Rightarrow>
              if \<not> is_trusted v i then Inl UnknownIssuer
              else if (case get_pinned_certificate v i of Some p \<Rightarrow> p \<noteq> end_entity | None \<Rightarrow> False) then Inl pin_mismatch
              else case verify_self_signature env end_entity of
                Inl e \<Rightarrow> Inl (OtherCertificateError (CertificateValidation
                  (''Self-signature verification failed: '' @ crypto_error_text e)))
              | Inr _ \<Rightarrow> if intermediates \<noteq> [] then Inl BadEncoding else Inr ())"

text \<open>What \<open>TlsConfig::client_config\<close> and \<open>server_config\<close> install: the client checks its server with
  self-signed certificates allowed.\<close>

definition client_accepts :: "cert_env \<Rightarrow> cert_verifier \<Rightarrow> bytes \<Rightarrow> bytes list \<Rightarrow> u64 \<Rightarrow> rustls_error + unit" where
  "client_accepts env v = verify_server_cert env v True"

definition server_accepts :: "cert_env \<Rightarrow> cert_verifier \<Rightarrow> bytes \<Rightarrow> bytes list \<Rightarrow> u64 \<Rightarrow> rustls_error + unit" where
  "server_accepts env v = verify_client_cert env v"

definition client_config_pairing :: "crypto_error + cert_verifier" where
  "client_config_pairing = Inl (CertificateGeneration
     ''Deprecated dangerous pairing config - use client_config_secure_pairing instead'')"

text \<open>The verifiers the programs start with; no caller ever adds a device to one.\<close>

definition orchestrator_verifier :: cert_verifier where
  "orchestrator_verifier = new_verifier []"

definition daemon_verifier :: cert_verifier where
  "daemon_verifier = for_pairing"

section \<open>What is required of the libraries\<close>

definition oid_text :: "nat list \<Rightarrow> string" where
  "oid_text ns = join_with (CHR ''.'') (map show_nat ns)"

text \<open>A certificate that rcgen signs parses to what was asked for, has the name of its subject as its
  issuer, carries the public key, and has no other extension under a number of ours.\<close>

definition x509_ok :: "cert_env \<Rightarrow> (bytes \<Rightarrow> bytes) \<Rightarrow> bool" where
  "x509_ok env public \<longleftrightarrow>
     (\<forall>p k c. x_self_signed env p k = Inr c \<longrightarrow>
        (\<exists>x. x_parse env c = Some x \<and> x_not_before x = cp_not_before p \<and> x_not_after x = cp_not_after p \<and>
           x_issuer x = x_subject x \<and> x_public_key x = public k \<and>
           filter (\<lambda>e. fst e = oid_text device_id_oid) (x_extensions x) =
             [(oid_text n, b). (n, b) \<leftarrow> cp_custom_extensions p, n = device_id_oid]))"

definition pem_ok :: "cert_env \<Rightarrow> bool" where
  "pem_ok env \<longleftrightarrow> (\<forall>t b. x_pem_parse env (x_pem_encode env t b) = Inr (t, b))"

definition storage_works :: "cert_env \<Rightarrow> bool" where
  "storage_works env \<longleftrightarrow> x_create_dir env = None \<and> x_read_dir env = None \<and>
     (\<forall>f. x_write_error env f = None \<and> x_read_error env f = None) \<and> (\<forall>n. x_next_entry env n = None)"

section \<open>Who is accepted\<close>

lemmas verification_defs = verify_server_cert_def verify_client_cert_def verify_self_signature_def extract_device_id_def

lemma verify_server_cert_Inr_iff:
  "verify_server_cert env v a c ints now = Inr () \<longleftrightarrow>
    a \<and> ints = [] \<and> (\<exists>x i. x_parse env c = Some x \<and> \<not> expired x now \<and> find_device_id (x_extensions x) = Some i \<and>
      is_trusted v i \<and> get_pinned_certificate v i \<in> {None, Some c} \<and> x_issuer x = x_subject x)"
  by (auto simp add: verification_defs split: option.split)

lemma verify_client_cert_eq: "verify_client_cert env v c ints now = verify_server_cert env v True c ints now"
  by (simp add: verification_defs cong: option.case_cong)

text \<open>A peer is accepted, as a server and as a client alike, exactly if it sends one certificate that
  parses, is valid now, names itself as its issuer and carries a trusted identifier that is not
  pinned to another certificate.\<close>

theorem accepted_certificates:
  "(client_accepts env v c ints now = Inr () \<longleftrightarrow>
      ints = [] \<and> (\<exists>x i. x_parse env c = Some x \<and> \<not> expired x now \<and> find_device_id (x_extensions x) = Some i \<and>
        is_trusted v i \<and> get_pinned_certificate v i \<in> {None, Some c} \<and> x_issuer x = x_subject x)) \<and>
    server_accepts env v c ints now = client_accepts env v c ints now \<and>
    verify_server_cert env v False c ints now \<noteq> Inr ()"
proof -
  have "verify_server_cert env v False c ints now \<noteq> Inr ()"
    using verify_server_cert_Inr_iff [of env v False] by blast
  then show ?thesis
    by (simp add: client_accepts_def server_accepts_def verify_client_cert_eq verify_server_cert_Inr_iff [of env v True])
qed

text \<open>The identifier in a certificate is not bound to a key: if the certificate of a trusted device
  that is not pinned is accepted, so is a certificate of the same content for any other public key.
  For a pinned device only the pinned bytes are accepted.\<close>

theorem identifier_is_not_bound_to_a_key:
  assumes "client_accepts env v c [] now = Inr ()" and "x_parse env c = Some x"
    and "find_device_id (x_extensions x) = Some i" and "x_parse env c' = Some (x\<lparr>x_public_key := k\<rparr>)"
  shows "(get_pinned_certificate v i = None \<longrightarrow> client_accepts env v c' [] now = Inr ()) \<and>
    (get_pinned_certificate v i \<noteq> None \<longrightarrow> (client_accepts env v c' [] now = Inr () \<longleftrightarrow> c' = c))"
  using assms unfolding client_accepts_def verify_server_cert_Inr_iff by (auto simp add: expired_def)

text \<open>The programs trust nobody or everybody.  The verifier of the orchestrator refuses every
  certificate and that of the daemon accepts every identifier, and with no pins it takes any valid
  certificate that names itself as issuer.\<close>

theorem programs_trust_nobody_or_everybody:
  "client_accepts env orchestrator_verifier c ints now \<noteq> Inr () \<and>
    server_accepts env orchestrator_verifier c ints now \<noteq> Inr () \<and>
    (server_accepts env daemon_verifier c ints now = Inr () \<longleftrightarrow>
      ints = [] \<and> (\<exists>x i. x_parse env c = Some x \<and> \<not> expired x now \<and> find_device_id (x_extensions x) = Some i \<and>
        x_issuer x = x_subject x))"
  by (auto simp add: client_accepts_def server_accepts_def verify_client_cert_eq verify_server_cert_Inr_iff
      orchestrator_verifier_def daemon_verifier_def new_verifier_def for_pairing_def is_trusted_def
      get_pinned_certificate_def hm_get_def)

section \<open>Generated certificates\<close>

lemma oid_text_device_id: "oid_text device_id_oid = ''1.3.6.1.4.1.99999.1''"
  by (simp add: oid_text_def device_id_oid_def show_nat.simps digit_char_def char_of_def bit_Suc_0_iff)

lemma find_device_id_filter:
  "find_device_id es = find_device_id (filter (\<lambda>e. fst e = ''1.3.6.1.4.1.99999.1'') es)"
  by (induction es rule: find_device_id.induct) auto

lemma generated_certificate:
  assumes "x509_ok env public"
    and "generate_device_certificate env (Inr k) t d = Inr (chain, key)"
    and "length (id_bytes (device_id_of d)) = 32"
  obtains c x where "chain = [c]" "key = k" "x_parse env c = Some x" "x_public_key x = public k"
    "x_issuer x = x_subject x" "x_not_before x = t" "x_not_after x = t + 365 * 5 * 86400"
    "find_device_id (x_extensions x) = Some (device_id_of d)"
proof -
  from assms(2) obtain p c where p: "x_self_signed env p k = Inr c" "chain = [c]" "key = k"
      "cp_not_before p = t" "cp_not_after p = t + 365 * 5 * 86400"
      "cp_custom_extensions p = [(device_id_oid, id_bytes (device_id_of d))]"
    by (auto simp add: generate_device_certificate_def Let_def result_simps)
  with assms(1) obtain x where x: "x_parse env c = Some x" "x_not_before x = t" "x_not_after x = t + 365 * 5 * 86400"
      "x_issuer x = x_subject x" "x_public_key x = public k"
      "filter (\<lambda>e. fst e = oid_text device_id_oid) (x_extensions x) = [(oid_text device_id_oid, id_bytes (device_id_of d))]"
    unfolding x509_ok_def by fastforce
  from x(6) have "find_device_id (x_extensions x) = Some (device_id_of d)"
    using assms(3) find_device_id_filter [of "x_extensions x"] by (cases d) (simp add: oid_text_device_id device_id_of_def)
  with p x show ?thesis by (intro that) auto
qed

text \<open>C27: A device that trusts another and pins its certificate accepts it while it is valid, which is
  five years; but a certificate is generated with a fresh key at each start, so after a restart of
  the other device its certificate is refused.\<close>

theorem restart_breaks_pins:
  assumes "x509_ok env public" and "public k \<noteq> public k'" and "length (id_bytes (device_id_of d)) = 32"
    and "generate_device_certificate env (Inr k) t d = Inr ([c], key)"
    and "generate_device_certificate env (Inr k') t' d = Inr ([c'], key')"
    and "0 \<le> t" and "t \<le> t'" and "t' \<le> t + 365 * 5 * 86400" and "t + 365 * 5 * 86400 < 2 ^ 63"
    and "hm_wf (cv_pinned v)"
  shows "client_accepts env (add_trusted_device_with_cert (device_id_of d) c v) c [] (word_of_int t') = Inr () \<and>
    client_accepts env (add_trusted_device_with_cert (device_id_of d) c v) c' [] (word_of_int t') = Inl pin_mismatch \<and>
    client_accepts env (new_verifier [device_id_of d]) c' [] (word_of_int t') = Inr ()"
proof -
  let ?w = "add_trusted_device_with_cert (device_id_of d) c v"
  from generated_certificate [OF assms(1,4,3)] obtain x where x: "x_parse env c = Some x" "x_public_key x = public k"
      "x_issuer x = x_subject x" "x_not_before x = t" "x_not_after x = t + 365 * 5 * 86400"
      "find_device_id (x_extensions x) = Some (device_id_of d)" by (metis list.inject)
  from generated_certificate [OF assms(1,5,3)] obtain x' where x': "x_parse env c' = Some x'" "x_public_key x' = public k'"
      "x_issuer x' = x_subject x'" "x_not_before x' = t'" "x_not_after x' = t' + 365 * 5 * 86400"
      "find_device_id (x_extensions x') = Some (device_id_of d)" by (metis list.inject)
  have ne: "c' \<noteq> c" using x(1,2) x'(1,2) assms(2) by auto
  have w: "(word_of_int a :: u64) < word_of_int b \<longleftrightarrow> a < b"
    if "0 \<le> a" "0 \<le> b" "a < 2 ^ 64" "b < 2 ^ 64" for a b :: int
    using that by (simp add: word_less_def uint_word_of_int take_bit_eq_mod)
  have e: "\<not> expired x (word_of_int t')" "\<not> expired x' (word_of_int t')"
    using assms(6-9) by (simp_all add: expired_def x(4,5) x'(4,5) w del: of_int_add of_int_numeral)
  have p: "is_trusted ?w (device_id_of d)" "get_pinned_certificate ?w (device_id_of d) = Some c"
    by (simp_all add: add_trusted_device_with_cert_def is_trusted_def get_pinned_certificate_def Let_def hm.get_put assms(10))
  have "client_accepts env ?w c' [] (word_of_int t') = Inl pin_mismatch"
    using e(2) p ne by (simp add: client_accepts_def verification_defs x'(1,6))
  moreover have "client_accepts env ?w c [] (word_of_int t') = Inr ()"
    using e(1) p by (simp add: client_accepts_def verification_defs x(1,3,6))
  moreover have "client_accepts env (new_verifier [device_id_of d]) c' [] (word_of_int t') = Inr ()"
    using e(2) by (simp add: client_accepts_def verification_defs x'(1,3,6) new_verifier_def is_trusted_def
        get_pinned_certificate_def hm_get_def)
  ultimately show ?thesis by blast
qed

section \<open>Pins and trust over restarts\<close>

definition verifier_ok :: "cert_verifier \<Rightarrow> bool" where
  "verifier_ok v \<longleftrightarrow> distinct (cv_trusted v) \<and> hm_wf (cv_pinned v) \<and>
     list_all (\<lambda>(i, c). length (id_bytes i) = 32) (cv_pinned v)"

abbreviation entry_of :: "'k identity_env \<Rightarrow> cert_env \<Rightarrow> device_id \<times> bytes \<Rightarrow> file_name \<times> string" where
  "entry_of ie env \<equiv> \<lambda>(i, c). (cert_file ie i, x_pem_encode env ''CERTIFICATE'' c)"

lemma cert_file_inj: "hex_ok ie \<Longrightarrow> cert_file ie i = cert_file ie j \<longleftrightarrow> i = j"
proof (cases i; cases j)
  fix a b
  assume "hex_ok ie" and "i = DeviceId a" and "j = DeviceId b"
  moreover from this have "i_hex ie a = i_hex ie b \<longleftrightarrow> a = b"
    by (metis hex_ok_def sum.inject(2))
  ultimately show ?thesis by (simp add: cert_file_def to_hex_def)
qed

lemma entry_of_inj:
  assumes "hex_ok ie" and "pem_ok env"
  shows "inj (entry_of ie env)"
proof (rule injI)
  fix p q :: "device_id \<times> bytes"
  assume "entry_of ie env p = entry_of ie env q"
  then have "cert_file ie (fst p) = cert_file ie (fst q)"
      and "x_pem_encode env ''CERTIFICATE'' (snd p) = x_pem_encode env ''CERTIFICATE'' (snd q)"
    by (simp_all add: case_prod_beta)
  with assms show "p = q"
    by (metis cert_file_inj pem_ok_def sum.inject(2) prod.inject prod_eq_iff)
qed

lemma hm_put_new: "k \<notin> fst ` set m \<Longrightarrow> hm_put k x m = m @ [(k, x)]"
  by (induction m) (auto simp add: hm_put_def)

lemma save_each_appends:
  assumes "hex_ok ie" and "storage_works env" and "distinct (map fst cs)"
    and "\<forall>p\<in>set cs. cert_file ie (fst p) \<notin> fst ` set d"
  shows "save_each ie env cs d = (Inr (), d @ map (entry_of ie env) cs)"
  using assms(3,4)
proof (induction cs arbitrary: d)
  case (Cons p cs)
  obtain i c where p: "p = (i, c)" by (cases p)
  have "x_write_error env (cert_file ie i) = None" using assms(2) by (simp only: storage_works_def)
  moreover have "hm_put (cert_file ie i) x d = d @ [(cert_file ie i, x)]" for x
    using Cons.prems(2) p by (simp add: hm_put_new)
  moreover have "\<forall>q\<in>set cs. cert_file ie (fst q) \<notin> fst ` set (d @ [(cert_file ie i, x)])" for x
    using Cons.prems p by (auto simp add: cert_file_inj [OF assms(1)] rev_image_eqI)
  ultimately show ?case using Cons.IH Cons.prems(1) p by (simp add: Let_def)
qed simp

lemma load_entry_saved:
  assumes "hex_ok ie" and "pem_ok env" and "storage_works env" and "length (id_bytes i) = 32"
  shows "load_entry ie env (entry_of ie env (i, c)) v = add_trusted_device_with_cert i c v"
proof -
  have "from_str ie (to_hex ie i) = Inr i"
    using assms(1,4) by (cases i) (simp add: from_str_def to_hex_def hex_ok_def from_bytes_def)
  moreover have "x_read_error env f = None" for f using assms(3) by (simp only: storage_works_def)
  ultimately show ?thesis
    using assms(2) by (simp add: load_entry_def cert_file_def load_certificate_file_def pem_ok_def)
qed

lemma load_each_saved:
  assumes "hex_ok ie" and "pem_ok env" and "storage_works env" and "list_all (\<lambda>(i, c). length (id_bytes i) = 32) cs"
  shows "load_each ie env n (map (entry_of ie env) cs) v = (Inr (), fold (\<lambda>(i, c). add_trusted_device_with_cert i c) cs v)"
  using assms(4)
proof (induction cs arbitrary: n v)
  case Nil
  then show ?case using assms(3) by (simp add: storage_works_def)
next
  case (Cons p cs)
  then show ?case using assms(3) load_entry_saved [OF assms(1-3), of "fst p" "snd p"]
    by (cases p) (simp add: storage_works_def)
qed

lemma add_all:
  assumes "distinct (map fst cs)" and "hm_wf (cv_pinned v)"
  shows "set (cv_trusted (fold (\<lambda>(i, c). add_trusted_device_with_cert i c) cs v)) = set (cv_trusted v) \<union> fst ` set cs \<and>
    hm_get (cv_pinned (fold (\<lambda>(i, c). add_trusted_device_with_cert i c) cs v)) j =
      (case map_of cs j of Some c \<Rightarrow> Some c | None \<Rightarrow> hm_get (cv_pinned v) j) \<and>
    cv_allow_untrusted (fold (\<lambda>(i, c). add_trusted_device_with_cert i c) cs v) = cv_allow_untrusted v"
  using assms
proof (induction cs arbitrary: v)
  case (Cons p cs)
  obtain i c where p: "p = (i, c)" by (cases p)
  let ?w = "add_trusted_device_with_cert i c v"
  have w: "set (cv_trusted ?w) = insert i (set (cv_trusted v))" "cv_pinned ?w = hm_put i c (cv_pinned v)"
      "cv_allow_untrusted ?w = cv_allow_untrusted v"
    by (auto simp add: add_trusted_device_with_cert_def Let_def)
  have "map_of cs i = None" using Cons.prems(1) p by (auto simp add: map_of_eq_None_iff image_iff)
  then show ?case
    using Cons.IH [of ?w] Cons.prems p w by (auto simp add: hm.get_put hm.wf_put split: option.split)
qed simp

lemma permuted_map:
  assumes "inj f" and "mset ys = mset (map f xs)"
  obtains xs' where "ys = map f xs'" "mset xs' = mset xs"
proof
  have "set ys \<subseteq> range f" using mset_eq_setD [OF assms(2)] by auto
  then show "ys = map f (map (inv f) ys)" 
    by (simp add: map_idI [symmetric] subset_iff f_inv_into_f)
  have "mset (map (inv f) ys) = image_mset (inv f) (mset (map f xs))" using assms(2) by simp
  then show "mset (map (inv f) ys) = mset xs" using assms(1) by (simp add: image_mset.compositionality comp_def)
qed

lemma saved_and_loaded:
  assumes "hex_ok ie" and "pem_ok env" and "storage_works env" and "iter_order it" and "iter_order ls" and "verifier_ok v"
    and "save_trusted_certificates ie env it v None = (r, d)"
    and "load_trusted_certificates ie env ls d (new_verifier []) = (r', w)"
  shows "r = Inr () \<and> r' = Inr () \<and> get_pinned_certificate w i = get_pinned_certificate v i \<and>
    (is_trusted w i \<longleftrightarrow> get_pinned_certificate v i \<noteq> None)"
proof -
  let ?cs = "it (cv_pinned v)"
  have m: "mset ?cs = mset (cv_pinned v)" using assms(4) by (rule iter_order_mset)
  have distinct_keys: "distinct (map fst xs)" if "mset xs = mset (cv_pinned v)" for xs
  proof -
    have "mset (map fst xs) = mset (map fst (cv_pinned v))" using that by simp
    then show ?thesis using assms(6) by (metis mset_eq_imp_distinct_iff verifier_ok_def hm_wf_def)
  qed
  have "x_create_dir env = None" using assms(3) by (simp only: storage_works_def)
  then have r: "r = Inr ()" "d = Some (map (entry_of ie env) ?cs)"
    using assms(7) save_each_appends [OF assms(1,3) distinct_keys [OF m], of "[]"]
    by (simp_all add: save_trusted_certificates_def)
  obtain cs' where cs': "ls (map (entry_of ie env) ?cs) = map (entry_of ie env) cs'" "mset cs' = mset ?cs"
    using permuted_map [OF entry_of_inj [OF assms(1,2)] iter_order_mset [OF assms(5)]] by blast
  have m': "mset cs' = mset (cv_pinned v)" using cs'(2) m by simp
  have ids: "list_all (\<lambda>(i, c). length (id_bytes i) = 32) cs'"
    using assms(6) mset_eq_setD [OF m'] by (simp add: verifier_ok_def list_all_iff)
  have "x_read_dir env = None" using assms(3) by (simp only: storage_works_def)
  with assms(8) have w: "r' = Inr ()" "w = fold (\<lambda>(i, c). add_trusted_device_with_cert i c) cs' (new_verifier [])"
    using load_each_saved [OF assms(1-3) ids, of 0 "new_verifier []"] by (simp_all add: r(2) load_trusted_certificates_def cs'(1))
  have map_of: "map_of cs' i = hm_get (cv_pinned v) i"
    using distinct_keys [OF m'] assms(6) mset_eq_setD [OF m'] unfolding verifier_ok_def hm_wf_def hm_get_def
    by (metis map_of_inject_set)
  have "hm_wf (cv_pinned (new_verifier []))" by (simp add: new_verifier_def hm.wf_empty)
  from add_all [OF distinct_keys [OF m'] this, of i]
  have "is_trusted w i \<longleftrightarrow> i \<in> fst ` set cs'" and "get_pinned_certificate w i = map_of cs' i"
    by (auto simp add: w(2) get_pinned_certificate_def is_trusted_def new_verifier_def hm.get_empty split: option.splits)
  moreover have "i \<in> fst ` set cs' \<longleftrightarrow> map_of cs' i \<noteq> None" by (simp add: map_of_eq_None_iff)
  ultimately show ?thesis using w(1) r(1) map_of by (simp add: get_pinned_certificate_def)
qed

text \<open>Saving the pinned certificates and loading them after a restart restores every pin; but of
  the trusted devices only those with a pinned certificate are trusted again.\<close>

theorem pins_survive_a_restart:
  assumes "hex_ok ie" and "pem_ok env" and "storage_works env" and "iter_order it" and "iter_order ls" and "verifier_ok v"
    and "save_trusted_certificates ie env it v None = (r, d)"
    and "load_trusted_certificates ie env ls d (new_verifier []) = (r', w)"
  shows "r = Inr () \<and> r' = Inr () \<and> get_pinned_certificate w i = get_pinned_certificate v i \<and>
    (is_trusted w i \<longleftrightarrow> get_pinned_certificate v i \<noteq> None)"
  by (rule saved_and_loaded [OF assms])

lemma verifier_ok_add:
  assumes "verifier_ok v" and "length (id_bytes i) = 32"
  shows "verifier_ok (add_trusted_device_with_cert i c v) \<and> verifier_ok (add_trusted_device i v) \<and>
    verifier_ok (snd (remove_trusted_device i v))"
proof -
  have "list_all (\<lambda>(i, c). length (id_bytes i) = 32) (hm_put i c (cv_pinned v))"
    using assms list_all_put [of "\<lambda>i _. length (id_bytes i) = 32" "cv_pinned v" i c] by (simp add: verifier_ok_def)
  then show ?thesis using assms
    by (auto simp add: verifier_ok_def add_trusted_device_with_cert_def add_trusted_device_def remove_trusted_device_def
        Let_def hm.wf_put)
qed

text \<open>Revoking a device forgets that it is trusted but not its certificate: the next save writes it
  and the next start trusts the device again.\<close>

theorem revocation_does_not_last:
  assumes "hex_ok ie" and "pem_ok env" and "storage_works env" and "iter_order it" and "iter_order ls" and "verifier_ok v"
    and "cv_allow_untrusted v = False" and "length (id_bytes i) = 32"
    and "remove_trusted_device i (add_trusted_device_with_cert i c v) = (b, v1)"
    and "save_trusted_certificates ie env it v1 None = (r, d)"
    and "load_trusted_certificates ie env ls d (new_verifier []) = (r', w)"
  shows "b \<and> \<not> is_trusted v1 i \<and> get_pinned_certificate v1 i = Some c \<and> is_trusted w i \<and>
    get_pinned_certificate w i = Some c"
proof -
  let ?v0 = "add_trusted_device_with_cert i c v"
  have v0: "verifier_ok ?v0" using verifier_ok_add [OF assms(6,8)] by blast
  have v1: "v1 = snd (remove_trusted_device i ?v0)" using assms(9) by simp
  then have ok: "verifier_ok v1" using verifier_ok_add [OF v0 assms(8)] by blast
  have "b" and "cv_trusted v1 = remove1 i (cv_trusted ?v0)" and p: "cv_pinned v1 = hm_put i c (cv_pinned v)"
      and "\<not> cv_allow_untrusted v1"
    using assms(7,9) by (auto simp add: remove_trusted_device_def add_trusted_device_with_cert_def Let_def split: if_splits)
  moreover from this have "\<not> is_trusted v1 i" using v0 by (simp add: is_trusted_def verifier_ok_def)
  moreover have "get_pinned_certificate v1 i = Some c"
    using assms(6) p by (simp add: get_pinned_certificate_def verifier_ok_def hm.get_put)
  ultimately show ?thesis using saved_and_loaded [OF assms(1-5) ok assms(10,11), of i] by simp
qed

section \<open>A concrete environment\<close>

text \<open>Certificates of two times of eight bytes, an optional identifier and a public key.\<close>

definition sample_time_ok :: "int \<Rightarrow> bool" where
  "sample_time_ok t \<longleftrightarrow> 0 \<le> t \<and> t < 256 ^ 8"

definition sample_self_signed :: "cert_params \<Rightarrow> bytes \<Rightarrow> string + bytes" where
  "sample_self_signed p k =
     (if sample_time_ok (cp_not_before p) \<and> sample_time_ok (cp_not_after p)
      then case cp_custom_extensions p of
          [] \<Rightarrow> Inr (le_bytes 8 (nat (cp_not_before p)) @ le_bytes 8 (nat (cp_not_after p)) @ 0 # k)
        | [(n, b)] \<Rightarrow> if n = device_id_oid \<and> length b = 32
            then Inr (le_bytes 8 (nat (cp_not_before p)) @ le_bytes 8 (nat (cp_not_after p)) @ 1 # b @ k)
            else Inl ''unsupported extension''
        | _ \<Rightarrow> Inl ''too many extensions''
      else Inl ''time out of range'')"

definition sample_parse :: "bytes \<Rightarrow> x509 option" where
  "sample_parse c =
     (case drop 16 c of
        [] \<Rightarrow> None
      | flag # r \<Rightarrow> Some \<lparr>x_not_before = int (le_val (take 8 c)), x_not_after = int (le_val (take 8 (drop 8 c))),
          x_issuer = [], x_subject = [],
          x_extensions = (if flag = 0 then [] else [(oid_text device_id_oid, take 32 r)]),
          x_public_key = (if flag = 0 then r else drop 32 r)\<rparr>)"

definition sample_cert_env :: cert_env where
  "sample_cert_env = \<lparr>x_parse = sample_parse, x_new_params = (\<lambda>_. Inr ()), x_dns_name = (\<lambda>_. Inr ()),
     x_parse_ip = (\<lambda>_. None), x_self_signed = sample_self_signed,
     x_pem_encode = (\<lambda>t b. map (\<lambda>w. char_of (unat w)) (encode_name t @ b)),
     x_pem_parse = (\<lambda>s. decode_name (map (\<lambda>c. word_of_nat (of_char c)) s)),
     x_create_dir = None, x_write_error = (\<lambda>_. None), x_read_dir = None, x_next_entry = (\<lambda>_. None),
     x_read_error = (\<lambda>_. None)\<rparr>"

lemma sample_storage_works: "storage_works sample_cert_env"
  by (simp add: storage_works_def sample_cert_env_def)

lemma byte_as_char: "(word_of_nat (of_char (char_of (unat (w :: u8)) :: char)) :: u8) = w"
proof -
  have "unat w < 256" using unsigned_less [of w, where 'a = nat] by simp
  then show ?thesis by simp
qed

lemma sample_pem_ok: "pem_ok sample_cert_env"
proof -
  have "map (\<lambda>c. word_of_nat (of_char c)) (map (\<lambda>w. char_of (unat w)) bs) = bs" for bs :: bytes
    by (induction bs) (simp_all only: list.map byte_as_char)
  then show ?thesis by (simp only: pem_ok_def sample_cert_env_def cert_env.simps decode_encode_name simp_thms)
qed

lemma sample_time_read: "sample_time_ok t \<Longrightarrow> int (le_val (le_bytes 8 (nat t))) = t"
  by (simp add: sample_time_ok_def le_val_le_bytes nat_less_iff)

lemma sample_x509_ok: "x509_ok sample_cert_env (\<lambda>k. k)"
  unfolding x509_ok_def
proof (intro allI impI)
  fix p k c
  assume "x_self_signed sample_cert_env p k = Inr c"
  then have s: "sample_self_signed p k = Inr c" by (simp add: sample_cert_env_def)
  then have t: "sample_time_ok (cp_not_before p)" "sample_time_ok (cp_not_after p)"
    by (auto simp add: sample_self_signed_def split: if_splits)
  from s consider (none) "cp_custom_extensions p = []" "c = le_bytes 8 (nat (cp_not_before p)) @ le_bytes 8 (nat (cp_not_after p)) @ 0 # k"
    | (one) b where "cp_custom_extensions p = [(device_id_oid, b)]" "length b = 32"
        "c = le_bytes 8 (nat (cp_not_before p)) @ le_bytes 8 (nat (cp_not_after p)) @ 1 # b @ k"
    by (auto simp add: sample_self_signed_def split: if_splits list.splits prod.splits)
  then show "\<exists>x. x_parse sample_cert_env c = Some x \<and> x_not_before x = cp_not_before p \<and> x_not_after x = cp_not_after p \<and>
      x_issuer x = x_subject x \<and> x_public_key x = k \<and>
      filter (\<lambda>e. fst e = oid_text device_id_oid) (x_extensions x) =
        [(oid_text n, b). (n, b) \<leftarrow> cp_custom_extensions p, n = device_id_oid]"
    by cases (simp_all add: sample_cert_env_def sample_parse_def sample_time_read t)
qed

definition sample_device :: device_identity where
  "sample_device = generate sample_identity_env [5] ''laptop''"

lemma sample_device_id: "length (id_bytes (device_id_of sample_device)) = 32"
  by (simp add: sample_device_def generate_def device_id_of_def sample_identity_env_def)

lemma sample_generates:
  assumes "0 \<le> t" and "t < 2 ^ 40"
  shows "\<exists>c. generate_device_certificate sample_cert_env (Inr k) t sample_device = Inr ([c], k)"
  using assms sample_device_id
  by (simp add: generate_device_certificate_def sample_cert_env_def sample_self_signed_def sample_time_ok_def)

theorem restart_breaks_pins_witness:
  "\<exists>c c'. generate_device_certificate sample_cert_env (Inr [1]) 0 sample_device = Inr ([c], [1]) \<and>
    generate_device_certificate sample_cert_env (Inr [2]) 60 sample_device = Inr ([c'], [2]) \<and>
    client_accepts sample_cert_env (add_trusted_device_with_cert (device_id_of sample_device) c (new_verifier [])) c' []
      (word_of_int 60) = Inl pin_mismatch"
proof -
  obtain c c' where c: "generate_device_certificate sample_cert_env (Inr [1]) 0 sample_device = Inr ([c], [1])"
      "generate_device_certificate sample_cert_env (Inr [2]) 60 sample_device = Inr ([c'], [2])"
    using sample_generates [of 0 "[1]"] sample_generates [of 60 "[2]"] by auto
  have "hm_wf (cv_pinned (new_verifier []))" by (simp add: new_verifier_def hm.wf_empty)
  from restart_breaks_pins [OF sample_x509_ok _ sample_device_id c _ _ _ _ this] c show ?thesis by auto
qed

theorem identifier_is_not_bound_to_a_key_witness:
  "\<exists>c c'. c \<noteq> c' \<and> client_accepts sample_cert_env (new_verifier [device_id_of sample_device]) c [] 0 = Inr () \<and>
    client_accepts sample_cert_env (new_verifier [device_id_of sample_device]) c' [] 0 = Inr ()"
proof -
  let ?v = "new_verifier [device_id_of sample_device]" and ?i = "id_bytes (device_id_of sample_device)"
  let ?c = "le_bytes 8 0 @ le_bytes 8 9 @ 1 # ?i @ [1]" and ?c' = "le_bytes 8 0 @ le_bytes 8 9 @ 1 # ?i @ [2]"
  let ?x = "\<lparr>x_not_before = 0, x_not_after = 9, x_issuer = [], x_subject = [],
      x_extensions = [(''1.3.6.1.4.1.99999.1'', ?i)], x_public_key = [1]\<rparr>"
  have x: "x_parse sample_cert_env ?c = Some ?x" "x_parse sample_cert_env ?c' = Some (?x\<lparr>x_public_key := [2]\<rparr>)"
    using sample_device_id by (simp_all add: sample_cert_env_def sample_parse_def le_val_le_bytes oid_text_device_id)
  have i: "find_device_id (x_extensions ?x) = Some (device_id_of sample_device)"
    using sample_device_id by (simp add: device_id_of_def)
  have n: "get_pinned_certificate ?v (device_id_of sample_device) = None"
    by (simp add: get_pinned_certificate_def new_verifier_def hm.get_empty)
  have a: "client_accepts sample_cert_env ?v ?c [] 0 = Inr ()"
    unfolding client_accepts_def verify_server_cert_Inr_iff using x(1) i n
    by (auto simp add: expired_def is_trusted_def new_verifier_def)
  from identifier_is_not_bound_to_a_key [OF a x(1) i x(2)] n
  have "client_accepts sample_cert_env ?v ?c' [] 0 = Inr ()" by simp
  with a show ?thesis by (intro exI [of _ ?c] exI [of _ ?c']) simp
qed

theorem pins_survive_a_restart_witness:
  "\<exists>d w. save_trusted_certificates sample_identity_env sample_cert_env rev
      (add_trusted_device_with_cert (DeviceId (replicate 32 1)) [7] (new_verifier [DeviceId (replicate 32 2)])) None = (Inr (), d) \<and>
    load_trusted_certificates sample_identity_env sample_cert_env rev d (new_verifier []) = (Inr (), w) \<and>
    is_trusted w (DeviceId (replicate 32 1)) \<and> \<not> is_trusted w (DeviceId (replicate 32 2))"
proof -
  let ?i = "DeviceId (replicate 32 1)" and ?j = "DeviceId (replicate 32 2)"
  let ?v = "add_trusted_device_with_cert ?i [7] (new_verifier [?j])"
  have ne: "?i \<noteq> ?j" by (simp add: numeral_eq_Suc)
  have ok: "verifier_ok ?v"
    by (rule verifier_ok_add [THEN conjunct1]) (simp_all add: verifier_ok_def new_verifier_def hm.wf_empty)
  have pins: "get_pinned_certificate ?v ?i = Some [7]" "get_pinned_certificate ?v ?j = None"
    using ne by (simp_all add: get_pinned_certificate_def add_trusted_device_with_cert_def new_verifier_def Let_def
        hm.get_put hm.wf_empty hm.get_empty)
  obtain r d where s: "save_trusted_certificates sample_identity_env sample_cert_env rev ?v None = (r, d)" by fastforce
  obtain r' w where l: "load_trusted_certificates sample_identity_env sample_cert_env rev d (new_verifier []) = (r', w)"
    by fastforce
  note * = pins_survive_a_restart [OF sample_hex_ok sample_pem_ok sample_storage_works iter_order_rev iter_order_rev ok s l]
  from * [of ?i] * [of ?j] pins s l show ?thesis by auto
qed

theorem revocation_does_not_last_witness:
  "\<exists>v1 d w. remove_trusted_device (DeviceId (replicate 32 1))
      (add_trusted_device_with_cert (DeviceId (replicate 32 1)) [7] (new_verifier [])) = (True, v1) \<and>
    save_trusted_certificates sample_identity_env sample_cert_env rev v1 None = (Inr (), d) \<and>
    load_trusted_certificates sample_identity_env sample_cert_env rev d (new_verifier []) = (Inr (), w) \<and>
    \<not> is_trusted v1 (DeviceId (replicate 32 1)) \<and> is_trusted w (DeviceId (replicate 32 1))"
proof -
  let ?i = "DeviceId (replicate 32 1)"
  have ok: "verifier_ok (new_verifier [])" by (simp add: verifier_ok_def new_verifier_def hm.wf_empty)
  obtain b v1 where v1: "remove_trusted_device ?i (add_trusted_device_with_cert ?i [7] (new_verifier [])) = (b, v1)" by fastforce
  obtain r d where s: "save_trusted_certificates sample_identity_env sample_cert_env rev v1 None = (r, d)" by fastforce
  obtain r' w where l: "load_trusted_certificates sample_identity_env sample_cert_env rev d (new_verifier []) = (r', w)"
    by fastforce
  have b: "b" using v1 by (simp add: remove_trusted_device_def add_trusted_device_with_cert_def new_verifier_def Let_def)
  have "length (id_bytes ?i) = 32" by simp
  from verifier_ok_add [OF verifier_ok_add [OF ok this, THEN conjunct1] this] v1
  have v: "verifier_ok v1" by (metis snd_conv)
  from revocation_does_not_last [OF sample_hex_ok sample_pem_ok sample_storage_works iter_order_rev iter_order_rev ok _ _ v1 s l]
  have "\<not> is_trusted v1 ?i \<and> is_trusted w ?i" by (simp add: new_verifier_def)
  with b v1 s l saved_and_loaded [OF sample_hex_ok sample_pem_ok sample_storage_works iter_order_rev iter_order_rev v s l]
  show ?thesis by auto
qed

end
