(* ===== verification/Secure_Pairing.thy ===== *)
theory Secure_Pairing
  imports Certificates Machines
begin

text \<open>
  The verifier of the secure pairing mode (\<open>landro-crypto/src/secure_verifier.rs\<close>, from the type
  \<open>SecurePairingCertVerifier\<close> on): a window of five minutes, closed by the first use.

  Handshakes run on several threads and share the verifier, whose two fields have a lock each.  A
  thread is in one of five places, a step is what it does between two waits for a lock, and the
  window is checked and closed in separate steps.  A lock for reading may be held by many threads, a
  lock for writing by one; that a waiting writer may hold up readers too is left out.  Times are
  nanoseconds of the wall clock.
\<close>

section \<open>The verifier and its handshakes\<close>

record pairing_verifier =
  pv_start :: "int option"
  pv_used :: bool

definition pairing_window :: int where
  "pairing_window = 5 * 60 * 1000000000"

definition new_pairing_verifier :: "int \<Rightarrow> pairing_verifier" where
  "new_pairing_verifier now = \<lparr>pv_start = Some now, pv_used = False\<rparr>"

definition is_pairing_window_valid :: "int \<Rightarrow> pairing_verifier \<Rightarrow> bool" where
  "is_pairing_window_valid now v \<longleftrightarrow>
     \<not> pv_used v \<and> (case pv_start v of Some s \<Rightarrow> now - s < pairing_window | None \<Rightarrow> False)"

definition mark_used :: "pairing_verifier \<Rightarrow> pairing_verifier" where
  "mark_used v = v\<lparr>pv_used := True, pv_start := None\<rparr>"

definition window_closed :: rustls_error where
  "window_closed = OtherCertificateError (CertificateValidation
     ''Pairing window has expired or verifier has been used'')"

definition check_pairing_cert :: "cert_env \<Rightarrow> bytes \<Rightarrow> bytes list \<Rightarrow> u64 \<Rightarrow> rustls_error + unit" where
  "check_pairing_cert env end_entity intermediates now =
     (case x_parse env end_entity of
        None \<Rightarrow> Inl BadEncoding
      | Some x \<Rightarrow> if expired x now then Inl Expired
          else if intermediates \<noteq> [] then Inl BadEncoding else Inr ())"

text \<open>A handshake that nothing interrupts.\<close>

definition verify_pairing_cert :: "cert_env \<Rightarrow> int \<Rightarrow> bytes \<Rightarrow> bytes list \<Rightarrow> u64 \<Rightarrow> pairing_verifier \<Rightarrow>
    (rustls_error + unit) \<times> pairing_verifier" where
  "verify_pairing_cert env clock end_entity intermediates now v =
     (if \<not> is_pairing_window_valid clock v then (Inl window_closed, v)
      else case check_pairing_cert env end_entity intermediates now of
        Inl e \<Rightarrow> (Inl e, v)
      | Inr _ \<Rightarrow> (Inr (), mark_used v))"

definition dangerous_verify_server_cert :: "bytes \<Rightarrow> bytes list \<Rightarrow> u64 \<Rightarrow> rustls_error + unit" where
  "dangerous_verify_server_cert end_entity intermediates now =
     Inl (OtherCertificateError (CertificateValidation
       ''Deprecated dangerous verifier - use SecurePairingCertVerifier instead''))"

section \<open>Handshakes in parallel\<close>

datatype place =
    AtStart
  | HoldsStart
  | WindowOpen
  | HoldsUsed
  | Finished "rustls_error + unit"

record pairing_state =
  ps_verifier :: pairing_verifier
  ps_threads :: "place list"

definition move :: "nat \<Rightarrow> place \<Rightarrow> pairing_state \<Rightarrow> pairing_state" where
  "move i p s = s\<lparr>ps_threads := (ps_threads s)[i := p]\<rparr>"

text \<open>\<open>None\<close> if the thread waits for a lock or has finished.\<close>

definition next_step :: "(nat \<Rightarrow> rustls_error + unit) \<Rightarrow> int \<Rightarrow> nat \<Rightarrow> pairing_state \<Rightarrow> pairing_state option" where
  "next_step checked now i s =
     (if i \<ge> length (ps_threads s) then None
      else case ps_threads s ! i of
        AtStart \<Rightarrow> Some (move i HoldsStart s)
      | HoldsStart \<Rightarrow>
          if HoldsUsed \<in> set (ps_threads s) then None
          else if is_pairing_window_valid now (ps_verifier s) then Some (move i WindowOpen s)
          else Some (move i (Finished (Inl window_closed)) s)
      | WindowOpen \<Rightarrow> (case checked i of
            Inl e \<Rightarrow> Some (move i (Finished (Inl e)) s)
          | Inr _ \<Rightarrow>
              if HoldsUsed \<in> set (ps_threads s) then None
              else Some (move i HoldsUsed (s\<lparr>ps_verifier := (ps_verifier s)\<lparr>pv_used := True\<rparr>\<rparr>)))
      | HoldsUsed \<Rightarrow>
          if HoldsStart \<in> set (ps_threads s) then None
          else Some (move i (Finished (Inr ())) (s\<lparr>ps_verifier := (ps_verifier s)\<lparr>pv_start := None\<rparr>\<rparr>))
      | Finished r \<Rightarrow> None)"

text \<open>A schedule says which thread moves at which time; a thread that waits does not move.\<close>

definition pairing_move :: "(nat \<Rightarrow> rustls_error + unit) \<Rightarrow> int \<times> nat \<Rightarrow> pairing_state \<Rightarrow> pairing_state" where
  "pairing_move checked e s = (case next_step checked (fst e) (snd e) s of Some t \<Rightarrow> t | None \<Rightarrow> s)"

definition pairing_start :: "int \<Rightarrow> nat \<Rightarrow> pairing_state" where
  "pairing_start now n = \<lparr>ps_verifier = new_pairing_verifier now, ps_threads = replicate n AtStart\<rparr>"

inductive handshake_step :: "(nat \<Rightarrow> rustls_error + unit) \<Rightarrow> pairing_state \<Rightarrow> pairing_state \<Rightarrow> bool"
  for checked where
  moves: "next_step checked now i s = Some t \<Longrightarrow> handshake_step checked s t"

inductive_cases handshake_stepE: "handshake_step checked s t"

definition deadlocked :: "(nat \<Rightarrow> rustls_error + unit) \<Rightarrow> pairing_state \<Rightarrow> bool" where
  "deadlocked checked s \<longleftrightarrow> (\<exists>p\<in>set (ps_threads s). \<forall>r. p \<noteq> Finished r) \<and> (\<forall>t. \<not> handshake_step checked s t)"

section \<open>One handshake at a time\<close>

fun one_by_one :: "cert_env \<Rightarrow> (int \<times> bytes \<times> bytes list \<times> u64) list \<Rightarrow> pairing_verifier \<Rightarrow>
    (rustls_error + unit) list" where
  "one_by_one env [] v = []"
| "one_by_one env ((t, c, ints, now) # hs) v =
     (let (r, w) = verify_pairing_cert env t c ints now v in r # one_by_one env hs w)"

lemma used_verifier_refuses:
  "pv_used v \<Longrightarrow> one_by_one env hs v = replicate (length hs) (Inl window_closed)"
  by (induction env hs v rule: one_by_one.induct)
    (auto simp add: verify_pairing_cert_def is_pairing_window_valid_def)

lemma one_by_one_cases:
  assumes "v = new_pairing_verifier t0"
  shows "(\<forall>r\<in>set (one_by_one env hs v). r \<noteq> Inr ()) \<or>
    (\<exists>k<length hs. \<exists>rs. one_by_one env hs v = rs @ Inr () # replicate (length hs - Suc k) (Inl window_closed) \<and>
      length rs = k \<and> Inr () \<notin> set rs \<and> fst (hs ! k) - t0 < pairing_window)"
  using assms
proof (induction env hs v rule: one_by_one.induct)
  case (2 env t c ints now hs v)
  obtain r w where w: "verify_pairing_cert env t c ints now v = (r, w)" by fastforce
  show ?case
  proof (cases r)
    case (Inl e)
    with w have "w = v" by (auto simp add: verify_pairing_cert_def split: if_splits sum.splits)
    with 2 w have "(\<forall>r\<in>set (one_by_one env hs v). r \<noteq> Inr ()) \<or>
      (\<exists>k<length hs. \<exists>rs. one_by_one env hs v = rs @ Inr () # replicate (length hs - Suc k) (Inl window_closed) \<and>
      length rs = k \<and> Inr () \<notin> set rs \<and> fst (hs ! k) - t0 < pairing_window)" by simp
    then show ?thesis
    proof
      assume "\<forall>r\<in>set (one_by_one env hs v). r \<noteq> Inr ()"
      with w Inl \<open>w = v\<close> show ?thesis by simp
    next
      assume "\<exists>k<length hs. \<exists>rs. one_by_one env hs v = rs @ Inr () # replicate (length hs - Suc k) (Inl window_closed) \<and>
        length rs = k \<and> Inr () \<notin> set rs \<and> fst (hs ! k) - t0 < pairing_window"
      then obtain k rs where "k < length hs" "one_by_one env hs v = rs @ Inr () # replicate (length hs - Suc k) (Inl window_closed)"
          "length rs = k" "Inr () \<notin> set rs" "fst (hs ! k) - t0 < pairing_window" by blast
      with w Inl \<open>w = v\<close> show ?thesis
        by (intro disjI2 exI [of _ "Suc k"] conjI exI [of _ "r # rs"]) auto
    qed
  next
    case (Inr u)
    with w have "pv_used w" and "is_pairing_window_valid t v"
      by (auto simp add: verify_pairing_cert_def mark_used_def split: if_splits sum.splits)
    with w Inr 2(2) show ?thesis
      by (intro disjI2 exI [of _ 0] conjI exI [of _ "[]"])
        (auto simp add: used_verifier_refuses is_pairing_window_valid_def new_pairing_verifier_def)
  qed
qed simp

text \<open>Of handshakes that run one after the other at most one is accepted, before five minutes have
  passed on the wall clock, and all after it are refused whatever they present.\<close>

theorem one_pairing_at_most:
  assumes "rs = one_by_one env hs (new_pairing_verifier t0)" and "k < length hs" and "rs ! k = Inr ()"
  shows "fst (hs ! k) < t0 + pairing_window \<and> drop (Suc k) rs = replicate (length hs - Suc k) (Inl window_closed) \<and>
    Inr () \<notin> set (take k rs)"
proof -
  have len: "length (one_by_one env hs v) = length hs" for v
    by (induction hs arbitrary: v) (auto simp add: case_prod_beta)
  with assms have "Inr () \<in> set rs" by (metis nth_mem)
  with one_by_one_cases [OF refl, of env hs t0] obtain j qs where j: "j < length hs"
      "rs = qs @ Inr () # replicate (length hs - Suc j) (Inl window_closed)" "length qs = j" "Inr () \<notin> set qs"
      "fst (hs ! j) - t0 < pairing_window" unfolding assms(1) by blast
  have "k = j"
  proof (rule ccontr)
    assume "k \<noteq> j"
    then consider "k < j" | "j < k" by linarith
    then show False
    proof cases
      case 1
      with j(2-4) assms(3) show False by (simp add: nth_append) (metis nth_mem)
    next
      case 2
      then have "rs ! k = Inl window_closed" using j(2,3) assms(2) by (simp add: nth_append nth_Cons')
      with assms(3) show False by simp
    qed
  qed
  with j show ?thesis by simp
qed

theorem one_pairing_at_most_witness:
  "\<exists>c. one_by_one sample_cert_env [(60, c, [], 0), (61, c, [], 0)] (new_pairing_verifier 0) = [Inr (), Inl window_closed]"
proof -
  let ?c = "le_bytes 8 0 @ le_bytes 8 9 @ 0 # [1]" and ?h = "\<lambda>t :: int. (t, le_bytes 8 0 @ le_bytes 8 9 @ 0 # [1 :: u8], [], 0 :: u64)"
  let ?rs = "one_by_one sample_cert_env [?h 60, ?h 61] (new_pairing_verifier 0)"
  have "fst (verify_pairing_cert sample_cert_env 60 ?c [] 0 (new_pairing_verifier 0)) = Inr ()"
    by (simp add: verify_pairing_cert_def is_pairing_window_valid_def new_pairing_verifier_def pairing_window_def
        check_pairing_cert_def sample_cert_env_def sample_parse_def expired_def le_val_le_bytes)
  then have 0: "?rs ! 0 = Inr ()" by (simp add: case_prod_beta)
  from one_pairing_at_most [OF refl _ this] have 1: "drop 1 ?rs = [Inl window_closed]" by simp
  have "rs = [Inr (), Inl e]" if "rs ! 0 = Inr ()" "drop 1 rs = [Inl e]" for rs :: "(rustls_error + unit) list" and e
    using that by (cases rs) simp_all
  from this [OF 0 1] show ?thesis by blast
qed

section \<open>Handshakes in parallel\<close>

lemma deadlocked_iff: "deadlocked checked s \<longleftrightarrow>
    (\<exists>p\<in>set (ps_threads s). \<forall>r. p \<noteq> Finished r) \<and> (\<forall>now i. next_step checked now i s = None)"
proof -
  have "handshake_step checked s t \<longleftrightarrow> (\<exists>now i. next_step checked now i s = Some t)" for t
    by (blast elim: handshake_stepE intro: handshake_step.moves)
  then have "(\<forall>t. \<not> handshake_step checked s t) \<longleftrightarrow> (\<forall>now i t. next_step checked now i s \<noteq> Some t)"
    by (metis (no_types))
  also have "\<dots> \<longleftrightarrow> (\<forall>now i. next_step checked now i s = None)" by auto
  finally show ?thesis by (simp only: deadlocked_def)
qed

lemma blocked_iff:
  "next_step checked now i s = None \<longleftrightarrow> i \<ge> length (ps_threads s) \<or>
     (case ps_threads s ! i of
        AtStart \<Rightarrow> False
      | HoldsStart \<Rightarrow> HoldsUsed \<in> set (ps_threads s)
      | WindowOpen \<Rightarrow> checked i = Inr () \<and> HoldsUsed \<in> set (ps_threads s)
      | HoldsUsed \<Rightarrow> HoldsStart \<in> set (ps_threads s)
      | Finished r \<Rightarrow> True)"
  by (auto simp add: next_step_def split: place.split sum.split)

text \<open>C26: The handshakes deadlock exactly if one of them checks the window while another closes it and
  no other one can go on, since the two take the locks in opposite orders; and two devices that
  connect at the same time get there.\<close>

theorem opposite_lock_orders_deadlock:
  "(deadlocked checked s \<longleftrightarrow>
      HoldsStart \<in> set (ps_threads s) \<and> HoldsUsed \<in> set (ps_threads s) \<and> AtStart \<notin> set (ps_threads s) \<and>
      (\<forall>i<length (ps_threads s). ps_threads s ! i \<noteq> WindowOpen \<or> checked i = Inr ())) \<and>
    deadlocked (\<lambda>_. Inr ()) (fold (pairing_move (\<lambda>_. Inr ())) [(t, 0), (t, 0), (t, 1), (t, 0)] (pairing_start t 2))"
proof -
  have iff: "deadlocked checked s \<longleftrightarrow>
      HoldsStart \<in> set (ps_threads s) \<and> HoldsUsed \<in> set (ps_threads s) \<and> AtStart \<notin> set (ps_threads s) \<and>
      (\<forall>i<length (ps_threads s). ps_threads s ! i \<noteq> WindowOpen \<or> checked i = Inr ())" (is "_ \<longleftrightarrow> ?c") for checked s
  proof
    assume "deadlocked checked s"
    then obtain i where i: "i < length (ps_threads s)" "\<And>r. ps_threads s ! i \<noteq> Finished r"
        and none: "\<And>now i. next_step checked now i s = None" by (auto simp add: deadlocked_iff in_set_conv_nth)
    have none': "case ps_threads s ! j of AtStart \<Rightarrow> False | HoldsStart \<Rightarrow> HoldsUsed \<in> set (ps_threads s)
        | WindowOpen \<Rightarrow> checked j = Inr () \<and> HoldsUsed \<in> set (ps_threads s)
        | HoldsUsed \<Rightarrow> HoldsStart \<in> set (ps_threads s) | Finished r \<Rightarrow> True" if "j < length (ps_threads s)" for j
      using none [of undefined j] that by (simp add: blocked_iff)
    have "HoldsUsed \<in> set (ps_threads s)"
      using none' [OF i(1)] i nth_mem [OF i(1)] by (cases "ps_threads s ! i") auto
    then have "HoldsStart \<in> set (ps_threads s)" using none' by (fastforce simp add: in_set_conv_nth)
    then show ?c using none' \<open>HoldsUsed \<in> set (ps_threads s)\<close> by (fastforce simp add: in_set_conv_nth)
  next
    assume c: ?c
    then have "next_step checked now i s = None" for now i
      using nth_mem [of i "ps_threads s"]
      by (cases "i < length (ps_threads s)"; cases "ps_threads s ! i") (auto simp add: blocked_iff)
    then show "deadlocked checked s" using c by (auto simp add: deadlocked_iff)
  qed
  have "deadlocked (\<lambda>_. Inr ()) (fold (pairing_move (\<lambda>_. Inr ())) [(t, 0), (t, 0), (t, 1), (t, 0)] (pairing_start t 2))"
    by (auto simp add: iff pairing_move_def next_step_def move_def pairing_start_def new_pairing_verifier_def
        is_pairing_window_valid_def pairing_window_def numeral_2_eq_2 less_Suc_eq)
  with iff show ?thesis by blast
qed

theorem opposite_lock_orders_deadlock_witness:
  "deadlocked (\<lambda>_. Inr ()) (fold (pairing_move (\<lambda>_. Inr ())) [(0, 0), (0, 0), (0, 1), (0, 0)] (pairing_start 0 2)) \<and>
    \<not> deadlocked (\<lambda>_. Inr ()) (pairing_start 0 2)"
  using opposite_lock_orders_deadlock [of "\<lambda>_. Inr ()" "pairing_start 0 2" 0] by (auto simp add: pairing_start_def)

definition pairing_ok :: "pairing_state \<Rightarrow> bool" where
  "pairing_ok s \<longleftrightarrow>
     (HoldsUsed \<in> set (ps_threads s) \<or> Finished (Inr ()) \<in> set (ps_threads s) \<longrightarrow> pv_used (ps_verifier s)) \<and>
     (pv_start (ps_verifier s) = None \<longrightarrow> pv_used (ps_verifier s))"

lemma set_move: "p \<in> set (ps_threads (move i q s)) \<Longrightarrow> p = q \<or> p \<in> set (ps_threads s)"
  by (auto simp add: move_def dest: set_update_subset_insert [THEN subsetD])

lemma next_step_ok:
  assumes "pairing_ok s" and "next_step checked now i s = Some t"
  shows "pairing_ok t \<and> (pv_used (ps_verifier s) \<longrightarrow> pv_used (ps_verifier t))"
proof -
  have "HoldsUsed \<in> set (ps_threads s)" if "i < length (ps_threads s)" "ps_threads s ! i = HoldsUsed"
    using nth_mem [OF that(1)] that(2) by simp
  with assms show ?thesis
    by (auto simp add: next_step_def pairing_ok_def move_def not_le split: place.splits sum.splits if_splits
        dest!: set_update_subset_insert [THEN subsetD])
qed

interpretation parallel_pairing: machine "pairing_move checked" pairing_ok
  by unfold_locales (auto simp add: pairing_move_def next_step_ok split: option.split)

lemma move_threads: "length (ps_threads (pairing_move checked e s)) = length (ps_threads s)"
  by (auto simp add: pairing_move_def next_step_def move_def split: option.split place.split sum.split)

lemma used_move: "pv_used (ps_verifier s) \<Longrightarrow> pv_used (ps_verifier (pairing_move checked e s))"
  by (auto simp add: pairing_move_def next_step_def move_def split: option.split place.split sum.split)

definition too_late :: "place \<Rightarrow> bool" where
  "too_late p = (case p of AtStart \<Rightarrow> True | HoldsStart \<Rightarrow> True | Finished (Inl e) \<Rightarrow> True | _ \<Rightarrow> False)"

lemma too_late_move:
  assumes "pv_used (ps_verifier s)" and "i < length (ps_threads s)" and "too_late (ps_threads s ! i)"
  shows "too_late (ps_threads (pairing_move checked e s) ! i)"
  using assms
  by (cases "snd e = i")
    (auto simp add: pairing_move_def next_step_def move_def too_late_def is_pairing_window_valid_def
      split: option.split place.split sum.split)

lemma too_late_run:
  assumes "pv_used (ps_verifier s)" and "i < length (ps_threads s)" and "too_late (ps_threads s ! i)"
  shows "too_late (ps_threads (fold (pairing_move checked) es s) ! i)"
  using assms by (induction es arbitrary: s) (simp_all add: too_late_move used_move move_threads)

lemma run_threads: "length (ps_threads (fold (pairing_move checked) es s)) = length (ps_threads s)"
  by (induction es arbitrary: s) (simp_all add: move_threads)

text \<open>C25: Once a handshake is accepted, only those are accepted that had found the window open by then;
  but that can be more than one, since the window is checked and closed in separate steps: two
  devices that connect at the same time are both accepted.\<close>

theorem late_handshakes_are_refused:
  assumes "s = fold (pairing_move checked) es (pairing_start t n)" and "Finished (Inr ()) \<in> set (ps_threads s)" and "i < n"
    and "ps_threads (fold (pairing_move checked) es' s) ! i = Finished (Inr ())"
  shows "ps_threads s ! i \<in> {WindowOpen, HoldsUsed, Finished (Inr ())} \<and>
    ps_threads (fold (pairing_move (\<lambda>_. Inr ())) [(t, 0), (t, 1), (t, 0), (t, 1), (t, 0), (t, 0), (t, 1), (t, 1)] (pairing_start t 2)) =
      [Finished (Inr ()), Finished (Inr ())]"
proof -
  have "pairing_ok (pairing_start t n)" by (auto simp add: pairing_ok_def pairing_start_def new_pairing_verifier_def)
  then have "pairing_ok s" using parallel_pairing.inv_fold assms(1) by blast
  then have "pv_used (ps_verifier s)" using assms(2) by (auto simp add: pairing_ok_def)
  moreover have "i < length (ps_threads s)" using assms(1,3) by (simp add: run_threads pairing_start_def)
  ultimately have "\<not> too_late (ps_threads s ! i)"
    using too_late_run [of s i checked es'] assms(4) by (auto simp add: too_late_def)
  then have "ps_threads s ! i \<in> {WindowOpen, HoldsUsed, Finished (Inr ())}"
    by (auto simp add: too_late_def split: place.splits sum.splits)
  moreover have "ps_threads (fold (pairing_move (\<lambda>_. Inr ())) [(t, 0), (t, 1), (t, 0), (t, 1), (t, 0), (t, 0), (t, 1), (t, 1)]
      (pairing_start t 2)) = [Finished (Inr ()), Finished (Inr ())]"
    by (simp add: pairing_move_def next_step_def move_def pairing_start_def new_pairing_verifier_def
        is_pairing_window_valid_def pairing_window_def numeral_2_eq_2)
  ultimately show ?thesis by blast
qed

theorem late_handshakes_are_refused_witness:
  "\<exists>s. Finished (Inr ()) \<in> set (ps_threads s) \<and> ps_threads s ! 1 = WindowOpen \<and>
    ps_threads (fold (pairing_move (\<lambda>_. Inr ())) [(0, 1), (0, 1)] s) ! 1 = Finished (Inr ())"
proof -
  let ?s = "fold (pairing_move (\<lambda>_. Inr ())) [(0, 0), (0, 1), (0, 0), (0, 1), (0, 0), (0, 0)] (pairing_start 0 2)"
  note run = pairing_move_def next_step_def move_def pairing_start_def new_pairing_verifier_def
    is_pairing_window_valid_def pairing_window_def numeral_2_eq_2
  have f: "Finished (Inr ()) \<in> set (ps_threads ?s)" by (simp add: run)
  have e: "ps_threads (fold (pairing_move (\<lambda>_. Inr ())) [(0, 1), (0, 1)] ?s) ! 1 = Finished (Inr ())" by (simp add: run)
  from late_handshakes_are_refused [OF refl f _ e] have "ps_threads ?s ! 1 \<in> {WindowOpen, HoldsUsed, Finished (Inr ())}" by simp
  moreover have "ps_threads ?s ! 1 = WindowOpen" by (simp add: run)
  ultimately show ?thesis using f e by blast
qed

end
