(* ===== verification/Transfer_Engine.thy ===== *)
theory Transfer_Engine
  imports Resumable Framing
begin

text \<open>
  The transfer engine of a connection (\<open>landro-quic/src/transfer.rs\<close>): sessions that say which
  chunks a transfer needs and has, over the batch transfer (\<open>Framing\<close>) and the manager of resumable
  transfers (\<open>Resumable\<close>).

  Every operation has the engine to itself.  It is given the streams that the peer opens while it
  runs and one time for all that it does.  The byte count of a progress report goes through 32-bit
  floats in the code and is the parameter \<open>t_scaled\<close> of the total size and of the chunks received and
  needed; the other figures that are floats are left out.
\<close>

section \<open>Sessions\<close>

record transfer_env =
  t_blake3 :: "bytes \<Rightarrow> bytes"
  t_uni :: "nat \<Rightarrow> bool"
  t_short :: string
  t_codecs :: codecs
  t_scaled :: "u64 \<Rightarrow> nat \<Rightarrow> nat \<Rightarrow> u64"

record transfer_session =
  ts_transfer_id :: string
  ts_peer_id :: string
  ts_file_path :: string
  ts_total_size :: u64
  ts_needed :: "bytes list"
  ts_received :: "(bytes, chunk_data) hmap"
  ts_status :: transfer_status

record 'c engine =
  en_connection :: 'c
  en_cache :: chunk_cache
  en_manager :: "'c transfer_manager"
  en_sessions :: "(string, transfer_session) hmap"

definition new_engine :: "'c \<Rightarrow> 'c engine" where
  "new_engine conn = \<lparr>en_connection = conn, en_cache = [], en_manager = default_manager, en_sessions = []\<rparr>"

definition complete_session :: "nat \<Rightarrow> string \<Rightarrow> 'c engine \<Rightarrow> 'c engine" where
  "complete_session now i e =
     e\<lparr>en_sessions := hm_modify i (\<lambda>s. s\<lparr>ts_status := Completed\<rparr>) (en_sessions e),
       en_manager := complete_transfer now i (en_manager e)\<rparr>"

text \<open>The bytes, the chunks received and the chunks needed.\<close>

definition calculate_progress :: "transfer_env \<Rightarrow> string \<Rightarrow> 'c engine \<Rightarrow> u64 \<times> nat \<times> nat" where
  "calculate_progress env i e =
     (case hm_get (en_sessions e) i of
        Some s \<Rightarrow> (t_scaled env (ts_total_size s) (length (ts_received s)) (length (ts_needed s)),
          length (ts_received s), length (ts_needed s))
      | None \<Rightarrow> (0, 0, 0))"

definition receive_chunks :: "transfer_env \<Rightarrow> chunk_data list \<Rightarrow> transfer_session \<Rightarrow> transfer_session" where
  "receive_chunks env chunks s =
     s\<lparr>ts_received := hm_extend (map (\<lambda>c. (t_blake3 env (cd_data c), c)) chunks) (ts_received s)\<rparr>"

definition chunks_to_request :: "transfer_session \<Rightarrow> bytes list" where
  "chunks_to_request s = filter (\<lambda>h. \<not> hm_has (ts_received s) h) (ts_needed s)"

definition transfer_chunks_resumable :: "transfer_env \<Rightarrow> nat \<Rightarrow> bytes list \<Rightarrow> string \<Rightarrow> 'c engine \<Rightarrow>
    (quic_error + unit) \<times> 'c engine" where
  "transfer_chunks_resumable env now streams i e =
     (case hm_get (en_sessions e) i of
        None \<Rightarrow> (Inl (ProtocolErr (''Transfer session not found: '' @ i)), e)
      | Some s \<Rightarrow>
          let wanted = chunks_to_request s in
          if wanted = [] then (Inr (), complete_session now i e)
          else
            let (r, sent, cache) = transfer_chunks (t_uni env) (t_blake3 env) (t_short env) (t_codecs env)
                  wanted streams (en_cache e);
                e1 = e\<lparr>en_cache := cache\<rparr> in
            case r of
              Inl err \<Rightarrow> (Inl err, e1\<lparr>en_manager := fail_transfer now i (en_manager e1)\<rparr>)
            | Inr chunks \<Rightarrow>
                let e2 = e1\<lparr>en_sessions := hm_modify i (receive_chunks env chunks) (en_sessions e1)\<rparr>;
                    (bytes, received, needed) = calculate_progress env i e2;
                    e3 = e2\<lparr>en_manager := update_progress now i bytes (word_of_nat received) (en_manager e2)\<rparr> in
                (Inr (), if received = needed then complete_session now i e3 else e3))"

definition engine_start :: "transfer_env \<Rightarrow> nat \<Rightarrow> bytes list \<Rightarrow> string \<Rightarrow> string \<Rightarrow> string \<Rightarrow> u64 \<Rightarrow> bytes list \<Rightarrow>
    'c engine \<Rightarrow> (quic_error + unit) \<times> 'c engine" where
  "engine_start env now streams i peer p n needed e =
     (let s = \<lparr>ts_transfer_id = i, ts_peer_id = peer, ts_file_path = p, ts_total_size = n, ts_needed = needed,
            ts_received = [], ts_status = Active\<rparr>;
          e1 = e\<lparr>en_manager := start_transfer now i peer p n (en_connection e) (en_manager e)\<rparr>;
          e2 = e1\<lparr>en_sessions := hm_put i s (en_sessions e1)\<rparr> in
      transfer_chunks_resumable env now streams i e2)"

definition transfer_status_of :: "string \<Rightarrow> 'c engine \<Rightarrow> transfer_status option" where
  "transfer_status_of i e = map_option status (hm_get (active_transfers (en_manager e)) i)"

definition engine_resume :: "transfer_env \<Rightarrow> nat \<Rightarrow> bytes list \<Rightarrow> string \<Rightarrow> 'c engine \<Rightarrow>
    (quic_error + unit) \<times> 'c engine" where
  "engine_resume env now streams i e =
     (case transfer_status_of i e of
        None \<Rightarrow> (Inl (ProtocolErr (''Transfer not found: '' @ i)), e)
      | Some st \<Rightarrow>
          if st = Paused \<or> st = Failed
          then case resume_transfer now i (en_connection e) (en_manager e) of
              (Inl err, m) \<Rightarrow> (Inl err, e\<lparr>en_manager := m\<rparr>)
            | (Inr _, m) \<Rightarrow> transfer_chunks_resumable env now streams i (e\<lparr>en_manager := m\<rparr>)
          else if st = Cancelled then (Inl (ProtocolErr (''Cannot resume cancelled transfer: '' @ i)), e)
          else (Inr (), e))"

definition engine_pause :: "nat \<Rightarrow> string \<Rightarrow> 'c engine \<Rightarrow> 'c engine" where
  "engine_pause now i e =
     e\<lparr>en_sessions := hm_modify i (\<lambda>s. s\<lparr>ts_status := Paused\<rparr>) (en_sessions e),
       en_manager := pause_transfer now i (en_manager e)\<rparr>"

definition engine_cancel :: "nat \<Rightarrow> string \<Rightarrow> 'c engine \<Rightarrow> 'c engine" where
  "engine_cancel now i e =
     e\<lparr>en_sessions := hm_del i (en_sessions e), en_manager := fail_transfer now i (en_manager e)\<rparr>"

text \<open>Status, chunks received, chunks needed and total size, for a transfer both know.\<close>

definition get_transfer_progress :: "string \<Rightarrow> 'c engine \<Rightarrow> (transfer_status \<times> nat \<times> nat \<times> u64) option" where
  "get_transfer_progress i e =
     (case transfer_status_of i e of
        None \<Rightarrow> None
      | Some st \<Rightarrow> map_option (\<lambda>s. (st, length (ts_received s), length (ts_needed s), ts_total_size s))
          (hm_get (en_sessions e) i))"

definition list_active_transfers :: "(string list \<Rightarrow> string list) \<Rightarrow> 'c engine \<Rightarrow> (transfer_status \<times> nat \<times> nat \<times> u64) list" where
  "list_active_transfers it e = List.map_filter (\<lambda>i. get_transfer_progress i e) (it (map fst (en_sessions e)))"

section \<open>Runs of an engine\<close>

datatype engine_op =
    EngineStart nat "bytes list" string string string u64 "bytes list"
  | EngineResume nat "bytes list" string
  | EnginePause nat string
  | EngineCancel nat string
  | EngineCleanup nat

fun engine_step :: "transfer_env \<Rightarrow> engine_op \<Rightarrow> 'c engine \<Rightarrow> 'c engine" where
  "engine_step env (EngineStart now streams i peer p n needed) e = snd (engine_start env now streams i peer p n needed e)"
| "engine_step env (EngineResume now streams i) e = snd (engine_resume env now streams i e)"
| "engine_step env (EnginePause now i) e = engine_pause now i e"
| "engine_step env (EngineCancel now i) e = engine_cancel now i e"
| "engine_step env (EngineCleanup now) e = e\<lparr>en_manager := cleanup_tick now (en_manager e)\<rparr>"

text \<open>What a session holds is what it needs, under its own hash; a completed one has it all.\<close>

definition session_ok :: "transfer_env \<Rightarrow> transfer_session \<Rightarrow> bool" where
  "session_ok env s \<longleftrightarrow> hm_wf (ts_received s) \<and>
     (\<forall>h c. hm_get (ts_received s) h = Some c \<longrightarrow> h \<in> set (ts_needed s) \<and> cd_hash c = h \<and> t_blake3 env (cd_data c) = h) \<and>
     (ts_status s = Completed \<longrightarrow> (\<forall>h\<in>set (ts_needed s). hm_get (ts_received s) h \<noteq> None))"

definition no_cancelled :: "'c transfer_manager \<Rightarrow> bool" where
  "no_cancelled m \<longleftrightarrow> hm_wf (active_transfers m) \<and>
     (\<forall>i t. hm_get (active_transfers m) i = Some t \<longrightarrow> status t \<noteq> Cancelled \<and> status t \<noteq> Completed)"

definition engine_ok :: "transfer_env \<Rightarrow> 'c engine \<Rightarrow> bool" where
  "engine_ok env e \<longleftrightarrow> cache_ok (t_blake3 env) (en_cache e) \<and> hm_wf (en_sessions e) \<and>
     (\<forall>i s. hm_get (en_sessions e) i = Some s \<longrightarrow> session_ok env s) \<and> no_cancelled (en_manager e)"


section \<open>Steps keep the invariant\<close>

lemma no_cancelled_step: "no_cancelled m \<Longrightarrow> no_cancelled (transfer_step op m)"
proof (cases op)
  case (CleanupTick now)
  moreover assume "no_cancelled m"
  ultimately show ?thesis
    by (auto simp add: no_cancelled_def cleanup_tick_def hm_wf_filter dest: hm_get_filter)
qed (fastforce simp add: no_cancelled_def manager_defs remove_checkpoint_def activate_def hm.wf_put hm.wf_del hm.get_put
      hm.get_del split: option.splits if_splits)+

lemmas no_cancelled_ops =
  no_cancelled_step [of _ "StartTransfer now i peer p n conn" for now i peer p n conn, simplified]
  no_cancelled_step [of _ "UpdateProgress now i b k" for now i b k, simplified]
  no_cancelled_step [of _ "CompleteTransfer now i" for now i, simplified]
  no_cancelled_step [of _ "FailTransfer now i" for now i, simplified]
  no_cancelled_step [of _ "PauseTransfer now i" for now i, simplified]
  no_cancelled_step [of _ "ResumeTransfer now i conn" for now i conn, simplified]
  no_cancelled_step [of _ "CleanupTick now" for now, simplified]

lemma transfer_chunks_sound:
  assumes "transfer_chunks uni blake3 short cs wanted streams cache = (r, sent, cache')" and "cache_ok blake3 cache"
  shows "cache_ok blake3 cache' \<and>
    (\<forall>chunks. r = Inr chunks \<longrightarrow> (\<forall>c\<in>set chunks. cd_hash c \<in> set wanted \<and> blake3 (cd_data c) = cd_hash c))"
proof -
  obtain chunks cache1 where b: "receive_batch blake3 short cs wanted (length wanted) streams ([], cache) = (chunks, cache1)"
    by fastforce
  from receive_batch_sound [OF b assms(2)] valid_chunk_hash [of blake3] assms b show ?thesis
    by (auto simp add: transfer_chunks_def Let_def split: sum.splits)
qed

lemma receive_chunks_get:
  assumes "hm_wf (ts_received s)"
  shows "hm_get (ts_received (receive_chunks env chunks s)) h =
    (case map_of (rev (map (\<lambda>c. (t_blake3 env (cd_data c), c)) chunks)) h of
       None \<Rightarrow> hm_get (ts_received s) h | Some c \<Rightarrow> Some c)"
  using assms by (simp add: receive_chunks_def hm_extend_put_all hm.get_put_all)

lemma receive_chunks_fields [simp]:
  "ts_needed (receive_chunks env chunks s) = ts_needed s" "ts_status (receive_chunks env chunks s) = ts_status s"
  "ts_total_size (receive_chunks env chunks s) = ts_total_size s"
  by (simp_all add: receive_chunks_def)

lemma receive_chunks_ok:
  assumes "session_ok env s"
    and "\<forall>c\<in>set chunks. cd_hash c \<in> set (ts_needed s) \<and> t_blake3 env (cd_data c) = cd_hash c"
  shows "session_ok env (receive_chunks env chunks s)"
proof -
  have "hm_wf (ts_received (receive_chunks env chunks s))"
    using assms(1) by (simp add: receive_chunks_def session_ok_def hm_wf_extend)
  moreover have "h \<in> set (ts_needed s) \<and> cd_hash c = h \<and> t_blake3 env (cd_data c) = h"
    if "hm_get (ts_received (receive_chunks env chunks s)) h = Some c" for h c
  proof (cases "map_of (rev (map (\<lambda>c. (t_blake3 env (cd_data c), c)) chunks)) h")
    case None
    with that assms(1) show ?thesis by (simp add: receive_chunks_get session_ok_def)
  next
    case (Some d)
    with map_of_SomeD [OF Some] that assms show ?thesis by (auto simp add: receive_chunks_get session_ok_def)
  qed
  moreover have "hm_get (ts_received (receive_chunks env chunks s)) h \<noteq> None" if "hm_get (ts_received s) h \<noteq> None" for h
    using that assms(1) by (simp add: session_ok_def receive_chunks_get split: option.split)
  ultimately show ?thesis using assms(1) by (simp add: session_ok_def)
qed

text \<open>As many entries as chunks are needed, all of them needed: then no chunk is needed twice and all
  are there.\<close>

lemma received_all:
  assumes "session_ok env s" and "length (ts_received s) = length (ts_needed s)"
  shows "distinct (ts_needed s) \<and> (\<forall>h\<in>set (ts_needed s). hm_get (ts_received s) h \<noteq> None)"
proof -
  have k: "distinct (map fst (ts_received s))" using assms(1) by (simp add: session_ok_def hm_wf_def)
  have sub: "fst ` set (ts_received s) \<subseteq> set (ts_needed s)"
    using assms(1) by (auto simp add: session_ok_def hm_mem_iff)
  have "card (fst ` set (ts_received s)) = length (ts_received s)"
    using distinct_card [OF k] by simp
  moreover have "card (set (ts_needed s)) \<le> length (ts_needed s)" by (rule card_length)
  moreover have "card (fst ` set (ts_received s)) \<le> card (set (ts_needed s))" using sub by (simp add: card_mono)
  ultimately have c: "card (set (ts_needed s)) = length (ts_needed s)"
      and eq: "fst ` set (ts_received s) = set (ts_needed s)"
    using assms(2) sub by (simp_all add: card_subset_eq)
  from c have "distinct (ts_needed s)" by (rule card_distinct)
  moreover from eq have "\<forall>h\<in>set (ts_needed s). hm_get (ts_received s) h \<noteq> None"
    by (auto simp add: hm_get_def map_of_eq_None_iff)
  ultimately show ?thesis by blast
qed

lemma requested_nothing: "chunks_to_request s = [] \<longleftrightarrow> (\<forall>h\<in>set (ts_needed s). hm_get (ts_received s) h \<noteq> None)"
  by (auto simp add: chunks_to_request_def filter_empty_conv hm_has_def)

lemma complete_session_ok:
  assumes "engine_ok env e"
    and "\<And>s. hm_get (en_sessions e) i = Some s \<Longrightarrow> \<forall>h\<in>set (ts_needed s). hm_get (ts_received s) h \<noteq> None"
  shows "engine_ok env (complete_session now i e)"
  using assms by (auto simp add: engine_ok_def complete_session_def hm_get_modify session_ok_def no_cancelled_ops)

lemma transfer_chunks_resumable_ok:
  assumes "engine_ok env e"
  shows "engine_ok env (snd (transfer_chunks_resumable env now streams i e))"
proof (cases "hm_get (en_sessions e) i")
  case None
  with assms show ?thesis by (simp add: transfer_chunks_resumable_def)
next
  case (Some s)
  with assms have s: "session_ok env s" by (simp add: engine_ok_def)
  show ?thesis
  proof (cases "chunks_to_request s = []")
    case True
    with Some requested_nothing complete_session_ok [OF assms, of i now] show ?thesis
      by (auto simp add: transfer_chunks_resumable_def)
  next
    case False
    obtain r sent cache where t: "transfer_chunks (t_uni env) (t_blake3 env) (t_short env) (t_codecs env)
        (chunks_to_request s) streams (en_cache e) = (r, sent, cache)" by (metis prod_cases3)
    have c: "cache_ok (t_blake3 env) cache" and
        sound: "\<And>chunks. r = Inr chunks \<Longrightarrow>
          \<forall>c\<in>set chunks. cd_hash c \<in> set (ts_needed s) \<and> t_blake3 env (cd_data c) = cd_hash c"
      using transfer_chunks_sound [OF t] assms by (auto simp add: engine_ok_def chunks_to_request_def)
    show ?thesis
    proof (cases r)
      case (Inl err)
      with Some False t c assms show ?thesis
        by (simp add: transfer_chunks_resumable_def engine_ok_def no_cancelled_ops)
    next
      case (Inr chunks)
      let ?s = "receive_chunks env chunks s"
      let ?e2 = "e\<lparr>en_cache := cache, en_sessions := hm_modify i (receive_chunks env chunks) (en_sessions e)\<rparr>"
      have s': "session_ok env ?s" using receive_chunks_ok [OF s sound [OF Inr]] .
      have e3: "engine_ok env (?e2\<lparr>en_manager := update_progress now i b k (en_manager e)\<rparr>)" for b k
        using assms c s' Some by (auto simp add: engine_ok_def hm_get_modify no_cancelled_ops)
      have get: "hm_get (en_sessions ?e2) i = Some ?s" using Some by (simp add: hm_get_modify)
      have "engine_ok env (complete_session now i (?e2\<lparr>en_manager := update_progress now i b k (en_manager e)\<rparr>))"
        if "length (ts_received ?s) = length (ts_needed s)" for b k
        by (rule complete_session_ok [OF e3]) (use received_all [OF s'] that get in auto)
      with e3 show ?thesis using Some False t Inr get
        by (simp add: transfer_chunks_resumable_def calculate_progress_def Let_def)
    qed
  qed
qed

lemma fresh_session_ok: "session_ok env \<lparr>ts_transfer_id = i, ts_peer_id = p, ts_file_path = f, ts_total_size = n,
    ts_needed = needed, ts_received = [], ts_status = Active\<rparr>"
  by (simp add: session_ok_def hm.wf_empty hm.get_empty)

interpretation engine: machine "engine_step env" "engine_ok env"
proof
  fix e :: "'c engine" and op
  assume ok: "engine_ok env e"
  show "engine_ok env (engine_step env op e)"
  proof (cases op)
    case (EngineStart now streams i peer p n needed)
    let ?s = "\<lparr>ts_transfer_id = i, ts_peer_id = peer, ts_file_path = p, ts_total_size = n, ts_needed = needed,
        ts_received = [], ts_status = Active\<rparr>"
    have "engine_ok env (e\<lparr>en_manager := start_transfer now i peer p n (en_connection e) (en_manager e),
        en_sessions := hm_put i ?s (en_sessions e)\<rparr>)"
      using ok fresh_session_ok [of env] by (simp add: engine_ok_def hm.get_put hm.wf_put no_cancelled_ops)
    with EngineStart show ?thesis by (simp add: engine_start_def Let_def transfer_chunks_resumable_ok)
  next
    case (EngineResume now streams i)
    have m: "engine_ok env (e\<lparr>en_manager := snd (resume_transfer now i (en_connection e) (en_manager e))\<rparr>)"
      using ok by (simp add: engine_ok_def no_cancelled_ops)
    then have "engine_ok env (snd (transfer_chunks_resumable env now streams i
        (e\<lparr>en_manager := snd (resume_transfer now i (en_connection e) (en_manager e))\<rparr>)))"
      by (rule transfer_chunks_resumable_ok)
    with m ok EngineResume show ?thesis
      by (cases "resume_transfer now i (en_connection e) (en_manager e)")
        (auto simp add: engine_resume_def split: option.split sum.split)
  qed (use ok in \<open>auto simp add: engine_pause_def engine_cancel_def engine_ok_def hm_get_modify session_ok_def
      hm.get_del hm.wf_del no_cancelled_ops split: if_splits\<close>)
qed

lemma new_engine_ok: "engine_ok env (new_engine conn)"
  by (simp add: engine_ok_def new_engine_def default_manager_def new_manager_def cache_ok_def no_cancelled_def
      hm.wf_empty hm.get_empty)


section \<open>What the sessions hold\<close>

text \<open>C19: Whatever is started, resumed, paused and cancelled and whatever the peer sends, a session holds
  only chunks that it needs, each under its own hash, and a session that is marked as completed
  holds them all; no transfer is ever in the state Cancelled, so its error when resumed cannot arise.\<close>

theorem completed_transfers_have_their_chunks:
  assumes "e = fold (engine_step env) ops (new_engine conn)" and "hm_get (en_sessions e) i = Some s"
  shows "(hm_get (ts_received s) h = Some c \<longrightarrow> h \<in> set (ts_needed s) \<and> t_blake3 env (cd_data c) = h) \<and>
    (ts_status s = Completed \<longrightarrow> (\<forall>h\<in>set (ts_needed s). hm_has (ts_received s) h)) \<and>
    transfer_status_of j e \<noteq> Some Cancelled"
proof -
  have "engine_ok env e" unfolding assms(1) by (rule engine.inv_fold) (rule new_engine_ok)
  with assms(2) have "session_ok env s" and "no_cancelled (en_manager e)" by (simp_all add: engine_ok_def)
  then show ?thesis by (auto simp add: session_ok_def hm_has_def transfer_status_of_def no_cancelled_def)
qed

section \<open>A chunk needed twice\<close>

lemma update_progress_status:
  "hm_wf (active_transfers m) \<Longrightarrow>
    map_option status (hm_get (active_transfers (update_progress now i b k m)) j) =
      map_option status (hm_get (active_transfers m) j)"
  by (auto simp add: update_progress_def save_checkpoint_def Let_def hm.get_put split: option.split)

lemma started_active:
  "hm_wf (active_transfers m) \<Longrightarrow> map_option status (hm_get (active_transfers (start_transfer now i p f n conn m)) i) =
    (if (case load_checkpoint i m of Some c \<Rightarrow> bytes_transferred c | None \<Rightarrow> 0) \<ge> n
     then map_option status (hm_get (active_transfers m) i) else Some Active)"
  by (auto simp add: start_transfer_def save_checkpoint_def activate_def Let_def hm.get_put split: option.split)

text \<open>A transfer that needs a chunk twice never completes: it counts the distinct chunks it has against
  all it needs, so even with every chunk there it stays active, and an active transfer is not
  resumed.\<close>

theorem repeated_chunk_never_completes:
  assumes "engine_ok env e" and "\<not> distinct needed" and "\<not> hm_has (active_transfers (en_manager e)) i"
    and "engine_start env now streams i peer p n needed e = (Inr (), e')"
  shows "(\<exists>s. hm_get (en_sessions e') i = Some s \<and> ts_status s = Active) \<and>
    (hm_has (active_transfers (en_manager e')) i \<longrightarrow> engine_resume env now' streams' i e' = (Inr (), e'))"
proof -
  let ?s = "\<lparr>ts_transfer_id = i, ts_peer_id = peer, ts_file_path = p, ts_total_size = n, ts_needed = needed,
      ts_received = [], ts_status = Active\<rparr>"
  let ?m = "start_transfer now i peer p n (en_connection e) (en_manager e)"
  let ?e = "e\<lparr>en_manager := ?m, en_sessions := hm_put i ?s (en_sessions e)\<rparr>"
  have wf: "hm_wf (active_transfers (en_manager e))" "hm_wf (en_sessions e)"
    using assms(1) by (simp_all add: engine_ok_def no_cancelled_def)
  have m: "hm_wf (active_transfers ?m)"
    using assms(1) no_cancelled_ops(1) unfolding engine_ok_def no_cancelled_def by metis
  have st: "map_option status (hm_get (active_transfers ?m) i) \<in> {None, Some Active}"
    using started_active [OF wf(1)] assms(3) by (simp add: hm_has_def)
  have s: "hm_get (en_sessions ?e) i = Some ?s" "chunks_to_request ?s = needed" "needed \<noteq> []"
    using wf(2) assms(2) by (auto simp add: hm.get_put chunks_to_request_def hm_has_def hm.get_empty)
  obtain r sent cache where t: "transfer_chunks (t_uni env) (t_blake3 env) (t_short env) (t_codecs env)
      needed streams (en_cache e) = (r, sent, cache)" by (metis prod_cases3)
  from assms(4) have run: "transfer_chunks_resumable env now streams i ?e = (Inr (), e')"
    by (simp add: engine_start_def Let_def)
  then obtain chunks where r: "r = Inr chunks"
    using s t by (cases r) (simp_all add: transfer_chunks_resumable_def)
  let ?s1 = "receive_chunks env chunks ?s"
  have "\<forall>c\<in>set chunks. cd_hash c \<in> set needed \<and> t_blake3 env (cd_data c) = cd_hash c"
    using transfer_chunks_sound [OF t] assms(1) r by (simp add: engine_ok_def)
  then have "session_ok env ?s1" by (intro receive_chunks_ok fresh_session_ok) simp
  then have "length (ts_received ?s1) \<noteq> length needed" using received_all assms(2) by fastforce
  then obtain b k where e': "e' = ?e\<lparr>en_cache := cache,
      en_sessions := hm_modify i (receive_chunks env chunks) (hm_put i ?s (en_sessions e)),
      en_manager := update_progress now i b k ?m\<rparr>"
    using run s t r wf(2) by (auto simp add: transfer_chunks_resumable_def calculate_progress_def Let_def hm_get_modify)
  have "hm_get (en_sessions e') i = Some ?s1" using wf(2) by (simp add: e' hm_get_modify hm.get_put)
  moreover have "transfer_status_of i e' \<in> {None, Some Active}"
    using st update_progress_status [OF m] by (simp add: e' transfer_status_of_def)
  ultimately show ?thesis
    by (auto simp add: engine_resume_def hm_has_def transfer_status_of_def split: option.splits)
qed

section \<open>Cancelling\<close>

text \<open>Cancelling removes the session but leaves the transfer failed: resuming it makes it active again
  for the manager and then fails for want of the session, so an active transfer without a session
  is left behind.\<close>

theorem cancelled_transfer_is_revived:
  assumes "engine_ok env e" and "hm_get (active_transfers (en_manager e)) i = Some t"
    and "retry_count (checkpoint t) + 1 < max_retry_count (en_manager e)"
    and "engine_resume env now' streams i (engine_cancel now i e) = (r, e')"
  shows "r = Inl (ProtocolErr (''Transfer session not found: '' @ i)) \<and> transfer_status_of i e' = Some Active \<and>
    \<not> hm_has (en_sessions e') i \<and> get_transfer_progress i e' = None"
proof -
  let ?t = "t\<lparr>checkpoint := (checkpoint t)\<lparr>retry_count := retry_count (checkpoint t) + 1, last_checkpoint := now\<rparr>, status := Failed\<rparr>"
  have wf: "hm_wf (active_transfers (en_manager e))" "hm_wf (en_sessions e)"
    using assms(1) by (simp_all add: engine_ok_def no_cancelled_def)
  have c: "hm_get (active_transfers (en_manager (engine_cancel now i e))) i = Some ?t"
      "hm_wf (active_transfers (en_manager (engine_cancel now i e)))"
      "hm_get (en_sessions (engine_cancel now i e)) i = None"
    using assms(2,3) wf by (simp_all add: engine_cancel_def fail_transfer_def save_checkpoint_def Let_def
        hm.get_put hm.get_del hm.wf_put hm.wf_del)
  with assms(4) show ?thesis
    by (auto simp add: engine_resume_def transfer_status_of_def resume_transfer_def transfer_chunks_resumable_def
        hm.get_put hm_has_def get_transfer_progress_def)
qed

section \<open>A peer that sends everything\<close>

text \<open>Each stream carries the chunk with the hash at its place.\<close>

definition sends_each :: "transfer_env \<Rightarrow> bytes list \<Rightarrow> bytes list \<Rightarrow> bool" where
  "sends_each env hs streams \<longleftrightarrow> list_all2 (\<lambda>h s. \<exists>c. receive_chunk_data (t_blake3 env) (t_short env) (t_codecs env) s = Inr c \<and>
     t_blake3 env (cd_data c) = h) hs streams"

lemma receive_batch_all:
  assumes "sends_each env hs streams" and "set hs \<subseteq> set wanted"
  shows "\<exists>chunks cache'. receive_batch (t_blake3 env) (t_short env) (t_codecs env) wanted (length hs) streams (received, cache) =
      (received @ chunks, cache') \<and> map (\<lambda>c. t_blake3 env (cd_data c)) chunks = hs"
  using assms
proof (induction hs arbitrary: streams received cache)
  case (Cons h hs)
  then obtain s ss c where s: "streams = s # ss" "receive_chunk_data (t_blake3 env) (t_short env) (t_codecs env) s = Inr c"
      "t_blake3 env (cd_data c) = h" "sends_each env hs ss" by (auto simp add: sends_each_def list_all2_Cons1)
  from Cons.IH [OF s(4), of "received @ [c]" "hm_put h c cache"] Cons.prems(2) obtain chunks cache' where
    "receive_batch (t_blake3 env) (t_short env) (t_codecs env) wanted (length hs) ss (received @ [c], hm_put h c cache) =
      (received @ [c] @ chunks, cache')" "map (\<lambda>c. t_blake3 env (cd_data c)) chunks = hs" by auto
  with s Cons.prems(2) show ?case by (intro exI [of _ "c # chunks"] exI [of _ cache']) (simp add: Let_def)
qed simp

lemma received_length:
  assumes "session_ok env s" and "distinct (ts_needed s)" and "\<forall>h\<in>set (ts_needed s). hm_get (ts_received s) h \<noteq> None"
  shows "length (ts_received s) = length (ts_needed s)"
proof -
  have "distinct (map fst (ts_received s))" using assms(1) by (simp add: session_ok_def hm_wf_def)
  from distinct_card [OF this] have "length (ts_received s) = card (fst ` set (ts_received s))" by simp
  also have "fst ` set (ts_received s) = set (ts_needed s)"
    using assms(1,3) by (auto simp add: session_ok_def hm_mem_iff hm_get_def map_of_eq_None_iff)
  also have "card \<dots> = length (ts_needed s)" using assms(2) by (rule distinct_card)
  finally show ?thesis .
qed

lemma undisturbed_transfer:
  assumes "engine_ok env e" and "distinct needed" and "sends_each env needed streams"
    and "send_want (t_uni env) (t_codecs env) \<lparr>w_folder_id = ''default'', w_chunk_hashes = needed, w_priority = 1\<rparr> = Inr frame"
  shows "\<exists>e' s. engine_start env now streams i peer p n needed e = (Inr (), e') \<and> hm_get (en_sessions e') i = Some s \<and>
    ts_status s = Completed \<and> ts_needed s = needed \<and> length (ts_received s) = length needed \<and> (\<forall>h\<in>set needed. hm_has (ts_received s) h) \<and>
    transfer_status_of i e' = None"
proof -
  let ?s = "\<lparr>ts_transfer_id = i, ts_peer_id = peer, ts_file_path = p, ts_total_size = n, ts_needed = needed,
      ts_received = [], ts_status = Active\<rparr>"
  let ?m = "start_transfer now i peer p n (en_connection e) (en_manager e)"
  let ?e = "e\<lparr>en_manager := ?m, en_sessions := hm_put i ?s (en_sessions e)\<rparr>"
  have wf: "hm_wf (en_sessions e)" "hm_wf (active_transfers ?m)" "hm_wf (active_transfers (update_progress now i b k ?m))" for b k
    using assms(1) no_cancelled_ops(1,2) unfolding engine_ok_def no_cancelled_def by metis+
  have gone: "map_option status (hm_get (active_transfers (complete_transfer now i m)) i) = None"
    if "hm_wf (active_transfers m)" for m :: "'c transfer_manager"
    using that by (auto simp add: complete_transfer_def save_checkpoint_def hm.get_del split: option.split)
  have s: "hm_get (en_sessions ?e) i = Some ?s" "chunks_to_request ?s = needed"
    using wf(1) by (auto simp add: hm.get_put chunks_to_request_def hm_has_def hm.get_empty)
  show ?thesis
  proof (cases "needed = []")
    case True
    with s wf(1) gone [OF wf(2)] show ?thesis
      by (simp add: engine_start_def Let_def transfer_chunks_resumable_def complete_session_def hm_get_modify
          hm.get_put transfer_status_of_def)
  next
    case False
    from receive_batch_all [OF assms(3), of needed "[]" "en_cache e"] obtain chunks cache' where
      b: "receive_batch (t_blake3 env) (t_short env) (t_codecs env) needed (length needed) streams ([], en_cache e) = (chunks, cache')"
        "map (\<lambda>c. t_blake3 env (cd_data c)) chunks = needed" by auto
    then have t: "transfer_chunks (t_uni env) (t_blake3 env) (t_short env) (t_codecs env) needed streams (en_cache e) =
        (Inr chunks, [frame], cache')" using assms(4) by (simp add: transfer_chunks_def)
    let ?s1 = "receive_chunks env chunks ?s"
    have "\<forall>c\<in>set chunks. cd_hash c \<in> set needed \<and> t_blake3 env (cd_data c) = cd_hash c"
      using transfer_chunks_sound [OF t] assms(1) by (simp add: engine_ok_def)
    then have ok: "session_ok env ?s1" by (intro receive_chunks_ok fresh_session_ok) simp
    have all: "\<forall>h\<in>set needed. hm_get (ts_received ?s1) h \<noteq> None"
    proof
      fix h
      assume "h \<in> set needed"
      then have "h \<in> set (map fst (rev (map (\<lambda>c. (t_blake3 env (cd_data c), c)) chunks)))"
        using b(2) by (auto simp add: image_image)
      then have "map_of (rev (map (\<lambda>c. (t_blake3 env (cd_data c), c)) chunks)) h \<noteq> None"
        by (simp only: map_of_eq_None_iff set_map) blast
      then show "hm_get (ts_received ?s1) h \<noteq> None" by (auto simp add: receive_chunks_get hm.wf_empty)
    qed
    have len: "length (ts_received ?s1) = length needed" using received_length [OF ok] assms(2) all by simp
    let ?e2 = "?e\<lparr>en_cache := cache', en_sessions := hm_modify i (receive_chunks env chunks) (en_sessions ?e)\<rparr>"
    let ?e3 = "?e2\<lparr>en_manager := update_progress now i (t_scaled env n (length needed) (length needed))
        (word_of_nat (length needed)) ?m\<rparr>"
    have "engine_start env now streams i peer p n needed e = (Inr (), complete_session now i ?e3)"
      using s False t len wf(1)
      by (simp add: engine_start_def Let_def transfer_chunks_resumable_def calculate_progress_def hm_get_modify hm.get_put)
    moreover have "hm_get (en_sessions (complete_session now i ?e3)) i = Some (?s1\<lparr>ts_status := Completed\<rparr>)"
      using wf(1) by (simp add: complete_session_def hm_get_modify hm.get_put)
    moreover have "transfer_status_of i (complete_session now i ?e3) = None"
      using gone [OF wf(3)] by (simp add: transfer_status_of_def complete_session_def)
    ultimately show ?thesis using len all by (auto simp add: hm_has_def)
  qed
qed


section \<open>A concrete environment\<close>

definition sample_engine_env :: transfer_env where
  "sample_engine_env = \<lparr>t_blake3 = (\<lambda>_. replicate 32 0), t_uni = (\<lambda>_. False), t_short = ''eof'',
     t_codecs = sample_codecs ''docs'', t_scaled = (\<lambda>n r k. n * word_of_nat r div word_of_nat k)\<rparr>"

definition sample_stream :: bytes where
  "sample_stream = [4, 0, 0, 0, 3, 1, 2, 3]"

lemma sample_stream_chunk:
  "receive_chunk_data (\<lambda>_. replicate 32 0) ''eof'' (sample_codecs ''docs'') sample_stream = Inr (sample_chunk 300)"
proof -
  have "send_chunk_data (\<lambda>_. replicate 32 0) (sample_codecs ''docs'') (sample_chunk 300) = Inr sample_stream"
    by (simp add: send_chunk_data_def sample_frame validate_chunk_data_def must_be_32_def validate_chunk_size_def limits
        sample_stream_def)
  then show ?thesis
    using receive_sent [of "c_chunk (sample_codecs ''docs'')" "sample_chunk 300" TChunkData _ "''eof''" "[]"]
      sample_codecs_ok(2) [of "''docs''"]
    by (auto simp add: send_chunk_data_def receive_chunk_data_def result_simps)
qed

lemma sample_sends_each: "sends_each sample_engine_env [replicate 32 0] [sample_stream]"
  by (simp add: sends_each_def sample_engine_env_def sample_stream_chunk)

lemma sample_sends_want:
  "list_all (\<lambda>h. length h = 32) hs \<Longrightarrow> length hs \<le> 2 \<Longrightarrow>
    send_want (t_uni sample_engine_env) (t_codecs sample_engine_env)
      \<lparr>w_folder_id = ''default'', w_chunk_hashes = hs, w_priority = 1\<rparr> = Inr [3, 0, 0, 0, 3, 1, 2, 3]"
  using for_each_Inr_iff [of "must_be_32 ''Chunk hash''" hs "()"]
  by (simp add: send_want_def sample_engine_env_def sample_frame validate_want_def validate_folder_id_def
      is_alphanumeric_def is_ascii_alnum_def must_be_32_def limits list_all_iff)



theorem completed_transfers_have_their_chunks_witness:
  "\<exists>s. hm_get (en_sessions (fold (engine_step sample_engine_env)
      [EngineStart 0 [sample_stream] ''t'' ''p'' ''f'' 300 [replicate 32 0]] (new_engine ()))) ''t'' = Some s \<and>
    ts_status s = Completed \<and> hm_has (ts_received s) (replicate 32 0)"
proof -
  from undisturbed_transfer [OF new_engine_ok [where conn = "()"] _ sample_sends_each sample_sends_want,
      where now = 0 and i = "''t''" and peer = "''p''" and p = "''f''" and n = 300]
  obtain e' s where e: "engine_start sample_engine_env 0 [sample_stream] ''t'' ''p'' ''f'' 300 [replicate 32 0] (new_engine ()) = (Inr (), e')"
      and s: "hm_get (en_sessions e') ''t'' = Some s" "ts_status s = Completed" "ts_needed s = [replicate 32 0]" by auto
  have f: "e' = fold (engine_step sample_engine_env) [EngineStart 0 [sample_stream] ''t'' ''p'' ''f'' 300 [replicate 32 0]] (new_engine ())"
    using e by simp
  from completed_transfers_have_their_chunks [OF f s(1)] s f show ?thesis by auto
qed

theorem repeated_chunk_never_completes_witness:
  "\<exists>e' s. engine_start sample_engine_env 0 [sample_stream, sample_stream] ''t'' ''p'' ''f'' 600
      [replicate 32 0, replicate 32 0] (new_engine ()) = (Inr (), e') \<and>
    hm_get (en_sessions e') ''t'' = Some s \<and> ts_status s = Active \<and>
    engine_resume sample_engine_env 1 [] ''t'' e' = (Inr (), e')"
proof -
  let ?needed = "[replicate 32 0, replicate 32 0] :: bytes list"
  let ?run = "engine_start sample_engine_env 0 [sample_stream, sample_stream] ''t'' ''p'' ''f'' 600 ?needed (new_engine ())"
  have w: "send_want (t_uni sample_engine_env) (t_codecs sample_engine_env)
      \<lparr>w_folder_id = ''default'', w_chunk_hashes = ?needed, w_priority = 1\<rparr> = Inr [3, 0, 0, 0, 3, 1, 2, 3]"
    by (rule sample_sends_want) simp_all
  have "fst ?run = Inr () \<and> hm_has (active_transfers (en_manager (snd ?run))) ''t''"
    using w by (simp add: engine_start_def transfer_chunks_resumable_def chunks_to_request_def transfer_chunks_def Let_def
        new_engine_def hm.get_put hm.wf_empty hm_has_def hm.get_empty sample_stream_chunk hm_modify_def
        sample_engine_env_def calculate_progress_def hm_get_modify receive_chunks_def hm_put_def default_manager_def
        new_manager_def start_transfer_def load_checkpoint_def fresh_checkpoint_def save_checkpoint_def activate_def
        update_progress_def hm_get_def sample_chunk_def)
  then obtain e' where e: "?run = (Inr (), e')" and a: "hm_has (active_transfers (en_manager e')) ''t''"
    by (cases ?run) auto
  have "\<not> hm_has (active_transfers (en_manager (new_engine ()))) ''t''"
    by (simp add: new_engine_def default_manager_def new_manager_def hm_has_def hm.get_empty)
  from repeated_chunk_never_completes [OF new_engine_ok _ this e, of 1 "[]"] a e show ?thesis by auto
qed

theorem cancelled_transfer_is_revived_witness:
  "\<exists>e' :: unit engine. engine_resume sample_engine_env 2 [] ''t''
      (engine_cancel 1 ''t'' (snd (engine_start sample_engine_env 0 [] ''t'' ''p'' ''f'' 300 [replicate 32 0] (new_engine ())))) =
        (Inl (ProtocolErr (''Transfer session not found: '' @ ''t'')), e') \<and> transfer_status_of ''t'' e' = Some Active"
proof -
  let ?e = "snd (engine_start sample_engine_env 0 [] ''t'' ''p'' ''f'' 300 [replicate 32 0] (new_engine ()))"
  have "engine_ok sample_engine_env (engine_step sample_engine_env
      (EngineStart 0 [] ''t'' ''p'' ''f'' 300 [replicate 32 0]) (new_engine ()))"
    by (rule engine.inv_step) (rule new_engine_ok)
  then have ok: "engine_ok sample_engine_env ?e" by simp
  have w: "send_want (t_uni sample_engine_env) (t_codecs sample_engine_env)
      \<lparr>w_folder_id = ''default'', w_chunk_hashes = [replicate 32 0], w_priority = 1\<rparr> = Inr [3, 0, 0, 0, 3, 1, 2, 3]"
    by (rule sample_sends_want) simp_all
  have "\<exists>t. hm_get (active_transfers (en_manager ?e)) ''t'' = Some t \<and> retry_count (checkpoint t) = 0 \<and>
      max_retry_count (en_manager ?e) = 3"
    using w by (simp add: engine_start_def transfer_chunks_resumable_def chunks_to_request_def transfer_chunks_def Let_def
        new_engine_def hm.get_put hm.wf_empty hm_has_def hm.get_empty
        calculate_progress_def hm_get_modify receive_chunks_def hm_put_def default_manager_def
        new_manager_def start_transfer_def load_checkpoint_def fresh_checkpoint_def save_checkpoint_def activate_def
        update_progress_def hm_get_def hm_modify_def)
  then obtain t where t: "hm_get (active_transfers (en_manager ?e)) ''t'' = Some t" "retry_count (checkpoint t) = 0"
      "max_retry_count (en_manager ?e) = 3" by blast
  obtain r e' where r: "engine_resume sample_engine_env 2 [] ''t'' (engine_cancel 1 ''t'' ?e) = (r, e')" by fastforce
  from cancelled_transfer_is_revived [OF ok t(1) _ r] t r show ?thesis by auto
qed

end
