(* ===== verification/Health.thy ===== *)
theory Health
  imports Pool
begin

text \<open>
  The health monitor of connections (\<open>landro-quic/src/health_monitor.rs\<close>): the metrics of each peer
  in the pool, their assessment, the recovery of unhealthy peers, and the monitoring task.

  The comparison of packet losses, a division of 64-bit floats, is the parameter \<open>hc_loss_exceeds\<close> of
  the packets lost and sent, and the average of the summary is left out.  Times are nanoseconds.
  A recovery task is recorded when it is started.
\<close>

datatype health_status = Healthy | Degraded | Failing | Unhealthy

record connection_metrics =
  cm_connection_id :: string
  cm_peer_addr :: string
  cm_health_status :: health_status
  cm_rtt_ms :: u64
  cm_packets_sent :: u64
  cm_packets_lost :: u64
  cm_bytes_sent :: u64
  cm_bytes_received :: u64
  cm_active_streams :: u32
  cm_last_activity :: nat
  cm_connection_age :: nat
  cm_reconnect_count :: u32
  cm_error_count :: u64

record health_config =
  hc_check_interval :: nat
  hc_unhealthy_threshold :: nat
  hc_max_rtt_ms :: u64
  hc_loss_exceeds :: "u64 \<Rightarrow> u64 \<Rightarrow> bool"
  hc_enable_auto_recovery :: bool
  hc_recovery_timeout :: nat

definition default_health_config :: "(u64 \<Rightarrow> u64 \<Rightarrow> bool) \<Rightarrow> health_config" where
  "default_health_config exceeds = \<lparr>hc_check_interval = 5 * 1000000000, hc_unhealthy_threshold = 30 * 1000000000,
     hc_max_rtt_ms = 500, hc_loss_exceeds = exceeds, hc_enable_auto_recovery = True,
     hc_recovery_timeout = 10 * 1000000000\<rparr>"

record health_monitor =
  mon_config :: health_config
  mon_metrics :: "(string, connection_metrics) hmap"
  mon_active :: bool
  mon_recoveries :: "string list"
  mon_loops :: nat

definition new_monitor :: "health_config \<Rightarrow> health_monitor" where
  "new_monitor cfg = \<lparr>mon_config = cfg, mon_metrics = [], mon_active = False, mon_recoveries = [], mon_loops = 0\<rparr>"

definition monitor_start :: "health_monitor \<Rightarrow> health_monitor" where
  "monitor_start h = (if mon_active h then h else h\<lparr>mon_active := True, mon_loops := mon_loops h + 1\<rparr>)"

definition monitor_stop :: "health_monitor \<Rightarrow> health_monitor" where
  "monitor_stop h = h\<lparr>mon_active := False, mon_recoveries := []\<rparr>"

definition get_connection_metrics :: "string \<Rightarrow> health_monitor \<Rightarrow> connection_metrics option" where
  "get_connection_metrics i h = hm_get (mon_metrics h) i"

text \<open>Connections in all, of each status, bytes and recoveries.\<close>

definition with_status :: "health_status \<Rightarrow> health_monitor \<Rightarrow> nat" where
  "with_status st h = length (filter (\<lambda>(_, m). cm_health_status m = st) (mon_metrics h))"

definition get_health_summary :: "health_monitor \<Rightarrow> nat \<times> nat \<times> nat \<times> nat \<times> nat \<times> u64 \<times> nat" where
  "get_health_summary h = (length (mon_metrics h), with_status Healthy h, with_status Degraded h, with_status Failing h,
     with_status Unhealthy h, sum_list (map (\<lambda>(_, m). cm_bytes_sent m + cm_bytes_received m) (mon_metrics h)),
     length (mon_recoveries h))"

text \<open>\<open>now\<close> is when the metrics are assessed.\<close>

definition assess_health_status :: "nat \<Rightarrow> connection_metrics \<Rightarrow> health_config \<Rightarrow> health_status" where
  "assess_health_status now m cfg =
     (if now - cm_last_activity m > hc_unhealthy_threshold cfg then Unhealthy
      else if cm_rtt_ms m > hc_max_rtt_ms cfg then Degraded
      else if cm_packets_sent m > 0 \<and> hc_loss_exceeds cfg (cm_packets_lost m) (cm_packets_sent m) then Failing
      else if cm_error_count m > 10 then Degraded
      else Healthy)"

definition trigger_recovery :: "string \<Rightarrow> string list \<Rightarrow> string list" where
  "trigger_recovery peer rs = (if peer \<in> set rs then rs else rs @ [peer])"

definition fresh_metrics :: "nat \<Rightarrow> string \<Rightarrow> nat \<Rightarrow> connection_metrics" where
  "fresh_metrics now peer n = \<lparr>cm_connection_id = peer, cm_peer_addr = peer, cm_health_status = Healthy, cm_rtt_ms = 0,
     cm_packets_sent = 0, cm_packets_lost = 0, cm_bytes_sent = 0, cm_bytes_received = 0,
     cm_active_streams = word_of_nat n, cm_last_activity = now, cm_connection_age = 0, cm_reconnect_count = 0,
     cm_error_count = 0\<rparr>"

text \<open>One peer of the pool with its number of connections, at the time \<open>now\<close> of the check; \<open>t\<close> is when
  it is assessed.  The identifier of a connection is the address of the peer, up to the brackets of IPv6.\<close>

definition check_peer :: "nat \<Rightarrow> nat \<Rightarrow> string \<times> nat \<Rightarrow> health_monitor \<Rightarrow>
    (string, connection_metrics) hmap \<times> string list \<Rightarrow> (string, connection_metrics) hmap \<times> string list" where
  "check_peer now t pn h acc =
     (let (peer, n) = pn;
          m = (case hm_get (mon_metrics h) peer of
                Some old \<Rightarrow> old\<lparr>cm_last_activity := now, cm_active_streams := word_of_nat n\<rparr>
              | None \<Rightarrow> fresh_metrics now peer n);
          m1 = m\<lparr>cm_health_status := assess_health_status t m (mon_config h)\<rparr> in
      (hm_put peer m1 (fst acc),
       if cm_health_status m1 = Unhealthy \<and> hc_enable_auto_recovery (mon_config h)
       then trigger_recovery peer (snd acc) else snd acc))"

text \<open>The peers are visited in an order \<open>it\<close>, each at a time of its own.\<close>

definition perform_health_check :: "((string \<times> nat) list \<Rightarrow> (string \<times> nat) list) \<Rightarrow> nat \<Rightarrow> (string \<Rightarrow> nat) \<Rightarrow>
    'c pool \<Rightarrow> health_monitor \<Rightarrow> health_monitor" where
  "perform_health_check it now at p h =
     (let (ms, rs) = fold (\<lambda>pn. check_peer now (at (fst pn)) pn h) (it (get_stats p)) ([], mon_recoveries h)
      in h\<lparr>mon_metrics := ms, mon_recoveries := rs\<rparr>)"

text \<open>A monitoring loop looks at the flag at each tick and ends if it is down.\<close>

definition monitor_tick :: "((string \<times> nat) list \<Rightarrow> (string \<times> nat) list) \<Rightarrow> nat \<Rightarrow> (string \<Rightarrow> nat) \<Rightarrow>
    'c pool \<Rightarrow> health_monitor \<Rightarrow> health_monitor" where
  "monitor_tick it now at p h =
     (if mon_loops h = 0 then h
      else if mon_active h then perform_health_check it now at p h
      else h\<lparr>mon_loops := mon_loops h - 1\<rparr>)"

section \<open>Runs\<close>

datatype 'c health_op =
    MonitorStart
  | MonitorStop
  | MonitorTick "(string \<times> nat) list \<Rightarrow> (string \<times> nat) list" nat "string \<Rightarrow> nat" "'c pool"

fun health_step :: "'c health_op \<Rightarrow> health_monitor \<Rightarrow> health_monitor" where
  "health_step MonitorStart h = monitor_start h"
| "health_step MonitorStop h = monitor_stop h"
| "health_step (MonitorTick it now at p) h = monitor_tick it now at p h"

text \<open>The check of a peer is not held up for longer than the threshold.\<close>

fun prompt :: "nat \<Rightarrow> 'c health_op \<Rightarrow> bool" where
  "prompt d (MonitorTick it now at p) = (\<forall>peer. at peer \<le> now + d)"
| "prompt d _ = True"

definition untouched :: "connection_metrics \<Rightarrow> bool" where
  "untouched m \<longleftrightarrow> cm_rtt_ms m = 0 \<and> cm_packets_sent m = 0 \<and> cm_packets_lost m = 0 \<and> cm_bytes_sent m = 0 \<and>
     cm_bytes_received m = 0 \<and> cm_reconnect_count m = 0 \<and> cm_error_count m = 0 \<and> cm_health_status m = Healthy"

definition idle_monitor :: "health_monitor \<Rightarrow> bool" where
  "idle_monitor h \<longleftrightarrow> hm_wf (mon_metrics h) \<and> (\<forall>i m. hm_get (mon_metrics h) i = Some m \<longrightarrow> untouched m) \<and>
     mon_recoveries h = []"

lemma check_peer_untouched:
  assumes "idle_monitor h" and "t \<le> now + hc_unhealthy_threshold (mon_config h)"
    and "hm_wf (fst acc)" and "\<forall>i m. hm_get (fst acc) i = Some m \<longrightarrow> untouched m"
  shows "hm_wf (fst (check_peer now t pn h acc)) \<and>
    (\<forall>i m. hm_get (fst (check_peer now t pn h acc)) i = Some m \<longrightarrow> untouched m) \<and>
    snd (check_peer now t pn h acc) = snd acc"
proof -
  obtain peer n where pn: "pn = (peer, n)" by (cases pn)
  let ?m = "case hm_get (mon_metrics h) peer of
      Some old \<Rightarrow> old\<lparr>cm_last_activity := now, cm_active_streams := word_of_nat n\<rparr> | None \<Rightarrow> fresh_metrics now peer n"
  have m: "untouched ?m" "cm_last_activity ?m = now"
    using assms(1) by (auto simp add: idle_monitor_def untouched_def fresh_metrics_def split: option.split)
  then have a: "assess_health_status t ?m (mon_config h) = Healthy"
    using assms(2) by (simp add: assess_health_status_def untouched_def)
  have c: "check_peer now t pn h acc = (hm_put peer (?m\<lparr>cm_health_status := Healthy\<rparr>) (fst acc), snd acc)"
    using a by (simp add: check_peer_def pn Let_def)
  have "untouched (?m\<lparr>cm_health_status := Healthy\<rparr>)" using m(1) by (simp add: untouched_def)
  with assms(3,4) show ?thesis by (simp add: c hm.wf_put hm.get_put)
qed

lemma checks_untouched:
  assumes "idle_monitor h" and "\<forall>peer. at peer \<le> now + hc_unhealthy_threshold (mon_config h)"
    and "hm_wf (fst acc)" and "\<forall>i m. hm_get (fst acc) i = Some m \<longrightarrow> untouched m"
  shows "hm_wf (fst (fold (\<lambda>pn. check_peer now (at (fst pn)) pn h) pns acc)) \<and>
    (\<forall>i m. hm_get (fst (fold (\<lambda>pn. check_peer now (at (fst pn)) pn h) pns acc)) i = Some m \<longrightarrow> untouched m) \<and>
    snd (fold (\<lambda>pn. check_peer now (at (fst pn)) pn h) pns acc) = snd acc"
  using assms(3,4)
proof (induction pns arbitrary: acc)
  case (Cons pn pns)
  have "at (fst pn) \<le> now + hc_unhealthy_threshold (mon_config h)" using assms(2) by blast
  note c = check_peer_untouched [OF assms(1) this Cons.prems, of pn]
  with Cons.IH [of "check_peer now (at (fst pn)) pn h acc"] show ?case by simp
qed simp

lemma idle_step:
  assumes "idle_monitor h" and "prompt (hc_unhealthy_threshold (mon_config h)) op"
  shows "idle_monitor (health_step op h) \<and> mon_config (health_step op h) = mon_config h"
proof (cases op)
  case (MonitorTick it now at p)
  have "\<forall>peer. at peer \<le> now + hc_unhealthy_threshold (mon_config h)" using assms(2) MonitorTick by simp
  from checks_untouched [OF assms(1) this, of "([], [])" "it (get_stats p)"] assms(1)
  have "idle_monitor (perform_health_check it now at p h) \<and> mon_config (perform_health_check it now at p h) = mon_config h"
    by (auto simp add: perform_health_check_def idle_monitor_def hm.wf_empty hm.get_empty split: prod.split)
  with assms(1) MonitorTick show ?thesis by (simp add: monitor_tick_def idle_monitor_def)
qed (use assms(1) in \<open>simp_all add: monitor_start_def monitor_stop_def idle_monitor_def\<close>)

text \<open>Every peer in the pool is always healthy and no recovery is ever started, whatever happens to
  the connections: nothing measures them, and each check itself counts as activity.\<close>

theorem monitor_finds_everything_healthy:
  assumes "h = fold health_step ops (new_monitor cfg)" and "\<forall>op\<in>set ops. prompt (hc_unhealthy_threshold cfg) op"
  shows "(hm_get (mon_metrics h) i = Some m \<longrightarrow> cm_health_status m = Healthy) \<and> mon_recoveries h = [] \<and>
    with_status Healthy h = length (mon_metrics h)"
proof -
  have "idle_monitor (fold health_step ops h0) \<and> mon_config (fold health_step ops h0) = cfg"
    if "idle_monitor h0" "mon_config h0 = cfg" "\<forall>op\<in>set ops. prompt (hc_unhealthy_threshold cfg) op" for h0
    using that by (induction ops arbitrary: h0) (simp_all add: idle_step)
  from this [of "new_monitor cfg"] assms have h: "idle_monitor h"
    by (simp add: idle_monitor_def new_monitor_def hm.wf_empty hm.get_empty)
  then have "filter (\<lambda>(_, m). cm_health_status m = Healthy) (mon_metrics h) = mon_metrics h"
    by (intro filter_True) (auto simp add: idle_monitor_def untouched_def hm_mem_iff)
  with h show ?thesis by (auto simp add: idle_monitor_def untouched_def with_status_def)
qed

text \<open>A monitor that is stopped and started again before the next tick runs its checks twice: the
  old loop finds the flag up again, and each further restart adds a loop that only ends if a tick
  finds the flag down.\<close>

theorem restarts_multiply_the_loops:
  "mon_loops (fold health_step (concat (replicate n [MonitorStart, MonitorStop]) @ [MonitorStart]) (new_monitor cfg)) = Suc n \<and>
    (mon_active h \<longrightarrow> mon_loops (monitor_tick it now at p h) = mon_loops h)"
proof -
  have "mon_loops (fold health_step (concat (replicate n [MonitorStart, MonitorStop])) h0) = mon_loops h0 + n \<and>
      \<not> mon_active (fold health_step (concat (replicate n [MonitorStart, MonitorStop])) h0)" if "\<not> mon_active h0" for h0
    using that by (induction n arbitrary: h0) (simp_all add: monitor_start_def monitor_stop_def)
  from this [of "new_monitor cfg"] show ?thesis
    by (auto simp add: new_monitor_def monitor_start_def monitor_tick_def perform_health_check_def split: prod.split)
qed


theorem monitor_finds_everything_healthy_witness:
  "\<exists>m. hm_get (mon_metrics (fold health_step
      [MonitorStart, MonitorTick rev 0 (\<lambda>_. 7) [(''10.0.0.1:9876'', [new_pooled 0 ()])]]
      (new_monitor (default_health_config (\<lambda>l n. l > n div 20))))) ''10.0.0.1:9876'' = Some m \<and> cm_health_status m = Healthy"
proof -
  let ?ops = "[MonitorStart, MonitorTick rev 0 (\<lambda>_. 7) [(''10.0.0.1:9876'', [new_pooled 0 ()])]]"
  let ?cfg = "default_health_config (\<lambda>l n. l > n div 20)"
  have p: "\<forall>op\<in>set ?ops. prompt (hc_unhealthy_threshold ?cfg) op" by (simp add: default_health_config_def)
  obtain m where m: "hm_get (mon_metrics (fold health_step ?ops (new_monitor ?cfg))) ''10.0.0.1:9876'' = Some m"
    by (simp add: monitor_start_def monitor_tick_def new_monitor_def perform_health_check_def get_stats_def check_peer_def Let_def
        hm.get_put hm.wf_empty)
  from monitor_finds_everything_healthy [OF refl p, of "''10.0.0.1:9876''" m] m show ?thesis by blast
qed

end
