(* ===== verification/Folder_Service.thy ===== *)
theory Folder_Service
  imports Indexer Watcher Machines
begin

text \<open>
  The first daemon (\<open>landro-daemon/src/daemon.rs\<close>): its start and stop, the folders that are added and
  removed, and what it does with the changes that a watcher reports.

  The server, the discovery service and the orchestrator of synchronisations are there or not;
  whether a stage of the start fails, what discovery finds and what the operating system shows are
  parameters of each call.  The index on disk is kept apart from the flag that says whether it is
  open.  A panic, and a walk that does not return, is \<open>None\<close>.
\<close>

section \<open>The daemon\<close>

datatype start_stage = CreateStorage | OpenIndexer | OpenOrchestrator | StartServer | StartDiscovery

datatype service_error =
    AlreadyRunning
  | NotRunning
  | StageFailed start_stage string
  | PathMissing
  | PathNotDirectory
  | WatchFailed string
  | IndexingFailed index_error
  | DiscoveryStopFailed

record 'c service_env =
  v_index :: "'c indexer_env"
  v_now :: date_time
  v_exists :: "fs_path \<Rightarrow> bool"
  v_unicode :: "string \<Rightarrow> string"
  v_created :: bool
  v_watchable :: "fs_path \<Rightarrow> bool"
  v_fails :: "start_stage \<Rightarrow> string option"
  v_open :: "'c indexer \<Rightarrow> 'c indexer"
  v_peers :: "string + peer_info list"
  v_discovery_stops :: bool

record 'c service =
  sv_auto_sync :: bool
  sv_running :: bool
  sv_server :: bool
  sv_discovery :: bool
  sv_orchestrator :: bool
  sv_indexer :: bool
  sv_watchers :: "file_watcher list"
  sv_tasks :: nat
  sv_index :: "'c indexer"

definition new_service :: "bool \<Rightarrow> 'c indexer \<Rightarrow> 'c service" where
  "new_service auto ix = \<lparr>sv_auto_sync = auto, sv_running = False, sv_server = False, sv_discovery = False,
     sv_orchestrator = False, sv_indexer = False, sv_watchers = [], sv_tasks = 0, sv_index = ix\<rparr>"

definition service_start :: "'c service_env \<Rightarrow> 'c service \<Rightarrow> (service_error + unit) \<times> 'c service" where
  "service_start env st =
     (if sv_running st then (Inl AlreadyRunning, st)
      else case v_fails env CreateStorage of
        Some e \<Rightarrow> (Inl (StageFailed CreateStorage e), st)
      | None \<Rightarrow> (case v_fails env OpenIndexer of
          Some e \<Rightarrow> (Inl (StageFailed OpenIndexer e), st)
        | None \<Rightarrow>
            let st1 = st\<lparr>sv_index := v_open env (sv_index st)\<rparr> in
            (case v_fails env OpenOrchestrator of
              Some e \<Rightarrow> (Inl (StageFailed OpenOrchestrator e), st1)
            | None \<Rightarrow> (case v_fails env StartServer of
                Some e \<Rightarrow> (Inl (StageFailed StartServer e), st1)
              | None \<Rightarrow>
                  let st2 = st1\<lparr>sv_tasks := sv_tasks st1 + 1\<rparr> in
                  (case v_fails env StartDiscovery of
                    Some e \<Rightarrow> (Inl (StageFailed StartDiscovery e), st2)
                  | None \<Rightarrow> (Inr (), st2\<lparr>sv_server := True, sv_discovery := True, sv_orchestrator := True,
                      sv_indexer := True, sv_running := True\<rparr>))))))"

definition add_sync_folder :: "'c service_env \<Rightarrow> fs_path \<Rightarrow> 'c service \<Rightarrow> ((service_error + unit) \<times> 'c service) option" where
  "add_sync_folder env p st =
     (if \<not> v_exists env p then Some (Inl PathMissing, st)
      else if \<not> os_is_dir (n_os (v_index env)) p then Some (Inl PathNotDirectory, st)
      else if \<not> sv_indexer st \<or> \<not> sv_orchestrator st \<or> \<not> sv_discovery st then None
      else case start_watcher (v_unicode env) (v_created env) (v_watchable env) (new_watcher p) of
        (Inl e, _) \<Rightarrow> Some (Inl (WatchFailed e), st)
      | (Inr _, w) \<Rightarrow>
          let st1 = st\<lparr>sv_watchers := sv_watchers st @ [w]\<rparr> in
          map_option (\<lambda>(r, ix). (case r of Inl e \<Rightarrow> Inl (IndexingFailed e) | Inr _ \<Rightarrow> Inr (), st1\<lparr>sv_index := ix\<rparr>))
            (index_folder (v_index env) (v_now env) p (sv_index st1)))"

definition remove_sync_folder :: "fs_path \<Rightarrow> 'c service \<Rightarrow> 'c service" where
  "remove_sync_folder p st = st\<lparr>sv_watchers := filter (\<lambda>w. fw_path w \<noteq> p) (sv_watchers st)\<rparr>"

definition list_sync_folders :: "'c service \<Rightarrow> fs_path list" where
  "list_sync_folders st = map fw_path (sv_watchers st)"

definition service_stop :: "'c service_env \<Rightarrow> 'c service \<Rightarrow> (service_error + unit) \<times> 'c service" where
  "service_stop env st =
     (if \<not> sv_running st then (Inl NotRunning, st)
      else if sv_discovery st \<and> \<not> v_discovery_stops env then (Inl DiscoveryStopFailed, st)
      else (Inr (), st\<lparr>sv_watchers := [], sv_tasks := 0, sv_server := False, sv_discovery := False,
        sv_orchestrator := False, sv_indexer := False, sv_running := False\<rparr>))"

record service_status =
  ss_running :: bool
  ss_peer_count :: nat
  ss_sync_folders :: nat

text \<open>\<open>peers\<close> is the number of peers the orchestrator has a state of.\<close>

definition get_status :: "nat \<Rightarrow> 'c service \<Rightarrow> service_status" where
  "get_status peers st = \<lparr>ss_running = sv_running st, ss_peer_count = (if sv_orchestrator st then peers else 0),
     ss_sync_folders = length (sv_watchers st)\<rparr>"

section \<open>Changes\<close>

text \<open>The peers a synchronisation is started with, and the index.\<close>

definition index_change :: "'c service_env \<Rightarrow> file_event \<Rightarrow> 'c indexer \<Rightarrow> (bool \<times> 'c indexer) option" where
  "index_change env e ix =
     (case ev_kind e of
        Created \<Rightarrow> map_option (\<lambda>(r, ix1). (is_ok r, ix1)) (index_folder (v_index env) (v_now env) (ev_path e) ix)
      | Modified \<Rightarrow> map_option (\<lambda>(r, ix1). (is_ok r, ix1)) (index_folder (v_index env) (v_now env) (ev_path e) ix)
      | Deleted \<Rightarrow> Some (True, ix)
      | Renamed from to \<Rightarrow> map_option (\<lambda>(r, ix1). (is_ok r, ix1)) (index_folder (v_index env) (v_now env) to ix))"

definition peers_to_sync :: "'c service_env \<Rightarrow> bool \<Rightarrow> peer_info list" where
  "peers_to_sync env auto = (if auto then case v_peers env of Inr ps \<Rightarrow> ps | Inl _ \<Rightarrow> [] else [])"

fun handle_events :: "bool \<Rightarrow> ('c service_env \<times> file_event) list \<Rightarrow> 'c indexer \<Rightarrow> (peer_info list \<times> 'c indexer) option" where
  "handle_events auto [] ix = Some ([], ix)"
| "handle_events auto ((env, e) # es) ix =
     Option.bind (index_change env e ix) (\<lambda>(indexed, ix1).
       map_option (\<lambda>(ps, ix2). ((if indexed then peers_to_sync env auto else []) @ ps, ix2))
         (handle_events auto es ix1))"

section \<open>Reachable daemons\<close>

datatype 'c service_op =
    StartService "'c service_env"
  | AddFolder "'c service_env" fs_path
  | RemoveFolder fs_path
  | StopService "'c service_env"
  | HandleEvents "('c service_env \<times> file_event) list"

text \<open>A call that panics or does not return changes nothing.\<close>

fun service_step :: "'c service_op \<Rightarrow> 'c service \<Rightarrow> 'c service" where
  "service_step (StartService env) st = snd (service_start env st)"
| "service_step (AddFolder env p) st = (case add_sync_folder env p st of Some (_, st1) \<Rightarrow> st1 | None \<Rightarrow> st)"
| "service_step (RemoveFolder p) st = remove_sync_folder p st"
| "service_step (StopService env) st = snd (service_stop env st)"
| "service_step (HandleEvents es) st =
     (case handle_events (sv_auto_sync st) es (sv_index st) of Some (_, ix) \<Rightarrow> st\<lparr>sv_index := ix\<rparr> | None \<Rightarrow> st)"

definition service_ok :: "'c service \<Rightarrow> bool" where
  "service_ok st \<longleftrightarrow> (sv_server st = sv_running st) \<and> (sv_discovery st = sv_running st) \<and>
     (sv_orchestrator st = sv_running st) \<and> (sv_indexer st = sv_running st) \<and>
     (\<not> sv_running st \<longrightarrow> sv_watchers st = [])"

lemma service_ok_start: "service_ok st \<Longrightarrow> service_ok (snd (service_start env st))"
  by (auto simp add: service_start_def service_ok_def Let_def split: option.split)

lemma add_sync_folder_cases:
  assumes "add_sync_folder env p st = Some (r, st1)"
  shows "st1 = st \<and> r \<noteq> Inr () \<or>
    sv_indexer st \<and> (\<exists>q w ix. index_folder (v_index env) (v_now env) p (sv_index st) = Some (q, ix) \<and> fw_path w = p \<and>
      r = (case q of Inl e \<Rightarrow> Inl (IndexingFailed e) | Inr _ \<Rightarrow> Inr ()) \<and>
      st1 = st\<lparr>sv_watchers := sv_watchers st @ [w], sv_index := ix\<rparr>)"
proof (cases "start_watcher (v_unicode env) (v_created env) (v_watchable env) (new_watcher p)")
  case (Pair s w)
  show ?thesis
  proof (cases "s = Inr () \<and> v_exists env p \<and> os_is_dir (n_os (v_index env)) p")
    case False
    with assms Pair show ?thesis by (cases s) (auto simp add: add_sync_folder_def split: if_splits)
  next
    case True
    then have "fw_path w = p" using Pair by (auto simp add: start_watcher_def new_watcher_def split: if_splits)
    with True assms Pair show ?thesis
      by (intro disjI2) (auto simp add: add_sync_folder_def Let_def split: if_splits intro!: exI [of _ w])
  qed
qed

interpretation folder_service: machine service_step service_ok
proof
  fix st :: "'c service" and op
  assume ok: "service_ok st"
  show "service_ok (service_step op st)"
  proof (cases op)
    case (StartService env)
    with ok show ?thesis by (simp add: service_ok_start)
  next
    case (AddFolder env p)
    with ok show ?thesis
      by (auto simp add: service_ok_def dest!: add_sync_folder_cases split: option.split)
  qed (use ok in \<open>auto simp add: service_ok_def remove_sync_folder_def service_stop_def
      split: option.split\<close>)
qed

lemma new_service_ok: "service_ok (new_service auto ix)"
  by (simp add: service_ok_def new_service_def)


section \<open>Lifecycle\<close>

text \<open>In every reachable daemon, adding a folder that exists panics exactly when the daemon is not
  running, if the walk over the folder returns; and a daemon that is not running watches nothing.\<close>

theorem add_panics_iff_not_running:
  assumes "st = fold service_step ops (new_service auto ix)" and "v_exists env p" and "os_is_dir (n_os (v_index env)) p"
    and "valid_chunker (in_chunker (sv_index st))"
    and "walk_directory (n_os (v_index env)) (in_config (sv_index st)) p \<noteq> None"
  shows "(add_sync_folder env p st = None \<longleftrightarrow> \<not> sv_running st) \<and> (\<not> sv_running st \<longrightarrow> list_sync_folders st = [])"
proof -
  have "service_ok st" unfolding assms(1) by (rule folder_service.inv_fold) (rule new_service_ok)
  with assms(2,3) index_folder_total [OF assms(4,5), of "v_now env"] show ?thesis
    by (auto simp add: add_sync_folder_def service_ok_def list_sync_folders_def start_watcher_def)
qed

text \<open>Each start that fails at the discovery service leaves a server behind: the daemon counts as
  not running, so the server cannot be stopped, and the next start tries to start another one.\<close>

theorem failed_starts_leave_servers:
  assumes "\<not> sv_running st" and "v_fails env StartDiscovery = Some e"
    and "\<forall>s. s \<noteq> StartDiscovery \<longrightarrow> v_fails env s = None"
  shows "let st' = fold service_step (replicate n (StartService env)) st in
    sv_tasks st' = sv_tasks st + n \<and> \<not> sv_running st' \<and> service_stop env' st' = (Inl NotRunning, st') \<and>
    fst (service_start env st') = Inl (StageFailed StartDiscovery e)"
  using assms(1)
proof (induction n arbitrary: st)
  case 0
  then show ?case using assms(2,3) by (simp add: service_stop_def service_start_def Let_def)
next
  case (Suc n)
  have "snd (service_start env st) = st\<lparr>sv_index := v_open env (sv_index st), sv_tasks := sv_tasks st + 1\<rparr>"
    using Suc.prems assms(2,3) by (simp add: service_start_def Let_def)
  with Suc.IH [of "snd (service_start env st)"] Suc.prems show ?case by (simp add: Let_def)
qed

section \<open>Folders that were there before\<close>

text \<open>A folder that was added once cannot be added again after a restart, or at all: its index fails,
  and the call reports an error; but its watcher is started and the folder is listed.\<close>

theorem known_folder_fails_but_is_listed:
  assumes "saved_under_root (sv_index st)" and "add_sync_folder env p st = Some (Inr (), st1)"
    and "service_stop env1 st1 = (Inr (), st2)" and "service_start env2 st2 = (Inr (), st3)"
    and "saved_under_root (v_open env2 (sv_index st1))"
    and "ix_manifests (in_db (v_open env2 (sv_index st1))) = ix_manifests (in_db (sv_index st1))"
    and "add_sync_folder env3 p st3 = Some (r, st4)"
    and "v_exists env3 p" and "os_is_dir (n_os (v_index env3)) p"
    and "fst (start_watcher (v_unicode env3) (v_created env3) (v_watchable env3) (new_watcher p)) = Inr ()"
    and "os_canonicalize (n_os (v_index env)) p = Some c" and "os_canonicalize (n_os (v_index env3)) p = Some c"
    and "path_string c \<noteq> ''/''" and "n_cas (v_index env3) = n_cas (v_index env)"
  shows "(\<exists>e. r = Inl (IndexingFailed e)) \<and> list_sync_folders st4 = [p]"
proof -
  from add_sync_folder_cases [OF assms(2)] obtain q w ix where
    a: "index_folder (v_index env) (v_now env) p (sv_index st) = Some (q, ix)" "Inr () = (case q of Inl e \<Rightarrow> Inl (IndexingFailed e) | Inr _ \<Rightarrow> Inr ())"
      "sv_index st1 = ix" by auto
  then obtain m where m: "index_folder (v_index env) (v_now env) p (sv_index st) = Some (Inr m, ix)"
    by (auto split: sum.splits)
  from index_folder_once(2) [OF assms(1) m assms(11,13)]
  have once: "indexed_once (v_index env3) c (in_db (v_open env2 (sv_index st1)))"
    using assms(6,14) a(3) by (simp add: indexed_once_def)
  have st3: "sv_index st3 = v_open env2 (sv_index st1)" "sv_watchers st3 = []"
      "sv_indexer st3" "sv_orchestrator st3" "sv_discovery st3"
    using assms(3,4) by (auto simp add: service_stop_def service_start_def Let_def split: if_splits option.splits)
  obtain w where sw: "start_watcher (v_unicode env3) (v_created env3) (v_watchable env3) (new_watcher p) = (Inr (), w)"
      "fw_path w = p" using assms(10) by (auto simp add: start_watcher_def new_watcher_def split: if_splits)
  from assms(7) obtain q' ix' where b: "index_folder (v_index env3) (v_now env3) p (sv_index st3) = Some (q', ix')"
      "r = (case q' of Inl e \<Rightarrow> Inl (IndexingFailed e) | Inr _ \<Rightarrow> Inr ())" "sv_watchers st4 = sv_watchers st3 @ [w]"
    using st3(3-5) assms(8,9) sw by (auto simp add: add_sync_folder_def Let_def)
  have "\<exists>e. q' = Inl e"
  proof (cases q')
    case (Inr m')
    with b(1) st3(1) have i: "index_folder (v_index env3) (v_now env3) p (v_open env2 (sv_index st1)) = Some (Inr m', ix')"
      by simp
    from index_folder_once(3) [OF assms(5) i assms(12,13)] once show ?thesis by simp
  qed simp
  with b(2,3) st3(2) sw(2) show ?thesis by (auto simp add: list_sync_folders_def)
qed

section \<open>Changes\<close>

text \<open>A file that is created, changed or renamed in a folder is neither indexed nor synchronised: the
  daemon indexes its path as if it were a folder, which fails.  Only deletions start
  synchronisations, and those change no index.\<close>

theorem only_deletions_are_synchronised:
  assumes "list_all (\<lambda>(env, e). case ev_kind e of
      Deleted \<Rightarrow> True
    | Renamed from to \<Rightarrow> os_read_dir (n_os (v_index env)) to = None
    | _ \<Rightarrow> os_read_dir (n_os (v_index env)) (ev_path e) = None) es"
  shows "handle_events auto es ix =
    Some (concat (map (\<lambda>(env, e). if ev_kind e = Deleted then peers_to_sync env auto else []) es), ix)"
  using assms
proof (induction es)
  case (Cons x es)
  obtain env e where x: "x = (env, e)" by (cases x)
  have plain: "\<exists>err. index_folder (v_index env) now p ix = Some (Inl err, ix)"
    if "os_read_dir (n_os (v_index env)) p = None" for now p
    using that by (auto simp add: index_folder_def walk_directory_def walk.simps Let_def split: option.split)
  have "index_change env e ix = Some (ev_kind e = Deleted, ix)"
  proof (cases "ev_kind e")
    case Created
    with Cons.prems x plain [of "ev_path e" "v_now env"] show ?thesis by (auto simp add: index_change_def is_ok_def)
  next
    case Modified
    with Cons.prems x plain [of "ev_path e" "v_now env"] show ?thesis by (auto simp add: index_change_def is_ok_def)
  next
    case Deleted
    then show ?thesis by (simp add: index_change_def)
  next
    case (Renamed a b)
    with Cons.prems x plain [of b "v_now env"] show ?thesis by (auto simp add: index_change_def is_ok_def)
  qed
  with Cons x show ?case by simp
qed simp

section \<open>A concrete daemon\<close>

definition sample_service_env :: "(content_hash \<times> cached_chunk) list service_env" where
  "sample_service_env = \<lparr>v_index = sample_indexer_env, v_now = 5, v_exists = (\<lambda>_. True), v_unicode = (\<lambda>s. s),
     v_created = True, v_watchable = (\<lambda>_. True), v_fails = (\<lambda>_. None), v_open = (\<lambda>ix. ix),
     v_peers = Inr [\<lparr>pi_device_id = ''p'', pi_device_name = ''peer'', pi_capabilities = [], pi_version = ''1''\<rparr>], v_discovery_stops = True\<rparr>"

lemma sample_chunker:
  obtains ch where "new_chunker default_config = Inr ch" "valid_chunker ch" "saved_under_root (sample_indexer ch)"
proof -
  have "is_ok (new_chunker default_config)"
    by (simp add: new_chunker_def validate_config_def default_config_def is_ok_def)
  then obtain ch where ch: "new_chunker default_config = Inr ch" by (auto simp add: is_ok_iff)
  then have "valid_chunker ch" using new_chunker_valid by blast
  with ch that show thesis by (simp add: saved_under_root_def sample_indexer_def new_index_db_def)
qed

lemma sample_service_fields:
  "v_index sample_service_env = sample_indexer_env" "v_now sample_service_env = 5"
  "v_exists sample_service_env p" "os_is_dir (n_os sample_indexer_env) [''d'']"
  "os_canonicalize (n_os sample_indexer_env) p = Some p" "v_open sample_service_env ix = ix"
  "v_fails sample_service_env s = None" "v_discovery_stops sample_service_env"
  by (simp_all add: sample_service_env_def sample_indexer_env_def sample_os_def)

lemma sample_watcher_starts: "fst (start_watcher (v_unicode sample_service_env) (v_created sample_service_env)
    (v_watchable sample_service_env) (new_watcher [''d''])) = Inr ()"
  by (simp add: sample_service_env_def start_watcher_def new_watcher_def is_sensitive_path_def sensitive_patterns_def
      to_lowercase_def ascii_lower_def path_string_def file_name_def starts_with_def)

theorem add_panics_iff_not_running_witness:
  "\<exists>ch. add_sync_folder sample_service_env [''d''] (new_service True (sample_indexer ch)) = None"
proof -
  obtain ch where ch: "valid_chunker ch" by (rule sample_chunker)
  let ?st = "new_service True (sample_indexer ch)"
  have "valid_chunker (in_chunker (sv_index ?st))" using ch by (simp add: new_service_def sample_indexer_def)
  moreover have "walk_directory (n_os (v_index sample_service_env)) (in_config (sv_index ?st)) [''d''] \<noteq> None"
    using walk_lists_tree_sample by (simp add: new_service_def sample_indexer_def sample_service_env_def sample_indexer_env_def)
  moreover have "?st = fold service_step [] ?st" by simp
  ultimately have "add_sync_folder sample_service_env [''d''] ?st = None \<longleftrightarrow> \<not> sv_running ?st"
    using add_panics_iff_not_running [of ?st "[]" True "sample_indexer ch" sample_service_env "[''d'']"]
    by (simp add: sample_service_fields)
  then show ?thesis by (auto simp add: new_service_def)
qed

theorem failed_starts_leave_servers_witness:
  "\<exists>ix. let env = sample_service_env\<lparr>v_fails := (\<lambda>s. if s = StartDiscovery then Some ''no network'' else None)\<rparr>;
      st = fold service_step (replicate 3 (StartService env)) (new_service True ix) in
    sv_tasks st = 3 \<and> \<not> sv_running st \<and> service_stop sample_service_env st = (Inl NotRunning, st)"
proof -
  let ?env = "sample_service_env\<lparr>v_fails := (\<lambda>s. if s = StartDiscovery then Some ''no network'' else None)\<rparr>"
  have "\<not> sv_running (new_service True (sample_indexer undefined))" by (simp add: new_service_def)
  from failed_starts_leave_servers [OF this, of ?env "''no network''" 3 sample_service_env]
  show ?thesis by (auto simp add: Let_def new_service_def)
qed

theorem known_folder_fails_but_is_listed_witness:
  "\<exists>ch st1 st2 st3 e st4.
    add_sync_folder sample_service_env [''d''] (snd (service_start sample_service_env (new_service True (sample_indexer ch)))) =
      Some (Inr (), st1) \<and>
    service_stop sample_service_env st1 = (Inr (), st2) \<and> service_start sample_service_env st2 = (Inr (), st3) \<and>
    add_sync_folder sample_service_env [''d''] st3 = Some (Inl (IndexingFailed e), st4) \<and> list_sync_folders st4 = [[''d'']]"
proof -
  let ?e = sample_service_env
  obtain ch where ch: "new_chunker default_config = Inr ch" "valid_chunker ch" "saved_under_root (sample_indexer ch)"
    by (rule sample_chunker)
  let ?st = "snd (service_start ?e (new_service True (sample_indexer ch)))"
  have st: "sv_indexer ?st" "sv_orchestrator ?st" "sv_discovery ?st" "sv_running ?st" "sv_index ?st = sample_indexer ch"
    by (simp_all add: service_start_def new_service_def sample_service_fields Let_def)
  obtain m ix where i: "index_folder sample_indexer_env 5 [''d''] (sample_indexer ch) = Some (Inr m, ix)"
    using sample_indexed [OF ch(1)] by blast
  obtain w where w: "start_watcher (v_unicode ?e) (v_created ?e) (v_watchable ?e) (new_watcher [''d'']) = (Inr (), w)"
    using sample_watcher_starts by (metis (full_types) prod.collapse)
  obtain st1 where a: "add_sync_folder ?e [''d''] ?st = Some (Inr (), st1)" and st1: "sv_index st1 = ix" "sv_running st1"
    using i w st by (simp add: add_sync_folder_def sample_service_fields Let_def)
  obtain st2 where s: "service_stop ?e st1 = (Inr (), st2)" "\<not> sv_running st2" "sv_index st2 = ix"
    using st1 by (simp add: service_stop_def sample_service_fields)
  obtain st3 where t: "service_start ?e st2 = (Inr (), st3)" "sv_index st3 = ix" "sv_indexer st3" "sv_orchestrator st3"
      "sv_discovery st3"
    using s by (simp add: service_start_def sample_service_fields Let_def)
  from index_folder_rows [OF ch(3) i] have ok: "saved_under_root ix" by blast
  then have "walk_directory (n_os sample_indexer_env) (in_config ix) [''d''] \<noteq> None"
    using walk_lists_tree_sample index_folder_config [OF i] ch(2) by (simp add: sample_indexer_def sample_indexer_env_def)
  then have "index_folder sample_indexer_env 5 [''d''] ix \<noteq> None"
    using index_folder_total [of ix sample_indexer_env] ok by (simp add: saved_under_root_def)
  then obtain r st4 where b: "add_sync_folder ?e [''d''] st3 = Some (r, st4)"
    using w t by (auto simp add: add_sync_folder_def sample_service_fields Let_def)
  have "path_string [''d''] \<noteq> ''/''" by (simp add: path_string_def)
  from known_folder_fails_but_is_listed [OF _ a s(1) t(1) _ _ b _ _ sample_watcher_starts _ _ this]
  have "(\<exists>e. r = Inl (IndexingFailed e)) \<and> list_sync_folders st4 = [[''d'']]"
    using ch(3) ok st1(1) by (simp add: st(5) sample_service_fields)
  with a s(1) t(1) b show ?thesis by blast
qed

theorem only_deletions_are_synchronised_witness:
  "\<exists>env :: (content_hash \<times> cached_chunk) list service_env.
    handle_events True [(env, \<lparr>ev_path = [''d'', ''a''], ev_kind = Modified\<rparr>), (env, \<lparr>ev_path = [''d'', ''b''], ev_kind = Deleted\<rparr>)] ix =
      Some ([\<lparr>pi_device_id = ''p'', pi_device_name = ''peer'', pi_capabilities = [], pi_version = ''1''\<rparr>], ix)"
proof -
  let ?env = "sample_service_env\<lparr>v_index := sample_indexer_env\<lparr>n_os := sample_os\<lparr>os_read_dir := (\<lambda>_. None)\<rparr>\<rparr>\<rparr>"
  have "handle_events True [(?env, \<lparr>ev_path = [''d'', ''a''], ev_kind = Modified\<rparr>), (?env, \<lparr>ev_path = [''d'', ''b''], ev_kind = Deleted\<rparr>)] ix =
      Some ([\<lparr>pi_device_id = ''p'', pi_device_name = ''peer'', pi_capabilities = [], pi_version = ''1''\<rparr>], ix)"
    by (subst only_deletions_are_synchronised) (simp_all add: peers_to_sync_def sample_service_env_def)
  then show ?thesis by blast
qed

end
