(* ===== verification/Sync_Link.thy ===== *)
theory Sync_Link
  imports Session Framing Persistence Flow Machines
begin

text \<open>
  The sync transport of \<open>landro-sync/src/quic_integration.rs\<close>: the flow of a session
  (\<open>Session\<close>) over one-way QUIC streams, one message a stream, with the persistence manager
  (\<open>Persistence\<close>) beside it.

  An endpoint is a transport with the one session it started; its \<^theory_text>\<open>point\<close> is the next
  \<open>await\<close> of \<open>start_sync\<close>, its queue the finished streams of the peer it has not accepted yet,
  in the order the peer opened them.  A turn runs the endpoint to its next point; a turn at a
  receive with no stream waits.  A connection that fails makes the pending call return its
  network error (event \<open>Cut\<close>); the task spawned for the results of the chunk streams runs
  at any time (event \<open>Result\<close>).  A link is two endpoints whose sent streams arrive in the other's
  queue.  Each message is built once, so the clock is read per side and message.

  Errors keep their values instead of the printed text, and encoding into a vector cannot fail.
  The notifications the monitor starts (\<open>npx\<close>) and the progress it prints are left out, so is the
  conflict detector, which the transport never uses.
\<close>

section \<open>Messages on one-way streams\<close>

datatype link_error =
    LSync sync_error
  | LNetwork string
  | LPersistence persistence_error
  | WrongType u8 u8
  | Undecodable string
  | NoDeviceId
  | NoPersisted string
  | NotResumable string sync_session_status

record link_codecs =
  lc_hello :: "hello codec"
  lc_summary :: "folder_summary codec"
  lc_manifest :: "proto_manifest codec"
  lc_want :: "want codec"

definition link_frame :: "'m codec \<Rightarrow> message_type \<Rightarrow> 'm \<Rightarrow> bytes" where
  "link_frame c t m =
     (let buf = encode c m in [type_code t] @ u32_be (word_of_nat (length buf)) @ buf)"

text \<open>No limit on the length: a peer's five bytes can ask for four gigabytes.\<close>

definition link_receive :: "string \<Rightarrow> 'm codec \<Rightarrow> message_type \<Rightarrow> bytes \<Rightarrow> link_error + 'm" where
  "link_receive short c expected stream =
     (case read_exact 1 stream of
        None \<Rightarrow> Inl (LNetwork (''Failed to read message type: '' @ short))
      | Some (tb, rest) \<Rightarrow>
          if hd tb \<noteq> type_code expected then Inl (WrongType (type_code expected) (hd tb))
          else case read_exact 4 rest of
            None \<Rightarrow> Inl (LNetwork (''Failed to read message length: '' @ short))
          | Some (len_bytes, rest1) \<Rightarrow>
              (case read_exact (unat (u32_of_be len_bytes)) rest1 of
                 None \<Rightarrow> Inl (LNetwork (''Failed to read message data: '' @ short))
               | Some (buf, _) \<Rightarrow> map_err Undecodable (decode c buf)))"

section \<open>Endpoints\<close>

datatype side = Initiator | Responder

datatype link_point =
    SendHello
  | AwaitHello
  | SendSummary
  | AwaitPeerHello
  | ReplyHello hello
  | AwaitSummary
  | ReplySummary folder_summary
  | AwaitManifest
  | SendWant want
  | TransferChunks "bytes list"
  | Monitoring
  | Returned "link_error + unit"

record 'c link_env =
  le_sync :: "'c sync_env"
  le_persist :: persistence_env
  le_codecs :: link_codecs
  le_short :: string
  le_clock :: "side \<Rightarrow> message_type \<Rightarrow> date_time"
  le_stamp :: "side \<Rightarrow> message_type \<Rightarrow> Proto.timestamp"

record 'c endpoint =
  ep_side :: side
  ep_id :: string
  ep_folder :: string
  ep_point :: link_point
  ep_session :: "'c session"
  ep_active :: bool
  ep_persist :: persistence
  ep_queue :: "bytes list"
  ep_streamed :: "chunk_data list"

definition client_hello :: "'c link_env \<Rightarrow> side \<Rightarrow> hello" where
  "client_hello env sd = \<lparr>h_version = PROTOCOL_VERSION, h_device_id = replicate 32 0,
     h_device_name = ''landropic-client'', h_capabilities = [''sync.v1''],
     h_timestamp = Some (le_stamp env sd THello)\<rparr>"

definition client_summary :: "'c link_env \<Rightarrow> side \<Rightarrow> string \<Rightarrow> folder_summary" where
  "client_summary env sd folder = \<lparr>fs_folder_id = folder, fs_folder_path = folder,
     fs_manifest_hash = replicate 32 0, fs_total_size = 0, fs_file_count = 0,
     fs_last_modified = Some (le_stamp env sd TFolderSummary)\<rparr>"

definition peer_name_of :: "'c link_env \<Rightarrow> bytes \<Rightarrow> string" where
  "peer_name_of env device_id = hex_encode (le_sync env) (take 8 device_id)"

definition start_sync ::
  "'c link_env \<Rightarrow> side \<Rightarrow> string \<Rightarrow> string \<Rightarrow> bytes option \<Rightarrow> string option \<Rightarrow> date_time \<Rightarrow> 'c store \<Rightarrow>
   persistence \<Rightarrow> link_error + 'c endpoint" where
  "start_sync env sd folder uuid remote_id remote_name now cas pm =
     (case remote_id of
        None \<Rightarrow> Inl NoDeviceId
      | Some device_id \<Rightarrow>
          let name = (case remote_name of Some n \<Rightarrow> n | None \<Rightarrow> ''Unknown'');
              session_id = ''sync_'' @ uuid;
              (r, pm1) = start_session (le_persist env)
                (new_persisted_session now session_id (peer_name_of env device_id) folder) pm
          in Inr \<lparr>ep_side = sd, ep_id = session_id, ep_folder = folder,
               ep_point = (case r of
                   Inl e \<Rightarrow> Returned (Inl (LPersistence e))
                 | Inr _ \<Rightarrow> (case sd of Initiator \<Rightarrow> SendHello | Responder \<Rightarrow> AwaitPeerHello)),
               ep_session = new_session (peer_name_of env device_id) name cas [],
               ep_active = True, ep_persist = pm1, ep_queue = [], ep_streamed = []\<rparr>)"

definition load_chunk_from_cas :: "bytes \<Rightarrow> link_error + bytes" where
  "load_chunk_from_cas h = Inr (replicate 1024 0)"

fun link_chunks :: "bytes list \<Rightarrow> chunk_data list" where
  "link_chunks [] = []"
| "link_chunks (h # hs) =
     (case load_chunk_from_cas h of
        Inl _ \<Rightarrow> link_chunks hs
      | Inr d \<Rightarrow> \<lparr>cd_hash = h, cd_data = d, cd_compressed = False, cd_uncompressed_size = 0\<rparr> # link_chunks hs)"

text \<open>The task spawned for the results: the persisted session it names is \<open>sync_\<close> and the
  peer's id, and the bytes it counts are those of the hash.\<close>

definition handle_result ::
  "'c link_env \<Rightarrow> date_time \<Rightarrow> transfer_result \<Rightarrow> 'c endpoint \<Rightarrow> 'c endpoint" where
  "handle_result env now r ep =
     (let i = ''sync_'' @ ss_peer_id (ep_session ep);
          h = hex_encode (le_sync env) (tr_chunk_hash r) in
      if tr_success r then
        ep\<lparr>ep_persist := snd (mark_chunk_completed (le_persist env) now i h
             (word_of_nat (length (tr_chunk_hash r))) (ep_persist ep)),
           ep_session := snd (handle_ack now \<lparr>a_request_id = h, a_success = True,
             a_message = ''Chunk received''\<rparr> (ep_session ep))\<rparr>
      else ep\<lparr>ep_persist := snd (mark_chunk_failed (le_persist env) now i h (ep_persist ep))\<rparr>)"

text \<open>Accepting the next stream: nothing happens before there is one.\<close>

definition receive_next ::
  "'c link_env \<Rightarrow> 'm codec \<Rightarrow> message_type \<Rightarrow> ('m \<Rightarrow> 'c endpoint \<Rightarrow> 'c endpoint) \<Rightarrow> 'c endpoint \<Rightarrow> 'c endpoint" where
  "receive_next env c t k ep =
     (case ep_queue ep of
        [] \<Rightarrow> ep
      | st # rest \<Rightarrow>
          (case link_receive (le_short env) c t st of
             Inl e \<Rightarrow> ep\<lparr>ep_queue := rest, ep_point := Returned (Inl e)\<rparr>
           | Inr m \<Rightarrow> k m (ep\<lparr>ep_queue := rest\<rparr>)))"

text \<open>The question mark after a session's handler.\<close>

definition with_session ::
  "(sync_error + 'r) \<times> 'c session \<Rightarrow> ('r \<Rightarrow> link_point) \<Rightarrow> 'c endpoint \<Rightarrow> 'c endpoint" where
  "with_session rs p ep =
     ep\<lparr>ep_session := snd rs, ep_point := (case fst rs of Inl e \<Rightarrow> Returned (Inl (LSync e)) | Inr r \<Rightarrow> p r)\<rparr>"

definition monitor_poll :: "'c endpoint \<Rightarrow> 'c endpoint" where
  "monitor_poll ep =
     (case ss_state (ep_session ep) of
        Completed \<Rightarrow> ep\<lparr>ep_point := Returned (Inr ())\<rparr>
      | Failed reason \<Rightarrow> ep\<lparr>ep_point := Returned (Inl (LSync (Protocol reason)))\<rparr>
      | _ \<Rightarrow> ep)"

text \<open>One turn, with the stream it sends.\<close>

definition endpoint_turn :: "'c link_env \<Rightarrow> 'c endpoint \<Rightarrow> 'c endpoint \<times> bytes option" where
  "endpoint_turn env ep =
     (let cs = le_codecs env; sd = ep_side ep; s = ep_session ep in
      case ep_point ep of
        SendHello \<Rightarrow> (ep\<lparr>ep_point := AwaitHello\<rparr>, Some (link_frame (lc_hello cs) THello (client_hello env sd)))
      | AwaitHello \<Rightarrow>
          (receive_next env (lc_hello cs) THello
             (\<lambda>m. with_session (handle_hello (le_stamp env sd THello) m s) (\<lambda>_. SendSummary)) ep, None)
      | SendSummary \<Rightarrow>
          (ep\<lparr>ep_point := AwaitManifest\<rparr>,
           Some (link_frame (lc_summary cs) TFolderSummary (client_summary env sd (ep_folder ep))))
      | AwaitPeerHello \<Rightarrow>
          (receive_next env (lc_hello cs) THello
             (\<lambda>m. with_session (handle_hello (le_stamp env sd THello) m s) ReplyHello) ep, None)
      | ReplyHello m \<Rightarrow> (ep\<lparr>ep_point := AwaitSummary\<rparr>, Some (link_frame (lc_hello cs) THello m))
      | AwaitSummary \<Rightarrow>
          (receive_next env (lc_summary cs) TFolderSummary
             (\<lambda>m. with_session (handle_folder_summary (le_sync env) (le_clock env sd TFolderSummary)
                (le_stamp env sd TFolderSummary) m s) ReplySummary) ep, None)
      | ReplySummary m \<Rightarrow>
          (ep\<lparr>ep_point := AwaitManifest\<rparr>, Some (link_frame (lc_summary cs) TFolderSummary m))
      | AwaitManifest \<Rightarrow>
          (receive_next env (lc_manifest cs) TManifest
             (\<lambda>m. with_session (handle_manifest (le_sync env) (le_clock env sd TManifest) m s) SendWant) ep, None)
      | SendWant m \<Rightarrow>
          (ep\<lparr>ep_point := TransferChunks (w_chunk_hashes m)\<rparr>, Some (link_frame (lc_want cs) TWant m))
      | TransferChunks hs \<Rightarrow>
          (ep\<lparr>ep_point := Monitoring, ep_streamed := ep_streamed ep @ link_chunks hs\<rparr>, None)
      | Monitoring \<Rightarrow> (monitor_poll ep, None)
      | Returned r \<Rightarrow> (ep, None))"

definition networking :: "link_point \<Rightarrow> bool" where
  "networking p = (case p of Monitoring \<Rightarrow> False | Returned _ \<Rightarrow> False | _ \<Rightarrow> True)"

definition cut :: "string \<Rightarrow> 'c endpoint \<Rightarrow> 'c endpoint" where
  "cut why ep = (if networking (ep_point ep) then ep\<lparr>ep_point := Returned (Inl (LNetwork why))\<rparr> else ep)"

definition arrive :: "bytes \<Rightarrow> 'c endpoint \<Rightarrow> 'c endpoint" where
  "arrive st ep = ep\<lparr>ep_queue := ep_queue ep @ [st]\<rparr>"

datatype link_event = Turn | Arrive bytes | Cut string | Result date_time transfer_result

fun endpoint_event :: "'c link_env \<Rightarrow> link_event \<Rightarrow> 'c endpoint \<Rightarrow> 'c endpoint" where
  "endpoint_event env Turn ep = fst (endpoint_turn env ep)"
| "endpoint_event env (Arrive st) ep = arrive st ep"
| "endpoint_event env (Cut why) ep = cut why ep"
| "endpoint_event env (Result now r) ep = handle_result env now r ep"

section \<open>Ending, interrupting and resuming\<close>

text \<open>A file that cannot be written returns before the session is taken from the active ones.\<close>

definition complete_sync :: "'c link_env \<Rightarrow> date_time \<Rightarrow> 'c endpoint \<Rightarrow> (link_error + unit) \<times> 'c endpoint" where
  "complete_sync env now ep =
     (case complete_session (le_persist env) now (ep_id ep) (ep_persist ep) of
        (Inl e, pm) \<Rightarrow> (Inl (LPersistence e), ep\<lparr>ep_persist := pm\<rparr>)
      | (Inr _, pm) \<Rightarrow> (Inr (), ep\<lparr>ep_persist := pm, ep_active := False\<rparr>))"

definition interrupt_sync :: "'c link_env \<Rightarrow> date_time \<Rightarrow> 'c endpoint \<Rightarrow> (link_error + unit) \<times> 'c endpoint" where
  "interrupt_sync env now ep =
     (case interrupt_session (le_persist env) now (ep_id ep) (ep_persist ep) of
        (Inl e, pm) \<Rightarrow> (Inl (LPersistence e), ep\<lparr>ep_persist := pm\<rparr>)
      | (Inr _, pm) \<Rightarrow> (Inr (), ep\<lparr>ep_persist := pm, ep_active := False\<rparr>))"

definition sync_stats :: "'c endpoint \<Rightarrow> transfer_stats option" where
  "sync_stats ep = (if ep_active ep then Some (ss_stats (ep_session ep)) else None)"

text \<open>The chunks a resumed session streams, in the order of the sets' union.\<close>

definition resume_sync ::
  "'c link_env \<Rightarrow> (string fset \<Rightarrow> string list) \<Rightarrow> 'c store \<Rightarrow> string \<Rightarrow> persistence \<Rightarrow>
   link_error + ('c session \<times> chunk_data list)" where
  "resume_sync env order cas i pm =
     (case get_session pm i of
        None \<Rightarrow> Inl (NoPersisted i)
      | Some ps \<Rightarrow>
          if \<not> can_resume ps then Inl (NotResumable i (pss_status ps))
          else
            let hashes = List.map_filter (hex_decode (le_sync env))
                  (order (pss_pending_chunks ps |\<union>| pss_failed_chunks ps))
            in Inr (new_session (pss_peer_id ps) ''Resumed'' cas [],
                 if hashes = [] then [] else link_chunks hashes))"

section \<open>Two endpoints\<close>

record 'c sync_link =
  l_ini :: "'c endpoint"
  l_rsp :: "'c endpoint"

text \<open>What a side sends arrives at the other.\<close>

definition link_turn :: "'c link_env \<Rightarrow> side \<Rightarrow> 'c sync_link \<Rightarrow> 'c sync_link" where
  "link_turn env sd l =
     (case sd of
        Initiator \<Rightarrow>
          let (ep, out) = endpoint_turn env (l_ini l) in
          l\<lparr>l_ini := ep, l_rsp := (case out of None \<Rightarrow> l_rsp l | Some st \<Rightarrow> arrive st (l_rsp l))\<rparr>
      | Responder \<Rightarrow>
          let (ep, out) = endpoint_turn env (l_rsp l) in
          l\<lparr>l_rsp := ep, l_ini := (case out of None \<Rightarrow> l_ini l | Some st \<Rightarrow> arrive st (l_ini l))\<rparr>)"

section \<open>One endpoint: what no peer can change\<close>

text \<open>The session never gets past the transfer.\<close>

definition flow_ok :: "'c endpoint \<Rightarrow> bool" where
  "flow_ok ep \<longleftrightarrow> ss_state (ep_session ep) \<notin> {Verifying, Completed} \<and> ep_point ep \<noteq> Returned (Inr ())"

text \<open>The session on record has no chunk, and the results are recorded under another name.\<close>

definition record_ok :: "'c endpoint \<Rightarrow> bool" where
  "record_ok ep \<longleftrightarrow> ep_id ep \<noteq> ''sync_'' @ ss_peer_id (ep_session ep) \<and>
     (\<exists>ps. get_session (ep_persist ep) (ep_id ep) = Some ps \<and> pss_completed_chunks ps = {||} \<and>
        pss_pending_chunks ps = {||} \<and> pss_failed_chunks ps = {||})"

lemma handlers_keep [simp]:
  "ss_peer_id (snd (handle_hello n m s)) = ss_peer_id s"
  "ss_peer_id (snd (handle_folder_summary e d n fs s)) = ss_peer_id s"
  "ss_peer_id (snd (handle_manifest e d pm s)) = ss_peer_id s"
  "ss_peer_id (snd (handle_ack d k s)) = ss_peer_id s"
  by (auto simp add: handle_hello_def handle_folder_summary_def handle_manifest_def handle_ack_def
      update_peer_state_def Let_def split: option.split prod.split)

lemma handlers_idle:
  assumes "ss_state s \<notin> {Verifying, Completed}"
  shows "ss_state (snd (handle_hello n m s)) \<notin> {Verifying, Completed}"
    "ss_state (snd (handle_folder_summary e d n fs s)) \<notin> {Verifying, Completed}"
    "ss_state (snd (handle_manifest e d pm s)) \<notin> {Verifying, Completed}"
    "snd (handle_ack d k s) = s"
  using assms
  by (auto simp add: handle_hello_def handle_folder_summary_def handle_manifest_def handle_ack_def
      Let_def split: option.split prod.split)

lemma flow_ok_turn: "flow_ok ep \<Longrightarrow> flow_ok (fst (endpoint_turn env ep))"
  by (cases "ep_point ep")
    (auto simp add: endpoint_turn_def Let_def flow_ok_def with_session_def monitor_poll_def receive_next_def
      handlers_idle [simplified] split: sum.split session_state.split list.split)

interpretation flows: machine "endpoint_event env" flow_ok for env :: "'c link_env"
proof
  fix ep :: "'c endpoint" and ev
  assume ok: "flow_ok ep"
  show "flow_ok (endpoint_event env ev ep)"
  proof (cases ev)
    case Turn
    with ok flow_ok_turn show ?thesis by simp
  next
    case (Arrive st)
    with ok show ?thesis by (simp add: arrive_def flow_ok_def)
  next
    case (Cut why)
    with ok show ?thesis by (simp add: cut_def flow_ok_def)
  next
    case (Result now r)
    with ok show ?thesis
      by (simp add: handle_result_def flow_ok_def Let_def handlers_idle(4))
  qed
qed

lemma hm_get_put_any: "hm_get (hm_put k v m) j = (if j = k then Some v else hm_get m j)"
  by (simp add: hm_get_def hm_put_def update_conv')

lemma save_keeps_sessions [simp]: "pm_sessions (snd (save_session env i m)) = pm_sessions m"
  by (simp add: save_session_def split: option.split)

lemma marks_keep_others:
  assumes "j \<noteq> i"
  shows "get_session (snd (mark_chunk_completed env now i h n m)) j = get_session m j"
    "get_session (snd (mark_chunk_failed env now i h m)) j = get_session m j"
  using assms
  by (auto simp add: mark_chunk_completed_def mark_chunk_failed_def update_session_def get_session_def
      hm_get_put_any hm_get_modify Let_def split: option.split)

lemma turn_keeps:
  "ep_persist (fst (endpoint_turn env ep)) = ep_persist ep \<and> ep_id (fst (endpoint_turn env ep)) = ep_id ep \<and>
   ss_peer_id (ep_session (fst (endpoint_turn env ep))) = ss_peer_id (ep_session ep)"
  by (cases "ep_point ep")
    (auto simp add: endpoint_turn_def Let_def with_session_def monitor_poll_def receive_next_def
      split: sum.split session_state.split list.split)

interpretation records: machine "endpoint_event env" record_ok for env :: "'c link_env"
proof
  fix ep :: "'c endpoint" and ev
  assume ok: "record_ok ep"
  show "record_ok (endpoint_event env ev ep)"
  proof (cases ev)
    case Turn
    with ok turn_keeps [of env ep] show ?thesis by (simp add: record_ok_def)
  next
    case (Arrive st)
    with ok show ?thesis by (simp add: arrive_def record_ok_def)
  next
    case (Cut why)
    with ok show ?thesis by (simp add: cut_def record_ok_def)
  next
    case (Result now r)
    with ok show ?thesis by (simp add: handle_result_def record_ok_def Let_def marks_keep_others)
  qed
qed

lemma endpoint_event_id [simp]: "ep_id (endpoint_event env ev ep) = ep_id ep"
  using turn_keeps [of env ep]
  by (cases ev) (simp_all add: arrive_def cut_def handle_result_def Let_def)

lemma endpoint_events_id [simp]: "ep_id (fold (endpoint_event env) evs ep) = ep_id ep"
  by (induction evs arbitrary: ep) simp_all

lemma start_flow_ok: "start_sync env sd folder uuid rid rname now cas pm = Inr ep \<Longrightarrow> flow_ok ep"
  by (auto simp add: start_sync_def Let_def flow_ok_def new_session_def split: option.splits prod.splits sum.splits side.splits)

lemma start_record_ok:
  assumes "start_sync env sd folder uuid (Some dev) rname now cas pm = Inr ep" and "uuid \<noteq> peer_name_of env dev"
  shows "record_ok ep" "ep_id ep = ''sync_'' @ uuid"
proof -
  let ?ps = "new_persisted_session now (''sync_'' @ uuid) (peer_name_of env dev) folder"
  have "get_session (snd (start_session (le_persist env) ?ps pm)) (''sync_'' @ uuid) = Some ?ps"
    by (simp add: start_session_def get_session_def hm_get_put_any new_persisted_session_def)
  with assms show "record_ok ep" "ep_id ep = ''sync_'' @ uuid"
    by (auto simp add: start_sync_def Let_def record_ok_def new_session_def new_persisted_session_def
        split: prod.splits)
qed

lemma interrupted_record:
  assumes "record_ok ep"
  shows "\<exists>ps. get_session (ep_persist (snd (interrupt_sync env now ep))) (ep_id ep) = Some ps \<and>
    pss_completed_chunks ps = {||} \<and> pss_pending_chunks ps = {||} \<and> pss_failed_chunks ps = {||}"
proof -
  have "ep_persist (snd (interrupt_sync env now ep))
      = snd (interrupt_session (le_persist env) now (ep_id ep) (ep_persist ep))"
    by (simp add: interrupt_sync_def split: prod.split sum.split)
  with assms show ?thesis
    by (auto simp add: record_ok_def interrupt_session_def update_session_def get_session_def
        hm_get_modify session_interrupt_def)
qed

section \<open>Two endpoints: the invariant\<close>

lemma link_receive_frame:
  assumes "codec_ok c m" and "length (encode c m) < 2 ^ 32"
  shows "link_receive short c t (link_frame c t m) = Inr m"
proof -
  have "unat (word_of_nat (length (encode c m)) :: u32) = length (encode c m)"
    using assms(2) by (rule unat_of_nat_u32)
  moreover have "read_exact 1 (x # r) = Some ([x], r)" for x and r :: bytes
    by (simp add: read_exact_def)
  moreover have "read_exact (length b) b = Some (b, [])" for b :: bytes
    using read_exact_append [of b "length b" "[]"] by simp
  ultimately show ?thesis
    using assms(1) by (simp add: link_receive_def link_frame_def read_exact_append Let_def codec_ok_def)
qed

lemma link_receive_other:
  "type_code t' \<noteq> type_code t \<Longrightarrow>
   link_receive short c' t' (link_frame c t m) = Inl (WrongType (type_code t') (type_code t))"
  by (simp add: link_receive_def link_frame_def read_exact_def Let_def)

text \<open>The responder's replies.\<close>

definition server_hello :: "'c link_env \<Rightarrow> hello" where
  "server_hello env = \<lparr>h_version = PROTOCOL_VERSION, h_device_id = replicate 32 0, h_device_name = ''landropic'',
     h_capabilities = [''sync.v1'', ''incremental.v1'', ''compression.zstd''],
     h_timestamp = Some (le_stamp env Responder THello)\<rparr>"

definition server_summary :: "'c link_env \<Rightarrow> string \<Rightarrow> folder_summary" where
  "server_summary env folder =
     (let ours = load_our_manifest (le_clock env Responder TFolderSummary) folder in
      \<lparr>fs_folder_id = folder, fs_folder_path = ''/sync'',
        fs_manifest_hash = (case manifest_hash ours of None \<Rightarrow> [] | Some h \<Rightarrow> decode_or_empty (le_sync env) h),
        fs_total_size = total_size ours, fs_file_count = word_of_nat (file_count ours),
        fs_last_modified = Some (le_stamp env Responder TFolderSummary)\<rparr>)"

text \<open>The messages a link's endpoints decode.\<close>

definition link_codecs_ok :: "'c link_env \<Rightarrow> string \<Rightarrow> bool" where
  "link_codecs_ok env folder \<longleftrightarrow>
     (\<forall>h\<in>{client_hello env Initiator, server_hello env}.
        codec_ok (lc_hello (le_codecs env)) h \<and> length (encode (lc_hello (le_codecs env)) h) < 2 ^ 32) \<and>
     codec_ok (lc_summary (le_codecs env)) (client_summary env Initiator folder) \<and>
     length (encode (lc_summary (le_codecs env)) (client_summary env Initiator folder)) < 2 ^ 32"

text \<open>What a side has sent, received and still has to do at a point.\<close>

fun sent_at :: "link_point \<Rightarrow> nat" where
  "sent_at SendHello = 0"
| "sent_at AwaitPeerHello = 0"
| "sent_at (ReplyHello m) = 0"
| "sent_at AwaitHello = 1"
| "sent_at SendSummary = 1"
| "sent_at AwaitSummary = 1"
| "sent_at (ReplySummary m) = 1"
| "sent_at p = 2"

fun received_at :: "link_point \<Rightarrow> nat" where
  "received_at SendHello = 0"
| "received_at AwaitHello = 0"
| "received_at AwaitPeerHello = 0"
| "received_at SendSummary = 1"
| "received_at (ReplyHello m) = 1"
| "received_at AwaitSummary = 1"
| "received_at p = 2"

definition initiator_received :: "link_point \<Rightarrow> nat" where
  "initiator_received p = (if p = AwaitManifest then 1 else received_at p)"

fun work_at :: "link_point \<Rightarrow> nat" where
  "work_at SendHello = 4"
| "work_at AwaitPeerHello = 4"
| "work_at AwaitHello = 3"
| "work_at (ReplyHello m) = 3"
| "work_at SendSummary = 2"
| "work_at AwaitSummary = 2"
| "work_at (ReplySummary m) = 1"
| "work_at p = 0"

definition link_work :: "'c sync_link \<Rightarrow> nat" where
  "link_work l = (if ep_point (l_ini l) = AwaitManifest then 1 else work_at (ep_point (l_ini l)))
     + work_at (ep_point (l_rsp l))"

text \<open>The queues hold what the other side has sent and this one has not received.\<close>

definition initiator_ok :: "'c link_env \<Rightarrow> string \<Rightarrow> 'c endpoint \<Rightarrow> bool" where
  "initiator_ok env folder ep \<longleftrightarrow> ep_side ep = Initiator \<and> ep_folder ep = folder \<and>
     ep_point ep \<in> {SendHello, AwaitHello, SendSummary, AwaitManifest, Returned (Inl (WrongType 2 1))} \<and>
     ss_state (ep_session ep) = (if received_at (ep_point ep) = 0 then Initializing else Negotiating)"

definition responder_ok :: "'c link_env \<Rightarrow> string \<Rightarrow> 'c endpoint \<Rightarrow> bool" where
  "responder_ok env folder ep \<longleftrightarrow> ep_side ep = Responder \<and>
     ep_point ep \<in> {AwaitPeerHello, ReplyHello (server_hello env), AwaitSummary,
       ReplySummary (server_summary env folder), AwaitManifest} \<and>
     ss_state (ep_session ep) = [Initializing, Negotiating, ComputingDiff] ! received_at (ep_point ep)"

definition link_ok :: "'c link_env \<Rightarrow> string \<Rightarrow> 'c sync_link \<Rightarrow> bool" where
  "link_ok env folder l \<longleftrightarrow> initiator_ok env folder (l_ini l) \<and> responder_ok env folder (l_rsp l) \<and>
     received_at (ep_point (l_rsp l)) \<le> sent_at (ep_point (l_ini l)) \<and>
     initiator_received (ep_point (l_ini l)) \<le> sent_at (ep_point (l_rsp l)) \<and>
     ep_queue (l_rsp l) = drop (received_at (ep_point (l_rsp l))) (take (sent_at (ep_point (l_ini l)))
       [link_frame (lc_hello (le_codecs env)) THello (client_hello env Initiator),
        link_frame (lc_summary (le_codecs env)) TFolderSummary (client_summary env Initiator folder)]) \<and>
     ep_queue (l_ini l) = drop (initiator_received (ep_point (l_ini l))) (take (sent_at (ep_point (l_rsp l)))
       [link_frame (lc_hello (le_codecs env)) THello (server_hello env),
        link_frame (lc_summary (le_codecs env)) TFolderSummary (server_summary env folder)])"

lemma queue_irrelevant [simp]:
  "initiator_ok env folder (ep\<lparr>ep_queue := q\<rparr>) = initiator_ok env folder ep"
  "responder_ok env folder (ep\<lparr>ep_queue := q\<rparr>) = responder_ok env folder ep"
  by (simp_all add: initiator_ok_def responder_ok_def)

definition link_mismatched :: "'c sync_link \<Rightarrow> bool" where
  "link_mismatched l \<longleftrightarrow> ep_point (l_ini l) = Returned (Inl (WrongType 2 1)) \<and>
     ep_point (l_rsp l) = AwaitManifest \<and> ep_queue (l_rsp l) = []"

lemma own_version: "is_version_compatible PROTOCOL_VERSION"
  by (simp add: is_version_compatible_def)

lemma server_hello:
  "ss_state s = Initializing \<Longrightarrow>
   handle_hello (le_stamp env Responder THello) (client_hello env Initiator) s = (Inr (server_hello env), s\<lparr>ss_state := Negotiating\<rparr>)"
  by (simp add: handle_hello_def own_version client_hello_def server_hello_def)

lemma client_accepts:
  "ss_state s = Initializing \<Longrightarrow> handle_hello n (server_hello env) s
     = (Inr ((server_hello env)\<lparr>h_timestamp := Some n\<rparr>), s\<lparr>ss_state := Negotiating\<rparr>)"
  by (simp add: handle_hello_def own_version server_hello_def)

lemma server_summary:
  "ss_state s = Negotiating \<Longrightarrow> \<exists>s'. handle_folder_summary (le_sync env) (le_clock env Responder TFolderSummary)
     (le_stamp env Responder TFolderSummary) (client_summary env Initiator folder) s
     = (Inr (server_summary env folder), s') \<and> ss_state s' = ComputingDiff"
  by (simp add: handle_folder_summary_def server_summary_def client_summary_def Let_def)


lemma drop_of_two: "r \<le> Suc 0 \<Longrightarrow> drop r [x, y] = drop r [x] @ [y]"
  by (cases r) simp_all

lemma link_step_initiator:
  assumes "link_codecs_ok env folder" and "link_ok env folder l"
  shows "link_ok env folder (link_turn env Initiator l) \<and>
    (link_work (link_turn env Initiator l) < link_work l \<or> link_turn env Initiator l = l \<and>
       (ep_point (l_ini l) = Returned (Inl (WrongType 2 1)) \<or>
        ep_point (l_ini l) \<in> {AwaitHello, AwaitManifest} \<and> ep_queue (l_ini l) = []))"
proof -
  have f: "link_receive short (lc_hello (le_codecs env)) THello (link_frame (lc_hello (le_codecs env)) THello (server_hello env))
      = Inr (server_hello env)" for short
    using assms(1) by (intro link_receive_frame) (simp_all add: link_codecs_ok_def)
  obtain a b where l: "l = \<lparr>l_ini = a, l_rsp = b\<rparr>" by (cases l)
  note defs = l link_ok_def initiator_ok_def link_turn_def endpoint_turn_def initiator_received_def
    receive_next_def with_session_def arrive_def link_work_def
  have q: "ep_queue a = drop (initiator_received (ep_point a)) (take (sent_at (ep_point b))
       [link_frame (lc_hello (le_codecs env)) THello (server_hello env),
        link_frame (lc_summary (le_codecs env)) TFolderSummary (server_summary env folder)])"
    and sd: "ep_side a = Initiator" "ep_folder a = folder"
    using assms(2) by (simp_all add: l link_ok_def initiator_ok_def)
  have "ep_point a = SendHello \<or> ep_point a = AwaitHello \<or> ep_point a = SendSummary \<or>
      ep_point a = AwaitManifest \<or> ep_point a = Returned (Inl (WrongType 2 1))"
    using assms(2) by (simp add: l link_ok_def initiator_ok_def)
  moreover have "sent_at (ep_point b) = 0 \<or> sent_at (ep_point b) = 1 \<or> sent_at (ep_point b) = 2"
    by (cases "ep_point b") simp_all
  ultimately show ?thesis
    by (elim disjE)
      (use assms(2) q sd in \<open>simp_all add: defs f link_receive_other client_accepts drop_of_two\<close>)
qed

lemma link_step_responder:
  assumes "link_codecs_ok env folder" and "link_ok env folder l"
  shows "link_ok env folder (link_turn env Responder l) \<and>
    (link_work (link_turn env Responder l) < link_work l \<or> link_turn env Responder l = l \<and>
       ep_point (l_rsp l) \<in> {AwaitPeerHello, AwaitSummary, AwaitManifest} \<and> ep_queue (l_rsp l) = [])"
proof -
  have f: "link_receive short (lc_hello (le_codecs env)) THello (link_frame (lc_hello (le_codecs env)) THello (client_hello env Initiator))
      = Inr (client_hello env Initiator)"
    "link_receive short (lc_summary (le_codecs env)) TFolderSummary
       (link_frame (lc_summary (le_codecs env)) TFolderSummary (client_summary env Initiator folder))
      = Inr (client_summary env Initiator folder)" for short
    using assms(1) by (auto intro!: link_receive_frame simp add: link_codecs_ok_def)
  obtain a b where l: "l = \<lparr>l_ini = a, l_rsp = b\<rparr>" by (cases l)
  note defs = l link_ok_def responder_ok_def link_turn_def endpoint_turn_def
    receive_next_def with_session_def arrive_def link_work_def
  have q: "ep_queue b = drop (received_at (ep_point b)) (take (sent_at (ep_point a))
       [link_frame (lc_hello (le_codecs env)) THello (client_hello env Initiator),
        link_frame (lc_summary (le_codecs env)) TFolderSummary (client_summary env Initiator folder)])"
    and sd: "ep_side b = Responder"
    using assms(2) by (simp_all add: l link_ok_def responder_ok_def)
  have "ep_point b = AwaitPeerHello \<or> ep_point b = ReplyHello (server_hello env) \<or> ep_point b = AwaitSummary \<or>
      ep_point b = ReplySummary (server_summary env folder) \<or> ep_point b = AwaitManifest"
    using assms(2) by (simp add: l link_ok_def responder_ok_def)
  moreover have "sent_at (ep_point a) = 0 \<or> sent_at (ep_point a) = 1 \<or> sent_at (ep_point a) = 2"
    by (cases "ep_point a") simp_all
  ultimately show ?thesis
    by (elim disjE)
      (use assms(2) q sd server_summary [of "ep_session b" env folder] in
        \<open>auto simp add: defs f link_receive_other server_hello drop_of_two\<close>)
qed

lemma link_step:
  assumes "link_codecs_ok env folder" and "link_ok env folder l"
  shows "link_ok env folder (link_turn env sd l) \<and>
    (link_work (link_turn env sd l) < link_work l \<or> link_turn env sd l = l)"
  using link_step_initiator [OF assms] link_step_responder [OF assms] by (cases sd) auto

text \<open>A link in which neither side moves.\<close>

lemma link_stuck:
  assumes "link_codecs_ok env folder" and "link_ok env folder l"
    and "link_turn env Initiator l = l" and "link_turn env Responder l = l"
  shows "link_mismatched l"
proof -
  have i: "ep_point (l_ini l) = Returned (Inl (WrongType 2 1)) \<or>
      ep_point (l_ini l) \<in> {AwaitHello, AwaitManifest} \<and> ep_queue (l_ini l) = []"
    using link_step_initiator [OF assms(1,2)] assms(3) by auto
  have r: "ep_point (l_rsp l) \<in> {AwaitPeerHello, AwaitSummary, AwaitManifest} \<and> ep_queue (l_rsp l) = []"
    using link_step_responder [OF assms(1,2)] assms(4) by auto
  show ?thesis
    using i r assms(2) by (auto simp add: link_ok_def link_mismatched_def initiator_received_def)
qed

lemma link_fold:
  assumes "link_codecs_ok env folder" and "link_ok env folder l"
  shows "link_ok env folder (fold (link_turn env) sds l) \<and>
    (link_work (fold (link_turn env) sds l) < link_work l \<or>
     fold (link_turn env) sds l = l \<and> (\<forall>sd\<in>set sds. link_turn env sd l = l))"
  using assms(2)
proof (induction sds arbitrary: l)
  case (Cons sd sds)
  note s = link_step [OF assms(1) Cons.prems, of sd]
  with Cons.IH [of "link_turn env sd l"] show ?case by auto
qed simp

lemma link_mismatch_stays: "link_mismatched l \<Longrightarrow> link_turn env sd l = l"
  by (cases sd) (simp_all add: link_mismatched_def link_turn_def endpoint_turn_def receive_next_def)

lemma link_rounds:
  assumes "link_codecs_ok env folder" and "link_ok env folder l"
    and "\<And>r. r \<in> set rounds \<Longrightarrow> set r = {Initiator, Responder}" and "link_work l \<le> length rounds"
  shows "link_mismatched (fold (link_turn env) (concat rounds) l)"
  using assms(2-)
proof (induction rounds arbitrary: l)
  case (Cons r rounds)
  note f = link_fold [OF assms(1) Cons.prems(1), of r]
  show ?case
  proof (cases "\<forall>sd\<in>set r. link_turn env sd l = l")
    case True
    then have "link_mismatched l"
      using Cons.prems link_stuck [OF assms(1) Cons.prems(1)] by simp
    moreover have "link_mismatched l \<Longrightarrow> fold (link_turn env) sds l = l" for sds
      by (induction sds) (simp_all add: link_mismatch_stays)
    ultimately show ?thesis by simp
  next
    case False
    with f Cons show ?thesis by auto
  qed
next
  case Nil
  then have "link_turn env sd l = l" for sd
    using link_step [OF assms(1) Nil(1), of sd] by auto
  with Nil(1) show ?case using link_stuck [OF assms(1)] by simp
qed

lemma start_link_ok:
  assumes "start_sync env Initiator folder u1 d1 n1 t1 c1 p1 = Inr a" and "ep_point a = SendHello"
    and "start_sync env Responder folder' u2 d2 n2 t2 c2 p2 = Inr b" and "ep_point b = AwaitPeerHello"
  shows "link_ok env folder \<lparr>l_ini = a, l_rsp = b\<rparr>" "link_work \<lparr>l_ini = a, l_rsp = b\<rparr> = 8"
  using assms
  by (auto simp add: start_sync_def Let_def link_ok_def initiator_ok_def responder_ok_def initiator_received_def
      link_work_def new_session_def split: option.splits prod.splits)

section \<open>A concrete link\<close>

text \<open>A codec for two greetings: the client's and the reply.\<close>

definition two_messages :: "'m \<Rightarrow> 'm \<Rightarrow> ('m \<Rightarrow> bool) \<Rightarrow> 'm codec" where
  "two_messages a b first = \<lparr>encode = (\<lambda>m. [if first m then 0 else 1]),
     decode = (\<lambda>bs. Inr (if bs = [0] then a else b))\<rparr>"

definition sample_link_start :: "(content_hash \<times> cached_chunk) list link_env" where
  "sample_link_start = \<lparr>le_sync = sample_sync_env, le_persist = sample_persistence_env,
     le_codecs = \<lparr>lc_hello = one_message sample_hello, lc_summary = one_message sample_summary,
       lc_manifest = one_message sample_pm, lc_want = one_message (sample_want ''f'')\<rparr>,
     le_short = ''unexpected end'', le_clock = (\<lambda>_ _. 0), le_stamp = (\<lambda>_ _. (0, 0))\<rparr>"

definition sample_link_env :: "(content_hash \<times> cached_chunk) list link_env" where
  "sample_link_env = sample_link_start\<lparr>le_codecs := \<lparr>
     lc_hello = two_messages (client_hello sample_link_start Initiator) (server_hello sample_link_start)
       (\<lambda>h. h_device_name h = ''landropic-client''),
     lc_summary = one_message (client_summary sample_link_start Initiator ''docs''),
     lc_manifest = one_message sample_pm, lc_want = one_message (sample_want ''f'')\<rparr>\<rparr>"

lemma sample_link_codecs: "link_codecs_ok sample_link_env ''docs''"
  by (simp add: link_codecs_ok_def sample_link_env_def two_messages_def codec_ok_def one_message_def
      client_hello_def server_hello_def client_summary_def sample_link_start_def)

definition sample_persist :: persistence where
  "sample_persist = new_persistence sample_persistence_env default_persistence_config []"

definition sample_transport :: "side \<Rightarrow> link_error + (content_hash \<times> cached_chunk) list endpoint" where
  "sample_transport sd = start_sync sample_link_env sd ''docs'' ''u-u-i-d'' (Some [1, 2, 3]) None 0
     (new_store (sample_env 1) rev default_cas_config None 0 []) sample_persist"

lemma sample_transport:
  "\<exists>ep. sample_transport sd = Inr ep \<and>
     ep_point ep = (case sd of Initiator \<Rightarrow> SendHello | Responder \<Rightarrow> AwaitPeerHello)"
  by (simp add: sample_transport_def start_sync_def Let_def start_session_def save_session_def hm_get_put_any
      sample_link_env_def sample_link_start_def sample_persistence_env_def new_persisted_session_def)

section \<open>Properties\<close>

text \<open>C9: A sync session started over QUIC never succeeds, as initiator or responder, whatever the
  peer sends, in whatever order, and however the connection and the chunk streams fare:
  \<open>start_sync\<close> returns an error or never returns.\<close>

theorem started_sync_never_succeeds:
  assumes "start_sync env sd folder uuid remote_id remote_name now cas pm = Inr ep"
  shows "ep_point (fold (endpoint_event env) events ep) \<noteq> Returned (Inr ())"
  using flows.inv_fold [OF start_flow_ok [OF assms]] by (simp add: flow_ok_def)

theorem started_sync_never_succeeds_witness:
  "\<exists>ep. sample_transport Responder = Inr ep \<and>
     ep_point (fold (endpoint_event sample_link_env) [Arrive [], Turn, Cut ''closed'', Turn] ep) \<noteq> Returned (Inr ())"
  using sample_transport [of Responder] started_sync_never_succeeds unfolding sample_transport_def by metis

text \<open>C8: Two transports that sync with each other always fail, and not at once: in any schedule
  with at least eight rounds in which both sides get a turn, the initiator ends with the error
  that it expected a manifest (2) and got the folder summary (1) the responder answers with, and
  the responder waits for a manifest that no side of the code ever sends.\<close>

theorem transports_cannot_sync:
  assumes "start_sync env Initiator folder u1 d1 n1 t1 c1 p1 = Inr a" and "ep_point a = SendHello"
    and "start_sync env Responder folder' u2 d2 n2 t2 c2 p2 = Inr b" and "ep_point b = AwaitPeerHello"
    and "link_codecs_ok env folder"
    and "\<forall>r\<in>set rounds. set r = {Initiator, Responder}" and "8 \<le> length rounds"
  shows "link_mismatched (fold (link_turn env) (concat rounds) \<lparr>l_ini = a, l_rsp = b\<rparr>)"
proof -
  note s = start_link_ok [OF assms(1-4)]
  show ?thesis
    by (rule link_rounds [OF assms(5) s(1)]) (use assms(6,7) s(2) in auto)
qed

theorem transports_cannot_sync_witness:
  "\<exists>a b. sample_transport Initiator = Inr a \<and> sample_transport Responder = Inr b \<and>
     link_mismatched (fold (link_turn sample_link_env)
       (concat (replicate 8 [Responder, Initiator, Initiator])) \<lparr>l_ini = a, l_rsp = b\<rparr>)"
proof -
  obtain a b where s: "sample_transport Initiator = Inr a" "ep_point a = SendHello"
    "sample_transport Responder = Inr b" "ep_point b = AwaitPeerHello"
    using sample_transport [of Initiator] sample_transport [of Responder] by auto
  have r: "\<forall>r\<in>set (replicate 8 [Responder, Initiator, Initiator]). set r = {Initiator, Responder}"
    by auto
  have "8 \<le> length (replicate 8 [Responder, Initiator, Initiator])" by simp
  from transports_cannot_sync [OF s(1) [unfolded sample_transport_def] s(2) s(3) [unfolded sample_transport_def] s(4)
      sample_link_codecs r this] s(1,3)
  show ?thesis by blast
qed

text \<open>C10: An interrupted session cannot be resumed: whatever the peer sent and whatever chunks were
  transferred or failed before, its record on the manager has no completed, pending or failed
  chunk, because nothing registers the pending ones and the results are recorded under the peer's
  id, so \<open>resume_sync\<close> refuses it.\<close>

theorem interrupted_sync_cannot_resume:
  assumes "start_sync env sd folder uuid (Some device_id) remote_name now cas pm = Inr ep"
    and "uuid \<noteq> peer_name_of env device_id"
  shows "let pm' = ep_persist (snd (interrupt_sync env t (fold (endpoint_event env) events ep))) in
    (\<exists>ps. get_session pm' (''sync_'' @ uuid) = Some ps \<and> pss_completed_chunks ps = {||} \<and>
       pss_pending_chunks ps = {||} \<and> pss_failed_chunks ps = {||}) \<and>
    (\<exists>st. resume_sync env order cas' (''sync_'' @ uuid) pm' = Inl (NotResumable (''sync_'' @ uuid) st))"
proof -
  note s = start_record_ok [OF assms]
  have "record_ok (fold (endpoint_event env) events ep)" by (rule records.inv_fold [OF s(1)])
  from interrupted_record [OF this, of env t] s(2) show ?thesis
    by (auto simp add: Let_def resume_sync_def can_resume_def)
qed

theorem interrupted_sync_cannot_resume_witness:
  "\<exists>ep. sample_transport Initiator = Inr ep \<and>
     (let pm' = ep_persist (snd (interrupt_sync sample_link_env 9 (fold (endpoint_event sample_link_env)
        [Turn, Result 1 \<lparr>tr_chunk_hash = [7], tr_success = True, tr_bytes = 1, tr_error = None\<rparr>] ep))) in
      \<exists>st. resume_sync sample_link_env (\<lambda>_. []) (new_store (sample_env 1) rev default_cas_config None 0 [])
        ''sync_u-u-i-d'' pm' = Inl (NotResumable ''sync_u-u-i-d'' st))"
proof -
  obtain ep where ep: "sample_transport Initiator = Inr ep" using sample_transport [of Initiator] by auto
  have "length (peer_name_of sample_link_env [1, 2, 3]) = 6"
    by (simp add: peer_name_of_def sample_link_env_def sample_link_start_def hex_encode_def
        sample_sync_env_def sample_env_def)
  moreover have "length ''u-u-i-d'' \<noteq> 6" by simp
  ultimately have u: "''u-u-i-d'' \<noteq> peer_name_of sample_link_env [1, 2, 3]" by metis
  note r = interrupted_sync_cannot_resume [OF ep [unfolded sample_transport_def] u, unfolded Let_def]
  have "\<exists>st. resume_sync sample_link_env order cas' ''sync_u-u-i-d''
      (ep_persist (snd (interrupt_sync sample_link_env t (fold (endpoint_event sample_link_env) events ep))))
      = Inl (NotResumable ''sync_u-u-i-d'' st)" for order cas' t events
    using r [THEN conjunct2] by simp
  with ep show ?thesis unfolding Let_def by blast
qed

end
