(* ===== verification/Spec2Isabelle.thy ===== *)
theory Spec2Isabelle
  imports Containers Machines Codec Chunker Validation Sync_Handler Manifest Diff Conflicts Circuit Framing Packfile Cas Streaming Session Bloom Resume Resumable Flow Pool Sync_Db Orchestrator Recovery Index_Db Migrations Indexer Daemon File_Sync Persistence Fs_Watch Watcher Reconnect Pairing Identity Certificates Secure_Pairing Transfer_Engine Health Folder_Service Sync_Link
begin

text \<open>
  Landropic synchronises folders between devices.  A folder is indexed into a manifest, which
  lists its files with the hashes of their content-defined chunks; the chunks are kept in a
  content-addressed store; two devices compare manifests over QUIC streams, and the one that
  lacks chunks asks for them, receives, verifies and stores them.  A database remembers what
  each peer was sent, a recovery log what was under way when the process stopped.  This
  development models these parts, one theory per component, and proves what makes them
  correct, or exactly how they fail.

  The parts, bottom up:

  \<^item> \<open>Prelude\<close>, \<open>Codec\<close>, \<open>Containers\<close>, \<open>Machines\<close>: machine words, results and the \<open>?\<close>
    operator, decimal printing, little- and big-endian integers, hash maps and sets with an
    arbitrary iteration order (locale \<open>dictionary\<close>, interpreted on \<open>hm_get\<close>, \<open>hm_put\<close>,
    \<open>hm_del\<close>), and the contracts \<open>machine\<close> (an invariant every step keeps, so every run does)
    and \<open>simulation\<close> (an abstraction that maps steps to steps, so runs to runs).
  \<^item> \<open>Chunker\<close> (\<open>landro-chunker/src/chunker.rs\<close>, \<open>hash.rs\<close>): the gear hash, the boundary search
    and both chunking entry points.  Chunks are consecutive, within the size limits, and
    concatenate to the input; the streamed and the buffered chunker agree.
  \<^item> \<open>Packfile\<close>, \<open>Cas\<close>, \<open>Streaming\<close> (\<open>landro-cas/src/packfile.rs\<close>, \<open>storage.rs\<close>): packs and
    their readers; the object store with its atomic write, recovery, cache, deduplication index
    and batches; streamed and resumable writes and the walks over the store.  The locale
    \<open>chunk_store\<close> states the store's contract; it is interpreted on the plain and on the
    streamed write.
  \<^item> \<open>Manifest\<close> (\<open>landro-index/src/manifest.rs\<close>): the Merkle root, verification, differences.
  \<^item> \<open>Index_Db\<close>, \<open>Migrations\<close>, \<open>Indexer\<close>, \<open>Fs_Watch\<close> (\<open>landro-index/src/database.rs\<close>,
    \<open>database_pool.rs\<close>, \<open>schema.rs\<close>, \<open>migrations.rs\<close>, \<open>indexer.rs\<close>, \<open>watcher\<close>): the tables of the
    index, with their keys and cascades, the migrations that build and undo them, and the indexer
    that walks a folder, chunks and stores its files and saves the manifest.  A saved manifest is
    read back; what was indexed can be restored from the store; a folder can be indexed only once,
    so what the folder watcher reports - the last event of every path, once things are quiet -
    changes nothing.
  \<^item> \<open>Proto\<close>, \<open>Validation\<close>, \<open>Sync_Handler\<close> (\<open>landro-proto\<close>): the messages and versions, the
    validators of everything that arrives, and the handler of a connection as a state machine.
  \<^item> \<open>Framing\<close>, \<open>Quic_Errors\<close>, \<open>Circuit\<close>, \<open>Pool\<close>, \<open>Reconnect\<close>, \<open>Health\<close>, \<open>Pairing\<close>,
    \<open>Flow\<close>, \<open>Resumable\<close>, \<open>Transfer_Engine\<close>
    (\<open>landro-quic\<close>): typed and batched messages on streams, the error classes, the circuit breaker
    with its retries, the pool of connections with the tasks that fill it again and the monitor of
    their health, pairing by passphrase, the flow controller and the transfer scheduler, resumable
    transfers and the engine that runs them over batches of chunks.
  \<^item> \<open>Identity\<close>, \<open>Certificates\<close>, \<open>Secure_Pairing\<close> (\<open>landro-crypto\<close>): the identity of a device and its
    key file, which a crash leaves old or new; certificates, the list of trusted devices with its pins
    and its directory, and which peers a handshake accepts; the verifier of the pairing mode with
    handshakes in parallel, which can deadlock and can accept two of them.
  \<^item> \<open>Diff\<close>, \<open>Conflicts\<close>, \<open>Session\<close>, \<open>Sync_Db\<close>, \<open>Orchestrator\<close>, \<open>Persistence\<close>, \<open>Recovery\<close>,
    \<open>Sync_Link\<close> (\<open>landro-sync\<close>):
    what to transfer, which changes clash and how a clash is resolved, the session over the
    messages, the database of peers and pending transfers, who may sync when and which transfer is
    next, the sessions kept on disk, the log that survives a crash, and the
    transport that runs a session over QUIC, with two transports that sync with each other.
  \<^item> \<open>Bloom\<close>, \<open>Resume\<close>, \<open>Daemon\<close>, \<open>Watcher\<close>,
    \<open>File_Sync\<close>, \<open>Folder_Service\<close> (\<open>landro-daemon\<close>): the Bloom filter and
    its exchange, the checkpoints of interrupted syncs; the daemon's actor, which handles messages and ticks,
    debounces changes and puts files through chunker, store and index.  What it keeps is stated
    once in the locale \<open>pipeline_keeps\<close>, interpreted on the parts it does not touch, on the rows
    of the index and on the objects of the store.  A folder that is added is stored; a change to a
    file in it never reaches the index.  The file watcher is a task that batches events for the
    actor: none is lost while its channel is open, none arrives once it is closed.  The simple
    file transfer is a transition relation of sender and receiver with lost connections: it is
    sound always, and completes if undisturbed.  The first daemon is a service that is started
    and stopped, with the folders it watches.
  \<^item> This theory composes them: a file that is cut by the chunker, sent chunk by chunk through
    the framing, validated, and written to the other device's store.

  How the code appears.  A struct is a record, an enum a datatype with the source's
  constructors, a method a function that takes and returns the state; \<open>Result\<close> is a sum with
  the error on the left, a panic or a loop that does not return is the value \<open>None\<close>, integers
  keep their width where they can wrap.  Operations on shared state behind a lock are atomic
  steps, except in \<open>Secure_Pairing\<close>, which splits them at the locks; concurrent operations are
  arbitrary sequences of such steps.  Functions keep the names
  of the code.

  Parameters stand for what is not code of the repository: BLAKE3 and its hexadecimal form, the
  compressors and the LRU cache, prost's codec, serde's JSON and chrono's times, SQLite's
  functions, the file system and the clock, fresh identifiers, the iteration order of hash maps.
  What is required of one is a named predicate (\<open>env_ok\<close>, \<open>codec_ok\<close>, \<open>json_ok\<close>,
  \<open>iter_order\<close> and the like) that states its documented behaviour, and every property with
  such a requirement has a witness at a concrete instance.

  Loops without a bound of their own are \<open>partial_function (option)\<close>: the chunk loops, the
  eviction loop of the cache, the walk over directories.  That they return is proved where they do
  (\<open>chunk_bytes_lossless\<close>), and characterised where they may not
  (\<open>read_returns_iff_cache_can_drain\<close>).  No fuel is used.

  Not modelled: the transport itself (quinn and the TLS of rustls), discovery by mDNS,
  file-system notification back ends of the operating systems, metrics and performance
  counters, command-line parsing and process control, tests, benchmarks and examples.  They
  hold no logic that can be stated without the external service they wrap, or only call parts
  that are modelled here.  The manifest of the development lists each with its reason.
\<close>

section \<open>From one store to the other\<close>

text \<open>The message a chunk is sent in, as \<open>handle_want\<close> of \<open>landro-sync/src/protocol.rs\<close> fills it.\<close>

definition chunk_message :: "chunk \<Rightarrow> chunk_data" where
  "chunk_message k = \<lparr>cd_hash = chunk_hash k, cd_data = chunk_bytes_of k, cd_compressed = False,
     cd_uncompressed_size = word_of_nat (length (chunk_bytes_of k))\<rparr>"

lemma cut_chunk_valid_iff:
  assumes "new_chunker c = Inr ch" and "\<And>x. length (blake3 x) = 32"
    and "chunks_at blake3 0 ks" and "sized_chunks c ks" and "k \<in> set ks"
  shows "validate_chunk_data blake3 (chunk_message k) = Inr () \<longleftrightarrow> 256 \<le> length (chunk_bytes_of k)"
proof -
  have "chunk_hash k = blake3 (chunk_bytes_of k)" and "length (chunk_bytes_of k) \<le> max_size c"
    using assms(3-5) chunks_at_set by (auto simp add: sized_chunks_def)
  with assms(2) new_chunker_limits [OF assms(1)] show ?thesis
    by (auto simp add: validate_chunk_data_def result_simps limits chunk_message_def)
qed

lemma cut_chunks_valid_iff:
  assumes "new_chunker c = Inr ch" and "\<And>x. length (blake3 x) = 32"
    and "chunks_at blake3 0 ks" and "sized_chunks c ks" and "ks \<noteq> []"
  shows "list_all (\<lambda>k. validate_chunk_data blake3 (chunk_message k) = Inr ()) ks \<longleftrightarrow>
    256 \<le> length (chunk_bytes_of (last ks))"
proof -
  have "set ks = insert (last ks) (set (butlast ks))"
    using assms(5) by (metis append_butlast_last_id list.simps(15) rotate1.simps(2) set_rotate1)
  moreover have "256 \<le> length (chunk_bytes_of k)" if "k \<in> set (butlast ks)" for k
    using that assms(4) new_chunker_limits [OF assms(1)] by (auto simp add: sized_chunks_def)
  ultimately show ?thesis
    using cut_chunk_valid_iff [OF assms(1-4)] by (auto simp add: list_all_iff)
qed

text \<open>C32: A file is sendable exactly if its last chunk has at least 256 bytes: the chunker cuts
  files whose last chunk may have any size, and the message validation on both sides refuses
  chunks below 256 bytes.  So no file of 1 to 255 bytes can be sent.\<close>

theorem sendable_iff_last_chunk_large:
  assumes "new_chunker c = Inr ch" and "\<And>x. length (blake3 x) = 32" and "data \<noteq> []"
  shows "\<exists>ks. chunk_bytes blake3 ch data = Some ks \<and> ks \<noteq> [] \<and>
    (list_all (\<lambda>k. validate_chunk_data blake3 (chunk_message k) = Inr ()) ks \<longleftrightarrow>
       256 \<le> length (chunk_bytes_of (last ks))) \<and>
    (length data < 256 \<longrightarrow> list_all (\<lambda>k. \<exists>e. send_chunk_data blake3 cs (chunk_message k) = Inl e) ks)"
proof -
  obtain ks where ks: "chunk_bytes blake3 ch data = Some ks" "concat (map chunk_bytes_of ks) = data"
      "chunks_at blake3 0 ks" "sized_chunks c ks"
    using cut_file [OF assms(1)] by blast
  have ne: "ks \<noteq> []" using ks(2) assms(3) by auto
  have "\<exists>e. send_chunk_data blake3 cs (chunk_message k) = Inl e" if "length data < 256" "k \<in> set ks" for k
  proof -
    have "length (chunk_bytes_of k) \<le> length data"
      using that(2) ks(2) chunk_length_le by blast
    then have "validate_chunk_data blake3 (chunk_message k) \<noteq> Inr ()"
      using that cut_chunk_valid_iff [OF assms(1,2) ks(3,4)] by simp
    then show ?thesis
      by (cases "validate_chunk_data blake3 (chunk_message k)") (auto simp add: send_chunk_data_def)
  qed
  with ks ne cut_chunks_valid_iff [OF assms(1,2) ks(3,4) ne] show ?thesis
    by (auto simp add: list_all_iff)
qed

theorem sendable_iff_last_chunk_large_witness:
  "\<exists>ch ks. new_chunker default_config = Inr ch \<and>
    chunk_bytes (\<lambda>_. replicate 32 0) ch [1, 2, 3] = Some ks \<and> ks \<noteq> [] \<and>
    (list_all (\<lambda>k. validate_chunk_data (\<lambda>_. replicate 32 0) (chunk_message k) = Inr ()) ks \<longleftrightarrow>
       256 \<le> length (chunk_bytes_of (last ks))) \<and>
    (length [1, 2, 3 :: u8] < 256 \<longrightarrow> list_all (\<lambda>k. \<exists>e.
       send_chunk_data (\<lambda>_. replicate 32 0) (sample_codecs ''docs'') (chunk_message k) = Inl e) ks)"
proof -
  obtain ch where ch: "new_chunker default_config = Inr ch"
    by (simp add: new_chunker_def validate_config_def default_config_def)
  have "length (replicate 32 0 :: bytes) = 32" and "[1, 2, 3 :: u8] \<noteq> []" by simp_all
  from sendable_iff_last_chunk_large [OF ch this, of "sample_codecs ''docs''"] ch show ?thesis by blast
qed

lemma send_valid_chunk:
  assumes "validate_chunk_data blake3 m = Inr ()" and "codec_ok (c_chunk cs) m"
    and "length (encode (c_chunk cs) m) \<le> MAX_MESSAGE_SIZE"
  shows "\<exists>s. send_chunk_data blake3 cs m = Inr s \<and> receive_chunk_data blake3 short cs s = Inr m"
proof -
  obtain s where s: "send_message (c_chunk cs) TChunkData m = Inr s"
    using assms(3) by (auto simp add: send_message_def Let_def)
  with receive_sent [OF assms(2) s, of short "[]"] assms(1) show ?thesis
    by (auto simp add: send_chunk_data_def receive_chunk_data_def)
qed

text \<open>What the receiver stores.\<close>

definition store_received :: "'c cas_env \<Rightarrow> chunk_data list \<Rightarrow> 'c store \<Rightarrow> 'c store" where
  "store_received env ms s = fold (\<lambda>d s. snd (write_object env d s)) (map cd_data ms) s"

text \<open>C1: A file reaches the other store: cut by an accepted chunker, framed and validated by the
  sender, validated by the receiver and written to its store, a file whose last chunk has at
  least 256 bytes can be read back from that store chunk by chunk, in order and without loss,
  as long as the codec decodes what it encodes, no encoding exceeds the message limit and no
  two of the objects involved have the same hash.\<close>

theorem file_reaches_the_other_store:
  assumes "new_chunker c = Inr ch" and "chunk_bytes (e_blake3 env) ch data = Some ks"
    and "ks \<noteq> []" and "256 \<le> length (chunk_bytes_of (last ks))"
    and "env_ok env" and "store_ok env s"
    and "\<forall>k\<in>set ks. codec_ok (c_chunk cs) (chunk_message k) \<and>
      length (encode (c_chunk cs) (chunk_message k)) \<le> MAX_MESSAGE_SIZE"
    and "inj_on (e_blake3 env) (insert [] (set (map chunk_bytes_of ks) \<union> Cas.contents s))"
  shows "\<exists>frames ms ds.
    map (\<lambda>k. send_chunk_data (e_blake3 env) cs (chunk_message k)) ks = map Inr frames \<and>
    map (receive_chunk_data (e_blake3 env) short cs) frames = map Inr ms \<and>
    map (\<lambda>k. read_individual env (chunk_hash k) (store_received env ms s)) ks = map Inr ds \<and>
    concat ds = data"
proof -
  have len: "length (e_blake3 env x) = 32" for x using assms(5) by (simp add: env_ok_def)
  have ks: "concat (map chunk_bytes_of ks) = data" "chunks_at (e_blake3 env) 0 ks" "sized_chunks c ks"
    using cut_file [OF assms(1), of "e_blake3 env" data] assms(2) by auto
  note cut = chunks_at_set [OF ks(2)]
  have valid: "validate_chunk_data (e_blake3 env) (chunk_message k) = Inr ()" if "k \<in> set ks" for k
    using cut_chunks_valid_iff [OF assms(1) len ks(2,3) assms(3)] assms(4) that by (simp add: list_all_iff)
  define frame where "frame k = projr (send_chunk_data (e_blake3 env) cs (chunk_message k))" for k
  have frame: "send_chunk_data (e_blake3 env) cs (chunk_message k) = Inr (frame k) \<and>
      receive_chunk_data (e_blake3 env) short cs (frame k) = Inr (chunk_message k)" if "k \<in> set ks" for k
    using send_valid_chunk [OF valid [OF that], of cs short] assms(7) that by (auto simp add: frame_def)
  have data: "map cd_data (map chunk_message ks) = map chunk_bytes_of ks"
    by (simp add: chunk_message_def)
  have "read_individual env (chunk_hash k) (store_received env (map chunk_message ks) s) =
      Inr (chunk_bytes_of k)" if k: "k \<in> set ks" for k
  proof -
    have "length (chunk_bytes_of k) \<le> 16 * 1024 * 1024"
      using k ks(3) new_chunker_limits [OF assms(1)] by (auto simp add: sized_chunks_def)
    moreover have "e_blake3 env (chunk_bytes_of k) \<noteq> e_blake3 env []"
      using assms(8) k cut [OF k] by (auto simp add: inj_on_def)
    ultimately have "storable env (chunk_bytes_of k)"
      using cut [OF k] by (simp add: storable_def MAX_OBJECT_SIZE_def)
    moreover have "inj_on (e_blake3 env) (set (map chunk_bytes_of ks) \<union> Cas.contents s)"
      using assms(8) by (rule inj_on_subset) auto
    ultimately show ?thesis
      using stored_object [OF assms(5,6), of "chunk_bytes_of k" "map chunk_bytes_of ks"] k cut [OF k]
      by (simp only: store_received_def data) simp
  qed
  then have "map (\<lambda>k. read_individual env (chunk_hash k) (store_received env (map chunk_message ks) s)) ks =
      map Inr (map chunk_bytes_of ks)" by simp
  moreover have "map (receive_chunk_data (e_blake3 env) short cs) (map frame ks) = map Inr (map chunk_message ks)"
    and "map (\<lambda>k. send_chunk_data (e_blake3 env) cs (chunk_message k)) ks = map Inr (map frame ks)"
    using frame by simp_all
  ultimately show ?thesis using ks(1) by blast
qed

definition sample_bytes :: bytes where
  "sample_bytes = replicate 300 1"

lemma sample_cut:
  assumes "new_chunker default_config = Inr ch"
  shows "\<exists>k. chunk_bytes blake3 ch sample_bytes = Some [k] \<and> chunk_bytes_of k = sample_bytes"
proof -
  obtain ks where ks: "chunk_bytes blake3 ch sample_bytes = Some ks"
      "concat (map chunk_bytes_of ks) = sample_bytes" "sized_chunks default_config ks"
    using cut_file [OF assms] by blast
  have "length (chunk_bytes_of k) \<le> 300" if "k \<in> set ks" for k
    using chunk_length_le [OF that] unfolding ks(2) by (simp add: sample_bytes_def)
  moreover have "256 * 1024 \<le> length (chunk_bytes_of k)" if "k \<in> set (butlast ks)" for k
    using that ks(3) by (simp add: sized_chunks_def default_config_def)
  ultimately have "k \<notin> set (butlast ks)" for k using in_set_butlastD [of k ks] by fastforce
  then have one: "butlast ks = []" by (metis equals0I set_empty)
  have "ks \<noteq> []" using ks(2) by (auto simp add: sample_bytes_def)
  with one have "ks = [last ks]" by (metis append_butlast_last_id append_Nil)
  then obtain k where "ks = [k]" ..
  with ks(1,2) show ?thesis by auto
qed

theorem file_reaches_the_other_store_witness:
  "\<exists>ch k frames ms ds. new_chunker default_config = Inr ch \<and>
    chunk_bytes (e_blake3 (sample_env 1)) ch sample_bytes = Some [k] \<and>
    map (\<lambda>k'. send_chunk_data (e_blake3 (sample_env 1))
      ((sample_codecs ''docs'')\<lparr>c_chunk := one_message (chunk_message k)\<rparr>) (chunk_message k')) [k] = map Inr frames \<and>
    map (receive_chunk_data (e_blake3 (sample_env 1)) ''eof''
      ((sample_codecs ''docs'')\<lparr>c_chunk := one_message (chunk_message k)\<rparr>)) frames = map Inr ms \<and>
    map (\<lambda>k. read_individual (sample_env 1) (chunk_hash k)
      (store_received (sample_env 1) ms (new_store (sample_env 1) rev default_cas_config None 0 []))) [k] = map Inr ds \<and>
    concat ds = sample_bytes"
proof -
  obtain ch where ch: "new_chunker default_config = Inr ch"
    by (simp add: new_chunker_def validate_config_def default_config_def)
  obtain k where k: "chunk_bytes (e_blake3 (sample_env 1)) ch sample_bytes = Some [k]"
      "chunk_bytes_of k = sample_bytes"
    using sample_cut [OF ch] by blast
  let ?s = "new_store (sample_env 1) rev default_cas_config None 0 []"
  let ?cs = "(sample_codecs ''docs'')\<lparr>c_chunk := one_message (chunk_message k)\<rparr>"
  have store: "store_ok (sample_env 1) ?s" by (rule store_ok_new [OF sample_env_ok iter_order_rev])
  have "Cas.contents ?s = {}"
    by (simp add: Cas.contents_def new_store_empty [of rev] hm.get_empty ran_def)
  moreover have "e_blake3 (sample_env 1) sample_bytes \<noteq> e_blake3 (sample_env 1) []"
    by (simp add: sample_bytes_def sample_env_def pad_hash_def numeral_eq_Suc)
  ultimately have inj: "inj_on (e_blake3 (sample_env 1)) (insert [] (set (map chunk_bytes_of [k]) \<union> Cas.contents ?s))"
    by (auto simp add: k(2))
  have codec: "\<forall>k'\<in>set [k]. codec_ok (c_chunk ?cs) (chunk_message k') \<and>
      length (encode (c_chunk ?cs) (chunk_message k')) \<le> MAX_MESSAGE_SIZE"
    by (simp add: codec_ok_one_message) (simp add: one_message_def limits)
  have "256 \<le> length (chunk_bytes_of (last [k]))" by (simp add: k(2) sample_bytes_def)
  from file_reaches_the_other_store [OF ch k(1) _ this sample_env_ok store codec inj, of "''eof''"] ch k(1)
  show ?thesis by blast
qed

end
